(* ===== verification/Prelude.thy ===== *)
theory Prelude
  imports Complex_Main "HOL-Library.Word"
begin

text \<open>
  Shared vocabulary of the development: Go's byte strings and the functions of the
  packages \<^verbatim>\<open>strings\<close>, \<^verbatim>\<open>strconv\<close> and \<^verbatim>\<open>fmt\<close> that the sources call, Go's error results,
  time stamps and 32-bit message numbers, and the list and option lemmas the component
  theories share.

  A Go \<^verbatim>\<open>string\<close> is a sequence of bytes and HOL's \<open>string\<close> is a list of 8-bit characters,
  so \<open>length\<close> is Go's \<^verbatim>\<open>len\<close>. The Unicode-aware functions (\<^verbatim>\<open>ToLower\<close>, \<^verbatim>\<open>EqualFold\<close>,
  \<^verbatim>\<open>TrimSpace\<close>) are modelled on their ASCII part; they leave every byte from 128 on
  unchanged.
\<close>

section \<open>Collections of simplification rules\<close>

named_theorems go_str \<open>laws of the string functions\<close>
named_theorems frame \<open>fields that an operation leaves alone\<close>

section \<open>Types the components share\<close>

type_synonym uint32 = "32 word"
type_synonym go_time = int \<comment> \<open>nanoseconds on one time line; the zero time is an option's None\<close>
type_synonym duration = int \<comment> \<open>nanoseconds, as \<^verbatim>\<open>time.Duration\<close>\<close>
type_synonym float64 = rat \<comment> \<open>finite values, exact arithmetic\<close>
type_synonym error = string
type_synonym 'a result = "error + 'a" \<comment> \<open>\<^verbatim>\<open>(value, error)\<close>: \<open>Inl\<close> for a non-nil error\<close>

abbreviation second :: duration where "second \<equiv> 1000000000"
abbreviation minute :: duration where "minute \<equiv> 60 * second"
abbreviation hour :: duration where "hour \<equiv> 3600 * second"

fun is_ok :: "'a result \<Rightarrow> bool" where
  "is_ok (Inl _) = False"
| "is_ok (Inr _) = True"

lemma is_ok_iff: "is_ok r \<longleftrightarrow> (\<exists>x. r = Inr x)"
  by (cases r) auto

section \<open>Package strings\<close>

definition hasPrefix :: "string \<Rightarrow> string \<Rightarrow> bool" where
  "hasPrefix s p \<longleftrightarrow> take (length p) s = p"

definition hasSuffix :: "string \<Rightarrow> string \<Rightarrow> bool" where
  "hasSuffix s p \<longleftrightarrow> length p \<le> length s \<and> drop (length s - length p) s = p"

definition trimPrefix :: "string \<Rightarrow> string \<Rightarrow> string" where
  "trimPrefix s p = (if hasPrefix s p then drop (length p) s else s)"

definition trimSuffix :: "string \<Rightarrow> string \<Rightarrow> string" where
  "trimSuffix s p = (if hasSuffix s p then take (length s - length p) s else s)"

fun strIndex :: "string \<Rightarrow> string \<Rightarrow> nat option" where
  "strIndex [] sub = (if sub = [] then Some 0 else None)"
| "strIndex (c # cs) sub =
     (if hasPrefix (c # cs) sub then Some 0 else map_option Suc (strIndex cs sub))"

definition contains :: "string \<Rightarrow> string \<Rightarrow> bool" where
  "contains s sub \<longleftrightarrow> strIndex s sub \<noteq> None"

fun indexByte :: "string \<Rightarrow> char \<Rightarrow> nat option" where
  "indexByte [] b = None"
| "indexByte (c # cs) b = (if c = b then Some 0 else map_option Suc (indexByte cs b))"

fun indexAny :: "string \<Rightarrow> string \<Rightarrow> nat option" where
  "indexAny [] set_of = None"
| "indexAny (c # cs) set_of = (if c \<in> set set_of then Some 0 else map_option Suc (indexAny cs set_of))"

fun lastIndexByte :: "string \<Rightarrow> char \<Rightarrow> nat option" where
  "lastIndexByte [] b = None"
| "lastIndexByte (c # cs) b =
     (case lastIndexByte cs b of
        Some i \<Rightarrow> Some (Suc i)
      | None \<Rightarrow> if c = b then Some 0 else None)"

fun splitOn :: "char \<Rightarrow> string \<Rightarrow> string list" where
  "splitOn sep [] = [[]]"
| "splitOn sep (c # cs) =
     (if c = sep then [] # splitOn sep cs
      else (case splitOn sep cs of [] \<Rightarrow> [[c]] | p # ps \<Rightarrow> (c # p) # ps))"

fun strJoin :: "string list \<Rightarrow> string \<Rightarrow> string" where
  "strJoin [] sep = []"
| "strJoin [x] sep = x"
| "strJoin (x # y # ys) sep = x @ sep @ strJoin (y # ys) sep"

text \<open>\<^verbatim>\<open>strings.FieldsFunc\<close>: the maximal runs of characters that do not satisfy the predicate.\<close>

fun fieldsFunc :: "(char \<Rightarrow> bool) \<Rightarrow> string \<Rightarrow> string \<Rightarrow> string list" where
  "fieldsFunc f [] cur = (if cur = [] then [] else [rev cur])"
| "fieldsFunc f (c # cs) cur =
     (if f c then (if cur = [] then fieldsFunc f cs [] else rev cur # fieldsFunc f cs [])
      else fieldsFunc f cs (c # cur))"

fun replaceAll :: "string \<Rightarrow> string \<Rightarrow> string \<Rightarrow> string" where
  "replaceAll [] old new = []"
| "replaceAll (c # cs) old new =
     (if old \<noteq> [] \<and> hasPrefix (c # cs) old
      then new @ replaceAll (drop (length old - 1) cs) old new
      else c # replaceAll cs old new)"

definition repeatStr :: "string \<Rightarrow> nat \<Rightarrow> string" where
  "repeatStr s n = concat (replicate n s)"

definition asciiSpace :: "char \<Rightarrow> bool" where
  "asciiSpace c \<longleftrightarrow> c \<in> {CHR '' '', CHR 0x09, CHR 0x0A, CHR 0x0B, CHR 0x0C, CHR 0x0D}"

text \<open>The class \<^verbatim>\<open>\s\<close> of the \<^verbatim>\<open>regexp\<close> package.\<close>

definition reSpace :: "char \<Rightarrow> bool" where
  "reSpace c \<longleftrightarrow> c \<in> {CHR '' '', CHR 0x09, CHR 0x0A, CHR 0x0C, CHR 0x0D}"

definition trimRight :: "string \<Rightarrow> string \<Rightarrow> string" where
  "trimRight s cutset = rev (dropWhile (\<lambda>c. c \<in> set cutset) (rev s))"

definition trimSpace :: "string \<Rightarrow> string" where
  "trimSpace s = rev (dropWhile asciiSpace (rev (dropWhile asciiSpace s)))"

definition lowerChar :: "char \<Rightarrow> char" where
  "lowerChar c =
     (let n = (of_char c :: nat) in if 65 \<le> n \<and> n \<le> 90 then char_of (n + 32) else c)"

definition toLower :: "string \<Rightarrow> string" where
  "toLower s = map lowerChar s"

definition equalFold :: "string \<Rightarrow> string \<Rightarrow> bool" where
  "equalFold s t \<longleftrightarrow> toLower s = toLower t"

section \<open>Packages strconv and fmt\<close>

definition digitChar :: "nat \<Rightarrow> char" where
  "digitChar n = char_of (48 + n)"

fun natStr :: "nat \<Rightarrow> string" where
  "natStr n = (if n < 10 then [digitChar n] else natStr (n div 10) @ [digitChar (n mod 10)])"

declare natStr.simps [simp del]

definition intStr :: "int \<Rightarrow> string" where
  "intStr i = (if i < 0 then CHR ''-'' # natStr (nat (- i)) else natStr (nat i))"

text \<open>
  \<^verbatim>\<open>%.1f\<close>: the exact value rounded half to even at the first decimal. A value that rounds to
  zero from below keeps its sign, as in Go.
\<close>

definition roundHalfEven :: "rat \<Rightarrow> int" where
  "roundHalfEven x =
     (let f = \<lfloor>x\<rfloor>; d = x - of_int f
      in if d < 1 / 2 then f else if d > 1 / 2 then f + 1 else if even f then f else f + 1)"

definition fmtF1 :: "float64 \<Rightarrow> string" where
  "fmtF1 x =
     (let r = nat (roundHalfEven (\<bar>x\<bar> * 10))
      in (if x < 0 then ''-'' else []) @ natStr (r div 10) @ ''.'' @ [digitChar (r mod 10)])"

text \<open>\<^verbatim>\<open>int(f)\<close>: conversion of a float truncates towards zero.\<close>

definition truncInt :: "float64 \<Rightarrow> int" where
  "truncInt x = (if 0 \<le> x then \<lfloor>x\<rfloor> else \<lceil>x\<rceil>)"

text \<open>The UTF-8 bytes of the three non-ASCII characters the messages use.\<close>

definition geSign :: string where "geSign = [CHR 0xE2, CHR 0x89, CHR 0xA5]"
definition emDash :: string where "emDash = [CHR 0xE2, CHR 0x80, CHR 0x94]"
definition ellipsis :: string where "ellipsis = [CHR 0xE2, CHR 0x80, CHR 0xA6]"

section \<open>Laws of the string functions\<close>

lemma hasPrefix_iff: "hasPrefix s p \<longleftrightarrow> (\<exists>t. s = p @ t)"
  unfolding hasPrefix_def by (metis append_eq_conv_conj append_take_drop_id)

lemma hasPrefix_append [simp]: "hasPrefix (p @ t) p"
  by (simp add: hasPrefix_def)

lemma hasPrefix_Nil [simp]: "hasPrefix s []"
  by (simp add: hasPrefix_def)

lemma hasPrefix_Cons [simp]: "hasPrefix (c # cs) (d # ds) \<longleftrightarrow> c = d \<and> hasPrefix cs ds"
  by (auto simp: hasPrefix_def)

lemma hasPrefix_Nil_Cons [simp]: "\<not> hasPrefix [] (d # ds)"
  by (simp add: hasPrefix_def)

lemma hasPrefix_trans: "hasPrefix s p \<Longrightarrow> hasPrefix p q \<Longrightarrow> hasPrefix s q"
  by (auto simp: hasPrefix_iff)

lemma hasSuffix_iff: "hasSuffix s p \<longleftrightarrow> (\<exists>t. s = t @ p)"
proof
  assume "hasSuffix s p"
  then show "\<exists>t. s = t @ p"
    unfolding hasSuffix_def by (metis append_take_drop_id)
next
  assume "\<exists>t. s = t @ p"
  then show "hasSuffix s p"
    by (auto simp: hasSuffix_def)
qed

lemma hasSuffix_append [simp]: "hasSuffix (t @ p) p"
  by (simp add: hasSuffix_def)

lemma strIndex_Some: "strIndex s sub = Some i \<Longrightarrow> hasPrefix (drop i s) sub \<and> i \<le> length s"
  by (induction s arbitrary: i) (auto split: if_splits)

lemma strIndex_None: "strIndex s sub = None \<Longrightarrow> \<not> hasPrefix (drop i s) sub"
proof (induction s arbitrary: i)
  case Nil
  then show ?case by (cases sub) (auto split: if_splits)
next
  case (Cons c cs)
  then show ?case by (cases i) (auto split: if_splits)
qed

lemma contains_iff: "contains s sub \<longleftrightarrow> (\<exists>u v. s = u @ sub @ v)"
proof
  assume "contains s sub"
  then obtain i where "strIndex s sub = Some i" by (auto simp: contains_def)
  then have "hasPrefix (drop i s) sub" by (simp add: strIndex_Some)
  then obtain v where "drop i s = sub @ v" by (auto simp: hasPrefix_iff)
  then show "\<exists>u v. s = u @ sub @ v" by (metis append_take_drop_id)
next
  assume "\<exists>u v. s = u @ sub @ v"
  then obtain u v where "s = u @ sub @ v" by blast
  then have "hasPrefix (drop (length u) s) sub" by simp
  then show "contains s sub" unfolding contains_def using strIndex_None by blast
qed

lemma indexByte_Some: "indexByte s b = Some i \<Longrightarrow> i < length s \<and> s ! i = b \<and> b \<notin> set (take i s)"
  by (induction s arbitrary: i) (auto split: if_splits)

lemma indexByte_None: "indexByte s b = None \<longleftrightarrow> b \<notin> set s"
  by (induction s) auto

lemma indexByte_append: "b \<notin> set s \<Longrightarrow> indexByte (s @ b # t) b = Some (length s)"
  by (induction s) auto

lemma lastIndexByte_None: "lastIndexByte s b = None \<longleftrightarrow> b \<notin> set s"
  by (induction s) (auto split: option.splits)

lemma lastIndexByte_append: "b \<notin> set t \<Longrightarrow> lastIndexByte (s @ b # t) b = Some (length s)"
proof (induction s)
  case Nil
  then show ?case using lastIndexByte_None [of t b] by (auto split: option.splits)
next
  case (Cons c cs)
  then show ?case by simp
qed

lemma lastIndexByte_Some:
  "lastIndexByte s b = Some i \<Longrightarrow> i < length s \<and> s ! i = b \<and> b \<notin> set (drop (Suc i) s)"
proof (induction s arbitrary: i)
  case Nil
  then show ?case by simp
next
  case (Cons c cs)
  then show ?case
    using lastIndexByte_None [of cs b] by (auto split: option.splits if_splits)
qed

lemma splitOn_not_Nil [simp]: "splitOn sep s \<noteq> []"
  by (cases s) (auto split: list.splits)

lemma splitOn_join [go_str]: "strJoin (splitOn sep s) [sep] = s"
proof (induction s)
  case Nil
  then show ?case by simp
next
  case (Cons c cs)
  obtain p ps where sp: "splitOn sep cs = p # ps"
    by (meson list.exhaust splitOn_not_Nil)
  then show ?case using Cons by (cases ps) auto
qed

lemma splitOn_no_sep: "p \<in> set (splitOn sep s) \<Longrightarrow> sep \<notin> set p"
  by (induction s arbitrary: p) (auto split: if_splits list.splits)

lemma splitOn_single: "sep \<notin> set s \<Longrightarrow> splitOn sep s = [s]"
  by (induction s) auto

lemma splitOn_append: "sep \<notin> set s \<Longrightarrow> splitOn sep (s @ sep # t) = s # splitOn sep t"
  by (induction s) auto

lemma splitOn_strJoin:
  "xs \<noteq> [] \<Longrightarrow> \<forall>x \<in> set xs. sep \<notin> set x \<Longrightarrow> splitOn sep (strJoin xs [sep]) = xs"
  by (induction xs "[sep]" rule: strJoin.induct) (auto simp: splitOn_single splitOn_append)

lemma lowerChar_idem [simp]: "lowerChar (lowerChar c) = lowerChar c"
  by (auto simp: lowerChar_def Let_def)

lemma toLower_idem [simp]: "toLower (toLower s) = toLower s"
  by (simp add: toLower_def)

lemma toLower_append [simp]: "toLower (s @ t) = toLower s @ toLower t"
  by (simp add: toLower_def)

lemma length_toLower [simp]: "length (toLower s) = length s"
  by (simp add: toLower_def)

lemma equalFold_refl [simp]: "equalFold s s"
  by (simp add: equalFold_def)

lemma equalFold_sym: "equalFold s t \<longleftrightarrow> equalFold t s"
  by (auto simp: equalFold_def)

lemma natStr_not_Nil [simp]: "natStr n \<noteq> []"
  by (subst natStr.simps) simp

lemma digitChar_inj: "a < 10 \<Longrightarrow> b < 10 \<Longrightarrow> digitChar a = digitChar b \<Longrightarrow> a = b"
proof -
  assume a: "a < 10" "b < 10" and "digitChar a = digitChar b"
  then have "of_char (char_of (48 + a) :: char) = (of_char (char_of (48 + b) :: char) :: nat)"
    by (simp add: digitChar_def)
  with a show "a = b" by simp
qed

lemma digitChar_neq_colon: "a < 10 \<Longrightarrow> digitChar a \<noteq> CHR '':''"
proof
  assume a: "a < 10" and "digitChar a = CHR '':''"
  then have "of_char (char_of (48 + a) :: char) = (of_char (CHR '':'') :: nat)"
    by (simp add: digitChar_def)
  with a show False by simp
qed

lemma natStr_no_colon: "CHR '':'' \<notin> set (natStr n)"
proof (induction n rule: natStr.induct)
  case (1 n)
  then show ?case
    using digitChar_neq_colon [of n] digitChar_neq_colon [of "n mod 10"]
    by (subst natStr.simps) auto
qed

lemma natStr_inj: "natStr m = natStr n \<Longrightarrow> m = n"
proof (induction m arbitrary: n rule: natStr.induct)
  case (1 m)
  show ?case
  proof (cases "m < 10"; cases "n < 10")
    assume "m < 10" "n < 10"
    with "1.prems" show ?thesis
      by (auto simp: natStr.simps [of m] natStr.simps [of n] intro: digitChar_inj)
  next
    assume "m < 10" "\<not> n < 10"
    with "1.prems" show ?thesis
      by (auto simp: natStr.simps [of m] natStr.simps [of n] Cons_eq_append_conv)
  next
    assume "\<not> m < 10" "n < 10"
    with "1.prems" show ?thesis
      by (auto simp: natStr.simps [of m] natStr.simps [of n] append_eq_Cons_conv)
  next
    assume m: "\<not> m < 10" and n: "\<not> n < 10"
    with "1.prems" have "natStr (m div 10) = natStr (n div 10)"
        and d: "digitChar (m mod 10) = digitChar (n mod 10)"
      by (auto simp: natStr.simps [of m] natStr.simps [of n])
    then have "m div 10 = n div 10" using "1.IH" [OF m] by simp
    moreover have "m mod 10 = n mod 10" using d by (intro digitChar_inj) auto
    ultimately show ?thesis by (metis mult_div_mod_eq)
  qed
qed

section \<open>Lists\<close>

lemma find_Some_in: "find P xs = Some x \<Longrightarrow> x \<in> set xs \<and> P x"
  by (induction xs) (auto split: if_splits)

lemma find_None_all: "find P xs = None \<longleftrightarrow> (\<forall>x \<in> set xs. \<not> P x)"
  by (induction xs) auto

lemma list_all_notin: "list_all P xs \<Longrightarrow> \<not> P x \<Longrightarrow> x \<notin> set xs"
  by (auto simp: list_all_iff)

lemma list_all_not_ex: "list_all P xs \<Longrightarrow> (\<And>x. P x \<Longrightarrow> \<not> Q x) \<Longrightarrow> \<not> list_ex Q xs"
  by (auto simp: list_all_iff list_ex_iff)

end
