(* ===== verification/Models.thy ===== *)
theory Models
  imports Prelude
begin

text \<open>
  The data model of \<^verbatim>\<open>app/db/models.go\<close>: one record per GORM model with the source's fields,
  the string constants of its \<^verbatim>\<open>const\<close> blocks, the deduplication key \<open>MakeAccountUID\<close>, and the
  JSON columns. A JSON column (\<^verbatim>\<open>datatypes.JSON\<close>, \<^verbatim>\<open>json.RawMessage\<close>) holds a JSON value, or
  nothing when its bytes are empty; encoding and decoding of the payload types are functions
  between the records and \<open>json\<close> values, and the textual form is left to the library.
\<close>

section \<open>JSON values\<close>

datatype json =
    JNull
  | JBool bool
  | JNum rat
  | JStr string
  | JArr "json list"
  | JObj "(string \<times> json) list"

type_synonym jcol = "json option" \<comment> \<open>None: no bytes, SQL NULL\<close>

text \<open>
  \<^verbatim>\<open>json.Unmarshal\<close> into a struct field: keys match case-insensitively, a later key overwrites
  an earlier one, a missing key and \<^verbatim>\<open>null\<close> leave the zero value, and a value of another kind
  is an error.
\<close>

fun jfield :: "string \<Rightarrow> (string \<times> json) list \<Rightarrow> json" where
  "jfield k [] = JNull"
| "jfield k ((k', v) # kvs) =
     (if equalFold k' k \<and> \<not> (\<exists>p \<in> set kvs. equalFold (fst p) k) then v else jfield k kvs)"

fun jstring :: "json \<Rightarrow> string option" where
  "jstring JNull = Some []"
| "jstring (JStr s) = Some s"
| "jstring _ = None"

fun jint :: "json \<Rightarrow> int option" where
  "jint JNull = Some 0"
| "jint (JNum x) = (if x = of_int \<lfloor>x\<rfloor> then Some \<lfloor>x\<rfloor> else None)"
| "jint _ = None"

text \<open>\<^verbatim>\<open>json.Unmarshal\<close> into a slice of T, given the decoder of T.\<close>

fun map_opt :: "('a \<Rightarrow> 'b option) \<Rightarrow> 'a list \<Rightarrow> 'b list option" where
  "map_opt f [] = Some []"
| "map_opt f (x # xs) =
     (case f x of None \<Rightarrow> None | Some y \<Rightarrow> (case map_opt f xs of None \<Rightarrow> None | Some ys \<Rightarrow> Some (y # ys)))"

fun jlist :: "(json \<Rightarrow> 'a option) \<Rightarrow> json \<Rightarrow> 'a list option" where
  "jlist f JNull = Some []"
| "jlist f (JArr xs) = map_opt f xs"
| "jlist f _ = None"

lemma map_opt_roundtrip: "(\<And>x. f (g x) = Some x) \<Longrightarrow> map_opt f (map g xs) = Some xs"
  by (induction xs) auto

lemma jlist_roundtrip: "(\<And>x. f (g x) = Some x) \<Longrightarrow> jlist f (JArr (map g xs)) = Some xs"
  by (simp add: map_opt_roundtrip)

lemma jint_of_int [simp]: "jint (JNum (of_int i)) = Some i"
  by simp

section \<open>Payloads of the JSON columns\<close>

record URLHit =
  uh_URL :: string
  uh_Domain :: string
  uh_Feed :: string
  uh_ThreatType :: string

record ResolvedURLHit =
  rh_OriginalURL :: string
  rh_ResolvedURL :: string
  rh_Hops :: int
  rh_Feed :: string
  rh_ThreatType :: string
  rh_Blocked :: bool

record NRDHit =
  nh_Domain :: string
  nh_RegistrationDate :: string
  nh_AgeDays :: int
  nh_Source :: string

record HTMLSmugglingHit =
  sm_Source :: string
  sm_BlobAPIs :: "string list"
  sm_B64SizeKB :: int

record HiddenTextHit =
  ht_Technique :: string
  ht_Count :: int
  ht_Sample :: string

record AttachmentInfo =
  ai_Filename :: string
  ai_ContentType :: string
  ai_SizeBytes :: int
  ai_SHA256 :: string
  ai_Extension :: string
  ai_IsDangerous :: bool
  ai_VTPositives :: int
  ai_VTTotal :: int
  ai_MBSignature :: string

record IPReputationResult =
  ir_IP :: string
  ir_AbuseScore :: int
  ir_TotalReports :: int
  ir_CountryCode :: string
  ir_ISP :: string
  ir_Source :: string

record VTResult =
  vt_SHA256 :: string
  vt_Filename :: string
  vt_Positives :: int
  vt_Total :: int
  vt_Permalink :: string
  vt_Source :: string

record MBResult =
  mb_SHA256 :: string
  mb_Filename :: string
  mb_Signature :: string
  mb_Source :: string

text \<open>
  \<^verbatim>\<open>json.Marshal\<close> of the payloads, with the struct tags of \<^verbatim>\<open>models.go\<close>: the key names, and
  \<^verbatim>\<open>omitempty\<close> dropping a zero field.
\<close>

definition omitStr :: "string \<Rightarrow> string \<Rightarrow> (string \<times> json) list" where
  "omitStr k s = (if s = [] then [] else [(k, JStr s)])"

definition omitInt :: "string \<Rightarrow> int \<Rightarrow> (string \<times> json) list" where
  "omitInt k i = (if i = 0 then [] else [(k, JNum (of_int i))])"

definition omitBool :: "string \<Rightarrow> bool \<Rightarrow> (string \<times> json) list" where
  "omitBool k b = (if b then [(k, JBool True)] else [])"

definition marshalURLHit :: "URLHit \<Rightarrow> json" where
  "marshalURLHit h = JObj
     [(''url'', JStr (uh_URL h)), (''domain'', JStr (uh_Domain h)),
      (''feed'', JStr (uh_Feed h)), (''threat_type'', JStr (uh_ThreatType h))]"

definition marshalResolvedURLHit :: "ResolvedURLHit \<Rightarrow> json" where
  "marshalResolvedURLHit h = JObj
     ([(''original_url'', JStr (rh_OriginalURL h)), (''resolved_url'', JStr (rh_ResolvedURL h)),
       (''hops'', JNum (of_int (rh_Hops h)))]
      @ omitStr ''feed'' (rh_Feed h) @ omitStr ''threat_type'' (rh_ThreatType h)
      @ omitBool ''blocked'' (rh_Blocked h))"

definition marshalNRDHit :: "NRDHit \<Rightarrow> json" where
  "marshalNRDHit h = JObj
     [(''domain'', JStr (nh_Domain h)), (''registration_date'', JStr (nh_RegistrationDate h)),
      (''age_days'', JNum (of_int (nh_AgeDays h))), (''source'', JStr (nh_Source h))]"

definition marshalHTMLSmugglingHit :: "HTMLSmugglingHit \<Rightarrow> json" where
  "marshalHTMLSmugglingHit h = JObj
     [(''source'', JStr (sm_Source h)),
      (''blob_apis'', if sm_BlobAPIs h = [] then JNull else JArr (map JStr (sm_BlobAPIs h))),
      (''b64_size_kb'', JNum (of_int (sm_B64SizeKB h)))]"

definition marshalHiddenTextHit :: "HiddenTextHit \<Rightarrow> json" where
  "marshalHiddenTextHit h = JObj
     [(''technique'', JStr (ht_Technique h)), (''count'', JNum (of_int (ht_Count h))),
      (''sample'', JStr (ht_Sample h))]"

definition marshalAttachmentInfo :: "AttachmentInfo \<Rightarrow> json" where
  "marshalAttachmentInfo a = JObj
     ([(''filename'', JStr (ai_Filename a)), (''content_type'', JStr (ai_ContentType a)),
       (''size_bytes'', JNum (of_int (ai_SizeBytes a))), (''sha256'', JStr (ai_SHA256 a)),
       (''extension'', JStr (ai_Extension a)), (''is_dangerous'', JBool (ai_IsDangerous a))]
      @ omitInt ''vt_positives'' (ai_VTPositives a) @ omitInt ''vt_total'' (ai_VTTotal a)
      @ omitStr ''mb_signature'' (ai_MBSignature a))"

definition marshalVTResult :: "VTResult \<Rightarrow> json" where
  "marshalVTResult v = JObj
     ([(''sha256'', JStr (vt_SHA256 v))] @ omitStr ''filename'' (vt_Filename v)
      @ [(''positives'', JNum (of_int (vt_Positives v))), (''total'', JNum (of_int (vt_Total v)))]
      @ omitStr ''permalink'' (vt_Permalink v) @ [(''source'', JStr (vt_Source v))])"

definition marshalMBResult :: "MBResult \<Rightarrow> json" where
  "marshalMBResult m = JObj
     ([(''sha256'', JStr (mb_SHA256 m))] @ omitStr ''filename'' (mb_Filename m)
      @ omitStr ''signature'' (mb_Signature m) @ [(''source'', JStr (mb_Source m))])"

text \<open>\<^verbatim>\<open>json.Unmarshal\<close> into \<^verbatim>\<open>VTResult\<close>, \<^verbatim>\<open>MBResult\<close> and \<^verbatim>\<open>[]string\<close>, the ones the sources decode.\<close>

fun unmarshalVTResult :: "json \<Rightarrow> VTResult option" where
  "unmarshalVTResult (JObj kvs) =
     (case (jstring (jfield ''sha256'' kvs), jstring (jfield ''filename'' kvs),
            jint (jfield ''positives'' kvs), jint (jfield ''total'' kvs),
            jstring (jfield ''permalink'' kvs), jstring (jfield ''source'' kvs)) of
        (Some a, Some b, Some c, Some d, Some e, Some f) \<Rightarrow>
          Some \<lparr>vt_SHA256 = a, vt_Filename = b, vt_Positives = c, vt_Total = d,
                vt_Permalink = e, vt_Source = f\<rparr>
      | _ \<Rightarrow> None)"
| "unmarshalVTResult JNull =
     Some \<lparr>vt_SHA256 = [], vt_Filename = [], vt_Positives = 0, vt_Total = 0,
           vt_Permalink = [], vt_Source = []\<rparr>"
| "unmarshalVTResult _ = None"

fun unmarshalMBResult :: "json \<Rightarrow> MBResult option" where
  "unmarshalMBResult (JObj kvs) =
     (case (jstring (jfield ''sha256'' kvs), jstring (jfield ''filename'' kvs),
            jstring (jfield ''signature'' kvs), jstring (jfield ''source'' kvs)) of
        (Some a, Some b, Some c, Some d) \<Rightarrow>
          Some \<lparr>mb_SHA256 = a, mb_Filename = b, mb_Signature = c, mb_Source = d\<rparr>
      | _ \<Rightarrow> None)"
| "unmarshalMBResult JNull =
     Some \<lparr>mb_SHA256 = [], mb_Filename = [], mb_Signature = [], mb_Source = []\<rparr>"
| "unmarshalMBResult _ = None"

definition marshalStrings :: "string list \<Rightarrow> json" where
  "marshalStrings xs = JArr (map JStr xs)"

definition unmarshalStrings :: "json \<Rightarrow> string list option" where
  "unmarshalStrings j = jlist jstring j"

lemma unmarshalStrings_marshal [simp]: "unmarshalStrings (marshalStrings xs) = Some xs"
  by (simp add: unmarshalStrings_def marshalStrings_def map_opt_roundtrip)

lemmas omit_defs = omitStr_def omitInt_def omitBool_def

lemma unmarshalVTResult_marshal [simp]: "unmarshalVTResult (marshalVTResult v) = Some v"
  by (simp add: marshalVTResult_def omit_defs equalFold_def toLower_def lowerChar_def)

lemma unmarshalMBResult_marshal [simp]: "unmarshalMBResult (marshalMBResult m) = Some m"
  by (simp add: marshalMBResult_def omit_defs equalFold_def toLower_def lowerChar_def)

section \<open>The scan record\<close>

text \<open>
  \<^verbatim>\<open>UpdatedAt\<close> is maintained by GORM and no code of the repository reads it; it is not a field
  here. The zero time of \<^verbatim>\<open>ActionedAt\<close> (a nil pointer) is None.
\<close>

record Scan =
  ID :: nat
  CreatedAt :: go_time
  AccountName :: string
  IMAPMailbox :: string
  IMAPUID :: uint32
  AccountUID :: string
  MessageID :: string
  Subject :: string
  From :: string
  To :: string
  Date :: "go_time option"
  SizeBytes :: int
  EMLPath :: string
  SPFResult :: string
  DKIMResult :: string
  DMARCResult :: string
  SendingIP :: string
  RspamdScore :: float64
  RspamdAction :: string
  RspamdSymbols :: jcol
  ClamAVStatus :: string
  YARAMatches :: jcol
  URLHits :: jcol
  ResolvedURLHits :: jcol
  AttachmentCount :: nat
  Attachments :: jcol
  IPReputation :: jcol
  VTResults :: jcol
  MBResults :: jcol
  NRDHits :: jcol
  HTMLSmugglingHits :: jcol
  HiddenTextHits :: jcol
  ScannedURLs :: jcol
  Verdict :: string
  VerdictReason :: string
  Confidence :: float64
  Status :: string
  ActionedBy :: string
  ActionedAt :: "go_time option"
  Source :: string

definition zeroScan :: Scan where
  "zeroScan = \<lparr>ID = 0, CreatedAt = 0, AccountName = [], IMAPMailbox = [], IMAPUID = 0,
     AccountUID = [], MessageID = [], Subject = [], From = [], To = [], Date = None,
     SizeBytes = 0, EMLPath = [], SPFResult = [], DKIMResult = [], DMARCResult = [],
     SendingIP = [], RspamdScore = 0, RspamdAction = [], RspamdSymbols = None,
     ClamAVStatus = [], YARAMatches = None, URLHits = None, ResolvedURLHits = None,
     AttachmentCount = 0, Attachments = None, IPReputation = None, VTResults = None,
     MBResults = None, NRDHits = None, HTMLSmugglingHits = None, HiddenTextHits = None,
     ScannedURLs = None, Verdict = [], VerdictReason = [], Confidence = 0, Status = [],
     ActionedBy = [], ActionedAt = None, Source = []\<rparr>"

definition MakeAccountUID :: "string \<Rightarrow> string \<Rightarrow> uint32 \<Rightarrow> string" where
  "MakeAccountUID account mailbox uid = account @ '':'' @ mailbox @ '':'' @ natStr (unat uid)"

section \<open>The other models\<close>

record AuditLog =
  al_ScanID :: nat
  al_Action :: string
  al_Actor :: string
  al_Note :: string

record Whitelist =
  wl_ID :: nat
  wl_Entry :: string
  wl_EntryType :: string
  wl_BypassScan :: bool
  wl_AddedReason :: string

record Blocklist =
  bl_ID :: nat
  bl_Entry :: string
  bl_EntryType :: string
  bl_AddedReason :: string

record DailyStat =
  ds_Total :: nat
  ds_Clean :: nat
  ds_Spam :: nat
  ds_Phish :: nat
  ds_Malware :: nat
  ds_Suspicious :: nat
  ds_Released :: nat
  ds_Deleted :: nat
  ds_LearnedHam :: nat
  ds_LearnedSpam :: nat

definition zeroDailyStat :: DailyStat where
  "zeroDailyStat = \<lparr>ds_Total = 0, ds_Clean = 0, ds_Spam = 0, ds_Phish = 0, ds_Malware = 0,
     ds_Suspicious = 0, ds_Released = 0, ds_Deleted = 0, ds_LearnedHam = 0, ds_LearnedSpam = 0\<rparr>"

record Account =
  ac_Name :: string
  ac_Host :: string
  ac_Port :: int
  ac_User :: string
  ac_Pass :: string
  ac_Mailbox :: string
  ac_Quarantine :: string
  ac_TLSSkipVerify :: bool
  ac_BackfillDays :: int

section \<open>Constants\<close>

definition SourceLive :: string where "SourceLive = []"
definition SourceBackfill :: string where "SourceBackfill = ''backfill''"

definition ActionQuarantine :: string where "ActionQuarantine = ''QUARANTINE''"
definition ActionBackfill :: string where "ActionBackfill = ''BACKFILL''"
definition ActionRelease :: string where "ActionRelease = ''RELEASE''"
definition ActionDelete :: string where "ActionDelete = ''DELETE''"
definition ActionLearnHam :: string where "ActionLearnHam = ''LEARN_HAM''"
definition ActionLearnSpam :: string where "ActionLearnSpam = ''LEARN_SPAM''"
definition ActionRescan :: string where "ActionRescan = ''RESCAN''"
definition ActionWhitelist :: string where "ActionWhitelist = ''WHITELIST''"
definition ActionBlocklist :: string where "ActionBlocklist = ''BLOCKLIST''"
definition ActionRetroQuarantine :: string where "ActionRetroQuarantine = ''RETRO_QUARANTINE''"

definition VerdictClean :: string where "VerdictClean = ''CLEAN''"
definition VerdictSpam :: string where "VerdictSpam = ''SPAM''"
definition VerdictPhish :: string where "VerdictPhish = ''PHISH''"
definition VerdictMalware :: string where "VerdictMalware = ''MALWARE''"
definition VerdictSuspicious :: string where "VerdictSuspicious = ''SUSPICIOUS''"

definition StatusInbox :: string where "StatusInbox = ''INBOX''"
definition StatusQuarantined :: string where "StatusQuarantined = ''QUARANTINED''"
definition StatusReleased :: string where "StatusReleased = ''RELEASED''"
definition StatusDeleted :: string where "StatusDeleted = ''DELETED''"
definition StatusLearnedHam :: string where "StatusLearnedHam = ''LEARNED_HAM''"
definition StatusLearnedSpam :: string where "StatusLearnedSpam = ''LEARNED_SPAM''"

lemmas source_defs = SourceLive_def SourceBackfill_def
lemmas action_defs = ActionQuarantine_def ActionBackfill_def ActionRelease_def ActionDelete_def
  ActionLearnHam_def ActionLearnSpam_def ActionRescan_def ActionWhitelist_def
  ActionBlocklist_def ActionRetroQuarantine_def
lemmas verdict_defs = VerdictClean_def VerdictSpam_def VerdictPhish_def VerdictMalware_def
  VerdictSuspicious_def
lemmas status_defs = StatusInbox_def StatusQuarantined_def StatusReleased_def StatusDeleted_def
  StatusLearnedHam_def StatusLearnedSpam_def

section \<open>The deduplication key\<close>

lemma MakeAccountUID_uid:
  assumes "MakeAccountUID a m u = MakeAccountUID b n v"
  shows "a @ '':'' @ m = b @ '':'' @ n \<and> u = v"
proof -
  let ?x = "a @ '':'' @ m" and ?y = "b @ '':'' @ n"
  have eq: "?x @ CHR '':'' # natStr (unat u) = ?y @ CHR '':'' # natStr (unat v)"
    using assms by (simp add: MakeAccountUID_def)
  then have "lastIndexByte (?x @ CHR '':'' # natStr (unat u)) (CHR '':'')
      = lastIndexByte (?y @ CHR '':'' # natStr (unat v)) (CHR '':'')" by simp
  then have "length ?x = length ?y"
    by (simp only: lastIndexByte_append [OF natStr_no_colon] option.inject)
  then have "?x = ?y \<and> natStr (unat u) = natStr (unat v)"
    using append_eq_append_conv [of ?x ?y] eq by (metis list.inject)
  then show ?thesis
    using natStr_inj word_unat_eq_iff by blast
qed

end
