(* ===== verification/NetIP.thy ===== *)
theory NetIP
  imports Prelude
begin

text \<open>
  The part of Go's packages \<^verbatim>\<open>net\<close> and \<^verbatim>\<open>net/netip\<close> that the sources call: textual IPv4 and IPv6
  addresses (\<^verbatim>\<open>ParseAddr\<close>, \<^verbatim>\<open>ParseIP\<close>), the 4-byte view of an address (\<^verbatim>\<open>To4\<close>), CIDR masks and
  networks (\<^verbatim>\<open>CIDRMask\<close>, \<^verbatim>\<open>ParseCIDR\<close>, \<^verbatim>\<open>IPNet.Contains\<close>). An \<^verbatim>\<open>IP\<close> is its byte slice, 4 or 16
  bytes long.
\<close>

unbundle bit_operations_syntax

type_synonym ip = "8 word list"

section \<open>Digits\<close>

definition isDigit :: "char \<Rightarrow> bool" where
  "isDigit c \<longleftrightarrow> 48 \<le> (of_char c :: nat) \<and> (of_char c :: nat) \<le> 57"

definition isHex :: "char \<Rightarrow> bool" where
  "isHex c \<longleftrightarrow> isDigit c \<or> (97 \<le> (of_char c :: nat) \<and> (of_char c :: nat) \<le> 102)
     \<or> (65 \<le> (of_char c :: nat) \<and> (of_char c :: nat) \<le> 70)"

definition unhex :: "char \<Rightarrow> nat" where
  "unhex c =
     (let n = (of_char c :: nat)
      in if isDigit c then n - 48 else if 97 \<le> n then n - 87 else n - 55)"

definition decVal :: "string \<Rightarrow> nat" where
  "decVal s = foldl (\<lambda>v c. 10 * v + (of_char c - 48)) 0 s"

definition hexVal :: "string \<Rightarrow> nat" where
  "hexVal s = foldl (\<lambda>v c. 16 * v + unhex c) 0 s"

section \<open>Textual addresses\<close>

text \<open>One octet: one to three digits, no leading zero, at most 255.\<close>

definition parseOctet :: "string \<Rightarrow> 8 word option" where
  "parseOctet s =
     (if s \<noteq> [] \<and> list_all isDigit s \<and> length s \<le> 3 \<and> (length s = 1 \<or> hd s \<noteq> CHR ''0'')
         \<and> decVal s \<le> 255
      then Some (of_nat (decVal s)) else None)"

definition parseIPv4 :: "string \<Rightarrow> ip option" where
  "parseIPv4 s =
     (case map parseOctet (splitOn CHR ''.'' s) of
        [Some a, Some b, Some c, Some d] \<Rightarrow> Some [a, b, c, d]
      | _ \<Rightarrow> None)"

text \<open>
  The loop of \<^verbatim>\<open>netip.parseIPv6\<close>: the bytes so far and the position of the ellipsis are its
  state. At most eight rounds of two bytes fit, so eight units of fuel are as many rounds as
  the loop condition \<^verbatim>\<open>i < 16\<close> allows.
\<close>

fun ipv6Loop :: "nat \<Rightarrow> string \<Rightarrow> ip \<Rightarrow> nat option \<Rightarrow> (ip \<times> nat option) option" where
  "ipv6Loop 0 s acc ell = (if s = [] then Some (acc, ell) else None)"
| "ipv6Loop (Suc n) s acc ell =
     (let h = takeWhile isHex s; rest = dropWhile isHex s
      in if h = [] \<or> length h > 4 then None
         else (case rest of
           CHR ''.'' # _ \<Rightarrow>
             if (ell = None \<and> length acc \<noteq> 12) \<or> length acc + 4 > 16 then None
             else (case parseIPv4 s of None \<Rightarrow> None | Some v4 \<Rightarrow> Some (acc @ v4, ell))
         | [] \<Rightarrow> Some (acc @ [of_nat (hexVal h div 256), of_nat (hexVal h mod 256)], ell)
         | c # rest' \<Rightarrow>
             (let acc' = acc @ [of_nat (hexVal h div 256), of_nat (hexVal h mod 256)]
              in if c \<noteq> CHR '':'' \<or> rest' = [] then None
                 else if hd rest' = CHR '':'' then
                   (if ell \<noteq> None then None
                    else if tl rest' = [] then Some (acc', Some (length acc'))
                    else ipv6Loop n (tl rest') acc' (Some (length acc')))
                 else ipv6Loop n rest' acc' ell)))"

text \<open>An IPv6 address and whether it carries a zone; the zone itself is never used.\<close>

definition parseIPv6 :: "string \<Rightarrow> (ip \<times> bool) option" where
  "parseIPv6 inp =
     (let s = takeWhile (\<lambda>c. c \<noteq> CHR ''%'') inp; z = dropWhile (\<lambda>c. c \<noteq> CHR ''%'') inp;
          ell0 = hasPrefix s ''::''; s0 = (if ell0 then drop 2 s else s)
      in if length z = 1 then None
         else if ell0 \<and> s0 = [] then Some (replicate 16 0, z \<noteq> [])
         else (case ipv6Loop 8 s0 [] (if ell0 then Some 0 else None) of
                 None \<Rightarrow> None
               | Some (acc, ell) \<Rightarrow>
                   if length acc < 16 then
                     (case ell of None \<Rightarrow> None
                      | Some e \<Rightarrow> Some (take e acc @ replicate (16 - length acc) 0 @ drop e acc, z \<noteq> []))
                   else if ell \<noteq> None then None else Some (acc, z \<noteq> [])))"

datatype addr = Addr4 ip | Addr6 ip bool

fun parseAddrAt :: "string \<Rightarrow> string \<Rightarrow> addr option" where
  "parseAddrAt full [] = None"
| "parseAddrAt full (c # cs) =
     (if c = CHR ''.'' then map_option Addr4 (parseIPv4 full)
      else if c = CHR '':'' then map_option (\<lambda>(b, z). Addr6 b z) (parseIPv6 full)
      else if c = CHR ''%'' then None
      else parseAddrAt full cs)"

definition parseAddr :: "string \<Rightarrow> addr option" where
  "parseAddr s = parseAddrAt s s"

definition v4InV6Prefix :: ip where
  "v4InV6Prefix = replicate 10 0 @ [255, 255]"

fun as16 :: "addr \<Rightarrow> ip" where
  "as16 (Addr4 b) = v4InV6Prefix @ b"
| "as16 (Addr6 b _) = b"

text \<open>\<^verbatim>\<open>net.ParseIP\<close>: the 16-byte form, None for an address with a zone or no address at all.\<close>

definition ParseIP :: "string \<Rightarrow> ip option" where
  "ParseIP s =
     (case parseAddr s of
        None \<Rightarrow> None
      | Some (Addr6 b True) \<Rightarrow> None
      | Some a \<Rightarrow> Some (as16 a))"

definition To4 :: "ip \<Rightarrow> ip option" where
  "To4 i =
     (if length i = 4 then Some i
      else if length i = 16 \<and> take 12 i = v4InV6Prefix then Some (drop 12 i)
      else None)"

section \<open>Networks\<close>

definition maskByte :: "nat \<Rightarrow> 8 word" where
  "maskByte k = (if k \<ge> 8 then 255 else push_bit (8 - k) 255)"

definition CIDRMask :: "nat \<Rightarrow> nat \<Rightarrow> ip" where
  "CIDRMask ones len = map (\<lambda>i. maskByte (ones - 8 * i)) [0..<len]"

record IPNet =
  netIP :: ip
  netMask :: ip

definition andBytes :: "ip \<Rightarrow> ip \<Rightarrow> ip" where
  "andBytes a b = map2 (AND) a b"

definition netNumber :: "IPNet \<Rightarrow> ip" where
  "netNumber n = (case To4 (netIP n) of Some x \<Rightarrow> x | None \<Rightarrow> netIP n)"

definition netContains :: "IPNet \<Rightarrow> ip \<Rightarrow> bool" where
  "netContains n i =
     (let nn = netNumber n;
          m = (if length (netMask n) = 16 \<and> length nn = 4 then drop 12 (netMask n) else netMask n);
          x = (case To4 i of Some y \<Rightarrow> y | None \<Rightarrow> i)
      in length m = length nn \<and> length x = length nn \<and> andBytes nn m = andBytes x m)"

text \<open>\<^verbatim>\<open>net.ParseCIDR\<close>, the network only. \<^verbatim>\<open>dtoi\<close> accepts leading zeros and stops at 0xFFFFFF.\<close>

definition ParseCIDR :: "string \<Rightarrow> IPNet option" where
  "ParseCIDR s =
     (case indexByte s CHR ''/'' of
        None \<Rightarrow> None
      | Some i \<Rightarrow>
          (let a = take i s; m = drop (Suc i) s
           in if m = [] \<or> \<not> list_all isDigit m \<or> decVal m \<ge> 16777215 then None
              else (case parseAddr a of
                 Some (Addr4 b) \<Rightarrow>
                   if decVal m > 32 then None
                   else Some \<lparr>netIP = andBytes b (CIDRMask (decVal m) 4), netMask = CIDRMask (decVal m) 4\<rparr>
               | Some (Addr6 b False) \<Rightarrow>
                   if decVal m > 128 then None
                   else Some \<lparr>netIP = andBytes b (CIDRMask (decVal m) 16), netMask = CIDRMask (decVal m) 16\<rparr>
               | _ \<Rightarrow> None)))"

section \<open>Decimal numbers\<close>

lemma digitChar_digit: "d < 10 \<Longrightarrow> isDigit (digitChar d)" "d < 10 \<Longrightarrow> of_char (digitChar d) - 48 = d"
  by (auto simp: isDigit_def digitChar_def)

lemma decVal_snoc: "decVal (s @ [c]) = 10 * decVal s + (of_char c - 48)"
  by (simp add: decVal_def)

lemma natStr_digits: "list_all isDigit (natStr n)"
proof (induction n rule: natStr.induct)
  case (1 n)
  then show ?case by (subst natStr.simps) (simp add: digitChar_digit)
qed

lemma decVal_natStr: "decVal (natStr n) = n"
proof (induction n rule: natStr.induct)
  case (1 n)
  show ?case
  proof (cases "n < 10")
    case True
    then show ?thesis by (subst natStr.simps) (simp add: decVal_def digitChar_digit)
  next
    case False
    then have "decVal (natStr n) = 10 * (n div 10) + n mod 10"
      using 1 by (subst natStr.simps) (simp add: decVal_snoc digitChar_digit)
    then show ?thesis by simp
  qed
qed

section \<open>Lengths\<close>

lemma parseIPv4_length: "parseIPv4 s = Some b \<Longrightarrow> length b = 4"
  by (auto simp: parseIPv4_def split: list.splits option.splits)

lemma length_CIDRMask [simp]: "length (CIDRMask n len) = len"
  by (simp add: CIDRMask_def)

lemma length_andBytes [simp]: "length (andBytes a b) = min (length a) (length b)"
  by (simp add: andBytes_def)

lemma andBytes_absorb: "length a = length m \<Longrightarrow> andBytes (andBytes a m) m = andBytes a m"
  by (rule nth_equalityI) (auto simp: andBytes_def and.assoc)

end
