(* ===== verification/Util.thy ===== *)
theory Util
  imports NetIP
begin

text \<open>
  Package \<^verbatim>\<open>app/util\<close>: the sending-IP extraction and the public-address test of \<^verbatim>\<open>ip.go\<close>, the
  extension and MIME tables of \<^verbatim>\<open>mime.go\<close>, and the defanging of \<^verbatim>\<open>defang.go\<close>. SHA-256 and the
  MIME-type parser belong to the standard library; \<^verbatim>\<open>mime.ParseMediaType\<close> is an argument
  (\<open>parseMediaType\<close>) where it is used.
\<close>

section \<open>ip.go\<close>

definition privateBlocks :: "IPNet list" where
  "privateBlocks =
     [\<lparr>netIP = [10, 0, 0, 0], netMask = CIDRMask 8 4\<rparr>,
      \<lparr>netIP = [172, 16, 0, 0], netMask = CIDRMask 12 4\<rparr>,
      \<lparr>netIP = [192, 168, 0, 0], netMask = CIDRMask 16 4\<rparr>,
      \<lparr>netIP = [127, 0, 0, 0], netMask = CIDRMask 8 4\<rparr>,
      \<lparr>netIP = [169, 254, 0, 0], netMask = CIDRMask 16 4\<rparr>,
      \<lparr>netIP = [100, 64, 0, 0], netMask = CIDRMask 10 4\<rparr>,
      \<lparr>netIP = [0, 0, 0, 0], netMask = CIDRMask 8 4\<rparr>]"

definition IsPublicIP :: "ip option \<Rightarrow> bool" where
  "IsPublicIP i =
     (case i of
        None \<Rightarrow> False
      | Some b \<Rightarrow>
          (case To4 b of
             None \<Rightarrow> False
           | Some v4 \<Rightarrow> \<not> list_ex (\<lambda>block. netContains block v4) privateBlocks))"

text \<open>
  The regular expression \<^verbatim>\<open>\[(\d{1,3}\.\d{1,3}\.\d{1,3}\.\d{1,3})\]\<close>: the text between a bracket
  and the matching close is four runs of one to three digits. No digit is a dot, so each run
  is the maximal one and the search tries the positions from left to right.
\<close>

fun dottedQuad :: "nat \<Rightarrow> string \<Rightarrow> (string \<times> string) option" where
  "dottedQuad 0 s = None"
| "dottedQuad (Suc n) s =
     (let d = takeWhile isDigit s; rest = dropWhile isDigit s
      in if d = [] \<or> length d > 3 then None
         else if n = 0 then Some (d, rest)
         else (case rest of
                 CHR ''.'' # rest' \<Rightarrow> map_option (\<lambda>(q, r). (d @ ''.'' @ q, r)) (dottedQuad n rest')
               | _ \<Rightarrow> None))"

fun receivedIPv4 :: "string \<Rightarrow> string option" where
  "receivedIPv4 [] = None"
| "receivedIPv4 (c # cs) =
     (if c = CHR ''['' then
        (case dottedQuad 4 cs of
           Some (q, CHR '']'' # _) \<Rightarrow> Some q
         | _ \<Rightarrow> receivedIPv4 cs)
      else receivedIPv4 cs)"

text \<open>One header of the loop: the address it names when that is a public one.\<close>

definition headerPublicIP :: "string \<Rightarrow> ip option" where
  "headerPublicIP h =
     (case receivedIPv4 h of
        None \<Rightarrow> None
      | Some q \<Rightarrow>
          (case ParseIP q of
             None \<Rightarrow> None
           | Some i \<Rightarrow> if IsPublicIP (Some i) then Some i else None))"

fun firstPublic :: "string list \<Rightarrow> ip option" where
  "firstPublic [] = None"
| "firstPublic (h # hs) =
     (case headerPublicIP h of Some i \<Rightarrow> Some i | None \<Rightarrow> firstPublic hs)"

definition ExtractSendingIP :: "string list \<Rightarrow> ip option" where
  "ExtractSendingIP receivedHeaders = firstPublic (rev receivedHeaders)"

section \<open>mime.go\<close>

definition dangerousExtensions :: "string list" where
  "dangerousExtensions =
     [''.exe'', ''.bat'', ''.cmd'', ''.ps1'', ''.vbs'', ''.vbe'', ''.js'', ''.jse'',
      ''.wsf'', ''.wsh'', ''.lnk'', ''.scr'', ''.pif'', ''.com'', ''.hta'', ''.msi'',
      ''.reg'', ''.jar'', ''.msp'', ''.mst'', ''.cpl'', ''.inf'', ''.sys'', ''.dll'',
      ''.scf'', ''.url'', ''.jnlp'', ''.msc'', ''.ps2'',
      ''.iso'', ''.img'', ''.vhd'', ''.vhdx'', ''.one'',
      ''.docm'', ''.xlsm'', ''.pptm'', ''.dotm'']"

definition executableMIMETypes :: "string list" where
  "executableMIMETypes =
     [''application/x-msdownload'', ''application/x-executable'', ''application/x-msdos-program'',
      ''application/x-ms-installer'', ''application/vnd.microsoft.portable-executable'',
      ''application/x-dosexec'', ''application/x-sh'', ''application/x-bat'', ''application/x-jar'']"

text \<open>\<^verbatim>\<open>filepath.Ext\<close> on Unix: from the last dot of the last path element.\<close>

definition filepathExt :: "string \<Rightarrow> string" where
  "filepathExt path =
     (let base = (case lastIndexByte path CHR ''/'' of None \<Rightarrow> path | Some i \<Rightarrow> drop (Suc i) path)
      in case lastIndexByte base CHR ''.'' of None \<Rightarrow> [] | Some i \<Rightarrow> drop i base)"

definition DangerousExtension :: "string \<Rightarrow> bool" where
  "DangerousExtension filename \<longleftrightarrow> toLower (filepathExt filename) \<in> set dangerousExtensions"

definition IsExecutable :: "(string \<Rightarrow> string result) \<Rightarrow> string \<Rightarrow> bool" where
  "IsExecutable parseMediaType contentType =
     (case parseMediaType contentType of
        Inl _ \<Rightarrow> False
      | Inr mt \<Rightarrow> toLower mt \<in> set executableMIMETypes)"

definition SafeContentType :: "(string \<Rightarrow> string result) \<Rightarrow> string \<Rightarrow> string" where
  "SafeContentType parseMediaType contentType =
     (case parseMediaType contentType of Inl _ \<Rightarrow> contentType | Inr mt \<Rightarrow> mt)"

section \<open>defang.go\<close>

text \<open>
  \<^verbatim>\<open>strings.NewReplacer\<close> replaces in one pass; at each position the pairs are tried in the
  order of the arguments.
\<close>

fun defangScheme :: "string \<Rightarrow> string" where
  "defangScheme [] = []"
| "defangScheme (c # cs) =
     (if hasPrefix (c # cs) ''https://'' then ''hxxps://'' @ defangScheme (drop 7 cs)
      else if hasPrefix (c # cs) ''http://'' then ''hxxp://'' @ defangScheme (drop 6 cs)
      else if hasPrefix (c # cs) ''ftp://'' then ''fxp://'' @ defangScheme (drop 5 cs)
      else c # defangScheme cs)"

definition defangDots :: "string \<Rightarrow> string" where
  "defangDots s = replaceAll s ''.'' ''[.]''"

definition DefangURL :: "string \<Rightarrow> string" where
  "DefangURL rawURL =
     (let u = defangScheme rawURL
      in case strIndex u ''://'' of
           Some slashIdx \<Rightarrow>
             (let afterProto = slashIdx + 3; tl_u = drop afterProto u
              in case indexByte tl_u CHR ''/'' of
                   None \<Rightarrow> take afterProto u @ defangDots tl_u
                 | Some hostEnd \<Rightarrow> take afterProto u @ defangDots (take hostEnd tl_u) @ drop hostEnd tl_u)
         | None \<Rightarrow> defangDots u)"

definition DefangIP :: "string \<Rightarrow> string" where
  "DefangIP s = defangDots s"

section \<open>Public addresses\<close>

lemma nat_and_high:
  fixes x :: nat
  assumes "x < 2 ^ 8" and "n \<le> 8"
  shows "x AND (mask 8 - mask n) = 2 ^ n * (x div 2 ^ n)"
proof (rule bit_eqI)
  fix m
  have "bit (mask 8 - mask n :: nat) m \<longleftrightarrow> n \<le> m \<and> m < 8"
  proof -
    have "(mask 8 - mask n :: nat) = push_bit n (mask (8 - n))"
      using assms(2) by (simp add: mask_eq_exp_minus_1 push_bit_eq_mult algebra_simps
          flip: power_add) 
    then show ?thesis using assms(2) by (auto simp: bit_push_bit_iff bit_mask_iff)
  qed
  moreover have "\<not> bit x m" if "\<not> m < 8"
    using assms(1) that by (metis bit_take_bit_iff take_bit_nat_eq_self)
  ultimately show "bit (x AND (mask 8 - mask n)) m = bit (2 ^ n * (x div 2 ^ n)) m"
    by (auto simp: bit_and_iff bit_push_bit_iff bit_drop_bit_eq
        simp flip: push_bit_eq_mult drop_bit_eq_div mult.commute)
qed

lemma byte_and_240: "(b AND 240 = (16 :: 8 word)) = (16 \<le> b \<and> b \<le> 31)"
proof -
  have "unat b AND 240 = 16 * (unat b div 16)"
    using nat_and_high [of "unat b" 4] unsigned_less [of b, where ?'a = nat]
    by (simp add: mask_eq_exp_minus_1)
  then show ?thesis
    by (auto simp: word_unat_eq_iff word_le_nat_alt unsigned_and_eq)
qed

lemma byte_and_192: "(b AND 192 = (64 :: 8 word)) = (64 \<le> b \<and> b \<le> 127)"
proof -
  have "unat b AND 192 = 64 * (unat b div 64)"
    using nat_and_high [of "unat b" 6] unsigned_less [of b, where ?'a = nat]
    by (simp add: mask_eq_exp_minus_1)
  then show ?thesis
    by (auto simp: word_unat_eq_iff word_le_nat_alt unsigned_and_eq)
qed

lemma byte_and_255: "b AND 255 = (b :: 8 word)"
proof -
  have "unat b AND 255 = unat b"
    using nat_and_high [of "unat b" 0] unsigned_less [of b, where ?'a = nat]
    by (simp add: mask_eq_exp_minus_1)
  then show ?thesis by (simp add: word_unat_eq_iff unsigned_and_eq)
qed

lemma CIDRMask_eqs:
  "CIDRMask 8 4 = [255, 0, 0, 0]" "CIDRMask 16 4 = [255, 255, 0, 0]"
  "CIDRMask 12 4 = [255, 240, 0, 0]" "CIDRMask 10 4 = [255, 192, 0, 0]"
  by (simp_all add: CIDRMask_def maskByte_def upt_rec)

lemma IsPublicIP_ranges:
  "IsPublicIP (Some [a, b, c, d]) \<longleftrightarrow>
     \<not> (a = 10 \<or> a = 172 \<and> 16 \<le> b \<and> b \<le> 31 \<or> a = 192 \<and> b = 168 \<or> a = 127
        \<or> a = 169 \<and> b = 254 \<or> a = 100 \<and> 64 \<le> b \<and> b \<le> 127 \<or> a = 0)"
  by (auto simp: IsPublicIP_def To4_def privateBlocks_def netContains_def netNumber_def
      andBytes_def CIDRMask_eqs byte_and_240 [symmetric] byte_and_192 [symmetric] byte_and_255)

lemma IsPublicIP_To4: "IsPublicIP (Some i) \<Longrightarrow> \<exists>v4. To4 i = Some v4"
  by (auto simp: IsPublicIP_def split: option.splits)

lemma To4_idem: "To4 i = Some v4 \<Longrightarrow> To4 v4 = Some v4"
  by (auto simp: To4_def split: if_splits)

lemma IsPublicIP_v4: "IsPublicIP (Some i) \<Longrightarrow> To4 i = Some v4 \<Longrightarrow> IsPublicIP (Some v4)"
  using To4_idem by (simp add: IsPublicIP_def)

section \<open>The sending address\<close>

lemma firstPublic_append:
  "\<forall>u \<in> set us. headerPublicIP u = None \<Longrightarrow> firstPublic (us @ hs) = firstPublic hs"
  by (induction us) auto

lemma firstPublic_Some:
  "firstPublic hs = Some i \<Longrightarrow>
     \<exists>us h vs. hs = us @ h # vs \<and> headerPublicIP h = Some i \<and> (\<forall>u \<in> set us. headerPublicIP u = None)"
proof (induction hs)
  case Nil
  then show ?case by simp
next
  case (Cons h hs)
  show ?case
  proof (cases "headerPublicIP h")
    case None
    with Cons obtain us g vs where "hs = us @ g # vs" "headerPublicIP g = Some i"
      "\<forall>u \<in> set us. headerPublicIP u = None" by auto
    with None show ?thesis by (intro exI [of _ "h # us"]) auto
  next
    case (Some j)
    with Cons.prems show ?thesis by (intro exI [of _ "[] :: string list"]) auto
  qed
qed

lemma headerPublicIP_public: "headerPublicIP h = Some i \<Longrightarrow> IsPublicIP (Some i)"
  by (auto simp: headerPublicIP_def split: option.splits if_splits)

end
