(* ===== verification/NetURL.thy ===== *)
theory NetURL
  imports NetIP
begin

text \<open>
  The part of Go's package \<^verbatim>\<open>net/url\<close> that the sources call: percent-encoding and its inverse
  (\<^verbatim>\<open>escape\<close>, \<^verbatim>\<open>unescape\<close>), \<^verbatim>\<open>Parse\<close>, \<^verbatim>\<open>Hostname\<close>, \<^verbatim>\<open>Query\<close> with \<^verbatim>\<open>Get\<close>, and \<^verbatim>\<open>String\<close>. The
  functions follow the library's code; IPv6 zones inside brackets are rejected, and the
  library's limit on the number of query parameters is not modelled.
\<close>

section \<open>Percent-encoding\<close>

datatype encoding = EncPath | EncHost | EncUserPassword | EncQueryComponent | EncFragment

definition isAlpha :: "char \<Rightarrow> bool" where
  "isAlpha c \<longleftrightarrow> (65 \<le> (of_char c :: nat) \<and> (of_char c :: nat) \<le> 90)
     \<or> (97 \<le> (of_char c :: nat) \<and> (of_char c :: nat) \<le> 122)"

definition isAlnum :: "char \<Rightarrow> bool" where
  "isAlnum c \<longleftrightarrow> isAlpha c \<or> isDigit c"

text \<open>A label of a host name: letters, digits and hyphens, at most 63, no hyphen at either end.\<close>

definition domainLabel :: "string \<Rightarrow> bool" where
  "domainLabel l \<longleftrightarrow> l \<noteq> [] \<and> length l \<le> 63 \<and> isAlnum (hd l) \<and> isAlnum (last l) \<and> list_all (\<lambda>c. isAlnum c \<or> c = CHR ''-'') l"

definition shouldEscape :: "encoding \<Rightarrow> char \<Rightarrow> bool" where
  "shouldEscape m c =
     (if isAlpha c \<or> isDigit c then False
      else if m = EncHost \<and> c \<in> set ''!$&()*+,;=:[]<>'' \<union> {CHR 0x27, CHR 0x22} then False
      else if c \<in> set ''-_.~'' then False
      else if c \<in> set ''$&+,/:;=?@'' then
        (case m of
           EncPath \<Rightarrow> c = CHR ''?''
         | EncUserPassword \<Rightarrow> c \<in> set ''@/?:''
         | EncQueryComponent \<Rightarrow> True
         | EncFragment \<Rightarrow> False
         | EncHost \<Rightarrow> True)
      else if m = EncFragment \<and> c \<in> set ''!()*'' then False
      else True)"

definition upperhex :: "nat \<Rightarrow> char" where
  "upperhex n = (if n < 10 then char_of (48 + n) else char_of (55 + n))"

definition escapeChar :: "encoding \<Rightarrow> char \<Rightarrow> string" where
  "escapeChar m c =
     (if c = CHR '' '' \<and> m = EncQueryComponent then ''+''
      else if shouldEscape m c
      then [CHR ''%'', upperhex (of_char c div 16), upperhex (of_char c mod 16)]
      else [c])"

definition escape :: "encoding \<Rightarrow> string \<Rightarrow> string" where
  "escape m s = concat (map (escapeChar m) s)"

definition hexByte :: "char \<Rightarrow> char \<Rightarrow> char" where
  "hexByte h l = char_of (16 * unhex h + unhex l)"

fun unescape :: "encoding \<Rightarrow> string \<Rightarrow> string option" where
  "unescape m [] = Some []"
| "unescape m (c # cs) =
     (if c = CHR ''%'' then
        (case cs of
           h # l # rest \<Rightarrow>
             if isHex h \<and> isHex l \<and> \<not> (m = EncHost \<and> unhex h < 8 \<and> [h, l] \<noteq> ''25'')
             then map_option ((#) (hexByte h l)) (unescape m rest)
             else None
         | _ \<Rightarrow> None)
      else if c = CHR ''+'' then
        map_option ((#) (if m = EncQueryComponent then CHR '' '' else c)) (unescape m cs)
      else if m = EncHost \<and> (of_char c :: nat) < 128 \<and> shouldEscape m c then None
      else map_option ((#) c) (unescape m cs))"

abbreviation QueryEscape :: "string \<Rightarrow> string" where
  "QueryEscape \<equiv> escape EncQueryComponent"

abbreviation QueryUnescape :: "string \<Rightarrow> string option" where
  "QueryUnescape \<equiv> unescape EncQueryComponent"

definition validEncoded :: "encoding \<Rightarrow> string \<Rightarrow> bool" where
  "validEncoded m s \<longleftrightarrow>
     list_all (\<lambda>c. c \<in> set ''!$&()*+,;=:@[]%'' \<union> {CHR 0x27} \<or> \<not> shouldEscape m c) s"

section \<open>URLs\<close>

record Userinfo =
  username :: string
  password :: "string option"

record URL =
  Scheme :: string
  Opaque :: string
  User :: "Userinfo option"
  Host :: string
  Path :: string
  RawPath :: string
  OmitHost :: bool
  ForceQuery :: bool
  RawQuery :: string
  Fragment :: string
  RawFragment :: string

definition emptyURL :: URL where
  "emptyURL = \<lparr>Scheme = [], Opaque = [], User = None, Host = [], Path = [], RawPath = [],
     OmitHost = False, ForceQuery = False, RawQuery = [], Fragment = [], RawFragment = []\<rparr>"

text \<open>\<^verbatim>\<open>strings.Cut\<close> at a one-byte separator.\<close>

definition cutAt :: "char \<Rightarrow> string \<Rightarrow> string \<times> string" where
  "cutAt sep s =
     (case indexByte s sep of None \<Rightarrow> (s, []) | Some i \<Rightarrow> (take i s, drop (Suc i) s))"

text \<open>\<^verbatim>\<open>getScheme\<close>: None for a missing scheme before a colon.\<close>

fun schemeLoop :: "string \<Rightarrow> string \<Rightarrow> string \<Rightarrow> (string \<times> string) option" where
  "schemeLoop raw seen [] = Some ([], raw)"
| "schemeLoop raw seen (c # cs) =
     (if isAlpha c then schemeLoop raw (c # seen) cs
      else if isDigit c \<or> c \<in> set ''+-.'' then
        (if seen = [] then Some ([], raw) else schemeLoop raw (c # seen) cs)
      else if c = CHR '':'' then (if seen = [] then None else Some (rev seen, cs))
      else Some ([], raw))"

definition getScheme :: "string \<Rightarrow> (string \<times> string) option" where
  "getScheme raw = schemeLoop raw [] raw"

fun validOptionalPort :: "string \<Rightarrow> bool" where
  "validOptionalPort [] = True"
| "validOptionalPort (c # cs) = (c = CHR '':'' \<and> list_all isDigit cs)"

definition parseHost :: "string \<Rightarrow> string option" where
  "parseHost host =
     (case lastIndexByte host CHR ''['' of
        Some i \<Rightarrow>
          (case lastIndexByte host CHR '']'' of
             None \<Rightarrow> None
           | Some j \<Rightarrow>
               (let colonPort = drop (Suc j) host; inner = take (j - Suc i) (drop (Suc i) host)
                in if \<not> validOptionalPort colonPort then None
                   else (case parseAddr inner of
                           Some (Addr6 b False) \<Rightarrow> Some (''['' @ inner @ '']'' @ colonPort)
                         | _ \<Rightarrow> None)))
      | None \<Rightarrow>
          (case indexByte host CHR '':'' of
             Some i \<Rightarrow> if validOptionalPort (drop i host) then unescape EncHost host else None
           | None \<Rightarrow> unescape EncHost host))"

definition validUserinfo :: "string \<Rightarrow> bool" where
  "validUserinfo s \<longleftrightarrow>
     list_all (\<lambda>c. isAlpha c \<or> isDigit c \<or> c \<in> set ''-._:~!$&()*+,;=%@'' \<union> {CHR 0x27}) s"

definition parseUserinfo :: "string \<Rightarrow> Userinfo option" where
  "parseUserinfo ui =
     (if \<not> validUserinfo ui then None
      else if CHR '':'' \<notin> set ui then
        map_option (\<lambda>u. \<lparr>username = u, password = None\<rparr>) (unescape EncUserPassword ui)
      else (case cutAt CHR '':'' ui of (u, p) \<Rightarrow>
        (case (unescape EncUserPassword u, unescape EncUserPassword p) of
           (Some u', Some p') \<Rightarrow> Some \<lparr>username = u', password = Some p'\<rparr>
         | _ \<Rightarrow> None)))"

definition parseAuthority :: "string \<Rightarrow> (Userinfo option \<times> string) option" where
  "parseAuthority authority =
     (case lastIndexByte authority CHR ''@'' of
        None \<Rightarrow> map_option (\<lambda>h. (None, h)) (parseHost authority)
      | Some i \<Rightarrow>
          (case (parseHost (drop (Suc i) authority), parseUserinfo (take i authority)) of
             (Some h, Some u) \<Rightarrow> Some (Some u, h)
           | _ \<Rightarrow> None))"

definition setPath :: "URL \<Rightarrow> string \<Rightarrow> URL option" where
  "setPath u p =
     (case unescape EncPath p of
        None \<Rightarrow> None
      | Some path \<Rightarrow> Some (u\<lparr>Path := path, RawPath := (if escape EncPath path = p then [] else p)\<rparr>))"

definition setFragment :: "URL \<Rightarrow> string \<Rightarrow> URL option" where
  "setFragment u f =
     (case unescape EncFragment f of
        None \<Rightarrow> None
      | Some frag \<Rightarrow>
          Some (u\<lparr>Fragment := frag, RawFragment := (if escape EncFragment frag = f then [] else f)\<rparr>))"

definition isCTL :: "char \<Rightarrow> bool" where
  "isCTL c \<longleftrightarrow> (of_char c :: nat) < 32 \<or> (of_char c :: nat) = 127"

text \<open>The rest of the URL after its scheme and query have been cut off.\<close>

definition parseHier :: "URL \<Rightarrow> string \<Rightarrow> URL option" where
  "parseHier u rest =
     (if \<not> hasPrefix rest ''/'' \<and> Scheme u \<noteq> [] then Some (u\<lparr>Opaque := rest\<rparr>)
      else if \<not> hasPrefix rest ''/'' \<and> CHR '':'' \<in> set (fst (cutAt CHR ''/'' rest)) then None
      else if (Scheme u \<noteq> [] \<or> \<not> hasPrefix rest ''///'') \<and> hasPrefix rest ''//'' then
        (let a = takeWhile (\<lambda>c. c \<noteq> CHR ''/'') (drop 2 rest);
             p = dropWhile (\<lambda>c. c \<noteq> CHR ''/'') (drop 2 rest)
         in case parseAuthority a of
              None \<Rightarrow> None
            | Some (ui, h) \<Rightarrow> setPath (u\<lparr>User := ui, Host := h\<rparr>) p)
      else setPath (u\<lparr>OmitHost := (Scheme u \<noteq> [] \<and> hasPrefix rest ''/'')\<rparr>) rest)"

definition parseNoFrag :: "string \<Rightarrow> URL option" where
  "parseNoFrag raw =
     (if list_ex isCTL raw then None
      else if raw = ''*'' then Some (emptyURL\<lparr>Path := ''*''\<rparr>)
      else (case getScheme raw of
        None \<Rightarrow> None
      | Some (sch, rest) \<Rightarrow>
          (let u = emptyURL\<lparr>Scheme := toLower sch\<rparr>
           in if hasSuffix rest ''?'' \<and> count_list rest CHR ''?'' = 1
              then parseHier (u\<lparr>ForceQuery := True\<rparr>) (butlast rest)
              else (case cutAt CHR ''?'' rest of (r, q) \<Rightarrow> parseHier (u\<lparr>RawQuery := q\<rparr>) r))))"

definition urlParse :: "string \<Rightarrow> URL option" where
  "urlParse rawURL =
     (case cutAt CHR ''#'' rawURL of (u, frag) \<Rightarrow>
        (case parseNoFrag u of
           None \<Rightarrow> None
         | Some url \<Rightarrow> if frag = [] then Some url else setFragment url frag))"

section \<open>Accessors\<close>

definition Hostname :: "URL \<Rightarrow> string" where
  "Hostname u =
     (let h = Host u;
          h1 = (case lastIndexByte h CHR '':'' of
                  Some i \<Rightarrow> if validOptionalPort (drop i h) then take i h else h
                | None \<Rightarrow> h)
      in if hasPrefix h1 ''['' \<and> hasSuffix h1 '']'' then butlast (tl h1) else h1)"

definition queryPair :: "string \<Rightarrow> (string \<times> string) option" where
  "queryPair kv =
     (if CHR '';'' \<in> set kv \<or> kv = [] then None
      else (case cutAt CHR ''='' kv of (k, v) \<Rightarrow>
        (case (QueryUnescape k, QueryUnescape v) of
           (Some k', Some v') \<Rightarrow> Some (k', v')
         | _ \<Rightarrow> None)))"

definition parseQuery :: "string \<Rightarrow> (string \<times> string) list" where
  "parseQuery q = List.map_filter queryPair (splitOn CHR ''&'' q)"

definition queryGet :: "URL \<Rightarrow> string \<Rightarrow> string" where
  "queryGet u k = (case find (\<lambda>p. fst p = k) (parseQuery (RawQuery u)) of None \<Rightarrow> [] | Some p \<Rightarrow> snd p)"

definition EscapedPath :: "URL \<Rightarrow> string" where
  "EscapedPath u =
     (if RawPath u \<noteq> [] \<and> validEncoded EncPath (RawPath u) \<and> unescape EncPath (RawPath u) = Some (Path u)
      then RawPath u
      else if Path u = ''*'' then ''*'' else escape EncPath (Path u))"

definition EscapedFragment :: "URL \<Rightarrow> string" where
  "EscapedFragment u =
     (if RawFragment u \<noteq> [] \<and> validEncoded EncFragment (RawFragment u)
         \<and> unescape EncFragment (RawFragment u) = Some (Fragment u)
      then RawFragment u else escape EncFragment (Fragment u))"

definition userString :: "Userinfo \<Rightarrow> string" where
  "userString ui =
     (if username ui \<noteq> [] \<or> password ui \<noteq> None
      then escape EncUserPassword (username ui)
           @ (case password ui of None \<Rightarrow> [] | Some p \<Rightarrow> '':'' @ escape EncUserPassword p)
      else [])"

definition urlString :: "URL \<Rightarrow> string" where
  "urlString u =
     (let sch = (if Scheme u = [] then [] else Scheme u @ '':'');
          auth =
            (if (Scheme u \<noteq> [] \<or> Host u \<noteq> [] \<or> User u \<noteq> None)
                \<and> \<not> (OmitHost u \<and> Host u = [] \<and> User u = None)
             then (if Host u \<noteq> [] \<or> Path u \<noteq> [] \<or> User u \<noteq> None then ''//'' else [])
                  @ (case User u of None \<Rightarrow> [] | Some ui \<Rightarrow> userString ui @ ''@'')
                  @ escape EncHost (Host u)
             else []);
          path = EscapedPath u;
          pre = sch @ auth @ (if path \<noteq> [] \<and> hd path \<noteq> CHR ''/'' \<and> Host u \<noteq> [] then ''/'' else []);
          dot = (if pre = [] \<and> CHR '':'' \<in> set (fst (cutAt CHR ''/'' path)) then ''./'' else [])
      in (if Opaque u \<noteq> [] then sch @ Opaque u else pre @ dot @ path)
         @ (if ForceQuery u \<or> RawQuery u \<noteq> [] then ''?'' @ RawQuery u else [])
         @ (if Fragment u \<noteq> [] then ''#'' @ EscapedFragment u else []))"

section \<open>Decoding undoes encoding\<close>

lemma of_char_nibbles: "(of_char (c :: char) :: nat) div 16 < 16" "(of_char c :: nat) mod 16 < 16"
  by (simp_all add: less_mult_imp_div_less)

lemma hex_digits:
  assumes "n < 16"
  shows "isHex (upperhex n)" and "unhex (upperhex n) = n"
proof -
  have "n \<in> set [0..<16]" using assms by simp
  moreover have "list_all (\<lambda>k. isHex (upperhex k) \<and> unhex (upperhex k) = k) [0..<16]"
    by (simp add: upt_rec isHex_def isDigit_def unhex_def upperhex_def)
  ultimately show "isHex (upperhex n)" and "unhex (upperhex n) = n"
    unfolding list_all_iff by blast+
qed

lemma hexByte_upperhex [simp]:
  "hexByte (upperhex (of_char c div 16)) (upperhex (of_char c mod 16)) = c"
  by (simp add: hexByte_def hex_digits of_char_nibbles)

lemma unescape_escapeChar:
  "unescape EncQueryComponent (escapeChar EncQueryComponent c @ s) = map_option ((#) c) (unescape EncQueryComponent s)"
proof (cases "c = CHR '' ''")
  case True
  then show ?thesis by (simp add: escapeChar_def)
next
  case False
  show ?thesis
  proof (cases "shouldEscape EncQueryComponent c")
    case True
    with False show ?thesis
      by (simp add: escapeChar_def hex_digits of_char_nibbles)
  next
    case no: False
    then have "c \<noteq> CHR ''%''" "c \<noteq> CHR ''+''"
      by (auto simp: shouldEscape_def isAlpha_def isDigit_def)
    with no \<open>c \<noteq> CHR '' ''\<close> show ?thesis by (simp add: escapeChar_def)
  qed
qed

lemma QueryUnescape_QueryEscape [simp]: "QueryUnescape (QueryEscape s) = Some s"
proof (induction s)
  case Nil
  then show ?case by (simp add: escape_def)
next
  case (Cons c s)
  then show ?case by (simp add: escape_def unescape_escapeChar)
qed

text \<open>The bytes an encoded query component is made of.\<close>

definition plainQueryChar :: "char \<Rightarrow> bool" where
  "plainQueryChar c \<longleftrightarrow> isAlpha c \<or> isDigit c \<or> c \<in> set ''-_.~%+''"

lemma upperhex_plain: "n < 16 \<Longrightarrow> plainQueryChar (upperhex n)"
proof -
  assume "n < 16"
  then have "isHex (upperhex n)" by (rule hex_digits)
  then show ?thesis by (auto simp: plainQueryChar_def isHex_def isAlpha_def isDigit_def)
qed

lemma QueryEscape_plain: "c \<in> set (QueryEscape s) \<Longrightarrow> plainQueryChar c"
proof -
  assume "c \<in> set (QueryEscape s)"
  then obtain d where d: "c \<in> set (escapeChar EncQueryComponent d)"
    by (auto simp: escape_def)
  show ?thesis
  proof (cases "shouldEscape EncQueryComponent d")
    case True
    with d consider "c \<in> set ''+%''" | "c = upperhex (of_char d div 16)"
        | "c = upperhex (of_char d mod 16)"
      by (auto simp: escapeChar_def split: if_splits)
    then show ?thesis
      using upperhex_plain of_char_nibbles by cases (auto simp: plainQueryChar_def)
  next
    case False
    with d show ?thesis
      by (auto simp: escapeChar_def plainQueryChar_def shouldEscape_def split: if_splits)
  qed
qed

section \<open>Parsing an https link\<close>

lemma plain_query_facts:
  assumes "plainQueryChar c"
  shows "c \<noteq> CHR ''#''" "c \<noteq> CHR ''?''" "c \<noteq> CHR ''&''" "c \<noteq> CHR '';''" "c \<noteq> CHR ''=''" "\<not> isCTL c"
  using assms by (auto simp: plainQueryChar_def isAlpha_def isDigit_def isCTL_def)

definition hostChar :: "char \<Rightarrow> bool" where
  "hostChar c \<longleftrightarrow> isAlpha c \<or> isDigit c \<or> c \<in> set ''-.''"

definition queryChar :: "char \<Rightarrow> bool" where
  "queryChar c \<longleftrightarrow> plainQueryChar c \<or> c \<in> set ''&=''"

lemmas hostChar_defs = hostChar_def isAlpha_def isDigit_def
lemmas queryChar_defs = queryChar_def plainQueryChar_def isAlpha_def isDigit_def

lemma hostChar_not: "hostChar c \<Longrightarrow> \<not> isCTL c \<and> \<not> shouldEscape EncHost c"
  by (auto simp: hostChar_defs isCTL_def shouldEscape_def)

lemma queryChar_not: "queryChar c \<Longrightarrow> \<not> isCTL c"
  by (auto simp: queryChar_defs isCTL_def)

lemma hostChar_simps [simp]:
  "\<not> hostChar CHR ''#''" "\<not> hostChar CHR ''?''" "\<not> hostChar CHR ''/''" "\<not> hostChar CHR '':''"
  "\<not> hostChar CHR ''@''" "\<not> hostChar CHR ''[''" "\<not> hostChar CHR ''%''" "\<not> hostChar CHR ''+''"
  by (simp_all add: hostChar_defs)

lemma queryChar_simps [simp]: "\<not> queryChar CHR ''#''" "\<not> queryChar CHR ''?''"
  by (simp_all add: queryChar_defs)

lemma unescape_host: "list_all hostChar h \<Longrightarrow> unescape EncHost h = Some h"
proof (induction h)
  case Nil
  then show ?case by simp
next
  case (Cons c h)
  then have "hostChar c" by simp
  then have "c \<noteq> CHR ''%''" "c \<noteq> CHR ''+''" "\<not> shouldEscape EncHost c"
    using hostChar_simps hostChar_not by metis+
  with Cons show ?case by simp
qed

lemma parseHost_plain:
  assumes "list_all hostChar h"
  shows "parseHost h = Some h"
proof -
  have "lastIndexByte h CHR ''['' = None" "indexByte h CHR '':'' = None"
    using list_all_notin [OF assms] by (simp_all add: lastIndexByte_None indexByte_None)
  with unescape_host [OF assms] show ?thesis by (simp add: parseHost_def)
qed

lemma parseAuthority_plain:
  assumes "list_all hostChar h"
  shows "parseAuthority h = Some (None, h)"
proof -
  have "lastIndexByte h CHR ''@'' = None"
    using list_all_notin [OF assms] by (simp add: lastIndexByte_None)
  with parseHost_plain [OF assms] show ?thesis by (simp add: parseAuthority_def)
qed

lemma cutAt_append: "sep \<notin> set k \<Longrightarrow> cutAt sep (k @ sep # v) = (k, v)"
  by (simp add: cutAt_def indexByte_append)

lemma setPath_slash: "setPath u ''/'' = Some (u\<lparr>Path := ''/'', RawPath := []\<rparr>)"
  by (simp add: setPath_def escape_def escapeChar_def shouldEscape_def isAlpha_def isDigit_def)

lemma parseHier_plain:
  assumes "list_all hostChar h" and "Scheme u \<noteq> []"
  shows "parseHier u (''//'' @ h @ ''/'') = Some (u\<lparr>User := None, Host := h, Path := ''/'', RawPath := []\<rparr>)"
proof -
  have "takeWhile (\<lambda>c. c \<noteq> CHR ''/'') (h @ ''/'') = h" "dropWhile (\<lambda>c. c \<noteq> CHR ''/'') (h @ ''/'') = ''/''"
    using list_all_notin [OF assms(1), of "CHR ''/''"]
    by (auto simp: takeWhile_append dropWhile_append)
  with assms show ?thesis
    by (simp add: parseHier_def Let_def parseAuthority_plain setPath_slash)
qed

lemma urlParse_https:
  assumes h: "list_all hostChar h" and q: "list_all queryChar q" and ne: "q \<noteq> []"
  shows "urlParse (''https://'' @ h @ ''/?'' @ q) =
     Some (emptyURL\<lparr>Scheme := ''https'', Host := h, Path := ''/'', RawQuery := q\<rparr>)"
proof -
  let ?r = "''//'' @ h @ ''/''" and ?s = "''https://'' @ h @ ''/?'' @ q"
  have hq: "CHR ''#'' \<notin> set h" "CHR ''#'' \<notin> set q" "CHR ''?'' \<notin> set h" "CHR ''?'' \<notin> set q"
    "\<not> list_ex isCTL h" "\<not> list_ex isCTL q"
    using list_all_notin [OF h] list_all_notin [OF q] list_all_not_ex [OF h] list_all_not_ex [OF q]
      hostChar_not queryChar_not by simp_all
  have "cutAt CHR ''#'' ?s = (?s, [])"
    using hq(1,2) by (simp add: cutAt_def indexByte_None [THEN iffD2])
  moreover have "getScheme ?s = Some (''https'', ?r @ CHR ''?'' # q)"
    by (simp add: getScheme_def isAlpha_def isDigit_def)
  moreover have "cutAt CHR ''?'' (?r @ CHR ''?'' # q) = (?r, q)"
    by (rule cutAt_append) (use hq(3) in simp)
  moreover have "\<not> hasSuffix (?r @ CHR ''?'' # q) ''?''"
    using ne hq(4) by (auto simp: hasSuffix_iff append_eq_append_conv2 Cons_eq_append_conv)
  ultimately show ?thesis
    using hq parseHier_plain [OF h, of "emptyURL\<lparr>Scheme := ''https'', RawQuery := q\<rparr>"]
    by (simp add: urlParse_def parseNoFrag_def Let_def isCTL_def toLower_def lowerChar_def emptyURL_def)
qed

end
