(* ===== verification/SafeLinks.thy ===== *)
theory SafeLinks
  imports NetURL
begin

text \<open>
  \<^verbatim>\<open>app/pipeline/safelinks.go\<close>: recognition of the links that e-mail security gateways rewrite
  and recovery of the original target. The two regular expressions that mark an encoded byte
  and the one that delimits a v3 link are the scanning functions \<open>hexPairs\<close> and \<open>v3Scan\<close>.
  \<open>None\<close> stands for the Go result \<^verbatim>\<open>"", false\<close> and for the empty string of the helpers.
\<close>

text \<open>\<^verbatim>\<open>ReplaceAllStringFunc\<close> with \<^verbatim>\<open>-([0-9A-Fa-f]{2})\<close> or \<^verbatim>\<open>\*([0-9A-Fa-f]{2})\<close>.\<close>

fun hexPairs :: "char \<Rightarrow> string \<Rightarrow> string" where
  "hexPairs mark (c # h # l # rest) =
     (if c = mark \<and> isHex h \<and> isHex l then CHR ''%'' # h # l # hexPairs mark rest
      else c # hexPairs mark (h # l # rest))"
| "hexPairs mark s = s"

definition isHTTP :: "string \<Rightarrow> bool" where
  "isHTTP s \<longleftrightarrow> hasPrefix s ''http://'' \<or> hasPrefix s ''https://''"

definition decodeProofpointV2UnderscoreVariant :: "string \<Rightarrow> string option" where
  "decodeProofpointV2UnderscoreVariant encoded =
     (let decoded = hexPairs CHR ''-'' encoded;
          step2 = (case QueryUnescape decoded of None \<Rightarrow> decoded | Some r \<Rightarrow> r);
          res = replaceAll (replaceAll step2 ''__'' ''//'') ''_'' ''/''
      in if isHTTP res then Some res else None)"

definition decodeProofpointV2 :: "string \<Rightarrow> string option" where
  "decodeProofpointV2 encoded =
     (case QueryUnescape (hexPairs CHR ''-'' encoded) of
        None \<Rightarrow> None
      | Some res \<Rightarrow>
          if \<not> isHTTP res then decodeProofpointV2UnderscoreVariant encoded else Some res)"

text \<open>\<^verbatim>\<open>^/v3/__(.+?)__(?:;|$)\<close>: the shortest non-empty text, without a line feed, up to the mark.\<close>

fun v3Scan :: "string \<Rightarrow> string \<Rightarrow> string option" where
  "v3Scan acc [] = None"
| "v3Scan acc (c # cs) =
     (if acc \<noteq> [] \<and> hasPrefix (c # cs) ''__'' \<and> (drop 1 cs = [] \<or> hasPrefix (drop 1 cs) '';'')
      then Some (rev acc)
      else if c = CHR 0x0A then None
      else v3Scan (c # acc) cs)"

definition decodeProofpointV3 :: "string \<Rightarrow> string option" where
  "decodeProofpointV3 path =
     (if \<not> hasPrefix path ''/v3/__'' then None
      else (case v3Scan [] (drop 6 path) of
              None \<Rightarrow> None
            | Some encoded \<Rightarrow>
                (case QueryUnescape (hexPairs CHR ''*'' encoded) of
                   None \<Rightarrow> None
                 | Some res \<Rightarrow> if isHTTP res then Some res else None)))"

definition decodeMimecast :: "URL \<Rightarrow> string option" where
  "decodeMimecast u =
     (let domain = queryGet u ''domain''
      in if domain = [] then None
         else (let scheme = (if queryGet u ''s'' \<noteq> [] \<and> queryGet u ''s'' = ''0'' then ''http'' else ''https'');
                   p = queryGet u ''p'';
                   path = (if p \<noteq> [] then (case QueryUnescape p of Some d \<Rightarrow> d | None \<Rightarrow> p) else []);
                   res = scheme @ ''://'' @ domain @ path
               in if isHTTP res then Some res else None))"

text \<open>The four tests of \<^verbatim>\<open>decodeSafeLink\<close>, each falling through to the next when it yields nothing.\<close>

definition isOutlookHost :: "string \<Rightarrow> bool" where
  "isOutlookHost host \<longleftrightarrow>
     hasSuffix host ''.safelinks.protection.outlook.com'' \<or> host = ''safelinks.protection.outlook.com''"

definition isMimecastHost :: "string \<Rightarrow> bool" where
  "isMimecastHost host \<longleftrightarrow> hasSuffix host ''.mimecastprotect.com'' \<or> host = ''mimecastprotect.com''"

definition decodeSafeLink :: "string \<Rightarrow> string option" where
  "decodeSafeLink rawURL =
     (case urlParse rawURL of
        None \<Rightarrow> None
      | Some u \<Rightarrow>
          (let host = toLower (Hostname u);
               outlook = (if isOutlookHost host \<and> queryGet u ''url'' \<noteq> [] \<and> isHTTP (queryGet u ''url'')
                          then Some (queryGet u ''url'') else None);
               pp2 = (if host = ''urldefense.proofpoint.com'' \<and> hasPrefix (Path u) ''/v2/url''
                         \<and> queryGet u ''u'' \<noteq> []
                      then decodeProofpointV2 (queryGet u ''u'') else None);
               pp3 = (if (host = ''urldefense.com'' \<or> host = ''urldefense.proofpoint.com'')
                         \<and> hasPrefix (Path u) ''/v3/__''
                      then decodeProofpointV3 (Path u) else None);
               mime = (if isMimecastHost host then decodeMimecast u else None)
           in case outlook of Some d \<Rightarrow> Some d
              | None \<Rightarrow> (case pp2 of Some d \<Rightarrow> Some d
              | None \<Rightarrow> (case pp3 of Some d \<Rightarrow> Some d
              | None \<Rightarrow> mime))))"

section \<open>What a decoded link looks like\<close>

lemma decoders_http:
  "decodeProofpointV2UnderscoreVariant e = Some d \<Longrightarrow> isHTTP d"
  "decodeProofpointV2 e = Some d \<Longrightarrow> isHTTP d"
  "decodeProofpointV3 p = Some d \<Longrightarrow> isHTTP d"
  "decodeMimecast u = Some d \<Longrightarrow> isHTTP d"
  by (auto simp: decodeProofpointV2UnderscoreVariant_def decodeProofpointV2_def
      decodeProofpointV3_def decodeMimecast_def Let_def split: option.splits if_splits)

section \<open>The encoder the v2 decoder inverts\<close>

text \<open>
  Every byte outside letters and digits written as a hyphen and two hexadecimal digits, the
  form in which a v2 link carries its target.
\<close>

definition ppByte :: "char \<Rightarrow> string" where
  "ppByte c =
     (if isAlpha c \<or> isDigit c then [c]
      else [CHR ''-'', upperhex (of_char c div 16), upperhex (of_char c mod 16)])"

definition ppEncode :: "string \<Rightarrow> string" where
  "ppEncode s = concat (map ppByte s)"

lemma hexPairs_Cons: "c \<noteq> mark \<Longrightarrow> hexPairs mark (c # s) = c # hexPairs mark s"
  by (cases s; cases "tl s") auto

lemma alnum_plain:
  "isAlpha c \<or> isDigit c \<Longrightarrow> c \<noteq> CHR ''-'' \<and> c \<noteq> CHR ''%'' \<and> c \<noteq> CHR ''+''"
  by (auto simp: isAlpha_def isDigit_def)

lemma unescape_ppEncode: "QueryUnescape (hexPairs CHR ''-'' (ppEncode s)) = Some s"
proof (induction s)
  case Nil
  then show ?case by (simp add: ppEncode_def)
next
  case (Cons c s)
  show ?case
  proof (cases "isAlpha c \<or> isDigit c")
    case True
    then have "hexPairs CHR ''-'' (ppEncode (c # s)) = c # hexPairs CHR ''-'' (ppEncode s)"
      using alnum_plain [OF True] by (simp add: ppEncode_def ppByte_def hexPairs_Cons)
    with Cons alnum_plain [OF True] show ?thesis by simp
  next
    case False
    then show ?thesis
      using Cons by (simp add: ppEncode_def ppByte_def hex_digits of_char_nibbles)
  qed
qed

section \<open>Reading an Outlook link back\<close>

text \<open>The link that Outlook's gateway makes of a target, for a region and tracking data.\<close>

definition outlookWrap :: "string \<Rightarrow> string \<Rightarrow> string \<Rightarrow> string" where
  "outlookWrap region target data =
     ''https://'' @ (region @ ''.safelinks.protection.outlook.com'') @ ''/?''
       @ (''url='' @ QueryEscape target @ ''&data='' @ QueryEscape data)"

lemma queryPair_escaped:
  assumes "list_all (\<lambda>c. isAlpha c) k" and "k \<noteq> []"
  shows "queryPair (k @ ''='' @ QueryEscape v) = Some (k, v)"
proof -
  have k: "CHR ''='' \<notin> set k" "CHR '';'' \<notin> set k" "CHR ''%'' \<notin> set k" "CHR ''+'' \<notin> set k"
    using assms(1) by (auto simp: list_all_iff isAlpha_def)
  have v: "CHR '';'' \<notin> set (QueryEscape v)"
    using QueryEscape_plain plain_query_facts by blast
  have "QueryUnescape k = Some k"
    using k(3,4) by (induction k) auto
  then show ?thesis
    using k v assms(2) cutAt_append [OF k(1), of "QueryEscape v"] by (simp add: queryPair_def)
qed

lemma outlook_query:
  "parseQuery (''url='' @ QueryEscape t @ ''&data='' @ QueryEscape d) = [(''url'', t), (''data'', d)]"
proof -
  let ?a = "''url='' @ QueryEscape t" and ?b = "''data='' @ QueryEscape d"
  have amp: "CHR ''&'' \<notin> set (QueryEscape x)" for x
    using QueryEscape_plain plain_query_facts by blast
  have "splitOn CHR ''&'' (?a @ CHR ''&'' # ?b) = [?a, ?b]"
    using amp [of t] amp [of d] by (subst splitOn_append) (auto simp: splitOn_single)
  moreover have "queryPair ?a = Some (''url'', t)" "queryPair ?b = Some (''data'', d)"
    using queryPair_escaped [of "''url''" t] queryPair_escaped [of "''data''" d]
    by (simp_all add: isAlpha_def)
  ultimately show ?thesis by (simp add: parseQuery_def List.map_filter_def)
qed

lemma outlookWrap_parse:
  assumes "list_all hostChar region"
  shows "urlParse (outlookWrap region t d) =
     Some (emptyURL\<lparr>Scheme := ''https'', Host := region @ ''.safelinks.protection.outlook.com'',
       Path := ''/'', RawQuery := ''url='' @ QueryEscape t @ ''&data='' @ QueryEscape d\<rparr>)"
proof -
  have "list_all hostChar (region @ ''.safelinks.protection.outlook.com'')"
    using assms by (simp add: hostChar_def isAlpha_def)
  moreover have "list_all queryChar (''url='' @ QueryEscape t @ ''&data='' @ QueryEscape d)"
    using QueryEscape_plain [of _ t] QueryEscape_plain [of _ d]
    by (auto simp: list_all_iff queryChar_def plainQueryChar_def isAlpha_def)
  ultimately show ?thesis unfolding outlookWrap_def by (intro urlParse_https) auto
qed

end
