(* ===== verification/Email.thy ===== *)
theory Email
  imports Models Util SafeLinks "HOL-Library.While_Combinator"
begin

text \<open>
  \<^verbatim>\<open>app/pipeline/email.go\<close>: the in-flight message, the MIME walk of \<^verbatim>\<open>Parse\<close> with its byte budgets,
  attachment metadata, URL extraction and normalisation, QR links and the
  Authentication-Results reader. Third-party code enters as arguments, collected in the record
  \<open>mail_lib\<close>: go-message (the header and the stream of parts), goquery (the link attributes of
  a document), the image and QR decoders, SHA-256 and \<^verbatim>\<open>mime.ParseMediaType\<close>. The decoders may
  panic, and a reader of parts may never reach its end, so results are of the type \<open>go\<close>.
\<close>

section \<open>Go computations that may panic or never return\<close>

datatype 'a go = Returns 'a | Panics string | Hangs

fun bind_go :: "'a go \<Rightarrow> ('a \<Rightarrow> 'b go) \<Rightarrow> 'b go" where
  "bind_go (Returns x) f = f x"
| "bind_go (Panics m) f = Panics m"
| "bind_go Hangs f = Hangs"

lemma bind_go_Returns:
  "bind_go m f = Returns y \<longleftrightarrow> (\<exists>x. m = Returns x \<and> f x = Returns y)"
  by (cases m) auto

section \<open>Types\<close>

record Attachment =
  at_Filename :: string
  at_ContentType :: string
  at_SHA256 :: string
  at_Extension :: string
  at_SizeBytes :: int
  at_IsDangerous :: bool
  at_Raw :: string

record Email =
  em_AccountName :: string
  em_IMAPUID :: uint32
  em_IMAPMailbox :: string
  em_Raw :: string
  em_MessageID :: string
  em_Subject :: string
  em_From :: string
  em_To :: string
  em_Date :: "go_time option"
  em_SizeBytes :: int
  em_SPFResult :: string
  em_DKIMResult :: string
  em_DMARCResult :: string
  em_TextBody :: string
  em_HTMLBody :: string
  em_URLs :: "string list"
  em_Attachments :: "Attachment list"
  em_SenderIPs :: "ip list"
  em_HasExecutable :: bool
  em_WhitelistEntry :: string
  em_HadMIMEErrors :: bool

text \<open>What go-message yields. A body is its bytes and whether the stream then fails.\<close>

record body =
  bodyBytes :: string
  bodyFails :: bool

record att_header =
  ah_Filename :: string
  ah_ContentType :: string
  ah_Name :: string

datatype part_event =
    PartEOF
  | PartErr
  | PartInline string body
  | PartAttachment att_header body

record mail_header =
  mh_MessageID :: string
  mh_Subject :: string
  mh_From :: "string list option"
  mh_To :: "string list option"
  mh_Date :: "go_time option"
  mh_AuthResults :: "string list"
  mh_Received :: "string list"

type_synonym link_attrs = "string option \<times> string option \<times> string option" \<comment> \<open>href, src, action\<close>

record mail_lib =
  createReader :: "string \<Rightarrow> (mail_header \<times> (nat \<Rightarrow> part_event)) result"
  htmlAttrs :: "string \<Rightarrow> link_attrs list option go"
  imageConfig :: "string \<Rightarrow> (int \<times> int) option go"
  decodeQR :: "string \<Rightarrow> string option go"
  sha256Hex :: "string \<Rightarrow> string"
  mediaType :: "string \<Rightarrow> string result"

text \<open>\<^verbatim>\<open>io.ReadAll(io.LimitReader(body, n))\<close>: the bytes, and whether an error was met within the limit.\<close>

definition readLimited :: "body \<Rightarrow> int \<Rightarrow> string \<times> bool" where
  "readLimited b n =
     (take (nat n) (bodyBytes b), bodyFails b \<and> int (length (bodyBytes b)) < n)"

section \<open>URL normalisation\<close>

definition trackingParams :: "string list" where
  "trackingParams =
     [''utm_source'', ''utm_medium'', ''utm_campaign'', ''utm_content'', ''utm_term'',
      ''fbclid'', ''gclid'', ''mc_eid'', ''yclid'', ''twclid'']"

definition keyOf :: "string \<Rightarrow> string" where
  "keyOf kv = (case indexByte kv CHR ''='' of None \<Rightarrow> kv | Some eq \<Rightarrow> take eq kv)"

definition isTracking :: "string \<Rightarrow> bool" where
  "isTracking kv \<longleftrightarrow> list_ex (equalFold (keyOf kv)) trackingParams"

text \<open>The first half of \<^verbatim>\<open>normalizeURL\<close>: trailing punctuation off, scheme and host in lower case.\<close>

definition canonURL :: "string \<Rightarrow> string" where
  "canonURL rawURL =
     (let s = trimRight rawURL (''.,;:!?'' @ [CHR 0x22, CHR 0x27])
      in case urlParse s of
           None \<Rightarrow> s
         | Some u \<Rightarrow> urlString (u\<lparr>Scheme := toLower (Scheme u), Host := toLower (Host u)\<rparr>))"

text \<open>The second half: the query without its tracking parameters.\<close>

definition stripTracking :: "string \<Rightarrow> string" where
  "stripTracking s =
     (case indexByte s CHR ''?'' of
        None \<Rightarrow> s
      | Some idx \<Rightarrow>
          (let parts = filter (\<lambda>kv. \<not> isTracking kv) (splitOn CHR ''&'' (drop (Suc idx) s))
           in if parts = [] then take idx s else take idx s @ ''?'' @ strJoin parts ''&''))"

definition normalizeURL :: "string \<Rightarrow> string" where
  "normalizeURL rawURL = stripTracking (canonURL rawURL)"

section \<open>URL extraction\<close>

definition maxURLsPerEmail :: nat where
  "maxURLsPerEmail = 100"

definition urlStop :: "char \<Rightarrow> bool" where
  "urlStop c \<longleftrightarrow> c \<in> set ''<>()[] '' \<union> {CHR 0x22, CHR 0x27, CHR 0x09, CHR 0x0A, CHR 0x0C, CHR 0x0D}"

text \<open>
  One attempt of \<^verbatim>\<open>https?://[^\s"'<>()\[\]]+\<close> at the head of the text. The class is the longest
  run of characters outside the stop set, which must not be empty.
\<close>

definition urlAt :: "string \<Rightarrow> string option" where
  "urlAt s =
     (let p = (if hasPrefix s ''http://'' then Some (7::nat)
               else if hasPrefix s ''https://'' then Some 8 else None)
      in case p of
           None \<Rightarrow> None
         | Some n \<Rightarrow>
             (let run = takeWhile (\<lambda>c. \<not> urlStop c) (drop n s)
              in if run = [] then None else Some (take n s @ run)))"

fun findURLs :: "string \<Rightarrow> string list" where
  "findURLs [] = []"
| "findURLs (c # cs) =
     (case urlAt (c # cs) of
        None \<Rightarrow> findURLs cs
      | Some u \<Rightarrow> u # findURLs (drop (length u - 1) cs))"

text \<open>
  The closure \<^verbatim>\<open>addURL\<close>. The map \<^verbatim>\<open>seen\<close> holds exactly the elements of \<^verbatim>\<open>urls\<close>, so the list is the
  whole state.
\<close>

definition addURL :: "string \<Rightarrow> string list \<Rightarrow> string list \<times> bool" where
  "addURL raw urls =
     (if length urls \<ge> maxURLsPerEmail then (urls, False)
      else
        (let n = normalizeURL raw;
             urls1 = (if n \<noteq> [] \<and> n \<notin> set urls then urls @ [n] else urls)
         in case decodeSafeLink raw of
              None \<Rightarrow> (urls1, True)
            | Some d \<Rightarrow>
                (let dn = normalizeURL d
                 in if d \<noteq> [] \<and> dn \<noteq> [] \<and> dn \<notin> set urls1 then
                      (if length urls1 \<ge> maxURLsPerEmail then (urls1, False) else (urls1 @ [dn], True))
                    else (urls1, True))))"

text \<open>Both loops stop at the first refusal.\<close>

fun addAll :: "string list \<Rightarrow> string list \<Rightarrow> string list" where
  "addAll [] urls = urls"
| "addAll (r # rs) urls =
     (case addURL r urls of (urls', ok) \<Rightarrow> if ok then addAll rs urls' else urls')"

definition attrURLs :: "link_attrs \<Rightarrow> string list" where
  "attrURLs a =
     (case a of (h, s, act) \<Rightarrow>
        [v. Some v \<leftarrow> [h, s, act], hasPrefix v ''http''])"

definition extractURLs :: "mail_lib \<Rightarrow> string \<Rightarrow> string \<Rightarrow> string list go" where
  "extractURLs lib text htmlBody =
     (let urls = addAll (findURLs text) []
      in if length urls < maxURLsPerEmail then
           bind_go (htmlAttrs lib htmlBody)
             (\<lambda>doc. Returns (case doc of
                None \<Rightarrow> urls
              | Some els \<Rightarrow> addAll (concat (map attrURLs els)) urls))
         else Returns urls)"

section \<open>QR codes\<close>

definition qrMaxImageBytes :: int where
  "qrMaxImageBytes = 2 * 1024 * 1024"

definition qrImageMIMEs :: "string list" where
  "qrImageMIMEs = [''image/png'', ''image/jpeg'', ''image/jpg'', ''image/gif'']"

definition qrContentType :: "Attachment \<Rightarrow> string" where
  "qrContentType att =
     (let ct = toLower (trimSpace (at_ContentType att))
      in case indexByte ct CHR '';'' of None \<Rightarrow> ct | Some i \<Rightarrow> trimSpace (take i ct))"

text \<open>One attachment of the loop: the link its QR code holds, if it holds one.\<close>

definition qrURL :: "mail_lib \<Rightarrow> Attachment \<Rightarrow> string option go" where
  "qrURL lib att =
     (if qrContentType att \<notin> set qrImageMIMEs \<or> at_SizeBytes att > qrMaxImageBytes \<or> at_Raw att = []
      then Returns None
      else bind_go (imageConfig lib (at_Raw att)) (\<lambda>cfg.
        case cfg of
          None \<Rightarrow> Returns None
        | Some (w, h) \<Rightarrow>
            if w > 4096 \<or> h > 4096 then Returns None
            else bind_go (decodeQR lib (at_Raw att)) (\<lambda>r.
              Returns (case r of
                None \<Rightarrow> None
              | Some txt \<Rightarrow>
                  (let text = trimSpace txt
                   in if text = [] \<or> \<not> isHTTP text then None
                      else (let norm = normalizeURL text in if norm \<noteq> [] then Some norm else None))))))"

fun extractQRURLs :: "mail_lib \<Rightarrow> Attachment list \<Rightarrow> string list go" where
  "extractQRURLs lib [] = Returns []"
| "extractQRURLs lib (att # atts) =
     bind_go (qrURL lib att) (\<lambda>r.
       bind_go (extractQRURLs lib atts) (\<lambda>rs.
         Returns (case r of None \<Rightarrow> rs | Some u \<Rightarrow> u # rs)))"

text \<open>The merge at the end of \<^verbatim>\<open>Parse\<close>: no cap here, only the duplicate test.\<close>

fun mergeURLs :: "string list \<Rightarrow> string list \<Rightarrow> string list" where
  "mergeURLs urls [] = urls"
| "mergeURLs urls (u # us) = mergeURLs (if u \<in> set urls then urls else urls @ [u]) us"

section \<open>Authentication results\<close>

definition firstToken :: "string \<Rightarrow> string option" where
  "firstToken ar =
     (case fieldsFunc (\<lambda>c. c = CHR '' '' \<or> c = CHR 0x09 \<or> c = CHR '';'') ar [] of
        [] \<Rightarrow> None | t # _ \<Rightarrow> Some t)"

definition fromTrusted :: "string \<Rightarrow> string \<Rightarrow> bool" where
  "fromTrusted trustedAuthservID ar \<longleftrightarrow>
     trustedAuthservID = []
     \<or> (case firstToken ar of None \<Rightarrow> False | Some t \<Rightarrow> equalFold t trustedAuthservID)"

definition mechanismResult :: "string \<Rightarrow> string \<Rightarrow> string option" where
  "mechanismResult mechanism ar =
     (case strIndex (toLower ar) (mechanism @ ''='') of
        None \<Rightarrow> None
      | Some idx \<Rightarrow>
          (let rest = drop (idx + length mechanism + 1) ar
           in case indexAny rest ('' ;'' @ [CHR 0x09, CHR 0x0D, CHR 0x0A]) of
                None \<Rightarrow> Some (toLower (trimSpace rest))
              | Some e \<Rightarrow> Some (toLower (trimSpace (take e rest)))))"

fun extractAuthResult :: "string list \<Rightarrow> string \<Rightarrow> string \<Rightarrow> string" where
  "extractAuthResult [] mechanism trustedAuthservID = ''none''"
| "extractAuthResult (ar # ars) mechanism trustedAuthservID =
     (if ar = [] \<or> \<not> fromTrusted trustedAuthservID ar
      then extractAuthResult ars mechanism trustedAuthservID
      else (case mechanismResult mechanism ar of
              None \<Rightarrow> extractAuthResult ars mechanism trustedAuthservID
            | Some r \<Rightarrow> r))"

section \<open>Attachments\<close>

definition fileExt :: "string \<Rightarrow> string" where
  "fileExt filename = (case lastIndexByte filename CHR ''.'' of None \<Rightarrow> [] | Some idx \<Rightarrow> drop idx filename)"

definition attachmentName :: "att_header \<Rightarrow> string" where
  "attachmentName h =
     (if ah_Filename h \<noteq> [] then ah_Filename h
      else if ah_Name h \<noteq> [] then ah_Name h
      else ''attachment.'' @ last (splitOn CHR ''/'' (ah_ContentType h)))"

definition buildAttachment :: "mail_lib \<Rightarrow> att_header \<Rightarrow> body \<Rightarrow> int \<Rightarrow> Attachment option" where
  "buildAttachment lib h b maxBytes =
     (let filename = attachmentName h; ct = ah_ContentType h
      in case readLimited b maxBytes of (raw, err) \<Rightarrow>
           if err then None
           else Some \<lparr>at_Filename = filename, at_ContentType = SafeContentType (mediaType lib) ct,
                      at_SHA256 = sha256Hex lib raw, at_Extension = toLower (fileExt filename),
                      at_SizeBytes = int (length raw),
                      at_IsDangerous = (DangerousExtension filename \<or> IsExecutable (mediaType lib) ct),
                      at_Raw = raw\<rparr>)"

section \<open>The MIME walk\<close>

record walk =
  wk_Text :: string
  wk_HTML :: string
  wk_Atts :: "Attachment list"
  wk_Exec :: bool
  wk_Errs :: bool
  wk_AttBytes :: int
  wk_BodyBytes :: int

definition walk0 :: walk where
  "walk0 = \<lparr>wk_Text = [], wk_HTML = [], wk_Atts = [], wk_Exec = False, wk_Errs = False,
     wk_AttBytes = 0, wk_BodyBytes = 0\<rparr>"

definition maxTotalBodyBytes :: int where
  "maxTotalBodyBytes = 20 * 1024 * 1024"

definition inlinePart :: "string \<Rightarrow> body \<Rightarrow> walk \<Rightarrow> walk" where
  "inlinePart ct b w =
     (let remaining = maxTotalBodyBytes - wk_BodyBytes w
      in if remaining \<le> 0 then w
         else (let data = fst (readLimited b (min (10 * 1024 * 1024) remaining));
                   w1 = w\<lparr>wk_BodyBytes := wk_BodyBytes w + int (length data)\<rparr>
               in if hasPrefix ct ''text/plain'' then w1\<lparr>wk_Text := wk_Text w @ data\<rparr>
                  else if hasPrefix ct ''text/html'' then w1\<lparr>wk_HTML := wk_HTML w @ data\<rparr>
                  else w1))"

definition addAttachment :: "Attachment option \<Rightarrow> walk \<Rightarrow> walk" where
  "addAttachment a w =
     (case a of
        None \<Rightarrow> w
      | Some att \<Rightarrow>
          w\<lparr>wk_AttBytes := wk_AttBytes w + at_SizeBytes att, wk_Atts := wk_Atts w @ [att],
             wk_Exec := (wk_Exec w \<or> at_IsDangerous att)\<rparr>)"

definition attachmentPart :: "mail_lib \<Rightarrow> int \<Rightarrow> att_header \<Rightarrow> body \<Rightarrow> walk \<Rightarrow> walk" where
  "attachmentPart lib maxAttachmentBytes h b w =
     (let hard = 50 * 1024 * 1024; remaining = maxAttachmentBytes - wk_AttBytes w
      in if maxAttachmentBytes > 0 \<and> remaining \<le> 0 then w
         else addAttachment
                (buildAttachment lib h b (if maxAttachmentBytes > 0 \<and> remaining < hard then remaining else hard)) w)"

fun walkStep :: "mail_lib \<Rightarrow> int \<Rightarrow> part_event \<Rightarrow> walk \<Rightarrow> walk" where
  "walkStep lib maxAtt PartEOF w = w"
| "walkStep lib maxAtt PartErr w = w\<lparr>wk_Errs := True\<rparr>"
| "walkStep lib maxAtt (PartInline ct b) w = inlinePart ct b w"
| "walkStep lib maxAtt (PartAttachment h b) w = attachmentPart lib maxAtt h b w"

text \<open>The loop: \<^verbatim>\<open>NextPart\<close> until it reports \<^verbatim>\<open>io.EOF\<close>; any other error only skips the part.\<close>

definition walkParts :: "mail_lib \<Rightarrow> int \<Rightarrow> (nat \<Rightarrow> part_event) \<Rightarrow> walk go" where
  "walkParts lib maxAtt parts =
     (case while_option (\<lambda>(i, w). parts i \<noteq> PartEOF) (\<lambda>(i, w). (Suc i, walkStep lib maxAtt (parts i) w)) (0, walk0) of
        None \<Rightarrow> Hangs
      | Some (i, w) \<Rightarrow> Returns w)"

definition headerEmail :: "mail_header \<Rightarrow> string \<Rightarrow> string \<Rightarrow> uint32 \<Rightarrow> string \<Rightarrow> string \<Rightarrow> Email" where
  "headerEmail h raw accountName uid mailbox trusted =
     \<lparr>em_AccountName = accountName, em_IMAPUID = uid, em_IMAPMailbox = mailbox, em_Raw = raw,
      em_MessageID = mh_MessageID h, em_Subject = mh_Subject h,
      em_From = (case mh_From h of Some (a # _) \<Rightarrow> a | _ \<Rightarrow> []),
      em_To = (case mh_To h of Some addrs \<Rightarrow> strJoin addrs '', '' | None \<Rightarrow> []),
      em_Date = mh_Date h, em_SizeBytes = int (length raw),
      em_SPFResult = extractAuthResult (mh_AuthResults h) ''spf'' trusted,
      em_DKIMResult = extractAuthResult (mh_AuthResults h) ''dkim'' trusted,
      em_DMARCResult = extractAuthResult (mh_AuthResults h) ''dmarc'' trusted,
      em_TextBody = [], em_HTMLBody = [], em_URLs = [], em_Attachments = [],
      em_SenderIPs = (case ExtractSendingIP (mh_Received h) of Some i \<Rightarrow> [i] | None \<Rightarrow> []),
      em_HasExecutable = False, em_WhitelistEntry = [], em_HadMIMEErrors = False\<rparr>"

definition Parse :: "mail_lib \<Rightarrow> string \<Rightarrow> string \<Rightarrow> uint32 \<Rightarrow> string \<Rightarrow> int \<Rightarrow> string \<Rightarrow> Email result go" where
  "Parse lib raw accountName uid mailbox maxAttachmentBytes trustedAuthservID =
     (case createReader lib raw of
        Inl e \<Rightarrow> Returns (Inl e)
      | Inr (h, parts) \<Rightarrow>
          bind_go (walkParts lib maxAttachmentBytes parts) (\<lambda>w.
          bind_go (extractURLs lib (wk_Text w) (wk_HTML w)) (\<lambda>urls.
          bind_go (extractQRURLs lib (wk_Atts w)) (\<lambda>qr.
            Returns (Inr ((headerEmail h raw accountName uid mailbox trustedAuthservID)
              \<lparr>em_TextBody := wk_Text w, em_HTMLBody := wk_HTML w, em_Attachments := wk_Atts w,
               em_HasExecutable := wk_Exec w, em_HadMIMEErrors := wk_Errs w,
               em_URLs := mergeURLs urls qr\<rparr>))))))"

section \<open>Normalised URLs\<close>

definition queryParts :: "string \<Rightarrow> string list" where
  "queryParts s =
     (case indexByte s CHR ''?'' of None \<Rightarrow> [] | Some i \<Rightarrow> splitOn CHR ''&'' (drop (Suc i) s))"

lemma queryParts_append:
  assumes "CHR ''?'' \<notin> set b"
  shows "queryParts (b @ ''?'' @ q) = splitOn CHR ''&'' q" and "queryParts b = []"
  using assms by (simp_all add: queryParts_def indexByte_append indexByte_None [THEN iffD2])

lemma stripTracking_parts:
  "queryParts (stripTracking s) = filter (\<lambda>kv. \<not> isTracking kv) (queryParts s)"
proof (cases "indexByte s CHR ''?''")
  case None
  then show ?thesis by (simp add: stripTracking_def queryParts_def)
next
  case (Some idx)
  let ?parts = "filter (\<lambda>kv. \<not> isTracking kv) (splitOn CHR ''&'' (drop (Suc idx) s))"
  have base: "CHR ''?'' \<notin> set (take idx s)"
    using indexByte_Some [OF Some] by simp
  have sep: "\<forall>x \<in> set ?parts. CHR ''&'' \<notin> set x"
    using splitOn_no_sep by (metis filter_is_subset in_mono)
  show ?thesis
  proof (cases "?parts = []")
    case True
    with Some base show ?thesis
      by (simp add: stripTracking_def queryParts_append(2)) (simp add: queryParts_def)
  next
    case False
    then have "queryParts (stripTracking s) = splitOn CHR ''&'' (strJoin ?parts ''&'')"
      using Some queryParts_append(1) [OF base] by (simp add: stripTracking_def)
    also have "\<dots> = ?parts" by (rule splitOn_strJoin [OF False sep])
    finally show ?thesis using Some by (simp add: queryParts_def)
  qed
qed

lemma stripTracking_idem: "stripTracking (stripTracking s) = stripTracking s"
proof (cases "indexByte s CHR ''?''")
  case None
  then show ?thesis by (simp add: stripTracking_def)
next
  case (Some idx)
  let ?parts = "filter (\<lambda>kv. \<not> isTracking kv) (splitOn CHR ''&'' (drop (Suc idx) s))"
  let ?b = "take idx s"
  have base: "CHR ''?'' \<notin> set ?b"
    using indexByte_Some [OF Some] by simp
  have sep: "\<forall>x \<in> set ?parts. CHR ''&'' \<notin> set x"
    using splitOn_no_sep by (metis filter_is_subset in_mono)
  show ?thesis
  proof (cases "?parts = []")
    case True
    with Some have "stripTracking s = ?b" by (simp add: stripTracking_def)
    then show ?thesis
      using base by (simp add: stripTracking_def indexByte_None [THEN iffD2])
  next
    case False
    with Some have s': "stripTracking s = ?b @ ''?'' @ strJoin ?parts ''&''"
      by (simp add: stripTracking_def)
    have "splitOn CHR ''&'' (strJoin ?parts ''&'') = ?parts"
      by (rule splitOn_strJoin [OF False sep])
    then have "stripTracking (?b @ CHR ''?'' # strJoin ?parts ''&'') = ?b @ ''?'' @ strJoin ?parts ''&''"
      using False indexByte_append [OF base, of "strJoin ?parts ''&''"]
      by (simp only: stripTracking_def) (simp add: min_def)
    then show ?thesis using s' by simp
  qed
qed

section \<open>The list of extracted URLs\<close>

definition urlListOK :: "string list \<Rightarrow> bool" where
  "urlListOK urls \<longleftrightarrow> distinct urls \<and> [] \<notin> set urls \<and> length urls \<le> maxURLsPerEmail"

lemma addURL_OK: "urlListOK urls \<Longrightarrow> urlListOK (fst (addURL r urls))"
  by (auto simp: urlListOK_def addURL_def Let_def split: option.splits)

lemma addURL_prefix: "\<exists>ext. fst (addURL r urls) = urls @ ext"
  by (auto simp: addURL_def Let_def split: option.splits)

lemma addAll_OK: "urlListOK urls \<Longrightarrow> urlListOK (addAll rs urls)"
proof (induction rs arbitrary: urls)
  case Nil
  then show ?case by simp
next
  case (Cons r rs)
  have "urlListOK (fst (addURL r urls))" using Cons.prems by (rule addURL_OK)
  then show ?case using Cons.IH by (auto split: prod.splits)
qed

lemma extractURLs_OK: "extractURLs lib t h = Returns urls \<Longrightarrow> urlListOK urls"
proof -
  assume "extractURLs lib t h = Returns urls"
  moreover have "urlListOK (addAll (findURLs t) [])"
    by (rule addAll_OK) (simp add: urlListOK_def)
  ultimately show ?thesis
    by (auto simp: extractURLs_def Let_def bind_go_Returns addAll_OK split: if_splits option.splits)
qed

lemma mergeURLs_props:
  "distinct urls \<Longrightarrow> distinct (mergeURLs urls us)"
  "set (mergeURLs urls us) = set urls \<union> set us"
  "length (mergeURLs urls us) \<le> length urls + length us"
proof (induction us arbitrary: urls)
  case (Cons u us)
  { case 1 then show ?case using Cons.IH(1) by auto }
  { case 2 then show ?case using Cons.IH(2) by auto }
  { case 3 then show ?case using Cons.IH(3) [of urls] Cons.IH(3) [of "urls @ [u]"] by auto }
qed auto

lemma extractQRURLs_props:
  "extractQRURLs lib atts = Returns qs \<Longrightarrow> length qs \<le> length atts \<and> [] \<notin> set qs"
proof (induction atts arbitrary: qs)
  case Nil
  then show ?case by simp
next
  case (Cons a atts)
  have ne: "qrURL lib a = Returns (Some u) \<Longrightarrow> u \<noteq> []" for u
    by (auto simp: qrURL_def Let_def bind_go_Returns split: if_splits option.splits prod.splits)
  from Cons.prems obtain r rs where r: "qrURL lib a = Returns r" "extractQRURLs lib atts = Returns rs"
    and qs: "qs = (case r of None \<Rightarrow> rs | Some u \<Rightarrow> u # rs)"
    by (auto simp: bind_go_Returns)
  then show ?case using Cons.IH [OF r(2)] ne by (auto split: option.splits)
qed

section \<open>The budgets of the walk\<close>

definition walkOK :: "int \<Rightarrow> walk \<Rightarrow> bool" where
  "walkOK maxAtt w \<longleftrightarrow>
     int (length (wk_Text w) + length (wk_HTML w)) \<le> wk_BodyBytes w
     \<and> wk_BodyBytes w \<le> maxTotalBodyBytes
     \<and> wk_AttBytes w = sum_list (map at_SizeBytes (wk_Atts w))
     \<and> (maxAtt > 0 \<longrightarrow> wk_AttBytes w \<le> maxAtt)
     \<and> (\<forall>a \<in> set (wk_Atts w). at_SizeBytes a = int (length (at_Raw a)) \<and> at_SizeBytes a \<le> 50 * 1024 * 1024)
     \<and> (wk_Exec w \<longleftrightarrow> (\<exists>a \<in> set (wk_Atts w). at_IsDangerous a))"

lemma readLimited_length: "0 \<le> n \<Longrightarrow> int (length (fst (readLimited b n))) \<le> n"
  by (simp add: readLimited_def)

lemma inlinePart_OK: "walkOK m w \<Longrightarrow> walkOK m (inlinePart ct b w)"
  using readLimited_length [of "min (10 * 1024 * 1024) (maxTotalBodyBytes - wk_BodyBytes w)" b]
  by (auto simp: walkOK_def inlinePart_def Let_def)

lemma buildAttachment_size:
  "buildAttachment lib h b n = Some a \<Longrightarrow> 0 \<le> n \<Longrightarrow> at_SizeBytes a = int (length (at_Raw a)) \<and> at_SizeBytes a \<le> n"
  using readLimited_length [of n b]
  by (auto simp: buildAttachment_def Let_def split: prod.splits if_splits)

lemma addAttachment_OK:
  assumes "walkOK m w"
    and "\<And>a. x = Some a \<Longrightarrow> at_SizeBytes a = int (length (at_Raw a)) \<and> at_SizeBytes a \<le> 50 * 1024 * 1024
           \<and> (m > 0 \<longrightarrow> wk_AttBytes w + at_SizeBytes a \<le> m)"
  shows "walkOK m (addAttachment x w)"
  using assms by (auto simp: walkOK_def addAttachment_def split: option.splits)

lemma attachmentPart_OK: "walkOK m w \<Longrightarrow> walkOK m (attachmentPart lib m h b w)"
  by (auto simp: attachmentPart_def Let_def intro!: addAttachment_OK dest!: buildAttachment_size)

lemma walkStep_OK: "walkOK m w \<Longrightarrow> walkOK m (walkStep lib m e w)"
  by (cases e) (auto simp: inlinePart_OK attachmentPart_OK, auto simp: walkOK_def)

lemma walkParts_OK:
  assumes "walkParts lib m parts = Returns w" shows "walkOK m w"
proof -
  let ?b = "\<lambda>(i, w). parts i \<noteq> PartEOF" and ?c = "\<lambda>(i, w). (Suc i, walkStep lib m (parts i) w)"
  obtain i where "while_option ?b ?c (0, walk0) = Some (i, w)"
    using assms by (auto simp: walkParts_def split: option.splits)
  then have "(\<lambda>(i, w). walkOK m w) (i, w)"
    by (rule while_option_rule [rotated]) (auto simp: walkStep_OK, simp add: walkOK_def walk0_def maxTotalBodyBytes_def)
  then show ?thesis by simp
qed

section \<open>When the walk ends\<close>

fun walkRun :: "mail_lib \<Rightarrow> int \<Rightarrow> (nat \<Rightarrow> part_event) \<Rightarrow> nat \<Rightarrow> walk" where
  "walkRun lib m parts 0 = walk0"
| "walkRun lib m parts (Suc k) = walkStep lib m (parts k) (walkRun lib m parts k)"

lemma walk_iterate:
  "((\<lambda>(i, w). (Suc i, walkStep lib m (parts i) w)) ^^ k) (0, walk0) = (k, walkRun lib m parts k)"
  by (induction k) auto

lemma walkParts_eq:
  "walkParts lib m parts =
     (if \<exists>k. parts k = PartEOF then Returns (walkRun lib m parts (LEAST k. parts k = PartEOF)) else Hangs)"
  by (simp add: walkParts_def while_option_def walk_iterate)

section \<open>Trusted authentication results\<close>

lemma extractAuthResult_filter:
  "extractAuthResult (filter (fromTrusted t) ars) m t = extractAuthResult ars m t"
  by (induction ars) (auto split: option.splits)

end
