(* ===== verification/Verdict.thy ===== *)
theory Verdict
  imports Email "HOL-Library.Multiset"
begin

text \<open>
  \<^verbatim>\<open>app/pipeline/verdict.go\<close>: the scanner result, the thresholds and the decision, and the verdict
  engine \<^verbatim>\<open>Decide\<close>. The loop that collects signals is \<open>collect\<close>, a left fold with one equation
  per \<^verbatim>\<open>case\<close> of the source; the rules follow in the source's order. Scores and confidences are
  exact rationals.
\<close>

section \<open>Types\<close>

record ScanResult =
  sr_Scanner :: string
  sr_Verdict :: string
  sr_Score :: float64
  sr_Detail :: string
  sr_Matches :: jcol

record VerdictDecision =
  vd_Decision :: string
  vd_Reason :: string
  vd_Verdict :: string
  vd_Confidence :: float64
  vd_Results :: "ScanResult list"

record Thresholds =
  SpamScore :: float64
  RejectScore :: float64

section \<open>Signals\<close>

record signals =
  rspamdScore :: float64
  clamHit :: bool
  clamDetail :: string
  yaraHit :: bool
  yaraDetail :: string
  urlHit :: bool
  urlDetail :: string
  vtPositives :: int
  vtDetail :: string
  mbHit :: bool
  mbDetail :: string
  ipSuspicious :: bool
  ipMalicious :: bool
  ipDetail :: string
  nrdHit :: bool
  nrdDetail :: string
  htmlSmugglingHit :: bool
  htmlSmugglingDetail :: string
  hiddenTextHit :: bool
  hiddenTextDetail :: string
  onnxMalicious :: bool
  onnxSuspicious :: bool
  onnxDetail :: string

definition noSignals :: signals where
  "noSignals = \<lparr>rspamdScore = 0, clamHit = False, clamDetail = [], yaraHit = False, yaraDetail = [],
     urlHit = False, urlDetail = [], vtPositives = 0, vtDetail = [], mbHit = False, mbDetail = [],
     ipSuspicious = False, ipMalicious = False, ipDetail = [], nrdHit = False, nrdDetail = [],
     htmlSmugglingHit = False, htmlSmugglingDetail = [], hiddenTextHit = False,
     hiddenTextDetail = [], onnxMalicious = False, onnxSuspicious = False, onnxDetail = []\<rparr>"

definition collect1 :: "signals \<Rightarrow> ScanResult \<Rightarrow> signals" where
  "collect1 s r =
     (let mal = (sr_Verdict r = ''malicious''); susp = (sr_Verdict r = ''suspicious''); d = sr_Detail r
      in if sr_Scanner r = ''rspamd'' then s\<lparr>rspamdScore := sr_Score r\<rparr>
         else if sr_Scanner r = ''clamav'' then
           (if mal then s\<lparr>clamHit := True, clamDetail := d\<rparr> else s)
         else if sr_Scanner r = ''yara'' then
           (if mal then s\<lparr>yaraHit := True, yaraDetail := d\<rparr> else s)
         else if sr_Scanner r = ''urlcheck'' then
           (if mal \<or> susp then s\<lparr>urlHit := True, urlDetail := d\<rparr> else s)
         else if sr_Scanner r = ''urlunshorten'' then
           (if mal then s\<lparr>urlHit := True, urlDetail := d\<rparr> else s)
         else if sr_Scanner r = ''nrdcheck'' then
           (if susp then s\<lparr>nrdHit := True, nrdDetail := d\<rparr> else s)
         else if sr_Scanner r = ''htmlsmuggling'' then
           (if susp then s\<lparr>htmlSmugglingHit := True, htmlSmugglingDetail := d\<rparr> else s)
         else if sr_Scanner r = ''hiddentextdetect'' then
           (if susp then s\<lparr>hiddenTextHit := True, hiddenTextDetail := d\<rparr> else s)
         else if sr_Scanner r = ''virustotal'' then
           (if mal then s\<lparr>vtPositives := truncInt (sr_Score r), vtDetail := d\<rparr> else s)
         else if sr_Scanner r = ''malwarebazaar'' then
           (if mal then s\<lparr>mbHit := True, mbDetail := d\<rparr> else s)
         else if sr_Scanner r = ''ipreputation'' then
           (if mal then s\<lparr>ipMalicious := True, ipDetail := d\<rparr>
            else if susp then s\<lparr>ipSuspicious := True, ipDetail := d\<rparr> else s)
         else if sr_Scanner r = ''onnx'' then
           (if mal then s\<lparr>onnxMalicious := True, onnxDetail := d\<rparr>
            else if susp then s\<lparr>onnxSuspicious := True, onnxDetail := d\<rparr> else s)
         else s)"

definition collect :: "ScanResult list \<Rightarrow> signals" where
  "collect results = foldl collect1 noSignals results"

section \<open>Helpers\<close>

definition decided :: "string \<Rightarrow> string \<Rightarrow> string \<Rightarrow> float64 \<Rightarrow> ScanResult list \<Rightarrow> VerdictDecision" where
  "decided decision verdict reason confidence results =
     \<lparr>vd_Decision = decision, vd_Reason = reason, vd_Verdict = verdict,
      vd_Confidence = confidence, vd_Results = results\<rparr>"

definition scaleConfidence :: "float64 \<Rightarrow> float64 \<Rightarrow> float64 \<Rightarrow> float64" where
  "scaleConfidence score low high =
     (if high \<le> low then 70 / 100
      else (let ratio = (score - low) / (high - low)
            in if ratio > 1 then 99 / 100 else 70 / 100 + 29 / 100 * ratio))"

fun execExts :: "string list \<Rightarrow> Attachment list \<Rightarrow> string list" where
  "execExts seen [] = []"
| "execExts seen (a # as) =
     (if at_IsDangerous a \<and> at_Extension a \<notin> set seen
      then at_Extension a # execExts (at_Extension a # seen) as
      else execExts seen as)"

definition executableExtensions :: "Attachment list \<Rightarrow> string list" where
  "executableExtensions atts = execExts [] atts"

definition suspiciousReasons :: "signals \<Rightarrow> Email \<Rightarrow> string list" where
  "suspiciousReasons s email =
     (if em_SPFResult email \<noteq> ''pass'' \<and> em_DKIMResult email \<noteq> ''pass'' \<and> em_DMARCResult email \<noteq> ''pass''
      then [''SPF/DKIM/DMARC all failed''] else [])
     @ (if ipSuspicious s then [''IP reputation: '' @ ipDetail s] else [])
     @ (if vtPositives s > 0 \<and> vtPositives s < 3
        then [''VirusTotal: '' @ intStr (vtPositives s) @ '' engine(s)''] else [])
     @ (if nrdHit s then [''newly registered domain: '' @ nrdDetail s] else [])
     @ (if hiddenTextHit s then [''hidden text/zero-font: '' @ hiddenTextDetail s] else [])"

definition criticalScanners :: "string list" where
  "criticalScanners = [''clamav'', ''yara'', ''rspamd'']"

definition criticalFailure :: "ScanResult list \<Rightarrow> ScanResult option" where
  "criticalFailure results =
     find (\<lambda>r. sr_Scanner r \<in> set criticalScanners \<and> sr_Verdict r = ''error'') results"

section \<open>The verdict engine\<close>

definition Decide :: "Thresholds \<Rightarrow> Email \<Rightarrow> ScanResult list \<Rightarrow> VerdictDecision" where
  "Decide t email results =
     (let s = collect results;
          authOK = (em_SPFResult email = ''pass'' \<or> em_DKIMResult email = ''pass''
                    \<or> em_DMARCResult email = ''pass'');
          reasons = suspiciousReasons s email
      in
      if clamHit s then decided ''delete'' ''MALWARE'' (''ClamAV: '' @ clamDetail s) (99 / 100) results
      else if yaraHit s then decided ''delete'' ''MALWARE'' (''YARA match: '' @ yaraDetail s) (95 / 100) results
      else if vtPositives s \<ge> 3 then decided ''delete'' ''MALWARE'' (vtDetail s) (90 / 100) results
      else if mbHit s then decided ''delete'' ''MALWARE'' (mbDetail s) (88 / 100) results
      else if ipMalicious s then
        decided ''delete'' ''MALWARE'' (''IP reputation: '' @ ipDetail s) (85 / 100) results
      else if rspamdScore s \<ge> RejectScore t then
        decided ''delete'' ''SPAM''
          (''Rspamd score '' @ fmtF1 (rspamdScore s) @ '' '' @ geSign @ '' reject threshold '' @ fmtF1 (RejectScore t))
          (scaleConfidence (rspamdScore s) (SpamScore t) (RejectScore t)) results
      else if urlHit s then
        decided ''quarantine'' ''PHISH'' (''URL threat feed match: '' @ urlDetail s) (97 / 100) results
      else if onnxMalicious s then
        decided ''quarantine'' ''PHISH'' (''AI phishing URL: '' @ onnxDetail s) (87 / 100) results
      else if rspamdScore s \<ge> SpamScore t then
        decided ''quarantine'' ''SPAM''
          (''Rspamd score '' @ fmtF1 (rspamdScore s) @ '' '' @ geSign @ '' spam threshold '' @ fmtF1 (SpamScore t))
          (scaleConfidence (rspamdScore s) (SpamScore t) (RejectScore t)) results
      else if em_HasExecutable email then
        decided ''quarantine'' ''SUSPICIOUS''
          (''dangerous attachment extension(s): '' @ strJoin (executableExtensions (em_Attachments email)) '', '')
          (70 / 100) results
      else if htmlSmugglingHit s then
        decided ''quarantine'' ''SUSPICIOUS'' (htmlSmugglingDetail s) (80 / 100) results
      else if onnxSuspicious s \<and> (\<not> authOK \<or> nrdHit s) then
        decided ''quarantine'' ''SUSPICIOUS'' (''AI DGA + auth/nrd: '' @ onnxDetail s) (75 / 100) results
      else if length reasons \<ge> 2 then
        decided ''quarantine'' ''SUSPICIOUS'' (strJoin reasons ''; '') (60 / 100) results
      else if length reasons = 1 then
        decided ''flag'' ''SUSPICIOUS'' (hd reasons) (40 / 100) results
      else (case criticalFailure results of
              Some r \<Rightarrow>
                decided ''quarantine'' ''SUSPICIOUS''
                  (sr_Scanner r @ '' scan failed or timed out '' @ emDash @ '' manual review required'')
                  (1 / 2) results
            | None \<Rightarrow> decided ''pass'' ''CLEAN'' ''No threats detected'' 1 results))"

lemma decided_simps [simp]:
  "vd_Decision (decided a b c d e) = a" "vd_Verdict (decided a b c d e) = b"
  "vd_Reason (decided a b c d e) = c" "vd_Confidence (decided a b c d e) = d"
  "vd_Results (decided a b c d e) = e"
  by (simp_all add: decided_def)

lemma criticalFailure_None:
  "criticalFailure results = None \<longleftrightarrow>
     (\<forall>r \<in> set results. sr_Scanner r \<in> set criticalScanners \<longrightarrow> sr_Verdict r \<noteq> ''error'')"
  by (auto simp: criticalFailure_def find_None_all)

section \<open>What the collected signals are\<close>

text \<open>One result's effect on each signal that the rules test.\<close>

lemma collect1_hits:
  "clamHit (collect1 s r) \<longleftrightarrow> clamHit s \<or> sr_Scanner r = ''clamav'' \<and> sr_Verdict r = ''malicious''"
  "yaraHit (collect1 s r) \<longleftrightarrow> yaraHit s \<or> sr_Scanner r = ''yara'' \<and> sr_Verdict r = ''malicious''"
  "mbHit (collect1 s r) \<longleftrightarrow> mbHit s \<or> sr_Scanner r = ''malwarebazaar'' \<and> sr_Verdict r = ''malicious''"
  "nrdHit (collect1 s r) \<longleftrightarrow> nrdHit s \<or> sr_Scanner r = ''nrdcheck'' \<and> sr_Verdict r = ''suspicious''"
  "htmlSmugglingHit (collect1 s r) \<longleftrightarrow>
     htmlSmugglingHit s \<or> sr_Scanner r = ''htmlsmuggling'' \<and> sr_Verdict r = ''suspicious''"
  "hiddenTextHit (collect1 s r) \<longleftrightarrow>
     hiddenTextHit s \<or> sr_Scanner r = ''hiddentextdetect'' \<and> sr_Verdict r = ''suspicious''"
  "ipMalicious (collect1 s r) \<longleftrightarrow> ipMalicious s \<or> sr_Scanner r = ''ipreputation'' \<and> sr_Verdict r = ''malicious''"
  "ipSuspicious (collect1 s r) \<longleftrightarrow> ipSuspicious s \<or> sr_Scanner r = ''ipreputation'' \<and> sr_Verdict r = ''suspicious''"
  "onnxMalicious (collect1 s r) \<longleftrightarrow> onnxMalicious s \<or> sr_Scanner r = ''onnx'' \<and> sr_Verdict r = ''malicious''"
  "onnxSuspicious (collect1 s r) \<longleftrightarrow> onnxSuspicious s \<or> sr_Scanner r = ''onnx'' \<and> sr_Verdict r = ''suspicious''"
  "urlHit (collect1 s r) \<longleftrightarrow> urlHit s
     \<or> sr_Scanner r = ''urlcheck'' \<and> (sr_Verdict r = ''malicious'' \<or> sr_Verdict r = ''suspicious'')
     \<or> sr_Scanner r = ''urlunshorten'' \<and> sr_Verdict r = ''malicious''"
  by (simp_all add: collect1_def Let_def)

lemma collect1_numbers:
  "rspamdScore (collect1 s r) = (if sr_Scanner r = ''rspamd'' then sr_Score r else rspamdScore s)"
  "vtPositives (collect1 s r) =
     (if sr_Scanner r = ''virustotal'' \<and> sr_Verdict r = ''malicious'' then truncInt (sr_Score r) else vtPositives s)"
  by (simp_all add: collect1_def Let_def)

lemmas collect1_simps = collect1_hits collect1_numbers

text \<open>A signal that each result can only raise is raised by the whole fold when one result raises it.\<close>

lemma foldl_raise:
  assumes "\<And>s r. f (step s r) \<longleftrightarrow> f s \<or> P r"
  shows "f (foldl step s rs) \<longleftrightarrow> f s \<or> (\<exists>r \<in> set rs. P r)"
  by (induction rs arbitrary: s) (auto simp: assms)

text \<open>A value that only the result of one scanner overwrites is that result's, if it occurs once.\<close>

lemma foldl_last_writer:
  assumes step: "\<And>s r. f (step s r) = (if k r = name \<and> P r then g r else f s)"
    and "distinct (map k rs)" and "r \<in> set rs" and "k r = name"
  shows "f (foldl step s rs) = (if P r then g r else f s)"
proof -
  have skip: "name \<notin> k ` set xs \<Longrightarrow> f (foldl step s xs) = f s" for xs s
    by (induction xs arbitrary: s) (auto simp: step)
  obtain us vs where rs: "rs = us @ r # vs" using assms(3) by (meson split_list)
  then have "name \<notin> k ` set us" "name \<notin> k ` set vs"
    using assms(2,4) by auto
  then show ?thesis using assms(4) by (simp add: rs skip step)
qed

lemma foldl_no_writer:
  assumes step: "\<And>s r. f (step s r) = (if k r = name \<and> P r then g r else f s)"
    and "name \<notin> k ` set rs"
  shows "f (foldl step s rs) = f s"
  using assms(2) by (induction rs arbitrary: s) (auto simp: step)

lemma collect_hits:
  "clamHit (collect rs) \<longleftrightarrow> (\<exists>r \<in> set rs. sr_Scanner r = ''clamav'' \<and> sr_Verdict r = ''malicious'')"
  "yaraHit (collect rs) \<longleftrightarrow> (\<exists>r \<in> set rs. sr_Scanner r = ''yara'' \<and> sr_Verdict r = ''malicious'')"
  "mbHit (collect rs) \<longleftrightarrow> (\<exists>r \<in> set rs. sr_Scanner r = ''malwarebazaar'' \<and> sr_Verdict r = ''malicious'')"
  "nrdHit (collect rs) \<longleftrightarrow> (\<exists>r \<in> set rs. sr_Scanner r = ''nrdcheck'' \<and> sr_Verdict r = ''suspicious'')"
  "htmlSmugglingHit (collect rs) \<longleftrightarrow>
     (\<exists>r \<in> set rs. sr_Scanner r = ''htmlsmuggling'' \<and> sr_Verdict r = ''suspicious'')"
  "hiddenTextHit (collect rs) \<longleftrightarrow>
     (\<exists>r \<in> set rs. sr_Scanner r = ''hiddentextdetect'' \<and> sr_Verdict r = ''suspicious'')"
  "ipMalicious (collect rs) \<longleftrightarrow> (\<exists>r \<in> set rs. sr_Scanner r = ''ipreputation'' \<and> sr_Verdict r = ''malicious'')"
  "ipSuspicious (collect rs) \<longleftrightarrow> (\<exists>r \<in> set rs. sr_Scanner r = ''ipreputation'' \<and> sr_Verdict r = ''suspicious'')"
  "onnxMalicious (collect rs) \<longleftrightarrow> (\<exists>r \<in> set rs. sr_Scanner r = ''onnx'' \<and> sr_Verdict r = ''malicious'')"
  "onnxSuspicious (collect rs) \<longleftrightarrow> (\<exists>r \<in> set rs. sr_Scanner r = ''onnx'' \<and> sr_Verdict r = ''suspicious'')"
  "urlHit (collect rs) \<longleftrightarrow> (\<exists>r \<in> set rs.
     sr_Scanner r = ''urlcheck'' \<and> (sr_Verdict r = ''malicious'' \<or> sr_Verdict r = ''suspicious'')
     \<or> sr_Scanner r = ''urlunshorten'' \<and> sr_Verdict r = ''malicious'')"
  unfolding collect_def
  by (subst foldl_raise, rule collect1_hits, simp add: noSignals_def)+

section \<open>Rules as predicates on signals\<close>

definition deleteSignal :: "Thresholds \<Rightarrow> signals \<Rightarrow> bool" where
  "deleteSignal t s \<longleftrightarrow> clamHit s \<or> yaraHit s \<or> vtPositives s \<ge> 3 \<or> mbHit s \<or> ipMalicious s
     \<or> rspamdScore s \<ge> RejectScore t"

definition noAuth :: "Email \<Rightarrow> bool" where
  "noAuth e \<longleftrightarrow> em_SPFResult e \<noteq> ''pass'' \<and> em_DKIMResult e \<noteq> ''pass'' \<and> em_DMARCResult e \<noteq> ''pass''"

definition quarantineSignal :: "Thresholds \<Rightarrow> signals \<Rightarrow> Email \<Rightarrow> bool" where
  "quarantineSignal t s e \<longleftrightarrow> urlHit s \<or> onnxMalicious s \<or> rspamdScore s \<ge> SpamScore t
     \<or> em_HasExecutable e \<or> htmlSmugglingHit s \<or> onnxSuspicious s \<and> (noAuth e \<or> nrdHit s)
     \<or> length (suspiciousReasons s e) \<ge> 2"

lemma length_suspiciousReasons:
  "length (suspiciousReasons s e) =
     of_bool (noAuth e) + of_bool (ipSuspicious s) + of_bool (vtPositives s > 0 \<and> vtPositives s < 3)
     + of_bool (nrdHit s) + of_bool (hiddenTextHit s)"
  by (simp add: suspiciousReasons_def noAuth_def)

lemma authOK_noAuth:
  "(em_SPFResult e = ''pass'' \<or> em_DKIMResult e = ''pass'' \<or> em_DMARCResult e = ''pass'') = (\<not> noAuth e)"
  by (simp add: noAuth_def)

lemma Decide_decision:
  "vd_Decision (Decide t e rs) =
     (if deleteSignal t (collect rs) then ''delete''
      else if quarantineSignal t (collect rs) e then ''quarantine''
      else if length (suspiciousReasons (collect rs) e) = 1 then ''flag''
      else if criticalFailure rs \<noteq> None then ''quarantine'' else ''pass'')"
  by (cases "noAuth e"; cases "nrdHit (collect rs)")
    (simp_all add: Decide_def Let_def deleteSignal_def quarantineSignal_def authOK_noAuth split: option.split)

lemma Decide_results: "vd_Results (Decide t e rs) = rs"
  by (simp add: Decide_def Let_def split: option.split)

text \<open>The verdict and the confidence as functions of the signals alone.\<close>

definition signalVerdict :: "Thresholds \<Rightarrow> Email \<Rightarrow> signals \<Rightarrow> bool \<Rightarrow> string" where
  "signalVerdict t e s failed =
     (if clamHit s \<or> yaraHit s \<or> vtPositives s \<ge> 3 \<or> mbHit s \<or> ipMalicious s then ''MALWARE''
      else if rspamdScore s \<ge> RejectScore t then ''SPAM''
      else if urlHit s \<or> onnxMalicious s then ''PHISH''
      else if rspamdScore s \<ge> SpamScore t then ''SPAM''
      else if quarantineSignal t s e \<or> length (suspiciousReasons s e) = 1 \<or> failed then ''SUSPICIOUS''
      else ''CLEAN'')"

definition signalConfidence :: "Thresholds \<Rightarrow> Email \<Rightarrow> signals \<Rightarrow> bool \<Rightarrow> float64" where
  "signalConfidence t e s failed =
     (if clamHit s then 99 / 100 else if yaraHit s then 95 / 100
      else if vtPositives s \<ge> 3 then 90 / 100 else if mbHit s then 88 / 100
      else if ipMalicious s then 85 / 100
      else if rspamdScore s \<ge> RejectScore t then scaleConfidence (rspamdScore s) (SpamScore t) (RejectScore t)
      else if urlHit s then 97 / 100 else if onnxMalicious s then 87 / 100
      else if rspamdScore s \<ge> SpamScore t then scaleConfidence (rspamdScore s) (SpamScore t) (RejectScore t)
      else if em_HasExecutable e then 70 / 100 else if htmlSmugglingHit s then 80 / 100
      else if onnxSuspicious s \<and> (noAuth e \<or> nrdHit s) then 75 / 100
      else if length (suspiciousReasons s e) \<ge> 2 then 60 / 100
      else if length (suspiciousReasons s e) = 1 then 40 / 100
      else if failed then 1 / 2 else 1)"

lemma Decide_verdict:
  "vd_Verdict (Decide t e rs) = signalVerdict t e (collect rs) (criticalFailure rs \<noteq> None)"
  by (cases "noAuth e"; cases "nrdHit (collect rs)")
    (simp_all add: Decide_def Let_def signalVerdict_def quarantineSignal_def authOK_noAuth split: option.split)

lemma Decide_confidence:
  "vd_Confidence (Decide t e rs) = signalConfidence t e (collect rs) (criticalFailure rs \<noteq> None)"
  by (cases "noAuth e"; cases "nrdHit (collect rs)")
    (simp_all add: Decide_def Let_def signalConfidence_def authOK_noAuth split: option.split)

section \<open>Order of arrival\<close>

text \<open>Two signal records that agree on everything the rules test.\<close>

definition sameSignals :: "signals \<Rightarrow> signals \<Rightarrow> bool" where
  "sameSignals a b \<longleftrightarrow> rspamdScore a = rspamdScore b \<and> vtPositives a = vtPositives b
     \<and> clamHit a = clamHit b \<and> yaraHit a = yaraHit b \<and> mbHit a = mbHit b \<and> nrdHit a = nrdHit b
     \<and> htmlSmugglingHit a = htmlSmugglingHit b \<and> hiddenTextHit a = hiddenTextHit b
     \<and> ipMalicious a = ipMalicious b \<and> ipSuspicious a = ipSuspicious b
     \<and> onnxMalicious a = onnxMalicious b \<and> onnxSuspicious a = onnxSuspicious b \<and> urlHit a = urlHit b"

lemma collect_value_same:
  assumes step: "\<And>s r. f (collect1 s r) = (if sr_Scanner r = name \<and> P r then g r else f s)"
    and "distinct (map sr_Scanner rs)" "distinct (map sr_Scanner rs')" "set rs = set rs'"
  shows "f (collect rs) = f (collect rs')"
proof (cases "name \<in> sr_Scanner ` set rs")
  case True
  then obtain r where r: "r \<in> set rs" "sr_Scanner r = name" by auto
  with assms(4) have "r \<in> set rs'" by simp
  with r show ?thesis
    unfolding collect_def
    using foldl_last_writer [where f = f, OF step assms(2) r(1,2)]
      foldl_last_writer [where f = f, OF step assms(3) _ r(2)] by simp
next
  case False
  with assms(4) show ?thesis
    unfolding collect_def by (simp add: foldl_no_writer [where f = f, OF step])
qed

lemma collect_sameSignals:
  assumes "distinct (map sr_Scanner rs)" "distinct (map sr_Scanner rs')" "set rs = set rs'"
  shows "sameSignals (collect rs) (collect rs')"
proof -
  have "rspamdScore (collect rs) = rspamdScore (collect rs')"
    by (rule collect_value_same [where P = "\<lambda>_. True", OF _ assms]) (simp add: collect1_numbers)
  moreover have "vtPositives (collect rs) = vtPositives (collect rs')"
    by (rule collect_value_same [OF _ assms]) (rule collect1_numbers)
  ultimately show ?thesis
    using assms(3) by (simp add: sameSignals_def collect_hits)
qed

lemma suspiciousReasons_same:
  "sameSignals a b \<Longrightarrow> length (suspiciousReasons a e) = length (suspiciousReasons b e)"
  by (simp add: length_suspiciousReasons sameSignals_def)

lemma criticalFailure_same: "set rs = set rs' \<Longrightarrow> (criticalFailure rs \<noteq> None) = (criticalFailure rs' \<noteq> None)"
  unfolding criticalFailure_None by simp

lemma sameSignals_rules:
  assumes "sameSignals a b"
  shows "deleteSignal t a = deleteSignal t b" "quarantineSignal t a e = quarantineSignal t b e"
    "signalVerdict t e a f = signalVerdict t e b f" "signalConfidence t e a f = signalConfidence t e b f"
  using assms suspiciousReasons_same [OF assms, of e]
  by (cases "noAuth e"; cases "nrdHit b";
      simp add: sameSignals_def deleteSignal_def quarantineSignal_def signalVerdict_def signalConfidence_def)+

section \<open>Severity\<close>

definition severity :: "string \<Rightarrow> nat" where
  "severity d = (if d = ''delete'' then 3 else if d = ''quarantine'' then 2 else if d = ''flag'' then 1 else 0)"

lemma scaleConfidence_bounds:
  assumes "low \<le> score"
  shows "70 / 100 \<le> scaleConfidence score low high" "scaleConfidence score low high \<le> 99 / 100"
proof -
  define r where "r = (score - low) / (high - low)"
  have r: "0 \<le> r" if "\<not> high \<le> low"
    using assms that by (simp add: r_def)
  have "scaleConfidence score low high =
      (if high \<le> low then 70 / 100 else if r > 1 then 99 / 100 else 70 / 100 + 29 / 100 * r)"
    by (simp add: scaleConfidence_def r_def Let_def)
  with r show "70 / 100 \<le> scaleConfidence score low high" "scaleConfidence score low high \<le> 99 / 100"
    by (auto simp del: One_nat_def)
qed

lemma signalConfidence_bounds:
  "40 / 100 \<le> signalConfidence t e s f" "signalConfidence t e s f \<le> 1"
proof -
  let ?c = "scaleConfidence (rspamdScore s) (SpamScore t) (RejectScore t)"
  have sc: "40 / 100 \<le> ?c \<and> ?c \<le> 1"
    if "SpamScore t \<le> rspamdScore s \<or> RejectScore t \<le> rspamdScore s"
  proof (cases "SpamScore t \<le> rspamdScore s")
    case True
    then show ?thesis
      using scaleConfidence_bounds [of "SpamScore t" "rspamdScore s" "RejectScore t"] by linarith
  next
    case False
    with that show ?thesis by (simp add: scaleConfidence_def)
  qed
  then show "40 / 100 \<le> signalConfidence t e s f" "signalConfidence t e s f \<le> 1"
    by (simp_all add: signalConfidence_def)
qed

section \<open>More evidence\<close>

text \<open>A later result of a new scanner keeps every signal and can only raise the two numbers.\<close>

definition weakerSignals :: "signals \<Rightarrow> signals \<Rightarrow> bool" where
  "weakerSignals a b \<longleftrightarrow> rspamdScore a \<le> rspamdScore b \<and> vtPositives a \<le> vtPositives b
     \<and> (clamHit a \<longrightarrow> clamHit b) \<and> (yaraHit a \<longrightarrow> yaraHit b) \<and> (mbHit a \<longrightarrow> mbHit b)
     \<and> (nrdHit a \<longrightarrow> nrdHit b) \<and> (htmlSmugglingHit a \<longrightarrow> htmlSmugglingHit b)
     \<and> (hiddenTextHit a \<longrightarrow> hiddenTextHit b) \<and> (ipMalicious a \<longrightarrow> ipMalicious b)
     \<and> (ipSuspicious a \<longrightarrow> ipSuspicious b) \<and> (onnxMalicious a \<longrightarrow> onnxMalicious b)
     \<and> (onnxSuspicious a \<longrightarrow> onnxSuspicious b) \<and> (urlHit a \<longrightarrow> urlHit b)"

lemma collect_new_weaker:
  assumes "sr_Scanner r \<notin> sr_Scanner ` set rs" and "0 \<le> sr_Score r"
  shows "weakerSignals (collect rs) (collect (rs @ [r]))"
proof -
  have "sr_Scanner r = ''rspamd'' \<Longrightarrow> rspamdScore (collect rs) = 0"
    unfolding collect_def
    using assms(1) by (subst foldl_no_writer [where P = "\<lambda>_. True" and k = sr_Scanner])
      (auto simp: collect1_numbers noSignals_def)
  moreover have "sr_Scanner r = ''virustotal'' \<Longrightarrow> vtPositives (collect rs) = 0"
    unfolding collect_def
    using assms(1) by (subst foldl_no_writer [where f = vtPositives, OF collect1_numbers(2)])
      (auto simp: noSignals_def)
  moreover have "collect (rs @ [r]) = collect1 (collect rs) r"
    by (simp add: collect_def)
  ultimately show ?thesis
    using assms(2) by (auto simp: weakerSignals_def collect1_simps truncInt_def)
qed

lemma weaker_delete: "weakerSignals a b \<Longrightarrow> deleteSignal t a \<Longrightarrow> deleteSignal t b"
  by (auto simp: weakerSignals_def deleteSignal_def)

lemma weaker_reasons:
  "weakerSignals a b \<Longrightarrow> \<not> deleteSignal t b \<Longrightarrow>
     length (suspiciousReasons a e) \<le> length (suspiciousReasons b e)"
  by (auto simp: weakerSignals_def deleteSignal_def length_suspiciousReasons)

lemma weaker_quarantine:
  assumes "weakerSignals a b" "\<not> deleteSignal t b" "quarantineSignal t a e"
  shows "quarantineSignal t b e"
proof (cases "2 \<le> length (suspiciousReasons a e)")
  case True
  then show ?thesis using weaker_reasons [OF assms(1,2), of e] by (simp add: quarantineSignal_def)
next
  case False
  with assms show ?thesis by (auto simp: weakerSignals_def quarantineSignal_def)
qed

section \<open>Properties of the verdict engine\<close>

text \<open>
  C19. The scanners run concurrently and their results arrive in any order. Whatever the order,
  as long as each scanner reports once, the decision, the verdict and the confidence are the same.
\<close>

theorem decide_order_independent:
  assumes "distinct (map sr_Scanner rs)" and "mset rs' = mset rs"
  shows "vd_Decision (Decide t e rs') = vd_Decision (Decide t e rs)
    \<and> vd_Verdict (Decide t e rs') = vd_Verdict (Decide t e rs)
    \<and> vd_Confidence (Decide t e rs') = vd_Confidence (Decide t e rs)"
proof -
  have set: "set rs' = set rs" using assms(2) by (rule mset_eq_setD)
  moreover have "distinct (map sr_Scanner rs')"
    using assms by (metis mset_eq_imp_distinct_iff mset_map)
  ultimately have same: "sameSignals (collect rs') (collect rs)"
    using assms(1) by (intro collect_sameSignals) auto
  show ?thesis
    unfolding Decide_decision Decide_verdict Decide_confidence
      sameSignals_rules [OF same] suspiciousReasons_same [OF same] criticalFailure_same [OF set]
    by simp
qed

text \<open>
  C18. More evidence never softens the action while the critical scanners work: adding the result
  of a scanner that had not reported, with a score that is not negative, leaves the severity of
  the decision the same or raises it.
\<close>

theorem decide_monotone:
  assumes "sr_Scanner r \<notin> sr_Scanner ` set rs" and "0 \<le> sr_Score r"
    and "criticalFailure rs = None"
  shows "severity (vd_Decision (Decide t e rs)) \<le> severity (vd_Decision (Decide t e (rs @ [r])))"
proof -
  note w = collect_new_weaker [OF assms(1,2)]
  show ?thesis
    using weaker_delete [OF w, of t] weaker_quarantine [OF w, of t e] weaker_reasons [OF w, of t e] assms(3)
    by (auto simp: Decide_decision severity_def quarantineSignal_def)
qed

text \<open>
  A message passes untouched only when nothing was found: no definite hit of any engine, no
  failed critical engine, a spam score below both thresholds, no dangerous attachment, at least
  one passing authentication mechanism, and no suspicious signal.
\<close>

theorem decide_pass_sound:
  assumes "vd_Decision (Decide t e rs) = ''pass''" and "r \<in> set rs"
  shows "(sr_Verdict r = ''malicious'' \<longrightarrow>
            sr_Scanner r \<notin> {''clamav'', ''yara'', ''malwarebazaar'', ''ipreputation'', ''urlcheck'',
              ''urlunshorten'', ''onnx''})
    \<and> (sr_Verdict r = ''suspicious'' \<longrightarrow>
            sr_Scanner r \<notin> {''ipreputation'', ''nrdcheck'', ''hiddentextdetect'', ''htmlsmuggling'', ''urlcheck''})
    \<and> (sr_Verdict r = ''error'' \<longrightarrow> sr_Scanner r \<notin> {''clamav'', ''yara'', ''rspamd''})
    \<and> rspamdScore (collect rs) < SpamScore t \<and> rspamdScore (collect rs) < RejectScore t
    \<and> \<not> em_HasExecutable e
    \<and> (em_SPFResult e = ''pass'' \<or> em_DKIMResult e = ''pass'' \<or> em_DMARCResult e = ''pass'')"
proof -
  from assms(1) have d: "\<not> deleteSignal t (collect rs)" and q: "\<not> quarantineSignal t (collect rs) e"
    and l: "length (suspiciousReasons (collect rs) e) \<noteq> 1" and c: "criticalFailure rs = None"
    by (auto simp: Decide_decision split: if_splits)
  from q l have "length (suspiciousReasons (collect rs) e) = 0"
    unfolding quarantineSignal_def by linarith
  then have s: "\<not> noAuth e" "\<not> ipSuspicious (collect rs)" "\<not> nrdHit (collect rs)" "\<not> hiddenTextHit (collect rs)"
    by (auto simp: length_suspiciousReasons)
  from c assms(2) have "sr_Verdict r = ''error'' \<longrightarrow> sr_Scanner r \<notin> {''clamav'', ''yara'', ''rspamd''}"
    by (auto simp: criticalFailure_None criticalScanners_def)
  with d q s assms(2) show ?thesis
    by (auto simp: deleteSignal_def quarantineSignal_def collect_hits authOK_noAuth)
qed

text \<open>
  Deletion is reserved for definite findings: a message is deleted exactly when ClamAV, YARA,
  MalwareBazaar or the IP reputation reports it malicious, VirusTotal counts three engines or
  more, or the Rspamd score reaches the reject threshold.
\<close>

theorem decide_delete_iff:
  "vd_Decision (Decide t e rs) = ''delete'' \<longleftrightarrow>
     (\<exists>r \<in> set rs. sr_Verdict r = ''malicious''
        \<and> sr_Scanner r \<in> {''clamav'', ''yara'', ''malwarebazaar'', ''ipreputation''})
     \<or> vtPositives (collect rs) \<ge> 3 \<or> rspamdScore (collect rs) \<ge> RejectScore t"
  by (auto simp: Decide_decision deleteSignal_def collect_hits)

text \<open>
  The confidence of a decision always lies between 0.4 and 1, for every pair of thresholds,
  and the verdict is CLEAN exactly when the decision is to pass.
\<close>

theorem decide_confidence_verdict:
  "40 / 100 \<le> vd_Confidence (Decide t e rs) \<and> vd_Confidence (Decide t e rs) \<le> 1
   \<and> (vd_Verdict (Decide t e rs) = ''CLEAN'' \<longleftrightarrow> vd_Decision (Decide t e rs) = ''pass'')"
  using signalConfidence_bounds [of t e "collect rs" "criticalFailure rs \<noteq> None"]
  by (auto simp: Decide_confidence Decide_verdict Decide_decision signalVerdict_def
      deleteSignal_def quarantineSignal_def)

definition authPassEmail :: Email where
  "authPassEmail = (headerEmail \<lparr>mh_MessageID = [], mh_Subject = [], mh_From = None, mh_To = None,
     mh_Date = None, mh_AuthResults = [''mx; spf=pass''], mh_Received = []\<rparr> [] ''acct'' 1 ''INBOX'' [])"

definition clamError :: ScanResult where
  "clamError = \<lparr>sr_Scanner = ''clamav'', sr_Verdict = ''error'', sr_Score = 0, sr_Detail = ''timeout'', sr_Matches = None\<rparr>"

definition ipSuspect :: ScanResult where
  "ipSuspect = \<lparr>sr_Scanner = ''ipreputation'', sr_Verdict = ''suspicious'', sr_Score = 30, sr_Detail = ''abuse'', sr_Matches = None\<rparr>"

lemma authPassEmail_fields:
  "em_SPFResult authPassEmail = ''pass''" "\<not> em_HasExecutable authPassEmail"
  by (simp_all add: authPassEmail_def headerEmail_def fromTrusted_def mechanismResult_def toLower_def
      lowerChar_def trimSpace_def asciiSpace_def Let_def)

text \<open>
  The fail-closed rule is reached only when no suspicious signal is present. With ClamAV
  failed and nothing else, the message is quarantined; the same message with one additional
  suspicious finding is merely flagged and stays in the inbox.
\<close>

theorem decide_evidence_can_soften:
  "vd_Decision (Decide \<lparr>SpamScore = 5, RejectScore = 15\<rparr> authPassEmail [clamError]) = ''quarantine''
   \<and> vd_Decision (Decide \<lparr>SpamScore = 5, RejectScore = 15\<rparr> authPassEmail [clamError, ipSuspect]) = ''flag''"
proof -
  have c: "collect [clamError] = noSignals"
    "collect [clamError, ipSuspect] = noSignals\<lparr>ipSuspicious := True, ipDetail := ''abuse''\<rparr>"
    by (simp_all add: collect_def collect1_def clamError_def ipSuspect_def)
  have f: "criticalFailure [clamError] = Some clamError"
    by (simp add: criticalFailure_def criticalScanners_def clamError_def)
  show ?thesis
    by (simp add: Decide_decision c f deleteSignal_def quarantineSignal_def length_suspiciousReasons
        noAuth_def authPassEmail_fields noSignals_def)
qed

section \<open>Witnesses\<close>

lemma decide_order_independent_witness:
  "vd_Decision (Decide \<lparr>SpamScore = 5, RejectScore = 15\<rparr> authPassEmail [ipSuspect, clamError])
   = vd_Decision (Decide \<lparr>SpamScore = 5, RejectScore = 15\<rparr> authPassEmail [clamError, ipSuspect])"
  using decide_order_independent [of "[clamError, ipSuspect]" "[ipSuspect, clamError]"]
  by (simp add: clamError_def ipSuspect_def)

lemma decide_monotone_witness:
  "severity (vd_Decision (Decide \<lparr>SpamScore = 5, RejectScore = 15\<rparr> authPassEmail []))
   \<le> severity (vd_Decision (Decide \<lparr>SpamScore = 5, RejectScore = 15\<rparr> authPassEmail ([] @ [ipSuspect])))"
  by (rule decide_monotone) (simp_all add: ipSuspect_def criticalFailure_def)

definition rspamdClean :: ScanResult where
  "rspamdClean = \<lparr>sr_Scanner = ''rspamd'', sr_Verdict = ''clean'', sr_Score = 1, sr_Detail = ''no action'', sr_Matches = None\<rparr>"

lemma decide_pass_sound_witness:
  "rspamdScore (collect [rspamdClean]) < 5 \<and> \<not> em_HasExecutable authPassEmail"
proof -
  have "collect [rspamdClean] = noSignals\<lparr>rspamdScore := 1\<rparr>"
    by (simp add: collect_def collect1_def rspamdClean_def)
  then have "vd_Decision (Decide \<lparr>SpamScore = 5, RejectScore = 15\<rparr> authPassEmail [rspamdClean]) = ''pass''"
    by (simp add: Decide_decision deleteSignal_def quarantineSignal_def length_suspiciousReasons
        noAuth_def authPassEmail_fields noSignals_def criticalFailure_def rspamdClean_def)
  from decide_pass_sound [OF this, of rspamdClean] show ?thesis by simp
qed

end
