(* ===== verification/Database.thy ===== *)
theory Database
  imports Models
begin

text \<open>
  The SQLite database as the code sees it through GORM (\<^verbatim>\<open>app/db\<close>): the tables that the pipeline and the
  dashboard write, the unique index \<^verbatim>\<open>idx_account_uid\<close> on \<^verbatim>\<open>(account_uid, imap_uid)\<close>, the statements
  the sources issue (create, upsert, update by primary key), and \<^verbatim>\<open>DB.Write\<close>, which runs a
  function in a transaction and rolls back when it returns an error. Failures of the database
  itself are an argument: a fault tells for the n-th transaction whether it is refused.
\<close>

section \<open>Tables\<close>

record db =
  scans :: "Scan list"
  nextID :: nat
  audit :: "AuditLog list"
  whitelist :: "Whitelist list"
  blocklist :: "Blocklist list"
  nextWL :: nat
  nextBL :: nat
  daily :: "string \<Rightarrow> DailyStat option"
  accounts :: "Account list"

definition emptyDB :: db where
  "emptyDB = \<lparr>scans = [], nextID = 1, audit = [], whitelist = [], blocklist = [], nextWL = 1, nextBL = 1,
     daily = (\<lambda>_. None), accounts = []\<rparr>"

definition uidKey :: "Scan \<Rightarrow> string \<times> uint32" where
  "uidKey s = (AccountUID s, IMAPUID s)"

definition uniqueViolation :: error where
  "uniqueViolation = ''UNIQUE constraint failed''"

text \<open>\<^verbatim>\<open>tx.Create(rec)\<close>: the row with a fresh primary key, or a violation of the unique index.\<close>

definition createScan :: "Scan \<Rightarrow> db \<Rightarrow> (db \<times> Scan) result" where
  "createScan rec d =
     (if uidKey rec \<in> uidKey ` set (scans d) then Inl uniqueViolation
      else (let rec' = rec\<lparr>ID := nextID d\<rparr>
            in Inr (d\<lparr>scans := scans d @ [rec'], nextID := Suc (nextID d)\<rparr>, rec')))"

text \<open>The columns that the \<^verbatim>\<open>OnConflict\<close> clause of the pipeline overwrites; the others keep the old row's values.\<close>

definition conflictUpdate :: "Scan \<Rightarrow> Scan \<Rightarrow> Scan" where
  "conflictUpdate new old =
     old\<lparr>Verdict := Verdict new, VerdictReason := VerdictReason new, Confidence := Confidence new,
         RspamdScore := RspamdScore new, RspamdAction := RspamdAction new,
         RspamdSymbols := RspamdSymbols new, SPFResult := SPFResult new,
         DKIMResult := DKIMResult new, DMARCResult := DMARCResult new,
         ClamAVStatus := ClamAVStatus new, URLHits := URLHits new,
         ResolvedURLHits := ResolvedURLHits new, NRDHits := NRDHits new,
         Status := Status new, EMLPath := EMLPath new\<rparr>"

text \<open>\<^verbatim>\<open>tx.Clauses(OnConflict).Create(rec)\<close>: a fresh row, or the existing one updated; \<^verbatim>\<open>rec.ID\<close> is the row's.\<close>

definition upsertScan :: "Scan \<Rightarrow> db \<Rightarrow> (db \<times> Scan) result" where
  "upsertScan rec d =
     (case find (\<lambda>s. uidKey s = uidKey rec) (scans d) of
        None \<Rightarrow> createScan rec d
      | Some old \<Rightarrow>
          Inr (d\<lparr>scans := map (\<lambda>s. if ID s = ID old then conflictUpdate rec s else s) (scans d)\<rparr>,
               rec\<lparr>ID := ID old\<rparr>))"

text \<open>\<^verbatim>\<open>UPDATE scans SET ... WHERE id = ?\<close>, and its failure when the new key is another row's.\<close>

definition updateScan :: "nat \<Rightarrow> (Scan \<Rightarrow> Scan) \<Rightarrow> db \<Rightarrow> db result" where
  "updateScan i f d =
     (let scans' = map (\<lambda>s. if ID s = i then f s else s) (scans d)
      in if distinct (map uidKey scans') then Inr (d\<lparr>scans := scans'\<rparr>) else Inl uniqueViolation)"

definition createAudit :: "AuditLog \<Rightarrow> db \<Rightarrow> db" where
  "createAudit a d = d\<lparr>audit := audit d @ [a]\<rparr>"

definition setStatus :: "nat \<Rightarrow> string \<Rightarrow> db \<Rightarrow> db" where
  "setStatus i st d = d\<lparr>scans := map (\<lambda>s. if ID s = i then s\<lparr>Status := st\<rparr> else s) (scans d)\<rparr>"

section \<open>Transactions\<close>

type_synonym faults = "nat \<Rightarrow> error option"

text \<open>
  \<^verbatim>\<open>DB.Write(fn)\<close>: the n-th transaction may be refused; an error of the function rolls everything back,
  so the database is unchanged in both cases. The write mutex makes transactions atomic steps. A failure is one of the whole transaction: a single statement whose error the
  function ignores (as \<^verbatim>\<open>revertStatus\<close> does) does not fail on its own in the model.
\<close>

definition dbWrite :: "faults \<Rightarrow> nat \<Rightarrow> (db \<Rightarrow> (db \<times> 'a) result) \<Rightarrow> db \<Rightarrow> db \<times> 'a result" where
  "dbWrite flt n fn d =
     (case flt n of
        Some e \<Rightarrow> (d, Inl e)
      | None \<Rightarrow> (case fn d of Inl e \<Rightarrow> (d, Inl e) | Inr (d', x) \<Rightarrow> (d', Inr x)))"

section \<open>Well-formedness\<close>

text \<open>Primary keys are fresh and distinct, and the unique index holds.\<close>

definition dbOK :: "db \<Rightarrow> bool" where
  "dbOK d \<longleftrightarrow> distinct (map ID (scans d)) \<and> distinct (map uidKey (scans d))
     \<and> (\<forall>s \<in> set (scans d). ID s < nextID d)"

lemma dbOK_empty [simp]: "dbOK emptyDB"
  by (simp add: dbOK_def emptyDB_def)

lemma uidKey_ID [simp]: "uidKey (s\<lparr>ID := i\<rparr>) = uidKey s"
  by (simp add: uidKey_def)

lemma uidKey_Status [simp]: "uidKey (s\<lparr>Status := st\<rparr>) = uidKey s"
  by (simp add: uidKey_def)

lemma conflictUpdate_key [simp]:
  "uidKey (conflictUpdate n s) = uidKey s" "ID (conflictUpdate n s) = ID s"
  by (simp_all add: conflictUpdate_def uidKey_def)

lemma createScan_OK:
  assumes "dbOK d" and "createScan rec d = Inr (d', rec')"
  shows "dbOK d'"
proof -
  have "d' = d\<lparr>scans := scans d @ [rec\<lparr>ID := nextID d\<rparr>], nextID := Suc (nextID d)\<rparr>"
    and "uidKey rec \<notin> uidKey ` set (scans d)"
    using assms(2) by (auto simp: createScan_def Let_def split: if_splits)
  moreover have "nextID d \<notin> ID ` set (scans d)"
    using assms(1) by (auto simp: dbOK_def)
  ultimately show ?thesis using assms(1) by (auto simp: dbOK_def less_Suc_eq)
qed

text \<open>An update in place that keeps primary keys and the unique index.\<close>

definition onRow :: "nat \<Rightarrow> (Scan \<Rightarrow> Scan) \<Rightarrow> Scan \<Rightarrow> Scan" where
  "onRow i f s = (if ID s = i then f s else s)"

lemma map_onRow: "(\<And>s. g (f s) = g s) \<Longrightarrow> map g (map (onRow i f) xs) = map g xs"
  by (induction xs) (auto simp: onRow_def)

lemma dbOK_onRow:
  assumes "dbOK d" "\<And>s. ID (f s) = ID s" "distinct (map uidKey (map (onRow i f) (scans d)))"
  shows "dbOK (d\<lparr>scans := map (onRow i f) (scans d)\<rparr>)"
proof -
  have "map ID (map (onRow i f) (scans d)) = map ID (scans d)"
    by (rule map_onRow) (rule assms(2))
  then have "distinct (map ID (map (onRow i f) (scans d)))"
    using assms(1) by (simp only: dbOK_def)
  with assms show ?thesis by (auto simp: dbOK_def onRow_def)
qed

lemma onRow_eq: "(\<lambda>s. if ID s = i then f s else s) = onRow i f"
  by (simp add: onRow_def fun_eq_iff)

lemma upsertScan_OK:
  assumes "dbOK d" and "upsertScan rec d = Inr (d', rec')"
  shows "dbOK d'"
proof (cases "find (\<lambda>s. uidKey s = uidKey rec) (scans d)")
  case None
  with assms show ?thesis by (auto simp: upsertScan_def intro: createScan_OK)
next
  case (Some old)
  have "map uidKey (map (onRow (ID old) (conflictUpdate rec)) (scans d)) = map uidKey (scans d)"
    by (rule map_onRow) simp
  then have "dbOK (d\<lparr>scans := map (onRow (ID old) (conflictUpdate rec)) (scans d)\<rparr>)"
    using assms(1) by (intro dbOK_onRow) (auto simp only: dbOK_def conflictUpdate_key)
  then show ?thesis
    using assms(2) Some by (auto simp: upsertScan_def onRow_eq)
qed

lemma updateScan_OK:
  assumes "dbOK d" and "updateScan i f d = Inr d'" and "\<And>s. ID (f s) = ID s"
  shows "dbOK d'"
  using assms dbOK_onRow [OF assms(1,3), of i]
  by (auto simp: updateScan_def Let_def onRow_eq split: if_splits)

lemma setStatus_OK: "dbOK d \<Longrightarrow> dbOK (setStatus i st d)"
proof -
  assume d: "dbOK d"
  have "map uidKey (map (onRow i (\<lambda>s. s\<lparr>Status := st\<rparr>)) (scans d)) = map uidKey (scans d)"
    by (rule map_onRow) simp
  then have "dbOK (d\<lparr>scans := map (onRow i (\<lambda>s. s\<lparr>Status := st\<rparr>)) (scans d)\<rparr>)"
    using d by (intro dbOK_onRow) (simp_all add: dbOK_def del: map_map)
  then show ?thesis by (simp add: setStatus_def onRow_eq)
qed

lemma createAudit_OK [simp]: "dbOK (createAudit a d) = dbOK d"
  by (simp add: dbOK_def createAudit_def)

lemma dbWrite_cases:
  obtains (ok) d' x where "flt n = None" "fn d = Inr (d', x)" "dbWrite flt n fn d = (d', Inr x)"
  | (failed) e where "dbWrite flt n fn d = (d, Inl e)"
proof (cases "flt n")
  case None
  show thesis
  proof (cases "fn d")
    case (Inl e)
    with None show thesis by (intro failed) (simp add: dbWrite_def)
  next
    case (Inr p)
    with None show thesis by (cases p) (auto intro!: ok simp: dbWrite_def)
  qed
next
  case (Some e)
  then show thesis by (intro failed) (simp add: dbWrite_def)
qed

section \<open>Reading rows back\<close>

text \<open>The row of a primary key.\<close>

definition rowOf :: "nat \<Rightarrow> db \<Rightarrow> Scan option" where
  "rowOf i d = find (\<lambda>s. ID s = i) (scans d)"

lemma rowOf_map:
  assumes "\<And>s. ID (f s) = ID s"
  shows "rowOf i (d\<lparr>scans := map (\<lambda>s. if ID s = j then f s else s) (scans d)\<rparr>)
     = (if i = j then map_option f (rowOf i d) else rowOf i d)"
proof -
  have "find (\<lambda>s. ID s = i) (map (\<lambda>s. if ID s = j then f s else s) xs)
      = (if i = j then map_option f (find (\<lambda>s. ID s = i) xs) else find (\<lambda>s. ID s = i) xs)" for xs
    by (induction xs) (auto simp: assms)
  then show ?thesis by (simp add: rowOf_def)
qed

lemma find_append: "find P (xs @ ys) = (case find P xs of None \<Rightarrow> find P ys | Some x \<Rightarrow> Some x)"
  by (induction xs) auto

lemma createScan_row:
  assumes "dbOK d" and "createScan rec d = Inr (d', rec')"
  shows "rowOf (ID rec') d' = Some rec'" and "rec' = rec\<lparr>ID := nextID d\<rparr>"
proof -
  have d': "d' = d\<lparr>scans := scans d @ [rec'], nextID := Suc (nextID d)\<rparr>" and r: "rec' = rec\<lparr>ID := nextID d\<rparr>"
    using assms(2) by (auto simp: createScan_def Let_def split: if_splits)
  have "find (\<lambda>s. ID s = nextID d) (scans d) = None"
    using assms(1) by (auto simp: dbOK_def find_None_all)
  then show "rowOf (ID rec') d' = Some rec'" by (simp add: rowOf_def d' r find_append)
  show "rec' = rec\<lparr>ID := nextID d\<rparr>" by (rule r)
qed

lemma upsertScan_row:
  assumes "dbOK d" and "upsertScan rec d = Inr (d', rec')"
  shows "\<exists>s. rowOf (ID rec') d' = Some s \<and> Status s = Status rec \<and> Verdict s = Verdict rec
     \<and> uidKey s = uidKey rec"
proof (cases "find (\<lambda>s. uidKey s = uidKey rec) (scans d)")
  case None
  with assms have c: "createScan rec d = Inr (d', rec')" by (simp add: upsertScan_def)
  show ?thesis using createScan_row [OF assms(1) c] by simp
next
  case (Some old)
  then have old: "old \<in> set (scans d)" "uidKey old = uidKey rec"
    using find_Some_in [OF Some] by auto
  have d': "d' = d\<lparr>scans := map (\<lambda>s. if ID s = ID old then conflictUpdate rec s else s) (scans d)\<rparr>"
    and r: "ID rec' = ID old"
    using assms(2) Some by (auto simp: upsertScan_def)
  have "find (\<lambda>s. ID s = ID old) (scans d) = Some old"
  proof -
    obtain s where s: "find (\<lambda>s. ID s = ID old) (scans d) = Some s"
      using old(1) find_None_all [of "\<lambda>s. ID s = ID old" "scans d"] by fastforce
    then have "s = old"
      using find_Some_in [OF s] old(1) assms(1) by (auto simp: dbOK_def distinct_map inj_on_def)
    with s show ?thesis by simp
  qed
  then have "rowOf (ID rec') d' = Some (conflictUpdate rec old)"
    by (simp add: d' r rowOf_map) (simp add: rowOf_def)
  then show ?thesis using old by (simp add: conflictUpdate_def uidKey_def)
qed

end
