(* ===== verification/ScanRecord.thy ===== *)
theory ScanRecord
  imports Verdict Database
begin

text \<open>
  The pure helpers of \<^verbatim>\<open>app/pipeline/pipeline.go\<close>: candidates and matches of the allow and block
  lists, the alignment test, masking of list entries, the mapping from verdicts and decisions to
  statistics and audit actions, and \<^verbatim>\<open>buildScanRecord\<close>, which turns a message and a decision
  into the row that is stored.
\<close>

section \<open>Allow and block lists\<close>

text \<open>\<^verbatim>\<open>listCandidates\<close>; \<^verbatim>\<open>netmail.ParseAddress\<close> is the argument \<open>parseAddress\<close>, the bare address or None.\<close>

definition listCandidates :: "(string \<Rightarrow> string option) \<Rightarrow> Email \<Rightarrow> string list" where
  "listCandidates parseAddress email =
     (let bare0 = (case parseAddress (em_From email) of Some a \<Rightarrow> a | None \<Rightarrow> em_From email);
          bare = toLower (trimSpace bare0)
      in case lastIndexByte bare CHR ''@'' of None \<Rightarrow> [bare] | Some idx \<Rightarrow> [bare, drop idx bare])"

text \<open>
  The two match functions differ only in the table: the rows whose entry is a candidate, then
  the first row for the earliest candidate. \<open>entryOf\<close> reads the \<^verbatim>\<open>Entry\<close> column, and a failed
  query counts as no match.
\<close>

fun firstWanted :: "('r \<Rightarrow> string) \<Rightarrow> string list \<Rightarrow> 'r list \<Rightarrow> 'r option" where
  "firstWanted entryOf [] rows = (case rows of [] \<Rightarrow> None | r # _ \<Rightarrow> Some r)"
| "firstWanted entryOf (want # wants) rows =
     (case find (\<lambda>r. entryOf r = want) rows of Some r \<Rightarrow> Some r | None \<Rightarrow> firstWanted entryOf wants rows)"

definition matchList :: "('r \<Rightarrow> string) \<Rightarrow> bool \<Rightarrow> string list \<Rightarrow> 'r list \<Rightarrow> 'r option" where
  "matchList entryOf queryFails candidates table =
     (let rows = filter (\<lambda>r. entryOf r \<in> set candidates) table
      in if queryFails \<or> rows = [] then None else firstWanted entryOf candidates rows)"

definition matchWhitelist :: "(string \<Rightarrow> string option) \<Rightarrow> bool \<Rightarrow> db \<Rightarrow> Email \<Rightarrow> Whitelist option" where
  "matchWhitelist parseAddress queryFails d email =
     matchList wl_Entry queryFails (listCandidates parseAddress email) (whitelist d)"

definition matchBlocklist :: "(string \<Rightarrow> string option) \<Rightarrow> bool \<Rightarrow> db \<Rightarrow> Email \<Rightarrow> Blocklist option" where
  "matchBlocklist parseAddress queryFails d email =
     matchList bl_Entry queryFails (listCandidates parseAddress email) (blocklist d)"

definition senderAuthAligned :: "Email \<Rightarrow> bool" where
  "senderAuthAligned email \<longleftrightarrow>
     em_SPFResult email = ''pass'' \<and> (em_DKIMResult email = ''pass'' \<or> em_DMARCResult email = ''pass'')"

definition maskEntry :: "string \<Rightarrow> string" where
  "maskEntry entry =
     (case strIndex entry ''@'' of
        None \<Rightarrow> entry
      | Some idx \<Rightarrow>
          if idx = 0 then entry
          else (let user = take idx entry
                in if length user \<le> 2 then repeatStr ''*'' (length user) @ drop idx entry
                   else take 2 user @ repeatStr ''*'' (length user - 2) @ drop idx entry))"

section \<open>Statistics and audit actions\<close>

definition verdictToStatCol :: "string \<Rightarrow> string" where
  "verdictToStatCol verdict =
     (if verdict = ''CLEAN'' then ''clean'' else if verdict = ''SPAM'' then ''spam''
      else if verdict = ''PHISH'' then ''phish'' else if verdict = ''MALWARE'' then ''malware''
      else if verdict = ''SUSPICIOUS'' then ''suspicious'' else [])"

text \<open>\<^verbatim>\<open>UPDATE daily_stats SET col = col + 1, total = total + 1\<close>.\<close>

definition bumpStat :: "string \<Rightarrow> DailyStat \<Rightarrow> DailyStat" where
  "bumpStat col s =
     (let s1 = s\<lparr>ds_Total := Suc (ds_Total s)\<rparr>
      in if col = ''clean'' then s1\<lparr>ds_Clean := Suc (ds_Clean s)\<rparr>
         else if col = ''spam'' then s1\<lparr>ds_Spam := Suc (ds_Spam s)\<rparr>
         else if col = ''phish'' then s1\<lparr>ds_Phish := Suc (ds_Phish s)\<rparr>
         else if col = ''malware'' then s1\<lparr>ds_Malware := Suc (ds_Malware s)\<rparr>
         else if col = ''suspicious'' then s1\<lparr>ds_Suspicious := Suc (ds_Suspicious s)\<rparr>
         else s)"

definition statRow :: "string \<Rightarrow> db \<Rightarrow> DailyStat" where
  "statRow date d = (case daily d date of None \<Rightarrow> zeroDailyStat | Some s \<Rightarrow> s)"

definition bumpDaily :: "string \<Rightarrow> string \<Rightarrow> db \<Rightarrow> db" where
  "bumpDaily col date d = d\<lparr>daily := (daily d)(date := Some (bumpStat col (statRow date d)))\<rparr>"

definition verdictToAction :: "VerdictDecision \<Rightarrow> string" where
  "verdictToAction vd =
     (if vd_Decision vd = ''delete'' then ActionDelete
      else if vd_Decision vd = ''quarantine'' then ActionQuarantine else ''PASS'')"

definition decisionStatus :: "string \<Rightarrow> string" where
  "decisionStatus decision =
     (if decision = ''delete'' then StatusDeleted
      else if decision = ''quarantine'' then StatusQuarantined else StatusInbox)"

section \<open>The stored row\<close>

text \<open>\<^verbatim>\<open>net.IP.String\<close> of an address with a 4-byte form, the only ones that \<^verbatim>\<open>SenderIPs\<close> holds.\<close>

definition ipString :: "ip \<Rightarrow> string" where
  "ipString i =
     (case To4 i of None \<Rightarrow> [] | Some b \<Rightarrow> strJoin (map (\<lambda>x. natStr (unat x)) b) ''.'')"

definition clamStatus :: "ScanResult \<Rightarrow> string" where
  "clamStatus r =
     (if sr_Verdict r = ''malicious'' then sr_Detail r
      else if sr_Verdict r = ''error'' then ''ERROR''
      else if sr_Verdict r = ''skip'' then ''UNAVAILABLE'' else ''CLEAN'')"

text \<open>One round of the loop over the results, for the flat and JSON columns.\<close>

definition applyResult :: "Scan \<Rightarrow> ScanResult \<Rightarrow> Scan" where
  "applyResult s r =
     (let m = sr_Matches r; has = (m \<noteq> None)
      in if sr_Scanner r = ''rspamd'' then
           s\<lparr>RspamdScore := sr_Score r, RspamdAction := sr_Detail r,
             RspamdSymbols := (if has then m else RspamdSymbols s)\<rparr>
         else if sr_Scanner r = ''clamav'' then s\<lparr>ClamAVStatus := clamStatus r\<rparr>
         else if \<not> has then s
         else if sr_Scanner r = ''yara'' then s\<lparr>YARAMatches := m\<rparr>
         else if sr_Scanner r = ''urlcheck'' then s\<lparr>URLHits := m\<rparr>
         else if sr_Scanner r = ''urlunshorten'' then s\<lparr>ResolvedURLHits := m\<rparr>
         else if sr_Scanner r = ''nrdcheck'' then s\<lparr>NRDHits := m\<rparr>
         else if sr_Scanner r = ''htmlsmuggling'' then s\<lparr>HTMLSmugglingHits := m\<rparr>
         else if sr_Scanner r = ''hiddentextdetect'' then s\<lparr>HiddenTextHits := m\<rparr>
         else if sr_Scanner r = ''ipreputation'' then s\<lparr>IPReputation := m\<rparr>
         else if sr_Scanner r = ''virustotal'' then s\<lparr>VTResults := m\<rparr>
         else if sr_Scanner r = ''malwarebazaar'' then s\<lparr>MBResults := m\<rparr>
         else s)"

text \<open>The maps \<^verbatim>\<open>vtBySHA\<close> and \<^verbatim>\<open>mbBySHA\<close>: a later entry for a hash overwrites an earlier one.\<close>

definition vtEntries :: "ScanResult list \<Rightarrow> (string \<times> VTResult) list" where
  "vtEntries rs =
     concat (map (\<lambda>r. if sr_Scanner r = ''virustotal'' then
        (case sr_Matches r of None \<Rightarrow> []
         | Some j \<Rightarrow> (case jlist unmarshalVTResult j of None \<Rightarrow> [] | Some l \<Rightarrow> map (\<lambda>v. (vt_SHA256 v, v)) l))
        else []) rs)"

definition mbEntries :: "ScanResult list \<Rightarrow> (string \<times> MBResult) list" where
  "mbEntries rs =
     concat (map (\<lambda>r. if sr_Scanner r = ''malwarebazaar'' then
        (case sr_Matches r of None \<Rightarrow> []
         | Some j \<Rightarrow> (case jlist unmarshalMBResult j of None \<Rightarrow> [] | Some l \<Rightarrow> map (\<lambda>v. (mb_SHA256 v, v)) l))
        else []) rs)"

definition attachmentInfo :: "ScanResult list \<Rightarrow> Attachment \<Rightarrow> AttachmentInfo" where
  "attachmentInfo rs a =
     (let vt = map_of (rev (vtEntries rs)) (at_SHA256 a); mb = map_of (rev (mbEntries rs)) (at_SHA256 a)
      in \<lparr>ai_Filename = at_Filename a, ai_ContentType = at_ContentType a, ai_SizeBytes = at_SizeBytes a,
          ai_SHA256 = at_SHA256 a, ai_Extension = at_Extension a, ai_IsDangerous = at_IsDangerous a,
          ai_VTPositives = (case vt of None \<Rightarrow> 0 | Some v \<Rightarrow> vt_Positives v),
          ai_VTTotal = (case vt of None \<Rightarrow> 0 | Some v \<Rightarrow> vt_Total v),
          ai_MBSignature = (case mb of None \<Rightarrow> [] | Some v \<Rightarrow> mb_Signature v)\<rparr>)"

definition recordReason :: "Email \<Rightarrow> string \<Rightarrow> string" where
  "recordReason email reason =
     (if em_HadMIMEErrors email \<and> reason \<noteq> [] then reason @ ''; MIME parse incomplete (some parts skipped)''
      else if em_HadMIMEErrors email then ''MIME parse incomplete (some parts skipped)'' else reason)"

definition baseRecord :: "go_time \<Rightarrow> Email \<Rightarrow> VerdictDecision \<Rightarrow> string \<Rightarrow> Scan" where
  "baseRecord now email vd emlPath =
     zeroScan\<lparr>AccountName := em_AccountName email,
       AccountUID := MakeAccountUID (em_AccountName email) (em_IMAPMailbox email) (em_IMAPUID email),
       IMAPMailbox := em_IMAPMailbox email, IMAPUID := em_IMAPUID email,
       MessageID := em_MessageID email, Subject := em_Subject email, From := em_From email,
       To := em_To email, Date := em_Date email, SizeBytes := em_SizeBytes email,
       EMLPath := emlPath, SPFResult := em_SPFResult email, DKIMResult := em_DKIMResult email,
       DMARCResult := em_DMARCResult email, AttachmentCount := length (em_Attachments email),
       Verdict := vd_Verdict vd, VerdictReason := recordReason email (vd_Reason vd),
       Confidence := vd_Confidence vd, ActionedBy := ''auto'', CreatedAt := now,
       SendingIP := (case em_SenderIPs email of [] \<Rightarrow> [] | i # _ \<Rightarrow> ipString i)\<rparr>"

definition buildScanRecord :: "go_time \<Rightarrow> Email \<Rightarrow> VerdictDecision \<Rightarrow> string \<Rightarrow> Scan" where
  "buildScanRecord now email vd emlPath =
     (let s = foldl applyResult (baseRecord now email vd emlPath) (vd_Results vd)
      in s\<lparr>Status := decisionStatus (vd_Decision vd), ActionedAt := Some now,
           Attachments := (if em_Attachments email = [] then None
             else Some (JArr (map (marshalAttachmentInfo \<circ> attachmentInfo (vd_Results vd)) (em_Attachments email)))),
           ScannedURLs := (if em_URLs email = [] then None else Some (marshalStrings (em_URLs email)))\<rparr>)"

section \<open>Fields of the built record\<close>

lemma applyResult_frame [frame]:
  "AccountUID (applyResult s r) = AccountUID s" "IMAPUID (applyResult s r) = IMAPUID s"
  "Verdict (applyResult s r) = Verdict s" "Source (applyResult s r) = Source s"
  "AccountName (applyResult s r) = AccountName s" "IMAPMailbox (applyResult s r) = IMAPMailbox s"
  "ID (applyResult s r) = ID s" "EMLPath (applyResult s r) = EMLPath s"
  by (simp_all add: applyResult_def Let_def)

lemma foldl_frame: "(\<And>s r. f (g s r) = f s) \<Longrightarrow> f (foldl g s rs) = f s"
  by (induction rs arbitrary: s) auto

lemma applyResults_frame [frame]:
  "AccountUID (foldl applyResult s rs) = AccountUID s" "IMAPUID (foldl applyResult s rs) = IMAPUID s"
  "Verdict (foldl applyResult s rs) = Verdict s" "Source (foldl applyResult s rs) = Source s"
  "EMLPath (foldl applyResult s rs) = EMLPath s"
  by (rule foldl_frame, rule frame)+

lemma baseRecord_fields:
  "AccountUID (baseRecord now e vd p) = MakeAccountUID (em_AccountName e) (em_IMAPMailbox e) (em_IMAPUID e)"
  "IMAPUID (baseRecord now e vd p) = em_IMAPUID e" "Verdict (baseRecord now e vd p) = vd_Verdict vd"
  "Source (baseRecord now e vd p) = SourceLive" "EMLPath (baseRecord now e vd p) = p"
  by (simp_all add: baseRecord_def zeroScan_def SourceLive_def)

lemma buildScanRecord_fields [simp]:
  "AccountUID (buildScanRecord now e vd p) = MakeAccountUID (em_AccountName e) (em_IMAPMailbox e) (em_IMAPUID e)"
  "IMAPUID (buildScanRecord now e vd p) = em_IMAPUID e"
  "Verdict (buildScanRecord now e vd p) = vd_Verdict vd"
  "Status (buildScanRecord now e vd p) = decisionStatus (vd_Decision vd)"
  "Source (buildScanRecord now e vd p) = SourceLive"
  "EMLPath (buildScanRecord now e vd p) = p"
  "ScannedURLs (buildScanRecord now e vd p) = (if em_URLs e = [] then None else Some (marshalStrings (em_URLs e)))"
  by (simp_all add: buildScanRecord_def Let_def applyResults_frame baseRecord_fields)

section \<open>List matches\<close>

lemma firstWanted_in: "firstWanted entryOf cs rows = Some r \<Longrightarrow> r \<in> set rows"
  by (induction cs) (auto split: option.splits list.splits dest: find_Some_in)

lemma firstWanted_Some: "rows \<noteq> [] \<Longrightarrow> firstWanted entryOf cs rows \<noteq> None"
  by (induction cs) (auto split: option.splits list.splits)

lemma matchList_None:
  "matchList entryOf False cs table = None \<longleftrightarrow> (\<forall>r \<in> set table. entryOf r \<notin> set cs)"
proof (cases "filter (\<lambda>r. entryOf r \<in> set cs) table = []")
  case True
  then show ?thesis by (simp add: matchList_def filter_empty_conv)
next
  case False
  then obtain r where "r \<in> set table" "entryOf r \<in> set cs" by (auto simp: filter_empty_conv)
  moreover have "matchList entryOf False cs table \<noteq> None"
    using False firstWanted_Some [OF False] by (simp add: matchList_def Let_def)
  ultimately show ?thesis by blast
qed

lemma matchList_Some:
  "matchList entryOf q cs table = Some r \<Longrightarrow> r \<in> set table \<and> entryOf r \<in> set cs"
  by (auto simp: matchList_def Let_def split: if_splits dest!: firstWanted_in)

end
