(* ===== verification/Storage.thy ===== *)
theory Storage
  imports Models
begin

text \<open>
  \<^verbatim>\<open>app/storage/eml.go\<close>: the EML store, over a model of the part of \<^verbatim>\<open>path/filepath\<close> it uses
  (\<^verbatim>\<open>Clean\<close>, \<^verbatim>\<open>Join\<close>) and of a file system as an association list from absolute paths to
  contents, size and modification time. Failures of the operating system are arguments: a
  predicate tells which paths cannot be written, removed or examined. SHA-256 and the three date strings of the
  current day are arguments as well.
\<close>

section \<open>Package path/filepath on Unix\<close>

fun resolve :: "bool \<Rightarrow> string list \<Rightarrow> string list \<Rightarrow> string list" where
  "resolve rooted st [] = rev st"
| "resolve rooted st (c # cs) =
     (if c = [] \<or> c = ''.'' then resolve rooted st cs
      else if c = ''..'' then
        (case st of
           [] \<Rightarrow> if rooted then resolve rooted [] cs else resolve rooted [''..''] cs
         | t # st' \<Rightarrow> if t = ''..'' then resolve rooted (''..'' # st) cs else resolve rooted st' cs)
      else resolve rooted (c # st) cs)"

definition comps :: "string \<Rightarrow> string list" where
  "comps s = resolve (hasPrefix s ''/'') [] (splitOn CHR ''/'' s)"

definition Clean :: "string \<Rightarrow> string" where
  "Clean s =
     (if s = [] then ''.''
      else if hasPrefix s ''/'' then ''/'' @ strJoin (comps s) ''/''
      else if comps s = [] then ''.'' else strJoin (comps s) ''/'')"

definition Join :: "string list \<Rightarrow> string" where
  "Join elems =
     (let xs = filter (\<lambda>e. e \<noteq> []) elems in if xs = [] then [] else Clean (strJoin xs ''/''))"

section \<open>The file system\<close>

record emlfile =
  f_data :: string
  f_mtime :: go_time

type_synonym files = "(string \<times> emlfile) list"

record fs_faults =
  writeFails :: "string \<Rightarrow> bool"
  removeFails :: "string \<Rightarrow> bool"
  infoFails :: "string \<Rightarrow> bool"

definition fsWrite :: "string \<Rightarrow> emlfile \<Rightarrow> files \<Rightarrow> files" where
  "fsWrite p f fs = (p, f) # filter (\<lambda>e. fst e \<noteq> p) fs"

definition fsRemove :: "string \<Rightarrow> files \<Rightarrow> files" where
  "fsRemove p fs = filter (\<lambda>e. fst e \<noteq> p) fs"

section \<open>The store\<close>

definition emlName :: "(string \<Rightarrow> string) \<Rightarrow> string \<Rightarrow> string \<Rightarrow> uint32 \<Rightarrow> string" where
  "emlName sha account messageID uid =
     sha (account @ '':'' @ messageID @ '':'' @ natStr (unat uid)) @ ''.eml''"

type_synonym date = "string \<times> string \<times> string" \<comment> \<open>year, month, day\<close>

definition store_Write ::
    "fs_faults \<Rightarrow> (string \<Rightarrow> string) \<Rightarrow> string \<Rightarrow> date \<Rightarrow> go_time \<Rightarrow> string \<Rightarrow> string \<Rightarrow> uint32 \<Rightarrow> string \<Rightarrow> files
     \<Rightarrow> string result \<times> files" where
  "store_Write ff sha dataDir today now account messageID uid raw fs =
     (case today of (y, m, d) \<Rightarrow>
        (let dir = Join [dataDir, ''emls'', y, m, d];
             filename = emlName sha account messageID uid;
             absPath = Join [dir, filename];
             relPath = Join [''emls'', y, m, d, filename]
         in if writeFails ff dir then (Inl ''create date dir'', fs)
            else if writeFails ff absPath then (Inl ''write eml'', fs)
            else (Inr relPath, fsWrite absPath \<lparr>f_data = raw, f_mtime = now\<rparr> fs)))"

definition safeAbs :: "string \<Rightarrow> string \<Rightarrow> string result" where
  "safeAbs dataDir relPath =
     (let clean = Clean (Join [dataDir, relPath]); root = Clean dataDir
      in if \<not> hasPrefix clean (root @ ''/'') then Inl ''path traversal attempt'' else Inr clean)"

definition store_Read :: "string \<Rightarrow> string \<Rightarrow> files \<Rightarrow> string result" where
  "store_Read dataDir relPath fs =
     (case safeAbs dataDir relPath of
        Inl e \<Rightarrow> Inl e
      | Inr p \<Rightarrow> (case map_of fs p of None \<Rightarrow> Inl ''no such file'' | Some f \<Rightarrow> Inr (f_data f)))"

definition store_Delete :: "fs_faults \<Rightarrow> string \<Rightarrow> string \<Rightarrow> files \<Rightarrow> unit result \<times> files" where
  "store_Delete ff dataDir relPath fs =
     (case safeAbs dataDir relPath of
        Inl e \<Rightarrow> (Inl e, fs)
      | Inr p \<Rightarrow>
          if map_of fs p = None then (Inr (), fs)
          else if removeFails ff p then (Inl ''delete eml'', fs)
          else (Inr (), fsRemove p fs))"

text \<open>
  \<^verbatim>\<open>filepath.WalkDir\<close> visits the files below the root; \<^verbatim>\<open>filepath.Rel\<close> of such a path is the path
  without the data directory.
\<close>

definition relOf :: "string \<Rightarrow> string \<Rightarrow> string" where
  "relOf dataDir p = drop (length (Clean dataDir) + 1) p"

definition underEmls :: "string \<Rightarrow> string \<Rightarrow> bool" where
  "underEmls dataDir p \<longleftrightarrow> hasPrefix p (Join [dataDir, ''emls''] @ ''/'')"

definition purgeable :: "fs_faults \<Rightarrow> string \<Rightarrow> go_time \<Rightarrow> string list \<Rightarrow> string \<times> emlfile \<Rightarrow> bool" where
  "purgeable ff dataDir cutoff protectedPaths e \<longleftrightarrow>
     underEmls dataDir (fst e) \<and> hasSuffix (fst e) ''.eml''
     \<and> relOf dataDir (fst e) \<notin> set protectedPaths
     \<and> \<not> infoFails ff (fst e) \<and> f_mtime (snd e) < cutoff \<and> \<not> removeFails ff (fst e)"

definition PurgeOlderThan ::
    "fs_faults \<Rightarrow> string \<Rightarrow> go_time \<Rightarrow> duration \<Rightarrow> string list \<Rightarrow> files \<Rightarrow> nat \<times> files" where
  "PurgeOlderThan ff dataDir now age protectedPaths fs =
     (let gone = purgeable ff dataDir (now - age) protectedPaths
      in (length (filter gone fs), filter (\<lambda>e. \<not> gone e) fs))"

definition orphaned :: "fs_faults \<Rightarrow> string \<Rightarrow> go_time \<Rightarrow> string list \<Rightarrow> string \<times> emlfile \<Rightarrow> bool" where
  "orphaned ff dataDir now knownPaths e \<longleftrightarrow>
     underEmls dataDir (fst e) \<and> hasSuffix (fst e) ''.eml''
     \<and> \<not> (infoFails ff (fst e) \<or> now - f_mtime (snd e) < hour)
     \<and> relOf dataDir (fst e) \<notin> set knownPaths \<and> \<not> removeFails ff (fst e)"

definition ReconcileOrphans ::
    "fs_faults \<Rightarrow> string \<Rightarrow> go_time \<Rightarrow> string list \<Rightarrow> files \<Rightarrow> nat \<times> files" where
  "ReconcileOrphans ff dataDir now knownPaths fs =
     (let gone = orphaned ff dataDir now knownPaths
      in (length (filter gone fs), filter (\<lambda>e. \<not> gone e) fs))"

definition DirSize :: "fs_faults \<Rightarrow> string \<Rightarrow> files \<Rightarrow> nat" where
  "DirSize ff dataDir fs =
     sum_list (map (\<lambda>e. length (f_data (snd e)))
       (filter (\<lambda>e. underEmls dataDir (fst e) \<and> \<not> infoFails ff (fst e)) fs))"

section \<open>Resolved components\<close>

definition plainComp :: "string \<Rightarrow> bool" where
  "plainComp c \<longleftrightarrow> c \<noteq> [] \<and> c \<noteq> ''.'' \<and> c \<noteq> ''..'' \<and> CHR ''/'' \<notin> set c"

lemma resolve_plain: "list_all plainComp cs \<Longrightarrow> resolve r st cs = rev st @ cs"
  by (induction cs arbitrary: st) (auto simp: plainComp_def)

lemma resolve_append: "resolve r st (cs @ ds) = resolve r (rev (resolve r st cs)) ds"
proof (induction cs arbitrary: st)
  case Nil
  then show ?case by simp
next
  case (Cons c cs)
  then show ?case by (cases r; cases st) auto
qed

text \<open>In a rooted path no component of the result is special.\<close>

lemma resolve_rooted:
  assumes "list_all plainComp st" and "\<forall>c \<in> set cs. CHR ''/'' \<notin> set c"
  shows "list_all plainComp (resolve True st cs)"
  using assms
proof (induction cs arbitrary: st)
  case Nil
  then show ?case by simp
next
  case (Cons c cs)
  then show ?case by (auto simp: plainComp_def split: list.splits)
qed

lemma comps_rooted: "hasPrefix s ''/'' \<Longrightarrow> list_all plainComp (comps s)"
  unfolding comps_def by (simp, rule resolve_rooted) (auto dest: splitOn_no_sep)

lemma splitOn_join_plain: "list_all plainComp cs \<Longrightarrow> cs \<noteq> [] \<Longrightarrow> splitOn CHR ''/'' (strJoin cs ''/'') = cs"
  by (rule splitOn_strJoin) (auto simp: list_all_iff plainComp_def)

text \<open>The absolute path made of given components, and reading them back.\<close>

definition absOf :: "string list \<Rightarrow> string" where
  "absOf cs = ''/'' @ strJoin cs ''/''"

lemma comps_absOf: "list_all plainComp cs \<Longrightarrow> comps (absOf cs) = cs"
  by (cases "cs = []") (simp_all add: comps_def absOf_def splitOn_join_plain resolve_plain)

lemma Clean_absOf: "list_all plainComp cs \<Longrightarrow> Clean (absOf cs) = absOf cs"
  by (simp add: Clean_def comps_absOf) (simp add: absOf_def)

lemma Clean_rooted: "hasPrefix s ''/'' \<Longrightarrow> Clean s = absOf (comps s)"
  by (cases s) (auto simp: Clean_def absOf_def)

lemma strJoin_append:
  "xs \<noteq> [] \<Longrightarrow> ys \<noteq> [] \<Longrightarrow> strJoin (xs @ ys) sep = strJoin xs sep @ sep @ strJoin ys sep"
proof (induction xs rule: induct_list012)
  case (2 x)
  then show ?case by (cases ys) auto
qed auto

lemma absOf_prefix_iff:
  assumes "list_all plainComp cs" "list_all plainComp rs" "rs \<noteq> []"
  shows "hasPrefix (absOf cs) (absOf rs @ ''/'') \<longleftrightarrow> (\<exists>ds. ds \<noteq> [] \<and> cs = rs @ ds)"
proof
  assume "hasPrefix (absOf cs) (absOf rs @ ''/'')"
  then obtain t where t: "strJoin cs ''/'' = strJoin rs ''/'' @ CHR ''/'' # t"
    by (auto simp: hasPrefix_iff absOf_def)
  have "cs \<noteq> []" using t by auto
  then have "cs = splitOn CHR ''/'' (strJoin rs ''/'' @ CHR ''/'' # t)"
    using splitOn_join_plain assms(1) t by metis
  also have "\<dots> = rs @ splitOn CHR ''/'' t"
    using assms(2,3)
  proof (induction rs rule: induct_list012)
    case (2 x)
    then show ?case by (simp add: splitOn_append plainComp_def)
  next
    case (3 x y zs)
    then show ?case by (simp add: splitOn_append plainComp_def)
  qed simp
  finally show "\<exists>ds. ds \<noteq> [] \<and> cs = rs @ ds" by auto
next
  assume "\<exists>ds. ds \<noteq> [] \<and> cs = rs @ ds"
  then show "hasPrefix (absOf cs) (absOf rs @ ''/'')"
    using assms(3) by (auto simp: absOf_def strJoin_append hasPrefix_iff)
qed

lemma splitOn_append_sep: "splitOn sep (a @ sep # b) = splitOn sep a @ splitOn sep b"
  by (induction a) (auto split: list.splits)

text \<open>Joining a relative path to a rooted directory.\<close>

lemma Join_rooted:
  assumes "hasPrefix base ''/''" and "rel \<noteq> []"
  shows "Join [base, rel] = absOf (resolve True (rev (comps base)) (splitOn CHR ''/'' rel))"
proof -
  have "base \<noteq> []" using assms(1) by auto
  then have "Join [base, rel] = Clean (base @ CHR ''/'' # rel)"
    using assms(2) by (simp add: Join_def)
  moreover have "hasPrefix (base @ CHR ''/'' # rel) ''/''"
    using assms(1) by (auto simp: hasPrefix_iff)
  moreover have "comps (base @ CHR ''/'' # rel) = resolve True (rev (comps base)) (splitOn CHR ''/'' rel)"
    using assms(1) calculation(2)
    by (simp add: comps_def splitOn_append_sep resolve_append)
  ultimately show ?thesis by (simp add: Clean_rooted)
qed

lemma Join_plain:
  assumes "hasPrefix base ''/''" and "list_all plainComp cs" and "cs \<noteq> []"
  shows "Join (base # cs) = absOf (comps base @ cs)"
proof -
  have ne: "filter (\<lambda>e. e \<noteq> []) (base # cs) = base # cs"
  proof (rule filter_True)
    show "\<forall>e \<in> set (base # cs). e \<noteq> []"
    proof -
      have "base \<noteq> []" using assms(1) by (cases base) auto
      moreover have "[] \<notin> set cs" by (rule list_all_notin [OF assms(2)]) (simp add: plainComp_def)
      ultimately show ?thesis by auto
    qed
  qed
  have "strJoin (base # cs) ''/'' = base @ CHR ''/'' # strJoin cs ''/''"
    using strJoin_append [of "[base]" cs "''/''"] assms(3) by simp
  then have 1: "Join (base # cs) = Clean (base @ CHR ''/'' # strJoin cs ''/'')"
    using ne by (simp add: Join_def del: strJoin.simps filter.simps)
  have 2: "hasPrefix (base @ CHR ''/'' # strJoin cs ''/'') ''/''"
    using assms(1) by (auto simp: hasPrefix_iff)
  have "splitOn CHR ''/'' (base @ CHR ''/'' # strJoin cs ''/'') = splitOn CHR ''/'' base @ cs"
    by (simp only: splitOn_append_sep splitOn_join_plain [OF assms(2,3)])
  then have "comps (base @ CHR ''/'' # strJoin cs ''/'') = resolve True [] (splitOn CHR ''/'' base @ cs)"
    using 2 by (simp only: comps_def)
  also have "\<dots> = comps base @ cs"
    using assms(1,2) by (simp only: resolve_append resolve_plain rev_rev_ident comps_def)
  finally show ?thesis using 1 2 by (simp only: Clean_rooted)
qed

lemma Join_relative:
  assumes "list_all plainComp cs" and "cs \<noteq> []"
  shows "Join cs = strJoin cs ''/''"
proof -
  have f: "filter (\<lambda>e. e \<noteq> []) cs = cs"
    using assms(1) by (induction cs) (auto simp: plainComp_def)
  obtain a t ds where cs: "cs = (a # t) # ds"
    using assms by (metis list.exhaust list.pred_inject(2) plainComp_def)
  have j: "strJoin cs ''/'' = a # drop 1 (strJoin cs ''/'')"
    by (cases ds) (simp_all add: cs)
  have "a \<noteq> CHR ''/''" using assms(1) by (auto simp: cs plainComp_def)
  then have np: "\<not> hasPrefix (strJoin cs ''/'') ''/''"
    by (subst j) simp
  have "comps (strJoin cs ''/'') = cs"
    using assms np by (simp add: comps_def splitOn_join_plain resolve_plain)
  with assms(2) f np j show ?thesis by (auto simp: Join_def Clean_def)
qed

section \<open>Properties of the store\<close>

text \<open>
  Path traversal is impossible: whatever relative path is asked for, a path that the guard
  lets through lies strictly below the data directory, with no special component.
\<close>

theorem safeAbs_confined:
  assumes "hasPrefix dataDir ''/''" and "comps dataDir \<noteq> []" and "safeAbs dataDir rel = Inr p"
  shows "\<exists>ds. ds \<noteq> [] \<and> list_all plainComp ds \<and> p = absOf (comps dataDir @ ds)"
proof -
  let ?cs = "resolve True (rev (comps dataDir)) (splitOn CHR ''/'' rel)"
  have root: "list_all plainComp (comps dataDir)" using assms(1) by (rule comps_rooted)
  have cs: "list_all plainComp ?cs"
    by (rule resolve_rooted) (use root splitOn_no_sep in auto)
  have "rel \<noteq> []"
  proof
    assume "rel = []"
    then have "Join [dataDir, rel] = absOf (comps dataDir)"
      using assms(1) by (auto simp: Join_def Clean_rooted)
    then have "safeAbs dataDir rel = Inl ''path traversal attempt''"
      using root absOf_prefix_iff [OF root root assms(2)] assms(1)
      by (simp add: safeAbs_def Clean_absOf Clean_rooted)
    then show False using assms(3) by simp
  qed
  then have "Clean (Join [dataDir, rel]) = absOf ?cs"
    using assms(1) cs by (simp add: Join_rooted Clean_absOf)
  with assms obtain ds where "ds \<noteq> []" "?cs = comps dataDir @ ds" "p = absOf ?cs"
    using absOf_prefix_iff [OF cs root assms(2)]
    by (auto simp: safeAbs_def Clean_rooted Let_def split: if_splits)
  then show ?thesis using cs by auto
qed

text \<open>
  Writing and reading back: the path that \<^verbatim>\<open>Write\<close> returns gives the stored bytes again, for a
  rooted data directory, plain date strings and a hash that is a plain file name.
\<close>

theorem store_roundtrip:
  assumes dir: "hasPrefix dataDir ''/''" "comps dataDir \<noteq> []"
    and plain: "list_all plainComp [y, m, d, emlName sha account msg uid]"
    and w: "store_Write ff sha dataDir (y, m, d) now account msg uid raw fs = (Inr rel, fs')"
  shows "store_Read dataDir rel fs' = Inr raw"
proof -
  let ?n = "emlName sha account msg uid"
  have root: "list_all plainComp (comps dataDir)" using dir(1) by (rule comps_rooted)
  have p4: "list_all plainComp [''emls'', y, m, d]" and p5: "list_all plainComp [''emls'', y, m, d, ?n]"
    using plain by (simp_all add: plainComp_def)
  define dirp where "dirp = absOf (comps dataDir @ [''emls'', y, m, d])"
  have jd: "Join [dataDir, ''emls'', y, m, d] = dirp"
    unfolding dirp_def using dir p4 by (intro Join_plain) auto
  have dirp: "hasPrefix dirp ''/''" "comps dirp = comps dataDir @ [''emls'', y, m, d]"
    using comps_absOf [of "comps dataDir @ [''emls'', y, m, d]"] root p4
    by (simp_all add: dirp_def) (simp add: absOf_def)
  have abs: "Join [dirp, ?n] = absOf (comps dataDir @ [''emls'', y, m, d, ?n])"
    using Join_plain [OF dirp(1), of "[?n]"] plain dirp(2) by simp
  have relp: "rel = strJoin [''emls'', y, m, d, ?n] ''/''"
    using w p5 by (auto simp: store_Write_def Let_def Join_relative split: if_splits)
  have fs': "fs' = fsWrite (absOf (comps dataDir @ [''emls'', y, m, d, ?n])) \<lparr>f_data = raw, f_mtime = now\<rparr> fs"
    using w by (auto simp: store_Write_def Let_def jd abs split: if_splits)
  have cs: "list_all plainComp (comps dataDir @ [''emls'', y, m, d, ?n])" using root p5 by simp
  have "rel \<noteq> []" by (simp add: relp)
  from Join_rooted [OF dir(1) this] have "Join [dataDir, rel] = absOf (comps dataDir @ [''emls'', y, m, d, ?n])"
    unfolding relp splitOn_join_plain [OF p5 list.distinct(2)] resolve_plain [OF p5] rev_rev_ident .
  then have "safeAbs dataDir rel = Inr (absOf (comps dataDir @ [''emls'', y, m, d, ?n]))"
    using absOf_prefix_iff [OF cs root dir(2)] dir(1)
    by (simp add: safeAbs_def Clean_absOf [OF cs] Clean_rooted)
  then show ?thesis by (simp add: store_Read_def fs' fsWrite_def)
qed

text \<open>
  The two clean-up passes never touch what they must keep: purging keeps every protected
  path and every file that is not older than the given age, reconciliation keeps every known
  path and every file younger than an hour, and both report the number of files they removed.
\<close>

theorem cleanup_keeps:
  "(e \<in> set fs \<and> (relOf dir (fst e) \<in> set prot \<or> now - age \<le> f_mtime (snd e))
      \<longrightarrow> e \<in> set (snd (PurgeOlderThan ff dir now age prot fs)))
   \<and> (e \<in> set fs \<and> (relOf dir (fst e) \<in> set known \<or> now - f_mtime (snd e) < hour)
      \<longrightarrow> e \<in> set (snd (ReconcileOrphans ff dir now known fs)))
   \<and> fst (PurgeOlderThan ff dir now age prot fs) + length (snd (PurgeOlderThan ff dir now age prot fs)) = length fs
   \<and> fst (ReconcileOrphans ff dir now known fs) + length (snd (ReconcileOrphans ff dir now known fs)) = length fs"
proof -
  have "fst (PurgeOlderThan ff dir now age prot fs) + length (snd (PurgeOlderThan ff dir now age prot fs)) = length fs"
    "fst (ReconcileOrphans ff dir now known fs) + length (snd (ReconcileOrphans ff dir now known fs)) = length fs"
    by (simp_all add: PurgeOlderThan_def ReconcileOrphans_def Let_def sum_length_filter_compl)
  then show ?thesis
    by (auto simp: PurgeOlderThan_def ReconcileOrphans_def purgeable_def orphaned_def Let_def)
qed

text \<open>
  With the data directory \<^verbatim>\<open>.\<close> the guard refuses every stored message: the cleaned root is a
  dot and no cleaned path starts with it.
\<close>

theorem safeAbs_dot_refuses:
  "safeAbs ''.'' ''emls/2026/01/02/a.eml'' = Inl ''path traversal attempt''"
  by (simp add: safeAbs_def Join_def Clean_def comps_def)

section \<open>Witnesses\<close>

lemma safeAbs_confined_witness:
  "\<exists>ds. ds \<noteq> [] \<and> list_all plainComp ds \<and> ''/data/emls/x.eml'' = absOf (comps ''/data'' @ ds)"
proof -
  have "comps ''/data'' \<noteq> []" by (simp add: comps_def)
  moreover have "safeAbs ''/data'' ''a/../emls//x.eml'' = Inr ''/data/emls/x.eml''"
    by (simp add: safeAbs_def Join_def Clean_def comps_def)
  ultimately show ?thesis using safeAbs_confined [of "''/data''" "''a/../emls//x.eml''"] by simp
qed

lemma store_roundtrip_witness:
  "store_Read ''/data'' ''emls/2026/01/02/h.eml''
     [(''/data/emls/2026/01/02/h.eml'', \<lparr>f_data = ''raw'', f_mtime = 5\<rparr>)] = Inr ''raw''"
proof -
  let ?ff = "\<lparr>writeFails = (\<lambda>_. False), removeFails = (\<lambda>_. False), infoFails = (\<lambda>_. False)\<rparr>"
  have "store_Write ?ff (\<lambda>_. ''h'') ''/data'' (''2026'', ''01'', ''02'') 5 ''acct'' ''m'' 7 ''raw'' []
      = (Inr ''emls/2026/01/02/h.eml'',
         [(''/data/emls/2026/01/02/h.eml'', \<lparr>f_data = ''raw'', f_mtime = 5\<rparr>)])"
    by (simp add: store_Write_def emlName_def Join_def Clean_def comps_def fsWrite_def Let_def)
  from store_roundtrip [OF _ _ _ this] show ?thesis
    by (simp add: comps_def plainComp_def emlName_def)
qed

lemma cleanup_keeps_witness:
  "(''/data/emls/a.eml'', \<lparr>f_data = [], f_mtime = 9\<rparr>) \<in> set (snd (PurgeOlderThan
     \<lparr>writeFails = (\<lambda>_. False), removeFails = (\<lambda>_. False), infoFails = (\<lambda>_. False)\<rparr>
     ''/data'' 10 5 [] [(''/data/emls/a.eml'', \<lparr>f_data = [], f_mtime = 9\<rparr>)]))"
  using cleanup_keeps [of "(''/data/emls/a.eml'', \<lparr>f_data = [], f_mtime = 9\<rparr>)"
      "[(''/data/emls/a.eml'', \<lparr>f_data = [], f_mtime = 9\<rparr>)]" "''/data''" "[]" 10 5] by simp

end
