(* ===== verification/Pipeline.thy ===== *)
theory Pipeline
  imports ScanRecord Storage
begin

text \<open>
  The orchestration of \<^verbatim>\<open>app/pipeline/pipeline.go\<close>: one message from the IMAP watcher through parsing, the
  block and allow lists, the fan-out over the scanners, the verdict, the database row, the IMAP
  action with its retries and the clean-up when that action fails, notifications, audit log and
  statistics. The world is a record (database, files, and the logs of everything sent outside), and
  everything the code does not control is an argument: which transactions are refused, what each
  IMAP call answers, when a context is done, in which order the scanners' results arrive.
\<close>

section \<open>State\<close>

datatype imap_call =
    MoveToQuarantine string uint32
  | DeleteMessage string uint32
  | FlagMessage string uint32

record world =
  w_db :: db
  w_writes :: nat                          \<comment> \<open>transactions begun\<close>
  w_calls :: "imap_call list"              \<comment> \<open>calls of \<^verbatim>\<open>IMAPActions\<close>\<close>
  w_files :: files
  w_sent :: "VerdictDecision list"         \<comment> \<open>\<^verbatim>\<open>Notifier.Send\<close>\<close>
  w_down :: "string list"                  \<comment> \<open>\<^verbatim>\<open>Notifier.NotifyEngineDown\<close>\<close>
  w_sse :: "nat list"                      \<comment> \<open>primary keys of the rows broadcast by the hub\<close>
  w_total :: "string list"                 \<comment> \<open>\<^verbatim>\<open>metrics.ScansTotal\<close> labels\<close>
  w_up :: "(string \<times> bool) list"           \<comment> \<open>\<^verbatim>\<open>metrics.ScannerUp\<close> settings\<close>
  w_slots :: nat                           \<comment> \<open>tokens in the semaphore\<close>

type_synonym scanner = "string \<times> (Email \<Rightarrow> ScanResult go)"

text \<open>
  The pipeline's fields and the environment. The n-th IMAP call answers by the functions
  \<open>p_move\<close>, \<open>p_delete\<close>, \<open>p_flag\<close> at n; \<open>p_ctxDone\<close> at n tells whether the caller's context is done
  when the code waits before the n-th call, \<open>p_freshDone\<close> the same for the 30 second context of the
  panic recovery. The listener's context has no deadline and \<^verbatim>\<open>freshClient\<close> sets one on the connection
  only when its context has one, so a call under it may wait for ever: \<open>p_stalls\<close> at n. The 30 second
  context bounds every call of the panic recovery. Notifications, transactions and statistics end by
  themselves: the ntfy client has a timeout, the writer a busy timeout. \<open>p_arrive\<close> puts the results in the order in which the channel delivers them.
\<close>

record pipeline =
  p_scanners :: "scanner list"
  p_lib :: mail_lib
  p_parseAddress :: "string \<Rightarrow> string option"
  p_MaxEmailSizeMB :: int
  p_TrustedAuthservID :: string
  p_EMLCleanRetain :: bool
  p_thresholds :: Thresholds
  p_notifier :: bool
  p_hub :: bool
  p_arrive :: "ScanResult list \<Rightarrow> ScanResult list"
  p_move :: "nat \<Rightarrow> (uint32 \<times> string) result"
  p_delete :: "nat \<Rightarrow> unit result"
  p_flag :: "nat \<Rightarrow> unit result"
  p_ctxDone :: "nat \<Rightarrow> error option"
  p_freshDone :: "nat \<Rightarrow> error option"
  p_faults :: faults
  p_listFails :: "bool \<times> bool"             \<comment> \<open>the query of the block list, of the allow list\<close>
  p_fsFaults :: fs_faults
  p_dataDir :: string
  p_today :: date
  p_now :: go_time
  p_date :: string
  p_slot :: bool                           \<comment> \<open>a slot was free before the context was done\<close>
  p_starved :: bool                        \<comment> \<open>no slot is ever freed and the context is never done\<close>
  p_stalls :: "nat \<Rightarrow> bool"                \<comment> \<open>the server never answers the n-th IMAP call\<close>

section \<open>Database writes and IMAP actions\<close>

definition wWrite :: "pipeline \<Rightarrow> (db \<Rightarrow> (db \<times> 'a) result) \<Rightarrow> world \<Rightarrow> world \<times> 'a result" where
  "wWrite p fn w =
     (case dbWrite (p_faults p) (w_writes w) fn (w_db w) of
        (d, r) \<Rightarrow> (w\<lparr>w_db := d, w_writes := Suc (w_writes w)\<rparr>, r))"

text \<open>
  The retry loop that the three branches of \<^verbatim>\<open>takeIMAPAction\<close> share: wait for the delay unless the
  context is done, call, return at the first success. \<open>err\<close> is the variable of that name.
\<close>

fun retryLoop :: "(nat \<Rightarrow> error option) \<Rightarrow> imap_call \<Rightarrow> (nat \<Rightarrow> 'a result) \<Rightarrow> duration list \<Rightarrow> error \<Rightarrow> world
    \<Rightarrow> world \<times> 'a result" where
  "retryLoop done call answer [] err w = (w, Inl err)"
| "retryLoop done call answer (d # delays) err w =
     (case (if d > 0 then done (length (w_calls w)) else None) of
        Some e \<Rightarrow> (w, Inl e)
      | None \<Rightarrow>
          (let w' = w\<lparr>w_calls := w_calls w @ [call]\<rparr>
           in case answer (length (w_calls w)) of
                Inr x \<Rightarrow> (w', Inr x)
              | Inl e \<Rightarrow> retryLoop done call answer delays e w'))"

definition imapDelays :: "duration list" where
  "imapDelays = [0, second, 2 * second, 4 * second]"

definition noUID :: "unit result \<Rightarrow> (uint32 \<times> string) result" where
  "noUID r = (case r of Inl e \<Rightarrow> Inl e | Inr _ \<Rightarrow> Inr (0, []))"

definition takeIMAPAction :: "pipeline \<Rightarrow> (nat \<Rightarrow> error option) \<Rightarrow> string \<Rightarrow> string \<Rightarrow> uint32 \<Rightarrow> world
    \<Rightarrow> world \<times> (uint32 \<times> string) result" where
  "takeIMAPAction p done decision mailbox uid w =
     (if decision = ''delete'' then
        retryLoop done (DeleteMessage mailbox uid) (noUID \<circ> p_delete p) imapDelays [] w
      else if decision = ''quarantine'' then
        retryLoop done (MoveToQuarantine mailbox uid) (p_move p) imapDelays [] w
      else if decision = ''flag'' then
        retryLoop done (FlagMessage mailbox uid) (noUID \<circ> p_flag p) imapDelays [] w
      else (w, Inr (0, [])))"

definition quarantineColumns :: "string \<Rightarrow> uint32 \<Rightarrow> string \<Rightarrow> Scan \<Rightarrow> Scan" where
  "quarantineColumns accountName newUID newMailbox s =
     (let s1 = s\<lparr>IMAPMailbox := newMailbox\<rparr>
      in if newUID > 0
         then s1\<lparr>IMAPUID := newUID, AccountUID := MakeAccountUID accountName newMailbox newUID\<rparr> else s1)"

definition updateQuarantineUID :: "pipeline \<Rightarrow> Scan \<Rightarrow> string \<Rightarrow> uint32 \<Rightarrow> string \<Rightarrow> world \<Rightarrow> world \<times> unit result" where
  "updateQuarantineUID p scanRecord accountName newUID newMailbox w =
     (if newMailbox = [] then (w, Inr ())
      else wWrite p (\<lambda>d.
        case updateScan (ID scanRecord) (quarantineColumns accountName newUID newMailbox) d of
          Inl e \<Rightarrow> Inl e | Inr d' \<Rightarrow> Inr (d', ())) w)"

definition autoAudit :: "nat \<Rightarrow> string \<Rightarrow> string \<Rightarrow> AuditLog" where
  "autoAudit i action note = \<lparr>al_ScanID = i, al_Action = action, al_Actor = ''auto'', al_Note = note\<rparr>"

definition auditQuarantineDesync :: "pipeline \<Rightarrow> Scan \<Rightarrow> world \<times> unit result \<Rightarrow> world" where
  "auditQuarantineDesync p scanRecord r =
     (case r of
        (w, Inr _) \<Rightarrow> w
      | (w, Inl err) \<Rightarrow>
          fst (wWrite p (\<lambda>d. Inr (createAudit (autoAudit (ID scanRecord) ''QUAR_DESYNC''
                 (''quarantine UID persist failed: '' @ err)) d, ())) w))"

text \<open>The transaction that every branch runs when the IMAP action failed.\<close>

definition revertStatus :: "pipeline \<Rightarrow> Scan \<Rightarrow> string \<Rightarrow> world \<Rightarrow> world" where
  "revertStatus p scanRecord note w =
     fst (wWrite p (\<lambda>d. Inr (createAudit (autoAudit (ID scanRecord) ''IMAP_FAIL'' note)
            (setStatus (ID scanRecord) StatusInbox d), ())) w)"

definition incrementDailyStat :: "pipeline \<Rightarrow> string \<Rightarrow> world \<Rightarrow> world" where
  "incrementDailyStat p verdict w =
     (if verdictToStatCol verdict = [] then w
      else fst (wWrite p (\<lambda>d. Inr (bumpDaily (verdictToStatCol verdict) (p_date p) d, ())) w))"

definition scansTotal :: "string \<Rightarrow> world \<Rightarrow> world" where
  "scansTotal verdict w = w\<lparr>w_total := w_total w @ [verdict]\<rparr>"

section \<open>Messages that cannot be parsed\<close>

definition failureRecord :: "pipeline \<Rightarrow> string \<Rightarrow> uint32 \<Rightarrow> string \<Rightarrow> string \<Rightarrow> string \<Rightarrow> Scan" where
  "failureRecord p accountName uid mailbox source reason =
     zeroScan\<lparr>AccountName := accountName, AccountUID := MakeAccountUID accountName mailbox uid,
       IMAPMailbox := mailbox, IMAPUID := uid, Verdict := VerdictSuspicious, VerdictReason := reason,
       Confidence := 1,
       Status := (if source = SourceBackfill then StatusInbox else StatusQuarantined),
       Source := source, ActionedBy := ''auto'', CreatedAt := p_now p, ActionedAt := Some (p_now p)\<rparr>"

text \<open>
  The handler of a recovered panic and the branch for a parse error: the same steps with another
  reason, another label in the audit note and another context.
\<close>

definition failClosed :: "pipeline \<Rightarrow> (nat \<Rightarrow> error option) \<Rightarrow> string \<Rightarrow> string \<Rightarrow> string \<Rightarrow> uint32 \<Rightarrow> string \<Rightarrow> string
    \<Rightarrow> world \<Rightarrow> world" where
  "failClosed p done reason label accountName uid mailbox source w =
     (case wWrite p (createScan (failureRecord p accountName uid mailbox source reason)) (scansTotal VerdictSuspicious w) of
        (w1, Inl _) \<Rightarrow> w1
      | (w1, Inr rec) \<Rightarrow>
          if source = SourceBackfill then w1
          else (case takeIMAPAction p done ''quarantine'' mailbox uid w1 of
                  (w2, Inl imapErr) \<Rightarrow> revertStatus p rec (label @ '' quarantine failed: '' @ imapErr) w2
                | (w2, Inr (qUID, qMailbox)) \<Rightarrow>
                    auditQuarantineDesync p rec (updateQuarantineUID p rec accountName qUID qMailbox w2)))"

section \<open>Block and allow lists\<close>

definition storeWrite :: "pipeline \<Rightarrow> string \<Rightarrow> Email \<Rightarrow> string \<Rightarrow> world \<Rightarrow> string \<times> world" where
  "storeWrite p accountName email raw w =
     (case store_Write (p_fsFaults p) (sha256Hex (p_lib p)) (p_dataDir p) (p_today p) (p_now p) accountName
             (em_MessageID email) (em_IMAPUID email) raw (w_files w) of
        (Inl _, fs) \<Rightarrow> ([], w\<lparr>w_files := fs\<rparr>)
      | (Inr path, fs) \<Rightarrow> (path, w\<lparr>w_files := fs\<rparr>))"

definition blockPath :: "pipeline \<Rightarrow> Blocklist \<Rightarrow> Email \<Rightarrow> string \<Rightarrow> string \<Rightarrow> uint32 \<Rightarrow> string \<Rightarrow> string \<Rightarrow> world \<Rightarrow> world" where
  "blockPath p bl email raw accountName uid mailbox source w =
     (let vd = decided ''quarantine'' ''SPAM'' (''blocklisted: '' @ bl_Entry bl) 1 [];
          (emlPath, w0) = storeWrite p accountName email raw w;
          rec0 = (buildScanRecord (p_now p) email vd emlPath)\<lparr>Source := source\<rparr>;
          rec1 = (if source = SourceBackfill then rec0\<lparr>Status := StatusInbox\<rparr> else rec0)
      in case wWrite p (createScan rec1) w0 of
           (w1, Inl _) \<Rightarrow> w1
         | (w1, Inr rec) \<Rightarrow>
             (let w2 = (if source = SourceBackfill then w1
                else case takeIMAPAction p (p_ctxDone p) ''quarantine'' mailbox uid w1 of
                  (w2, Inl imapErr) \<Rightarrow> revertStatus p rec (''imap quarantine failed: '' @ imapErr) w2
                | (w2, Inr (qUID, qMailbox)) \<Rightarrow>
                    fst (updateQuarantineUID p rec (em_AccountName email) qUID qMailbox w2))
              in incrementDailyStat p ''SPAM'' (scansTotal ''SPAM'' w2)))"

text \<open>In this branch the row keeps the default \<^verbatim>\<open>source\<close>, and a failed write is ignored.\<close>

definition bypassPath :: "pipeline \<Rightarrow> Whitelist \<Rightarrow> Email \<Rightarrow> string \<Rightarrow> string \<Rightarrow> world \<Rightarrow> world" where
  "bypassPath p wl email raw accountName w =
     (let vd = decided ''pass'' ''CLEAN'' (''whitelisted (bypass): '' @ wl_Entry wl) 1 [];
          (path, w0) = storeWrite p accountName email raw w;
          (emlPath, w1) = (if \<not> p_EMLCleanRetain p \<and> path \<noteq> []
             then ([], w0\<lparr>w_files := snd (store_Delete (p_fsFaults p) (p_dataDir p) path (w_files w0))\<rparr>)
             else (path, w0));
          rec = buildScanRecord (p_now p) email vd emlPath;
          w2 = fst (wWrite p (createScan rec) w1)
      in incrementDailyStat p ''CLEAN'' (scansTotal ''CLEAN'' w2))"

section \<open>Fan-out\<close>

definition panicResult :: "string \<Rightarrow> ScanResult" where
  "panicResult name = \<lparr>sr_Scanner = name, sr_Verdict = ''error'', sr_Score = 0,
     sr_Detail = ''panic recovered'', sr_Matches = None\<rparr>"

text \<open>One goroutine: its result, with a panic turned into an error result.\<close>

definition runScanner :: "Email \<Rightarrow> scanner \<Rightarrow> ScanResult go" where
  "runScanner email s =
     (case snd s email of Panics _ \<Rightarrow> Returns (panicResult (fst s)) | r \<Rightarrow> r)"

text \<open>\<^verbatim>\<open>wg.Wait\<close> and the drained channel: a panic that escapes ends the program, a goroutine that does not end blocks.\<close>

fun gatherPanic :: "'a go list \<Rightarrow> string option" where
  "gatherPanic [] = None"
| "gatherPanic (r # rs) = (case r of Panics m \<Rightarrow> Some m | _ \<Rightarrow> gatherPanic rs)"

fun gatherResults :: "'a go list \<Rightarrow> 'a list option" where
  "gatherResults [] = Some []"
| "gatherResults (r # rs) =
     (case (r, gatherResults rs) of (Returns x, Some xs) \<Rightarrow> Some (x # xs) | _ \<Rightarrow> None)"

definition gather :: "'a go list \<Rightarrow> 'a list go" where
  "gather rs =
     (case gatherPanic rs of
        Some m \<Rightarrow> Panics m
      | None \<Rightarrow> (case gatherResults rs of Some xs \<Rightarrow> Returns xs | None \<Rightarrow> Hangs))"

text \<open>The gauge and the notification of each goroutine; a recovered panic lowers the gauge without a notification.\<close>

definition scannerHealth :: "pipeline \<Rightarrow> Email \<Rightarrow> world \<Rightarrow> world" where
  "scannerHealth p email w =
     w\<lparr>w_up := w_up w @ map (\<lambda>s. (fst s,
          case snd s email of Returns r \<Rightarrow> sr_Verdict r \<noteq> ''error'' | _ \<Rightarrow> False)) (p_scanners p),
       w_down := w_down w @ (if p_notifier p
          then map fst (filter (\<lambda>s. case snd s email of Returns r \<Rightarrow> sr_Verdict r = ''error'' | _ \<Rightarrow> False) (p_scanners p))
          else [])\<rparr>"

section \<open>The main path\<close>

definition finalDecision :: "Email \<Rightarrow> VerdictDecision \<Rightarrow> VerdictDecision" where
  "finalDecision email vd =
     (if em_WhitelistEntry email \<noteq> []
      then vd\<lparr>vd_Decision := ''pass'',
              vd_Reason := ''whitelisted (scan-and-release): '' @ maskEntry (em_WhitelistEntry email)\<rparr>
      else vd)"

definition notifications :: "pipeline \<Rightarrow> string \<Rightarrow> VerdictDecision \<Rightarrow> VerdictDecision list" where
  "notifications p source vd =
     (if \<not> p_notifier p then []
      else if source = SourceBackfill then
        (if vd_Verdict vd \<noteq> VerdictClean then [vd\<lparr>vd_Reason := ''[Historical scan] '' @ vd_Reason vd\<rparr>] else [])
      else if vd_Decision vd \<noteq> ''pass'' then [vd] else [])"

text \<open>Everything after the verdict: row, IMAP action, notification, broadcast, audit, statistics.\<close>

definition settle :: "pipeline \<Rightarrow> string \<Rightarrow> uint32 \<Rightarrow> string \<Rightarrow> VerdictDecision \<Rightarrow> Scan \<Rightarrow> world \<Rightarrow> world" where
  "settle p accountName uid mailbox vd rec w =
     (case takeIMAPAction p (p_ctxDone p) (vd_Decision vd) mailbox uid w of
        (w2, Inl imapErr) \<Rightarrow>
          revertStatus p rec (''imap '' @ vd_Decision vd @ '' failed: '' @ imapErr) w2
      | (w2, Inr (qUID, qMailbox)) \<Rightarrow>
          if vd_Decision vd = ''quarantine''
          then auditQuarantineDesync p rec (updateQuarantineUID p rec accountName qUID qMailbox w2)
          else w2)"

definition announce :: "pipeline \<Rightarrow> string \<Rightarrow> VerdictDecision \<Rightarrow> Scan \<Rightarrow> world \<Rightarrow> world" where
  "announce p source vd rec w =
     (let w1 = w\<lparr>w_sent := w_sent w @ notifications p source vd,
                 w_sse := w_sse w @ (if p_hub p then [ID rec] else [])\<rparr>;
          action = (if source = SourceBackfill then ActionBackfill else verdictToAction vd);
          w2 = fst (wWrite p (\<lambda>d. Inr (createAudit (autoAudit (ID rec) action (vd_Reason vd)) d, ())) w1)
      in incrementDailyStat p (vd_Verdict vd) (scansTotal (vd_Verdict vd) w2))"

definition recordVerdict :: "pipeline \<Rightarrow> Email \<Rightarrow> string \<Rightarrow> string \<Rightarrow> uint32 \<Rightarrow> string \<Rightarrow> VerdictDecision \<Rightarrow> world \<Rightarrow> world" where
  "recordVerdict p email emlPath0 source uid mailbox vd w =
     (let (emlPath, w0) =
            (if \<not> p_EMLCleanRetain p \<and> vd_Verdict vd = VerdictClean \<and> emlPath0 \<noteq> [] then
               (case store_Delete (p_fsFaults p) (p_dataDir p) emlPath0 (w_files w) of
                  (Inr _, fs) \<Rightarrow> ([], w\<lparr>w_files := fs\<rparr>) | (Inl _, fs) \<Rightarrow> (emlPath0, w\<lparr>w_files := fs\<rparr>))
             else (emlPath0, w));
          rec0 = (buildScanRecord (p_now p) email vd emlPath)\<lparr>Source := source\<rparr>;
          rec1 = (if source = SourceBackfill then rec0\<lparr>Status := StatusInbox\<rparr> else rec0)
      in case wWrite p (upsertScan rec1) w0 of
           (w1, Inl _) \<Rightarrow> w1
         | (w1, Inr rec) \<Rightarrow>
             announce p source vd rec
               (if source = SourceBackfill then w1
                else settle p (em_AccountName email) uid mailbox vd rec w1))"

definition scanPath :: "pipeline \<Rightarrow> Email \<Rightarrow> string \<Rightarrow> string \<Rightarrow> uint32 \<Rightarrow> string \<Rightarrow> string \<Rightarrow> world \<Rightarrow> world go" where
  "scanPath p email raw accountName uid mailbox source w =
     (let (emlPath, w0) = storeWrite p accountName email raw w
      in bind_go (gather (map (runScanner email) (p_scanners p))) (\<lambda>results.
           Returns (recordVerdict p email emlPath source uid mailbox
             (finalDecision email (Decide (p_thresholds p) email (p_arrive p results)))
             (scannerHealth p email w0))))"

definition processEmail :: "pipeline \<Rightarrow> Email \<Rightarrow> string \<Rightarrow> string \<Rightarrow> uint32 \<Rightarrow> string \<Rightarrow> string \<Rightarrow> world \<Rightarrow> world go" where
  "processEmail p email raw accountName uid mailbox source w =
     (case matchBlocklist (p_parseAddress p) (fst (p_listFails p)) (w_db w) email of
        Some bl \<Rightarrow> Returns (blockPath p bl email raw accountName uid mailbox source w)
      | None \<Rightarrow>
          (case matchWhitelist (p_parseAddress p) (snd (p_listFails p)) (w_db w) email of
             None \<Rightarrow> scanPath p email raw accountName uid mailbox source w
           | Some wl \<Rightarrow>
               if wl_BypassScan wl \<and> senderAuthAligned email
               then Returns (bypassPath p wl email raw accountName w)
               else scanPath p (email\<lparr>em_WhitelistEntry := wl_Entry wl\<rparr>) raw accountName uid mailbox source w))"

section \<open>Process\<close>

definition release :: "world \<Rightarrow> world" where
  "release w = w\<lparr>w_slots := w_slots w - 1\<rparr>"

definition parseLimit :: "int \<Rightarrow> int" where
  "parseLimit mb = mb * 1024 * 1024"

text \<open>
  A run that made the calls between the two worlds has come back only when the server answered each
  of them. The deferred release of the slot runs before the deferred recovery, so a panic is handled
  without a slot.
\<close>

definition answered :: "pipeline \<Rightarrow> world \<Rightarrow> world \<Rightarrow> world go" where
  "answered p w w' =
     (if list_ex (p_stalls p) [length (w_calls w)..<length (w_calls w')] then Hangs else Returns w')"

definition process :: "pipeline \<Rightarrow> string \<Rightarrow> string \<Rightarrow> uint32 \<Rightarrow> string \<Rightarrow> string \<Rightarrow> world \<Rightarrow> world go" where
  "process p accountName raw uid mailbox source w =
     (if p_starved p then Hangs
      else if \<not> p_slot p then Returns w
      else (let w0 = w\<lparr>w_slots := Suc (w_slots w)\<rparr>
            in case bind_go (Parse (p_lib p) raw accountName uid mailbox (parseLimit (p_MaxEmailSizeMB p))
                               (p_TrustedAuthservID p))
                     (\<lambda>r. case r of
                        Inl err \<Rightarrow> Returns (failClosed p (p_ctxDone p) (''unparseable message: '' @ err)
                                    ''parse-failure'' accountName uid mailbox source w0)
                      | Inr email \<Rightarrow> processEmail p email raw accountName uid mailbox source w0) of
                 Returns w1 \<Rightarrow> answered p w0 (release w1)
               | Panics m \<Rightarrow> Returns (failClosed p (p_freshDone p) (''process panic: '' @ m)
                               ''panic-recovery'' accountName uid mailbox source (release w0))
               | Hangs \<Rightarrow> Hangs))"

definition Process :: "pipeline \<Rightarrow> string \<Rightarrow> string \<Rightarrow> uint32 \<Rightarrow> string \<Rightarrow> world \<Rightarrow> world go" where
  "Process p accountName raw uid mailbox w = process p accountName raw uid mailbox SourceLive w"

definition ProcessBackfill :: "pipeline \<Rightarrow> string \<Rightarrow> string \<Rightarrow> uint32 \<Rightarrow> string \<Rightarrow> world \<Rightarrow> world go" where
  "ProcessBackfill p accountName raw uid mailbox w = process p accountName raw uid mailbox SourceBackfill w"

text \<open>\<^verbatim>\<open>RunScan\<close>: no recovery around the scanners; the elapsed time is left out of the result.\<close>

definition RunScan :: "pipeline \<Rightarrow> string \<Rightarrow> (VerdictDecision \<times> ScanResult list) result go" where
  "RunScan p raw =
     (let limit = (if parseLimit (p_MaxEmailSizeMB p) = 0 then parseLimit 100 else parseLimit (p_MaxEmailSizeMB p))
      in bind_go (Parse (p_lib p) raw ''scan'' 0 ''INBOX'' limit (p_TrustedAuthservID p)) (\<lambda>r.
           case r of
             Inl e \<Rightarrow> Returns (Inl e)
           | Inr email \<Rightarrow>
               bind_go (gather (map (\<lambda>s. snd s email) (p_scanners p))) (\<lambda>results.
                 Returns (Inr (Decide (p_thresholds p) email (p_arrive p results), p_arrive p results)))))"

end
