(* ===== verification/Invariants.thy ===== *)
theory Invariants
  imports ScanRecord "HOL-Library.Sublist"
begin

text \<open>
  What the writers of the database rely on: an invariant of the tables is kept by every statement
  that the pipeline and the dashboard issue. The locale states the contract once; the clients prove in
  it that whole runs keep the invariant. Its interpretations are the well-formedness of the tables
  (distinct keys), the daily statistics adding up, the audit log only growing, and rows never
  disappearing.
\<close>

section \<open>The contract\<close>

locale table_invariant =
  fixes inv :: "db \<Rightarrow> bool"
  assumes inv_create: "inv d \<Longrightarrow> createScan rec d = Inr (d', rec') \<Longrightarrow> inv d'"
    and inv_upsert: "inv d \<Longrightarrow> upsertScan rec d = Inr (d', rec') \<Longrightarrow> inv d'"
    and inv_update: "inv d \<Longrightarrow> (\<And>s. ID (f s) = ID s) \<Longrightarrow> updateScan i f d = Inr d' \<Longrightarrow> inv d'"
    and inv_audit: "inv d \<Longrightarrow> inv (createAudit a d)"
    and inv_status: "inv d \<Longrightarrow> inv (setStatus i st d)"
    and inv_stat: "inv d \<Longrightarrow> inv (bumpDaily col date d)"
begin

lemmas inv_rules = inv_create inv_upsert inv_audit inv_status inv_stat

lemma inv_dbWrite:
  assumes "inv d" and "\<And>d' x. fn d = Inr (d', x) \<Longrightarrow> inv d'" and "dbWrite flt n fn d = (d1, r)"
  shows "inv d1"
  using assms by (cases rule: dbWrite_cases [of flt n fn d]) auto

end

section \<open>Well-formed tables\<close>

lemma bumpDaily_OK [simp]: "dbOK (bumpDaily col date d) = dbOK d"
  by (simp add: dbOK_def bumpDaily_def)

interpretation wf: table_invariant dbOK
  by unfold_locales
    (auto intro: createScan_OK upsertScan_OK setStatus_OK dest: updateScan_OK)

section \<open>Daily statistics\<close>

text \<open>The total of a day is the sum of its verdict columns.\<close>

definition statOK :: "DailyStat \<Rightarrow> bool" where
  "statOK s \<longleftrightarrow> ds_Total s = ds_Clean s + ds_Spam s + ds_Phish s + ds_Malware s + ds_Suspicious s"

definition statsOK :: "db \<Rightarrow> bool" where
  "statsOK d \<longleftrightarrow> (\<forall>date. statOK (statRow date d))"

lemma bumpStat_OK: "statOK s \<Longrightarrow> statOK (bumpStat col s)"
  by (auto simp: statOK_def bumpStat_def Let_def)

lemma statRow_bump:
  "statRow date (bumpDaily col date' d) = (if date = date' then bumpStat col (statRow date d) else statRow date d)"
  by (simp add: statRow_def bumpDaily_def)

text \<open>Statements on the scans leave the statistics and the audit log alone and keep every row.\<close>

definition scansOnly :: "db \<Rightarrow> db \<Rightarrow> bool" where
  "scansOnly d d' \<longleftrightarrow> daily d' = daily d \<and> audit d' = audit d \<and> ID ` set (scans d) \<subseteq> ID ` set (scans d')"

lemma scansOnly_rows:
  assumes "\<And>s. ID (f s) = ID s"
  shows "scansOnly d (d\<lparr>scans := map f (scans d)\<rparr>)"
  by (simp add: scansOnly_def image_image assms)

lemma scansOnly_create: "createScan rec d = Inr (d', rec') \<Longrightarrow> scansOnly d d'"
  by (auto simp: createScan_def Let_def scansOnly_def split: if_splits)

lemma scansOnly_upsert: "upsertScan rec d = Inr (d', rec') \<Longrightarrow> scansOnly d d'"
  by (auto simp: upsertScan_def split: option.splits intro: scansOnly_create intro!: scansOnly_rows)

lemma scansOnly_update: "(\<And>s. ID (f s) = ID s) \<Longrightarrow> updateScan i f d = Inr d' \<Longrightarrow> scansOnly d d'"
  by (auto simp: updateScan_def Let_def split: if_splits intro!: scansOnly_rows)

lemma scansOnly_status: "scansOnly d (setStatus i st d)"
  by (auto simp: setStatus_def intro!: scansOnly_rows)

lemma table_invariantI:
  assumes "\<And>d d'. P d \<Longrightarrow> scansOnly d d' \<Longrightarrow> P d'"
    and "\<And>d a. P d \<Longrightarrow> P (createAudit a d)" and "\<And>d col date. P d \<Longrightarrow> P (bumpDaily col date d)"
  shows "table_invariant P"
  by unfold_locales
    (blast intro: assms scansOnly_create scansOnly_upsert scansOnly_update scansOnly_status)+

interpretation stats: table_invariant statsOK
proof (rule table_invariantI)
  show "statsOK d'" if "statsOK d" "scansOnly d d'" for d d'
    using that by (simp add: statsOK_def statRow_def scansOnly_def)
  show "statsOK (createAudit a d)" if "statsOK d" for d a
    using that by (simp add: statsOK_def statRow_def createAudit_def)
  show "statsOK (bumpDaily col date d)" if "statsOK d" for d col date
    using that by (simp add: statsOK_def statRow_bump bumpStat_OK)
qed

section \<open>The audit log and the rows only grow\<close>

interpretation trail: table_invariant "\<lambda>d. prefix log (audit d)" for log
  by (rule table_invariantI) (simp_all add: scansOnly_def createAudit_def bumpDaily_def)

interpretation rows: table_invariant "\<lambda>d. I \<subseteq> ID ` set (scans d)" for I
  by (rule table_invariantI) (auto simp: scansOnly_def createAudit_def bumpDaily_def)

end
