(* ===== verification/PipelineCorrect.thy ===== *)
theory PipelineCorrect
  imports Pipeline Invariants
begin

text \<open>
  Correctness of the pipeline: what one run of \<^verbatim>\<open>process\<close> does to the world on every path. The frame
  lemmas say which parts of the world a step leaves alone; the section on invariants proves once, in
  the locale of the tables, that a whole run keeps any invariant of the database.
\<close>

section \<open>Frames\<close>

lemma wWrite_frame:
  assumes "wWrite p fn w = (w', r)"
  shows "w_calls w' = w_calls w" "w_slots w' = w_slots w" "w_files w' = w_files w" "w_sent w' = w_sent w"
    "w_up w' = w_up w" "w_writes w' = Suc (w_writes w)"
  using assms by (auto simp: wWrite_def split: prod.splits)

lemma wWrite_fst_frame [frame]:
  "w_calls (fst (wWrite p fn w)) = w_calls w" "w_slots (fst (wWrite p fn w)) = w_slots w"
  "w_sent (fst (wWrite p fn w)) = w_sent w" "w_up (fst (wWrite p fn w)) = w_up w"
  by (simp_all add: wWrite_def split: prod.splits)

lemma retryLoop_frame:
  "retryLoop dn call answer ds err w = (w', r) \<Longrightarrow>
     w_db w' = w_db w \<and> w_slots w' = w_slots w \<and> w_up w' = w_up w \<and> w_writes w' = w_writes w"
  by (induction dn call answer ds err w rule: retryLoop.induct)
    (auto simp: Let_def split: option.splits sum.splits if_splits)

lemma takeIMAPAction_frame:
  assumes "takeIMAPAction p dn dec mb uid w = (w', r)"
  shows "w_db w' = w_db w" "w_slots w' = w_slots w" "w_up w' = w_up w" "w_writes w' = w_writes w"
  using assms by (auto simp: takeIMAPAction_def dest: retryLoop_frame split: if_splits)

lemma updateQuarantineUID_fst_frame [frame]:
  "w_calls (fst (updateQuarantineUID p rec a q m w)) = w_calls w"
  "w_slots (fst (updateQuarantineUID p rec a q m w)) = w_slots w"
  "w_up (fst (updateQuarantineUID p rec a q m w)) = w_up w"
  by (simp_all add: updateQuarantineUID_def wWrite_fst_frame)

lemma auditQuarantineDesync_frame [frame]:
  "w_calls (auditQuarantineDesync p rec wr) = w_calls (fst wr)"
  "w_slots (auditQuarantineDesync p rec wr) = w_slots (fst wr)"
  "w_up (auditQuarantineDesync p rec wr) = w_up (fst wr)"
  by (simp_all add: auditQuarantineDesync_def frame split: prod.splits sum.splits)

lemma step_frame [frame]:
  "w_calls (revertStatus p rec note w) = w_calls w" "w_slots (revertStatus p rec note w) = w_slots w"
  "w_up (revertStatus p rec note w) = w_up w"
  "w_calls (incrementDailyStat p v w) = w_calls w" "w_slots (incrementDailyStat p v w) = w_slots w"
  "w_up (incrementDailyStat p v w) = w_up w"
  "w_calls (announce p src vd rec w) = w_calls w" "w_slots (announce p src vd rec w) = w_slots w"
  "w_up (announce p src vd rec w) = w_up w"
  by (simp_all add: revertStatus_def incrementDailyStat_def announce_def scansTotal_def Let_def wWrite_fst_frame)

lemma scansTotal_frame [frame]:
  "w_db (scansTotal v w) = w_db w" "w_calls (scansTotal v w) = w_calls w" "w_slots (scansTotal v w) = w_slots w"
  "w_up (scansTotal v w) = w_up w" "w_writes (scansTotal v w) = w_writes w"
  by (simp_all add: scansTotal_def)

lemma storeWrite_frame:
  assumes "storeWrite p a e raw w = (path, w')"
  shows "w_db w' = w_db w" "w_calls w' = w_calls w" "w_slots w' = w_slots w" "w_up w' = w_up w" "w_writes w' = w_writes w"
  using assms by (auto simp: storeWrite_def split: prod.splits sum.splits)

lemma scannerHealth_frame [frame]:
  "w_db (scannerHealth p e w) = w_db w" "w_calls (scannerHealth p e w) = w_calls w"
  "w_slots (scannerHealth p e w) = w_slots w" "w_writes (scannerHealth p e w) = w_writes w"
  by (simp_all add: scannerHealth_def)

section \<open>Outcomes of a run\<close>

lemma map_Returns_eq [simp]: "map Returns xs = map Returns ys \<longleftrightarrow> xs = ys"
  by (rule inj_map_eq_map) (simp add: inj_def)

lemma gatherResults_Returns [simp]: "gatherResults (map Returns xs) = Some xs"
  by (induction xs) auto

lemma gatherResults_Some: "gatherResults rs = Some xs \<longleftrightarrow> rs = map Returns xs"
proof
  show "gatherResults rs = Some xs \<Longrightarrow> rs = map Returns xs"
    by (induction rs arbitrary: xs) (auto split: option.splits go.splits)
qed simp

lemma gather_Returns: "gather rs = Returns xs \<longleftrightarrow> rs = map Returns xs"
proof -
  have "gatherPanic (map Returns ys) = None" for ys :: "'a list" by (induction ys) auto
  then have "gather (map Returns xs) = Returns xs" by (simp add: gather_def)
  then show ?thesis by (auto simp: gather_def gatherResults_Some split: option.splits)
qed

lemma gather_runScanner: "gather (map (runScanner e) ss) \<noteq> Panics m"
proof -
  have "gatherPanic (map (runScanner e) ss) = None"
    by (induction ss) (auto simp: runScanner_def split: go.splits)
  then show ?thesis by (simp add: gather_def split: option.splits)
qed

lemma runScanner_Hangs: "runScanner e s = Hangs \<longleftrightarrow> snd s e = Hangs"
  by (auto simp: runScanner_def split: go.splits)

lemma gather_Hangs: "gather (map (runScanner e) ss) = Hangs \<longleftrightarrow> (\<exists>s \<in> set ss. snd s e = Hangs)"
proof -
  have "gatherPanic (map (runScanner e) ss) = None"
    by (induction ss) (auto simp: runScanner_def split: go.splits)
  moreover have "gatherResults (map (runScanner e) ss) = None \<longleftrightarrow> (\<exists>s \<in> set ss. snd s e = Hangs)"
    by (induction ss) (auto simp: runScanner_def split: go.splits option.splits)
  ultimately show ?thesis by (auto simp: gather_def split: option.splits)
qed

text \<open>The message as it enters the scanners: the allow-list entry is noted when there is one.\<close>

definition scannedEmail :: "pipeline \<Rightarrow> db \<Rightarrow> Email \<Rightarrow> Email" where
  "scannedEmail p d email =
     (case matchWhitelist (p_parseAddress p) (snd (p_listFails p)) d email of
        None \<Rightarrow> email | Some wl \<Rightarrow> email\<lparr>em_WhitelistEntry := wl_Entry wl\<rparr>)"

definition bypassed :: "pipeline \<Rightarrow> db \<Rightarrow> Email \<Rightarrow> Whitelist option" where
  "bypassed p d email =
     (case matchWhitelist (p_parseAddress p) (snd (p_listFails p)) d email of
        None \<Rightarrow> None | Some wl \<Rightarrow> if wl_BypassScan wl \<and> senderAuthAligned email then Some wl else None)"

definition blocked :: "pipeline \<Rightarrow> db \<Rightarrow> Email \<Rightarrow> Blocklist option" where
  "blocked p d email = matchBlocklist (p_parseAddress p) (fst (p_listFails p)) d email"

lemma processEmail_eq:
  "processEmail p email raw a uid mb src w =
     (case blocked p (w_db w) email of
        Some bl \<Rightarrow> Returns (blockPath p bl email raw a uid mb src w)
      | None \<Rightarrow> (case bypassed p (w_db w) email of
          Some wl \<Rightarrow> Returns (bypassPath p wl email raw a w)
        | None \<Rightarrow> scanPath p (scannedEmail p (w_db w) email) raw a uid mb src w))"
  by (simp add: processEmail_def blocked_def bypassed_def scannedEmail_def split: option.splits)

text \<open>The verdict of the fan-out, for the results as the scanners return them.\<close>

definition verdictOf :: "pipeline \<Rightarrow> Email \<Rightarrow> ScanResult list \<Rightarrow> VerdictDecision" where
  "verdictOf p e results = finalDecision e (Decide (p_thresholds p) e (p_arrive p results))"

lemma processEmail_cases:
  assumes "processEmail p email raw a uid mb src w = Returns w'"
  obtains (blocked) bl where "blocked p (w_db w) email = Some bl" "w' = blockPath p bl email raw a uid mb src w"
  | (bypassed) wl where "blocked p (w_db w) email = None" "bypassed p (w_db w) email = Some wl" "w' = bypassPath p wl email raw a w"
  | (scanned) e path w0 results where "blocked p (w_db w) email = None" "bypassed p (w_db w) email = None"
      "e = scannedEmail p (w_db w) email"
      "storeWrite p a e raw w = (path, w0)" "map (runScanner e) (p_scanners p) = map Returns results"
      "w' = recordVerdict p e path src uid mb (verdictOf p e results) (scannerHealth p e w0)"
proof (cases "blocked p (w_db w) email")
  case (Some bl)
  with assms show thesis by (intro blocked) (auto simp: processEmail_eq)
next
  case blk: None
  show thesis
  proof (cases "bypassed p (w_db w) email")
    case (Some wl)
    with blk assms show thesis by (intro bypassed) (auto simp: processEmail_eq)
  next
    case None
    let ?e = "scannedEmail p (w_db w) email"
    obtain path w0 where st: "storeWrite p a ?e raw w = (path, w0)" by fastforce
    from blk None assms have "scanPath p ?e raw a uid mb src w = Returns w'" by (simp add: processEmail_eq)
    then obtain results where "map (runScanner ?e) (p_scanners p) = map Returns results"
      "w' = recordVerdict p ?e path src uid mb (verdictOf p ?e results) (scannerHealth p ?e w0)"
      by (auto simp: scanPath_def st bind_go_Returns gather_Returns verdictOf_def)
    with blk None st show thesis by (intro scanned) auto
  qed
qed

abbreviation parsed :: "pipeline \<Rightarrow> string \<Rightarrow> string \<Rightarrow> uint32 \<Rightarrow> string \<Rightarrow> Email result go" where
  "parsed p a raw uid mb \<equiv>
     Parse (p_lib p) raw a uid mb (parseLimit (p_MaxEmailSizeMB p)) (p_TrustedAuthservID p)"

abbreviation takeSlot :: "world \<Rightarrow> world" where
  "takeSlot w \<equiv> w\<lparr>w_slots := Suc (w_slots w)\<rparr>"

lemma release_frame [frame]:
  "w_db (release w) = w_db w" "w_calls (release w) = w_calls w" "w_up (release w) = w_up w"
  "w_writes (release w) = w_writes w"
  by (simp_all add: release_def)

lemma release_takeSlot [simp]: "release (takeSlot w) = w"
  by (simp add: release_def)

lemma processEmail_no_panic: "processEmail p e raw a uid mb src w \<noteq> Panics m"
proof -
  have "bind_go (gather (map (runScanner e) ss)) (\<lambda>x. Returns (f x)) \<noteq> Panics m" for e ss and f :: "ScanResult list \<Rightarrow> world"
    using gather_runScanner by (cases "gather (map (runScanner e) ss)") auto
  then show ?thesis by (auto simp: processEmail_eq scanPath_def Let_def split: option.splits prod.splits)
qed

lemma process_cases:
  assumes "process p a raw uid mb src w = Returns w'"
  obtains (cancelled) "\<not> p_slot p" "w' = w"
  | (panic) m where "p_slot p" "parsed p a raw uid mb = Panics m"
      "w' = failClosed p (p_freshDone p) (''process panic: '' @ m) ''panic-recovery'' a uid mb src w"
  | (unparseable) err where "p_slot p" "parsed p a raw uid mb = Returns (Inl err)"
      "w' = release (failClosed p (p_ctxDone p) (''unparseable message: '' @ err) ''parse-failure'' a uid mb src (takeSlot w))"
  | (email) e w1 where "p_slot p" "parsed p a raw uid mb = Returns (Inr e)"
      "processEmail p e raw a uid mb src (takeSlot w) = Returns w1" "w' = release w1"
proof (cases "p_slot p")
  case False
  with assms show thesis by (intro cancelled) (auto simp: process_def split: if_splits)
next
  case slot: True
  with assms have awake: "\<not> p_starved p" by (auto simp: process_def)
  have came: "answered p v v' = Returns w' \<Longrightarrow> w' = v'" for v v'
    by (simp add: answered_def split: if_splits)
  show thesis
  proof (cases "parsed p a raw uid mb")
    case (Returns r)
    show thesis
    proof (cases r)
      case (Inl err)
      with slot awake Returns assms show thesis by (intro unparseable) (auto simp: process_def Let_def dest: came)
    next
      case (Inr e)
      with slot awake Returns assms show thesis
        by (cases "processEmail p e raw a uid mb src (takeSlot w)")
          (auto simp: process_def processEmail_no_panic dest: came intro!: email)
    qed
  next
    case (Panics m)
    with slot awake assms show thesis by (intro panic) (auto simp: process_def)
  next
    case Hangs
    with slot awake assms show thesis by (simp add: process_def)
  qed
qed

lemma answered_all: "p_stalls p = (\<lambda>_. False) \<Longrightarrow> answered p w w' = Returns w'"
  by (simp add: answered_def list_ex_iff)

section \<open>Slots\<close>

lemma failClosed_slots: "w_slots (failClosed p dn reason label a uid mb src w) = w_slots w"
  by (auto simp: failClosed_def frame dest!: wWrite_frame(2) takeIMAPAction_frame(2) split: prod.splits sum.splits)

lemma blockPath_slots: "w_slots (blockPath p bl e raw a uid mb src w) = w_slots w"
  by (auto simp: blockPath_def Let_def frame dest!: wWrite_frame(2) takeIMAPAction_frame(2) storeWrite_frame(3)
      split: prod.splits sum.splits)

lemma bypassPath_slots: "w_slots (bypassPath p wl e raw a w) = w_slots w"
  by (auto simp: bypassPath_def Let_def frame dest!: storeWrite_frame(3) split: prod.splits if_splits)

lemma settle_slots: "w_slots (settle p a uid mb vd rec w) = w_slots w"
  by (auto simp: settle_def frame dest!: takeIMAPAction_frame(2) split: prod.splits sum.splits)

lemma recordVerdict_slots: "w_slots (recordVerdict p e path src uid mb vd w) = w_slots w"
  by (auto simp: recordVerdict_def Let_def frame settle_slots dest!: wWrite_frame(2)
      split: prod.splits sum.splits if_splits)

lemma processEmail_slots:
  assumes "processEmail p e raw a uid mb src w = Returns w'"
  shows "w_slots w' = w_slots w"
  using assms by (cases rule: processEmail_cases)
    (auto simp: blockPath_slots bypassPath_slots recordVerdict_slots frame dest: storeWrite_frame(3))

section \<open>Invariants of the database\<close>

context table_invariant
begin

lemma inv_wWrite:
  assumes "inv (w_db w)" and "\<And>d' x. fn (w_db w) = Inr (d', x) \<Longrightarrow> inv d'" and "wWrite p fn w = (w', r)"
  shows "inv (w_db w')"
  using assms inv_dbWrite [OF assms(1,2)] by (auto simp: wWrite_def split: prod.splits)

lemma inv_wWrite_fst:
  assumes "inv (w_db w)" and "\<And>d' x. fn (w_db w) = Inr (d', x) \<Longrightarrow> inv d'"
  shows "inv (w_db (fst (wWrite p fn w)))"
proof -
  obtain w' r where "wWrite p fn w = (w', r)" by fastforce
  with inv_wWrite [OF assms this] show ?thesis by simp
qed

lemma inv_wCreate: "wWrite p (createScan rec) w = (w', r) \<Longrightarrow> inv (w_db w) \<Longrightarrow> inv (w_db w')"
  by (rule inv_wWrite) (auto intro: inv_create)

lemma inv_wCreate_fst: "inv (w_db w) \<Longrightarrow> inv (w_db (fst (wWrite p (createScan rec) w)))"
  by (rule inv_wWrite_fst) (auto intro: inv_create)

lemma inv_wUpsert: "wWrite p (upsertScan rec) w = (w', r) \<Longrightarrow> inv (w_db w) \<Longrightarrow> inv (w_db w')"
  by (rule inv_wWrite) (auto intro: inv_upsert)

lemma inv_stat_step: "inv (w_db w) \<Longrightarrow> inv (w_db (incrementDailyStat p v w))"
  by (auto simp: incrementDailyStat_def intro!: inv_wWrite_fst inv_stat)

lemma inv_revert: "inv (w_db w) \<Longrightarrow> inv (w_db (revertStatus p rec note w))"
  by (auto simp: revertStatus_def intro!: inv_wWrite_fst inv_audit inv_status)

lemma inv_announce: "inv (w_db w) \<Longrightarrow> inv (w_db (announce p src vd rec w))"
  by (auto simp: announce_def Let_def frame intro!: inv_stat_step inv_wWrite_fst inv_audit)

lemma quarantineColumns_ID: "ID (quarantineColumns a q m s) = ID s"
  by (simp add: quarantineColumns_def Let_def)

lemma inv_quarantineUID:
  assumes "inv (w_db w)"
  shows "inv (w_db (fst (updateQuarantineUID p rec a q m w)))"
  using assms inv_update [OF assms, where f = "quarantineColumns a q m", OF quarantineColumns_ID]
  by (auto simp: updateQuarantineUID_def intro!: inv_wWrite_fst split: sum.splits)

lemma inv_desync: "inv (w_db (fst wr)) \<Longrightarrow> inv (w_db (auditQuarantineDesync p rec wr))"
  by (auto simp: auditQuarantineDesync_def intro!: inv_wWrite_fst inv_audit split: prod.splits sum.splits)

lemma inv_settle: "inv (w_db w) \<Longrightarrow> inv (w_db (settle p a uid mb vd rec w))"
  by (auto simp: settle_def intro!: inv_revert inv_desync inv_quarantineUID
      dest!: takeIMAPAction_frame(1) split: prod.splits sum.splits)

lemma inv_failClosed: "inv (w_db w) \<Longrightarrow> inv (w_db (failClosed p dn reason label a uid mb src w))"
  by (auto simp: failClosed_def frame intro!: inv_revert inv_desync inv_quarantineUID
      dest!: takeIMAPAction_frame(1) inv_wCreate split: prod.splits sum.splits)

lemma inv_blockPath: "inv (w_db w) \<Longrightarrow> inv (w_db (blockPath p bl e raw a uid mb src w))"
  by (auto simp: blockPath_def Let_def frame simp del: append.simps intro!: inv_stat_step inv_revert inv_quarantineUID
      dest!: takeIMAPAction_frame(1) storeWrite_frame(1) inv_wCreate split: prod.splits sum.splits)

lemma inv_bypassPath: "inv (w_db w) \<Longrightarrow> inv (w_db (bypassPath p wl e raw a w))"
  by (auto simp: bypassPath_def Let_def frame simp del: append.simps intro!: inv_stat_step inv_wCreate_fst
      dest!: storeWrite_frame(1) split: prod.splits sum.splits if_splits)

lemma inv_recordVerdict: "inv (w_db w) \<Longrightarrow> inv (w_db (recordVerdict p e path src uid mb vd w))"
  by (auto simp: recordVerdict_def Let_def intro!: inv_announce inv_settle
      dest!: inv_wUpsert split: prod.splits sum.splits if_splits)

lemma inv_processEmail:
  assumes "processEmail p e raw a uid mb src w = Returns w'" and "inv (w_db w)"
  shows "inv (w_db w')"
  using assms by (cases rule: processEmail_cases)
    (auto simp: inv_blockPath inv_bypassPath frame intro!: inv_recordVerdict dest!: storeWrite_frame(1))

lemma inv_process:
  assumes "process p a raw uid mb src w = Returns w'" and "inv (w_db w)"
  shows "inv (w_db w')"
  using assms by (cases rule: process_cases) (auto simp: frame intro: inv_failClosed inv_processEmail)

end

section \<open>IMAP attempts\<close>

definition callOf :: "string \<Rightarrow> string \<Rightarrow> uint32 \<Rightarrow> imap_call option" where
  "callOf decision mailbox uid =
     (if decision = ''delete'' then Some (DeleteMessage mailbox uid)
      else if decision = ''quarantine'' then Some (MoveToQuarantine mailbox uid)
      else if decision = ''flag'' then Some (FlagMessage mailbox uid) else None)"

definition answerOf :: "pipeline \<Rightarrow> imap_call \<Rightarrow> nat \<Rightarrow> (uint32 \<times> string) result" where
  "answerOf p c n =
     (case c of MoveToQuarantine _ _ \<Rightarrow> p_move p n | DeleteMessage _ _ \<Rightarrow> noUID (p_delete p n)
      | FlagMessage _ _ \<Rightarrow> noUID (p_flag p n))"

lemma answerOf_simps:
  "answerOf p (MoveToQuarantine mb uid) = p_move p" "answerOf p (DeleteMessage mb uid) = noUID \<circ> p_delete p"
  "answerOf p (FlagMessage mb uid) = noUID \<circ> p_flag p"
  by (simp_all add: answerOf_def fun_eq_iff)

lemma imapDelays_facts: "length imapDelays = 4" "imapDelays \<noteq> []" "\<forall>d \<in> set (tl imapDelays). 0 < d" "hd imapDelays \<le> 0"
  by (simp_all add: imapDelays_def)

lemma takeIMAPAction_eq:
  "takeIMAPAction p dn dec mb uid w =
     (case callOf dec mb uid of None \<Rightarrow> (w, Inr (0, []))
      | Some c \<Rightarrow> retryLoop dn c (answerOf p c) imapDelays [] w)"
  by (simp add: takeIMAPAction_def callOf_def answerOf_simps)

lemma retryLoop_attempts:
  assumes "retryLoop dn c answer ds err w = (w', r)" and "ds \<noteq> []" and "\<forall>d \<in> set (tl ds). 0 < d" and "hd ds \<le> 0 \<or> dn (length (w_calls w)) = None"
  shows "\<exists>n. 1 \<le> n \<and> n \<le> length ds \<and> w_calls w' = w_calls w @ replicate n c
     \<and> (\<forall>i < n - 1. \<not> is_ok (answer (length (w_calls w) + i)))
     \<and> (\<forall>x. r = Inr x \<longleftrightarrow> answer (length (w_calls w) + (n - 1)) = Inr x)"
  using assms
proof (induction dn c answer ds err w arbitrary: w' r rule: retryLoop.induct)
  case (1 dn c answer err w)
  then show ?case by simp
next
  case (2 dn c answer d ds err w)
  let ?k = "length (w_calls w)"
  let ?w1 = "w\<lparr>w_calls := w_calls w @ [c]\<rparr>"
  have go: "(if d > 0 then dn ?k else None) = None" using 2(5) by auto
  show ?case
  proof (cases "answer ?k")
    case (Inr x)
    then show ?thesis using 2(2) go by (intro exI [of _ 1]) auto
  next
    case (Inl e)
    then have rest: "retryLoop dn c answer ds e ?w1 = (w', r)" using 2(2) go by simp
    show ?thesis
    proof (cases "ds = [] \<or> dn (Suc ?k) \<noteq> None")
      case True
      then have "w' = ?w1 \<and> (\<exists>e. r = Inl e)"
        using rest 2(4) by (cases ds) (auto split: option.splits)
      with Inl show ?thesis by (intro exI [of _ 1]) auto
    next
      case False
      then have "\<exists>n. 1 \<le> n \<and> n \<le> length ds \<and> w_calls w' = w_calls ?w1 @ replicate n c
         \<and> (\<forall>i < n - 1. \<not> is_ok (answer (length (w_calls ?w1) + i)))
         \<and> (\<forall>x. r = Inr x \<longleftrightarrow> answer (length (w_calls ?w1) + (n - 1)) = Inr x)"
        using rest 2(4) go Inl by (intro 2(1)) (auto dest: list.set_sel(2))
      then obtain n where n: "1 \<le> n" "n \<le> length ds" "w_calls w' = w_calls ?w1 @ replicate n c"
        "\<forall>i < n - 1. \<not> is_ok (answer (Suc ?k + i))" "\<forall>x. r = Inr x \<longleftrightarrow> answer (Suc ?k + (n - 1)) = Inr x"
        by auto
      have "\<not> is_ok (answer (?k + i))" if "i < n" for i
        using that n(4) Inl by (cases i) auto
      with n show ?thesis by (intro exI [of _ "Suc n"]) auto
    qed
  qed
qed

text \<open>
  An IMAP action is tried at most four times and never again after it succeeded: every call of a
  run is the call of the decision, all but the last failed, and the action succeeds exactly when the
  last call did. A decision without an IMAP action makes no call and succeeds.
\<close>

theorem imap_retry_discipline:
  assumes "takeIMAPAction p dn dec mb uid w = (w', r)"
  shows "case callOf dec mb uid of
      None \<Rightarrow> w' = w \<and> r = Inr (0, [])
    | Some c \<Rightarrow> (\<exists>n. 1 \<le> n \<and> n \<le> 4 \<and> w_calls w' = w_calls w @ replicate n c
        \<and> (\<forall>i < n - 1. \<not> is_ok (answerOf p c (length (w_calls w) + i)))
        \<and> (\<forall>x. r = Inr x \<longleftrightarrow> answerOf p c (length (w_calls w) + (n - 1)) = Inr x))"
proof (cases "callOf dec mb uid")
  case None
  with assms show ?thesis by (simp add: takeIMAPAction_eq)
next
  case (Some c)
  with assms have "retryLoop dn c (answerOf p c) imapDelays [] w = (w', r)"
    by (simp add: takeIMAPAction_eq)
  from retryLoop_attempts [OF this imapDelays_facts(2,3)] Some show ?thesis
    by (simp add: imapDelays_facts)
qed

section \<open>Database contents after a step\<close>

lemma wWrite_scans_frame:
  assumes "\<And>d d' x. fn d = Inr (d', x) \<Longrightarrow> scans d' = scans d"
  shows "scans (w_db (fst (wWrite p fn w))) = scans (w_db w)"
  by (cases rule: dbWrite_cases [of "p_faults p" "w_writes w" fn "w_db w"])
    (auto simp: wWrite_def assms)

lemma incrementDailyStat_scans [frame]: "scans (w_db (incrementDailyStat p v w)) = scans (w_db w)"
  by (auto simp: incrementDailyStat_def bumpDaily_def intro!: wWrite_scans_frame)

lemma announce_scans [frame]: "scans (w_db (announce p src vd rec w)) = scans (w_db w)"
proof -
  have "scans (w_db (fst (wWrite p (\<lambda>d. Inr (createAudit a d, ())) v))) = scans (w_db v)" for a and v :: world
    by (rule wWrite_scans_frame) (auto simp: createAudit_def)
  then show ?thesis by (simp add: announce_def Let_def incrementDailyStat_scans scansTotal_frame)
qed

lemma wWrite_refused:
  "p_faults p (w_writes w) = Some e \<Longrightarrow> wWrite p fn w = (w\<lparr>w_writes := Suc (w_writes w)\<rparr>, Inl e)"
  by (simp add: wWrite_def dbWrite_def)

lemma wWrite_ok:
  "p_faults p (w_writes w) = None \<Longrightarrow>
     wWrite p fn w = (case fn (w_db w) of
        Inl e \<Rightarrow> (w\<lparr>w_writes := Suc (w_writes w)\<rparr>, Inl e)
      | Inr (d, x) \<Rightarrow> (w\<lparr>w_db := d, w_writes := Suc (w_writes w)\<rparr>, Inr x))"
  by (auto simp: wWrite_def dbWrite_def split: sum.splits)

lemma recordVerdict_shape:
  "\<exists>w0 path'. w_db w0 = w_db w \<and> w_calls w0 = w_calls w \<and> w_up w0 = w_up w \<and> w_writes w0 = w_writes w \<and>
     recordVerdict p e path src uid mb vd w =
       (case wWrite p (upsertScan ((buildScanRecord (p_now p) e vd path')\<lparr>Source := src,
               Status := (if src = SourceBackfill then StatusInbox else decisionStatus (vd_Decision vd))\<rparr>)) w0 of
          (w1, Inl _) \<Rightarrow> w1
        | (w1, Inr rec) \<Rightarrow> announce p src vd rec
            (if src = SourceBackfill then w1 else settle p (em_AccountName e) uid mb vd rec w1))"
proof -
  have status: "s\<lparr>Status := Status s\<rparr> = s" for s :: Scan by simp
  have same: "(buildScanRecord (p_now p) e vd path')\<lparr>Source := src, Status := decisionStatus (vd_Decision vd)\<rparr>
      = (buildScanRecord (p_now p) e vd path')\<lparr>Source := src\<rparr>" for path'
    using status [of "(buildScanRecord (p_now p) e vd path')\<lparr>Source := src\<rparr>"] by simp
  let ?drop = "\<not> p_EMLCleanRetain p \<and> vd_Verdict vd = VerdictClean \<and> path \<noteq> []"
  obtain r fs where del: "store_Delete (p_fsFaults p) (p_dataDir p) path (w_files w) = (r, fs)" by fastforce
  let ?path' = "if ?drop \<and> is_ok r then [] else path"
  let ?w0 = "if ?drop then w\<lparr>w_files := fs\<rparr> else w"
  show ?thesis
    by (intro exI [of _ ?w0] exI [of _ ?path'])
      (cases r; simp add: recordVerdict_def Let_def del same)
qed

definition verdictRow :: "pipeline \<Rightarrow> Email \<Rightarrow> VerdictDecision \<Rightarrow> string \<Rightarrow> string \<Rightarrow> Scan" where
  "verdictRow p e vd path src =
     (buildScanRecord (p_now p) e vd path)\<lparr>Source := src,
        Status := (if src = SourceBackfill then StatusInbox else decisionStatus (vd_Decision vd))\<rparr>"

lemma recordVerdict_cases [case_names refused stored]:
  obtains (refused) w0 w1 path' err where "w_db w0 = w_db w" "w_calls w0 = w_calls w" "w_up w0 = w_up w" "w_writes w0 = w_writes w"
      "wWrite p (upsertScan (verdictRow p e vd path' src)) w0 = (w1, Inl err)"
      "recordVerdict p e path src uid mb vd w = w1"
  | (stored) w0 w1 path' rec where "w_db w0 = w_db w" "w_calls w0 = w_calls w" "w_up w0 = w_up w" "w_writes w0 = w_writes w"
      "wWrite p (upsertScan (verdictRow p e vd path' src)) w0 = (w1, Inr rec)"
      "recordVerdict p e path src uid mb vd w =
         announce p src vd rec (if src = SourceBackfill then w1 else settle p (em_AccountName e) uid mb vd rec w1)"
proof -
  obtain w0 path' where f: "w_db w0 = w_db w" "w_calls w0 = w_calls w" "w_up w0 = w_up w" "w_writes w0 = w_writes w"
    and eq: "recordVerdict p e path src uid mb vd w =
       (case wWrite p (upsertScan (verdictRow p e vd path' src)) w0 of
          (w1, Inl _) \<Rightarrow> w1
        | (w1, Inr rec) \<Rightarrow> announce p src vd rec
            (if src = SourceBackfill then w1 else settle p (em_AccountName e) uid mb vd rec w1))"
    unfolding verdictRow_def using recordVerdict_shape [of w p e path src uid mb vd] by blast
  obtain w1 r where wr: "wWrite p (upsertScan (verdictRow p e vd path' src)) w0 = (w1, r)" by fastforce
  show thesis
  proof (cases r)
    case (Inl err)
    with f eq wr show thesis by (intro refused) auto
  next
    case (Inr rec)
    with f eq wr show thesis by (intro stored) auto
  qed
qed

section \<open>Whole runs\<close>

text \<open>
  C2. A run of the pipeline keeps the database sound, whatever transactions are refused and
  whatever the mail server answers: keys stay distinct, the daily totals stay the sum of
  their columns, the audit log only grows and no scan row disappears.
\<close>

theorem process_keeps_database:
  assumes "process p a raw uid mb src w = Returns w'" and "dbOK (w_db w)" and "statsOK (w_db w)"
  shows "dbOK (w_db w') \<and> statsOK (w_db w') \<and> prefix (audit (w_db w)) (audit (w_db w'))
    \<and> ID ` set (scans (w_db w)) \<subseteq> ID ` set (scans (w_db w'))"
  using wf.inv_process [OF assms(1,2)] stats.inv_process [OF assms(1,3)]
    trail.inv_process [OF assms(1) prefix_order.refl] rows.inv_process [OF assms(1) subset_refl]
  by simp

text \<open>A run that returns has given its concurrency slot back, on every path: cancelled, panicking, unparseable, blocked, bypassed or scanned.\<close>

theorem process_releases_slot:
  assumes "process p a raw uid mb src w = Returns w'"
  shows "w_slots w' = w_slots w"
  using assms
  by (cases rule: process_cases) (auto simp: failClosed_slots release_def dest: processEmail_slots)

lemma processEmail_Hangs:
  "processEmail p e raw a uid mb src w = Hangs \<longleftrightarrow> blocked p (w_db w) e = None \<and> bypassed p (w_db w) e = None
     \<and> (\<exists>s. s \<in> set (p_scanners p) \<and> snd s (scannedEmail p (w_db w) e) = Hangs)"
proof -
  have bind: "bind_go m (\<lambda>x. Returns (f x)) = Hangs \<longleftrightarrow> m = Hangs" for m :: "ScanResult list go" and f :: "ScanResult list \<Rightarrow> world"
    by (cases m) auto
  obtain path w0 where st: "storeWrite p a (scannedEmail p (w_db w) e) raw w = (path, w0)" by fastforce
  show ?thesis by (simp add: processEmail_eq scanPath_def st bind gather_Hangs Bex_def split: option.splits)
qed

section \<open>When no action is taken\<close>

definition inboxOnly :: "Scan set \<Rightarrow> db \<Rightarrow> bool" where
  "inboxOnly S d \<longleftrightarrow> (\<forall>s \<in> set (scans d). s \<in> S \<or> Status s = StatusInbox)"

lemma inboxOnly_create:
  "createScan rec d = Inr (d', rec') \<Longrightarrow> inboxOnly S d \<Longrightarrow> Status rec = StatusInbox \<Longrightarrow> inboxOnly S d'"
  by (auto simp: createScan_def inboxOnly_def Let_def split: if_splits)

lemma inboxOnly_upsert:
  "upsertScan rec d = Inr (d', rec') \<Longrightarrow> inboxOnly S d \<Longrightarrow> Status rec = StatusInbox \<Longrightarrow> inboxOnly S d'"
  by (auto simp: upsertScan_def inboxOnly_def conflictUpdate_def split: option.splits dest: inboxOnly_create [unfolded inboxOnly_def])

lemma inboxOnly_wWrite:
  assumes "wWrite p fn w = (w', r)" "inboxOnly S (w_db w)" "\<And>d' x. fn (w_db w) = Inr (d', x) \<Longrightarrow> inboxOnly S d'"
  shows "inboxOnly S (w_db w')"
  using assms by (cases rule: dbWrite_cases [of "p_faults p" "w_writes w" fn "w_db w"]) (auto simp: wWrite_def)

lemma inboxOnly_wCreate:
  "wWrite p (createScan rec) w = (w', r) \<Longrightarrow> inboxOnly S (w_db w) \<Longrightarrow> Status rec = StatusInbox \<Longrightarrow> inboxOnly S (w_db w')"
  by (rule inboxOnly_wWrite) (auto intro: inboxOnly_create)

lemma inboxOnly_scans: "scans d' = scans d \<Longrightarrow> inboxOnly S d' = inboxOnly S d"
  by (simp add: inboxOnly_def)

lemma failClosed_backfill:
  assumes "inboxOnly S (w_db w)"
  shows "w_calls (failClosed p dn reason label a uid mb SourceBackfill w) = w_calls w
    \<and> inboxOnly S (w_db (failClosed p dn reason label a uid mb SourceBackfill w))"
proof -
  let ?rec = "failureRecord p a uid mb SourceBackfill reason"
  obtain w1 r where wr: "wWrite p (createScan ?rec) (scansTotal VerdictSuspicious w) = (w1, r)" by fastforce
  have "inboxOnly S (w_db w1)"
    by (rule inboxOnly_wCreate [OF wr]) (simp_all add: assms scansTotal_frame failureRecord_def)
  then show ?thesis using wWrite_frame(1) [OF wr]
    by (cases r) (simp_all add: failClosed_def wr scansTotal_frame)
qed

lemma blockPath_backfill:
  assumes "inboxOnly S (w_db w)"
  shows "w_calls (blockPath p bl e raw a uid mb SourceBackfill w) = w_calls w
    \<and> inboxOnly S (w_db (blockPath p bl e raw a uid mb SourceBackfill w))"
proof -
  obtain path w0 where st: "storeWrite p a e raw w = (path, w0)" by fastforce
  note f = storeWrite_frame [OF st]
  let ?rec = "(buildScanRecord (p_now p) e (decided ''quarantine'' ''SPAM'' (''blocklisted: '' @ bl_Entry bl) 1 []) path)
     \<lparr>Source := SourceBackfill, Status := StatusInbox\<rparr>"
  obtain w1 r where wr: "wWrite p (createScan ?rec) w0 = (w1, r)" by fastforce
  have "inboxOnly S (w_db w1)"
    by (rule inboxOnly_wCreate [OF wr]) (simp_all add: assms f)
  then show ?thesis using wWrite_frame(1) [OF wr] f
    by (cases r) (simp_all add: blockPath_def st wr frame inboxOnly_def del: append.simps)
qed

lemma bypassPath_calls: "w_calls (bypassPath p wl e raw a w) = w_calls w"
  by (auto simp: bypassPath_def Let_def frame dest!: storeWrite_frame(2) split: prod.splits)

lemma bypassPath_inbox:
  assumes "inboxOnly S (w_db w)"
  shows "inboxOnly S (w_db (bypassPath p wl e raw a w))"
proof -
  obtain path w0 where st: "storeWrite p a e raw w = (path, w0)" by fastforce
  have "inboxOnly S (w_db (fst (wWrite p (createScan rec) v)))"
    if "w_db v = w_db w0" "Status rec = StatusInbox" for rec and v :: world
  proof -
    obtain w1 r where wr: "wWrite p (createScan rec) v = (w1, r)" by fastforce
    show ?thesis using inboxOnly_wCreate [OF wr] that assms storeWrite_frame(1) [OF st] wr by simp
  qed
  then show ?thesis
    by (simp add: bypassPath_def st Let_def inboxOnly_scans [OF incrementDailyStat_scans] scansTotal_frame
        decisionStatus_def del: append.simps)
qed

lemma recordVerdict_backfill:
  assumes "inboxOnly S (w_db w)"
  shows "w_calls (recordVerdict p e path SourceBackfill uid mb vd w) = w_calls w
    \<and> inboxOnly S (w_db (recordVerdict p e path SourceBackfill uid mb vd w))"
proof -
  have stored: "inboxOnly S (w_db w1)"
    if "wWrite p (upsertScan (verdictRow p e vd path' SourceBackfill)) w0 = (w1, r)" "w_db w0 = w_db w" for w0 w1 path' r
    by (rule inboxOnly_wWrite [OF that(1)]) (auto simp: that(2) assms verdictRow_def intro: inboxOnly_upsert)
  show ?thesis
    by (cases rule: recordVerdict_cases [of w p e vd SourceBackfill path uid mb])
      (auto simp: frame inboxOnly_scans [OF announce_scans] stored dest: wWrite_frame(1))
qed

text \<open>
  Backfill is hands-off: it makes no IMAP call at all, and every row it writes or rewrites says the
  message is in the inbox.
\<close>

theorem backfill_hands_off:
  assumes "ProcessBackfill p a raw uid mb w = Returns w'"
  shows "w_calls w' = w_calls w
    \<and> (\<forall>s \<in> set (scans (w_db w')). s \<in> set (scans (w_db w)) \<or> Status s = StatusInbox)"
proof -
  define S where "S = set (scans (w_db w))"
  have start: "inboxOnly S (w_db w)" "inboxOnly S (w_db (takeSlot w))" by (simp_all add: inboxOnly_def S_def)
  have "w_calls w' = w_calls w \<and> inboxOnly S (w_db w')"
    using assms unfolding ProcessBackfill_def
  proof (cases rule: process_cases)
    case (email e w1)
    from email(3) show ?thesis
    proof (cases rule: processEmail_cases)
      case (scanned e' path w0 results)
      have "inboxOnly S (w_db (scannerHealth p e' w0))" "w_calls (scannerHealth p e' w0) = w_calls w"
        using start storeWrite_frame [OF scanned(4)] by (simp_all add: frame)
      with recordVerdict_backfill [OF this(1)] show ?thesis by (simp add: email(4) scanned(6) frame)
    next
      case (bypassed wl)
      with start email(4) show ?thesis by (simp add: frame bypassPath_calls bypassPath_inbox)
    qed (use start email(4) blockPath_backfill [OF start(2)] in \<open>simp add: frame\<close>)
  qed (use start failClosed_backfill [OF start(1)] failClosed_backfill [OF start(2)] in \<open>simp_all add: frame\<close>)
  then show ?thesis by (simp add: inboxOnly_def S_def)
qed

section \<open>Runs that do not come back\<close>

text \<open>The same pipeline beside a mail server that answers every call, with slots that are freed.\<close>

definition calm :: "pipeline \<Rightarrow> pipeline" where
  "calm p = p\<lparr>p_starved := False, p_stalls := (\<lambda>_. False)\<rparr>"

lemma calm_fields [simp]:
  "p_faults (calm p) = p_faults p" "p_move (calm p) = p_move p" "p_delete (calm p) = p_delete p" "p_flag (calm p) = p_flag p"
  "p_ctxDone (calm p) = p_ctxDone p" "p_freshDone (calm p) = p_freshDone p" "p_lib (calm p) = p_lib p" "p_slot (calm p) = p_slot p"
  "p_starved (calm p) = False" "p_stalls (calm p) = (\<lambda>_. False)" "p_MaxEmailSizeMB (calm p) = p_MaxEmailSizeMB p"
  "p_TrustedAuthservID (calm p) = p_TrustedAuthservID p" "p_parseAddress (calm p) = p_parseAddress p"
  "p_listFails (calm p) = p_listFails p" "p_scanners (calm p) = p_scanners p" "p_thresholds (calm p) = p_thresholds p"
  "p_arrive (calm p) = p_arrive p" "p_now (calm p) = p_now p" "p_date (calm p) = p_date p" "p_notifier (calm p) = p_notifier p"
  "p_hub (calm p) = p_hub p" "p_EMLCleanRetain (calm p) = p_EMLCleanRetain p" "p_fsFaults (calm p) = p_fsFaults p"
  "p_dataDir (calm p) = p_dataDir p" "p_today (calm p) = p_today p"
  by (simp_all add: calm_def)

lemma calm_writes [simp]: "wWrite (calm p) fn w = wWrite p fn w"
  by (simp add: wWrite_def)

lemma calm_steps [simp]:
  "takeIMAPAction (calm p) dn dec mb uid w = takeIMAPAction p dn dec mb uid w"
  "updateQuarantineUID (calm p) rec a q m w = updateQuarantineUID p rec a q m w"
  "auditQuarantineDesync (calm p) rec wr = auditQuarantineDesync p rec wr"
  "revertStatus (calm p) rec note w = revertStatus p rec note w"
  "incrementDailyStat (calm p) v w = incrementDailyStat p v w"
  "storeWrite (calm p) a e raw w = storeWrite p a e raw w"
  "scannerHealth (calm p) e w = scannerHealth p e w"
  by (simp_all add: takeIMAPAction_def updateQuarantineUID_def auditQuarantineDesync_def revertStatus_def
      incrementDailyStat_def storeWrite_def scannerHealth_def)

lemma calm_settle [simp]:
  "settle (calm p) a uid mb vd rec w = settle p a uid mb vd rec w"
  "announce (calm p) src vd rec w = announce p src vd rec w"
  unfolding settle_def announce_def notifications_def calm_steps calm_fields calm_writes by simp_all

lemma calm_paths [simp]:
  "failClosed (calm p) dn reason label a uid mb src w = failClosed p dn reason label a uid mb src w"
  "blockPath (calm p) bl e raw a uid mb src w = blockPath p bl e raw a uid mb src w"
  "bypassPath (calm p) wl e raw a w = bypassPath p wl e raw a w"
  "recordVerdict (calm p) e path src uid mb vd w = recordVerdict p e path src uid mb vd w"
  unfolding failClosed_def failureRecord_def blockPath_def bypassPath_def recordVerdict_def
    calm_settle calm_steps calm_fields calm_writes by (rule refl)+

lemma calm_processEmail [simp]: "processEmail (calm p) e raw a uid mb src w = processEmail p e raw a uid mb src w"
  unfolding processEmail_def scanPath_def calm_paths calm_steps calm_fields by (rule refl)

text \<open>A run makes at most the four attempts of one action.\<close>

definition fewCalls :: "world \<Rightarrow> world \<Rightarrow> bool" where
  "fewCalls w w' \<longleftrightarrow> length (w_calls w') \<le> length (w_calls w) + 4"

lemma fewCalls_action: "takeIMAPAction p dn dec mb uid w = (w', r) \<Longrightarrow> fewCalls w w'"
proof (cases "callOf dec mb uid")
  case (Some c)
  assume "takeIMAPAction p dn dec mb uid w = (w', r)"
  with Some have "retryLoop dn c (answerOf p c) imapDelays [] w = (w', r)" by (simp add: takeIMAPAction_eq)
  from retryLoop_attempts [OF this imapDelays_facts(2,3)] show ?thesis
    by (auto simp: imapDelays_facts fewCalls_def)
qed (simp add: takeIMAPAction_eq fewCalls_def)

lemma fewCalls_settle: "fewCalls w (settle p a uid mb vd rec w)"
proof -
  obtain w2 r where t: "takeIMAPAction p (p_ctxDone p) (vd_Decision vd) mb uid w = (w2, r)" by fastforce
  from fewCalls_action [OF t] show ?thesis
    by (simp add: settle_def t fewCalls_def frame split: sum.splits prod.splits)
qed

lemma fewCalls_failClosed: "fewCalls w (failClosed p dn reason label a uid mb src w)"
proof -
  obtain w1 r where wr: "wWrite p (createScan (failureRecord p a uid mb src reason)) (scansTotal VerdictSuspicious w) = (w1, r)"
    by fastforce
  obtain w2 q where t: "takeIMAPAction p dn ''quarantine'' mb uid w1 = (w2, q)" by fastforce
  from fewCalls_action [OF t] wWrite_frame(1) [OF wr] show ?thesis
    by (simp add: failClosed_def wr t fewCalls_def frame split: sum.splits prod.splits)
qed

lemma fewCalls_blockPath: "fewCalls w (blockPath p bl e raw a uid mb src w)"
  by (auto simp: blockPath_def Let_def frame fewCalls_def simp del: append.simps
      dest!: fewCalls_action storeWrite_frame(2) wWrite_frame(1) split: prod.splits sum.splits)

lemma fewCalls_recordVerdict: "fewCalls w (recordVerdict p e path src uid mb vd w)"
proof (cases rule: recordVerdict_cases [of w p e vd src path uid mb])
  case (stored w0 w1 path' rec)
  with fewCalls_settle [of w1 p "em_AccountName e" uid mb vd rec] wWrite_frame(1) [OF stored(5)]
  show ?thesis by (simp add: fewCalls_def frame)
qed (auto simp: fewCalls_def dest: wWrite_frame(1))

lemma fewCalls_processEmail:
  assumes "processEmail p e raw a uid mb src w = Returns w'"
  shows "fewCalls w w'"
  using assms
proof (cases rule: processEmail_cases)
  case (scanned e' path w0 results)
  with fewCalls_recordVerdict [of "scannerHealth p e' w0" p e' path src uid mb "verdictOf p e' results"] storeWrite_frame(2) [OF scanned(4)]
  show ?thesis by (simp add: fewCalls_def frame)
qed (simp_all add: fewCalls_blockPath, simp add: fewCalls_def bypassPath_calls)

lemma calm_process: "p_slot p \<Longrightarrow> \<not> p_starved p \<Longrightarrow> (\<And>m. parsed p a raw uid mb \<noteq> Panics m) \<Longrightarrow>
  process p a raw uid mb src w =
    (case process (calm p) a raw uid mb src w of Returns w' \<Rightarrow> answered p w w' | r \<Rightarrow> r)"
  by (cases "parsed p a raw uid mb")
    (auto simp: process_def Let_def answered_all [of "calm p"] answered_def [of p] release_def processEmail_no_panic
      split: sum.splits go.splits)

lemma calm_bounds:
  assumes "process (calm p) a raw uid mb src w = Returns w'"
  shows "length (w_calls w') \<le> length (w_calls w) + 4" "src = SourceBackfill \<Longrightarrow> w_calls w' = w_calls w"
proof -
  show "length (w_calls w') \<le> length (w_calls w) + 4" using assms
    by (cases rule: process_cases)
      (use fewCalls_failClosed [of "takeSlot w"] fewCalls_failClosed [of w] fewCalls_processEmail in \<open>fastforce simp: fewCalls_def frame\<close>)+
  show "w_calls w' = w_calls w" if "src = SourceBackfill"
    using backfill_hands_off [of "calm p" a raw uid mb w w'] assms that by (simp add: ProcessBackfill_def)
qed

text \<open>
  C20. The pipeline never panics, and the only runs that do not come back are these: the run waits for a slot
  that is never freed while its context stays open; parsing does not return; an unblocked,
  unbypassed message reaches a scanner that does not return, for the code waits for every scanner;
  or the mail server never answers a call that the run makes under the listener's context, which has no deadline:
  one of at most four, and none of a backfill or of the recovery of a panic.
\<close>

theorem process_returns:
  "process p a raw uid mb src w \<noteq> Panics m
   \<and> (process p a raw uid mb src w = Hangs \<longleftrightarrow>
       p_starved p \<or> p_slot p \<and> (parsed p a raw uid mb = Hangs \<or>
         (\<exists>e. parsed p a raw uid mb = Returns (Inr e) \<and> blocked p (w_db w) e = None \<and> bypassed p (w_db w) e = None
            \<and> (\<exists>s. s \<in> set (p_scanners p) \<and> snd s (scannedEmail p (w_db w) e) = Hangs)) \<or>
         (\<exists>r w' n. parsed p a raw uid mb = Returns r \<and> src \<noteq> SourceBackfill
            \<and> process (calm p) a raw uid mb src w = Returns w' \<and> p_stalls p n
            \<and> length (w_calls w) \<le> n \<and> n < length (w_calls w') \<and> n < length (w_calls w) + 4)))"
proof (cases "p_slot p \<and> \<not> p_starved p")
  case False
  then show ?thesis by (auto simp: process_def)
next
  case True
  show ?thesis
  proof (cases "parsed p a raw uid mb")
    case (Returns r)
    have calmEnds: "process (calm p) a raw uid mb src w \<noteq> Panics m'" for m'
      using True Returns processEmail_no_panic
      by (auto simp: process_def Let_def answered_all split: sum.splits go.splits)
    have calmHangs: "process (calm p) a raw uid mb src w = Hangs \<longleftrightarrow> (\<exists>e. r = Inr e \<and> blocked p (w_db w) e = None
        \<and> bypassed p (w_db w) e = None \<and> (\<exists>s. s \<in> set (p_scanners p) \<and> snd s (scannedEmail p (w_db w) e) = Hangs))"
    proof (cases r)
      case (Inr e)
      then show ?thesis
        using True Returns processEmail_Hangs [of p e raw a uid mb src "takeSlot w"] processEmail_no_panic [of p e raw a uid mb src "takeSlot w"]
        by (cases "processEmail p e raw a uid mb src (takeSlot w)") (simp_all add: process_def Let_def answered_all)
    qed (use True Returns in \<open>simp add: process_def Let_def answered_all\<close>)
    have eq: "process p a raw uid mb src w = (case process (calm p) a raw uid mb src w of Returns w' \<Rightarrow> answered p w w' | x \<Rightarrow> x)"
      by (rule calm_process) (use True Returns in auto)
    show ?thesis
    proof (cases "process (calm p) a raw uid mb src w")
      case (Returns w')
      note few = calm_bounds [OF Returns]
      have "answered p w w' = Hangs \<longleftrightarrow> (\<exists>n. p_stalls p n \<and> length (w_calls w) \<le> n \<and> n < length (w_calls w'))"
        by (auto simp: answered_def list_ex_iff)
      moreover have "answered p w w' \<noteq> Panics m" by (simp add: answered_def)
      ultimately show ?thesis
        using eq True few calmHangs \<open>parsed p a raw uid mb = Returns r\<close> Returns by (cases "src = SourceBackfill") auto
    qed (use eq True calmHangs calmEnds \<open>parsed p a raw uid mb = Returns r\<close> in auto)
  qed (use True in \<open>auto simp: process_def\<close>)
qed

lemma failClosed_refused:
  assumes "p_faults p (w_writes w) = Some e"
  shows "failClosed p dn reason label a uid mb src w = scansTotal VerdictSuspicious (w\<lparr>w_writes := Suc (w_writes w)\<rparr>)"
  by (simp add: failClosed_def wWrite_refused [of p "scansTotal VerdictSuspicious w" e] assms scansTotal_frame)
    (simp add: scansTotal_def)

lemma processEmail_refused:
  assumes "processEmail p e raw a uid mb src w = Returns w'" and "p_faults p (w_writes w) = Some err"
  shows "w_calls w' = w_calls w \<and> scans (w_db w') = scans (w_db w)"
  using assms(1)
proof (cases rule: processEmail_cases)
  case (blocked bl)
  obtain path w0 where st: "storeWrite p a e raw w = (path, w0)" by fastforce
  note f = storeWrite_frame [OF st]
  have "wWrite p fn w0 = (w0\<lparr>w_writes := Suc (w_writes w0)\<rparr>, Inl err)" for fn :: "db \<Rightarrow> (db \<times> Scan) result"
    using assms(2) f by (simp add: wWrite_refused)
  then show ?thesis using f by (simp add: blocked(2) blockPath_def st Let_def del: append.simps)
next
  case (bypassed wl)
  have "scans (w_db (fst (wWrite p (createScan rec) v))) = scans (w_db v)" if "w_writes v = w_writes w" for rec and v :: world
    using assms(2) that by (simp add: wWrite_refused)
  moreover obtain path w0 where st: "storeWrite p a e raw w = (path, w0)" by fastforce
  ultimately show ?thesis using storeWrite_frame [OF st]
    by (simp add: bypassed(3) bypassPath_calls) (simp add: bypassPath_def st Let_def frame del: append.simps)
next
  case (scanned e' path w0 results)
  note f = storeWrite_frame [OF scanned(4)]
  have "p_faults p (w_writes v) = Some err \<Longrightarrow> wWrite p (upsertScan r) v = (v\<lparr>w_writes := Suc (w_writes v)\<rparr>, Inl err)" for r v
    by (rule wWrite_refused)
  then show ?thesis using assms(2) f
    by (cases rule: recordVerdict_cases [of "scannerHealth p e' w0" p e' "verdictOf p e' results" src path uid mb])
      (auto simp: scanned(6) frame)
qed

text \<open>
  C6. Nothing is done to a message that is not on record: when the transaction that stores the scan row is
  refused, the run makes no IMAP call and leaves the scan rows as they were, so the message is never moved
  or deleted without a trace in the database.
\<close>

theorem unrecorded_not_acted:
  assumes "process p a raw uid mb src w = Returns w'" and "p_faults p (w_writes w) \<noteq> None"
  shows "w_calls w' = w_calls w \<and> scans (w_db w') = scans (w_db w)"
proof -
  from assms(2) obtain err where err: "p_faults p (w_writes w) = Some err" by blast
  show ?thesis using assms(1)
  proof (cases rule: process_cases)
    case (email e w1)
    with processEmail_refused [OF email(3)] err show ?thesis by (simp add: frame)
  qed (use err in \<open>simp_all add: failClosed_refused frame\<close>)
qed

section \<open>Block and allow lists\<close>

lemma settle_pass: "vd_Decision vd = ''pass'' \<Longrightarrow> settle p a uid mb vd rec w = w"
  by (simp add: settle_def takeIMAPAction_def)

lemma recordVerdict_pass:
  assumes "vd_Decision vd = ''pass''"
  shows "w_calls (recordVerdict p e path src uid mb vd w) = w_calls w"
  by (cases rule: recordVerdict_cases [of w p e vd src path uid mb])
    (auto simp: frame settle_pass [OF assms] dest: wWrite_frame(1))

text \<open>
  Mail from an allow-listed sender that is not block-listed stays where it is: whatever the scanners say and
  whether or not the sender may bypass them, the run makes no IMAP call.
\<close>

theorem whitelisted_stays:
  assumes "process p a raw uid mb src w = Returns w'"
    and "parsed p a raw uid mb = Returns (Inr e)" and "blocked p (w_db w) e = None"
    and "matchWhitelist (p_parseAddress p) (snd (p_listFails p)) (w_db w) e = Some wl" and "wl_Entry wl \<noteq> []"
  shows "w_calls w' = w_calls w"
  using assms(1)
proof (cases rule: process_cases)
  case (email e' w1)
  with assms(2) have e': "e' = e" by simp
  from email(3) show ?thesis
  proof (cases rule: processEmail_cases)
    case (scanned e'' path w0 results)
    then have "em_WhitelistEntry e'' \<noteq> []" using assms(4,5) e' by (simp add: scannedEmail_def)
    then have "vd_Decision (verdictOf p e'' results) = ''pass''" by (simp add: verdictOf_def finalDecision_def)
    with recordVerdict_pass scanned(6) storeWrite_frame(2) [OF scanned(4)] email(4) show ?thesis by (simp add: frame)
  qed (use assms(3) e' email(4) in \<open>simp_all add: bypassPath_calls frame\<close>)
qed (use assms(2) in simp_all)

lemma settle_up: "w_up (settle p a uid mb vd rec w) = w_up w"
  by (auto simp: settle_def frame dest!: takeIMAPAction_frame(3) split: prod.splits sum.splits)

lemma recordVerdict_up: "w_up (recordVerdict p e path src uid mb vd w) = w_up w"
  by (cases rule: recordVerdict_cases [of w p e vd src path uid mb]) (auto simp: frame settle_up dest: wWrite_frame(5))

text \<open>
  C9. A spoofed sender cannot use an allow-list entry to skip the scanners: a message that is not block-listed and whose
  authentication is not aligned is handed to every configured scanner, once each and in order, before the run returns.
\<close>

theorem unaligned_is_scanned:
  assumes "process p a raw uid mb src w = Returns w'" and "p_slot p"
    and "parsed p a raw uid mb = Returns (Inr e)" and "blocked p (w_db w) e = None" and "\<not> senderAuthAligned e"
  shows "\<exists>health. w_up w' = w_up w @ health \<and> map fst health = map fst (p_scanners p)"
  using assms(1)
proof (cases rule: process_cases)
  case (email e' w1)
  with assms(3) have e': "e' = e" by simp
  from email(3) show ?thesis
  proof (cases rule: processEmail_cases)
    case (scanned e'' path w0 results)
    then show ?thesis using storeWrite_frame(4) [OF scanned(4)] email(4)
      by (simp add: frame recordVerdict_up scannerHealth_def comp_def)
  next
    case (bypassed wl)
    with assms(5) e' show ?thesis by (simp add: bypassed_def split: option.splits if_splits)
  qed (use assms(4) e' in simp)
qed (use assms in simp_all)

section \<open>The row after the IMAP action\<close>

lemma parsed_identity:
  assumes "parsed p a raw uid mb = Returns (Inr e)"
  shows "em_AccountName e = a" "em_IMAPMailbox e = mb" "em_IMAPUID e = uid"
  using assms by (auto simp: Parse_def bind_go_Returns headerEmail_def split: sum.splits)

lemma verdictRow_fields:
  "uidKey (verdictRow p e vd path src) = (MakeAccountUID (em_AccountName e) (em_IMAPMailbox e) (em_IMAPUID e), em_IMAPUID e)"
  "Verdict (verdictRow p e vd path src) = vd_Verdict vd"
  "src \<noteq> SourceBackfill \<Longrightarrow> Status (verdictRow p e vd path src) = decisionStatus (vd_Decision vd)"
  by (simp_all add: verdictRow_def uidKey_def)

lemma scannedEmail_fields [simp]:
  "em_AccountName (scannedEmail p d e) = em_AccountName e" "em_IMAPMailbox (scannedEmail p d e) = em_IMAPMailbox e"
  "em_IMAPUID (scannedEmail p d e) = em_IMAPUID e"
  by (simp_all add: scannedEmail_def split: option.splits)

lemma SourceLive_not_backfill [simp]: "SourceLive \<noteq> SourceBackfill"
  by (simp add: source_defs)

text \<open>A row, by its primary key, that satisfies a predicate; the statements that follow the action keep it.\<close>

definition hasRow :: "nat \<Rightarrow> (Scan \<Rightarrow> bool) \<Rightarrow> db \<Rightarrow> bool" where
  "hasRow i Q d \<longleftrightarrow> (\<exists>s. rowOf i d = Some s \<and> Q s)"

lemma hasRow_scans: "scans d' = scans d \<Longrightarrow> hasRow i Q d' = hasRow i Q d"
  by (simp add: hasRow_def rowOf_def)

lemma hasRow_mono: "hasRow i Q d \<Longrightarrow> (\<And>s. Q s \<Longrightarrow> R s) \<Longrightarrow> hasRow i R d"
  by (auto simp: hasRow_def)

lemma hasRow_onRow:
  assumes "hasRow i Q d" and "\<And>s. ID (f s) = ID s"
  shows "hasRow i (\<lambda>s'. \<exists>s. Q s \<and> s' = f s) (d\<lparr>scans := map (\<lambda>s. if ID s = i then f s else s) (scans d)\<rparr>)"
  using assms(1) by (auto simp: hasRow_def rowOf_map [OF assms(2)])

lemma hasRow_updateScan:
  assumes "hasRow i Q d" and "\<And>s. ID (f s) = ID s" and "updateScan i f d = Inr d'"
  shows "hasRow i (\<lambda>s'. \<exists>s. Q s \<and> s' = f s) d'"
  using hasRow_onRow [OF assms(1,2)] assms(3) by (auto simp: updateScan_def Let_def split: if_splits)

lemma createAudit_frame [frame]: "scans (createAudit a d) = scans d" "audit (createAudit a d) = audit d @ [a]"
  by (simp_all add: createAudit_def)

lemma setStatus_row:
  assumes "hasRow i Q d"
  shows "hasRow i (\<lambda>s'. \<exists>s. Q s \<and> s' = s\<lparr>Status := st\<rparr>) (setStatus i st d)"
  using hasRow_onRow [OF assms, of "\<lambda>s. s\<lparr>Status := st\<rparr>"] by (simp add: setStatus_def)

lemma audit_grows: "prefix (audit (w_db w)) (audit (w_db (announce p src vd rec w)))"
  "prefix (audit (w_db w)) (audit (w_db (incrementDailyStat p v w)))"
  by (rule trail.inv_announce trail.inv_stat_step, simp)+

lemma revertStatus_effect:
  assumes "p_faults p (w_writes w) = None" and "hasRow (ID rec) Q (w_db w)"
  shows "hasRow (ID rec) (\<lambda>s'. \<exists>s. Q s \<and> s' = s\<lparr>Status := StatusInbox\<rparr>) (w_db (revertStatus p rec note w))"
    and "autoAudit (ID rec) ''IMAP_FAIL'' note \<in> set (audit (w_db (revertStatus p rec note w)))"
proof -
  have eq: "w_db (revertStatus p rec note w) = createAudit (autoAudit (ID rec) ''IMAP_FAIL'' note) (setStatus (ID rec) StatusInbox (w_db w))"
    by (simp add: revertStatus_def wWrite_ok [of p w, OF assms(1)])
  show "autoAudit (ID rec) ''IMAP_FAIL'' note \<in> set (audit (w_db (revertStatus p rec note w)))"
    by (simp add: eq frame)
  show "hasRow (ID rec) (\<lambda>s'. \<exists>s. Q s \<and> s' = s\<lparr>Status := StatusInbox\<rparr>) (w_db (revertStatus p rec note w))"
    using setStatus_row [OF assms(2)] by (simp add: eq hasRow_scans [OF createAudit_frame(1)])
qed

lemma retryLoop_all_fail:
  assumes "\<And>n. \<not> is_ok (answer n)"
  shows "\<exists>w' e. retryLoop dn c answer ds err w = (w', Inl e)"
proof (induction ds arbitrary: err w)
  case (Cons d ds)
  obtain e where "answer (length (w_calls w)) = Inl e" using assms [of "length (w_calls w)"] by (cases "answer (length (w_calls w))") auto
  with Cons show ?case by (simp add: Let_def split: option.splits)
qed simp

text \<open>What holds of the row and the audit log when every IMAP call of a run failed.\<close>

definition reverted :: "string \<times> uint32 \<Rightarrow> db \<Rightarrow> bool" where
  "reverted key d \<longleftrightarrow> (\<exists>i note. hasRow i (\<lambda>s. Status s = StatusInbox \<and> uidKey s = key) d
     \<and> autoAudit i ''IMAP_FAIL'' note \<in> set (audit d))"

lemma reverted_later:
  "reverted key d \<Longrightarrow> scans d' = scans d \<Longrightarrow> prefix (audit d) (audit d') \<Longrightarrow> reverted key d'"
  unfolding reverted_def using hasRow_scans [of d' d] set_mono_prefix [of "audit d" "audit d'"] by blast

lemma revertStatus_reverted:
  assumes "\<And>n. p_faults p n = None" and "hasRow (ID rec) (\<lambda>s. uidKey s = key) (w_db w)"
  shows "reverted key (w_db (revertStatus p rec note w))"
  unfolding reverted_def
  using revertStatus_effect [OF assms(1,2), of "note"] by (auto intro!: exI elim!: hasRow_mono)

lemma takeIMAPAction_all_fail:
  assumes "\<And>n c. \<not> is_ok (answerOf p c n)" and "takeIMAPAction p dn dec mb uid w = (w', r)" and "w_calls w' \<noteq> w_calls w"
  shows "\<exists>e. r = Inl e"
proof (cases "callOf dec mb uid")
  case None
  with assms(2,3) show ?thesis by (simp add: takeIMAPAction_eq)
next
  case (Some c)
  with assms(2) retryLoop_all_fail [of "answerOf p c", OF assms(1)] show ?thesis
    by (metis (no_types, lifting) takeIMAPAction_eq option.case(2) prod.inject)
qed

lemma settle_reverted:
  assumes "\<And>n. p_faults p n = None" and "\<And>n c. \<not> is_ok (answerOf p c n)"
    and "hasRow (ID rec) (\<lambda>s. uidKey s = key) (w_db w)" and "w_calls (settle p a uid mb vd rec w) \<noteq> w_calls w"
  shows "reverted key (w_db (settle p a uid mb vd rec w))"
proof -
  obtain w2 r where t: "takeIMAPAction p (p_ctxDone p) (vd_Decision vd) mb uid w = (w2, r)" by fastforce
  have "w_calls (settle p a uid mb vd rec w) = w_calls w2" by (simp add: settle_def t frame split: sum.splits prod.splits)
  with takeIMAPAction_all_fail [OF assms(2) t] assms(4) obtain e where "r = Inl e" by auto
  then show ?thesis using assms(3) takeIMAPAction_frame(1) [OF t]
    by (simp add: settle_def t revertStatus_reverted [OF assms(1)])
qed

lemma failClosed_reverted:
  assumes "\<And>n. p_faults p n = None" and "\<And>n c. \<not> is_ok (answerOf p c n)" and "dbOK (w_db w)"
    and "w_calls (failClosed p dn reason label a uid mb SourceLive w) \<noteq> w_calls w"
  shows "reverted (MakeAccountUID a mb uid, uid) (w_db (failClosed p dn reason label a uid mb SourceLive w))"
proof -
  let ?rec = "failureRecord p a uid mb SourceLive reason" and ?w0 = "scansTotal VerdictSuspicious w"
  show ?thesis
  proof (cases "createScan ?rec (w_db w)")
    case (Inl e)
    with assms(4) show ?thesis
      by (simp add: failClosed_def wWrite_ok [of p ?w0] assms(1) scansTotal_frame)
  next
    case (Inr dr)
    then obtain d rec where c: "createScan ?rec (w_db w) = Inr (d, rec)" by (cases dr) auto
    let ?w1 = "?w0\<lparr>w_db := d, w_writes := Suc (w_writes ?w0)\<rparr>"
    obtain w2 r where t: "takeIMAPAction p dn ''quarantine'' mb uid ?w1 = (w2, r)" by fastforce
    have eq: "failClosed p dn reason label a uid mb SourceLive w =
        (case r of Inl imapErr \<Rightarrow> revertStatus p rec (label @ '' quarantine failed: '' @ imapErr) w2
         | Inr (qUID, qMailbox) \<Rightarrow> auditQuarantineDesync p rec (updateQuarantineUID p rec a qUID qMailbox w2))"
      using t by (simp add: failClosed_def wWrite_ok [of p ?w0] assms(1) c scansTotal_frame del: append.simps split: sum.splits)
    have "w_calls (failClosed p dn reason label a uid mb SourceLive w) = w_calls w2"
      unfolding eq by (simp add: frame split: sum.splits prod.splits)
    with takeIMAPAction_all_fail [OF assms(2) t] assms(4) obtain e where r: "r = Inl e"
      by (auto simp: scansTotal_frame)
    have "hasRow (ID rec) (\<lambda>s. uidKey s = (MakeAccountUID a mb uid, uid)) (w_db w2)"
      using createScan_row [OF assms(3) c] takeIMAPAction_frame(1) [OF t]
      by (auto simp: hasRow_def uidKey_def failureRecord_def)
    then show ?thesis by (simp add: eq r revertStatus_reverted [OF assms(1)])
  qed
qed

lemma blockPath_reverted:
  assumes "\<And>n. p_faults p n = None" and "\<And>n c. \<not> is_ok (answerOf p c n)" and "dbOK (w_db w)"
    and "em_AccountName e = a" "em_IMAPMailbox e = mb" "em_IMAPUID e = uid"
    and "w_calls (blockPath p bl e raw a uid mb SourceLive w) \<noteq> w_calls w"
  shows "reverted (MakeAccountUID a mb uid, uid) (w_db (blockPath p bl e raw a uid mb SourceLive w))"
proof -
  obtain path w0 where st: "storeWrite p a e raw w = (path, w0)" by fastforce
  note f = storeWrite_frame [OF st]
  define rec where "rec = (buildScanRecord (p_now p) e
     (decided ''quarantine'' ''SPAM'' (''blocklisted: '' @ bl_Entry bl) 1 []) path)\<lparr>Source := SourceLive\<rparr>"
  show ?thesis
  proof (cases "createScan rec (w_db w)")
    case (Inl err)
    with assms(7) f show ?thesis
      by (simp add: blockPath_def st rec_def [symmetric] wWrite_ok [of p w0] assms(1) del: append.simps)
  next
    case (Inr dr)
    then obtain d rec' where c: "createScan rec (w_db w) = Inr (d, rec')" by (cases dr) auto
    let ?w1 = "w0\<lparr>w_db := d, w_writes := Suc (w_writes w0)\<rparr>"
    obtain w2 r where t: "takeIMAPAction p (p_ctxDone p) ''quarantine'' mb uid ?w1 = (w2, r)" by fastforce
    define w3 where "w3 = (case r of Inl imapErr \<Rightarrow> revertStatus p rec' (''imap quarantine failed: '' @ imapErr) w2
         | Inr (qUID, qMailbox) \<Rightarrow> fst (updateQuarantineUID p rec' (em_AccountName e) qUID qMailbox w2))"
    have eq: "blockPath p bl e raw a uid mb SourceLive w = incrementDailyStat p ''SPAM'' (scansTotal ''SPAM'' w3)"
      using t f by (simp add: blockPath_def st rec_def [symmetric] wWrite_ok [of p w0] assms(1) c w3_def del: append.simps split: sum.splits)
    have "w_calls w3 = w_calls w2" by (simp add: w3_def frame split: sum.splits prod.splits)
    with takeIMAPAction_all_fail [OF assms(2) t] assms(7) f eq obtain err where r: "r = Inl err"
      by (auto simp: frame)
    have "hasRow (ID rec') (\<lambda>s. uidKey s = (MakeAccountUID a mb uid, uid)) (w_db w2)"
      using createScan_row [OF assms(3) c] takeIMAPAction_frame(1) [OF t] assms(4-6)
      by (auto simp: hasRow_def uidKey_def rec_def)
    then have "reverted (MakeAccountUID a mb uid, uid) (w_db w3)" by (simp add: w3_def r revertStatus_reverted [OF assms(1)])
    then show ?thesis unfolding eq
      by (rule reverted_later) (use audit_grows(2) [of "scansTotal ''SPAM'' w3"] in \<open>simp_all add: frame\<close>)
  qed
qed

lemma recordVerdict_reverted:
  assumes "\<And>n. p_faults p n = None" and "\<And>n c. \<not> is_ok (answerOf p c n)" and "dbOK (w_db w)"
    and "em_AccountName e = a" "em_IMAPMailbox e = mb" "em_IMAPUID e = uid"
    and "w_calls (recordVerdict p e path SourceLive uid mb vd w) \<noteq> w_calls w"
  shows "reverted (MakeAccountUID a mb uid, uid) (w_db (recordVerdict p e path SourceLive uid mb vd w))"
proof (cases rule: recordVerdict_cases [of w p e vd SourceLive path uid mb])
  case (refused w0 w1 path' err)
  with assms(7) show ?thesis by (simp add: wWrite_frame)
next
  case (stored w0 w1 path' rec)
  let ?row = "verdictRow p e vd path' SourceLive" and ?w2 = "settle p a uid mb vd rec w1"
  have u: "upsertScan ?row (w_db w) = Inr (w_db w1, rec)"
    using stored(1,5) by (auto simp: wWrite_ok [of p w0] assms(1) split: sum.splits prod.splits)
  have row: "hasRow (ID rec) (\<lambda>s. uidKey s = (MakeAccountUID a mb uid, uid)) (w_db w1)"
    using upsertScan_row [OF assms(3) u] assms(4-6) by (auto simp: hasRow_def verdictRow_fields)
  have eq: "recordVerdict p e path SourceLive uid mb vd w = announce p SourceLive vd rec ?w2"
    using stored(6) assms(4) by simp
  have "w_calls ?w2 \<noteq> w_calls w1"
    using assms(7) stored(2) wWrite_frame(1) [OF stored(5)] unfolding eq by (simp add: frame)
  from settle_reverted [OF assms(1,2) row this] have "reverted (MakeAccountUID a mb uid, uid) (w_db ?w2)" .
  then show ?thesis unfolding eq
    by (rule reverted_later) (simp_all add: frame audit_grows)
qed

text \<open>
  C4. When the mail server refuses every attempt and no write of the database fails, the database says so: after a live run that made IMAP calls, all of
  which failed, the row of the message has the status INBOX again and the audit log holds an IMAP_FAIL entry for it.
\<close>

theorem imap_failure_reverts:
  assumes "Process p a raw uid mb w = Returns w'" and "w_calls w' \<noteq> w_calls w"
    and "\<And>n c. \<not> is_ok (answerOf p c n)" and "\<And>n. p_faults p n = None" and "dbOK (w_db w)"
  shows "\<exists>i s note. rowOf i (w_db w') = Some s \<and> Status s = StatusInbox
    \<and> uidKey s = (MakeAccountUID a mb uid, uid) \<and> autoAudit i ''IMAP_FAIL'' note \<in> set (audit (w_db w'))"
proof -
  have "reverted (MakeAccountUID a mb uid, uid) (w_db w')"
    using assms(1) unfolding Process_def
  proof (cases rule: process_cases)
    case cancelled
    with assms(2) show ?thesis by simp
  next
    case (panic m)
    with assms failClosed_reverted [of p w] show ?thesis by simp
  next
    case (unparseable err)
    with assms failClosed_reverted [of p "takeSlot w"] show ?thesis by (simp add: frame)
  next
    case (email e w1)
    note id = parsed_identity [OF email(2)]
    have ok: "dbOK (w_db (takeSlot w))" and calls: "w_calls w1 \<noteq> w_calls (takeSlot w)"
      using assms(2,5) email(4) by (simp_all add: frame)
    from email(3) show ?thesis
    proof (cases rule: processEmail_cases)
      case (blocked bl)
      with blockPath_reverted [OF assms(4,3) ok id] calls show ?thesis by (simp add: email(4) frame)
    next
      case (bypassed wl)
      with calls show ?thesis by (simp add: bypassPath_calls)
    next
      case (scanned e' path w0 results)
      note f = storeWrite_frame [OF scanned(4)]
      with recordVerdict_reverted [of p "scannerHealth p e' w0" e' a mb uid path "verdictOf p e' results"] assms(3,4) ok id scanned(3,6) calls
      show ?thesis by (simp add: email(4) frame)
    qed
  qed
  then show ?thesis by (auto simp: reverted_def hasRow_def)
qed

section \<open>A concrete pipeline\<close>

text \<open>
  A mail library that rejects one message, panics on none and yields an empty message from \<^verbatim>\<open>a@b.c\<close> otherwise, one scanner
  that is down, and a mail server whose answers are an argument.
\<close>

definition demoHeader :: mail_header where
  "demoHeader = \<lparr>mh_MessageID = ''1'', mh_Subject = ''hi'', mh_From = Some [''a@b.c''], mh_To = None, mh_Date = None,
     mh_AuthResults = [''mx; spf=pass''], mh_Received = []\<rparr>"

definition demoLib :: mail_lib where
  "demoLib = \<lparr>createReader = (\<lambda>raw. if raw = ''bad'' then Inl ''malformed header'' else Inr (demoHeader, \<lambda>_. PartEOF)),
     htmlAttrs = (\<lambda>_. Returns None), imageConfig = (\<lambda>_. Returns None), decodeQR = (\<lambda>_. Returns None),
     sha256Hex = (\<lambda>s. s), mediaType = (\<lambda>_. Inl [])\<rparr>"

definition demo :: "(uint32 \<times> string) result \<Rightarrow> pipeline" where
  "demo answer = \<lparr>p_scanners = [(''clamav'', \<lambda>_. Returns clamError), (''yara'', \<lambda>_. Panics ''boom'')], p_lib = demoLib,
     p_parseAddress = Some, p_MaxEmailSizeMB = 25, p_TrustedAuthservID = [], p_EMLCleanRetain = True,
     p_thresholds = \<lparr>SpamScore = 5, RejectScore = 15\<rparr>, p_notifier = True, p_hub = True, p_arrive = (\<lambda>rs. rs),
     p_move = (\<lambda>_. answer), p_delete = (\<lambda>_. Inl ''down''), p_flag = (\<lambda>_. Inl ''down''),
     p_ctxDone = (\<lambda>_. None), p_freshDone = (\<lambda>_. None), p_faults = (\<lambda>_. None), p_listFails = (False, False),
     p_fsFaults = \<lparr>writeFails = (\<lambda>_. True), removeFails = (\<lambda>_. False), infoFails = (\<lambda>_. False)\<rparr>,
     p_dataDir = ''/data'', p_today = (''2024'', ''01'', ''02''), p_now = 0, p_date = ''2024-01-02'', p_slot = True,
     p_starved = False, p_stalls = (\<lambda>_. False)\<rparr>"

definition demoWorld :: "db \<Rightarrow> world" where
  "demoWorld d = \<lparr>w_db = d, w_writes = 0, w_calls = [], w_files = [], w_sent = [], w_down = [], w_sse = [],
     w_total = [], w_up = [], w_slots = 0\<rparr>"

definition demoEmail :: Email where
  "demoEmail = headerEmail demoHeader ''ok'' ''acct'' 7 ''INBOX'' []"

lemma demo_fields [simp]:
  "p_faults (demo r) = (\<lambda>_. None)" "p_move (demo r) = (\<lambda>_. r)" "p_slot (demo r)" "\<not> p_starved (demo r)" "p_stalls (demo r) = (\<lambda>_. False)" "p_scanners (demo r) =
     [(''clamav'', \<lambda>_. Returns clamError), (''yara'', \<lambda>_. Panics ''boom'')]"
  "p_listFails (demo r) = (False, False)" "p_parseAddress (demo r) = Some" "p_lib (demo r) = demoLib"
  "p_delete (demo r) = (\<lambda>_. Inl ''down'')" "p_flag (demo r) = (\<lambda>_. Inl ''down'')" "p_TrustedAuthservID (demo r) = []"
  "w_db (demoWorld d) = d" "w_calls (demoWorld d) = []" "w_writes (demoWorld d) = 0" "w_slots (demoWorld d) = 0" "w_up (demoWorld d) = []"
  by (simp_all add: demo_def demoWorld_def)

lemma demo_bad [simp]: "Parse demoLib ''bad'' a uid mb m t = Returns (Inl ''malformed header'')"
  by (simp add: Parse_def demoLib_def)

lemma walkParts_none: "walkParts lib m (\<lambda>_. PartEOF) = Returns walk0"
  by (simp add: walkParts_eq)

lemma demo_parsed [simp]: "Parse demoLib ''ok'' ''acct'' 7 ''INBOX'' m [] = Returns (Inr demoEmail)"
  by (simp add: Parse_def demoLib_def walkParts_none walk0_def extractURLs_def demoEmail_def headerEmail_def
      demoHeader_def maxURLsPerEmail_def)

lemma process_total:
  assumes "\<And>s e. s \<in> set (p_scanners p) \<Longrightarrow> snd s e \<noteq> Hangs" and "parsed p a raw uid mb \<noteq> Hangs"
    and "\<not> p_starved p" and "p_stalls p = (\<lambda>_. False)"
  shows "\<exists>w'. process p a raw uid mb src w = Returns w'"
proof -
  have "\<exists>w1. processEmail p e raw a uid mb src v = Returns w1" for e v
    using processEmail_Hangs [of p e raw a uid mb src v] processEmail_no_panic [of p e raw a uid mb src v] assms(1)
    by (cases "processEmail p e raw a uid mb src v") auto
  then obtain f where f: "\<And>e v. processEmail p e raw a uid mb src v = Returns (f e v)" by metis
  show ?thesis using assms(2,3)
    by (cases "parsed p a raw uid mb") (simp_all add: process_def Let_def f answered_all [OF assms(4)] del: append.simps split: sum.splits)
qed

lemma demo_runs:
  assumes "raw \<in> {''bad'', ''ok''}"
  obtains w' where "process (demo r) ''acct'' raw 7 ''INBOX'' src (demoWorld d) = Returns w'"
proof -
  have "parsed (demo r) ''acct'' raw 7 ''INBOX'' \<noteq> Hangs" using assms by auto
  then have "\<exists>w'. process (demo r) ''acct'' raw 7 ''INBOX'' src (demoWorld d) = Returns w'" by (intro process_total) auto
  with that show thesis by blast
qed

lemma demo_answers: "\<not> is_ok r \<Longrightarrow> \<not> is_ok (answerOf (demo r) c n)"
  by (cases c) (simp_all add: answerOf_def noUID_def)

lemma demoEmail_fields:
  "em_From demoEmail = ''a@b.c''" "em_SPFResult demoEmail = ''pass''" "em_WhitelistEntry demoEmail = []"
  "\<not> em_HasExecutable demoEmail" "\<not> senderAuthAligned demoEmail"
  by (simp_all add: demoEmail_def headerEmail_def demoHeader_def senderAuthAligned_def fromTrusted_def mechanismResult_def
      toLower_def lowerChar_def trimSpace_def asciiSpace_def Let_def)

lemma demo_candidates: "listCandidates Some demoEmail = [''a@b.c'', ''@b.c'']"
  by (simp add: listCandidates_def demoEmail_fields toLower_def lowerChar_def trimSpace_def asciiSpace_def)

section \<open>Witnesses\<close>

lemma imap_retry_discipline_witness:
  "\<exists>n. 1 \<le> n \<and> n \<le> 4 \<and>
     w_calls (fst (takeIMAPAction (demo (Inl ''no'')) (\<lambda>_. None) ''delete'' ''INBOX'' 7 (demoWorld emptyDB)))
       = replicate n (DeleteMessage ''INBOX'' 7)"
  using imap_retry_discipline [OF prod.collapse [symmetric],
    of "demo (Inl ''no'')" "\<lambda>_. None" "''delete''" "''INBOX''" 7 "demoWorld emptyDB"]
  by (auto simp: callOf_def)

lemma process_keeps_database_witness:
  "\<exists>w'. process (demo (Inl ''no'')) ''acct'' ''ok'' 7 ''INBOX'' SourceLive (demoWorld emptyDB) = Returns w'
     \<and> dbOK (w_db w') \<and> statsOK (w_db w')"
proof -
  obtain w' where w': "process (demo (Inl ''no'')) ''acct'' ''ok'' 7 ''INBOX'' SourceLive (demoWorld emptyDB) = Returns w'"
    by (rule demo_runs [of "''ok''"]) auto
  have "statsOK (w_db (demoWorld emptyDB))" by (simp add: statsOK_def statRow_def emptyDB_def zeroDailyStat_def statOK_def)
  with process_keeps_database [OF w'] w' show ?thesis by simp
qed

lemma process_releases_slot_witness:
  "\<exists>w'. process (demo (Inl ''no'')) ''acct'' ''bad'' 7 ''INBOX'' SourceLive (demoWorld emptyDB) = Returns w' \<and> w_slots w' = 0"
proof -
  obtain w' where "process (demo (Inl ''no'')) ''acct'' ''bad'' 7 ''INBOX'' SourceLive (demoWorld emptyDB) = Returns w'"
    by (rule demo_runs [of "''bad''"]) auto
  with process_releases_slot [OF this] show ?thesis by simp
qed

lemma backfill_hands_off_witness:
  "\<exists>w'. ProcessBackfill (demo (Inl ''no'')) ''acct'' ''ok'' 7 ''INBOX'' (demoWorld emptyDB) = Returns w' \<and> w_calls w' = []"
proof -
  obtain w' where "process (demo (Inl ''no'')) ''acct'' ''ok'' 7 ''INBOX'' SourceBackfill (demoWorld emptyDB) = Returns w'"
    by (rule demo_runs [of "''ok''"]) auto
  then have w': "ProcessBackfill (demo (Inl ''no'')) ''acct'' ''ok'' 7 ''INBOX'' (demoWorld emptyDB) = Returns w'"
    by (simp add: ProcessBackfill_def)
  with backfill_hands_off [OF w'] show ?thesis by simp
qed

lemma unrecorded_not_acted_witness:
  "\<exists>w'. process ((demo (Inr (9, ''Q'')))\<lparr>p_faults := (\<lambda>_. Some ''disk full'')\<rparr>) ''acct'' ''bad'' 7 ''INBOX'' SourceLive (demoWorld emptyDB)
       = Returns w' \<and> w_calls w' = []"
proof -
  let ?p = "(demo (Inr (9, ''Q'')))\<lparr>p_faults := (\<lambda>_. Some ''disk full'')\<rparr>"
  have "parsed ?p ''acct'' ''bad'' 7 ''INBOX'' \<noteq> Hangs" by (simp add: demo_bad [simplified])
  then have "\<exists>w'. process ?p ''acct'' ''bad'' 7 ''INBOX'' SourceLive (demoWorld emptyDB) = Returns w'"
    by (intro process_total) auto
  then obtain w' where "process ?p ''acct'' ''bad'' 7 ''INBOX'' SourceLive (demoWorld emptyDB) = Returns w'" by blast
  with unrecorded_not_acted [OF this] show ?thesis by simp
qed

definition allowDB :: db where
  "allowDB = emptyDB\<lparr>whitelist := [\<lparr>wl_ID = 1, wl_Entry = ''@b.c'', wl_EntryType = ''domain'', wl_BypassScan = True, wl_AddedReason = []\<rparr>]\<rparr>"

lemma demo_lists:
  "blocked (demo r) allowDB demoEmail = None"
  "matchWhitelist Some False allowDB demoEmail
     = Some \<lparr>wl_ID = 1, wl_Entry = ''@b.c'', wl_EntryType = ''domain'', wl_BypassScan = True, wl_AddedReason = []\<rparr>"
  by (simp_all add: blocked_def matchBlocklist_def matchWhitelist_def matchList_def demo_candidates allowDB_def emptyDB_def)

lemma whitelisted_stays_witness:
  "\<exists>w'. process (demo (Inr (9, ''Q''))) ''acct'' ''ok'' 7 ''INBOX'' SourceLive (demoWorld allowDB) = Returns w' \<and> w_calls w' = []"
proof -
  obtain w' where "process (demo (Inr (9, ''Q''))) ''acct'' ''ok'' 7 ''INBOX'' SourceLive (demoWorld allowDB) = Returns w'"
    by (rule demo_runs [of "''ok''"]) auto
  with whitelisted_stays [OF this] show ?thesis by (simp add: demo_lists)
qed

lemma unaligned_is_scanned_witness:
  "\<exists>w'. process (demo (Inr (9, ''Q''))) ''acct'' ''ok'' 7 ''INBOX'' SourceLive (demoWorld allowDB) = Returns w'
     \<and> map fst (w_up w') = [''clamav'', ''yara'']"
proof -
  obtain w' where w': "process (demo (Inr (9, ''Q''))) ''acct'' ''ok'' 7 ''INBOX'' SourceLive (demoWorld allowDB) = Returns w'"
    by (rule demo_runs [of "''ok''"]) auto
  from unaligned_is_scanned [OF w', of demoEmail] w' show ?thesis by (auto simp: demo_lists demoEmail_fields)
qed

lemma imap_failure_reverts_witness:
  "\<exists>w' i s. Process (demo (Inl ''no'')) ''acct'' ''bad'' 7 ''INBOX'' (demoWorld emptyDB) = Returns w'
     \<and> rowOf i (w_db w') = Some s \<and> Status s = StatusInbox"
proof -
  let ?p = "demo (Inl ''no'')" and ?w = "demoWorld emptyDB"
  obtain w' where w': "process ?p ''acct'' ''bad'' 7 ''INBOX'' SourceLive ?w = Returns w'"
    by (rule demo_runs [of "''bad''"]) auto
  have "w_calls w' \<noteq> w_calls ?w"
    using w' by (auto simp: process_def Let_def answered_all failClosed_def wWrite_def dbWrite_def createScan_def emptyDB_def scansTotal_def
        takeIMAPAction_def imapDelays_def frame demo_def split: prod.splits option.splits)
  moreover have "Process ?p ''acct'' ''bad'' 7 ''INBOX'' ?w = Returns w'" using w' by (simp add: Process_def)
  ultimately show ?thesis using imap_failure_reverts [of ?p "''acct''" "''bad''" 7 "''INBOX''" ?w w'] by (auto simp: demo_answers)
qed

end
