(* ===== verification/PipelineRuns.thy ===== *)
theory PipelineRuns
  imports PipelineCorrect
begin

text \<open>
  Complete runs of the pipeline: what is quarantined, under which UID the database knows it afterwards, and what
  happens to messages that cannot be parsed or whose sender is block-listed, also when the message has a row already.
\<close>

section \<open>A successful move\<close>

lemma move_succeeds:
  assumes "p_move p (length (w_calls w)) = Inr x"
  shows "takeIMAPAction p dn ''quarantine'' mb uid w = (w\<lparr>w_calls := w_calls w @ [MoveToQuarantine mb uid]\<rparr>, Inr x)"
  using assms by (simp add: takeIMAPAction_def imapDelays_def)

lemma quarantineColumns_fields:
  "ID (quarantineColumns a q m s) = ID s" "Status (quarantineColumns a q m s) = Status s"
  "Verdict (quarantineColumns a q m s) = Verdict s" "IMAPMailbox (quarantineColumns a q m s) = m"
  "0 < q \<Longrightarrow> uidKey (quarantineColumns a q m s) = (MakeAccountUID a m q, q)"
  by (simp_all add: quarantineColumns_def Let_def uidKey_def)

lemma updateQuarantineUID_row:
  assumes "hasRow (ID rec) (\<lambda>s. Status s = st \<and> Verdict s = v) (w_db w)"
  shows "hasRow (ID rec) (\<lambda>s. Status s = st \<and> Verdict s = v) (w_db (fst (updateQuarantineUID p rec a q m w)))"
proof -
  have row: "hasRow (ID rec) (\<lambda>s. Status s = st \<and> Verdict s = v) d"
    if "updateScan (ID rec) (quarantineColumns a q m) (w_db w) = Inr d" for d
    using hasRow_updateScan [OF assms quarantineColumns_fields(1) that]
    by (rule hasRow_mono) (auto simp: quarantineColumns_fields)
  let ?fn = "\<lambda>d. case updateScan (ID rec) (quarantineColumns a q m) d of Inl e \<Rightarrow> Inl e | Inr d' \<Rightarrow> Inr (d', ())"
  show ?thesis
    by (cases rule: dbWrite_cases [of "p_faults p" "w_writes w" ?fn "w_db w"])
      (auto simp: updateQuarantineUID_def wWrite_def assms row split: sum.splits)
qed

text \<open>
  The row of a message in quarantine: it carries the mailbox and the key that the move gave it, or it still has the old
  key and the audit log says so, unless \<open>unlogged\<close>: the write of that audit entry was refused.
\<close>

definition tracked :: "bool \<Rightarrow> string \<Rightarrow> string \<times> uint32 \<Rightarrow> string \<times> uint32 \<Rightarrow> db \<Rightarrow> bool" where
  "tracked unlogged m newKey oldKey d \<longleftrightarrow> (\<exists>i s. rowOf i d = Some s \<and> Status s = StatusQuarantined
     \<and> ((m = [] \<or> IMAPMailbox s = m) \<and> uidKey s = newKey
        \<or> uidKey s = oldKey \<and> (unlogged \<or> (\<exists>note. autoAudit i ''QUAR_DESYNC'' note \<in> set (audit d)))))"

text \<open>The key after a move: the old one when the server reported no UID or no mailbox.\<close>

definition movedKey :: "string \<Rightarrow> uint32 \<Rightarrow> string \<Rightarrow> string \<times> uint32 \<Rightarrow> string \<times> uint32" where
  "movedKey a q m oldKey = (if 0 < q \<and> m \<noteq> [] then (MakeAccountUID a m q, q) else oldKey)"

lemma quarantineColumns_key: "m \<noteq> [] \<Longrightarrow> uidKey (quarantineColumns a q m s) = movedKey a q m (uidKey s)"
  by (simp add: quarantineColumns_def Let_def uidKey_def movedKey_def)

lemma quarantine_step_tracked:
  assumes row: "hasRow (ID rec) (\<lambda>s. Status s = StatusQuarantined \<and> uidKey s = key) (w_db w)"
  shows "tracked (p_faults p (Suc (w_writes w)) \<noteq> None) m (movedKey a q m key) key
    (w_db (auditQuarantineDesync p rec (updateQuarantineUID p rec a q m w)))"
proof (cases "m = []")
  case True
  with row show ?thesis
    by (auto simp: tracked_def hasRow_def updateQuarantineUID_def auditQuarantineDesync_def movedKey_def)
next
  case False
  let ?fn = "\<lambda>d. case updateScan (ID rec) (quarantineColumns a q m) d of Inl e \<Rightarrow> Inl e | Inr d' \<Rightarrow> Inr (d', ())"
  show ?thesis
  proof (cases rule: dbWrite_cases [of "p_faults p" "w_writes w" ?fn "w_db w"])
    case (ok d x)
    from ok(2) have up: "updateScan (ID rec) (quarantineColumns a q m) (w_db w) = Inr d" by (simp split: sum.splits)
    have "hasRow (ID rec) (\<lambda>s. Status s = StatusQuarantined \<and> IMAPMailbox s = m \<and> uidKey s = movedKey a q m key) d"
      using hasRow_updateScan [OF row quarantineColumns_fields(1) up]
      by (rule hasRow_mono) (auto simp: quarantineColumns_fields quarantineColumns_key False)
    moreover have "w_db (auditQuarantineDesync p rec (updateQuarantineUID p rec a q m w)) = d"
      using False ok(3) by (simp add: auditQuarantineDesync_def updateQuarantineUID_def wWrite_def)
    ultimately show ?thesis by (auto simp: tracked_def hasRow_def)
  next
    case (failed e)
    let ?v = "w\<lparr>w_db := w_db w, w_writes := Suc (w_writes w)\<rparr>"
    let ?a = "autoAudit (ID rec) ''QUAR_DESYNC'' (''quarantine UID persist failed: '' @ e)"
    have eq: "auditQuarantineDesync p rec (updateQuarantineUID p rec a q m w) = fst (wWrite p (\<lambda>d. Inr (createAudit ?a d, ())) ?v)"
      using False failed by (simp add: auditQuarantineDesync_def updateQuarantineUID_def wWrite_def [of p ?fn])
    show ?thesis
    proof (cases "p_faults p (Suc (w_writes w))")
      case None
      then have d: "w_db (fst (wWrite p (\<lambda>d. Inr (createAudit ?a d, ())) ?v)) = createAudit ?a (w_db w)"
        by (simp add: wWrite_ok del: append.simps)
      have "rowOf (ID rec) (createAudit ?a (w_db w)) = rowOf (ID rec) (w_db w)" "?a \<in> set (audit (createAudit ?a (w_db w)))"
        by (simp_all add: rowOf_def frame)
      with row show ?thesis unfolding tracked_def eq d hasRow_def by metis
    next
      case (Some err)
      then have "w_db (fst (wWrite p (\<lambda>d. Inr (createAudit ?a d, ())) ?v)) = w_db w"
        by (simp add: wWrite_refused del: append.simps)
      with row Some show ?thesis unfolding tracked_def eq hasRow_def by auto
    qed
  qed
qed

lemma tracked_later:
  assumes "tracked u m nk ok d" and "scans d' = scans d" and "prefix (audit d) (audit d')"
  shows "tracked u m nk ok d'"
  using assms(1) set_mono_prefix [OF assms(3)] unfolding tracked_def rowOf_def assms(2) by blast

lemma settle_moves:
  assumes "w_calls (settle p a uid mb vd rec w) \<noteq> w_calls w"
    and "last (w_calls (settle p a uid mb vd rec w)) = MoveToQuarantine mb uid"
    and "p_move p (length (w_calls (settle p a uid mb vd rec w)) - 1) = Inr (q, m)"
  shows "\<exists>w2. vd_Decision vd = ''quarantine'' \<and> w_db w2 = w_db w \<and> w_writes w2 = w_writes w
    \<and> settle p a uid mb vd rec w = auditQuarantineDesync p rec (updateQuarantineUID p rec a q m w2)"
proof -
  obtain w2 r where t: "takeIMAPAction p (p_ctxDone p) (vd_Decision vd) mb uid w = (w2, r)" by fastforce
  have same: "w_calls (settle p a uid mb vd rec w) = w_calls w2"
    by (simp add: settle_def t frame split: sum.splits prod.splits)
  obtain c where c: "callOf (vd_Decision vd) mb uid = Some c"
    using t assms(1) same by (cases "callOf (vd_Decision vd) mb uid") (auto simp: takeIMAPAction_eq)
  with t have "retryLoop (p_ctxDone p) c (answerOf p c) imapDelays [] w = (w2, r)" by (simp add: takeIMAPAction_eq)
  from retryLoop_attempts [OF this imapDelays_facts(2,3)] obtain n where n: "1 \<le> n" "w_calls w2 = w_calls w @ replicate n c"
    "\<forall>x. r = Inr x \<longleftrightarrow> answerOf p c (length (w_calls w) + (n - 1)) = Inr x"
    by (auto simp: imapDelays_facts)
  have move: "c = MoveToQuarantine mb uid" using assms(2) same n(1,2) by simp
  then have dec: "vd_Decision vd = ''quarantine''" using c by (auto simp: callOf_def split: if_splits)
  have "answerOf p c (length (w_calls w) + (n - 1)) = Inr (q, m)"
    using assms(3) same n(1,2) by (simp add: move answerOf_def)
  with n(3) have "r = Inr (q, m)" by blast
  then have "settle p a uid mb vd rec w = auditQuarantineDesync p rec (updateQuarantineUID p rec a q m w2)"
    using t dec by (simp add: settle_def)
  with dec takeIMAPAction_frame [OF t] show ?thesis by blast
qed

lemma recordVerdict_tracked:
  assumes "dbOK (w_db w)" and "w_calls (recordVerdict p e path SourceLive uid mb vd w) \<noteq> w_calls w"
    and "last (w_calls (recordVerdict p e path SourceLive uid mb vd w)) = MoveToQuarantine mb uid"
    and "p_move p (length (w_calls (recordVerdict p e path SourceLive uid mb vd w)) - 1) = Inr (q, m)"
    and id: "em_AccountName e = a" "em_IMAPMailbox e = mb" "em_IMAPUID e = uid"
  shows "tracked (p_faults p (w_writes w + 2) \<noteq> None) m (movedKey a q m (MakeAccountUID a mb uid, uid)) (MakeAccountUID a mb uid, uid)
    (w_db (recordVerdict p e path SourceLive uid mb vd w))"
proof (cases rule: recordVerdict_cases [of w p e vd SourceLive path uid mb])
  case (refused v0 v1 path' err)
  then show ?thesis using assms(2) by (simp add: wWrite_frame)
next
  case (stored v0 v1 path' rec)
  let ?v2 = "settle p a uid mb vd rec v1"
  have eq: "recordVerdict p e path SourceLive uid mb vd w = announce p SourceLive vd rec ?v2" using stored(6) id by simp
  have v1: "w_calls v1 = w_calls w" "w_writes v1 = Suc (w_writes w)" using wWrite_frame [OF stored(5)] stored(2,4) by simp_all
  have calls: "w_calls (recordVerdict p e path SourceLive uid mb vd w) = w_calls ?v2" by (simp add: eq frame)
  obtain v2 where v2: "vd_Decision vd = ''quarantine''" "w_db v2 = w_db v1" "w_writes v2 = w_writes v1"
    "?v2 = auditQuarantineDesync p rec (updateQuarantineUID p rec a q m v2)"
    using settle_moves [of p a uid mb vd rec v1 q m] assms(2-4) v1 unfolding calls by auto
  have u: "upsertScan (verdictRow p e vd path' SourceLive) (w_db w) = Inr (w_db v1, rec)"
    using stored(1,5) by (auto simp: wWrite_def dbWrite_def split: prod.splits option.splits sum.splits)
  have "hasRow (ID rec) (\<lambda>s. Status s = StatusQuarantined \<and> uidKey s = (MakeAccountUID a mb uid, uid)) (w_db v2)"
    using upsertScan_row [OF assms(1) u] v2(1,2) id by (auto simp: hasRow_def verdictRow_fields decisionStatus_def)
  from quarantine_step_tracked [OF this, of p m a q] v1(2) v2(3,4)
  have "tracked (p_faults p (w_writes w + 2) \<noteq> None) m (movedKey a q m (MakeAccountUID a mb uid, uid)) (MakeAccountUID a mb uid, uid) (w_db ?v2)"
    by simp
  then show ?thesis unfolding eq by (rule tracked_later) (simp_all add: frame audit_grows)
qed


section \<open>Immediate quarantine\<close>

lemma failClosed_quarantines:
  assumes "p_faults p (w_writes w) = None" and "p_move p (length (w_calls w)) = Inr (q, m)" and "dbOK (w_db w)"
    and "(MakeAccountUID a mb uid, uid) \<notin> uidKey ` set (scans (w_db w))"
  shows "w_calls (failClosed p dn reason label a uid mb SourceLive w) = w_calls w @ [MoveToQuarantine mb uid]
    \<and> hasRow (nextID (w_db w)) (\<lambda>s. Status s = StatusQuarantined \<and> Verdict s = VerdictSuspicious)
        (w_db (failClosed p dn reason label a uid mb SourceLive w))"
proof -
  let ?rec = "failureRecord p a uid mb SourceLive reason" and ?w0 = "scansTotal VerdictSuspicious w"
  have key: "uidKey ?rec = (MakeAccountUID a mb uid, uid)" by (simp add: uidKey_def failureRecord_def)
  obtain d rec where c: "createScan ?rec (w_db w) = Inr (d, rec)"
    using assms(4) by (simp add: createScan_def key Let_def)
  let ?w1 = "?w0\<lparr>w_db := d, w_writes := Suc (w_writes ?w0)\<rparr>"
  let ?w2 = "?w1\<lparr>w_calls := w_calls w @ [MoveToQuarantine mb uid]\<rparr>"
  have eq: "failClosed p dn reason label a uid mb SourceLive w = auditQuarantineDesync p rec (updateQuarantineUID p rec a q m ?w2)"
    using move_succeeds [of p ?w1 "(q, m)" dn mb uid] assms(2)
    by (simp add: failClosed_def wWrite_ok [of p ?w0] assms(1) c scansTotal_frame)
  have "hasRow (ID rec) (\<lambda>s. Status s = StatusQuarantined \<and> Verdict s = VerdictSuspicious) (w_db ?w2)"
    using createScan_row [OF assms(3) c] by (simp add: hasRow_def failureRecord_def)
  note row = updateQuarantineUID_row [OF this, of p a q m]
  have "scans (w_db (auditQuarantineDesync p rec wr)) = scans (w_db (fst wr))" for wr
    by (auto simp: auditQuarantineDesync_def frame intro!: wWrite_scans_frame split: prod.splits sum.splits)
  with row createScan_row(2) [OF assms(3) c] show ?thesis unfolding eq
    by (simp add: frame hasRow_def rowOf_def)
qed

lemma failClosed_known:
  assumes "(MakeAccountUID a mb uid, uid) \<in> uidKey ` set (scans (w_db w))"
  shows "w_calls (failClosed p dn reason label a uid mb src w) = w_calls w
    \<and> w_db (failClosed p dn reason label a uid mb src w) = w_db w"
proof -
  let ?rec = "failureRecord p a uid mb src reason"
  have "uidKey ?rec = (MakeAccountUID a mb uid, uid)" by (simp add: uidKey_def failureRecord_def)
  with assms obtain err where "createScan ?rec (w_db w) = Inl err" by (auto simp: createScan_def Let_def)
  then show ?thesis
    by (cases "p_faults p (w_writes w)") (simp_all add: failClosed_def wWrite_def dbWrite_def scansTotal_frame)
qed

lemma answered_known: "w_calls v = w_calls w \<Longrightarrow> answered p w v = Returns v"
  by (simp add: answered_def)

lemma answered_one:
  "w_calls v = w_calls w @ [c] \<Longrightarrow> \<not> p_stalls p (length (w_calls w)) \<Longrightarrow> answered p w v = Returns v"
  by (simp add: answered_def)

text \<open>
  C7. A message that cannot be parsed fails closed, the first time: whether the parser returns an error or panics, a live run whose
  row can be stored and whose move the server performs returns, makes exactly that one IMAP call and leaves a SUSPICIOUS, QUARANTINED
  row. When a row already has the key of the message (a rescan, or a retry after a crash between the row and the move)
  the insertion fails on the unique index and the run returns without any IMAP call and without touching the
  database: the message stays where it is.
\<close>

theorem unparseable_quarantined:
  assumes "p_slot p" and "\<not> p_starved p" and "parsed p a raw uid mb = Returns (Inl err) \<or> parsed p a raw uid mb = Panics err"
    and "p_faults p (w_writes w) = None" and "p_move p (length (w_calls w)) = Inr (q, m)" and "\<not> p_stalls p (length (w_calls w))"
    and "dbOK (w_db w)"
  shows "if (MakeAccountUID a mb uid, uid) \<notin> uidKey ` set (scans (w_db w))
    then (\<exists>w' s. Process p a raw uid mb w = Returns w' \<and> w_calls w' = w_calls w @ [MoveToQuarantine mb uid]
      \<and> rowOf (nextID (w_db w)) (w_db w') = Some s \<and> Status s = StatusQuarantined \<and> Verdict s = VerdictSuspicious)
    else (\<exists>w'. Process p a raw uid mb w = Returns w' \<and> w_calls w' = w_calls w \<and> w_db w' = w_db w)"
  using assms(3)
proof
  assume inl: "parsed p a raw uid mb = Returns (Inl err)"
  let ?w = "failClosed p (p_ctxDone p) (''unparseable message: '' @ err) ''parse-failure'' a uid mb SourceLive (takeSlot w)"
  have run: "Process p a raw uid mb w = answered p (takeSlot w) (release ?w)"
    using inl assms(1,2) by (simp add: Process_def process_def Let_def del: append.simps)
  show ?thesis
  proof (cases "(MakeAccountUID a mb uid, uid) \<in> uidKey ` set (scans (w_db w))")
    case True
    with failClosed_known [of a mb uid "takeSlot w" p "p_ctxDone p" "''unparseable message: '' @ err" "''parse-failure''" SourceLive]
    show ?thesis unfolding run by (simp add: answered_known frame del: append.simps)
  next
    case False
    with failClosed_quarantines [of p "takeSlot w" q m a mb uid "p_ctxDone p" "''unparseable message: '' @ err" "''parse-failure''"] assms(4-7)
    have q: "w_calls ?w = w_calls w @ [MoveToQuarantine mb uid]"
      "hasRow (nextID (w_db w)) (\<lambda>s. Status s = StatusQuarantined \<and> Verdict s = VerdictSuspicious) (w_db ?w)" by simp_all
    then have "answered p (takeSlot w) (release ?w) = Returns (release ?w)"
      using assms(6) by (intro answered_one [where c = "MoveToQuarantine mb uid"]) (simp_all add: frame)
    with q False show ?thesis unfolding run by (simp add: hasRow_def frame del: append.simps)
  qed
next
  assume pan: "parsed p a raw uid mb = Panics err"
  let ?w = "failClosed p (p_freshDone p) (''process panic: '' @ err) ''panic-recovery'' a uid mb SourceLive w"
  have run: "Process p a raw uid mb w = Returns ?w"
    using pan assms(1,2) by (simp add: Process_def process_def Let_def del: append.simps)
  show ?thesis
    using failClosed_quarantines [of p w q m a mb uid "p_freshDone p" "''process panic: '' @ err" "''panic-recovery''"]
      failClosed_known [of a mb uid w p "p_freshDone p" "''process panic: '' @ err" "''panic-recovery''" SourceLive] assms(4-7)
    unfolding run by (auto simp: hasRow_def simp del: append.simps)
qed

lemma blockPath_quarantines:
  assumes "p_faults p (w_writes w) = None" and "p_move p (length (w_calls w)) = Inr (q, m)" and "dbOK (w_db w)"
    and "(MakeAccountUID a mb uid, uid) \<notin> uidKey ` set (scans (w_db w))"
    and id: "em_AccountName e = a" "em_IMAPMailbox e = mb" "em_IMAPUID e = uid"
  shows "w_calls (blockPath p bl e raw a uid mb SourceLive w) = w_calls w @ [MoveToQuarantine mb uid]
    \<and> w_up (blockPath p bl e raw a uid mb SourceLive w) = w_up w
    \<and> hasRow (nextID (w_db w)) (\<lambda>s. Status s = StatusQuarantined \<and> Verdict s = ''SPAM'')
        (w_db (blockPath p bl e raw a uid mb SourceLive w))"
proof -
  obtain path w0 where st: "storeWrite p a e raw w = (path, w0)" by fastforce
  note f = storeWrite_frame [OF st]
  define rec where "rec = (buildScanRecord (p_now p) e
     (decided ''quarantine'' ''SPAM'' (''blocklisted: '' @ bl_Entry bl) 1 []) path)\<lparr>Source := SourceLive\<rparr>"
  have key: "uidKey rec = (MakeAccountUID a mb uid, uid)" by (simp add: uidKey_def rec_def id del: append.simps)
  obtain d rec' where c: "createScan rec (w_db w) = Inr (d, rec')"
    using assms(4) by (simp add: createScan_def key Let_def)
  let ?w1 = "w0\<lparr>w_db := d, w_writes := Suc (w_writes w0)\<rparr>"
  let ?w2 = "?w1\<lparr>w_calls := w_calls w @ [MoveToQuarantine mb uid]\<rparr>"
  have eq: "blockPath p bl e raw a uid mb SourceLive w =
      incrementDailyStat p ''SPAM'' (scansTotal ''SPAM'' (fst (updateQuarantineUID p rec' a q m ?w2)))"
    using move_succeeds [of p ?w1 "(q, m)" "p_ctxDone p" mb uid] assms(2) f
    by (simp add: blockPath_def st rec_def [symmetric] wWrite_ok [of p w0] f assms(1) c id(1) del: append.simps)
  have "hasRow (ID rec') (\<lambda>s. Status s = StatusQuarantined \<and> Verdict s = ''SPAM'') (w_db ?w2)"
    using createScan_row [OF assms(3) c] by (simp add: hasRow_def rec_def decisionStatus_def del: append.simps)
  note row = updateQuarantineUID_row [OF this, of p a q m]
  with createScan_row(2) [OF assms(3) c] f show ?thesis unfolding eq
    by (simp add: frame hasRow_def rowOf_def)
qed

lemma blockPath_known:
  assumes "(MakeAccountUID a mb uid, uid) \<in> uidKey ` set (scans (w_db w))"
    and id: "em_AccountName e = a" "em_IMAPMailbox e = mb" "em_IMAPUID e = uid"
  shows "w_calls (blockPath p bl e raw a uid mb SourceLive w) = w_calls w \<and> w_up (blockPath p bl e raw a uid mb SourceLive w) = w_up w
    \<and> w_db (blockPath p bl e raw a uid mb SourceLive w) = w_db w"
proof -
  obtain path w0 where st: "storeWrite p a e raw w = (path, w0)" by fastforce
  note f = storeWrite_frame [OF st]
  define rec where "rec = (buildScanRecord (p_now p) e
     (decided ''quarantine'' ''SPAM'' (''blocklisted: '' @ bl_Entry bl) 1 []) path)\<lparr>Source := SourceLive\<rparr>"
  have "uidKey rec = (MakeAccountUID a mb uid, uid)" by (simp add: uidKey_def rec_def id del: append.simps)
  with assms(1) obtain err where "createScan rec (w_db w0) = Inl err" by (auto simp: createScan_def Let_def f)
  then obtain err' where "wWrite p (createScan rec) w0 = (w0\<lparr>w_writes := Suc (w_writes w0)\<rparr>, Inl err')"
    by (cases "p_faults p (w_writes w0)") (simp_all add: wWrite_def dbWrite_def)
  with f show ?thesis by (simp add: blockPath_def st rec_def [symmetric] del: append.simps)
qed

text \<open>
  C8. The block list wins, the first time a message is seen: a live run on a message from a block-listed sender, whose row can be stored
  and whose move the server performs, moves it to quarantine with one IMAP call and records it as QUARANTINED spam
  without any scanner being run, and no allow-list entry changes that. When a row already has the key of the message (a
  rescan from the dashboard, or a retry after a crash) the insertion fails on the unique index and the run returns without any IMAP
  call, scanner or change of the database.
\<close>

theorem blocklist_wins:
  assumes "p_slot p" and "\<not> p_starved p" and "parsed p a raw uid mb = Returns (Inr e)" and "blocked p (w_db w) e = Some bl"
    and "p_faults p (w_writes w) = None" and "p_move p (length (w_calls w)) = Inr (q, m)" and "\<not> p_stalls p (length (w_calls w))"
    and "dbOK (w_db w)"
  shows "if (MakeAccountUID a mb uid, uid) \<notin> uidKey ` set (scans (w_db w))
    then (\<exists>w' s. Process p a raw uid mb w = Returns w' \<and> w_up w' = w_up w
      \<and> w_calls w' = w_calls w @ [MoveToQuarantine mb uid]
      \<and> rowOf (nextID (w_db w)) (w_db w') = Some s \<and> Status s = StatusQuarantined \<and> Verdict s = ''SPAM'')
    else (\<exists>w'. Process p a raw uid mb w = Returns w' \<and> w_up w' = w_up w \<and> w_calls w' = w_calls w \<and> w_db w' = w_db w)"
proof -
  let ?w = "blockPath p bl e raw a uid mb SourceLive (takeSlot w)"
  have run: "Process p a raw uid mb w = answered p (takeSlot w) (release ?w)"
    using assms(1-4) by (simp add: Process_def process_def Let_def processEmail_eq)
  note id = parsed_identity [OF assms(3)]
  show ?thesis
  proof (cases "(MakeAccountUID a mb uid, uid) \<in> uidKey ` set (scans (w_db w))")
    case True
    with blockPath_known [of a mb uid "takeSlot w" e p bl raw] id show ?thesis unfolding run by (simp add: answered_known frame)
  next
    case False
    with blockPath_quarantines [of p "takeSlot w" q m a mb uid e bl raw] assms(5-8) id
    have q: "w_calls ?w = w_calls w @ [MoveToQuarantine mb uid]" "w_up ?w = w_up w"
      "hasRow (nextID (w_db w)) (\<lambda>s. Status s = StatusQuarantined \<and> Verdict s = ''SPAM'') (w_db ?w)" by simp_all
    then have "answered p (takeSlot w) (release ?w) = Returns (release ?w)"
      using assms(7) by (intro answered_one [where c = "MoveToQuarantine mb uid"]) (simp_all add: frame)
    with q False show ?thesis unfolding run by (simp add: hasRow_def frame)
  qed
qed

section \<open>Scanning without the pipeline\<close>

lemma gatherPanic_Some:
  "s \<in> set ss \<Longrightarrow> snd s e = Panics m \<Longrightarrow> \<exists>m'. gatherPanic (map (\<lambda>s. snd s e) ss) = Some m'"
  by (induction ss) (auto split: go.splits)

text \<open>
  The recovery from a panicking scanner is in the pipeline only: with a scanner that panics on the message, \<^verbatim>\<open>RunScan\<close>
  panics (in a goroutine, so the program ends), while the pipeline's fan-out still returns one result per scanner.
\<close>

theorem runScan_scanner_panic:
  assumes "Parse (p_lib p) raw ''scan'' 0 ''INBOX''
      (if parseLimit (p_MaxEmailSizeMB p) = 0 then parseLimit 100 else parseLimit (p_MaxEmailSizeMB p)) (p_TrustedAuthservID p)
      = Returns (Inr e)"
    and "s \<in> set (p_scanners p)" and "snd s e = Panics m" and "\<And>t. t \<in> set (p_scanners p) \<Longrightarrow> snd t e \<noteq> Hangs"
  shows "(\<exists>m'. RunScan p raw = Panics m')
    \<and> (\<exists>results. gather (map (runScanner e) (p_scanners p)) = Returns results \<and> length results = length (p_scanners p))"
proof
  show "\<exists>m'. RunScan p raw = Panics m'"
    using assms(1) gatherPanic_Some [OF assms(2,3)] by (auto simp: RunScan_def Let_def gather_def)
  have "gather (map (runScanner e) (p_scanners p)) \<noteq> Hangs" using assms(4) by (auto simp: gather_Hangs)
  then obtain results where r: "gather (map (runScanner e) (p_scanners p)) = Returns results"
    using gather_runScanner by (cases "gather (map (runScanner e) (p_scanners p))") auto
  then have "map (runScanner e) (p_scanners p) = map Returns results" by (simp add: gather_Returns)
  then have "length results = length (p_scanners p)" by (metis length_map)
  with r show "\<exists>results. gather (map (runScanner e) (p_scanners p)) = Returns results \<and> length results = length (p_scanners p)"
    by blast
qed

section \<open>Witnesses\<close>

lemma unparseable_quarantined_witness:
  "\<exists>w' s. Process (demo (Inr (9, ''Q''))) ''acct'' ''bad'' 7 ''INBOX'' (demoWorld emptyDB) = Returns w'
     \<and> w_calls w' = [MoveToQuarantine ''INBOX'' 7] \<and> rowOf 1 (w_db w') = Some s \<and> Status s = StatusQuarantined"
  using unparseable_quarantined [where p = "demo (Inr (9, ''Q''))" and a = "''acct''" and raw = "''bad''" and uid = 7
      and mb = "''INBOX''" and err = "''malformed header''" and w = "demoWorld emptyDB" and q = 9 and m = "''Q''"]
  by (auto simp: emptyDB_def dbOK_def)

definition blockDB :: db where
  "blockDB = allowDB\<lparr>blocklist := [\<lparr>bl_ID = 1, bl_Entry = ''a@b.c'', bl_EntryType = ''address'', bl_AddedReason = []\<rparr>]\<rparr>"

lemma blockDB_facts:
  "blocked (demo r) blockDB demoEmail = Some \<lparr>bl_ID = 1, bl_Entry = ''a@b.c'', bl_EntryType = ''address'', bl_AddedReason = []\<rparr>"
  "dbOK blockDB" "scans blockDB = []" "nextID blockDB = 1"
  by (simp_all add: blocked_def matchBlocklist_def matchList_def demo_candidates blockDB_def allowDB_def emptyDB_def dbOK_def)

lemma blocklist_wins_witness:
  "\<exists>w' s. Process (demo (Inr (9, ''Q''))) ''acct'' ''ok'' 7 ''INBOX'' (demoWorld blockDB) = Returns w' \<and> w_up w' = []
     \<and> w_calls w' = [MoveToQuarantine ''INBOX'' 7] \<and> rowOf 1 (w_db w') = Some s \<and> Verdict s = ''SPAM''"
  using blocklist_wins [where p = "demo (Inr (9, ''Q''))" and a = "''acct''" and raw = "''ok''" and uid = 7
      and mb = "''INBOX''" and e = demoEmail and w = "demoWorld blockDB" and q = 9 and m = "''Q''"]
  by (auto simp: blockDB_facts)

text \<open>A server that never answers the first call holds the run, and with it the worker and its slot.\<close>

lemma stalled_server_holds_run:
  "process ((demo (Inr (9, ''Q'')))\<lparr>p_stalls := (\<lambda>n. n = 0)\<rparr>) ''acct'' ''bad'' 7 ''INBOX'' SourceLive (demoWorld emptyDB) = Hangs"
proof -
  let ?p = "(demo (Inr (9, ''Q'')))\<lparr>p_stalls := (\<lambda>n. n = 0)\<rparr>" and ?w = "takeSlot (demoWorld emptyDB)"
  let ?v = "failClosed ?p (p_ctxDone ?p) (''unparseable message: '' @ ''malformed header'') ''parse-failure'' ''acct'' 7 ''INBOX'' SourceLive ?w"
  have "w_calls ?v = w_calls ?w @ [MoveToQuarantine ''INBOX'' 7]"
    using failClosed_quarantines [of ?p ?w 9 "''Q''" "''acct''" "''INBOX''" 7 "p_ctxDone ?p" "''unparseable message: '' @ ''malformed header''" "''parse-failure''"]
    by (simp add: emptyDB_def dbOK_def del: append.simps)
  then have "answered ?p ?w (release ?v) = Hangs" by (simp add: answered_def frame del: append.simps)
  then show ?thesis by (simp add: process_def Let_def)
qed

lemma runScan_scanner_panic_witness:
  "\<exists>m'. RunScan (demo (Inl ''no'')) ''ok'' = Panics m'"
proof -
  have lim: "p_MaxEmailSizeMB (demo r) = 25" for r by (simp add: demo_def)
  have "Parse demoLib ''ok'' ''scan'' 0 ''INBOX'' m [] = Returns (Inr (headerEmail demoHeader ''ok'' ''scan'' 0 ''INBOX'' []))" for m
    by (simp add: Parse_def demoLib_def walkParts_none walk0_def extractURLs_def headerEmail_def demoHeader_def maxURLsPerEmail_def)
  then have "(\<exists>m'. RunScan (demo (Inl ''no'')) ''ok'' = Panics m')
    \<and> (\<exists>results. gather (map (runScanner (headerEmail demoHeader ''ok'' ''scan'' 0 ''INBOX'' [])) (p_scanners (demo (Inl ''no''))))
          = Returns results \<and> length results = length (p_scanners (demo (Inl ''no''))))"
    by (intro runScan_scanner_panic [where s = "(''yara'', \<lambda>_. Panics ''boom'')" and m = "''boom''"]) (auto simp: lim)
  then show ?thesis by blast
qed

lemma upsertScan_total: "\<exists>d' r. upsertScan rec d = Inr (d', r)"
proof (cases "find (\<lambda>s. uidKey s = uidKey rec) (scans d)")
  case None
  then have "uidKey rec \<notin> uidKey ` set (scans d)" by (auto simp: find_None_iff)
  with None show ?thesis by (simp add: upsertScan_def createScan_def Let_def)
qed (simp add: upsertScan_def)

lemma recordVerdict_moves:
  assumes "\<And>n. p_faults p n = None" and "p_move p (length (w_calls w)) = Inr x" and "vd_Decision vd = ''quarantine''"
  shows "w_calls (recordVerdict p e path SourceLive uid mb vd w) = w_calls w @ [MoveToQuarantine mb uid]"
proof (cases rule: recordVerdict_cases [of w p e vd SourceLive path uid mb])
  case (refused w0 w1 path' err)
  then show ?thesis
    using upsertScan_total [of "verdictRow p e vd path' SourceLive" "w_db w0"] by (auto simp: wWrite_ok assms(1))
next
  case (stored w0 w1 path' rec)
  have "w_calls w1 = w_calls w" using wWrite_frame(1) [OF stored(5)] stored(2) by simp
  with stored(6) assms(2,3) show ?thesis
    by (cases x) (simp add: settle_def move_succeeds frame)
qed

lemma demo_quarantines:
  assumes "process (demo (Inr (9, ''Q''))) ''acct'' ''ok'' 7 ''INBOX'' SourceLive (demoWorld emptyDB) = Returns w'"
  shows "w_calls w' = [MoveToQuarantine ''INBOX'' 7]"
  using assms
proof (cases rule: process_cases)
  case (email e w1)
  let ?p = "demo (Inr (9, ''Q''))"
  have e: "e = demoEmail" using email(2) by simp
  have none: "blocked ?p emptyDB e = None" "bypassed ?p emptyDB e = None" "scannedEmail ?p emptyDB e = e"
    by (simp_all add: blocked_def bypassed_def scannedEmail_def matchBlocklist_def matchWhitelist_def matchList_def emptyDB_def)
  from email(3) show ?thesis
  proof (cases rule: processEmail_cases)
    case (scanned e2 path w0 results)
    have e2: "e2 = demoEmail" using scanned(3) none e by simp
    have "map Returns results = map Returns [clamError, panicResult ''yara'']" using scanned(5) by (simp add: runScanner_def)
    then have "results = [clamError, panicResult ''yara'']" by (simp only: map_Returns_eq)
    moreover have "collect [clamError, panicResult ''yara''] = noSignals"
      by (simp add: collect_def collect1_def clamError_def panicResult_def)
    moreover have "criticalFailure [clamError, panicResult ''yara''] = Some clamError"
      by (simp add: criticalFailure_def criticalScanners_def clamError_def)
    ultimately have "vd_Decision (verdictOf ?p e2 results) = ''quarantine''"
      by (simp add: verdictOf_def finalDecision_def e2 demo_def Decide_decision deleteSignal_def quarantineSignal_def
          length_suspiciousReasons noAuth_def noSignals_def demoEmail_fields)
    with recordVerdict_moves [of ?p "scannerHealth ?p e2 w0"] email(4) scanned(6) storeWrite_frame [OF scanned(4)]
    show ?thesis by (simp add: frame)
  qed (use none in simp_all)
qed simp_all


end
