(* ===== verification/Feeds.thy ===== *)
theory Feeds
  imports NetURL Models
begin

text \<open>
  The threat feeds of \<^verbatim>\<open>app/feeds\<close>: the parsers of the CSV and line formats (over a model of \<^verbatim>\<open>encoding/csv\<close>), the
  feed sources with their fall-back to the cache file, and the manager with its in-memory index, refresh and
  lookups. HTTP answers and cache contents are arguments. A Go map is iterated in an unspecified order,
  which the lookups take as an argument.
\<close>

section \<open>encoding/csv\<close>

abbreviation LF :: char where "LF \<equiv> CHR 0x0A"
abbreviation CR :: char where "CR \<equiv> CHR 0x0D"
abbreviation DQ :: char where "DQ \<equiv> CHR 0x22"

text \<open>\<^verbatim>\<open>readLine\<close>: the next line with its newline, CRLF reduced to LF; None at the end of the input.\<close>

definition csvLine :: "string \<Rightarrow> (string \<times> string) option" where
  "csvLine s =
     (if s = [] then None
      else case indexByte s LF of
        None \<Rightarrow> Some (if last s = CR then butlast s else s, [])
      | Some i \<Rightarrow>
          Some ((if 0 < i \<and> s ! (i - 1) = CR then take (i - 1) s else take i s) @ [LF], drop (Suc i) s))"

definition lengthNL :: "string \<Rightarrow> nat" where
  "lengthNL l = (if l \<noteq> [] \<and> last l = LF then 1 else 0)"

datatype csv_end = NextField | EndRecord | BadRecord

lemma csvLine_shrinks: "csvLine s = Some (l, r) \<Longrightarrow> length l + length r \<le> length s \<and> length r < length s"
  by (auto simp: csvLine_def split: if_splits option.splits dest: indexByte_Some)

text \<open>Inside a quoted field: \<open>buf\<close> is the field so far, \<open>l\<close> the rest of the line, \<open>r\<close> the rest of the input.\<close>

function csvQuoted :: "string \<Rightarrow> string \<Rightarrow> string \<Rightarrow> string \<times> string \<times> string \<times> csv_end" where
  "csvQuoted buf l r =
     (case indexByte l DQ of
        Some i \<Rightarrow>
          (let buf' = buf @ take i l; l' = drop (Suc i) l
           in if l' \<noteq> [] \<and> hd l' = DQ then csvQuoted (buf' @ [DQ]) (tl l') r
              else if l' \<noteq> [] \<and> hd l' = CHR '','' then (buf', tl l', r, NextField)
              else if lengthNL l' = length l' then (buf', [], r, EndRecord)
              else (buf', l', r, BadRecord))
      | None \<Rightarrow>
          if l \<noteq> [] then
            (case csvLine r of None \<Rightarrow> (buf @ l, [], r, BadRecord) | Some (l', r') \<Rightarrow> csvQuoted (buf @ l) l' r')
          else (buf, [], r, BadRecord))"
  by pat_completeness auto
termination
proof (relation "measure (\<lambda>(buf, l, r). length l + length r)", goal_cases)
  case (2 buf l r)
  then show ?case using csvLine_shrinks by (fastforce simp: neq_Nil_conv)
next
  case (3 buf l r i)
  then show ?case using indexByte_Some [of l DQ i] by auto
qed simp

lemma csvQuoted_shrinks:
  "csvQuoted buf l r = (f, l', r', NextField) \<Longrightarrow> length l' + length r' \<le> length l + length r"
proof (induction buf l r arbitrary: f l' r' rule: csvQuoted.induct)
  case (1 buf l r)
  show ?case
  proof (cases "indexByte l DQ")
    case (Some i)
    let ?l = "drop (Suc i) l"
    show ?thesis
    proof (cases "?l \<noteq> [] \<and> hd ?l = DQ")
      case True
      with Some "1.prems" have "csvQuoted (buf @ take i l @ [DQ]) (tl ?l) r = (f, l', r', NextField)"
        by (subst (asm) csvQuoted.simps) (simp add: Let_def)
      with "1.IH"(2) [OF Some refl refl True] show ?thesis by simp
    next
      case False
      with Some "1.prems" show ?thesis
        by (subst (asm) csvQuoted.simps) (auto simp: Let_def split: if_splits)
    qed
  next
    case None
    show ?thesis
    proof (cases "csvLine r")
      case (Some lr)
      obtain a b where lr: "lr = (a, b)" by (cases lr)
      from None Some lr "1.prems" have l: "l \<noteq> []" and c: "csvQuoted (buf @ l) a b = (f, l', r', NextField)"
        by (subst (asm) csvQuoted.simps; auto split: if_splits)+
      from "1.IH"(1) [OF None l Some lr [symmetric] c] csvLine_shrinks [of r a b] Some lr show ?thesis by simp
    qed (use None "1.prems" in \<open>subst (asm) csvQuoted.simps; auto split: if_splits\<close>)
  qed
qed

lemma csvQuoted_rest: "csvQuoted buf l r = (f, l', r', e) \<Longrightarrow> length r' \<le> length r"
proof (induction buf l r arbitrary: f l' r' e rule: csvQuoted.induct)
  case (1 buf l r)
  show ?case
  proof (cases "indexByte l DQ")
    case (Some i)
    let ?l = "drop (Suc i) l"
    show ?thesis
    proof (cases "?l \<noteq> [] \<and> hd ?l = DQ")
      case True
      with Some "1.prems" have "csvQuoted (buf @ take i l @ [DQ]) (tl ?l) r = (f, l', r', e)"
        by (subst (asm) csvQuoted.simps) (simp add: Let_def)
      with "1.IH"(2) [OF Some refl refl True] show ?thesis by simp
    next
      case False
      with Some "1.prems" show ?thesis
        by (subst (asm) csvQuoted.simps) (auto simp: Let_def split: if_splits)
    qed
  next
    case None
    show ?thesis
    proof (cases "l = [] \<or> csvLine r = None")
      case False
      then obtain a b where lr: "csvLine r = Some (a, b)" and l: "l \<noteq> []" by auto
      from None l lr "1.prems" have "csvQuoted (buf @ l) a b = (f, l', r', e)"
        by (subst (asm) csvQuoted.simps) simp
      from "1.IH"(1) [OF None l lr refl this] csvLine_shrinks [OF lr] show ?thesis by simp
    qed (use None "1.prems" in \<open>subst (asm) csvQuoted.simps; auto split: if_splits\<close>)
  qed
qed

declare csvQuoted.simps [simp del]

text \<open>\<^verbatim>\<open>readRecord\<close> from the first field of a line on; None is a record with a parse error.\<close>

function csvFields :: "string list \<Rightarrow> string \<Rightarrow> string \<Rightarrow> string list option \<times> string" where
  "csvFields acc l r =
     (if l = [] \<or> hd l \<noteq> DQ then
        (case indexByte l CHR '','' of
           Some i \<Rightarrow> if DQ \<in> set (take i l) then (None, r) else csvFields (acc @ [take i l]) (drop (Suc i) l) r
         | None \<Rightarrow>
             (let field = take (length l - lengthNL l) l
              in if DQ \<in> set field then (None, r) else (Some (acc @ [field]), r)))
      else
        (case csvQuoted [] (tl l) r of
           (f, l', r', NextField) \<Rightarrow> csvFields (acc @ [f]) l' r'
         | (f, l', r', EndRecord) \<Rightarrow> (Some (acc @ [f]), r')
         | (f, l', r', BadRecord) \<Rightarrow> (None, r')))"
  by pat_completeness auto
termination
proof (relation "measure (\<lambda>(acc, l, r). length l + length r)", goal_cases)
  case (2 acc l r i)
  then show ?case using indexByte_Some [of l "CHR '',''" i] by auto
next
  case 3
  then show ?case by (auto dest!: csvQuoted_shrinks [OF sym] simp: neq_Nil_conv)
qed simp

declare csvFields.simps [simp del]

lemma csvFields_rest: "length (snd (csvFields acc l r)) \<le> length r"
proof (induction acc l r rule: csvFields.induct)
  case (1 acc l r)
  show ?case
  proof (cases "l = [] \<or> hd l \<noteq> DQ")
    case True
    show ?thesis
    proof (cases "indexByte l CHR '',''")
      case (Some i)
      with True "1.IH"(1) [OF True Some] show ?thesis by (subst csvFields.simps) simp
    qed (use True in \<open>subst csvFields.simps; simp add: Let_def\<close>)
  next
    case False
    obtain f l' r' e where q: "csvQuoted [] (tl l) r = (f, l', r', e)" by (metis prod.exhaust)
    note rest = csvQuoted_rest [OF q]
    show ?thesis
    proof (cases e)
      case NextField
      with False q "1.IH"(2) [OF False q [symmetric] refl refl] rest show ?thesis
        by (subst csvFields.simps) simp
    qed (use False q rest in \<open>subst csvFields.simps; simp\<close>)+
  qed
qed

text \<open>
  The loop \<^verbatim>\<open>for { record, err := r.Read() ... }\<close> of both CSV parsers: comment lines and empty lines are skipped, a record
  with an error is skipped, the loop ends at the end of the input.
\<close>

function csvRecords :: "string \<Rightarrow> string list list" where
  "csvRecords s =
     (case csvLine s of
        None \<Rightarrow> []
      | Some (l, r) \<Rightarrow>
          if (l \<noteq> [] \<and> hd l = CHR ''#'') \<or> length l = lengthNL l then csvRecords r
          else (case csvFields [] l r of
                  (None, r') \<Rightarrow> csvRecords r'
                | (Some fs, r') \<Rightarrow> fs # csvRecords r'))"
  by pat_completeness auto
termination
proof (relation "measure length", goal_cases)
  case (2 s lr l r)
  then show ?case using csvLine_shrinks by fastforce
next
  case (3 s lr l r fr r')
  then have "length r < length s" "length r' \<le> length r" using csvLine_shrinks csvFields_rest [of "[]" l r] by (auto dest: arg_cong [of _ _ snd])
  then show ?case by simp
next
  case (4 s lr l r fr r')
  then have "length r < length s" "length r' \<le> length r" using csvLine_shrinks csvFields_rest [of "[]" l r] by (auto dest: arg_cong [of _ _ snd])
  then show ?case by simp
qed simp

declare csvRecords.simps [simp del]

section \<open>Feed formats\<close>

definition parseURLhaus :: "string \<Rightarrow> string list" where
  "parseURLhaus raw =
     concat (map (\<lambda>record.
        if length record < 4 then []
        else (let rawURL = trimSpace (record ! 2); status = trimSpace (record ! 3)
              in if status \<noteq> ''online'' \<or> rawURL = [] then [] else [rawURL])) (csvRecords raw))"

text \<open>\<^verbatim>\<open>bufio.Scanner\<close> lines: the newline and one carriage return before it are dropped, and no empty last line.\<close>

definition scanLines :: "string \<Rightarrow> string list" where
  "scanLines raw =
     (let ls = splitOn LF raw; ls' = (if last ls = [] then butlast ls else ls)
      in map (\<lambda>l. if l \<noteq> [] \<and> last l = CR then butlast l else l) ls')"

definition parseLineFile :: "string \<Rightarrow> string list" where
  "parseLineFile raw = filter (\<lambda>line. line \<noteq> [] \<and> hasPrefix line ''http'') (map trimSpace (scanLines raw))"

definition parseThreatFox :: "string \<Rightarrow> string list" where
  "parseThreatFox raw =
     concat (map (\<lambda>record.
        if length record < 4 then []
        else (let iocType = trimSpace (record ! 3); ioc = trimSpace (record ! 1)
              in if ioc = [] then []
                 else if iocType = ''url'' then [ioc]
                 else if iocType = ''domain'' then [''http://'' @ ioc] else [])) (csvRecords raw))"

text \<open>The loop of \<^verbatim>\<open>parsePhishTankJSONStream\<close> over the decoded elements of the array; an element of another shape ends it.\<close>

fun parsePhishTankEntries :: "json list \<Rightarrow> string list result" where
  "parsePhishTankEntries [] = Inr []"
| "parsePhishTankEntries (JObj kvs # es) =
     (case (jstring (jfield ''url'' kvs), jfield ''verified'' kvs) of
        (Some u, v) \<Rightarrow>
          (case (v, parsePhishTankEntries es) of
             (JBool b, Inr urls) \<Rightarrow> Inr (if b \<and> u \<noteq> [] then u # urls else urls)
           | (JNull, Inr urls) \<Rightarrow> Inr urls
           | (JBool _, Inl e) \<Rightarrow> Inl e
           | (JNull, Inl e) \<Rightarrow> Inl e
           | _ \<Rightarrow> Inl ''phishtank: decode entry'')
      | _ \<Rightarrow> Inl ''phishtank: decode entry'')"
| "parsePhishTankEntries (JNull # es) = parsePhishTankEntries es"
| "parsePhishTankEntries (_ # es) = Inl ''phishtank: decode entry''"

section \<open>Sources\<close>

text \<open>
  \<^verbatim>\<open>Fetch\<close> of the feeds with a text format: the HTTP body (or an error) and the cache file's content (or None) give
  the URLs and the new cache content; a failed cache write is ignored and leaves the old content.
\<close>

definition fetchWith :: "(string \<Rightarrow> string list) \<Rightarrow> bool \<Rightarrow> string result \<Rightarrow> string option \<Rightarrow> string list result \<times> string option" where
  "fetchWith parse writeFails http cache =
     (case http of
        Inl _ \<Rightarrow> (case cache of None \<Rightarrow> Inl ''no cache'' | Some raw \<Rightarrow> Inr (parse raw), cache)
      | Inr raw \<Rightarrow> (Inr (parse raw), if writeFails then cache else Some raw))"

definition urlhaus_Fetch :: "bool \<Rightarrow> string result \<Rightarrow> string option \<Rightarrow> string list result \<times> string option" where
  "urlhaus_Fetch = fetchWith parseURLhaus"

definition openphish_Fetch :: "bool \<Rightarrow> string result \<Rightarrow> string option \<Rightarrow> string list result \<times> string option" where
  "openphish_Fetch = fetchWith parseLineFile"

definition threatfox_Fetch :: "bool \<Rightarrow> string result \<Rightarrow> string option \<Rightarrow> string list result \<times> string option" where
  "threatfox_Fetch = fetchWith parseThreatFox"

section \<open>The manager\<close>

record Manager =
  m_index :: "string set"
  m_feedURLs :: "string \<Rightarrow> string set option"
  m_feedCounts :: "string \<Rightarrow> nat option"
  m_lastLoaded :: go_time

definition newManager :: Manager where
  "newManager = \<lparr>m_index = {}, m_feedURLs = (\<lambda>_. None), m_feedCounts = (\<lambda>_. None), m_lastLoaded = 0\<rparr>"

definition feedNames :: "string list" where
  "feedNames = [''urlhaus'', ''openphish'', ''phishtank'', ''threatfox'']"

definition feedKey :: "string \<Rightarrow> string" where
  "feedKey rawURL =
     (case urlParse rawURL of
        None \<Rightarrow> toLower rawURL
      | Some u \<Rightarrow> trimPrefix (toLower (Hostname u)) ''www.'' @ Path u)"

text \<open>The host as \<^verbatim>\<open>Refresh\<close> and the lookups compute it; empty when the URL does not parse.\<close>

definition feedHost :: "string \<Rightarrow> string" where
  "feedHost rawURL =
     (case urlParse rawURL of None \<Rightarrow> [] | Some u \<Rightarrow> toLower (trimPrefix (Hostname u) ''www.''))"

definition hostIndexed :: "string \<Rightarrow> bool" where
  "hostIndexed name \<longleftrightarrow> name \<noteq> ''urlhaus'' \<and> name \<noteq> ''threatfox''"

definition urlKeys :: "bool \<Rightarrow> string \<Rightarrow> string set" where
  "urlKeys hosts rawURL =
     (if feedKey rawURL = [] then {}
      else insert (feedKey rawURL) (if hosts \<and> feedHost rawURL \<noteq> [] then {feedHost rawURL} else {}))"

definition thisFeedURLs :: "string \<Rightarrow> string list \<Rightarrow> string set" where
  "thisFeedURLs name urls = \<Union> (set (map (urlKeys (hostIndexed name)) urls))"

text \<open>One round of the loop over the feeds; the accumulator is the triple of new maps.\<close>

definition refreshFeed :: "Manager \<Rightarrow> (string \<Rightarrow> string list result) \<Rightarrow> Manager \<Rightarrow> string \<Rightarrow> Manager" where
  "refreshFeed prev fetched acc name =
     (case fetched name of
        Inl _ \<Rightarrow>
          (case m_feedURLs prev name of
             None \<Rightarrow> acc
           | Some p \<Rightarrow> acc\<lparr>m_index := m_index acc \<union> p, m_feedURLs := (m_feedURLs acc)(name \<mapsto> p)\<rparr>)
      | Inr urls \<Rightarrow>
          acc\<lparr>m_index := m_index acc \<union> thisFeedURLs name urls,
              m_feedURLs := (m_feedURLs acc)(name \<mapsto> thisFeedURLs name urls),
              m_feedCounts := (m_feedCounts acc)(name \<mapsto> length urls)\<rparr>)"

definition Refresh :: "go_time \<Rightarrow> (string \<Rightarrow> string list result) \<Rightarrow> Manager \<Rightarrow> Manager" where
  "Refresh now fetched m = (foldl (refreshFeed m fetched) newManager feedNames)\<lparr>m_lastLoaded := now\<rparr>"

definition feedTypes :: "string \<Rightarrow> string" where
  "feedTypes name =
     (if name = ''urlhaus'' \<or> name = ''threatfox'' then ''malware''
      else if name = ''phishtank'' \<or> name = ''openphish'' then ''phishing'' else [])"

text \<open>The loop over \<^verbatim>\<open>m.feedURLs\<close> in the order \<open>order\<close> in which the runtime iterates over the map.\<close>

fun lookupKeys :: "string set \<Rightarrow> string list \<Rightarrow> Manager \<Rightarrow> (string \<times> string) option" where
  "lookupKeys keys [] m = None"
| "lookupKeys keys (name # order) m =
     (case m_feedURLs m name of
        None \<Rightarrow> lookupKeys keys order m
      | Some urls \<Rightarrow> if keys \<inter> urls \<noteq> {} then Some (name, feedTypes name) else lookupKeys keys order m)"

definition LookupURLExact :: "string list \<Rightarrow> Manager \<Rightarrow> string \<Rightarrow> (string \<times> string) option" where
  "LookupURLExact order m rawURL = lookupKeys {feedKey rawURL} order m"

definition LookupURL :: "string list \<Rightarrow> Manager \<Rightarrow> string \<Rightarrow> (string \<times> string) option" where
  "LookupURL order m rawURL =
     lookupKeys (insert (feedKey rawURL) (if feedHost rawURL \<noteq> [] then {feedHost rawURL} else {})) order m"

record CustomFeedEntry =
  cf_Entry :: string
  cf_EntryType :: string

text \<open>The \<^verbatim>\<open>LIKE\<close> operator of SQLite: \<^verbatim>\<open>%\<close> and \<^verbatim>\<open>_\<close> in the pattern, letters compared without case.\<close>

fun sqlLike :: "string \<Rightarrow> string \<Rightarrow> bool" where
  "sqlLike [] s = (s = [])"
| "sqlLike (p # ps) [] = (p = CHR ''%'' \<and> sqlLike ps [])"
| "sqlLike (p # ps) (c # cs) =
     (if p = CHR ''%'' then sqlLike ps (c # cs) \<or> sqlLike (p # ps) cs
      else (p = CHR ''_'' \<or> lowerChar p = lowerChar c) \<and> sqlLike ps cs)"

definition customMatch :: "string \<Rightarrow> string \<Rightarrow> CustomFeedEntry \<Rightarrow> bool" where
  "customMatch host rawURL e \<longleftrightarrow>
     cf_EntryType e = ''domain'' \<and> (host = cf_Entry e \<or> sqlLike (''%.'' @ cf_Entry e) host)
     \<or> cf_EntryType e = ''url'' \<and> cf_Entry e = rawURL"

text \<open>\<open>custom\<close> is the table of custom entries, None when there is no database or the count fails.\<close>

definition ContainsURL :: "CustomFeedEntry list option \<Rightarrow> Manager \<Rightarrow> string \<Rightarrow> bool" where
  "ContainsURL custom m rawURL \<longleftrightarrow>
     feedKey rawURL \<in> m_index m
     \<or> (urlParse rawURL \<noteq> None \<and> feedHost rawURL \<in> m_index m)
     \<or> (feedHost rawURL \<noteq> [] \<and> (\<exists>es. custom = Some es \<and> list_ex (customMatch (feedHost rawURL) rawURL) es))"

record MalwareBazaarHash =
  mh_SHA256 :: string
  mh_Signature :: string

definition LookupHash :: "MalwareBazaarHash list option \<Rightarrow> string \<Rightarrow> string option" where
  "LookupHash table sha256 =
     (case table of None \<Rightarrow> None | Some rows \<Rightarrow> map_option mh_Signature (find (\<lambda>r. mh_SHA256 r = sha256) rows))"

section \<open>The LIKE operator\<close>

lemma sqlLike_plain: "CHR ''%'' \<notin> set p \<Longrightarrow> CHR ''_'' \<notin> set p \<Longrightarrow> sqlLike p s \<longleftrightarrow> toLower p = toLower s"
proof (induction p arbitrary: s)
  case (Cons c p)
  then show ?case by (cases s) (auto simp: toLower_def)
qed (auto simp: toLower_def)

lemma sqlLike_percent: "sqlLike (CHR ''%'' # p) s \<longleftrightarrow> (\<exists>pre t. s = pre @ t \<and> sqlLike p t)"
proof (induction s)
  case (Cons c s)
  have "(\<exists>pre t. c # s = pre @ t \<and> sqlLike p t) \<longleftrightarrow> sqlLike p (c # s) \<or> (\<exists>pre t. s = pre @ t \<and> sqlLike p t)"
    by (metis append_Cons append_Nil Cons_eq_append_conv)
  then show ?case using Cons by simp
qed simp

section \<open>The index\<close>

text \<open>The index is the union of the per-feed sets, and no set holds the empty key.\<close>

definition indexOK :: "Manager \<Rightarrow> bool" where
  "indexOK m \<longleftrightarrow> m_index m = \<Union> (ran (m_feedURLs m)) \<and> [] \<notin> m_index m \<and> dom (m_feedURLs m) \<subseteq> set feedNames"

lemma newManager_OK [simp]: "indexOK newManager"
  by (simp add: indexOK_def newManager_def)

lemma thisFeedURLs_nonempty: "[] \<notin> thisFeedURLs name urls"
  by (auto simp: thisFeedURLs_def urlKeys_def split: if_splits)

lemma refreshFeed_OK:
  assumes "indexOK acc" and "indexOK prev" and "m_feedURLs acc name = None" and "name \<in> set feedNames"
  shows "indexOK (refreshFeed prev fetched acc name)"
proof -
  have "[] \<notin> p" if "m_feedURLs prev name = Some p" for p
    using assms(2) that by (auto simp: indexOK_def ran_def)
  then show ?thesis
    using assms(1,3,4) thisFeedURLs_nonempty
    by (auto simp: refreshFeed_def indexOK_def ran_map_upd split: sum.splits option.splits)
qed

lemma refreshFeed_other: "n \<noteq> name \<Longrightarrow> m_feedURLs (refreshFeed prev fetched acc name) n = m_feedURLs acc n"
  by (simp add: refreshFeed_def split: sum.splits option.splits)

lemma refreshFeed_same:
  "m_feedURLs acc name = None \<Longrightarrow> m_feedURLs (refreshFeed prev fetched acc name) name =
     (case fetched name of Inl _ \<Rightarrow> m_feedURLs prev name | Inr urls \<Rightarrow> Some (thisFeedURLs name urls))"
  by (simp add: refreshFeed_def split: sum.splits option.splits)

lemma refresh_loop:
  assumes "distinct names" and "indexOK acc" and "indexOK prev" and "\<forall>n \<in> set names. m_feedURLs acc n = None" and "set names \<subseteq> set feedNames"
  shows "indexOK (foldl (refreshFeed prev fetched) acc names)
    \<and> (\<forall>n. m_feedURLs (foldl (refreshFeed prev fetched) acc names) n =
         (if n \<in> set names then (case fetched n of Inl _ \<Rightarrow> m_feedURLs prev n | Inr urls \<Rightarrow> Some (thisFeedURLs n urls))
          else m_feedURLs acc n))"
  using assms
proof (induction names arbitrary: acc)
  case (Cons a names)
  let ?acc = "refreshFeed prev fetched acc a"
  have "indexOK ?acc" using Cons.prems by (intro refreshFeed_OK) auto
  moreover have "\<forall>n \<in> set names. m_feedURLs ?acc n = None"
    using Cons.prems refreshFeed_other [of _ a prev fetched acc] by (metis distinct.simps(2) list.set_intros(2))
  ultimately have "indexOK (foldl (refreshFeed prev fetched) ?acc names)
    \<and> (\<forall>n. m_feedURLs (foldl (refreshFeed prev fetched) ?acc names) n =
         (if n \<in> set names then (case fetched n of Inl _ \<Rightarrow> m_feedURLs prev n | Inr urls \<Rightarrow> Some (thisFeedURLs n urls))
          else m_feedURLs ?acc n))"
    using Cons.prems by (intro Cons.IH) auto
  moreover have "m_feedURLs ?acc n = (if n = a then (case fetched a of Inl _ \<Rightarrow> m_feedURLs prev a | Inr urls \<Rightarrow> Some (thisFeedURLs a urls))
      else m_feedURLs acc n)" for n
    using Cons.prems refreshFeed_same [of acc a prev fetched] refreshFeed_other [of n a prev fetched acc] by simp
  ultimately show ?case by auto
qed simp

lemma feedNames_distinct: "distinct feedNames"
  by (simp add: feedNames_def)

lemma Refresh_OK:
  assumes "indexOK m"
  shows "indexOK (Refresh now fetched m)"
    and "n \<in> set feedNames \<Longrightarrow> m_feedURLs (Refresh now fetched m) n =
       (case fetched n of Inl _ \<Rightarrow> m_feedURLs m n | Inr urls \<Rightarrow> Some (thisFeedURLs n urls))"
proof -
  have l: "indexOK (m\<lparr>m_lastLoaded := t\<rparr>) = indexOK m" for m t by (simp add: indexOK_def)
  have none: "\<forall>n \<in> set feedNames. m_feedURLs newManager n = None" by (simp add: newManager_def)
  note r = refresh_loop [OF feedNames_distinct newManager_OK assms none subset_refl, of fetched]
  show "indexOK (Refresh now fetched m)" using r by (simp add: Refresh_def l)
  show "n \<in> set feedNames \<Longrightarrow> m_feedURLs (Refresh now fetched m) n =
       (case fetched n of Inl _ \<Rightarrow> m_feedURLs m n | Inr urls \<Rightarrow> Some (thisFeedURLs n urls))"
    using r by (simp add: Refresh_def)
qed

section \<open>Lookups\<close>

definition feedHits :: "string set \<Rightarrow> Manager \<Rightarrow> string \<Rightarrow> bool" where
  "feedHits keys m name \<longleftrightarrow> (\<exists>urls. m_feedURLs m name = Some urls \<and> keys \<inter> urls \<noteq> {})"

lemma lookupKeys_eq:
  "lookupKeys keys order m = map_option (\<lambda>name. (name, feedTypes name)) (find (feedHits keys m) order)"
  by (induction order) (simp_all add: feedHits_def split: option.splits)

lemma lookupKeys_found: "lookupKeys keys order m \<noteq> None \<longleftrightarrow> (\<exists>name. name \<in> set order \<and> feedHits keys m name)"
  by (simp only: lookupKeys_eq map_option_is_None find_None_iff) blast

lemma feedHits_index:
  assumes "indexOK m" and "set feedNames \<subseteq> set order"
  shows "(\<exists>name. name \<in> set order \<and> feedHits keys m name) \<longleftrightarrow> keys \<inter> m_index m \<noteq> {}"
proof
  assume "keys \<inter> m_index m \<noteq> {}"
  then obtain k name urls where k: "k \<in> keys" "k \<in> urls" and n: "m_feedURLs m name = Some urls"
    using assms(1) by (auto simp: indexOK_def ran_def)
  then have "name \<in> set order" using assms by (auto simp: indexOK_def dom_def)
  with k n show "\<exists>name. name \<in> set order \<and> feedHits keys m name" by (auto simp: feedHits_def)
next
  assume "\<exists>name. name \<in> set order \<and> feedHits keys m name"
  then obtain name urls where "m_feedURLs m name = Some urls" "keys \<inter> urls \<noteq> {}" by (auto simp: feedHits_def)
  moreover from this(1) have "urls \<subseteq> m_index m" using assms(1) ranI [of "m_feedURLs m" name urls] by (auto simp: indexOK_def)
  ultimately show "keys \<inter> m_index m \<noteq> {}" by blast
qed

lemma feedHits_mono: "feedHits keys m name \<Longrightarrow> keys \<subseteq> keys' \<Longrightarrow> feedHits keys' m name"
  by (auto simp: feedHits_def)

section \<open>The lookup interface\<close>

text \<open>
  What the scanners rely on (\<^verbatim>\<open>feedManager\<close> and \<^verbatim>\<open>retroFeedLookup\<close>): an exact match is also a match. The URL rule of the
  scanners that use both lookups is stated over the interface: shared hosting domains are
  looked up exactly, other domains with the host fall-back.
\<close>

definition guardedLookup :: "(string \<Rightarrow> bool) \<Rightarrow> (string \<Rightarrow> 'r option) \<Rightarrow> (string \<Rightarrow> 'r option) \<Rightarrow> string \<Rightarrow> string \<Rightarrow> 'r option" where
  "guardedLookup shared lookup exact domain rawURL = (if shared domain then exact rawURL else lookup rawURL)"

locale feed_lookup =
  fixes lookup :: "string \<Rightarrow> 'r option" and exact :: "string \<Rightarrow> 'r option"
  assumes exact_is_match: "exact u \<noteq> None \<Longrightarrow> lookup u \<noteq> None"
begin

lemma guarded_exact: "exact u \<noteq> None \<Longrightarrow> guardedLookup shared lookup exact d u \<noteq> None"
  using exact_is_match by (simp add: guardedLookup_def)

lemma guarded_match: "guardedLookup shared lookup exact d u \<noteq> None \<Longrightarrow> lookup u \<noteq> None"
  using exact_is_match by (auto simp: guardedLookup_def split: if_splits)

end

interpretation feeds: feed_lookup "LookupURL order m" "LookupURLExact order m" for order m
proof
  fix u
  assume "LookupURLExact order m u \<noteq> None"
  then obtain name where "name \<in> set order" "feedHits {feedKey u} m name"
    unfolding LookupURLExact_def lookupKeys_found by blast
  then show "LookupURL order m u \<noteq> None"
    unfolding LookupURL_def lookupKeys_found by (metis feedHits_mono insert_mono empty_subsetI)
qed

section \<open>Properties of the feeds\<close>

text \<open>
  No feed amnesia: when the download of a feed fails during a refresh, every URL that this feed flagged before
  the refresh is still flagged by it afterwards, and the index stays the union of the feeds' sets.
\<close>

theorem refresh_no_amnesia:
  assumes "indexOK m" and "name \<in> set feedNames" and "fetched name = Inl err"
    and "LookupURL [name] m u = Some r"
  shows "LookupURL [name] (Refresh now fetched m) u = Some r \<and> indexOK (Refresh now fetched m)"
proof -
  have "m_feedURLs (Refresh now fetched m) name = m_feedURLs m name"
    using Refresh_OK(2) [OF assms(1,2)] assms(3) by simp
  then have "lookupKeys keys [name] (Refresh now fetched m) = lookupKeys keys [name] m" for keys by (simp split: option.split)
  with assms(4) Refresh_OK(1) [OF assms(1)] show ?thesis unfolding LookupURL_def by metis
qed

lemma refresh_feedKey_hit:
  assumes "indexOK m" and "name \<in> set feedNames" and "fetched name = Inr urls" and "u \<in> set urls" and "feedKey u \<noteq> []"
  shows "feedHits {feedKey u} (Refresh now fetched m) name"
proof -
  have "m_feedURLs (Refresh now fetched m) name = Some (thisFeedURLs name urls)" using Refresh_OK(2) [OF assms(1,2)] assms(3) by simp
  moreover have "feedKey u \<in> thisFeedURLs name urls" using assms(4,5) by (auto simp: thisFeedURLs_def urlKeys_def)
  ultimately show ?thesis by (simp add: feedHits_def)
qed

lemma refresh_listed_exact:
  assumes "indexOK m" and "name \<in> set feedNames" and "fetched name = Inr urls" and "u \<in> set urls" and "feedKey u \<noteq> []"
    and "set feedNames \<subseteq> set order"
  shows "LookupURLExact order (Refresh now fetched m) u \<noteq> None"
  using refresh_feedKey_hit [of m name fetched urls u now] assms unfolding LookupURLExact_def lookupKeys_found by blast

text \<open>
  A refresh makes what it downloads visible: a URL in a feed's list is found by the exact lookup, and for the phishing
  feeds (not URLhaus or ThreatFox) every URL with the same host is found by the lookup with host fall-back.
\<close>

theorem refresh_finds_listed:
  assumes "indexOK m" and "name \<in> set feedNames" and "fetched name = Inr urls" and "u \<in> set urls" and "feedKey u \<noteq> []"
    and "set feedNames \<subseteq> set order"
  shows "LookupURLExact order (Refresh now fetched m) u \<noteq> None
    \<and> (hostIndexed name \<and> feedHost v = feedHost u \<and> feedHost u \<noteq> [] \<longrightarrow> LookupURL order (Refresh now fetched m) v \<noteq> None)"
proof -
  let ?m = "Refresh now fetched m"
  have f: "m_feedURLs ?m name = Some (thisFeedURLs name urls)" using Refresh_OK(2) [OF assms(1,2)] assms(3) by simp
  have "LookupURLExact order ?m u \<noteq> None" using refresh_listed_exact [of m name fetched urls u order now] assms by blast
  moreover have "feedHits {feedKey v, feedHost v} ?m name" if "hostIndexed name" "feedHost v = feedHost u" "feedHost u \<noteq> []"
  proof -
    have "feedHost v \<in> thisFeedURLs name urls" using that assms(4,5) by (auto simp: thisFeedURLs_def urlKeys_def)
    with f show ?thesis by (simp add: feedHits_def)
  qed
  moreover have "name \<in> set order" using assms(2,6) by auto
  ultimately show ?thesis unfolding LookupURL_def lookupKeys_found by auto
qed

text \<open>
  Whether a URL is flagged does not depend on the order in which the feeds are visited: for any order that visits
  every feed, the lookup succeeds exactly when the key or the host of the URL is in the index.
\<close>

theorem lookup_iff_index:
  assumes "indexOK m" and "set feedNames \<subseteq> set order"
  shows "LookupURL order m u \<noteq> None \<longleftrightarrow> ContainsURL None m u"
proof -
  have e: "[] \<notin> m_index m" using assms(1) unfolding indexOK_def by blast
  have "feedHost u = [] \<or> urlParse u \<noteq> None" by (cases "urlParse u") (simp_all add: feedHost_def)
  with e show ?thesis
    unfolding LookupURL_def lookupKeys_found feedHits_index [OF assms] ContainsURL_def by auto
qed

section \<open>Witnesses\<close>

definition demoFetch :: "string \<Rightarrow> string list result" where
  "demoFetch name = (if name = ''openphish'' then Inr [''EVIL''] else Inl ''down'')"

lemma demo_feed: "feedKey ''EVIL'' = ''EVIL'' \<and> feedHost ''EVIL'' = []"
  by code_simp

lemma refresh_finds_listed_witness:
  "LookupURLExact feedNames (Refresh 1 demoFetch newManager) ''EVIL'' \<noteq> None"
  using refresh_finds_listed [of newManager "''openphish''" demoFetch "[''EVIL'']" "''EVIL''" feedNames 1 "''EVIL''"]
  by (simp add: demo_feed demoFetch_def feedNames_def)

lemma refresh_no_amnesia_witness:
  "LookupURL [''openphish''] (Refresh 2 (\<lambda>_. Inl ''down'') (Refresh 1 demoFetch newManager)) ''EVIL''
     = Some (''openphish'', ''phishing'')"
proof -
  let ?m = "Refresh 1 demoFetch newManager"
  have f: "m_feedURLs ?m ''openphish'' = Some (thisFeedURLs ''openphish'' [''EVIL''])"
    using Refresh_OK(2) [OF newManager_OK, of "''openphish''" 1 demoFetch] by (simp add: feedNames_def demoFetch_def)
  then have "LookupURL [''openphish''] ?m ''EVIL'' = Some (''openphish'', ''phishing'')"
    by (simp add: LookupURL_def thisFeedURLs_def urlKeys_def demo_feed feedTypes_def)
  with refresh_no_amnesia [of ?m "''openphish''" "\<lambda>_. Inl ''down''" "''down''"] show ?thesis
    by (simp add: Refresh_OK(1) feedNames_def)
qed

lemma lookup_iff_index_witness: "LookupURL feedNames newManager ''EVIL'' = None"
proof -
  have "\<not> ContainsURL None newManager ''EVIL''" by (simp add: ContainsURL_def newManager_def)
  with lookup_iff_index [OF newManager_OK subset_refl, of "''EVIL''"] show ?thesis by blast
qed

end
