(* ===== verification/UrlScanners.thy ===== *)
theory UrlScanners
  imports Verdict Feeds
begin

text \<open>
  The scanners that only consult the threat feeds: \<^verbatim>\<open>scanners/urlcheck.go\<close>, \<^verbatim>\<open>scanners/urlunshorten.go\<close> (redirect chains with the
  guard against requests to internal addresses) and \<^verbatim>\<open>scanners/malwarebazaar.go\<close>. DNS answers, HTTP answers and the rate
  limiter (\<^verbatim>\<open>golang.org/x/time/rate\<close>) are arguments. The scanner contract is a locale, interpreted by each scanner.
\<close>

section \<open>The scanner contract\<close>

definition scanVerdicts :: "string list" where
  "scanVerdicts = [''clean'', ''suspicious'', ''malicious'', ''error'', ''skip'']"

locale scanner =
  fixes name :: string and scan :: "Email \<Rightarrow> ScanResult"
  assumes own_name: "sr_Scanner (scan e) = name"
    and known_verdict: "sr_Verdict (scan e) \<in> set scanVerdicts"
begin

lemma reports_once:
  assumes "name \<notin> sr_Scanner ` set rs" and "distinct (map sr_Scanner rs)"
  shows "distinct (map sr_Scanner (rs @ [scan e]))"
  using assms own_name by auto

end

definition result :: "string \<Rightarrow> string \<Rightarrow> string \<Rightarrow> jcol \<Rightarrow> ScanResult" where
  "result name verdict detail matches =
     \<lparr>sr_Scanner = name, sr_Verdict = verdict, sr_Score = 0, sr_Detail = detail, sr_Matches = matches\<rparr>"

definition clip500 :: "string \<Rightarrow> string" where
  "clip500 detail = (if length detail > 500 then take 500 detail @ ellipsis else detail)"

section \<open>URLCheck\<close>

definition sharedHostingDomains :: "string list" where
  "sharedHostingDomains =
     [''github.com'', ''raw.githubusercontent.com'', ''gist.github.com'', ''google.com'', ''googleapis.com'',
      ''googleusercontent.com'', ''gstatic.com'', ''drive.google.com'', ''docs.google.com'', ''microsoft.com'',
      ''live.com'', ''office.com'', ''onedrive.live.com'', ''sharepoint.com'', ''apple.com'', ''icloud.com'',
      ''amazon.com'', ''amazonaws.com'', ''cloudfront.net'', ''cloudflare.com'', ''discord.com'', ''discordapp.com'',
      ''dropbox.com'', ''pastebin.com'', ''youtube.com'', ''youtu.be'', ''linkedin.com'', ''twitter.com'', ''x.com'',
      ''facebook.com'', ''instagram.com'', ''npm.js'', ''npmjs.com'', ''pypi.org'', ''stackoverflow.com'',
      ''gitlab.com'', ''bitbucket.org'']"

text \<open>Membership of a host or of its parent domain, as both shared-hosting guards compute it.\<close>

definition hostOrParent :: "string list \<Rightarrow> string \<Rightarrow> bool" where
  "hostOrParent domains host \<longleftrightarrow>
     host \<in> set domains \<or> (case indexByte host CHR ''.'' of None \<Rightarrow> False | Some dot \<Rightarrow> drop (Suc dot) host \<in> set domains)"

definition isSharedHostingDomain :: "string \<Rightarrow> bool" where
  "isSharedHostingDomain host = hostOrParent sharedHostingDomains host"

definition extractURLDomain :: "string \<Rightarrow> string" where
  "extractURLDomain rawURL =
     (case urlParse rawURL of None \<Rightarrow> [] | Some u \<Rightarrow> trimPrefix (toLower (Hostname u)) ''www.'')"

type_synonym lookup = "string \<Rightarrow> (string \<times> string) option"

text \<open>The hits of the loop over the URLs, in order.\<close>

definition urlHits :: "(string \<Rightarrow> bool) \<Rightarrow> lookup \<Rightarrow> lookup \<Rightarrow> string list \<Rightarrow> URLHit list" where
  "urlHits shared lookup exact urls =
     concat (map (\<lambda>rawURL.
        case guardedLookup shared lookup exact (extractURLDomain rawURL) rawURL of
          None \<Rightarrow> []
        | Some (feed, threatType) \<Rightarrow>
            [\<lparr>uh_URL = rawURL, uh_Domain = extractURLDomain rawURL, uh_Feed = feed, uh_ThreatType = threatType\<rparr>]) urls)"

definition URLCheck_Scan :: "bool \<Rightarrow> bool \<Rightarrow> lookup \<Rightarrow> lookup \<Rightarrow> Email \<Rightarrow> ScanResult" where
  "URLCheck_Scan enabled ctxDone lookup exact email =
     (if \<not> enabled then result ''urlcheck'' ''skip'' ''disabled'' None
      else if em_URLs email = [] then result ''urlcheck'' ''clean'' [] None
      else if ctxDone then result ''urlcheck'' ''skip'' ''context cancelled'' None
      else (let hits = urlHits isSharedHostingDomain lookup exact (em_URLs email)
            in if hits = [] then result ''urlcheck'' ''clean'' [] None
               else result ''urlcheck'' ''malicious'' (clip500 (strJoin (map uh_URL hits) '', ''))
                      (Some (JArr (map marshalURLHit hits)))))"

section \<open>References of net/url\<close>

text \<open>The loop of \<^verbatim>\<open>resolvePath\<close> over the path elements; the builder holds the text after the leading slash.\<close>

fun pathLoop :: "string list \<Rightarrow> string \<Rightarrow> bool \<Rightarrow> string" where
  "pathLoop [] dst first = dst"
| "pathLoop (el # els) dst first =
     (if el = ''.'' then pathLoop els dst False
      else if el = ''..'' then
        (case lastIndexByte dst CHR ''/'' of
           None \<Rightarrow> pathLoop els [] True
         | Some i \<Rightarrow> pathLoop els (take i dst) first)
      else pathLoop els (dst @ (if first then [] else ''/'') @ el) False)"

definition resolvePath :: "string \<Rightarrow> string \<Rightarrow> string" where
  "resolvePath base ref =
     (let full = (if ref = [] then base
                  else if hd ref \<noteq> CHR ''/''
                  then (case lastIndexByte base CHR ''/'' of None \<Rightarrow> [] | Some i \<Rightarrow> take (Suc i) base) @ ref
                  else ref)
      in if full = [] then []
         else (let els = splitOn CHR ''/'' full;
                   dst = pathLoop els [] True @ (if last els \<in> {''.'', ''..''} then ''/'' else []);
                   r = ''/'' @ dst
               in if dst \<noteq> [] \<and> hd dst = CHR ''/'' then tl r else r))"

definition setPathOr :: "URL \<Rightarrow> string \<Rightarrow> URL" where
  "setPathOr u p = (case setPath u p of Some u' \<Rightarrow> u' | None \<Rightarrow> u)"

definition ResolveReference :: "URL \<Rightarrow> URL \<Rightarrow> URL" where
  "ResolveReference u ref =
     (let url = (if Scheme ref = [] then ref\<lparr>Scheme := Scheme u\<rparr> else ref)
      in if Scheme ref \<noteq> [] \<or> Host ref \<noteq> [] \<or> User ref \<noteq> None then setPathOr url (resolvePath (EscapedPath ref) [])
         else if Opaque ref \<noteq> [] then url\<lparr>User := None, Host := [], Path := []\<rparr>
         else (let url1 = (if Path ref = [] \<and> \<not> ForceQuery ref \<and> RawQuery ref = []
                  then (let q = url\<lparr>RawQuery := RawQuery u\<rparr>
                        in if Fragment ref = [] then q\<lparr>Fragment := Fragment u, RawFragment := RawFragment u\<rparr> else q)
                  else url)
               in if Path ref = [] \<and> Opaque u \<noteq> [] then url1\<lparr>Opaque := Opaque u, User := None, Host := [], Path := []\<rparr>
                  else setPathOr (url1\<lparr>Host := Host u, User := User u\<rparr>) (resolvePath (EscapedPath u) (EscapedPath ref))))"

section \<open>URLUnshorten\<close>

type_synonym dns = "string \<Rightarrow> string list result"

definition isSSRFTarget :: "dns \<Rightarrow> string \<Rightarrow> bool" where
  "isSSRFTarget LookupHost hostname =
     (case LookupHost hostname of
        Inl _ \<Rightarrow> True
      | Inr ips \<Rightarrow> list_ex (\<lambda>s. case ParseIP s of None \<Rightarrow> False | Some i \<Rightarrow> \<not> IsPublicIP (Some i)) ips)"

text \<open>The address that \<^verbatim>\<open>DialContext\<close> of the guarded client connects to: its own resolution, its first answer, checked.\<close>

definition dialTarget :: "dns \<Rightarrow> string \<Rightarrow> string result" where
  "dialTarget LookupHost host =
     (case LookupHost host of
        Inl e \<Rightarrow> Inl (''ssrf: cannot resolve '' @ host)
      | Inr [] \<Rightarrow> Inl (''ssrf: cannot resolve '' @ host)
      | Inr (a # _) \<Rightarrow>
          (case ParseIP a of
             None \<Rightarrow> Inl (''ssrf: non-public address '' @ a)
           | Some i \<Rightarrow> if IsPublicIP (Some i) then Inr a else Inl (''ssrf: non-public address '' @ a)))"

record redirect =
  rd_final :: string
  rd_hops :: nat
  rd_blocked :: bool
  rd_err :: "error option"
  rd_requests :: "(string \<times> string) list"   \<comment> \<open>URL requested and the host name the guard had approved for it\<close>

text \<open>
  The loop of \<^verbatim>\<open>followRedirects\<close>. \<open>head\<close> is the answer to the request for a URL (an error, or status and \<^verbatim>\<open>Location\<close>), \<open>dns\<close> at n
  the resolver at the time of the n-th check. \<open>fuel\<close> is \<^verbatim>\<open>maxHops\<close> minus the loop variable, so it bounds the loop as the source does.
\<close>

fun redirectLoop :: "(string \<Rightarrow> (int \<times> string) result) \<Rightarrow> (nat \<Rightarrow> dns) \<Rightarrow> nat \<Rightarrow> string \<Rightarrow> string \<Rightarrow> nat
    \<Rightarrow> (string \<times> string) list \<Rightarrow> redirect" where
  "redirectLoop head dns 0 current approved hops reqs =
     \<lparr>rd_final = current, rd_hops = hops, rd_blocked = False, rd_err = None, rd_requests = reqs\<rparr>"
| "redirectLoop head dns (Suc fuel) current approved hops reqs =
     (let reqs' = reqs @ [(current, approved)];
          stop = (\<lambda>blocked err. \<lparr>rd_final = current, rd_hops = hops, rd_blocked = blocked, rd_err = err, rd_requests = reqs'\<rparr>)
      in case head current of
           Inl e \<Rightarrow> stop False (Some e)
         | Inr (status, loc) \<Rightarrow>
             if status < 300 \<or> status \<ge> 400 \<or> loc = [] then stop False None
             else (case (urlParse current, urlParse loc) of
                     (Some base, Some target) \<Rightarrow>
                       (let resolved = ResolveReference base target
                        in if isSSRFTarget (dns (Suc hops)) (Hostname resolved) then stop True None
                           else redirectLoop head dns fuel (urlString resolved) (Hostname resolved) (Suc hops) reqs')
                   | _ \<Rightarrow> stop False (Some ''parse error'')))"

definition followRedirects :: "(string \<Rightarrow> (int \<times> string) result) \<Rightarrow> (nat \<Rightarrow> dns) \<Rightarrow> nat \<Rightarrow> string \<Rightarrow> redirect" where
  "followRedirects head dns maxHops rawURL =
     (let host = (case urlParse rawURL of None \<Rightarrow> [] | Some u \<Rightarrow> Hostname u)
      in if host \<noteq> [] \<and> isSSRFTarget (dns 0) host
         then \<lparr>rd_final = rawURL, rd_hops = 0, rd_blocked = True, rd_err = None, rd_requests = []\<rparr>
         else redirectLoop head dns maxHops rawURL host 0 [])"

text \<open>One round of \<^verbatim>\<open>Scan\<close>: nothing for a URL the limiter refuses, that fails, or that neither redirects nor is blocked.\<close>

definition resolvedHit :: "(string \<Rightarrow> (int \<times> string) result) \<Rightarrow> (nat \<Rightarrow> dns) \<Rightarrow> nat \<Rightarrow> lookup \<Rightarrow> string \<Rightarrow> ResolvedURLHit option" where
  "resolvedHit head dns maxHops lookup rawURL =
     (let r = followRedirects head dns maxHops rawURL;
          hit = (if rd_blocked r then None else lookup (rd_final r))
      in if rd_err r \<noteq> None \<or> rd_hops r = 0 \<and> \<not> rd_blocked r then None
         else Some \<lparr>rh_OriginalURL = rawURL, rh_ResolvedURL = rd_final r, rh_Hops = int (rd_hops r),
                    rh_Feed = (case hit of None \<Rightarrow> [] | Some (f, _) \<Rightarrow> f),
                    rh_ThreatType = (case hit of None \<Rightarrow> [] | Some (_, t) \<Rightarrow> t), rh_Blocked = rd_blocked r\<rparr>)"

definition URLUnshorten_Scan :: "bool \<Rightarrow> (nat \<Rightarrow> bool) \<Rightarrow> (string \<Rightarrow> (int \<times> string) result) \<Rightarrow> (nat \<Rightarrow> dns) \<Rightarrow> nat \<Rightarrow> lookup \<Rightarrow> Email \<Rightarrow> ScanResult" where
  "URLUnshorten_Scan enabled allow head dns maxHops lookup email =
     (if \<not> enabled then result ''urlunshorten'' ''skip'' ''disabled'' None
      else if em_URLs email = [] then result ''urlunshorten'' ''clean'' [] None
      else (let urls = map snd (filter (\<lambda>(i, _). allow i) (enumerate 0 (em_URLs email)));
                hits = List.map_filter (resolvedHit head dns maxHops lookup) urls;
                malicious = list_ex (\<lambda>u. let r = followRedirects head dns maxHops u in
                   rd_err r = None \<and> \<not> rd_blocked r \<and> 0 < rd_hops r \<and> lookup (rd_final r) \<noteq> None) urls
            in if hits = [] then result ''urlunshorten'' ''clean'' [] None
               else if malicious then
                 result ''urlunshorten'' ''malicious''
                   (clip500 (strJoin (map rh_ResolvedURL (filter (\<lambda>h. rh_Feed h \<noteq> []) hits)) '', ''))
                   (Some (JArr (map marshalResolvedURLHit hits)))
               else result ''urlunshorten'' ''clean'' [] (Some (JArr (map marshalResolvedURLHit hits)))))"

section \<open>MalwareBazaar\<close>

definition mbHits :: "(string \<Rightarrow> string option) \<Rightarrow> Attachment list \<Rightarrow> MBResult list" where
  "mbHits lookupHash atts =
     List.map_filter (\<lambda>a. if \<not> at_IsDangerous a then None
        else map_option (\<lambda>sig. \<lparr>mb_SHA256 = at_SHA256 a, mb_Filename = at_Filename a, mb_Signature = sig, mb_Source = ''feed''\<rparr>)
               (lookupHash (at_SHA256 a))) atts"

definition MalwareBazaar_Scan :: "bool \<Rightarrow> (string \<Rightarrow> string option) \<Rightarrow> Email \<Rightarrow> ScanResult" where
  "MalwareBazaar_Scan enabled lookupHash email =
     (if \<not> enabled then result ''malwarebazaar'' ''skip'' ''disabled'' None
      else if em_Attachments email = [] then result ''malwarebazaar'' ''skip'' ''no attachments'' None
      else (let hits = mbHits lookupHash (em_Attachments email)
            in if hits = [] then result ''malwarebazaar'' ''clean'' [] None
               else (result ''malwarebazaar'' ''malicious''
                      (''MalwareBazaar: '' @ natStr (length hits) @ '' attachment(s) matched feed'')
                      (Some (JArr (map marshalMBResult hits))))\<lparr>sr_Score := 1\<rparr>))"

section \<open>The scanners meet the contract\<close>

lemma result_simps [simp]:
  "sr_Scanner (result n v d j) = n" "sr_Verdict (result n v d j) = v" "sr_Matches (result n v d j) = j"
  by (simp_all add: result_def)

interpretation urlcheck: scanner "''urlcheck''" "URLCheck_Scan enabled ctxDone lookup exact" for enabled ctxDone lookup exact
  by unfold_locales (simp_all add: URLCheck_Scan_def Let_def scanVerdicts_def)

interpretation urlunshorten: scanner "''urlunshorten''" "URLUnshorten_Scan enabled allow head dns maxHops lookup"
  for enabled allow head dns maxHops lookup
  by unfold_locales (simp_all add: URLUnshorten_Scan_def Let_def scanVerdicts_def)

interpretation malwarebazaar: scanner "''malwarebazaar''" "MalwareBazaar_Scan enabled lookupHash" for enabled lookupHash
  by unfold_locales (simp_all add: MalwareBazaar_Scan_def Let_def scanVerdicts_def)

section \<open>URL hits\<close>

lemma urlHits_empty:
  "urlHits shared lookup exact urls = [] \<longleftrightarrow>
     (\<forall>u \<in> set urls. guardedLookup shared lookup exact (extractURLDomain u) u = None)"
  by (induction urls) (auto simp: urlHits_def split: option.splits)

lemma urlHits_urls:
  "map uh_URL (urlHits shared lookup exact urls) =
     filter (\<lambda>u. guardedLookup shared lookup exact (extractURLDomain u) u \<noteq> None) urls"
  by (induction urls) (auto simp: urlHits_def split: option.splits)

lemma URLCheck_malicious:
  "sr_Verdict (URLCheck_Scan True False lookup exact e) = ''malicious'' \<longleftrightarrow>
     (\<exists>u \<in> set (em_URLs e). guardedLookup isSharedHostingDomain lookup exact (extractURLDomain u) u \<noteq> None)"
  using urlHits_empty [of isSharedHostingDomain lookup exact "em_URLs e"]
  by (auto simp: URLCheck_Scan_def Let_def)

text \<open>
  What the URL scanner flags: with the feeds loaded, a message is malicious exactly when one of its links is in the index by
  its full key, or by its host when the host is not a shared hosting domain. A host-level entry alone never
  flags a link on a shared hosting domain.
\<close>

theorem urlcheck_flags_iff:
  assumes "indexOK m" and "set feedNames \<subseteq> set order"
  shows "sr_Verdict (URLCheck_Scan True False (LookupURL order m) (LookupURLExact order m) e) = ''malicious'' \<longleftrightarrow>
     (\<exists>u. u \<in> set (em_URLs e) \<and>
        (feedKey u \<in> m_index m \<or> \<not> isSharedHostingDomain (extractURLDomain u) \<and> feedHost u \<in> m_index m))"
proof -
  have e: "[] \<notin> m_index m" using assms(1) unfolding indexOK_def by blast
  have ex: "LookupURLExact order m u \<noteq> None \<longleftrightarrow> feedKey u \<in> m_index m" for u
    unfolding LookupURLExact_def lookupKeys_found feedHits_index [OF assms] by simp
  have lk: "LookupURL order m u \<noteq> None \<longleftrightarrow> feedKey u \<in> m_index m \<or> feedHost u \<in> m_index m" for u
    using e unfolding LookupURL_def lookupKeys_found feedHits_index [OF assms] by auto
  have "guardedLookup isSharedHostingDomain (LookupURL order m) (LookupURLExact order m) d u \<noteq> None \<longleftrightarrow>
      feedKey u \<in> m_index m \<or> \<not> isSharedHostingDomain d \<and> feedHost u \<in> m_index m" for d u
    using ex [of u] lk [of u] by (simp add: guardedLookup_def)
  then show ?thesis unfolding URLCheck_malicious by blast
qed

text \<open>
  The report names the right links: the hits stored with the message list, in order, exactly the links of the message
  that the guarded lookup flags.
\<close>

theorem urlcheck_reports_hits:
  assumes "sr_Verdict (URLCheck_Scan en done lookup exact e) = ''malicious''"
  shows "\<exists>hits. sr_Matches (URLCheck_Scan en done lookup exact e) = Some (JArr (map marshalURLHit hits))
    \<and> map uh_URL hits = filter (\<lambda>u. guardedLookup isSharedHostingDomain lookup exact (extractURLDomain u) u \<noteq> None) (em_URLs e)"
proof -
  let ?hits = "urlHits isSharedHostingDomain lookup exact (em_URLs e)"
  have "sr_Matches (URLCheck_Scan en done lookup exact e) = Some (JArr (map marshalURLHit ?hits))"
    using assms by (auto simp: URLCheck_Scan_def Let_def split: if_splits)
  then show ?thesis using urlHits_urls by blast
qed

section \<open>Redirects\<close>

lemma redirectLoop_guarded:
  "set (rd_requests (redirectLoop head dns fuel current approved hops reqs)) \<subseteq>
     set reqs \<union> {(current, approved)} \<union> {(u, h). \<exists>n. \<not> isSSRFTarget (dns n) h}
   \<and> length (rd_requests (redirectLoop head dns fuel current approved hops reqs)) \<le> length reqs + fuel
   \<and> rd_hops (redirectLoop head dns fuel current approved hops reqs) \<le> hops + fuel"
proof (induction fuel arbitrary: current approved hops reqs)
  case (Suc fuel)
  show ?case
  proof (cases "\<exists>status loc base target. head current = Inr (status, loc) \<and> \<not> (status < 300 \<or> status \<ge> 400 \<or> loc = [])
      \<and> urlParse current = Some base \<and> urlParse loc = Some target
      \<and> \<not> isSSRFTarget (dns (Suc hops)) (Hostname (ResolveReference base target))")
    case True
    then obtain status loc base target where
      h: "head current = Inr (status, loc)" "\<not> (status < 300 \<or> status \<ge> 400 \<or> loc = [])"
      "urlParse current = Some base" "urlParse loc = Some target"
      and safe: "\<not> isSSRFTarget (dns (Suc hops)) (Hostname (ResolveReference base target))" by blast
    let ?r = "ResolveReference base target"
    have eq: "redirectLoop head dns (Suc fuel) current approved hops reqs =
        redirectLoop head dns fuel (urlString ?r) (Hostname ?r) (Suc hops) (reqs @ [(current, approved)])"
      using h safe by (simp add: Let_def)
    show ?thesis unfolding eq
      using Suc.IH [of "urlString ?r" "Hostname ?r" "Suc hops" "reqs @ [(current, approved)]"] safe by auto
  next
    case False
    then have "rd_requests (redirectLoop head dns (Suc fuel) current approved hops reqs) = reqs @ [(current, approved)]"
      and "rd_hops (redirectLoop head dns (Suc fuel) current approved hops reqs) = hops"
      by (auto simp: Let_def split: sum.splits option.splits)
    note stopped = this
    show ?thesis unfolding stopped by auto
  qed
qed auto

text \<open>
  Resolving a shortened link is bounded and guarded: at most \<open>maxHops\<close> requests are made, and each goes to a URL whose host name
  the resolver check approved, except that the first one may go to a link that has no host name to check.
\<close>

theorem redirects_guarded:
  "length (rd_requests (followRedirects head dns maxHops rawURL)) \<le> maxHops
   \<and> rd_hops (followRedirects head dns maxHops rawURL) \<le> maxHops
   \<and> (\<forall>u h. (u, h) \<in> set (rd_requests (followRedirects head dns maxHops rawURL)) \<longrightarrow>
        (\<exists>n. \<not> isSSRFTarget (dns n) h) \<or> u = rawURL \<and> h = [])"
proof -
  define host where "host = (case urlParse rawURL of None \<Rightarrow> [] | Some u \<Rightarrow> Hostname u)"
  show ?thesis
  proof (cases "host \<noteq> [] \<and> isSSRFTarget (dns 0) host")
    case True
    then show ?thesis by (simp add: followRedirects_def host_def [symmetric])
  next
    case False
    then have eq: "followRedirects head dns maxHops rawURL = redirectLoop head dns maxHops rawURL host 0 []"
      by (auto simp: followRedirects_def host_def [symmetric])
    show ?thesis unfolding eq
      using redirectLoop_guarded [of head dns maxHops rawURL host 0 "[]"] False by auto
  qed
qed

text \<open>
  C35. The unshortener never connects to an internal machine, whatever the resolver answers and even if it changes its answer
  between the check and the connection: the address dialled is a public IPv4 address, outside the loopback,
  private, link-local, carrier-grade NAT and "this network" ranges.
\<close>

theorem unshorten_dials_public:
  assumes "dialTarget LookupHost host = Inr address"
  shows "\<exists>i v4. ParseIP address = Some i \<and> To4 i = Some v4 \<and> IsPublicIP (Some i) \<and>
    (\<forall>a b c d. v4 = [a, b, c, d] \<longrightarrow> \<not> (a = 10 \<or> a = 172 \<and> 16 \<le> b \<and> b \<le> 31 \<or> a = 192 \<and> b = 168 \<or> a = 127
        \<or> a = 169 \<and> b = 254 \<or> a = 100 \<and> 64 \<le> b \<and> b \<le> 127 \<or> a = 0))"
proof -
  obtain i where i: "ParseIP address = Some i" "IsPublicIP (Some i)"
    using assms by (auto simp: dialTarget_def split: sum.splits list.splits option.splits if_splits)
  obtain v4 where v4: "To4 i = Some v4" using IsPublicIP_To4 [OF i(2)] by blast
  have "IsPublicIP (Some v4)" using i(2) v4 by (rule IsPublicIP_v4)
  then have "\<not> (a = 10 \<or> a = 172 \<and> 16 \<le> b \<and> b \<le> 31 \<or> a = 192 \<and> b = 168 \<or> a = 127
        \<or> a = 169 \<and> b = 254 \<or> a = 100 \<and> 64 \<le> b \<and> b \<le> 127 \<or> a = 0)" if "v4 = [a, b, c, d]" for a b c d
    using IsPublicIP_ranges [of a b c d] that by simp
  with i v4 show ?thesis by blast
qed

section \<open>Witnesses\<close>

definition demoDNS :: dns where
  "demoDNS h = Inr [''93.184.216.34'']"

lemma demoDNS_public: "ParseIP ''93.184.216.34'' = Some (v4InV6Prefix @ [93, 184, 216, 34])"
  by code_simp

lemma unshorten_dials_public_witness:
  "\<exists>i. ParseIP ''93.184.216.34'' = Some i \<and> IsPublicIP (Some i)"
proof -
  have "To4 (v4InV6Prefix @ [93, 184, 216, 34]) = Some [93, 184, 216, 34]" by (simp add: To4_def v4InV6Prefix_def)
  moreover have "IsPublicIP (Some [93, 184, 216, 34])" by (simp add: IsPublicIP_ranges)
  ultimately have "IsPublicIP (Some (v4InV6Prefix @ [93, 184, 216, 34]))" by (simp add: IsPublicIP_def To4_idem)
  then have "dialTarget demoDNS ''example.org'' = Inr ''93.184.216.34''"
    by (simp add: dialTarget_def demoDNS_def demoDNS_public)
  from unshorten_dials_public [OF this] show ?thesis by blast
qed

definition redirectHead :: "string \<Rightarrow> (int \<times> string) result" where
  "redirectHead u = (if u = ''x'' then Inr (302, ''y'') else Inr (200, []))"

lemma redirects_guarded_witness:
  "length (rd_requests (followRedirects redirectHead (\<lambda>_. demoDNS) 5 ''x'')) \<le> 5"
  using redirects_guarded [of redirectHead "\<lambda>_. demoDNS" 5 "''x''"] by blast

definition linkEmail :: Email where
  "linkEmail = authPassEmail\<lparr>em_URLs := [''EVIL'', ''OTHER'']\<rparr>"

lemma urlcheck_flags_iff_witness:
  "sr_Verdict (URLCheck_Scan True False (LookupURL feedNames (Refresh 1 demoFetch newManager))
     (LookupURLExact feedNames (Refresh 1 demoFetch newManager)) linkEmail) = ''malicious''"
proof -
  let ?m = "Refresh 1 demoFetch newManager"
  have "m_feedURLs ?m ''openphish'' = Some (thisFeedURLs ''openphish'' [''EVIL''])"
    using Refresh_OK(2) [OF newManager_OK, of "''openphish''" 1 demoFetch] by (simp add: feedNames_def demoFetch_def)
  then have "''EVIL'' \<in> \<Union> (ran (m_feedURLs ?m))"
    by (auto simp: thisFeedURLs_def urlKeys_def demo_feed intro!: bexI [OF _ ranI])
  then have "feedKey ''EVIL'' \<in> m_index ?m"
    using Refresh_OK(1) [OF newManager_OK, of 1 demoFetch] by (simp add: indexOK_def demo_feed)
  then show ?thesis
    using urlcheck_flags_iff [OF Refresh_OK(1) [OF newManager_OK, of 1 demoFetch] subset_refl, of linkEmail]
    by (auto simp: linkEmail_def)
qed

lemma urlcheck_reports_hits_witness:
  "\<exists>hits. sr_Matches (URLCheck_Scan True False (\<lambda>u. if u = ''EVIL'' then Some (''openphish'', ''phishing'') else None) (\<lambda>_. None) linkEmail)
       = Some (JArr (map marshalURLHit hits)) \<and> map uh_URL hits = [''EVIL'']"
proof -
  let ?l = "\<lambda>u. if u = ''EVIL'' then Some (''openphish'', ''phishing'') else None"
  have d: "\<not> isSharedHostingDomain (extractURLDomain ''EVIL'')" "\<not> isSharedHostingDomain (extractURLDomain ''OTHER'')" by code_simp+
  have "sr_Verdict (URLCheck_Scan True False ?l (\<lambda>_. None) linkEmail) = ''malicious''"
    unfolding URLCheck_malicious using d by (auto simp: linkEmail_def guardedLookup_def)
  from urlcheck_reports_hits [OF this] d show ?thesis by (simp add: linkEmail_def guardedLookup_def)
qed

end
