(* ===== verification/ServiceScanners.thy ===== *)
theory ServiceScanners
  imports UrlScanners
begin

text \<open>
  The scanners over a whole message: \<^verbatim>\<open>scanners/rspamd.go\<close>, \<^verbatim>\<open>clamav.go\<close> (with the INSTREAM framing of the \<^verbatim>\<open>clamd\<close> protocol) and the
  local \<^verbatim>\<open>htmlsmuggling.go\<close>. What a service answers is an argument; decoding a JSON answer gives the struct or fails.
\<close>

datatype 'a http = HttpErr error | HttpResp int "'a option"   \<comment> \<open>status and decoded body\<close>

section \<open>Rspamd\<close>

record rspamdResponse =
  rr_Score :: float64
  rr_Action :: string
  rr_Symbols :: "(string \<times> float64 \<times> string) list"   \<comment> \<open>in the order of the map iteration\<close>

definition actionToVerdict :: "string \<Rightarrow> string" where
  "actionToVerdict action =
     (if action = ''reject'' then ''malicious''
      else if action \<in> {''add header'', ''rewrite subject'', ''greylist''} then ''suspicious''
      else ''clean'')"

definition marshalRspamdSymbol :: "string \<times> float64 \<times> string \<Rightarrow> json" where
  "marshalRspamdSymbol s = (case s of (n, sc, d) \<Rightarrow> JObj ([(''name'', JStr n), (''score'', JNum sc)] @ omitStr ''description'' d))"

definition marshalList :: "('a \<Rightarrow> json) \<Rightarrow> 'a list \<Rightarrow> json" where
  "marshalList f xs = (if xs = [] then JNull else JArr (map f xs))"

definition Rspamd_Scan :: "bool \<Rightarrow> (string \<Rightarrow> rspamdResponse http) \<Rightarrow> Email \<Rightarrow> ScanResult" where
  "Rspamd_Scan enabled checkv2 email =
     (if \<not> enabled then result ''rspamd'' ''skip'' ''disabled'' None
      else (case checkv2 (em_Raw email) of
              HttpErr e \<Rightarrow> result ''rspamd'' ''error'' (''rspamd unavailable: '' @ e) None
            | HttpResp status None \<Rightarrow> result ''rspamd'' ''error'' ''decode: '' None
            | HttpResp status (Some rr) \<Rightarrow>
                (result ''rspamd'' (actionToVerdict (rr_Action rr)) (rr_Action rr)
                  (Some (marshalList marshalRspamdSymbol (rr_Symbols rr))))\<lparr>sr_Score := rr_Score rr\<rparr>))"

definition Rspamd_learn :: "(string \<Rightarrow> string \<Rightarrow> unit http) \<Rightarrow> string \<Rightarrow> string \<Rightarrow> unit result" where
  "Rspamd_learn post endpoint raw =
     (case post endpoint raw of
        HttpErr e \<Rightarrow> Inl (''rspamd learn request: '' @ e)
      | HttpResp status _ \<Rightarrow> if status = 200 then Inr () else Inl (''rspamd learn returned HTTP '' @ intStr status))"

definition Rspamd_Ping :: "unit http \<Rightarrow> unit result" where
  "Rspamd_Ping answer =
     (case answer of
        HttpErr e \<Rightarrow> Inl e
      | HttpResp status _ \<Rightarrow> if status = 200 then Inr () else Inl (''rspamd ping returned HTTP '' @ intStr status))"

section \<open>ClamAV\<close>

definition beWord :: "nat \<Rightarrow> string" where
  "beWord n = [char_of (n div 16777216), char_of (n div 65536), char_of (n div 256), char_of n]"

definition chunkSize :: nat where
  "chunkSize = 2048"

text \<open>The chunks with their lengths, then a zero length.\<close>

function chunks :: "string \<Rightarrow> string" where
  "chunks d = (if d = [] then beWord 0 else beWord (length (take chunkSize d)) @ take chunkSize d @ chunks (drop chunkSize d))"
  by pat_completeness auto
termination by (relation "measure length") (auto simp: chunkSize_def)

declare chunks.simps [simp del]

definition instream :: "string \<Rightarrow> string" where
  "instream d = ''zINSTREAM'' @ [CHR 0x00] @ chunks d"

definition clamdReply :: "string \<Rightarrow> string result" where
  "clamdReply resp0 =
     (let resp = trimRight (trimSpace resp0) [CHR 0x00];
          unexpected = Inl (''unexpected clamd response: '' @ resp)
      in if resp = ''stream: OK'' then Inr []
         else if hasSuffix resp '' FOUND''
         then (case strIndex resp '': '' of
                 Some i \<Rightarrow> Inr (trimSuffix (drop (i + 2) resp) '' FOUND'')
               | None \<Rightarrow> unexpected)
         else unexpected)"

text \<open>\<open>clamd\<close> answers a connection on which these bytes were sent.\<close>

definition scanBytes :: "(string \<Rightarrow> string result) \<Rightarrow> string \<Rightarrow> string result" where
  "scanBytes clamd d = (case clamd (instream d) of Inl e \<Rightarrow> Inl e | Inr resp \<Rightarrow> clamdReply resp)"

fun clamAttachments :: "(string \<Rightarrow> string result) \<Rightarrow> Attachment list \<Rightarrow> (string \<times> string) option" where
  "clamAttachments clamd [] = None"
| "clamAttachments clamd (a # as) =
     (if at_Raw a = [] then clamAttachments clamd as
      else (case scanBytes clamd (at_Raw a) of
              Inl _ \<Rightarrow> clamAttachments clamd as
            | Inr hit \<Rightarrow> if hit \<noteq> [] then Some (hit, at_Filename a) else clamAttachments clamd as))"

definition ClamAV_Scan :: "bool \<Rightarrow> (string \<Rightarrow> string result) \<Rightarrow> Email \<Rightarrow> ScanResult" where
  "ClamAV_Scan enabled clamd email =
     (if \<not> enabled then result ''clamav'' ''skip'' ''disabled'' None
      else (case scanBytes clamd (em_Raw email) of
              Inl e \<Rightarrow> result ''clamav'' ''error'' (''clamd unavailable: '' @ e) None
            | Inr virus \<Rightarrow>
                if virus \<noteq> [] then result ''clamav'' ''malicious'' (''VIRUS:'' @ virus) None
                else (case clamAttachments clamd (em_Attachments email) of
                        Some (hit, f) \<Rightarrow> result ''clamav'' ''malicious'' (''VIRUS:'' @ hit @ '' in '' @ f) None
                      | None \<Rightarrow> result ''clamav'' ''clean'' ''CLEAN'' None)))"

definition ClamAV_Ping :: "(string \<Rightarrow> string result) \<Rightarrow> unit result" where
  "ClamAV_Ping clamd =
     (case clamd (''zPING'' @ [CHR 0x00]) of
        Inl e \<Rightarrow> Inl e
      | Inr resp \<Rightarrow> if contains resp ''PONG'' then Inr () else Inl (''unexpected clamd response: '' @ resp))"

section \<open>HTML smuggling\<close>

definition b64Char :: "char \<Rightarrow> bool" where
  "b64Char c \<longleftrightarrow> isAlnum c \<or> c = CHR ''+'' \<or> c = CHR ''/''"

text \<open>The lengths of the matches of \<^verbatim>\<open>b64ChunkRe\<close>, leftmost and greedy: a whole run of at least 200 characters and up to two pads.\<close>

function b64Runs :: "string \<Rightarrow> nat list" where
  "b64Runs [] = []"
| "b64Runs (c # cs) =
     (if \<not> b64Char c then b64Runs cs
      else (let run = takeWhile b64Char (c # cs); rest = dropWhile b64Char (c # cs)
            in (if 200 \<le> length run then [length run + length (takeWhile (\<lambda>p. p = CHR ''='') (take 2 rest))] else []) @ b64Runs rest))"
  by pat_completeness auto
termination by (relation "measure length") (auto simp: length_dropWhile_le le_imp_less_Suc)

declare b64Runs.simps(2) [simp del]

definition largestBase64Chunk :: "string \<Rightarrow> int \<Rightarrow> int \<times> int" where
  "largestBase64Chunk content minChars =
     (let maxChars = int (fold max (b64Runs content) 0);
          sizeKB = maxChars * 3 div 4 div 1024
      in if maxChars < minChars then (0, 0) else (maxChars, if sizeKB = 0 then 1 else sizeKB))"

text \<open>A pattern found anywhere in the text, and the four patterns of \<^verbatim>\<open>blobAPIs\<close>.\<close>

fun anywhere :: "(string \<Rightarrow> bool) \<Rightarrow> string \<Rightarrow> bool" where
  "anywhere p [] = p []"
| "anywhere p (c # cs) \<longleftrightarrow> p (c # cs) \<or> anywhere p cs"

definition newBlobRe :: "string \<Rightarrow> bool" where
  "newBlobRe s \<longleftrightarrow>
     (let afterNew = drop 3 s; afterBlob = drop 4 (dropWhile reSpace afterNew)
      in hasPrefix s ''new'' \<and> afterNew \<noteq> [] \<and> reSpace (hd afterNew) \<and> hasPrefix (dropWhile reSpace afterNew) ''Blob''
         \<and> hasPrefix (dropWhile reSpace afterBlob) ''('')"

definition saveAsRe :: "string \<Rightarrow> bool" where
  "saveAsRe s \<longleftrightarrow> hasPrefix s ''saveAs'' \<and> hasPrefix (dropWhile reSpace (drop 6 s)) ''(''"

definition blobAPIs :: "(string \<times> (string \<Rightarrow> bool)) list" where
  "blobAPIs =
     [(''new Blob('', anywhere newBlobRe), (''msSaveOrOpenBlob'', \<lambda>s. contains s ''msSaveOrOpenBlob''),
      (''createObjectURL'', \<lambda>s. contains s ''createObjectURL''), (''saveAs('', anywhere saveAsRe)]"

definition isHTMLAttachment :: "Attachment \<Rightarrow> bool" where
  "isHTMLAttachment att \<longleftrightarrow> hasPrefix (at_ContentType att) ''text/html'' \<or> toLower (at_Extension att) \<in> {''.html'', ''.htm''}"

definition smugglingSources :: "Email \<Rightarrow> (string \<times> string) list" where
  "smugglingSources email =
     (if em_HTMLBody email = [] then [] else [(''body'', em_HTMLBody email)])
     @ map (\<lambda>att. (''attachment:'' @ at_Filename att, at_Raw att)) (filter isHTMLAttachment (em_Attachments email))"

definition smugglingHit :: "int \<Rightarrow> string \<times> string \<Rightarrow> HTMLSmugglingHit option" where
  "smugglingHit b64MinChars src =
     (case largestBase64Chunk (snd src) b64MinChars of
        (largestB64, b64SizeKB) \<Rightarrow>
          (let matchedAPIs = map fst (filter (\<lambda>api. snd api (snd src)) blobAPIs)
           in if largestB64 = 0 \<or> matchedAPIs = [] then None
              else Some \<lparr>sm_Source = fst src, sm_BlobAPIs = matchedAPIs, sm_B64SizeKB = b64SizeKB\<rparr>))"

text \<open>The integer division of Go rounds towards zero, which matters for a negative setting only.\<close>

definition b64MinChars :: "int \<Rightarrow> int" where
  "b64MinChars minB64KB = (let n = minB64KB * 1024 * 4 in if 0 \<le> n then n div 3 else - (- n div 3))"

definition HTMLSmuggling_Scan :: "bool \<Rightarrow> bool \<Rightarrow> int \<Rightarrow> Email \<Rightarrow> ScanResult" where
  "HTMLSmuggling_Scan enabled ctxDone minB64KB email =
     (if \<not> enabled then result ''htmlsmuggling'' ''skip'' ''disabled'' None
      else if ctxDone then result ''htmlsmuggling'' ''skip'' ''context cancelled'' None
      else (let hits = List.map_filter (smugglingHit (b64MinChars minB64KB)) (smugglingSources email);
                parts = map (\<lambda>hit. sm_Source hit @ '': '' @ strJoin (sm_BlobAPIs hit) '', '') hits
            in if hits = [] then result ''htmlsmuggling'' ''clean'' [] None
               else (result ''htmlsmuggling'' ''suspicious'' (clip500 (''HTML smuggling: '' @ strJoin parts ''; ''))
                       (Some (JArr (map marshalHTMLSmugglingHit hits))))\<lparr>sr_Score := 4 / 5\<rparr>))"

section \<open>The scanners meet the contract\<close>

lemma actionToVerdict_known: "actionToVerdict a \<in> {''malicious'', ''suspicious'', ''clean''}"
  by (simp add: actionToVerdict_def)

interpretation rspamd: scanner "''rspamd''" "Rspamd_Scan enabled checkv2" for enabled checkv2
proof unfold_locales
  fix e
  show "sr_Verdict (Rspamd_Scan enabled checkv2 e) \<in> set scanVerdicts"
    using actionToVerdict_known by (auto simp: Rspamd_Scan_def scanVerdicts_def split: http.splits option.splits)
qed (simp add: Rspamd_Scan_def split: http.splits option.splits)

interpretation clamav: scanner "''clamav''" "ClamAV_Scan enabled clamd" for enabled clamd
  by unfold_locales (simp_all add: ClamAV_Scan_def scanVerdicts_def split: sum.splits option.splits)

interpretation htmlsmuggling: scanner "''htmlsmuggling''" "HTMLSmuggling_Scan enabled ctxDone minB64KB" for enabled ctxDone minB64KB
  by unfold_locales (simp_all add: HTMLSmuggling_Scan_def Let_def scanVerdicts_def)

section \<open>The framing of the INSTREAM command\<close>

text \<open>
  The receiving side as the \<^verbatim>\<open>clamd\<close> manual describes it: a big-endian length and that many bytes, until a length of zero. It returns
  the data and what follows the stream.
\<close>

definition beNat :: "string \<Rightarrow> nat" where
  "beNat s = foldl (\<lambda>n c. n * 256 + of_char c) 0 s"

function unframe :: "string \<Rightarrow> (string \<times> string) option" where
  "unframe s =
     (let n = beNat (take 4 s); body = drop 4 s
      in if length s < 4 then None
         else if n = 0 then Some ([], body)
         else if length body < n then None
         else map_option (\<lambda>(d, rest). (take n body @ d, rest)) (unframe (drop n body)))"
  by pat_completeness auto
termination by (relation "measure length") auto

declare unframe.simps [simp del]

lemma beNat_beWord: "n < 4294967296 \<Longrightarrow> beNat (beWord n) = n"
proof -
  assume n: "n < 4294967296"
  have d: "n div 65536 = n div 256 div 256" "n div 16777216 = n div 256 div 256 div 256" by (simp_all flip: div_mult2_eq)
  have "n div 256 div 256 div 256 < 256" using n by (simp flip: div_mult2_eq)
  then show ?thesis by (simp add: beNat_def beWord_def d)
qed

lemma length_beWord [simp]: "length (beWord n) = 4"
  by (simp add: beWord_def)

lemma chunks_nonempty:
  "d \<noteq> [] \<Longrightarrow> chunks d = beWord (length (take chunkSize d)) @ take chunkSize d @ chunks (drop chunkSize d)"
  by (simp add: chunks.simps [of d])

lemma unframe_chunk:
  assumes "0 < length c" and "length c < 4294967296"
  shows "unframe (beWord (length c) @ c @ s) = map_option (\<lambda>(d, rest). (c @ d, rest)) (unframe s)"
  using assms by (simp add: unframe.simps [of "beWord (length c) @ c @ s"] beNat_beWord)

lemma unframe_chunks: "unframe (chunks d @ rest) = Some (d, rest)"
proof (induction d rule: chunks.induct)
  case (1 d)
  show ?case
  proof (cases "d = []")
    case True
    then show ?thesis by (simp add: chunks.simps [of "[]"] unframe.simps [of "beWord 0 @ rest"] beNat_beWord Let_def)
  next
    case False
    then have n: "0 < length (take chunkSize d)" "length (take chunkSize d) < 4294967296" by (auto simp: chunkSize_def)
    show ?thesis using unframe_chunk [OF n] "1.IH" [OF False] chunks_nonempty [OF False] by simp
  qed
qed

text \<open>
  Nothing is lost on the way to the virus scanner: whatever bytes a message or an attachment has, and whatever follows on the connection, the
  receiver of the INSTREAM command gets exactly these bytes back from the chunks sent for them, and reads nothing further.
\<close>

theorem clamd_framing_roundtrip: "unframe (chunks d @ rest) = Some (d, rest)"
  by (rule unframe_chunks)

section \<open>What the virus scanner reports\<close>

text \<open>The answers of a working daemon, from its manual: \<open>sig\<close> gives the signature found in the bytes streamed, if any.\<close>

definition clamdAnswers :: "(string \<Rightarrow> string option) \<Rightarrow> (string \<Rightarrow> string result) \<Rightarrow> bool" where
  "clamdAnswers sig clamd \<longleftrightarrow>
     (\<forall>d. clamd (instream d) = Inr (case sig d of
        None \<Rightarrow> ''stream: OK'' @ [CHR 0x00] | Some v \<Rightarrow> ''stream: '' @ v @ '' FOUND'' @ [CHR 0x00]) \<and> sig d \<noteq> Some [])"

lemma clamdReply_ok: "clamdReply (''stream: OK'' @ [CHR 0x00]) = Inr []"
  by code_simp

lemma trimSuffix_append [simp]: "trimSuffix (s @ p) p = s"
  by (simp add: trimSuffix_def)

lemma clamdReply_found: "clamdReply (''stream: '' @ v @ '' FOUND'' @ [CHR 0x00]) = Inr v"
proof -
  let ?r = "''stream: '' @ v @ '' FOUND''"
  have "trimSpace (?r @ [CHR 0x00]) = ?r @ [CHR 0x00]" "trimRight (?r @ [CHR 0x00]) [CHR 0x00] = ?r"
    by (simp_all add: trimSpace_def trimRight_def asciiSpace_def)
  moreover have "hasSuffix ?r '' FOUND''" using hasSuffix_append [of "''stream: '' @ v"] by simp
  moreover have "?r \<noteq> ''stream: OK''"
  proof
    assume "?r = ''stream: OK''"
    then have "last ?r = last ''stream: OK''" by (rule arg_cong)
    then show False by simp
  qed
  moreover have "strIndex ?r '': '' = Some 6" by (simp add: hasPrefix_def)
  moreover have "drop (6 + 2) ?r = v @ '' FOUND''" by simp
  ultimately show ?thesis using trimSuffix_append [of v "'' FOUND''"] unfolding clamdReply_def by (simp add: Let_def)
qed

lemma scanBytes_answers:
  assumes "clamdAnswers sig clamd"
  shows "scanBytes clamd d = Inr (case sig d of None \<Rightarrow> [] | Some v \<Rightarrow> v)"
  using assms clamdReply_ok clamdReply_found
  by (cases "sig d") (simp_all add: clamdAnswers_def scanBytes_def)

lemma clamAttachments_hit:
  assumes "clamdAnswers sig clamd"
  shows "clamAttachments clamd as \<noteq> None \<longleftrightarrow> (\<exists>a \<in> set as. at_Raw a \<noteq> [] \<and> sig (at_Raw a) \<noteq> None)"
proof (induction as)
  case (Cons a as)
  have "sig (at_Raw a) \<noteq> Some []" using assms by (simp add: clamdAnswers_def)
  then show ?case using Cons by (auto simp: scanBytes_answers [OF assms] split: option.splits)
qed simp

lemma ClamAV_verdict:
  assumes "clamdAnswers sig clamd"
  shows "sr_Verdict (ClamAV_Scan True clamd e) =
    (if sig (em_Raw e) \<noteq> None \<or> (\<exists>a \<in> set (em_Attachments e). at_Raw a \<noteq> [] \<and> sig (at_Raw a) \<noteq> None) then ''malicious'' else ''clean'')"
proof -
  have "sig (em_Raw e) \<noteq> Some []" using assms by (simp add: clamdAnswers_def)
  then show ?thesis using clamAttachments_hit [OF assms, of "em_Attachments e"]
    by (auto simp: ClamAV_Scan_def scanBytes_answers [OF assms] split: option.splits)
qed

lemma infected_decides_delete:
  assumes "sr_Verdict (ClamAV_Scan True clamd e) = ''malicious''" and "ClamAV_Scan True clamd e \<in> set results"
  shows "vd_Decision (Decide t e results) = ''delete''"
proof -
  have "clamHit (collect results)" unfolding collect_hits using assms clamav.own_name by blast
  then show ?thesis by (simp add: Decide_decision deleteSignal_def)
qed

text \<open>
  Failing closed: a daemon that cannot be reached, or that answers something else, is an error of the scanner; but only for the message as a whole. An
  attachment whose scan fails is passed over.
\<close>

lemma clamav_unreachable:
  assumes "\<And>d. clamd d = Inl err"
  shows "sr_Verdict (ClamAV_Scan True clamd e) = ''error''"
  using assms by (simp add: ClamAV_Scan_def scanBytes_def)

lemma clamav_attachment_error_ignored:
  assumes "scanBytes clamd (em_Raw e) = Inr []" and "\<forall>a \<in> set (em_Attachments e). \<exists>err. scanBytes clamd (at_Raw a) = Inl err"
  shows "sr_Verdict (ClamAV_Scan True clamd e) = ''clean''"
proof -
  have "clamAttachments clamd as = None" if "\<forall>a \<in> set as. \<exists>err. scanBytes clamd (at_Raw a) = Inl err" for as
    using that by (induction as) (auto split: sum.splits)
  then show ?thesis using assms by (simp add: ClamAV_Scan_def)
qed

text \<open>
  The status of the answer is not looked at: an error page of the Rspamd server in JSON form, which decodes to an empty struct, is a clean message.
\<close>

lemma rspamd_error_page_is_clean:
  "sr_Verdict (Rspamd_Scan True (\<lambda>_. HttpResp 503 (Some \<lparr>rr_Score = 0, rr_Action = [], rr_Symbols = []\<rparr>)) e) = ''clean''"
  by (simp add: Rspamd_Scan_def actionToVerdict_def)

section \<open>What the smuggling scanner reports\<close>

text \<open>A blob: at least 200 characters of the alphabet, optionally with padding, that together reach the threshold.\<close>

definition hasBlob :: "nat \<Rightarrow> string \<Rightarrow> bool" where
  "hasBlob m s \<longleftrightarrow> (\<exists>pre run pad post. s = pre @ run @ pad @ post \<and> list_all b64Char run \<and> 200 \<le> length run
      \<and> pad \<in> {[], ''='', ''==''} \<and> m \<le> length run + length pad)"

lemma hasBlob_append: "hasBlob m t \<Longrightarrow> hasBlob m (s @ t)"
  unfolding hasBlob_def by (metis append.assoc)

lemma pads: "takeWhile (\<lambda>p. p = CHR ''='') (take 2 r) \<in> {[], ''='', ''==''}"
  by (cases r; cases "tl r") (auto simp: numeral_2_eq_2)

lemma b64Runs_sound: "n \<in> set (b64Runs s) \<Longrightarrow> m \<le> n \<Longrightarrow> hasBlob m s"
proof (induction s rule: b64Runs.induct)
  case (2 c cs)
  show ?case
  proof (cases "b64Char c")
    case False
    then have "hasBlob m cs" using "2.IH"(1) "2.prems" by (simp add: b64Runs.simps)
    then show ?thesis using hasBlob_append [of m cs "[c]"] by simp
  next
    case True
    let ?s = "c # cs" let ?run = "takeWhile b64Char ?s" and ?rest = "dropWhile b64Char ?s"
    let ?pad = "takeWhile (\<lambda>p. p = CHR ''='') (take 2 ?rest)"
    consider "200 \<le> length ?run" "n = length ?run + length ?pad" | "n \<in> set (b64Runs ?rest)"
      using "2.prems"(1) True by (auto simp: b64Runs.simps Let_def split: if_splits)
    then show ?thesis
    proof cases
      case 1
      obtain post where "?rest = ?pad @ post"
        by (metis append_take_drop_id takeWhile_dropWhile_id append.assoc)
      then have "?s = [] @ ?run @ ?pad @ post" by (metis takeWhile_dropWhile_id append_Nil)
      moreover have "list_all b64Char ?run" by (auto simp: list_all_iff dest: set_takeWhileD)
      ultimately show ?thesis using 1 pads [of ?rest] "2.prems"(2) unfolding hasBlob_def by blast
    next
      case 2
      then have "hasBlob m ?rest" using "2.IH"(2) True "2.prems"(2) by blast
      then show ?thesis using hasBlob_append [of m ?rest ?run] takeWhile_dropWhile_id [of b64Char ?s] by argo
    qed
  qed
qed simp

lemma takeWhile_prefix_bound:
  assumes "s = xs @ ys" and "list_all P xs"
  shows "length xs \<le> length (takeWhile P s)" and "ys \<noteq> [] \<Longrightarrow> \<not> P (hd ys) \<Longrightarrow> takeWhile P s = xs \<and> dropWhile P s = ys"
proof -
  have "\<forall>x \<in> set xs. P x" using assms(2) by (simp add: list_all_iff)
  then show "length xs \<le> length (takeWhile P s)" and "ys \<noteq> [] \<Longrightarrow> \<not> P (hd ys) \<Longrightarrow> takeWhile P s = xs \<and> dropWhile P s = ys"
    using assms(1) by (simp_all add: takeWhile_append2 dropWhile_append2, (cases ys; simp)+)
qed

lemma b64Runs_complete: "hasBlob m s \<Longrightarrow> \<exists>n \<in> set (b64Runs s). m \<le> n"
proof (induction s rule: b64Runs.induct)
  case 1
  then show ?case by (simp add: hasBlob_def)
next
  case (2 c cs)
  let ?s = "c # cs" let ?R = "takeWhile b64Char ?s" and ?T = "dropWhile b64Char ?s"
  obtain pre run pad post where s: "?s = pre @ run @ pad @ post" and run: "list_all b64Char run" "200 \<le> length run"
    and pad: "pad \<in> {[], ''='', ''==''}" and m: "m \<le> length run + length pad"
    using "2.prems" unfolding hasBlob_def by blast
  show ?case
  proof (cases "b64Char c")
    case False
    then have "pre \<noteq> []" using s run by (cases run) auto
    then have "cs = tl pre @ run @ pad @ post" using s by (cases pre) auto
    then have "hasBlob m cs" unfolding hasBlob_def using run pad m by blast
    then show ?thesis using "2.IH"(1) False by (simp add: b64Runs.simps)
  next
    case True
    have eq: "b64Runs ?s = (if 200 \<le> length ?R then [length ?R + length (takeWhile (\<lambda>p. p = CHR ''='') (take 2 ?T))] else []) @ b64Runs ?T"
      using True by (simp add: b64Runs.simps Let_def)
    show ?thesis
    proof (cases "list_all b64Char pre")
      case pre: True
      have all: "list_all b64Char (pre @ run)" using pre run by simp
      have s': "?s = (pre @ run) @ pad @ post" using s by simp
      have len: "200 \<le> length ?R" "length run \<le> length ?R"
        using takeWhile_prefix_bound(1) [OF s' all] run(2) by simp_all
      have "m \<le> length ?R + length (takeWhile (\<lambda>p. p = CHR ''='') (take 2 ?T))"
      proof (cases "pad = []")
        case False
        then have "hd (pad @ post) = CHR ''=''" "pad @ post \<noteq> []" using pad by auto
        moreover have "\<not> b64Char CHR ''=''" by code_simp
        ultimately have "?R = pre @ run" "?T = pad @ post" using takeWhile_prefix_bound(2) [OF s' all] by auto
        then show ?thesis using pad m by (auto simp: numeral_2_eq_2)
      qed (use m len in simp)
      then show ?thesis using len unfolding eq by auto
    next
      case False
      have "\<exists>p. ?T = p @ run @ pad @ post"
      proof -
        have "dropWhile b64Char ?s = dropWhile b64Char pre @ run @ pad @ post"
          unfolding s using False dropWhile_append1 [of _ pre b64Char] by (auto simp: list_all_iff)
        then show ?thesis by blast
      qed
      then have "hasBlob m ?T" unfolding hasBlob_def using run pad m by blast
      then show ?thesis using "2.IH"(2) True unfolding eq by auto
    qed
  qed
qed

lemma b64Runs_iff: "(\<exists>n \<in> set (b64Runs s). m \<le> n) \<longleftrightarrow> hasBlob m s"
  using b64Runs_sound b64Runs_complete by blast

lemma b64Runs_pos: "n \<in> set (b64Runs s) \<Longrightarrow> 200 \<le> n"
  by (induction s rule: b64Runs.induct) (auto simp: b64Runs.simps Let_def split: if_splits)

lemma fold_max_ge: "m \<le> fold max xs (a::nat) \<longleftrightarrow> m \<le> a \<or> (\<exists>x \<in> set xs. m \<le> x)"
  by (induction xs arbitrary: a) (auto simp: le_max_iff_disj)

lemma largestBase64Chunk_found:
  assumes "0 < minChars"
  shows "fst (largestBase64Chunk s minChars) \<noteq> 0 \<longleftrightarrow> hasBlob (nat minChars) s"
proof -
  have "minChars \<le> int (fold max (b64Runs s) 0) \<longleftrightarrow> hasBlob (nat minChars) s"
    using assms fold_max_ge [of "nat minChars" "b64Runs s" 0] b64Runs_iff [of s "nat minChars"] by (simp add: nat_le_iff)
  then show ?thesis using assms by (auto simp: largestBase64Chunk_def Let_def)
qed

text \<open>
  C36. The smuggling scanner flags a message exactly when its HTML body or one of its HTML attachments holds both a blob of base64 text that reaches the
  configured size and a call that turns such a blob into a file. An image newsletter, which has only the first, is left alone.
\<close>

theorem smuggling_flags_iff:
  assumes "0 < minB64KB"
  shows "sr_Verdict (HTMLSmuggling_Scan True False minB64KB e) = ''suspicious'' \<longleftrightarrow>
    (\<exists>label content. (label, content) \<in> set (smugglingSources e) \<and> hasBlob (nat (b64MinChars minB64KB)) content
       \<and> (anywhere newBlobRe content \<or> contains content ''msSaveOrOpenBlob'' \<or> contains content ''createObjectURL''
          \<or> anywhere saveAsRe content))"
proof -
  have pos: "0 < b64MinChars minB64KB" using assms by (simp add: b64MinChars_def Let_def)
  have hit: "smugglingHit (b64MinChars minB64KB) src \<noteq> None \<longleftrightarrow>
      hasBlob (nat (b64MinChars minB64KB)) (snd src)
      \<and> (anywhere newBlobRe (snd src) \<or> contains (snd src) ''msSaveOrOpenBlob'' \<or> contains (snd src) ''createObjectURL''
          \<or> anywhere saveAsRe (snd src))" for src
    unfolding largestBase64Chunk_found [OF pos, symmetric]
    by (auto simp: smugglingHit_def blobAPIs_def split: prod.splits)
  have none: "List.map_filter f xs = [] \<longleftrightarrow> (\<forall>x \<in> set xs. f x = None)" for f :: "string \<times> string \<Rightarrow> HTMLSmugglingHit option" and xs
    by (induction xs) (auto split: option.splits)
  have "sr_Verdict (HTMLSmuggling_Scan True False minB64KB e) = ''suspicious'' \<longleftrightarrow>
      (\<exists>src \<in> set (smugglingSources e). smugglingHit (b64MinChars minB64KB) src \<noteq> None)"
    using none [of "smugglingHit (b64MinChars minB64KB)" "smugglingSources e"] by (auto simp: HTMLSmuggling_Scan_def Let_def)
  then show ?thesis unfolding hit by (simp add: Bex_def)
qed

section \<open>Witnesses\<close>

definition eicarClamd :: "string \<Rightarrow> string result" where
  "eicarClamd bs = (case unframe (drop 10 bs) of
     None \<Rightarrow> Inl ''short read''
   | Some (d, _) \<Rightarrow> Inr (if contains d ''EICAR'' then ''stream: Eicar FOUND'' @ [CHR 0x00] else ''stream: OK'' @ [CHR 0x00]))"

definition eicarSig :: "string \<Rightarrow> string option" where
  "eicarSig d = (if contains d ''EICAR'' then Some ''Eicar'' else None)"

lemma eicarClamd_answers: "clamdAnswers eicarSig eicarClamd"
  using unframe_chunks [of _ "[]"] by (simp add: clamdAnswers_def eicarClamd_def eicarSig_def instream_def)

definition smugglingEmail :: Email where
  "smugglingEmail = authPassEmail\<lparr>em_HTMLBody := replicate 1400 CHR ''A'' @ ''saveAs(''\<rparr>"

lemma anywhere_append: "anywhere p ys \<Longrightarrow> anywhere p (xs @ ys)"
  by (induction xs) auto

lemma smuggling_flags_iff_witness: "sr_Verdict (HTMLSmuggling_Scan True False 1 smugglingEmail) = ''suspicious''"
proof -
  let ?c = "replicate 1400 CHR ''A'' @ ''saveAs(''"
  have "hasBlob (nat (b64MinChars 1)) ([] @ replicate 1400 CHR ''A'' @ [] @ ''saveAs('')"
    unfolding hasBlob_def
    by (intro exI conjI, rule refl) (simp_all add: list_all_iff b64Char_def isAlnum_def isAlpha_def b64MinChars_def)
  then have "hasBlob (nat (b64MinChars 1)) ?c" by simp
  moreover have "anywhere saveAsRe ''saveAs(''" by (simp add: saveAsRe_def hasPrefix_def reSpace_def)
  then have "anywhere saveAsRe ?c" by (rule anywhere_append)
  moreover have "(''body'', ?c) \<in> set (smugglingSources smugglingEmail)"
    by (simp add: smugglingSources_def smugglingEmail_def)
  ultimately show ?thesis using smuggling_flags_iff [of 1 smugglingEmail] by auto
qed

end
