(* ===== verification/EndToEnd.thy ===== *)
theory EndToEnd
  imports PipelineRuns ServiceScanners
begin

text \<open>
  The components composed: a threat feed, the scanner that consults it, the verdict, the pipeline and the mail server; and likewise the virus daemon.
  The shared argument is that a scanner of the pipeline whose result forces a decision makes the pipeline act on the server.
\<close>

definition acts :: "string \<Rightarrow> uint32 \<Rightarrow> string \<Rightarrow> world \<Rightarrow> world \<Rightarrow> bool" where
  "acts mb uid dec w w' \<longleftrightarrow> (\<exists>c rest. callOf dec mb uid = Some c \<and> w_calls w' = w_calls w @ c # rest)"

lemma takeIMAPAction_acts:
  assumes "dec \<in> {''quarantine'', ''delete''}"
  shows "acts mb uid dec w (fst (takeIMAPAction p dn dec mb uid w))"
proof -
  obtain c where c: "callOf dec mb uid = Some c" using assms by (auto simp: callOf_def)
  obtain w' r where t: "retryLoop dn c (answerOf p c) imapDelays [] w = (w', r)" by fastforce
  from retryLoop_attempts [OF t imapDelays_facts(2,3)] obtain n where n: "1 \<le> n" "w_calls w' = w_calls w @ replicate n c"
    by (auto simp: imapDelays_facts)
  then have "w_calls w' = w_calls w @ c # replicate (n - 1) c" by (cases n) auto
  with c t show ?thesis by (auto simp: acts_def takeIMAPAction_eq)
qed

lemma settle_acts:
  assumes "vd_Decision vd \<in> {''quarantine'', ''delete''}"
  shows "acts mb uid (vd_Decision vd) w (settle p a uid mb vd rec w)"
  using takeIMAPAction_acts [OF assms, of mb uid w p "p_ctxDone p"]
  by (auto simp: settle_def acts_def frame split: prod.splits sum.splits)

lemma recordVerdict_acts:
  assumes "\<And>n. p_faults p n = None" and "vd_Decision vd \<in> {''quarantine'', ''delete''}"
  shows "acts mb uid (vd_Decision vd) w (recordVerdict p e path SourceLive uid mb vd w)"
proof (cases rule: recordVerdict_cases [of w p e vd SourceLive path uid mb])
  case (refused w0 w1 path' err)
  then show ?thesis
    using upsertScan_total [of "verdictRow p e vd path' SourceLive" "w_db w0"] by (auto simp: wWrite_ok assms(1))
next
  case (stored w0 w1 path' rec)
  have "w_calls w1 = w_calls w" using wWrite_frame(1) [OF stored(5)] stored(2) by simp
  with stored(6) settle_acts [OF assms(2), of mb uid w1 p "em_AccountName e" rec] show ?thesis
    by (simp add: acts_def frame)
qed

lemma parsed_not_allowlisted:
  "parsed p a raw uid mb = Returns (Inr e) \<Longrightarrow> em_WhitelistEntry e = []"
  by (auto simp: Parse_def bind_go_Returns headerEmail_def split: sum.splits)

lemma scanner_forces_action:
  assumes "Process p a raw uid mb w = Returns w'" and "p_slot p" and e: "parsed p a raw uid mb = Returns (Inr e)"
    and "blocked p (w_db w) e = None" and "matchWhitelist (p_parseAddress p) (snd (p_listFails p)) (w_db w) e = None"
    and "\<And>n. p_faults p n = None" and "\<And>rs. set (p_arrive p rs) = set rs"
    and "(name, \<lambda>e. Returns (scan e)) \<in> set (p_scanners p)"
    and "\<And>rs. scan e \<in> set rs \<Longrightarrow> vd_Decision (Decide (p_thresholds p) e rs) \<in> D" and "D \<subseteq> {''quarantine'', ''delete''}"
  shows "\<exists>dec \<in> D. acts mb uid dec w w'"
  using assms(1) unfolding Process_def
proof (cases rule: process_cases)
  case (email e' w1)
  with e have e': "e' = e" by simp
  have plain: "bypassed p (w_db w) e = None" "scannedEmail p (w_db w) e = e" using assms(5) by (simp_all add: bypassed_def scannedEmail_def)
  from email(3) show ?thesis unfolding e'
  proof (cases rule: processEmail_cases)
    case (scanned e2 path w0 results)
    have e2: "e2 = e" using scanned(3) plain by simp
    have "runScanner e (name, \<lambda>e. Returns (scan e)) \<in> set (map Returns results)"
      using assms(8) scanned(5) e2 by (metis image_eqI list.set_map)
    then have "scan e \<in> set (p_arrive p results)" by (auto simp: runScanner_def assms(7))
    then have d: "vd_Decision (verdictOf p e results) \<in> D"
      using assms(9) parsed_not_allowlisted [OF e] by (simp add: verdictOf_def finalDecision_def)
    then have "acts mb uid (vd_Decision (verdictOf p e results)) (scannerHealth p e w0)
        (recordVerdict p e path SourceLive uid mb (verdictOf p e results) (scannerHealth p e w0))"
      using recordVerdict_acts assms(6,10) by blast
    then have "acts mb uid (vd_Decision (verdictOf p e results)) w w'"
      using scanned(6) email(4) e2 storeWrite_frame [OF scanned(4)] by (simp add: acts_def frame)
    with d show ?thesis by blast
  qed (use assms(4) plain in simp_all)
qed (use assms(2) e in simp_all)

text \<open>
  C1. From the feed to the folder: when a refresh has downloaded a link, then for every live message that contains it, from a sender on neither list,
  the URL scanner reports it, and the first thing the pipeline does on the mail server is to move that message to quarantine or
  to delete it, whatever the other scanners say and in whichever order they answer.
\<close>

theorem listed_link_leaves_inbox:
  assumes "indexOK m" and "feed \<in> set feedNames" and "fetched feed = Inr urls" and "u \<in> set urls" and "feedKey u \<noteq> []"
    and "set feedNames \<subseteq> set order" and M: "M = Refresh now fetched m"
    and "(''urlcheck'', \<lambda>e. Returns (URLCheck_Scan True False (LookupURL order M) (LookupURLExact order M) e)) \<in> set (p_scanners p)"
    and "\<And>rs. set (p_arrive p rs) = set rs" and "\<And>n. p_faults p n = None"
    and "p_slot p" and "parsed p a raw uid mb = Returns (Inr e)" and "u \<in> set (em_URLs e)"
    and "blocked p (w_db w) e = None" and "matchWhitelist (p_parseAddress p) (snd (p_listFails p)) (w_db w) e = None"
    and "Process p a raw uid mb w = Returns w'"
  shows "\<exists>c rest. w_calls w' = w_calls w @ c # rest \<and> (c = MoveToQuarantine mb uid \<or> c = DeleteMessage mb uid)"
proof -
  let ?scan = "URLCheck_Scan True False (LookupURL order M) (LookupURLExact order M)"
  have "LookupURLExact order M u \<noteq> None"
    using refresh_listed_exact [of m feed fetched urls u order now] assms(1-6) M by blast
  then have "guardedLookup isSharedHostingDomain (LookupURL order M) (LookupURLExact order M) d u \<noteq> None" for d
    by (rule feeds.guarded_exact)
  then have hit: "sr_Verdict (?scan e) = ''malicious''" using assms(13) unfolding URLCheck_malicious by blast
  have "vd_Decision (Decide t e rs) \<in> {''quarantine'', ''delete''}" if "?scan e \<in> set rs" for t rs
  proof -
    have "urlHit (collect rs)" unfolding collect_hits using that hit urlcheck.own_name by blast
    then show ?thesis by (simp add: Decide_decision quarantineSignal_def)
  qed
  from scanner_forces_action [OF assms(16,11,12,14,15) _ _ assms(8) this subset_refl] assms(9,10) show ?thesis
    by (auto simp: acts_def callOf_def)
qed

text \<open>
  C3. An infected message is deleted: when the virus scanner is one of the pipeline's scanners and its daemon answers as documented, a signature in
  a live message or in one of its attachments, from a sender on neither list, makes the deletion of that message the first thing
  the pipeline does on the mail server, whatever the other scanners say.
\<close>

theorem infected_message_deleted:
  assumes "clamdAnswers sig clamd" and "(''clamav'', \<lambda>e. Returns (ClamAV_Scan True clamd e)) \<in> set (p_scanners p)"
    and "\<And>rs. set (p_arrive p rs) = set rs" and "\<And>n. p_faults p n = None"
    and "p_slot p" and "parsed p a raw uid mb = Returns (Inr e)"
    and "sig (em_Raw e) \<noteq> None \<or> (\<exists>att \<in> set (em_Attachments e). at_Raw att \<noteq> [] \<and> sig (at_Raw att) \<noteq> None)"
    and "blocked p (w_db w) e = None" and "matchWhitelist (p_parseAddress p) (snd (p_listFails p)) (w_db w) e = None"
    and "Process p a raw uid mb w = Returns w'"
  shows "\<exists>rest. w_calls w' = w_calls w @ DeleteMessage mb uid # rest"
proof -
  have "sr_Verdict (ClamAV_Scan True clamd e) = ''malicious''" using ClamAV_verdict [OF assms(1), of e] assms(7) by simp
  then have "vd_Decision (Decide t e rs) \<in> {''delete''}" if "ClamAV_Scan True clamd e \<in> set rs" for t rs
    using infected_decides_delete that by blast
  from scanner_forces_action [OF assms(10,5,6,8,9) _ _ assms(2) this] assms(3,4) show ?thesis
    by (auto simp: acts_def callOf_def)
qed

section \<open>Witnesses\<close>

definition linkLib :: mail_lib where
  "linkLib = demoLib\<lparr>htmlAttrs := (\<lambda>_. Returns (Some [(Some ''http://e.vil/x'', None, None)]))\<rparr>"

definition linkFetch :: "string \<Rightarrow> string list result" where
  "linkFetch name = (if name = ''openphish'' then Inr [''http://e.vil/x''] else Inl ''down'')"

definition linkPipeline :: pipeline where
  "linkPipeline = (demo (Inr (9, ''Q'')))\<lparr>p_lib := linkLib, p_scanners := [(''clamav'', \<lambda>e. Returns (ClamAV_Scan True eicarClamd e)),
     (''urlcheck'', \<lambda>e. Returns (URLCheck_Scan True False (LookupURL feedNames (Refresh 1 linkFetch newManager))
        (LookupURLExact feedNames (Refresh 1 linkFetch newManager)) e))]\<rparr>"

lemma linkPipeline_fields [simp]:
  "p_faults linkPipeline = (\<lambda>_. None)" "p_slot linkPipeline" "p_listFails linkPipeline = (False, False)" "p_arrive linkPipeline = (\<lambda>rs. rs)"
  "p_lib linkPipeline = linkLib" "p_TrustedAuthservID linkPipeline = []" "p_parseAddress linkPipeline = Some"
  by (simp_all add: linkPipeline_def demo_def)

lemma link_urls: "addAll (concat (map attrURLs [(Some ''http://e.vil/x'', None, None)])) (addAll (findURLs []) []) = [''http://e.vil/x'']"
  by code_simp

definition phishEmail :: "string \<Rightarrow> Email" where
  "phishEmail raw = (headerEmail demoHeader raw ''acct'' 7 ''INBOX'' [])\<lparr>em_URLs := [''http://e.vil/x'']\<rparr>"

lemma link_parsed:
  assumes "raw \<noteq> ''bad''"
  shows "Parse linkLib raw ''acct'' 7 ''INBOX'' n [] = Returns (Inr (phishEmail raw))"
proof -
  have "extractURLs linkLib [] [] = Returns [''http://e.vil/x'']"
    using link_urls by (simp add: extractURLs_def linkLib_def maxURLsPerEmail_def)
  with assms show ?thesis
    by (simp add: Parse_def linkLib_def demoLib_def walkParts_none walk0_def phishEmail_def headerEmail_def)
qed

lemma link_runs:
  assumes "raw \<noteq> ''bad''"
  obtains w' where "Process linkPipeline ''acct'' raw 7 ''INBOX'' (demoWorld emptyDB) = Returns w'"
proof -
  have "\<exists>w'. process linkPipeline ''acct'' raw 7 ''INBOX'' SourceLive (demoWorld emptyDB) = Returns w'"
    by (rule process_total) (auto simp: linkPipeline_def demo_def link_parsed [OF assms])
  with that show thesis by (auto simp: Process_def)
qed

lemma link_unlisted:
  "blocked linkPipeline (w_db (demoWorld emptyDB)) e = None"
  "matchWhitelist (p_parseAddress linkPipeline) (snd (p_listFails linkPipeline)) (w_db (demoWorld emptyDB)) e = None"
  by (simp_all add: blocked_def matchBlocklist_def matchWhitelist_def matchList_def emptyDB_def)

lemma listed_link_leaves_inbox_witness:
  "\<exists>w' c rest. Process linkPipeline ''acct'' ''ok'' 7 ''INBOX'' (demoWorld emptyDB) = Returns w'
     \<and> w_calls w' = c # rest \<and> (c = MoveToQuarantine ''INBOX'' 7 \<or> c = DeleteMessage ''INBOX'' 7)"
proof -
  obtain w' where w': "Process linkPipeline ''acct'' ''ok'' 7 ''INBOX'' (demoWorld emptyDB) = Returns w'" by (rule link_runs [of "''ok''"]) simp
  have "feedKey ''http://e.vil/x'' \<noteq> []" by code_simp
  then have "\<exists>c rest. w_calls w' = w_calls (demoWorld emptyDB) @ c # rest \<and> (c = MoveToQuarantine ''INBOX'' 7 \<or> c = DeleteMessage ''INBOX'' 7)"
    by (intro listed_link_leaves_inbox [where m = newManager and feed = "''openphish''" and fetched = linkFetch
          and urls = "[''http://e.vil/x'']" and order = feedNames and now = 1 and e = "phishEmail ''ok''", OF newManager_OK _ _ _ _ subset_refl refl
          _ _ _ _ _ _ link_unlisted w'])
      (simp_all add: feedNames_def linkFetch_def link_parsed phishEmail_def, simp add: linkPipeline_def feedNames_def)
  with w' show ?thesis by auto
qed

lemma infected_message_deleted_witness:
  "\<exists>w' rest. Process linkPipeline ''acct'' ''EICAR'' 7 ''INBOX'' (demoWorld emptyDB) = Returns w'
     \<and> w_calls w' = DeleteMessage ''INBOX'' 7 # rest"
proof -
  obtain w' where w': "Process linkPipeline ''acct'' ''EICAR'' 7 ''INBOX'' (demoWorld emptyDB) = Returns w'"
    by (rule link_runs [of "''EICAR''"]) simp
  have "\<exists>rest. w_calls w' = w_calls (demoWorld emptyDB) @ DeleteMessage ''INBOX'' 7 # rest"
    by (rule infected_message_deleted [where e = "phishEmail ''EICAR''", OF eicarClamd_answers _ _ _ _ _ _ link_unlisted w'])
      (simp_all add: link_parsed, simp_all add: linkPipeline_def phishEmail_def headerEmail_def eicarSig_def contains_def hasPrefix_def)
  with w' show ?thesis by auto
qed

end
