(* ===== verification/Config.thy ===== *)
theory Config
  imports NetURL Util
begin

text \<open>
  The configuration (\<^verbatim>\<open>app/config/config.go\<close>): the accounts of the YAML file with their defaults, the environment with
  its typed readers, and the validation that a configuration must pass before the program starts. The YAML decoder and bcrypt are
  arguments; of the many scalar settings only those that the validation and the models read are kept.
\<close>

section \<open>Data\<close>

record AccountConfig =
  acc_Name :: string
  acc_Host :: string
  acc_Port :: int
  acc_User :: string
  acc_Pass :: string
  acc_Mailbox :: string
  acc_Quarantine :: string
  acc_TLSSkipVerify :: bool
  acc_BackfillDays :: int

text \<open>A float64 that \<^verbatim>\<open>strconv.ParseFloat\<close> may yield, with Go's comparisons: every one of them is false when an operand is NaN.\<close>

datatype go_float = Finite float64 | PosInf | NegInf | NaN

fun floatLt :: "go_float \<Rightarrow> go_float \<Rightarrow> bool" where
  "floatLt (Finite x) (Finite y) = (x < y)"
| "floatLt (Finite x) PosInf = True"
| "floatLt NegInf (Finite y) = True"
| "floatLt NegInf PosInf = True"
| "floatLt _ _ = False"

definition floatGe :: "go_float \<Rightarrow> go_float \<Rightarrow> bool" where
  "floatGe x y \<longleftrightarrow> x \<noteq> NaN \<and> y \<noteq> NaN \<and> \<not> floatLt x y"

fun fmtFloat1 :: "go_float \<Rightarrow> string" where
  "fmtFloat1 (Finite x) = fmtF1 x"
| "fmtFloat1 PosInf = ''+Inf''"
| "fmtFloat1 NegInf = ''-Inf''"
| "fmtFloat1 NaN = ''NaN''"

record Config =
  cf_Accounts :: "AccountConfig list"
  cf_SpamScore :: go_float
  cf_RejectScore :: go_float
  cf_AdminPasswordBcrypt :: string
  cf_NtfyURL :: string
  cf_DBEncryptionKey :: string
  cf_CSRFSecret :: string
  cf_MetricsAllowedCIDRs :: "string list"
  cf_TrustedProxies :: "string list"

section \<open>The environment\<close>

type_synonym environment = "string \<rightharpoonup> string"

definition Getenv :: "environment \<Rightarrow> string \<Rightarrow> string" where
  "Getenv env key = (case env key of None \<Rightarrow> [] | Some v \<Rightarrow> v)"

definition getEnv :: "environment \<Rightarrow> string \<Rightarrow> string \<Rightarrow> string" where
  "getEnv env key def = (let v = Getenv env key in if v \<noteq> [] then v else def)"

text \<open>\<^verbatim>\<open>strconv.Atoi\<close> on a 64-bit platform: an optional sign and decimal digits within the range of \<^verbatim>\<open>int\<close>.\<close>

definition Atoi :: "string \<Rightarrow> int option" where
  "Atoi s =
     (let digits = (if s \<noteq> [] \<and> hd s \<in> {CHR ''-'', CHR ''+''} then tl s else s);
          v = (if s \<noteq> [] \<and> hd s = CHR ''-'' then - int (decVal digits) else int (decVal digits))
      in if digits = [] \<or> \<not> list_all isDigit digits \<or> v < - (2 ^ 63) \<or> v \<ge> 2 ^ 63 then None else Some v)"

definition ParseBool :: "string \<Rightarrow> bool option" where
  "ParseBool s =
     (if s \<in> {''1'', ''t'', ''T'', ''true'', ''TRUE'', ''True''} then Some True
      else if s \<in> {''0'', ''f'', ''F'', ''false'', ''FALSE'', ''False''} then Some False
      else None)"

definition typedEnv :: "(string \<Rightarrow> 'a option) \<Rightarrow> environment \<Rightarrow> string \<Rightarrow> 'a \<Rightarrow> 'a result" where
  "typedEnv parse env key def =
     (let v = Getenv env key
      in if v = [] then Inr def
         else (case parse v of None \<Rightarrow> Inl (''env '' @ key @ ''='' @ v) | Some x \<Rightarrow> Inr x))"

definition getEnvInt :: "environment \<Rightarrow> string \<Rightarrow> int \<Rightarrow> int result" where
  "getEnvInt = typedEnv Atoi"

definition getEnvBool :: "environment \<Rightarrow> string \<Rightarrow> bool \<Rightarrow> bool result" where
  "getEnvBool = typedEnv ParseBool"

definition splitCIDRs :: "string \<Rightarrow> string list" where
  "splitCIDRs raw = filter (\<lambda>c. c \<noteq> []) (map trimSpace (splitOn CHR '','' raw))"

definition metricsAllowedCIDRs :: "environment \<Rightarrow> string list" where
  "metricsAllowedCIDRs env = splitCIDRs (getEnv env ''MAILHOOK_METRICS_ALLOWED_CIDRS'' ''127.0.0.1/32,::1/128'')"

definition trustedProxies :: "environment \<Rightarrow> string list" where
  "trustedProxies env = splitCIDRs (getEnv env ''MAILHOOK_TRUSTED_PROXIES'' [])"

section \<open>Accounts\<close>

text \<open>The defaults of one account of the file; \<open>i\<close> is its index.\<close>

definition withDefaults :: "nat \<Rightarrow> AccountConfig \<Rightarrow> AccountConfig" where
  "withDefaults i a =
     a\<lparr>acc_Port := (if acc_Port a = 0 then 993 else acc_Port a),
       acc_Mailbox := (if acc_Mailbox a = [] then ''INBOX'' else acc_Mailbox a),
       acc_Quarantine := (if acc_Quarantine a = [] then ''Quarantine'' else acc_Quarantine a),
       acc_Name := (if acc_Name a = [] then ''account'' @ natStr (Suc i) else acc_Name a)\<rparr>"

text \<open>The file as the decoder yields it: absent, malformed, or its accounts.\<close>

datatype yaml_file = YamlMissing | YamlError error | YamlAccounts "AccountConfig list"

definition loadYAML :: "yaml_file \<Rightarrow> (bool \<times> error) + AccountConfig list" where
  "loadYAML f =
     (case f of
        YamlMissing \<Rightarrow> Inl (True, ''file does not exist'')
      | YamlError e \<Rightarrow> Inl (False, e)
      | YamlAccounts as \<Rightarrow> Inr (map2 withDefaults [0..<length as] as))"

text \<open>The account part of \<^verbatim>\<open>Load\<close>: the default path may be absent, a path that was given may not.\<close>

definition loadAccounts :: "bool \<Rightarrow> yaml_file \<Rightarrow> AccountConfig list result" where
  "loadAccounts explicit f =
     (case loadYAML f of
        Inr as \<Rightarrow> Inr as
      | Inl (notExist, e) \<Rightarrow> if \<not> explicit \<and> notExist then Inr [] else Inl (''config file: '' @ e))"

section \<open>Validation\<close>

text \<open>\<^verbatim>\<open>url.ParseRequestURI\<close>: no fragment, and without a scheme only an absolute path.\<close>

definition ParseRequestURI :: "string \<Rightarrow> URL option" where
  "ParseRequestURI raw =
     (if raw = [] then None
      else if raw = ''*'' then parseNoFrag raw
      else (case getScheme raw of
              None \<Rightarrow> None
            | Some (sch, rest) \<Rightarrow>
                if sch \<noteq> [] then parseNoFrag raw
                else if list_ex isCTL raw \<or> \<not> hasPrefix rest ''/'' then None
                else (case cutAt CHR ''?'' rest of (p, q) \<Rightarrow> setPath (emptyURL\<lparr>RawQuery := q\<rparr>) p)))"

fun validateAccounts :: "nat \<Rightarrow> string list \<Rightarrow> AccountConfig list \<Rightarrow> unit result" where
  "validateAccounts i seen [] = Inr ()"
| "validateAccounts i seen (a # as) =
     (if acc_Host a = [] then Inl (''accounts['' @ natStr i @ ''].host is required'')
      else if acc_User a = [] then Inl (''accounts['' @ natStr i @ ''].user is required'')
      else if acc_Pass a = [] then Inl (''accounts['' @ natStr i @ ''].pass is required'')
      else if acc_Name a \<in> set seen then Inl (''duplicate account name '' @ [CHR 0x22] @ acc_Name a @ [CHR 0x22])
      else validateAccounts (Suc i) (acc_Name a # seen) as)"

text \<open>\<open>bcryptCost\<close> tells whether a string is a bcrypt hash; the texts of wrapped errors are left out.\<close>

definition validate :: "(string \<Rightarrow> bool) \<Rightarrow> Config \<Rightarrow> unit result" where
  "validate bcryptCost c =
     (case validateAccounts 0 [] (cf_Accounts c) of
        Inl e \<Rightarrow> Inl e
      | Inr _ \<Rightarrow>
          if cf_AdminPasswordBcrypt c = [] then Inl ''MAILHOOK_ADMIN_PASSWORD_BCRYPT is required''
          else if \<not> bcryptCost (cf_AdminPasswordBcrypt c) then Inl ''MAILHOOK_ADMIN_PASSWORD_BCRYPT is not a valid bcrypt hash''
          else if floatGe (cf_SpamScore c) (cf_RejectScore c) then Inl (''MAILHOOK_SPAM_SCORE ('' @ fmtFloat1 (cf_SpamScore c) @ '') must be less than MAILHOOK_REJECT_SCORE ('' @ fmtFloat1 (cf_RejectScore c) @ '')'')
          else if cf_NtfyURL c \<noteq> [] \<and> ParseRequestURI (cf_NtfyURL c) = None then Inl ''MAILHOOK_NTFY_URL is not a valid URL''
          else if cf_DBEncryptionKey c = [] then Inl ''MAILHOOK_DB_ENCRYPTION_KEY is required; generate with: openssl rand -hex 32''
          else if cf_DBEncryptionKey c = ''REPLACE_WITH_HEX_KEY'' \<or> hasPrefix (cf_DBEncryptionKey c) ''changeme''
            then Inl (''MAILHOOK_DB_ENCRYPTION_KEY is still set to a placeholder '' @ emDash @ '' replace it before running'')
          else if cf_CSRFSecret c = [] then Inl ''MAILHOOK_CSRF_SECRET is required; generate with: openssl rand -hex 32''
          else if cf_CSRFSecret c = ''REPLACE_WITH_HEX_SECRET'' \<or> hasPrefix (cf_CSRFSecret c) ''changeme''
            then Inl (''MAILHOOK_CSRF_SECRET is still set to a placeholder '' @ emDash @ '' replace it before running'')
          else if length (cf_CSRFSecret c) < 32 then Inl ''MAILHOOK_CSRF_SECRET must be at least 32 characters; generate with: openssl rand -hex 32''
          else Inr ())"

section \<open>What a validated configuration guarantees\<close>

definition accountOK :: "AccountConfig \<Rightarrow> bool" where
  "accountOK a \<longleftrightarrow> acc_Host a \<noteq> [] \<and> acc_User a \<noteq> [] \<and> acc_Pass a \<noteq> [] \<and> acc_Name a \<noteq> []
     \<and> acc_Port a \<noteq> 0 \<and> acc_Mailbox a \<noteq> [] \<and> acc_Quarantine a \<noteq> []"

lemma validateAccounts_iff:
  "validateAccounts i seen as = Inr () \<longleftrightarrow>
     (\<forall>a \<in> set as. acc_Host a \<noteq> [] \<and> acc_User a \<noteq> [] \<and> acc_Pass a \<noteq> [] \<and> acc_Name a \<notin> set seen) \<and> distinct (map acc_Name as)"
  by (induction as arbitrary: i seen) (auto, metis imageI)

lemma loadAccounts_defaults:
  assumes "loadAccounts explicit f = Inr as" and "a \<in> set as"
  shows "acc_Name a \<noteq> [] \<and> acc_Port a \<noteq> 0 \<and> acc_Mailbox a \<noteq> [] \<and> acc_Quarantine a \<noteq> []"
  using assms by (auto simp: loadAccounts_def loadYAML_def withDefaults_def split: yaml_file.splits if_splits dest!: set_zip_rightD)

text \<open>A secret that was set, and not to one of the placeholders of the documentation.\<close>

definition realSecret :: "string \<Rightarrow> string \<Rightarrow> bool" where
  "realSecret placeholder v \<longleftrightarrow> v \<noteq> [] \<and> v \<noteq> placeholder \<and> take 8 v \<noteq> ''changeme''"

definition secretsOK :: "(string \<Rightarrow> bool) \<Rightarrow> Config \<Rightarrow> bool" where
  "secretsOK bcryptCost c \<longleftrightarrow> cf_AdminPasswordBcrypt c \<noteq> [] \<and> bcryptCost (cf_AdminPasswordBcrypt c)
     \<and> realSecret ''REPLACE_WITH_HEX_KEY'' (cf_DBEncryptionKey c)
     \<and> realSecret ''REPLACE_WITH_HEX_SECRET'' (cf_CSRFSecret c) \<and> length (cf_CSRFSecret c) \<ge> 32"

lemma hasPrefix_changeme: "hasPrefix v ''changeme'' \<longleftrightarrow> take 8 v = ''changeme''"
  by (simp add: hasPrefix_def eval_nat_numeral)

text \<open>The settings other than the accounts pass exactly when the thresholds are not in the wrong order, the notification URL parses and the secrets are real.\<close>

lemma validate_iff:
  "validate bcryptCost c = Inr () \<longleftrightarrow> validateAccounts 0 [] (cf_Accounts c) = Inr () \<and> \<not> floatGe (cf_SpamScore c) (cf_RejectScore c)
     \<and> (cf_NtfyURL c = [] \<or> ParseRequestURI (cf_NtfyURL c) \<noteq> None) \<and> secretsOK bcryptCost c"
  by (auto simp: validate_def secretsOK_def realSecret_def hasPrefix_changeme split: sum.splits)

text \<open>
  When the accounts of the file and the other settings pass the validation, every account has host, user, password, a name of its own, a port, a mailbox and a
  quarantine folder.
\<close>

lemma accounts_wellformed:
  assumes "loadAccounts explicit f = Inr as" and "validateAccounts 0 [] as = Inr ()"
  shows "list_all accountOK as \<and> distinct (map acc_Name as)"
proof -
  have "accountOK a" if "a \<in> set as" for a
    using assms(2) that loadAccounts_defaults [OF assms(1) that] by (auto simp: validateAccounts_iff accountOK_def)
  then show ?thesis using assms(2) by (simp add: list_all_iff validateAccounts_iff)
qed

end
