(* ===== verification/Retro.thy ===== *)
theory Retro
  imports UrlScanners Invariants Config
begin

text \<open>
  The retrospective scanner of \<^verbatim>\<open>app/pipeline/retro.go\<close>: it pages through the clean messages of the last 72 hours that are
  still in the inbox, looks their links up in the current feeds and claws back the messages with a hit. The
  paging loop is shown equivalent to one pass over all candidates; a sweep touches nothing else.
\<close>

section \<open>State and environment\<close>

record retro_world =
  r_db :: db
  r_writes :: nat
  r_moves :: "(AccountConfig \<times> string \<times> uint32) list"   \<comment> \<open>calls of \<^verbatim>\<open>MoveToQuarantine\<close>\<close>
  r_notified :: "nat list"
  r_sse :: "nat list"

text \<open>
  \<open>rt_move\<close> at n is how the server of an account answers the n-th move; \<open>rt_stop\<close> and \<open>rt_stopBatch\<close> tell whether the context is done before a row, before a page;
  \<open>rt_queryFails\<close> whether the query of a page fails.
\<close>

record retro =
  rt_lookup :: lookup
  rt_exact :: lookup
  rt_move :: "nat \<Rightarrow> AccountConfig \<Rightarrow> (uint32 \<times> string) result"
  rt_faults :: faults
  rt_start :: go_time
  rt_now :: go_time
  rt_notifier :: bool
  rt_hub :: bool
  rt_stop :: "nat \<Rightarrow> bool"
  rt_stopBatch :: "nat \<Rightarrow> bool"
  rt_queryFails :: "nat \<Rightarrow> bool"

section \<open>Shared hosting\<close>

definition retroSharedHostingDomains :: "string list" where
  "retroSharedHostingDomains =
     [''github.com'', ''githubusercontent.com'', ''github.io'', ''gitlab.com'', ''bitbucket.org'', ''drive.google.com'',
      ''docs.google.com'', ''storage.googleapis.com'', ''sharepoint.com'', ''onedrive.live.com'', ''1drv.ms'', ''dropbox.com'',
      ''box.com'', ''s3.amazonaws.com'', ''s3-us-west-2.amazonaws.com'', ''blob.core.windows.net'', ''cloudfront.net'',
      ''pages.dev'', ''workers.dev'', ''netlify.app'', ''vercel.app'', ''herokuapp.com'', ''azurewebsites.net'', ''web.app'',
      ''firebaseapp.com'', ''wordpress.com'', ''blogspot.com'', ''tumblr.com'', ''medium.com'', ''substack.com'', ''wixsite.com'']"

definition retroIsSharedHostingDomain :: "string \<Rightarrow> bool" where
  "retroIsSharedHostingDomain host = hostOrParent retroSharedHostingDomains host"

definition retroExtractDomain :: "string \<Rightarrow> string" where
  "retroExtractDomain rawURL =
     (case urlParse rawURL of None \<Rightarrow> [] | Some u \<Rightarrow> trimPrefix (toLower (Hostname u)) ''www.'')"

section \<open>One message\<close>

definition retroHits :: "retro \<Rightarrow> string list \<Rightarrow> URLHit list" where
  "retroHits E urls =
     concat (map (\<lambda>u.
        case guardedLookup retroIsSharedHostingDomain (rt_lookup E) (rt_exact E) (retroExtractDomain u) u of
          None \<Rightarrow> []
        | Some (feed, threatType) \<Rightarrow> [\<lparr>uh_URL = u, uh_Domain = [], uh_Feed = feed, uh_ThreatType = threatType\<rparr>]) urls)"

definition accountConfig :: "Account \<Rightarrow> AccountConfig" where
  "accountConfig a =
     \<lparr>acc_Name = ac_Name a, acc_Host = ac_Host a, acc_Port = (if ac_Port a = 0 then 993 else ac_Port a),
      acc_User = ac_User a, acc_Pass = ac_Pass a, acc_Mailbox = ac_Mailbox a,
      acc_Quarantine = (if ac_Quarantine a = [] then ''Quarantine'' else ac_Quarantine a),
      acc_TLSSkipVerify = ac_TLSSkipVerify a, acc_BackfillDays = 0\<rparr>"

definition retroVerdict :: "URLHit list \<Rightarrow> string" where
  "retroVerdict hits = (if list_ex (\<lambda>h. uh_ThreatType h = ''malware'') hits then VerdictMalware else VerdictPhish)"

definition retroReason :: "URLHit list \<Rightarrow> string" where
  "retroReason hits =
     ''retrospective: '' @ uh_URL (hd hits) @ '' now in '' @ uh_Feed (hd hits) @ '' ('' @ uh_ThreatType (hd hits) @ '')''"

text \<open>The columns of the update, applied only while the row is still in the inbox.\<close>

definition clawColumns :: "retro \<Rightarrow> Scan \<Rightarrow> URLHit list \<Rightarrow> uint32 \<Rightarrow> string \<Rightarrow> Scan \<Rightarrow> Scan" where
  "clawColumns E scan hits qUID qMailbox s =
     (if Status s \<noteq> StatusInbox then s
      else (let s1 = s\<lparr>Verdict := retroVerdict hits, VerdictReason := retroReason hits, Status := StatusQuarantined,
                       URLHits := Some (JArr (map marshalURLHit hits)), ActionedBy := ''retro'',
                       ActionedAt := Some (rt_now E), IMAPMailbox := qMailbox\<rparr>
            in if qUID > 0
               then s1\<lparr>IMAPUID := qUID, AccountUID := MakeAccountUID (AccountName scan) qMailbox qUID\<rparr> else s1))"

text \<open>The transaction: the guarded update, then the audit entry.\<close>

definition clawTx :: "retro \<Rightarrow> Scan \<Rightarrow> URLHit list \<Rightarrow> uint32 \<Rightarrow> string \<Rightarrow> db \<Rightarrow> (db \<times> unit) result" where
  "clawTx E scan hits qUID qMailbox d =
     (case updateScan (ID scan) (clawColumns E scan hits qUID qMailbox) d of
        Inl e \<Rightarrow> Inl e
      | Inr d' \<Rightarrow> Inr (createAudit \<lparr>al_ScanID = ID scan, al_Action = ActionRetroQuarantine,
                                     al_Actor = ''auto'', al_Note = retroReason hits\<rparr> d', ()))"

definition clawback :: "retro \<Rightarrow> Scan \<Rightarrow> URLHit list \<Rightarrow> retro_world \<Rightarrow> retro_world" where
  "clawback E scan hits w =
     (case find (\<lambda>a. ac_Name a = AccountName scan) (accounts (r_db w)) of
        None \<Rightarrow> w
      | Some account \<Rightarrow>
          (let w1 = w\<lparr>r_moves := r_moves w @ [(accountConfig account, IMAPMailbox scan, IMAPUID scan)]\<rparr>
           in case rt_move E (length (r_moves w)) (accountConfig account) of
                Inl _ \<Rightarrow> w1
              | Inr (qUID, qMailbox) \<Rightarrow>
                  (let d = fst (dbWrite (rt_faults E) (r_writes w1) (clawTx E scan hits qUID qMailbox) (r_db w1))
                   in w1\<lparr>r_db := d, r_writes := Suc (r_writes w1),
                         r_notified := r_notified w1 @ (if rt_notifier E then [ID scan] else []),
                         r_sse := r_sse w1 @ (if rt_hub E \<and> rowOf (ID scan) d \<noteq> None then [ID scan] else [])\<rparr>)))"

definition evaluate :: "retro \<Rightarrow> Scan \<Rightarrow> retro_world \<Rightarrow> retro_world" where
  "evaluate E scan w =
     (case map_option unmarshalStrings (ScannedURLs scan) of
        Some (Some urls) \<Rightarrow> (let hits = retroHits E urls in if hits = [] then w else clawback E scan hits w)
      | _ \<Rightarrow> w)"

section \<open>The sweep\<close>

definition lookbackHours :: int where
  "lookbackHours = 72"

definition cutoff :: "retro \<Rightarrow> go_time" where
  "cutoff E = rt_start E - lookbackHours * 3600 * 10 ^ 9"

definition candidate :: "retro \<Rightarrow> Scan \<Rightarrow> bool" where
  "candidate E s \<longleftrightarrow> Verdict s = VerdictClean \<and> Status s = StatusInbox \<and> CreatedAt s > cutoff E
     \<and> ScannedURLs s \<noteq> None \<and> ScannedURLs s \<noteq> Some JNull"

definition batchSize :: nat where
  "batchSize = 200"

definition candidatesAfter :: "retro \<Rightarrow> nat \<Rightarrow> db \<Rightarrow> Scan list" where
  "candidatesAfter E lastID d = sort_key ID (filter (\<lambda>s. ID s > lastID \<and> candidate E s) (scans d))"

text \<open>The rows of one page; the flag tells that the context was done.\<close>

fun evalRows :: "retro \<Rightarrow> Scan list \<Rightarrow> retro_world \<Rightarrow> retro_world \<times> bool" where
  "evalRows E [] w = (w, False)"
| "evalRows E (s # ss) w = (if rt_stop E (ID s) then (w, True) else evalRows E ss (evaluate E s w))"

text \<open>
  The paging loop; \<open>k\<close> counts the pages. It ends because every page moves \<open>lastID\<close> past at least one row and an
  evaluation never changes a primary key.
\<close>

lemma clawColumns_ID [simp]: "ID (clawColumns E c hits q m s) = ID s"
  by (simp add: clawColumns_def Let_def)

text \<open>The row of the message under evaluation is rewritten from its hits, or no row is.\<close>

lemma clawback_db:
  "r_db (clawback E c hits w) = r_db w \<or>
   (\<exists>q m. r_db (clawback E c hits w) = fst (dbWrite (rt_faults E) (r_writes w) (clawTx E c hits q m) (r_db w)))"
  unfolding clawback_def by (auto simp: Let_def split: option.split sum.split prod.split)

lemma clawTx_rows:
  "clawTx E c hits q m d = Inr (d', x) \<Longrightarrow> scans d' = map (onRow (ID c) (clawColumns E c hits q m)) (scans d)"
  by (auto simp: clawTx_def updateScan_def createAudit_def onRow_eq Let_def split: if_splits)

lemma clawback_rows:
  "scans (r_db (clawback E c hits w)) = scans (r_db w) \<or>
   (\<exists>q m. scans (r_db (clawback E c hits w)) = map (onRow (ID c) (clawColumns E c hits q m)) (scans (r_db w)))"
  using clawback_db [of E c hits w]
proof (elim disjE exE)
  fix q m
  assume "r_db (clawback E c hits w) = fst (dbWrite (rt_faults E) (r_writes w) (clawTx E c hits q m) (r_db w))"
  then show ?thesis
    by (cases rule: dbWrite_cases [of "rt_faults E" "r_writes w" "clawTx E c hits q m" "r_db w"])
      (auto dest!: clawTx_rows)
qed simp

definition storedHits :: "retro \<Rightarrow> Scan \<Rightarrow> URLHit list" where
  "storedHits E s = (case ScannedURLs s of None \<Rightarrow> [] | Some j \<Rightarrow>
     (case unmarshalStrings j of None \<Rightarrow> [] | Some urls \<Rightarrow> retroHits E urls))"

lemma evaluate_alt: "evaluate E c w = (if storedHits E c = [] then w else clawback E c (storedHits E c) w)"
  by (simp add: evaluate_def storedHits_def Let_def split: option.splits)

lemma evaluate_rows:
  obtains (same) "scans (r_db (evaluate E c w)) = scans (r_db w)"
  | (clawed) q m where "storedHits E c \<noteq> []"
      "scans (r_db (evaluate E c w)) = map (onRow (ID c) (clawColumns E c (storedHits E c) q m)) (scans (r_db w))"
  using clawback_rows [of E c "storedHits E c" w] same clawed
  unfolding evaluate_alt by (cases "storedHits E c = []") (simp, metis)

lemma evaluate_ids: "map ID (scans (r_db (evaluate E c w))) = map ID (scans (r_db w))"
  by (cases rule: evaluate_rows [of E c w]) (auto simp: onRow_def)

lemma evalRows_ids: "map ID (scans (r_db (fst (evalRows E cs w)))) = map ID (scans (r_db w))"
  by (induction cs arbitrary: w) (simp_all add: evaluate_ids)

lemma candidatesAfter_set:
  "set (candidatesAfter E k d) = {s \<in> set (scans d). k < ID s \<and> candidate E s}"
  by (auto simp: candidatesAfter_def)

lemma rows_left_decrease:
  assumes "map ID xs = map ID ys" and "c \<in> set ys" and "k < ID c"
  shows "length (filter (\<lambda>s. ID c < ID s) xs) < length (filter (\<lambda>s. k < ID s) ys)"
proof -
  have len: "length (filter (\<lambda>s. j < ID s) zs) = length (filter (\<lambda>i. j < i) (map ID zs))" for j zs
    by (simp add: filter_map comp_def)
  have "filter (\<lambda>s. ID c < ID s) ys = filter (\<lambda>s. ID c < ID s) (filter (\<lambda>s. k < ID s) ys)"
    using assms(3) by (induction ys) auto
  also have "length \<dots> < length (filter (\<lambda>s. k < ID s) ys)"
    by (rule length_filter_less [where x = c]) (use assms in auto)
  finally show ?thesis by (simp add: len assms(1) del: length_filter_map)
qed

function sweepLoop :: "retro \<Rightarrow> nat \<Rightarrow> nat \<Rightarrow> retro_world \<Rightarrow> retro_world" where
  "sweepLoop E k lastID w =
     (if rt_stopBatch E k \<or> rt_queryFails E k then w
      else (let candidates = take batchSize (candidatesAfter E lastID (r_db w))
            in if candidates = [] then w
               else (case evalRows E candidates w of
                       (w', True) \<Rightarrow> w'
                     | (w', False) \<Rightarrow>
                         if length candidates < batchSize then w'
                         else sweepLoop E (Suc k) (ID (last candidates)) w')))"
  by pat_completeness auto

termination sweepLoop
proof (relation "measure (\<lambda>(E, k, lastID, w). length (filter (\<lambda>s. lastID < ID s) (scans (r_db w))))", goal_cases)
  case (2 E k lastID w cs w' b)
  have "last cs \<in> set (candidatesAfter E lastID (r_db w))"
    using 2(2,3) by (metis in_set_takeD last_in_set)
  then have "last cs \<in> set (scans (r_db w))" "lastID < ID (last cs)"
    by (simp_all add: candidatesAfter_set)
  moreover have "map ID (scans (r_db w')) = map ID (scans (r_db w))"
    using evalRows_ids [of E cs w] 2(4) [symmetric] by simp
  ultimately show ?case by (simp add: rows_left_decrease)
qed simp

declare sweepLoop.simps [simp del]

text \<open>A sweep that is asked to stop or that finds another one running does nothing.\<close>

definition sweep :: "bool \<Rightarrow> bool \<Rightarrow> retro \<Rightarrow> retro_world \<Rightarrow> retro_world" where
  "sweep cancelled running E w = (if cancelled \<or> running then w else sweepLoop E 0 0 w)"

text \<open>\<^verbatim>\<open>Run\<close>: a sweep at the start and one at every tick; each sweep sees its own answers of the environment.\<close>

definition retroRun :: "retro \<Rightarrow> retro list \<Rightarrow> retro_world \<Rightarrow> retro_world" where
  "retroRun E0 ticks w = foldl (\<lambda>w E. sweep False False E w) (sweep False False E0 w) ticks"

section \<open>Paging is invisible\<close>

lemma evalRows_append:
  "evalRows E (xs @ ys) w = (case evalRows E xs w of (w', True) \<Rightarrow> (w', True) | (w', False) \<Rightarrow> evalRows E ys w')"
  by (induction xs arbitrary: w) (auto split: prod.split)

lemma evaluate_later:
  assumes "ID c \<le> k"
  shows "filter (\<lambda>s. k < ID s \<and> P s) (scans (r_db (evaluate E c w))) = filter (\<lambda>s. k < ID s \<and> P s) (scans (r_db w))"
proof -
  have "filter (\<lambda>s. k < ID s \<and> P s) (map (onRow (ID c) f) xs) = filter (\<lambda>s. k < ID s \<and> P s) xs"
    if "\<And>s. ID (f s) = ID s" for f xs
    using assms that by (induction xs) (auto simp: onRow_def)
  then show ?thesis by (cases rule: evaluate_rows [of E c w]) simp_all
qed

lemma evalRows_later:
  assumes "\<And>c. c \<in> set cs \<Longrightarrow> ID c \<le> k"
  shows "candidatesAfter E k (r_db (fst (evalRows E cs w))) = candidatesAfter E k (r_db w)"
  using assms by (induction cs arbitrary: w) (simp_all add: candidatesAfter_def evaluate_later)

lemma sorted_filter_gt:
  assumes "sorted_wrt (\<lambda>a b. ID a < ID b) (xs @ ys)" and "xs \<noteq> []"
  shows "filter (\<lambda>s. ID (last xs) < ID s) (xs @ ys) = ys" and "\<And>c. c \<in> set xs \<Longrightarrow> ID c \<le> ID (last xs)"
proof -
  show le: "ID c \<le> ID (last xs)" if "c \<in> set xs" for c
    using assms that by (cases xs rule: rev_cases) (auto simp: sorted_wrt_append less_imp_le)
  have "filter (\<lambda>s. ID (last xs) < ID s) xs = []" using le by (auto simp: filter_empty_conv not_less)
  moreover have "filter (\<lambda>s. ID (last xs) < ID s) ys = ys"
    using assms by (auto simp: sorted_wrt_append filter_id_conv)
  ultimately show "filter (\<lambda>s. ID (last xs) < ID s) (xs @ ys) = ys" by simp
qed

lemma candidatesAfter_sorted:
  assumes "distinct (map ID (scans d))"
  shows "sorted_wrt (\<lambda>a b. ID a < ID b) (candidatesAfter E k d)"
proof -
  have "distinct (map ID (candidatesAfter E k d))" "sorted (map ID (candidatesAfter E k d))"
    using assms by (auto simp: candidatesAfter_def distinct_map inj_on_def)
  then have "sorted_wrt (<) (map ID (candidatesAfter E k d))" by (simp add: strict_sorted_iff)
  then show ?thesis by (simp add: sorted_wrt_map)
qed

lemma candidatesAfter_filter:
  assumes "k \<le> j"
  shows "candidatesAfter E j d = filter (\<lambda>s. j < ID s) (candidatesAfter E k d)"
  using assms by (auto simp: candidatesAfter_def filter_sort [symmetric] intro!: arg_cong [where f = "sort_key ID"] filter_cong)

text \<open>The rest of the candidates after a page is what the next query returns.\<close>

lemma next_page:
  assumes "distinct (map ID (scans (r_db w)))" and "cs = take n (candidatesAfter E k (r_db w))" and "cs \<noteq> []"
  shows "candidatesAfter E (ID (last cs)) (r_db (fst (evalRows E cs w))) = drop n (candidatesAfter E k (r_db w))"
proof -
  let ?all = "candidatesAfter E k (r_db w)"
  have split: "?all = cs @ drop n ?all" by (simp add: assms(2))
  have s: "sorted_wrt (\<lambda>a b. ID a < ID b) (cs @ drop n ?all)"
    using candidatesAfter_sorted [OF assms(1), of E k] split by simp
  have "last cs \<in> set ?all" using assms(2,3) by (metis in_set_takeD last_in_set)
  then have "k \<le> ID (last cs)" by (simp add: candidatesAfter_set)
  then have "candidatesAfter E (ID (last cs)) (r_db w) = drop n ?all"
    using candidatesAfter_filter [of k "ID (last cs)" E "r_db w"] sorted_filter_gt(1) [OF s assms(3)] split by simp
  then show ?thesis using evalRows_later sorted_filter_gt(2) [OF s assms(3)] by simp
qed

lemma sweepLoop_onepass:
  assumes "\<And>k. \<not> rt_stopBatch E k \<and> \<not> rt_queryFails E k" and "distinct (map ID (scans (r_db w)))"
  shows "sweepLoop E k lastID w = fst (evalRows E (candidatesAfter E lastID (r_db w)) w)"
  using assms
proof (induction E k lastID w rule: sweepLoop.induct)
  case (1 E k lastID w)
  let ?all = "candidatesAfter E lastID (r_db w)"
  define cs where "cs = take batchSize ?all"
  obtain w' stopped where ev: "evalRows E cs w = (w', stopped)" by fastforce
  have split: "evalRows E ?all w = (if stopped then (w', True) else evalRows E (drop batchSize ?all) w')"
    using evalRows_append [of E cs "drop batchSize ?all" w] ev by (simp add: cs_def)
  have d: "distinct (map ID (scans (r_db w')))"
    using evalRows_ids [of E cs w] ev "1.prems"(2) by simp
  show ?case
  proof (cases "cs = []")
    case True
    then have "?all = []" by (simp add: cs_def batchSize_def)
    then show ?thesis using "1.prems"(1) by (simp add: sweepLoop.simps [of E k])
  next
    case False
    have nxt: "candidatesAfter E (ID (last cs)) (r_db w') = drop batchSize ?all"
      using next_page [OF "1.prems"(2) cs_def False] ev by simp
    have short: "drop batchSize ?all = []" if "length cs < batchSize" using that by (simp add: cs_def)
    show ?thesis
      using "1.IH" [OF _ cs_def False ev [symmetric]] "1.prems"(1) d False short
      by (cases stopped)
        (auto simp: sweepLoop.simps [of E k lastID w] ev split nxt Let_def simp flip: cs_def)
  qed
qed

section \<open>What a sweep may change\<close>

text \<open>
  A row after a sweep is the row before it, or it was a candidate with a hit and is now quarantined with the verdict of
  its hits.
\<close>

definition clawed :: "retro \<Rightarrow> Scan \<Rightarrow> Scan \<Rightarrow> bool" where
  "clawed E s s' \<longleftrightarrow> candidate E s \<and> storedHits E s \<noteq> [] \<and> ID s' = ID s \<and> Status s' = StatusQuarantined
     \<and> Verdict s' = retroVerdict (storedHits E s) \<and> VerdictReason s' = retroReason (storedHits E s)
     \<and> ActionedBy s' = ''retro'' \<and> MessageID s' = MessageID s \<and> ScannedURLs s' = ScannedURLs s"

definition sweptRow :: "retro \<Rightarrow> Scan \<Rightarrow> Scan \<Rightarrow> bool" where
  "sweptRow E s s' \<longleftrightarrow> s' = s \<or> clawed E s s'"

lemma quarantined_no_candidate: "Status s = StatusQuarantined \<Longrightarrow> \<not> candidate E s"
  by (simp add: candidate_def StatusQuarantined_def StatusInbox_def)

lemma sweptRow_trans: "sweptRow E s s' \<Longrightarrow> sweptRow E s' s'' \<Longrightarrow> sweptRow E s s''"
  by (auto simp: sweptRow_def clawed_def quarantined_no_candidate)

lemma swept_trans:
  "list_all2 (sweptRow E) xs ys \<Longrightarrow> list_all2 (sweptRow E) ys zs \<Longrightarrow> list_all2 (sweptRow E) xs zs"
  by (rule list_all2_trans [OF sweptRow_trans])

lemma swept_refl: "list_all2 (sweptRow E) xs xs"
  by (simp add: list.rel_refl sweptRow_def)

lemma clawColumns_clawed:
  assumes "candidate E s" and "storedHits E s \<noteq> []"
  shows "clawed E s (clawColumns E s (storedHits E s) q m s)"
  using assms by (simp add: clawed_def clawColumns_def candidate_def Let_def)

lemma evaluate_swept:
  assumes "distinct (map ID (scans (r_db w)))" and "c \<in> set (scans (r_db w))" and "candidate E c"
  shows "list_all2 (sweptRow E) (scans (r_db w)) (scans (r_db (evaluate E c w)))"
proof (cases rule: evaluate_rows [of E c w])
  case (clawed q m)
  have "sweptRow E s (onRow (ID c) (clawColumns E c (storedHits E c) q m) s)" if "s \<in> set (scans (r_db w))" for s
  proof (cases "ID s = ID c")
    case True
    then have "s = c" using assms(1,2) that by (auto simp: distinct_map inj_on_def)
    then show ?thesis using clawColumns_clawed [OF assms(3) clawed(1)] by (simp add: onRow_def sweptRow_def)
  qed (simp add: onRow_def sweptRow_def)
  then show ?thesis by (simp add: clawed(2) list_all2_map2 list.rel_refl_strong)
qed (simp add: swept_refl)

lemma evaluate_keeps:
  assumes "s \<in> set (scans (r_db w))" and "ID s \<noteq> ID c"
  shows "s \<in> set (scans (r_db (evaluate E c w)))"
  by (cases rule: evaluate_rows [of E c w])
    (use assms in \<open>auto simp: onRow_def image_iff intro!: bexI [of _ s]\<close>)

lemma evalRows_swept:
  assumes "distinct (map ID (scans (r_db w)))" and "distinct (map ID cs)"
    and "\<And>c. c \<in> set cs \<Longrightarrow> c \<in> set (scans (r_db w)) \<and> candidate E c"
  shows "list_all2 (sweptRow E) (scans (r_db w)) (scans (r_db (fst (evalRows E cs w))))"
  using assms
proof (induction cs arbitrary: w)
  case (Cons c cs)
  let ?w = "evaluate E c w"
  have "list_all2 (sweptRow E) (scans (r_db w)) (scans (r_db ?w))"
    using Cons.prems by (simp add: evaluate_swept)
  moreover have "list_all2 (sweptRow E) (scans (r_db ?w)) (scans (r_db (fst (evalRows E cs ?w))))"
  proof (rule Cons.IH)
    show "x \<in> set (scans (r_db ?w)) \<and> candidate E x" if "x \<in> set cs" for x
    proof
      have "ID x \<noteq> ID c" using Cons.prems(2) that by (metis distinct.simps(2) image_eqI list.simps(9) set_map)
      then show "x \<in> set (scans (r_db ?w))" using Cons.prems(3) that by (simp add: evaluate_keeps)
    qed (use Cons.prems(3) that in simp)
  qed (use Cons.prems in \<open>simp_all add: evaluate_ids\<close>)
  ultimately show ?case by (auto intro: swept_trans simp: swept_refl)
qed (simp add: swept_refl)

lemma page_swept:
  assumes "distinct (map ID (scans (r_db w)))"
  shows "list_all2 (sweptRow E) (scans (r_db w)) (scans (r_db (fst (evalRows E (take n (candidatesAfter E k (r_db w))) w))))"
proof (rule evalRows_swept [OF assms])
  have "distinct (map ID (candidatesAfter E k (r_db w)))"
    using assms by (auto simp: candidatesAfter_def distinct_map inj_on_def)
  then show "distinct (map ID (take n (candidatesAfter E k (r_db w))))"
    by (metis distinct_take take_map)
qed (auto simp: candidatesAfter_set dest!: in_set_takeD)

lemma sweepLoop_swept:
  assumes "distinct (map ID (scans (r_db w)))"
  shows "list_all2 (sweptRow E) (scans (r_db w)) (scans (r_db (sweepLoop E k lastID w)))"
  using assms
proof (induction E k lastID w rule: sweepLoop.induct)
  case (1 E k lastID w)
  define cs where "cs = take batchSize (candidatesAfter E lastID (r_db w))"
  obtain w' stopped where ev: "evalRows E cs w = (w', stopped)" by fastforce
  have page: "list_all2 (sweptRow E) (scans (r_db w)) (scans (r_db w'))"
    using page_swept [OF "1.prems", of E batchSize lastID] ev by (simp add: cs_def)
  have d: "distinct (map ID (scans (r_db w')))"
    using evalRows_ids [of E cs w] ev "1.prems" by simp
  show ?case
  proof (cases "\<not> (rt_stopBatch E k \<or> rt_queryFails E k) \<and> cs \<noteq> []")
    case True
    then show ?thesis
      using "1.IH" [OF _ cs_def _ ev [symmetric]] d page
      by (cases stopped) (auto simp: sweepLoop.simps [of E k lastID w] ev Let_def swept_refl intro: swept_trans simp flip: cs_def)
  qed (auto simp: sweepLoop.simps [of E k lastID w] swept_refl Let_def simp flip: cs_def)
qed

section \<open>Sweeps keep the invariants of the tables\<close>

context table_invariant
begin

lemma clawback_inv: "inv (r_db w) \<Longrightarrow> inv (r_db (clawback E c hits w))"
  using clawback_db [of E c hits w]
proof (elim disjE exE)
  fix q m
  assume "inv (r_db w)" and *: "r_db (clawback E c hits w) = fst (dbWrite (rt_faults E) (r_writes w) (clawTx E c hits q m) (r_db w))"
  moreover have "inv d'" if "clawTx E c hits q m (r_db w) = Inr (d', x)" for d' x
    using that \<open>inv (r_db w)\<close> by (auto simp: clawTx_def split: sum.splits intro: inv_audit inv_update [OF _ clawColumns_ID])
  ultimately show ?thesis by (metis inv_dbWrite prod.collapse)
qed simp

lemma evalRows_inv: "inv (r_db w) \<Longrightarrow> inv (r_db (fst (evalRows E cs w)))"
  by (induction cs arbitrary: w) (simp_all add: evaluate_alt clawback_inv)

lemma sweepLoop_inv: "inv (r_db w) \<Longrightarrow> inv (r_db (sweepLoop E k lastID w))"
proof (induction E k lastID w rule: sweepLoop.induct)
  case (1 E k lastID w)
  define cs where "cs = take batchSize (candidatesAfter E lastID (r_db w))"
  obtain w' stopped where ev: "evalRows E cs w = (w', stopped)" by fastforce
  have "inv (r_db w')" using evalRows_inv [OF "1.prems", of E cs] ev by simp
  then show ?case
    using "1.IH" [OF _ cs_def _ ev [symmetric]] "1.prems"
    by (auto simp: sweepLoop.simps [of E k lastID w] ev Let_def simp flip: cs_def split: bool.split)
qed

end

section \<open>A sweep leaves no listed message in the inbox\<close>

text \<open>
  The fortunate case: the account of every row is known, no transaction is refused and the server of every account performs
  the moves before the K-th. A UID is never given twice in one mailbox: a move that reports one gives the message a
  key that no row and no later move has. The same UID in another mailbox or account is another key. A move may also report no UID,
  as the server without UIDPLUS does.
\<close>

definition moveKey :: "Account \<Rightarrow> uint32 \<Rightarrow> string \<Rightarrow> string \<times> uint32" where
  "moveKey a u m = (MakeAccountUID (ac_Name a) m u, u)"

definition newKey :: "retro \<Rightarrow> db \<Rightarrow> nat \<Rightarrow> nat \<Rightarrow> string \<times> uint32 \<Rightarrow> bool" where
  "newKey E d n K key \<longleftrightarrow> key \<notin> uidKey ` set (scans d)
     \<and> (\<forall>n' a u m. n < n' \<longrightarrow> n' < K \<longrightarrow> a \<in> set (accounts d) \<longrightarrow> rt_move E n' (accountConfig a) = Inr (u, m) \<longrightarrow> moveKey a u m \<noteq> key)"

definition goodMoves :: "retro \<Rightarrow> retro_world \<Rightarrow> nat \<Rightarrow> bool" where
  "goodMoves E w K \<longleftrightarrow> (\<forall>n a. length (r_moves w) \<le> n \<longrightarrow> n < K \<longrightarrow> a \<in> set (accounts (r_db w)) \<longrightarrow>
     (\<exists>u m. rt_move E n (accountConfig a) = Inr (u, m) \<and> (u = 0 \<or> newKey E (r_db w) n K (moveKey a u m))))"

definition accountsKnown :: "db \<Rightarrow> bool" where
  "accountsKnown d \<longleftrightarrow> (\<forall>s \<in> set (scans d). AccountName s \<in> ac_Name ` set (accounts d))"

lemma distinct_key_update:
  assumes "distinct (map uidKey xs)" and "distinct (map ID xs)" and "\<And>s. ID (f s) = ID s"
    and "\<And>s. s \<in> set xs \<Longrightarrow> ID s = i \<Longrightarrow> uidKey (f s) = uidKey s \<or> uidKey (f s) \<notin> uidKey ` set xs"
  shows "distinct (map uidKey (map (onRow i f) xs))"
proof -
  have "uidKey (onRow i f s) \<noteq> uidKey (onRow i f t)" if "s \<in> set xs" "t \<in> set xs" "s \<noteq> t" for s t
  proof -
    have "ID s \<noteq> ID t" "uidKey s \<noteq> uidKey t" using assms(1,2) that by (auto simp: distinct_map inj_on_def)
    moreover have "uidKey s \<in> uidKey ` set xs" "uidKey t \<in> uidKey ` set xs" using that by simp_all
    ultimately show ?thesis
      using assms(4) [OF that(1)] assms(4) [OF that(2)] by (cases "ID s = i"; cases "ID t = i") (auto simp: onRow_def simp del: image_eqI)
  qed
  then have "inj_on (uidKey \<circ> onRow i f) (set xs)" by (auto simp: inj_on_def)
  then show ?thesis using assms(1) by (simp add: distinct_map)
qed

lemma clawTx_succeeds:
  assumes "dbOK d" and "q = 0 \<or> (MakeAccountUID (AccountName c) m q, q) \<notin> uidKey ` set (scans d)"
  shows "\<exists>d'. clawTx E c hits q m d = Inr (d', ()) \<and> accounts d' = accounts d"
proof -
  have "uidKey (clawColumns E c hits q m s) = uidKey s \<or> uidKey (clawColumns E c hits q m s) \<notin> uidKey ` set (scans d)" for s
    using assms(2) by (auto simp: clawColumns_def uidKey_def Let_def)
  then have "distinct (map uidKey (map (onRow (ID c) (clawColumns E c hits q m)) (scans d)))"
    using assms(1) by (intro distinct_key_update) (auto simp: dbOK_def)
  then show ?thesis by (auto simp: clawTx_def updateScan_def onRow_eq createAudit_def simp del: map_map)
qed

lemma clawColumns_fields [simp]:
  "AccountName (clawColumns E c hits q m s) = AccountName s" "ScannedURLs (clawColumns E c hits q m s) = ScannedURLs s"
  by (simp_all add: clawColumns_def Let_def)

lemma evaluate_live:
  assumes "dbOK (r_db w)" and "storedHits E c \<noteq> []" and "\<And>n. rt_faults E n = None"
    and "find (\<lambda>a. ac_Name a = AccountName c) (accounts (r_db w)) = Some a"
    and "rt_move E (length (r_moves w)) (accountConfig a) = Inr (q, m)" and "q = 0 \<or> moveKey a q m \<notin> uidKey ` set (scans (r_db w))"
  shows "scans (r_db (evaluate E c w)) = map (onRow (ID c) (clawColumns E c (storedHits E c) q m)) (scans (r_db w))"
    and "accounts (r_db (evaluate E c w)) = accounts (r_db w)"
    and "length (r_moves (evaluate E c w)) = Suc (length (r_moves w))"
proof -
  have "ac_Name a = AccountName c" using assms(4) by (auto simp: find_Some_iff)
  then have fresh: "q = 0 \<or> (MakeAccountUID (AccountName c) m q, q) \<notin> uidKey ` set (scans (r_db w))"
    using assms(6) by (simp add: moveKey_def)
  obtain d' where d': "clawTx E c (storedHits E c) q m (r_db w) = Inr (d', ())" "accounts d' = accounts (r_db w)"
    using clawTx_succeeds [OF assms(1) fresh] by blast
  have "scans d' = map (onRow (ID c) (clawColumns E c (storedHits E c) q m)) (scans (r_db w))"
    using d'(1) by (rule clawTx_rows)
  then show "scans (r_db (evaluate E c w)) = map (onRow (ID c) (clawColumns E c (storedHits E c) q m)) (scans (r_db w))"
    and "accounts (r_db (evaluate E c w)) = accounts (r_db w)"
    and "length (r_moves (evaluate E c w)) = Suc (length (r_moves w))"
    using assms(2,3,5) d' by (simp_all add: evaluate_alt clawback_def assms(4) dbWrite_def Let_def)
qed

text \<open>One evaluation that finds a hit, under good moves.\<close>

lemma evaluate_live_step:
  assumes "dbOK (r_db w)" and "c \<in> set (scans (r_db w))" and "\<And>n. rt_faults E n = None" and "accountsKnown (r_db w)"
    and "goodMoves E w K" and "length (r_moves w) < K" and "storedHits E c \<noteq> []"
  obtains a q m where "a \<in> set (accounts (r_db w))" "ac_Name a = AccountName c"
    "q = 0 \<or> newKey E (r_db w) (length (r_moves w)) K (moveKey a q m)"
    "scans (r_db (evaluate E c w)) = map (onRow (ID c) (clawColumns E c (storedHits E c) q m)) (scans (r_db w))"
    "accounts (r_db (evaluate E c w)) = accounts (r_db w)" "length (r_moves (evaluate E c w)) = Suc (length (r_moves w))"
proof -
  from assms(2,4) obtain b where "b \<in> set (accounts (r_db w))" "ac_Name b = AccountName c" by (auto simp: accountsKnown_def image_iff)
  then have "find (\<lambda>a. ac_Name a = AccountName c) (accounts (r_db w)) \<noteq> None" by (auto simp: find_None_iff)
  then obtain a where a: "find (\<lambda>a. ac_Name a = AccountName c) (accounts (r_db w)) = Some a" by blast
  then have acc: "a \<in> set (accounts (r_db w))" "ac_Name a = AccountName c" using find_Some_in [OF a] by (auto simp: find_Some_iff)
  obtain q m where mv: "rt_move E (length (r_moves w)) (accountConfig a) = Inr (q, m)"
    and fresh: "q = 0 \<or> newKey E (r_db w) (length (r_moves w)) K (moveKey a q m)"
    using assms(5,6) acc(1) unfolding goodMoves_def by blast
  then have "q = 0 \<or> moveKey a q m \<notin> uidKey ` set (scans (r_db w))" by (auto simp: newKey_def)
  with evaluate_live [OF assms(1,7,3) a mv] acc fresh show thesis by (intro that [of a q m])
qed

lemma goodMoves_step:
  assumes good: "goodMoves E w K" and len: "length (r_moves w') = Suc (length (r_moves w))"
    and acc: "accounts (r_db w') = accounts (r_db w)"
    and keys: "uidKey ` set (scans (r_db w')) \<subseteq> insert key (uidKey ` set (scans (r_db w)))"
    and first: "\<And>n a u m. length (r_moves w) < n \<Longrightarrow> n < K \<Longrightarrow> a \<in> set (accounts (r_db w)) \<Longrightarrow>
      rt_move E n (accountConfig a) = Inr (u, m) \<Longrightarrow> u = 0 \<or> moveKey a u m \<noteq> key"
  shows "goodMoves E w' K"
  unfolding goodMoves_def
proof (intro allI impI)
  fix n a
  assume n: "length (r_moves w') \<le> n" "n < K" and a: "a \<in> set (accounts (r_db w'))"
  then obtain u m where um: "rt_move E n (accountConfig a) = Inr (u, m)" "u = 0 \<or> newKey E (r_db w) n K (moveKey a u m)"
    using good len acc unfolding goodMoves_def by (metis Suc_leD)
  have "u = 0 \<or> moveKey a u m \<noteq> key" using first [OF _ n(2) _ um(1)] n(1) a len acc by simp
  then have "u = 0 \<or> newKey E (r_db w') n K (moveKey a u m)"
    using um(2) keys unfolding newKey_def acc by blast
  with um(1) show "\<exists>u m. rt_move E n (accountConfig a) = Inr (u, m) \<and> (u = 0 \<or> newKey E (r_db w') n K (moveKey a u m))"
    by blast
qed

lemma clawColumns_key:
  "uidKey (clawColumns E c hits q m s) = uidKey s \<or> q \<noteq> 0 \<and> uidKey (clawColumns E c hits q m s) = (MakeAccountUID (AccountName c) m q, q)"
  by (auto simp: clawColumns_def uidKey_def Let_def)

lemma evaluate_live_kept:
  assumes "dbOK (r_db w)" "c \<in> set (scans (r_db w))" "\<And>n. rt_faults E n = None"
    and "accountsKnown (r_db w)" and good: "goodMoves E w K" and room: "length (r_moves w) < K"
  shows "accountsKnown (r_db (evaluate E c w))" and "goodMoves E (evaluate E c w) K"
    and "length (r_moves (evaluate E c w)) \<le> Suc (length (r_moves w))"
    and "storedHits E c \<noteq> [] \<Longrightarrow> Status c = StatusInbox \<Longrightarrow> s \<in> set (scans (r_db (evaluate E c w)))
      \<Longrightarrow> candidate E s \<Longrightarrow> s \<in> set (scans (r_db w)) - {c}"
proof -
  have "accountsKnown (r_db (evaluate E c w)) \<and> goodMoves E (evaluate E c w) K \<and> length (r_moves (evaluate E c w)) \<le> Suc (length (r_moves w))
    \<and> (storedHits E c \<noteq> [] \<longrightarrow> Status c = StatusInbox \<longrightarrow> s \<in> set (scans (r_db (evaluate E c w)))
      \<longrightarrow> candidate E s \<longrightarrow> s \<in> set (scans (r_db w)) - {c})"
  proof (cases "storedHits E c = []")
    case True
    then show ?thesis using assms(4) good by (simp add: evaluate_alt)
  next
    case False
    obtain a q m where a: "a \<in> set (accounts (r_db w))" "ac_Name a = AccountName c"
      and fresh: "q = 0 \<or> newKey E (r_db w) (length (r_moves w)) K (moveKey a q m)"
      and rows: "scans (r_db (evaluate E c w)) = map (onRow (ID c) (clawColumns E c (storedHits E c) q m)) (scans (r_db w))"
      and acc: "accounts (r_db (evaluate E c w)) = accounts (r_db w)" and len: "length (r_moves (evaluate E c w)) = Suc (length (r_moves w))"
      by (rule evaluate_live_step [OF assms False])
    have known: "accountsKnown (r_db (evaluate E c w))" using assms(4) by (auto simp: accountsKnown_def rows acc onRow_def)
    have keys: "uidKey ` set (scans (r_db (evaluate E c w))) \<subseteq> (if q = 0 then {} else {moveKey a q m}) \<union> uidKey ` set (scans (r_db w))"
      using clawColumns_key [of E c "storedHits E c" q m] by (fastforce simp: rows onRow_def moveKey_def a(2))
    have "goodMoves E (evaluate E c w) K"
    proof (cases "q = 0")
      case True
      with keys have "uidKey ` set (scans (r_db (evaluate E c w))) \<subseteq> insert (uidKey c) (uidKey ` set (scans (r_db w)))" by auto
      then show ?thesis
      proof (rule goodMoves_step [OF good len acc])
        fix n b u k
        assume "length (r_moves w) < n" "n < K" "b \<in> set (accounts (r_db w))" "rt_move E n (accountConfig b) = Inr (u, k)"
        with good have "u = 0 \<or> newKey E (r_db w) n K (moveKey b u k)" unfolding goodMoves_def by (metis Inr_inject less_imp_le prod.inject)
        then show "u = 0 \<or> moveKey b u k \<noteq> uidKey c" using assms(2) by (auto simp: newKey_def)
      qed
    next
      case False
      with keys have "uidKey ` set (scans (r_db (evaluate E c w))) \<subseteq> insert (moveKey a q m) (uidKey ` set (scans (r_db w)))" by simp
      then show ?thesis by (rule goodMoves_step [OF good len acc]) (use fresh False in \<open>auto simp: newKey_def\<close>)
    qed
    moreover have "s \<in> set (scans (r_db w)) - {c}" if h: "Status c = StatusInbox" "s \<in> set (scans (r_db (evaluate E c w)))" "candidate E s"
    proof -
      obtain t where t: "t \<in> set (scans (r_db w))" "s = onRow (ID c) (clawColumns E c (storedHits E c) q m) t"
        using h(2) rows by auto
      have "ID t \<noteq> ID c"
      proof
        assume "ID t = ID c"
        then have "t = c" using t(1) assms(1,2) by (auto simp: dbOK_def distinct_map inj_on_def)
        then show False using t(2) h(1,3) by (simp add: onRow_def clawColumns_def Let_def quarantined_no_candidate)
      qed
      then show ?thesis using t by (auto simp: onRow_def)
    qed
    ultimately show ?thesis using known len by simp
  qed
  then show "accountsKnown (r_db (evaluate E c w))" and "goodMoves E (evaluate E c w) K"
    and "length (r_moves (evaluate E c w)) \<le> Suc (length (r_moves w))"
    and "storedHits E c \<noteq> [] \<Longrightarrow> Status c = StatusInbox \<Longrightarrow> s \<in> set (scans (r_db (evaluate E c w)))
      \<Longrightarrow> candidate E s \<Longrightarrow> s \<in> set (scans (r_db w)) - {c}" by blast+
qed

lemma evalRows_live:
  assumes "dbOK (r_db w)" "\<And>n. rt_faults E n = None" "\<And>n. \<not> rt_stop E n" "accountsKnown (r_db w)" "goodMoves E w K"
    and "distinct (map ID cs)" "\<And>c. c \<in> set cs \<Longrightarrow> c \<in> set (scans (r_db w)) \<and> candidate E c"
    and "\<And>s. s \<in> set (scans (r_db w)) \<Longrightarrow> candidate E s \<Longrightarrow> storedHits E s \<noteq> [] \<Longrightarrow> s \<in> set cs"
    and "s \<in> set (scans (r_db (fst (evalRows E cs w))))" "candidate E s" and "length (r_moves w) + length cs \<le> K"
  shows "storedHits E s = []"
  using assms
proof (induction cs arbitrary: w)
  case (Cons c cs)
  let ?w = "evaluate E c w"
  have c: "c \<in> set (scans (r_db w))" "Status c = StatusInbox" using Cons.prems(7) by (auto simp: candidate_def)
  have "length (r_moves w) < K" using Cons.prems(11) by simp
  note kept = evaluate_live_kept [OF Cons.prems(1) c(1) Cons.prems(2,4,5) this]
  have inv: "dbOK (r_db ?w)" using Cons.prems(1) by (simp add: evaluate_alt wf.clawback_inv)
  show ?case
  proof (rule Cons.IH [of ?w])
    show "x \<in> set (scans (r_db ?w)) \<and> candidate E x" if "x \<in> set cs" for x
    proof
      have "ID x \<noteq> ID c" using Cons.prems(6) that by (metis distinct.simps(2) image_eqI list.simps(9) set_map)
      then show "x \<in> set (scans (r_db ?w))" using Cons.prems(7) that by (simp add: evaluate_keeps)
    qed (use Cons.prems(7) that in simp)
    show "x \<in> set cs" if "x \<in> set (scans (r_db ?w))" "candidate E x" "storedHits E x \<noteq> []" for x
    proof (cases "storedHits E c = []")
      case True
      then have "x \<in> set (c # cs)" "x \<noteq> c" using that Cons.prems(8) by (auto simp: evaluate_alt)
      then show ?thesis by simp
    next
      case False
      then have "x \<in> set (scans (r_db w)) - {c}" using kept(4) c(2) that by blast
      then show ?thesis using that Cons.prems(8) [of x] by auto
    qed
  qed (use Cons.prems kept inv in simp_all)
qed auto

section \<open>Properties\<close>

text \<open>
  Paging is invisible: while the process is not stopped and the queries succeed, a sweep that reads its candidates in
  pages of 200 by increasing primary key does exactly what one pass over all candidates does, in the same order, whatever the
  evaluations write meanwhile.
\<close>

theorem sweep_paging:
  assumes "dbOK (r_db w)" and "\<forall>k. \<not> rt_stopBatch E k \<and> \<not> rt_queryFails E k"
  shows "sweep False False E w = fst (evalRows E (candidatesAfter E 0 (r_db w)) w)"
  using assms by (simp add: sweep_def sweepLoop_onepass dbOK_def)

text \<open>
  C21. A sweep is conservative: it adds and removes no row, and every row is left as it was, unless the row was a clean message of the
  lookback window still in the inbox with a listed link; such a row may become quarantined, with the verdict and the reason
  of its hits. This holds under every failure of the mail server, of the database and of the query, and when the
  sweep is stopped half way.
\<close>

theorem sweep_conservative:
  assumes "dbOK (r_db w)"
  shows "list_all2 (\<lambda>s s'. s' = s \<or> clawed E s s') (scans (r_db w)) (scans (r_db (sweep cancelled running E w)))
     \<and> dbOK (r_db (sweep cancelled running E w)) \<and> prefix (audit (r_db w)) (audit (r_db (sweep cancelled running E w)))"
proof (intro conjI)
  have d: "distinct (map ID (scans (r_db w)))" using assms by (simp add: dbOK_def)
  show "list_all2 (\<lambda>s s'. s' = s \<or> clawed E s s') (scans (r_db w)) (scans (r_db (sweep cancelled running E w)))"
    using sweepLoop_swept [OF d, of E 0 0] swept_refl [of E "scans (r_db w)"] by (simp add: sweep_def sweptRow_def [abs_def])
  show "dbOK (r_db (sweep cancelled running E w))"
    using assms by (simp add: sweep_def wf.sweepLoop_inv)
  show "prefix (audit (r_db w)) (audit (r_db (sweep cancelled running E w)))"
    by (simp add: sweep_def trail.sweepLoop_inv)
qed

text \<open>
  C10. A sweep reaches its goal: when the accounts of the rows are configured, no transaction is refused, the servers perform the
  moves, giving each message that gets a UID one that is new in its mailbox, and nobody stops the sweep, no clean message of the
  window with a listed link is left in the inbox. Only the moves that the sweep can make are asked for, at most one for
  each row.
\<close>

theorem sweep_clears_inbox:
  assumes "dbOK (r_db w)" and "accountsKnown (r_db w)" and "goodMoves E w (length (r_moves w) + length (scans (r_db w)))" and "\<forall>n. rt_faults E n = None"
    and "\<forall>k. \<not> rt_stop E k \<and> \<not> rt_stopBatch E k \<and> \<not> rt_queryFails E k"
    and "\<forall>s \<in> set (scans (r_db w)). 0 < ID s"
  shows "\<forall>s \<in> set (scans (r_db (sweep False False E w))). candidate E s \<longrightarrow> storedHits E s = []"
proof (intro ballI impI)
  fix s
  assume s: "s \<in> set (scans (r_db (sweep False False E w)))" and cand: "candidate E s"
  have d: "distinct (map ID (scans (r_db w)))" using assms(1) by (simp add: dbOK_def)
  have one: "sweep False False E w = fst (evalRows E (candidatesAfter E 0 (r_db w)) w)"
    using sweepLoop_onepass [OF _ d, of E] assms(5) by (simp add: sweep_def)
  show "storedHits E s = []"
  proof (rule evalRows_live)
    show "distinct (map ID (candidatesAfter E 0 (r_db w)))"
      using d by (auto simp: candidatesAfter_def distinct_map inj_on_def)
    show "s \<in> set (scans (r_db (fst (evalRows E (candidatesAfter E 0 (r_db w)) w))))" using s one by simp
    show "length (r_moves w) + length (candidatesAfter E 0 (r_db w)) \<le> length (r_moves w) + length (scans (r_db w))"
      by (simp add: candidatesAfter_def)
  qed (use assms cand in \<open>auto simp: candidatesAfter_set\<close>)
qed

section \<open>Witnesses\<close>

text \<open>
  Two clean messages in the inbox with UIDs 1 and 2; the link of the second is listed since. The quarantine folder numbers
  from 1 too, so the UIDs of the moves are UIDs of rows, in another mailbox.
\<close>

definition demoRow :: "nat \<Rightarrow> string \<Rightarrow> Scan" where
  "demoRow i url = zeroScan\<lparr>ID := i, AccountName := ''A'', AccountUID := MakeAccountUID ''A'' ''INBOX'' (of_nat i), IMAPMailbox := ''INBOX'', IMAPUID := of_nat i,
     Verdict := VerdictClean, Status := StatusInbox, CreatedAt := 10, ScannedURLs := Some (marshalStrings [url])\<rparr>"

definition demoRetroWorld :: retro_world where
  "demoRetroWorld = \<lparr>r_db = emptyDB\<lparr>scans := [demoRow 1 ''x'', demoRow 2 ''y''], nextID := 3,
       accounts := [\<lparr>ac_Name = ''A'', ac_Host = ''h'', ac_Port = 0, ac_User = ''u'', ac_Pass = ''p'', ac_Mailbox = ''INBOX'',
          ac_Quarantine = [], ac_TLSSkipVerify = False, ac_BackfillDays = 0\<rparr>]\<rparr>,
     r_writes = 0, r_moves = [], r_notified = [], r_sse = []\<rparr>"

definition demoRetro :: retro where
  "demoRetro = \<lparr>rt_lookup = (\<lambda>u. if u = ''y'' then Some (''openphish'', ''phishing'') else None), rt_exact = (\<lambda>_. None),
     rt_move = (\<lambda>n _. Inr (of_nat (Suc n), ''Quarantine'')), rt_faults = (\<lambda>_. None), rt_start = 15, rt_now = 20, rt_notifier = True,
     rt_hub = True, rt_stop = (\<lambda>_. False), rt_stopBatch = (\<lambda>_. False), rt_queryFails = (\<lambda>_. False)\<rparr>"

lemma demo_OK: "dbOK (r_db demoRetroWorld)"
  by (simp add: demoRetroWorld_def dbOK_def demoRow_def uidKey_def zeroScan_def emptyDB_def)

lemma demo_hits:
  "storedHits demoRetro (demoRow 1 ''x'') = []"
  "storedHits demoRetro (demoRow 2 ''y'') = [\<lparr>uh_URL = ''y'', uh_Domain = [], uh_Feed = ''openphish'', uh_ThreatType = ''phishing''\<rparr>]"
proof -
  have "\<not> retroIsSharedHostingDomain (retroExtractDomain ''x'')" "\<not> retroIsSharedHostingDomain (retroExtractDomain ''y'')"
    by code_simp+
  then show "storedHits demoRetro (demoRow 1 ''x'') = []"
    "storedHits demoRetro (demoRow 2 ''y'') = [\<lparr>uh_URL = ''y'', uh_Domain = [], uh_Feed = ''openphish'', uh_ThreatType = ''phishing''\<rparr>]"
    by (simp_all add: storedHits_def demoRow_def retroHits_def guardedLookup_def demoRetro_def)
qed

lemma demo_page: "candidatesAfter demoRetro 0 (r_db demoRetroWorld) = [demoRow 1 ''x'', demoRow 2 ''y'']"
  by (simp add: candidatesAfter_def demoRetroWorld_def candidate_def cutoff_def lookbackHours_def demoRow_def demoRetro_def marshalStrings_def)

lemma demo_accounts: "accountsKnown (r_db demoRetroWorld)"
  by (simp add: accountsKnown_def demoRetroWorld_def demoRow_def)

lemma demo_moves: "goodMoves demoRetro demoRetroWorld 2"
  by (auto simp: goodMoves_def newKey_def moveKey_def demoRetro_def demoRetroWorld_def demoRow_def uidKey_def MakeAccountUID_def
      less_Suc_eq numeral_2_eq_2)

lemma demo_evaluated:
  "map Status (scans (r_db (fst (evalRows demoRetro [demoRow 1 ''x'', demoRow 2 ''y''] demoRetroWorld)))) = [StatusInbox, StatusQuarantined]"
proof -
  have w: "evaluate demoRetro (demoRow 1 ''x'') demoRetroWorld = demoRetroWorld"
    by (simp only: evaluate_alt demo_hits simp_thms if_True)
  have ns: "\<not> rt_stop demoRetro n" for n by (simp add: demoRetro_def)
  have e: "fst (evalRows demoRetro [demoRow 1 ''x'', demoRow 2 ''y''] demoRetroWorld) = evaluate demoRetro (demoRow 2 ''y'') demoRetroWorld"
    by (simp only: evalRows.simps w ns if_False fst_conv)
  have "scans (r_db (evaluate demoRetro (demoRow 2 ''y'') demoRetroWorld)) =
     map (onRow (ID (demoRow 2 ''y'')) (clawColumns demoRetro (demoRow 2 ''y'') (storedHits demoRetro (demoRow 2 ''y'')) 1 ''Quarantine''))
       (scans (r_db demoRetroWorld))"
    by (rule evaluate_live(1) [OF demo_OK])
      (simp_all add: demo_hits, simp_all add: demoRetro_def demoRetroWorld_def demoRow_def moveKey_def uidKey_def MakeAccountUID_def)
  then show ?thesis
    by (simp only: e) (simp add: demoRetroWorld_def onRow_def clawColumns_def demoRow_def Let_def)
qed

lemma sweep_paging_witness:
  "map Status (scans (r_db (sweep False False demoRetro demoRetroWorld))) = [StatusInbox, StatusQuarantined]"
proof -
  have "\<forall>k. \<not> rt_stopBatch demoRetro k \<and> \<not> rt_queryFails demoRetro k" by (simp add: demoRetro_def)
  from sweep_paging [OF demo_OK this] show ?thesis by (simp only: demo_page demo_evaluated)
qed

lemma sweep_conservative_witness:
  "length (scans (r_db (sweep False False demoRetro demoRetroWorld))) = 2 \<and> dbOK (r_db (sweep False False demoRetro demoRetroWorld))"
  using sweep_conservative [OF demo_OK, of demoRetro False False]
  by (auto dest!: list_all2_lengthD simp: demoRetroWorld_def)

lemma sweep_clears_inbox_witness:
  "filter (\<lambda>s. candidate demoRetro s \<and> storedHits demoRetro s \<noteq> []) (scans (r_db (sweep False False demoRetro demoRetroWorld))) = []"
proof -
  have "\<forall>s \<in> set (scans (r_db demoRetroWorld)). 0 < ID s" by (simp add: demoRetroWorld_def demoRow_def)
  moreover have "goodMoves demoRetro demoRetroWorld (length (r_moves demoRetroWorld) + length (scans (r_db demoRetroWorld)))"
    using demo_moves by (simp add: demoRetroWorld_def numeral_2_eq_2)
  ultimately have "\<forall>s \<in> set (scans (r_db (sweep False False demoRetro demoRetroWorld))). candidate demoRetro s \<longrightarrow> storedHits demoRetro s = []"
    by (intro sweep_clears_inbox [OF demo_OK demo_accounts]) (simp_all add: demoRetro_def)
  then show ?thesis by (auto simp: filter_empty_conv)
qed

end
