(* ===== verification/Refinement.thy ===== *)
theory Refinement
  imports Prelude
begin

text \<open>
  Forward simulation between a detailed state machine and its specification, both driven by the same
  operations. The specification says which operations may come next (for the clock: times do not go back). The
  components that promise a contract interpret the locale. For code that runs concurrently there are step
  relations, their reachable states and the contract of an inductive invariant.
\<close>

fun allowedRun :: "('op \<Rightarrow> 'a \<Rightarrow> bool) \<Rightarrow> ('op \<Rightarrow> 'a \<Rightarrow> 'a) \<Rightarrow> 'op list \<Rightarrow> 'a \<Rightarrow> bool" where
  "allowedRun enabled astep [] a = True"
| "allowedRun enabled astep (opn # ops) a \<longleftrightarrow> enabled opn a \<and> allowedRun enabled astep ops (astep opn a)"

locale simulation =
  fixes related :: "'c \<Rightarrow> 'a \<Rightarrow> bool"
    and cstep :: "'op \<Rightarrow> 'c \<Rightarrow> 'c" and astep :: "'op \<Rightarrow> 'a \<Rightarrow> 'a"
    and enabled :: "'op \<Rightarrow> 'a \<Rightarrow> bool"
  assumes step: "related c a \<Longrightarrow> enabled opn a \<Longrightarrow> related (cstep opn c) (astep opn a)"
begin

lemma runs:
  "related c a \<Longrightarrow> allowedRun enabled astep ops a \<Longrightarrow> related (fold cstep ops c) (fold astep ops a)"
  by (induction ops arbitrary: c a) (simp_all add: step)

end

section \<open>Step relations\<close>

inductive reachable :: "('s \<Rightarrow> bool) \<Rightarrow> ('s \<Rightarrow> 's \<Rightarrow> bool) \<Rightarrow> 's \<Rightarrow> bool" for start step where
  start: "start s \<Longrightarrow> reachable start step s"
| step: "reachable start step s \<Longrightarrow> step s s' \<Longrightarrow> reachable start step s'"

text \<open>The contract of an inductive invariant, relative to one that is known already.\<close>

locale inductive_invariant =
  fixes start :: "'s \<Rightarrow> bool" and step :: "'s \<Rightarrow> 's \<Rightarrow> bool" and known :: "'s \<Rightarrow> bool" and I :: "'s \<Rightarrow> bool"
  assumes known: "reachable start step s \<Longrightarrow> known s"
    and holds_first: "start s \<Longrightarrow> I s"
    and holds_next: "I s \<Longrightarrow> known s \<Longrightarrow> step s s' \<Longrightarrow> I s'"
begin

lemma holds: "reachable start step s \<Longrightarrow> I s"
  by (induction rule: reachable.induct) (auto intro: holds_first holds_next known)

end

end
