(* ===== verification/Listener.thy ===== *)
theory Listener
  imports Refinement "HOL-Library.Multiset"
begin

text \<open>
  The concurrent IMAP listener of \<^verbatim>\<open>app/imap/listener.go\<close> as a step relation: the goroutine that owns the
  connection (drain the finished UIDs, mark them \<^verbatim>\<open>\Seen\<close>, search, fetch, dispatch, idle, reconnect), up to fifty worker
  goroutines, and the two buffered channels between them. A step is one channel operation, one IMAP command or one map
  update; workers and the main goroutine interleave freely. The mail server is the set of UIDs in the mailbox and of those
  without \<^verbatim>\<open>\Seen\<close>; any command may fail, new mail arrives with fresh UIDs and messages leave at any time, and a fetch may
  answer with any messages. No other client sets \<^verbatim>\<open>\Seen\<close>.
\<close>

section \<open>State\<close>

text \<open>A worker: \<^verbatim>\<open>onEmail\<close> runs; it has returned; the UID was offered to \<^verbatim>\<open>seenCh\<close>; it was offered to \<^verbatim>\<open>seenConfirmCh\<close>.\<close>

datatype phase = Running | Returned | Offered | Confirmed

text \<open>Where the main goroutine is; \<open>Acquire\<close> waits for a dispatch slot.\<close>

datatype main_pc =
    Offline
  | Idle
  | DrainSeen "uint32 list"
  | StoreSeen "uint32 list"
  | DrainConfirm
  | Search
  | Fetch "uint32 list"
  | Dispatch "(uint32 \<times> bool) list"   \<comment> \<open>fetched messages; whether the body is empty\<close>
  | Acquire uint32 "(uint32 \<times> bool) list"
  | Stopped

text \<open>
  The last four components are history: the UIDs that ever arrived, what \<^verbatim>\<open>onEmail\<close> has been given in this connection and has returned
  from, and how often the listener connected.
\<close>

record listener =
  pc :: main_pc
  inFlight :: "uint32 set"
  seenCh :: "uint32 list"
  seenConfirmCh :: "uint32 list"
  dispatchSem :: nat
  workers :: "(uint32 \<times> phase) multiset"
  unseen :: "uint32 set"
  mailbox :: "uint32 set"
  arrived :: "uint32 set"
  dispatched :: "uint32 list"
  processed :: "uint32 set"
  connections :: nat

definition semCap :: nat where "semCap = 50"
definition chanCap :: nat where "chanCap = 256"

definition NewListener :: "listener \<Rightarrow> bool" where
  "NewListener s \<longleftrightarrow> pc s = Offline \<and> inFlight s = {} \<and> seenCh s = [] \<and> seenConfirmCh s = [] \<and> dispatchSem s = 0
     \<and> workers s = {#} \<and> unseen s = mailbox s \<and> mailbox s \<subseteq> arrived s \<and> dispatched s = [] \<and> processed s = {} \<and> connections s = 0"

text \<open>A non-blocking send: a full channel drops the value.\<close>

definition trySend :: "uint32 \<Rightarrow> uint32 list \<Rightarrow> uint32 list" where
  "trySend u ch = (if length ch < chanCap then ch @ [u] else ch)"

section \<open>Steps\<close>

inductive lstep :: "listener \<Rightarrow> listener \<Rightarrow> bool" where
  connect: "pc s = Offline \<Longrightarrow>
    lstep s (s\<lparr>pc := DrainSeen [], inFlight := {}, dispatched := [], connections := Suc (connections s)\<rparr>)"
| connection_lost: "pc s = Idle \<Longrightarrow> lstep s (s\<lparr>pc := Offline\<rparr>)"
| new_mail: "pc s = Idle \<Longrightarrow> lstep s (s\<lparr>pc := DrainSeen []\<rparr>)"
| drain_seen: "pc s = DrainSeen us \<Longrightarrow> seenCh s = u # ch \<Longrightarrow> lstep s (s\<lparr>pc := DrainSeen (us @ [u]), seenCh := ch\<rparr>)"
| drained_none: "pc s = DrainSeen [] \<Longrightarrow> seenCh s = [] \<Longrightarrow> lstep s (s\<lparr>pc := DrainConfirm\<rparr>)"
| drained_some: "pc s = DrainSeen us \<Longrightarrow> us \<noteq> [] \<Longrightarrow> seenCh s = [] \<Longrightarrow> lstep s (s\<lparr>pc := StoreSeen us\<rparr>)"
| store_ok: "pc s = StoreSeen us \<Longrightarrow> lstep s (s\<lparr>pc := DrainConfirm, unseen := unseen s - set us\<rparr>)"
| store_failed: "pc s = StoreSeen us \<Longrightarrow> lstep s (s\<lparr>pc := DrainConfirm\<rparr>)"
| drain_confirm: "pc s = DrainConfirm \<Longrightarrow> seenConfirmCh s = u # ch \<Longrightarrow>
    lstep s (s\<lparr>seenConfirmCh := ch, inFlight := inFlight s - {u}\<rparr>)"
| confirmed_all: "pc s = DrainConfirm \<Longrightarrow> seenConfirmCh s = [] \<Longrightarrow> lstep s (s\<lparr>pc := Search\<rparr>)"
| search_failed: "pc s = Search \<Longrightarrow> lstep s (s\<lparr>pc := Idle\<rparr>)"
| search_none: "pc s = Search \<Longrightarrow> unseen s \<subseteq> inFlight s \<Longrightarrow> lstep s (s\<lparr>pc := Idle\<rparr>)"
| search_some: "pc s = Search \<Longrightarrow> set us = unseen s - inFlight s \<Longrightarrow> us \<noteq> [] \<Longrightarrow> lstep s (s\<lparr>pc := Fetch us\<rparr>)"
| fetch_failed: "pc s = Fetch us \<Longrightarrow> lstep s (s\<lparr>pc := Idle\<rparr>)"
| fetch_ok: "pc s = Fetch us \<Longrightarrow> lstep s (s\<lparr>pc := Dispatch msgs\<rparr>)"
| skip_empty: "pc s = Dispatch ((u, True) # msgs) \<Longrightarrow> lstep s (s\<lparr>pc := Dispatch msgs\<rparr>)"
| skip_active: "pc s = Dispatch ((u, False) # msgs) \<Longrightarrow> u \<in> inFlight s \<Longrightarrow> lstep s (s\<lparr>pc := Dispatch msgs\<rparr>)"
| take_message: "pc s = Dispatch ((u, False) # msgs) \<Longrightarrow> u \<notin> inFlight s \<Longrightarrow>
    lstep s (s\<lparr>pc := Acquire u msgs, inFlight := insert u (inFlight s)\<rparr>)"
| dispatch: "pc s = Acquire u msgs \<Longrightarrow> dispatchSem s < semCap \<Longrightarrow>
    lstep s (s\<lparr>pc := Dispatch msgs, dispatchSem := Suc (dispatchSem s), workers := add_mset (u, Running) (workers s),
       dispatched := dispatched s @ [u]\<rparr>)"
| search_again: "pc s = Dispatch [] \<Longrightarrow> lstep s (s\<lparr>pc := DrainSeen []\<rparr>)"
| cancelled: "lstep s (s\<lparr>pc := Stopped\<rparr>)"
| onEmail_returns: "workers s = add_mset (u, Running) ws \<Longrightarrow>
    lstep s (s\<lparr>workers := add_mset (u, Returned) ws, processed := insert u (processed s)\<rparr>)"
| offer_seen: "workers s = add_mset (u, Returned) ws \<Longrightarrow>
    lstep s (s\<lparr>workers := add_mset (u, Offered) ws, seenCh := trySend u (seenCh s)\<rparr>)"
| offer_confirm: "workers s = add_mset (u, Offered) ws \<Longrightarrow>
    lstep s (s\<lparr>workers := add_mset (u, Confirmed) ws, seenConfirmCh := trySend u (seenConfirmCh s)\<rparr>)"
| release_slot: "workers s = add_mset (u, Confirmed) ws \<Longrightarrow>
    lstep s (s\<lparr>workers := ws, dispatchSem := dispatchSem s - 1\<rparr>)"
| mail_arrives: "u \<notin> arrived s \<Longrightarrow>
    lstep s (s\<lparr>unseen := insert u (unseen s), mailbox := insert u (mailbox s), arrived := insert u (arrived s)\<rparr>)"
| mail_leaves: "lstep s (s\<lparr>unseen := unseen s - {u}, mailbox := mailbox s - {u}\<rparr>)"

abbreviation lreachable :: "listener \<Rightarrow> bool" where
  "lreachable \<equiv> reachable NewListener lstep"

section \<open>Invariants\<close>

text \<open>The semaphore counts the workers; the buffers keep their capacity.\<close>

definition slotsOK :: "listener \<Rightarrow> bool" where
  "slotsOK s \<longleftrightarrow> dispatchSem s = size (workers s) \<and> size (workers s) \<le> semCap
     \<and> length (seenCh s) \<le> chanCap \<and> length (seenConfirmCh s) \<le> chanCap"

text \<open>Only UIDs whose \<^verbatim>\<open>onEmail\<close> has returned are on their way to the server, and a message that is not processed is unseen.\<close>

fun draining :: "main_pc \<Rightarrow> uint32 set" where
  "draining (DrainSeen us) = set us"
| "draining (StoreSeen us) = set us"
| "draining _ = {}"

definition seenOK :: "listener \<Rightarrow> bool" where
  "seenOK s \<longleftrightarrow> set (seenCh s) \<union> draining (pc s) \<subseteq> processed s
     \<and> (\<forall>x \<in># workers s. snd x = Running \<or> fst x \<in> processed s)
     \<and> mailbox s \<subseteq> unseen s \<union> processed s"

text \<open>How many claims to a UID there are: waiting for a slot, in a worker that has not confirmed, or in the confirmation channel.\<close>

fun waiting :: "main_pc \<Rightarrow> uint32 \<Rightarrow> nat" where
  "waiting (Acquire v _) u = (if v = u then 1 else 0)"
| "waiting _ u = 0"

definition claims :: "listener \<Rightarrow> uint32 \<Rightarrow> nat" where
  "claims s u = waiting (pc s) u + count (workers s) (u, Running) + count (workers s) (u, Returned) + count (workers s) (u, Offered)
     + count_list (seenConfirmCh s) u"

definition claimsOK :: "listener \<Rightarrow> bool" where
  "claimsOK s \<longleftrightarrow> (connections s = 0 \<longrightarrow> inFlight s = {} \<and> (pc s = Offline \<or> pc s = Stopped))
     \<and> (connections s \<le> 1 \<longrightarrow> (\<forall>u. claims s u \<le> (if u \<in> inFlight s then 1 else 0)))"

lemma slotsOK_step: "slotsOK s \<Longrightarrow> lstep s s' \<Longrightarrow> slotsOK s'"
  by (erule lstep.cases) (auto simp: slotsOK_def trySend_def)

lemma seenOK_step: "seenOK s \<Longrightarrow> lstep s s' \<Longrightarrow> seenOK s'"
  by (erule lstep.cases) (auto simp: seenOK_def trySend_def)

lemma claims_step:
  assumes "lstep s s'" and "claims s u \<le> (if u \<in> inFlight s then 1 else 0)" and "connections s' = connections s"
  shows "claims s' u \<le> (if u \<in> inFlight s' then 1 else 0)"
  using assms(1)
proof cases
  case (drain_confirm v ch)
  then show ?thesis using assms(2) by (cases "u = v") (simp_all add: claims_def split: if_splits)
next
  case (take_message v msgs)
  then show ?thesis using assms(2) by (cases "u = v") (simp_all add: claims_def split: if_splits)
next
  case (dispatch v msgs)
  then show ?thesis using assms(2) by (cases "u = v") (simp_all add: claims_def split: if_splits)
next
  case (offer_confirm v ws)
  then show ?thesis using assms(2) by (cases "u = v") (simp_all add: claims_def trySend_def split: if_splits)
qed (use assms(2,3) in \<open>simp_all add: claims_def split: if_splits\<close>)

lemma claimsOK_step:
  assumes "claimsOK s" and "lstep s s'"
  shows "claimsOK s'"
  using assms(2)
proof cases
  case connect
  have "claims s u = 0" if "connections s = 0" for u using assms(1) that by (auto simp: claimsOK_def)
  then show ?thesis using connect by (simp add: claimsOK_def claims_def)
qed (use assms(1) claims_step [OF assms(2)] in \<open>simp_all add: claimsOK_def\<close>)

lemma start_OK: "NewListener s \<Longrightarrow> slotsOK s \<and> seenOK s \<and> claimsOK s"
  by (simp add: NewListener_def slotsOK_def seenOK_def claimsOK_def claims_def)

interpretation slots: inductive_invariant NewListener lstep "\<lambda>_. True" slotsOK
  by unfold_locales (auto simp: start_OK intro: slotsOK_step)

interpretation seen: inductive_invariant NewListener lstep "\<lambda>_. True" seenOK
  by unfold_locales (auto simp: start_OK intro: seenOK_step)

interpretation once: inductive_invariant NewListener lstep "\<lambda>_. True" claimsOK
  by unfold_locales (auto simp: start_OK intro: claimsOK_step)

section \<open>Properties\<close>

text \<open>
  C11. No message is lost: whatever fails and however the goroutines interleave, a message in the mailbox whose processing has not returned
  is still unseen on the server, so the next search, reconnect or recovery scan finds it again; and every UID that the listener is about
  to mark \<^verbatim>\<open>\Seen\<close> has been processed.
\<close>

theorem listener_loses_nothing:
  assumes "lreachable s"
  shows "mailbox s - processed s \<subseteq> unseen s \<and> (\<forall>us. pc s = StoreSeen us \<longrightarrow> set us \<subseteq> processed s)"
  using seen.holds [OF assms] by (auto simp: seenOK_def)

text \<open>
  Resources are bounded: at most fifty goroutines hold a message at any time, the dispatch semaphore counts exactly them, and neither
  channel ever holds more than 256 UIDs.
\<close>

theorem listener_bounded:
  assumes "lreachable s"
  shows "size (workers s) \<le> 50 \<and> dispatchSem s = size (workers s) \<and> length (seenCh s) \<le> 256 \<and> length (seenConfirmCh s) \<le> 256"
  using slots.holds [OF assms] by (simp add: slotsOK_def semCap_def chanCap_def)

text \<open>
  Within one connection a message is never processed twice at the same time: as long as the listener has connected only once, at most one
  goroutine runs \<^verbatim>\<open>onEmail\<close> for a UID.
\<close>

theorem listener_exclusive:
  assumes "lreachable s" and "connections s \<le> 1"
  shows "count (workers s) (u, Running) \<le> 1"
proof -
  have "claims s u \<le> 1" using once.holds [OF assms(1)] assms(2) by (auto simp: claimsOK_def split: if_splits)
  then show ?thesis by (simp add: claims_def)
qed

section \<open>A message can be dispatched twice\<close>

definition snap :: "main_pc \<Rightarrow> uint32 set \<Rightarrow> uint32 list \<Rightarrow> uint32 list \<Rightarrow> nat \<Rightarrow> (uint32 \<times> phase) multiset \<Rightarrow> uint32 list
    \<Rightarrow> uint32 set \<Rightarrow> nat \<Rightarrow> listener" where
  "snap p fl sc cc sem ws disp proc n = \<lparr>pc = p, inFlight = fl, seenCh = sc, seenConfirmCh = cc, dispatchSem = sem, workers = ws,
     unseen = {7}, mailbox = {7}, arrived = {7}, dispatched = disp, processed = proc, connections = n\<rparr>"

lemma snap_twice: "lreachable (snap (Dispatch []) {7} [7] [] 2 {#(7, Running), (7, Confirmed)#} [7, 7] {7} 1)"
proof -
  have "lreachable (snap Offline {} [] [] 0 {#} [] {} 0)"
    by (rule reachable.start) (simp add: NewListener_def snap_def)
  from reachable.step [OF this, of "snap (DrainSeen []) {} [] [] 0 {#} [] {} 1"] lstep.connect [where s = "snap Offline {} [] [] 0 {#} [] {} 0"]
  have "lreachable (snap (DrainSeen []) {} [] [] 0 {#} [] {} 1)" by (simp add: snap_def trySend_def chanCap_def semCap_def numeral_2_eq_2)
  from reachable.step [OF this, of "snap DrainConfirm {} [] [] 0 {#} [] {} 1"] lstep.drained_none [where s = "snap (DrainSeen []) {} [] [] 0 {#} [] {} 1"]
  have "lreachable (snap DrainConfirm {} [] [] 0 {#} [] {} 1)" by (simp add: snap_def trySend_def chanCap_def semCap_def numeral_2_eq_2)
  from reachable.step [OF this, of "snap Search {} [] [] 0 {#} [] {} 1"] lstep.confirmed_all [where s = "snap DrainConfirm {} [] [] 0 {#} [] {} 1"]
  have "lreachable (snap Search {} [] [] 0 {#} [] {} 1)" by (simp add: snap_def trySend_def chanCap_def semCap_def numeral_2_eq_2)
  from reachable.step [OF this, of "snap (Fetch [7]) {} [] [] 0 {#} [] {} 1"] lstep.search_some [where s = "snap Search {} [] [] 0 {#} [] {} 1" and us = "[7]"]
  have "lreachable (snap (Fetch [7]) {} [] [] 0 {#} [] {} 1)" by (simp add: snap_def trySend_def chanCap_def semCap_def numeral_2_eq_2)
  from reachable.step [OF this, of "snap (Dispatch [(7, False)]) {} [] [] 0 {#} [] {} 1"] lstep.fetch_ok [where s = "snap (Fetch [7]) {} [] [] 0 {#} [] {} 1" and msgs = "[(7, False)]"]
  have "lreachable (snap (Dispatch [(7, False)]) {} [] [] 0 {#} [] {} 1)" by (simp add: snap_def trySend_def chanCap_def semCap_def numeral_2_eq_2)
  from reachable.step [OF this, of "snap (Acquire 7 []) {7} [] [] 0 {#} [] {} 1"] lstep.take_message [where s = "snap (Dispatch [(7, False)]) {} [] [] 0 {#} [] {} 1"]
  have "lreachable (snap (Acquire 7 []) {7} [] [] 0 {#} [] {} 1)" by (simp add: snap_def trySend_def chanCap_def semCap_def numeral_2_eq_2)
  from reachable.step [OF this, of "snap (Dispatch []) {7} [] [] 1 {#(7, Running)#} [7] {} 1"] lstep.dispatch [where s = "snap (Acquire 7 []) {7} [] [] 0 {#} [] {} 1"]
  have "lreachable (snap (Dispatch []) {7} [] [] 1 {#(7, Running)#} [7] {} 1)" by (simp add: snap_def trySend_def chanCap_def semCap_def numeral_2_eq_2)
  from reachable.step [OF this, of "snap (DrainSeen []) {7} [] [] 1 {#(7, Running)#} [7] {} 1"] lstep.search_again [where s = "snap (Dispatch []) {7} [] [] 1 {#(7, Running)#} [7] {} 1"]
  have "lreachable (snap (DrainSeen []) {7} [] [] 1 {#(7, Running)#} [7] {} 1)" by (simp add: snap_def trySend_def chanCap_def semCap_def numeral_2_eq_2)
  from reachable.step [OF this, of "snap DrainConfirm {7} [] [] 1 {#(7, Running)#} [7] {} 1"] lstep.drained_none [where s = "snap (DrainSeen []) {7} [] [] 1 {#(7, Running)#} [7] {} 1"]
  have "lreachable (snap DrainConfirm {7} [] [] 1 {#(7, Running)#} [7] {} 1)" by (simp add: snap_def trySend_def chanCap_def semCap_def numeral_2_eq_2)
  from reachable.step [OF this, of "snap DrainConfirm {7} [] [] 1 {#(7, Returned)#} [7] {7} 1"] lstep.onEmail_returns [where s = "snap DrainConfirm {7} [] [] 1 {#(7, Running)#} [7] {} 1"]
  have "lreachable (snap DrainConfirm {7} [] [] 1 {#(7, Returned)#} [7] {7} 1)" by (simp add: snap_def trySend_def chanCap_def semCap_def numeral_2_eq_2)
  from reachable.step [OF this, of "snap DrainConfirm {7} [7] [] 1 {#(7, Offered)#} [7] {7} 1"] lstep.offer_seen [where s = "snap DrainConfirm {7} [] [] 1 {#(7, Returned)#} [7] {7} 1"]
  have "lreachable (snap DrainConfirm {7} [7] [] 1 {#(7, Offered)#} [7] {7} 1)" by (simp add: snap_def trySend_def chanCap_def semCap_def numeral_2_eq_2)
  from reachable.step [OF this, of "snap DrainConfirm {7} [7] [7] 1 {#(7, Confirmed)#} [7] {7} 1"] lstep.offer_confirm [where s = "snap DrainConfirm {7} [7] [] 1 {#(7, Offered)#} [7] {7} 1"]
  have "lreachable (snap DrainConfirm {7} [7] [7] 1 {#(7, Confirmed)#} [7] {7} 1)" by (simp add: snap_def trySend_def chanCap_def semCap_def numeral_2_eq_2)
  from reachable.step [OF this, of "snap DrainConfirm {} [7] [] 1 {#(7, Confirmed)#} [7] {7} 1"] lstep.drain_confirm [where s = "snap DrainConfirm {7} [7] [7] 1 {#(7, Confirmed)#} [7] {7} 1"]
  have "lreachable (snap DrainConfirm {} [7] [] 1 {#(7, Confirmed)#} [7] {7} 1)" by (simp add: snap_def trySend_def chanCap_def semCap_def numeral_2_eq_2)
  from reachable.step [OF this, of "snap Search {} [7] [] 1 {#(7, Confirmed)#} [7] {7} 1"] lstep.confirmed_all [where s = "snap DrainConfirm {} [7] [] 1 {#(7, Confirmed)#} [7] {7} 1"]
  have "lreachable (snap Search {} [7] [] 1 {#(7, Confirmed)#} [7] {7} 1)" by (simp add: snap_def trySend_def chanCap_def semCap_def numeral_2_eq_2)
  from reachable.step [OF this, of "snap (Fetch [7]) {} [7] [] 1 {#(7, Confirmed)#} [7] {7} 1"] lstep.search_some [where s = "snap Search {} [7] [] 1 {#(7, Confirmed)#} [7] {7} 1" and us = "[7]"]
  have "lreachable (snap (Fetch [7]) {} [7] [] 1 {#(7, Confirmed)#} [7] {7} 1)" by (simp add: snap_def trySend_def chanCap_def semCap_def numeral_2_eq_2)
  from reachable.step [OF this, of "snap (Dispatch [(7, False)]) {} [7] [] 1 {#(7, Confirmed)#} [7] {7} 1"] lstep.fetch_ok [where s = "snap (Fetch [7]) {} [7] [] 1 {#(7, Confirmed)#} [7] {7} 1" and msgs = "[(7, False)]"]
  have "lreachable (snap (Dispatch [(7, False)]) {} [7] [] 1 {#(7, Confirmed)#} [7] {7} 1)" by (simp add: snap_def trySend_def chanCap_def semCap_def numeral_2_eq_2)
  from reachable.step [OF this, of "snap (Acquire 7 []) {7} [7] [] 1 {#(7, Confirmed)#} [7] {7} 1"] lstep.take_message [where s = "snap (Dispatch [(7, False)]) {} [7] [] 1 {#(7, Confirmed)#} [7] {7} 1"]
  have "lreachable (snap (Acquire 7 []) {7} [7] [] 1 {#(7, Confirmed)#} [7] {7} 1)" by (simp add: snap_def trySend_def chanCap_def semCap_def numeral_2_eq_2)
  from reachable.step [OF this, of "snap (Dispatch []) {7} [7] [] 2 {#(7, Running), (7, Confirmed)#} [7, 7] {7} 1"] lstep.dispatch [where s = "snap (Acquire 7 []) {7} [7] [] 1 {#(7, Confirmed)#} [7] {7} 1"]
  have "lreachable (snap (Dispatch []) {7} [7] [] 2 {#(7, Running), (7, Confirmed)#} [7, 7] {7} 1)" by (simp add: snap_def trySend_def chanCap_def semCap_def numeral_2_eq_2)
  then show ?thesis .
qed

text \<open>
  The in-flight set does not prevent a second processing in the same connection: when a worker finishes after the listener has drained
  \<^verbatim>\<open>seenCh\<close> and before it drains \<^verbatim>\<open>seenConfirmCh\<close>, the UID leaves the in-flight set before \<^verbatim>\<open>\Seen\<close> is stored, and the search that
  follows dispatches the message again.
\<close>

theorem listener_duplicate_dispatch: "\<exists>s. lreachable s \<and> connections s = 1 \<and> dispatched s = [7, 7]"
  using snap_twice by (intro exI conjI) (assumption, simp_all add: snap_def)

section \<open>Witnesses\<close>

lemma listener_loses_nothing_witness: "mailbox (snap (Dispatch []) {7} [7] [] 2 {#(7, Running), (7, Confirmed)#} [7, 7] {7} 1) - {7} \<subseteq> {7}"
  using listener_loses_nothing [OF snap_twice] by (simp add: snap_def)

lemma listener_bounded_witness: "size (workers (snap (Dispatch []) {7} [7] [] 2 {#(7, Running), (7, Confirmed)#} [7, 7] {7} 1)) = 2 \<and> dispatchSem (snap (Dispatch []) {7} [7] [] 2 {#(7, Running), (7, Confirmed)#} [7, 7] {7} 1) = 2"
  using listener_bounded [OF snap_twice] by (simp add: snap_def)

lemma listener_exclusive_witness: "count (workers (snap (Dispatch []) {7} [7] [] 2 {#(7, Running), (7, Confirmed)#} [7, 7] {7} 1)) (7, Running) = 1"
  using listener_exclusive [OF snap_twice, of 7] by (simp add: snap_def)

end
