(* ===== verification/Allowlists.thy ===== *)
theory Allowlists
  imports ScanRecord Config
begin

text \<open>
  The allow and block lists as the dashboard edits them (\<^verbatim>\<open>app/web/handlers/allowlists.go\<close>): validation of entries, adding, deleting and
  bulk import. Together with the matching of the pipeline they give an insert and look-up contract, and show for which
  entries it fails. Decoding of the JSON bodies is left out: the handlers start from the decoded request.
\<close>

section \<open>Entries\<close>

definition addrChar :: "char \<Rightarrow> bool" where
  "addrChar c \<longleftrightarrow> c \<noteq> CHR ''@'' \<and> \<not> reSpace c"

text \<open>\<^verbatim>\<open>emailRe\<close>: a local part, an at sign and a host with a dot after its first and before its last two characters.\<close>

definition emailRe :: "string \<Rightarrow> bool" where
  "emailRe s \<longleftrightarrow>
     (case indexByte s CHR ''@'' of
        None \<Rightarrow> False
      | Some i \<Rightarrow>
          (let loc = take i s; host = drop (Suc i) s
           in loc \<noteq> [] \<and> list_all addrChar loc \<and> list_all addrChar host
              \<and> list_ex (\<lambda>k. host ! k = CHR ''.'') [1..<length host - 2]))"

text \<open>\<^verbatim>\<open>domainRe\<close>: labels separated by dots, the last of at least two letters, with an optional leading at sign.\<close>

definition domainRe :: "string \<Rightarrow> bool" where
  "domainRe s \<longleftrightarrow>
     (let labels = splitOn CHR ''.'' (trimPrefix s ''@'')
      in length labels \<ge> 2 \<and> list_all domainLabel (butlast labels) \<and> list_all isAlpha (last labels) \<and> length (last labels) \<ge> 2)"

definition detectEntryType :: "string \<Rightarrow> string result" where
  "detectEntryType entry =
     (if contains entry ''@'' \<and> \<not> hasPrefix entry ''@''
      then if \<not> emailRe entry then Inl (''invalid email address: '' @ entry) else Inr ''address''
      else if \<not> domainRe entry then Inl (''invalid domain: '' @ entry) else Inr ''domain'')"

definition normalizeEntry :: "string \<Rightarrow> string" where
  "normalizeEntry e = toLower (trimSpace e)"

section \<open>Adding and deleting\<close>

definition createWhitelist :: "Whitelist \<Rightarrow> db \<Rightarrow> (db \<times> unit) result" where
  "createWhitelist w d =
     (if wl_Entry w \<in> wl_Entry ` set (whitelist d) then Inl uniqueViolation
      else Inr (d\<lparr>whitelist := whitelist d @ [w\<lparr>wl_ID := nextWL d\<rparr>], nextWL := Suc (nextWL d)\<rparr>, ()))"

definition createBlocklist :: "Blocklist \<Rightarrow> db \<Rightarrow> (db \<times> unit) result" where
  "createBlocklist b d =
     (if bl_Entry b \<in> bl_Entry ` set (blocklist d) then Inl uniqueViolation
      else Inr (d\<lparr>blocklist := blocklist d @ [b\<lparr>bl_ID := nextBL d\<rparr>], nextBL := Suc (nextBL d)\<rparr>, ()))"

text \<open>The faults of the n-th and the next transaction; the audit entry is best effort.\<close>

definition auditList :: "faults \<Rightarrow> nat \<Rightarrow> string \<Rightarrow> string \<Rightarrow> string \<Rightarrow> db \<Rightarrow> db" where
  "auditList flt n actor action value d =
     fst (dbWrite flt n (\<lambda>d. Inr (createAudit \<lparr>al_ScanID = 0, al_Action = action, al_Actor = actor, al_Note = value\<rparr> d, ())) d)"

definition AddWhitelist :: "faults \<Rightarrow> nat \<Rightarrow> string \<Rightarrow> string \<Rightarrow> bool \<Rightarrow> string \<Rightarrow> db \<Rightarrow> db \<times> int" where
  "AddWhitelist flt n actor entry0 bypass reason d =
     (let entry = normalizeEntry entry0 in
      if entry = [] then (d, 400)
      else (case detectEntryType entry of
              Inl _ \<Rightarrow> (d, 400)
            | Inr entryType \<Rightarrow>
                (case dbWrite flt n (createWhitelist \<lparr>wl_ID = 0, wl_Entry = entry, wl_EntryType = entryType, wl_BypassScan = bypass,
                        wl_AddedReason = reason\<rparr>) d of
                   (d1, Inl _) \<Rightarrow> (d1, 409)
                 | (d1, Inr _) \<Rightarrow> (auditList flt (Suc n) actor ActionWhitelist entry d1, 201))))"

definition AddBlocklist :: "faults \<Rightarrow> nat \<Rightarrow> string \<Rightarrow> string \<Rightarrow> string \<Rightarrow> db \<Rightarrow> db \<times> int" where
  "AddBlocklist flt n actor entry0 reason d =
     (let entry = normalizeEntry entry0 in
      if entry = [] then (d, 400)
      else (case detectEntryType entry of
              Inl _ \<Rightarrow> (d, 400)
            | Inr entryType \<Rightarrow>
                (case dbWrite flt n (createBlocklist \<lparr>bl_ID = 0, bl_Entry = entry, bl_EntryType = entryType, bl_AddedReason = reason\<rparr>) d of
                   (d1, Inl _) \<Rightarrow> (d1, 409)
                 | (d1, Inr _) \<Rightarrow> (auditList flt (Suc n) actor ActionBlocklist entry d1, 201))))"

definition DeleteWhitelist :: "faults \<Rightarrow> nat \<Rightarrow> nat \<Rightarrow> db \<Rightarrow> db \<times> int" where
  "DeleteWhitelist flt n i d =
     (case dbWrite flt n (\<lambda>d. Inr (d\<lparr>whitelist := filter (\<lambda>w. wl_ID w \<noteq> i) (whitelist d)\<rparr>, i \<in> wl_ID ` set (whitelist d))) d of
        (d1, Inr True) \<Rightarrow> (d1, 200)
      | (d1, _) \<Rightarrow> (d1, 404))"

definition DeleteBlocklist :: "faults \<Rightarrow> nat \<Rightarrow> nat \<Rightarrow> db \<Rightarrow> db \<times> int" where
  "DeleteBlocklist flt n i d =
     (case dbWrite flt n (\<lambda>d. Inr (d\<lparr>blocklist := filter (\<lambda>b. bl_ID b \<noteq> i) (blocklist d)\<rparr>, i \<in> bl_ID ` set (blocklist d))) d of
        (d1, Inr True) \<Rightarrow> (d1, 200)
      | (d1, _) \<Rightarrow> (d1, 404))"

section \<open>Bulk import\<close>

definition bulkImportMaxLines :: nat where
  "bulkImportMaxLines = 10000"

text \<open>\<^verbatim>\<open>bufio.Scanner\<close>: the lines up to the first that does not fit into its buffer of 64 kilobytes; the error is not looked at.\<close>

definition scanLines :: "string \<Rightarrow> string list" where
  "scanLines s =
     (let ls = splitOn CHR 0x0A s;
          ls' = (if last ls = [] then butlast ls else ls)
      in map (\<lambda>l. if l \<noteq> [] \<and> last l = CHR 0x0D then butlast l else l) (takeWhile (\<lambda>l. length l < 65536) ls'))"

definition importLines :: "string \<Rightarrow> string list" where
  "importLines s = filter (\<lambda>v. v \<noteq> [] \<and> \<not> hasPrefix v ''#'') (map normalizeEntry (scanLines s))"

definition validEntries :: "string list \<Rightarrow> (string \<times> string) list" where
  "validEntries ls = concat (map (\<lambda>v. case detectEntryType v of Inl _ \<Rightarrow> [] | Inr ty \<Rightarrow> [(v, ty)]) ls)"

text \<open>\<^verbatim>\<open>OnConflict DoNothing\<close>: entries that exist are passed over; the number of rows written.\<close>

fun insertWhitelists :: "Whitelist list \<Rightarrow> db \<Rightarrow> db \<times> nat" where
  "insertWhitelists [] d = (d, 0)"
| "insertWhitelists (w # ws) d =
     (case createWhitelist w d of
        Inl _ \<Rightarrow> insertWhitelists ws d
      | Inr (d', _) \<Rightarrow> (case insertWhitelists ws d' of (d'', n) \<Rightarrow> (d'', Suc n)))"

fun insertBlocklists :: "Blocklist list \<Rightarrow> db \<Rightarrow> db \<times> nat" where
  "insertBlocklists [] d = (d, 0)"
| "insertBlocklists (b # bs) d =
     (case createBlocklist b d of
        Inl _ \<Rightarrow> insertBlocklists bs d
      | Inr (d', _) \<Rightarrow> (case insertBlocklists bs d' of (d'', n) \<Rightarrow> (d'', Suc n)))"

datatype import_reply = ImportRefused int | Imported nat nat

definition BulkImport :: "faults \<Rightarrow> nat \<Rightarrow> string \<Rightarrow> string \<Rightarrow> bool \<Rightarrow> db \<Rightarrow> db \<times> import_reply" where
  "BulkImport flt n listName entries bypass d =
     (if listName \<noteq> ''whitelist'' \<and> listName \<noteq> ''blocklist'' then (d, ImportRefused 400)
      else (let ls = importLines entries in
        if length ls > bulkImportMaxLines then (d, ImportRefused 400)
        else (let valid = validEntries ls; skipped = length ls - length valid in
          if valid = [] then (d, Imported 0 skipped)
          else (case dbWrite flt n (\<lambda>d. Inr (
                    if listName = ''whitelist''
                    then insertWhitelists (map (\<lambda>(v, ty). \<lparr>wl_ID = 0, wl_Entry = v, wl_EntryType = ty, wl_BypassScan = bypass, wl_AddedReason = []\<rparr>) valid) d
                    else insertBlocklists (map (\<lambda>(v, ty). \<lparr>bl_ID = 0, bl_Entry = v, bl_EntryType = ty, bl_AddedReason = []\<rparr>) valid) d)) d of
                  (d1, Inl _) \<Rightarrow> (d1, ImportRefused 500)
                | (d1, Inr imported) \<Rightarrow> (d1, Imported imported (skipped + (length valid - imported)))))))"

section \<open>Matching what was added\<close>

lemma firstWanted_None: "firstWanted entryOf wants rows = None \<longleftrightarrow> rows = []"
proof
  show "rows = []" if "firstWanted entryOf wants rows = None"
    using that by (induction wants) (auto split: list.splits option.splits)
  show "firstWanted entryOf wants rows = None" if "rows = []"
    using that by (induction wants) simp_all
qed

lemma matchList_none_iff: "matchList entryOf fails candidates table = None \<longleftrightarrow> fails \<or> entryOf ` set table \<inter> set candidates = {}"
  by (auto simp: matchList_def Let_def firstWanted_None filter_empty_conv)

text \<open>The sender as the pipeline looks it up.\<close>

definition sender :: "(string \<Rightarrow> string option) \<Rightarrow> Email \<Rightarrow> string" where
  "sender parseAddress email =
     toLower (trimSpace (case parseAddress (em_From email) of Some a \<Rightarrow> a | None \<Rightarrow> em_From email))"

lemma candidates_sender:
  "listCandidates pa email = sender pa email #
     (case lastIndexByte (sender pa email) CHR ''@'' of None \<Rightarrow> [] | Some i \<Rightarrow> [drop i (sender pa email)])"
  by (simp add: listCandidates_def sender_def Let_def split: option.split)

lemma candidates_at:
  assumes "CHR ''@'' \<in> set (sender pa email)" and "c \<in> set (listCandidates pa email)"
  shows "CHR ''@'' \<in> set c"
proof -
  obtain i where i: "lastIndexByte (sender pa email) CHR ''@'' = Some i"
    using assms(1) lastIndexByte_None [of "sender pa email" "CHR ''@''"] by (cases "lastIndexByte (sender pa email) CHR ''@''") auto
  from lastIndexByte_Some [OF i] have "CHR ''@'' \<in> set (drop i (sender pa email))"
    by (metis (no_types, lifting) Cons_nth_drop_Suc list.set_intros(1))
  then show ?thesis using assms i by (auto simp: candidates_sender)
qed

lemma AddBlocklist_created:
  assumes "AddBlocklist flt n actor e reason d = (d', 201)"
  shows "\<exists>b. blocklist d' = blocklist d @ [b] \<and> bl_Entry b = normalizeEntry e \<and> detectEntryType (normalizeEntry e) = Inr (bl_EntryType b)"
  using assms
  by (auto simp: AddBlocklist_def auditList_def dbWrite_def createBlocklist_def createAudit_def Let_def
      split: if_splits sum.splits option.splits prod.splits)

lemma AddWhitelist_created:
  assumes "AddWhitelist flt n actor e bypass reason d = (d', 201)"
  shows "\<exists>w. whitelist d' = whitelist d @ [w] \<and> wl_Entry w = normalizeEntry e \<and> detectEntryType (normalizeEntry e) = Inr (wl_EntryType w)
     \<and> wl_BypassScan w = bypass \<and> blocklist d' = blocklist d"
  using assms
  by (auto simp: AddWhitelist_def auditList_def dbWrite_def createWhitelist_def createAudit_def Let_def
      split: if_splits sum.splits option.splits prod.splits)

section \<open>Bulk import keeps the books\<close>

lemma insertWhitelists_count:
  "insertWhitelists ws d = (d', n) \<Longrightarrow> n \<le> length ws \<and> wl_Entry ` set (whitelist d') = wl_Entry ` set (whitelist d) \<union> wl_Entry ` set ws"
proof (induction ws arbitrary: d d' n)
  case (Cons w ws)
  show ?case
  proof (cases "wl_Entry w \<in> wl_Entry ` set (whitelist d)")
    case True
    then have "insertWhitelists ws d = (d', n)" using Cons.prems by (simp add: createWhitelist_def)
    from Cons.IH [OF this] True show ?thesis by auto
  next
    case False
    let ?d = "d\<lparr>whitelist := whitelist d @ [w\<lparr>wl_ID := nextWL d\<rparr>], nextWL := Suc (nextWL d)\<rparr>"
    obtain m where "insertWhitelists ws ?d = (d', m)" "n = Suc m"
      using Cons.prems False by (auto simp: createWhitelist_def split: prod.splits)
    with Cons.IH [OF this(1)] show ?thesis by simp
  qed
qed simp

lemma insertBlocklists_count:
  "insertBlocklists bs d = (d', n) \<Longrightarrow> n \<le> length bs \<and> bl_Entry ` set (blocklist d') = bl_Entry ` set (blocklist d) \<union> bl_Entry ` set bs"
proof (induction bs arbitrary: d d' n)
  case (Cons b bs)
  show ?case
  proof (cases "bl_Entry b \<in> bl_Entry ` set (blocklist d)")
    case True
    then have "insertBlocklists bs d = (d', n)" using Cons.prems by (simp add: createBlocklist_def)
    from Cons.IH [OF this] True show ?thesis by auto
  next
    case False
    let ?d = "d\<lparr>blocklist := blocklist d @ [b\<lparr>bl_ID := nextBL d\<rparr>], nextBL := Suc (nextBL d)\<rparr>"
    obtain m where "insertBlocklists bs ?d = (d', m)" "n = Suc m"
      using Cons.prems False by (auto simp: createBlocklist_def split: prod.splits)
    with Cons.IH [OF this(1)] show ?thesis by simp
  qed
qed simp

lemma validEntries_length: "length (validEntries ls) \<le> length ls"
  by (induction ls) (auto simp: validEntries_def split: sum.splits)

section \<open>Properties\<close>

text \<open>
  A block that was accepted takes effect: after the handler answered 201, every message whose sender is the entry, or whose sender's domain
  with its at sign is the entry, matches the block list, as long as the look-up itself works.
\<close>

theorem blocklist_takes_effect:
  assumes "AddBlocklist flt n actor e reason d = (d', 201)"
    and "sender pa email = normalizeEntry e \<or>
      (\<exists>i. lastIndexByte (sender pa email) CHR ''@'' = Some i \<and> drop i (sender pa email) = normalizeEntry e)"
  shows "matchBlocklist pa False d' email \<noteq> None"
proof -
  have "normalizeEntry e \<in> set (listCandidates pa email)" using assms(2) by (auto simp: candidates_sender)
  then show ?thesis using AddBlocklist_created [OF assms(1)] by (auto simp: matchBlocklist_def matchList_none_iff)
qed

text \<open>
  A domain that is added without an at sign is accepted but has no effect: for every sender that has one, the match is what it was
  before. The validation makes the at sign optional, the look-up asks for it.
\<close>

theorem bare_domain_has_no_effect:
  assumes "AddBlocklist flt n actor e reason d = (d', 201)" and "CHR ''@'' \<notin> set (normalizeEntry e)"
    and "CHR ''@'' \<in> set (sender pa email)"
  shows "detectEntryType (normalizeEntry e) = Inr ''domain'' \<and> matchBlocklist pa fails d' email = matchBlocklist pa fails d email"
proof -
  obtain b where b: "blocklist d' = blocklist d @ [b]" "bl_Entry b = normalizeEntry e" "detectEntryType (normalizeEntry e) = Inr (bl_EntryType b)"
    using AddBlocklist_created [OF assms(1)] by blast
  have "\<not> contains (normalizeEntry e) ''@''" using assms(2) by (auto simp: contains_iff)
  then have "detectEntryType (normalizeEntry e) = Inr ''domain''"
    using b(3) by (auto simp: detectEntryType_def split: if_splits)
  moreover have "bl_Entry b \<notin> set (listCandidates pa email)" using candidates_at [OF assms(3)] assms(2) b(2) by metis
  ultimately show ?thesis using b(1) by (simp add: matchBlocklist_def matchList_def)
qed

text \<open>
  A bulk import accounts for every line: the numbers it reports add up to the lines that are neither blank nor comments, and every valid entry among
  them is on the list afterwards, whether it was there before or is new.
\<close>

theorem bulk_import_accounts:
  assumes "BulkImport flt n listName entries bypass d = (d', Imported i s)"
  shows "i + s = length (importLines entries)
     \<and> fst ` set (validEntries (importLines entries))
         \<subseteq> (if listName = ''whitelist'' then wl_Entry ` set (whitelist d') else bl_Entry ` set (blocklist d'))"
proof (cases "validEntries (importLines entries) = []")
  case True
  then show ?thesis using assms by (auto simp: BulkImport_def Let_def split: if_splits)
next
  case False
  let ?ls = "importLines entries" and ?v = "validEntries (importLines entries)"
  have le: "length ?v \<le> length ?ls" by (rule validEntries_length)
  show ?thesis
  proof (cases "listName = ''whitelist''")
    case True
    with assms False obtain m where
      "insertWhitelists (map (\<lambda>(v, ty). \<lparr>wl_ID = 0, wl_Entry = v, wl_EntryType = ty, wl_BypassScan = bypass, wl_AddedReason = []\<rparr>) ?v) d = (d', m)"
      "i = m" "s = length ?ls - length ?v + (length ?v - m)"
      by (auto simp: BulkImport_def dbWrite_def Let_def split: if_splits option.splits prod.splits sum.splits)
    then show ?thesis using insertWhitelists_count [of _ d d' m] le True by (force simp: image_image case_prod_beta)
  next
    case False
    with assms \<open>?v \<noteq> []\<close> obtain m where
      "insertBlocklists (map (\<lambda>(v, ty). \<lparr>bl_ID = 0, bl_Entry = v, bl_EntryType = ty, bl_AddedReason = []\<rparr>) ?v) d = (d', m)"
      "i = m" "s = length ?ls - length ?v + (length ?v - m)"
      by (auto simp: BulkImport_def dbWrite_def Let_def split: if_splits option.splits prod.splits sum.splits)
    then show ?thesis using insertBlocklists_count [of _ d d' m] le False by (force simp: image_image case_prod_beta)
  qed
qed

section \<open>Witnesses\<close>

definition listEmail :: Email where
  "listEmail = authPassEmail\<lparr>em_From := ''spam@evil.com''\<rparr>"

lemma demo_add: "\<exists>d'. AddBlocklist (\<lambda>_. None) 0 ''user:admin'' ''@Evil.com'' [] emptyDB = (d', 201)"
proof -
  have "normalizeEntry ''@Evil.com'' = ''@evil.com''" "detectEntryType ''@evil.com'' = Inr ''domain''" by code_simp+
  then show ?thesis by (simp add: AddBlocklist_def dbWrite_def createBlocklist_def emptyDB_def Let_def)
qed

lemma blocklist_takes_effect_witness:
  "\<exists>d'. matchBlocklist (\<lambda>_. None) False d' listEmail \<noteq> None"
proof -
  obtain d' where "AddBlocklist (\<lambda>_. None) 0 ''user:admin'' ''@Evil.com'' [] emptyDB = (d', 201)" using demo_add by blast
  moreover have "sender (\<lambda>_. None) listEmail = ''spam@evil.com''" "lastIndexByte ''spam@evil.com'' CHR ''@'' = Some 4"
    "normalizeEntry ''@Evil.com'' = drop 4 ''spam@evil.com''"
    by (simp_all add: listEmail_def) code_simp+
  ultimately show ?thesis using blocklist_takes_effect by metis
qed

lemma bare_domain_has_no_effect_witness:
  "\<exists>d'. AddBlocklist (\<lambda>_. None) 0 ''user:admin'' ''evil.com'' [] emptyDB = (d', 201) \<and> matchBlocklist (\<lambda>_. None) False d' listEmail = None"
proof -
  have n: "normalizeEntry ''evil.com'' = ''evil.com''" "detectEntryType ''evil.com'' = Inr ''domain''" by code_simp+
  then obtain d' where d': "AddBlocklist (\<lambda>_. None) 0 ''user:admin'' ''evil.com'' [] emptyDB = (d', 201)"
    by (simp add: AddBlocklist_def dbWrite_def createBlocklist_def emptyDB_def Let_def)
  have "CHR ''@'' \<in> set (sender (\<lambda>_. None) listEmail)" by (simp add: listEmail_def) code_simp
  then have "matchBlocklist (\<lambda>_. None) False d' listEmail = matchBlocklist (\<lambda>_. None) False emptyDB listEmail"
    using bare_domain_has_no_effect [OF d'] n(1) by simp
  also have "\<dots> = None" by (simp add: matchBlocklist_def matchList_def emptyDB_def)
  finally show ?thesis using d' by blast
qed

lemma bulk_import_accounts_witness:
  "\<exists>d'. BulkImport (\<lambda>_. None) 0 ''blocklist'' ''@a.org'' False emptyDB = (d', Imported 1 0) \<and> ''@a.org'' \<in> bl_Entry ` set (blocklist d')"
proof -
  have "normalizeEntry ''@a.org'' = ''@a.org''" by code_simp
  then have i: "importLines ''@a.org'' = [''@a.org'']" by (simp add: importLines_def scanLines_def Let_def)
  have e: "validEntries [''@a.org''] = [(''@a.org'', ''domain'')]" by code_simp
  note v = i e
  then obtain d' where d': "BulkImport (\<lambda>_. None) 0 ''blocklist'' ''@a.org'' False emptyDB = (d', Imported 1 0)"
    by (simp add: BulkImport_def dbWrite_def createBlocklist_def bulkImportMaxLines_def emptyDB_def Let_def)
  from bulk_import_accounts [OF this] v show ?thesis using d' by auto
qed

end
