(* ===== verification/WebActions.thy ===== *)
theory WebActions
  imports Invariants
begin

text \<open>
  The actions of the dashboard on recorded messages (\<^verbatim>\<open>app/web/handlers/actions.go\<close>, \<^verbatim>\<open>registry.go\<close>): release, release and learn, delete,
  quarantine, learn spam, rescan, and their bulk form. A handler first acts on the mail server and then records the
  outcome in one transaction. The calls on the mail server, the training of Rspamd and the reading of stored messages are
  arguments that answer each call; the world records the calls.
\<close>

section \<open>Environment and world\<close>

datatype web_call =
    CallMove string string uint32                  \<comment> \<open>account, mailbox, UID\<close>
  | CallRelease string "uint32 list"               \<comment> \<open>out of the quarantine folder of the account\<close>
  | CallDelete string string "uint32 list"

record web =
  x_known :: "string \<Rightarrow> bool"                     \<comment> \<open>accounts of the registry\<close>
  x_imap :: "nat \<Rightarrow> web_call \<Rightarrow> (uint32 \<times> string) result"
  x_learn :: "nat \<Rightarrow> unit result"
  x_read :: "string \<Rightarrow> string result"
  x_faults :: faults
  x_actor :: string
  x_now :: go_time

record web_world =
  ww_db :: db
  ww_writes :: nat
  ww_calls :: "web_call list"
  ww_learned :: "(bool \<times> string) list"           \<comment> \<open>ham or spam\<close>
  ww_rescans :: "(string \<times> string \<times> uint32 \<times> string) list"

definition imapCall :: "web \<Rightarrow> web_call \<Rightarrow> web_world \<Rightarrow> web_world \<times> (uint32 \<times> string) result" where
  "imapCall E c w = (w\<lparr>ww_calls := ww_calls w @ [c]\<rparr>, x_imap E (length (ww_calls w)) c)"

definition learn :: "web \<Rightarrow> bool \<Rightarrow> string \<Rightarrow> web_world \<Rightarrow> web_world \<times> unit result" where
  "learn E ham raw w = (w\<lparr>ww_learned := ww_learned w @ [(ham, raw)]\<rparr>, x_learn E (length (ww_learned w)))"

definition webWrite :: "web \<Rightarrow> (db \<Rightarrow> (db \<times> unit) result) \<Rightarrow> web_world \<Rightarrow> web_world \<times> unit result" where
  "webWrite E fn w =
     (case dbWrite (x_faults E) (ww_writes w) fn (ww_db w) of
        (d, r) \<Rightarrow> (w\<lparr>ww_db := d, ww_writes := Suc (ww_writes w)\<rparr>, r))"

section \<open>Recording an outcome\<close>

text \<open>\<^verbatim>\<open>updateStatus\<close>, the method and the function: the columns of the row and the audit entry.\<close>

definition statusTx :: "web \<Rightarrow> Scan \<Rightarrow> string \<Rightarrow> string \<Rightarrow> db \<Rightarrow> (db \<times> unit) result" where
  "statusTx E scan status nt d =
     (case updateScan (ID scan) (\<lambda>s. s\<lparr>Status := status, ActionedBy := x_actor E, ActionedAt := Some (x_now E)\<rparr>) d of
        Inl e \<Rightarrow> Inl e
      | Inr d' \<Rightarrow> Inr (createAudit \<lparr>al_ScanID = ID scan, al_Action = status, al_Actor = x_actor E, al_Note = nt\<rparr> d', ()))"

definition quarantineTx :: "web \<Rightarrow> Scan \<Rightarrow> uint32 \<Rightarrow> string \<Rightarrow> db \<Rightarrow> (db \<times> unit) result" where
  "quarantineTx E scan newUID newMailbox d =
     (case updateScan (ID scan) (\<lambda>s.
             let s1 = s\<lparr>Status := StatusQuarantined, ActionedBy := x_actor E, ActionedAt := Some (x_now E), IMAPMailbox := newMailbox\<rparr>
             in if newUID > 0 then s1\<lparr>IMAPUID := newUID, AccountUID := MakeAccountUID (AccountName scan) newMailbox newUID\<rparr> else s1) d of
        Inl e \<Rightarrow> Inl e
      | Inr d' \<Rightarrow> Inr (createAudit \<lparr>al_ScanID = ID scan, al_Action = ActionQuarantine, al_Actor = x_actor E,
                              al_Note = ''user-triggered quarantine''\<rparr> d', ()))"

section \<open>The handlers\<close>

text \<open>\<^verbatim>\<open>scanIDFromPath\<close>: the last path segment as a positive 64-bit number.\<close>

definition scanIDFromPath :: "string \<Rightarrow> nat option" where
  "scanIDFromPath path =
     (let p = (if hasSuffix path ''/'' then butlast path else path);
          seg = last (splitOn CHR ''/'' p)
      in if seg = [] \<or> \<not> list_all isDigit seg \<or> decVal seg = 0 \<or> decVal seg \<ge> 2 ^ 64 then None else Some (decVal seg))"

definition withScan :: "string \<Rightarrow> (Scan \<Rightarrow> web_world \<Rightarrow> web_world \<times> int) \<Rightarrow> web_world \<Rightarrow> web_world \<times> int" where
  "withScan path fn w =
     (case scanIDFromPath path of
        None \<Rightarrow> (w, 400)
      | Some i \<Rightarrow> (case rowOf i (ww_db w) of None \<Rightarrow> (w, 404) | Some scan \<Rightarrow> fn scan w))"

text \<open>The common end of the handlers: 200 when the outcome was recorded, else 500.\<close>

definition finish :: "web \<Rightarrow> (db \<Rightarrow> (db \<times> unit) result) \<Rightarrow> web_world \<Rightarrow> web_world \<times> int" where
  "finish E fn w = (case webWrite E fn w of (w', Inl _) \<Rightarrow> (w', 500) | (w', Inr _) \<Rightarrow> (w', 200))"

definition Release :: "web \<Rightarrow> string \<Rightarrow> web_world \<Rightarrow> web_world \<times> int" where
  "Release E path = withScan path (\<lambda>scan w.
     if \<not> x_known E (AccountName scan) then (w, 400)
     else (case imapCall E (CallRelease (AccountName scan) [IMAPUID scan]) w of
             (w1, Inl _) \<Rightarrow> (w1, 500)
           | (w1, Inr _) \<Rightarrow> finish E (statusTx E scan StatusReleased []) w1))"

definition ReleaseAndLearn :: "web \<Rightarrow> string \<Rightarrow> web_world \<Rightarrow> web_world \<times> int" where
  "ReleaseAndLearn E path = withScan path (\<lambda>scan w.
     if \<not> x_known E (AccountName scan) then (w, 400)
     else (case imapCall E (CallRelease (AccountName scan) [IMAPUID scan]) w of
             (w1, Inl _) \<Rightarrow> (w1, 500)
           | (w1, Inr _) \<Rightarrow>
               (let w2 = (case x_read E (EMLPath scan) of Inl _ \<Rightarrow> w1 | Inr raw \<Rightarrow> fst (learn E True raw w1))
                in finish E (statusTx E scan StatusLearnedHam []) w2)))"

definition DeleteScan :: "web \<Rightarrow> string \<Rightarrow> web_world \<Rightarrow> web_world \<times> int" where
  "DeleteScan E path = withScan path (\<lambda>scan w.
     if \<not> x_known E (AccountName scan) then (w, 400)
     else (case imapCall E (CallDelete (AccountName scan) (IMAPMailbox scan) [IMAPUID scan]) w of
             (w1, Inl _) \<Rightarrow> (w1, 500)
           | (w1, Inr _) \<Rightarrow> finish E (statusTx E scan StatusDeleted []) w1))"

definition Quarantine :: "web \<Rightarrow> string \<Rightarrow> web_world \<Rightarrow> web_world \<times> int" where
  "Quarantine E path = withScan path (\<lambda>scan w.
     if \<not> x_known E (AccountName scan) then (w, 400)
     else (case imapCall E (CallMove (AccountName scan) (IMAPMailbox scan) (IMAPUID scan)) w of
             (w1, Inl _) \<Rightarrow> (w1, 500)
           | (w1, Inr (newUID, newMailbox)) \<Rightarrow> finish E (quarantineTx E scan newUID newMailbox) w1))"

definition LearnSpam :: "web \<Rightarrow> string \<Rightarrow> web_world \<Rightarrow> web_world \<times> int" where
  "LearnSpam E path = withScan path (\<lambda>scan w.
     if EMLPath scan = [] then (w, 400)
     else (case x_read E (EMLPath scan) of
             Inl _ \<Rightarrow> (w, 500)
           | Inr raw \<Rightarrow>
               (case learn E False raw w of
                  (w1, Inl _) \<Rightarrow> (w1, 500)
                | (w1, Inr _) \<Rightarrow> finish E (statusTx E scan StatusLearnedSpam []) w1)))"

text \<open>The pipeline run starts in the background; the world records its arguments.\<close>

definition Rescan :: "web \<Rightarrow> string \<Rightarrow> web_world \<Rightarrow> web_world \<times> int" where
  "Rescan E path = withScan path (\<lambda>scan w.
     if EMLPath scan = [] \<or> \<not> x_known E (AccountName scan) then (w, 400)
     else (case x_read E (EMLPath scan) of
             Inl _ \<Rightarrow> (w, 500)
           | Inr raw \<Rightarrow>
               (let w1 = fst (webWrite E (\<lambda>d. Inr (createAudit \<lparr>al_ScanID = ID scan, al_Action = ActionRescan,
                                al_Actor = x_actor E, al_Note = []\<rparr> d, ())) w)
                in (w1\<lparr>ww_rescans := ww_rescans w1 @ [(AccountName scan, raw, IMAPUID scan, IMAPMailbox scan)]\<rparr>, 202))))"

section \<open>Bulk actions\<close>

text \<open>
  Rows are loaded one by one; release and delete collect them into one group per account, or per account and mailbox, and every
  group is one session with the mail server. The groups run concurrently; \<open>sched\<close> is the order in which they
  happen to be served. A failed write of a status is ignored.
\<close>

fun loadRows :: "nat list \<Rightarrow> db \<Rightarrow> Scan list \<times> nat" where
  "loadRows [] d = ([], 0)"
| "loadRows (i # is) d =
     (case loadRows is d of (ss, missing) \<Rightarrow>
        (case rowOf i d of None \<Rightarrow> (ss, Suc missing) | Some s \<Rightarrow> (s # ss, missing)))"

fun recordAll :: "web \<Rightarrow> string \<Rightarrow> string \<Rightarrow> Scan list \<Rightarrow> web_world \<Rightarrow> web_world" where
  "recordAll E status nt [] w = w"
| "recordAll E status nt (s # ss) w = recordAll E status nt ss (fst (webWrite E (statusTx E s status nt) w))"

definition serveGroup :: "web \<Rightarrow> (string \<times> string \<Rightarrow> uint32 list \<Rightarrow> web_call) \<Rightarrow> string \<Rightarrow> string \<Rightarrow> string \<times> string \<Rightarrow> Scan list
    \<Rightarrow> web_world \<Rightarrow> web_world \<times> nat \<times> nat" where
  "serveGroup E mk status nt key rows w =
     (case imapCall E (mk key (map IMAPUID rows)) w of
        (w1, Inl _) \<Rightarrow> (w1, 0, length rows)
      | (w1, Inr _) \<Rightarrow> (recordAll E status nt rows w1, length rows, 0))"

fun serveGroups :: "web \<Rightarrow> (string \<times> string \<Rightarrow> uint32 list \<Rightarrow> web_call) \<Rightarrow> string \<Rightarrow> string \<Rightarrow> (Scan \<Rightarrow> string \<times> string)
    \<Rightarrow> (string \<times> string) list \<Rightarrow> Scan list \<Rightarrow> web_world \<Rightarrow> web_world \<times> nat \<times> nat" where
  "serveGroups E mk status nt key [] ss w = (w, 0, 0)"
| "serveGroups E mk status nt key (k # ks) ss w =
     (case serveGroup E mk status nt k (filter (\<lambda>s. key s = k) ss) w of
        (w1, ok1, bad1) \<Rightarrow>
          (case serveGroups E mk status nt key ks ss w1 of (w2, ok2, bad2) \<Rightarrow> (w2, ok1 + ok2, bad1 + bad2)))"

fun learnAll :: "web \<Rightarrow> Scan list \<Rightarrow> web_world \<Rightarrow> web_world \<times> nat \<times> nat" where
  "learnAll E [] w = (w, 0, 0)"
| "learnAll E (s # ss) w =
     (if EMLPath s = [] then (case learnAll E ss w of (w', ok, bad) \<Rightarrow> (w', ok, Suc bad))
      else (case x_read E (EMLPath s) of
              Inl _ \<Rightarrow> (case learnAll E ss w of (w', ok, bad) \<Rightarrow> (w', ok, Suc bad))
            | Inr raw \<Rightarrow>
                (case webWrite E (statusTx E s StatusLearnedSpam ''bulk learn spam'') (fst (learn E False raw w)) of
                   (w1, Inl _) \<Rightarrow> (case learnAll E ss w1 of (w', ok, bad) \<Rightarrow> (w', ok, Suc bad))
                 | (w1, Inr _) \<Rightarrow> (case learnAll E ss w1 of (w', ok, bad) \<Rightarrow> (w', Suc ok, bad)))))"

datatype bulk_reply = BulkRefused | BulkDone nat nat   \<comment> \<open>succeeded, failed\<close>

definition mailboxKey :: "Scan \<Rightarrow> string \<times> string" where
  "mailboxKey s = (AccountName s, IMAPMailbox s)"

definition BulkAction :: "web \<Rightarrow> ((string \<times> string) list \<Rightarrow> (string \<times> string) list) \<Rightarrow> string \<Rightarrow> nat list \<Rightarrow> web_world
    \<Rightarrow> web_world \<times> bulk_reply" where
  "BulkAction E sched action ids w =
     (if ids = [] \<or> length ids > 200 then (w, BulkRefused)
      else (case loadRows ids (ww_db w) of (found, missing) \<Rightarrow>
        if action = ''release'' \<or> action = ''delete''
        then (let known = filter (\<lambda>s. x_known E (AccountName s)) found;
                  unknown = length found - length known;
                  key = (if action = ''release'' then (\<lambda>s. (AccountName s, [])) else mailboxKey);
                  mk = (if action = ''release'' then (\<lambda>k uids. CallRelease (fst k) uids) else (\<lambda>k uids. CallDelete (fst k) (snd k) uids));
                  status = (if action = ''release'' then StatusReleased else StatusDeleted);
                  nt = (if action = ''release'' then ''bulk release'' else ''bulk delete'')
              in case serveGroups E mk status nt key (sched (remdups (map key known))) known w of
                   (w', ok, bad) \<Rightarrow> (w', BulkDone ok (missing + unknown + bad)))
        else if action = ''learn-spam''
        then (case learnAll E found w of (w', ok, bad) \<Rightarrow> (w', BulkDone ok (missing + bad)))
        else if found \<noteq> [] then (w, BulkRefused) else (w, BulkDone 0 missing)))"

section \<open>What the handlers keep\<close>

lemma statusTx_ok:
  assumes "statusTx E scan status nt d = Inr (d', x)"
  shows "d' = d\<lparr>scans := map (onRow (ID scan) (\<lambda>s. s\<lparr>Status := status, ActionedBy := x_actor E, ActionedAt := Some (x_now E)\<rparr>)) (scans d),
     audit := audit d @ [\<lparr>al_ScanID = ID scan, al_Action = status, al_Actor = x_actor E, al_Note = nt\<rparr>]\<rparr>"
  using assms by (auto simp: statusTx_def updateScan_def createAudit_def onRow_eq Let_def split: if_splits)

context table_invariant
begin

lemma statusTx_inv: "inv d \<Longrightarrow> statusTx E scan status nt d = Inr (d', x) \<Longrightarrow> inv d'"
  by (auto simp: statusTx_def split: sum.splits intro!: inv_audit elim!: inv_update [rotated 2])

lemma quarantineTx_inv: "inv d \<Longrightarrow> quarantineTx E scan u m d = Inr (d', x) \<Longrightarrow> inv d'"
  by (auto simp: quarantineTx_def Let_def split: sum.splits intro!: inv_audit elim!: inv_update [rotated 2])

lemma webWrite_inv:
  assumes "inv (ww_db w)" and "\<And>d' x. fn (ww_db w) = Inr (d', x) \<Longrightarrow> inv d'"
  shows "inv (ww_db (fst (webWrite E fn w)))"
proof -
  obtain d r where w: "dbWrite (x_faults E) (ww_writes w) fn (ww_db w) = (d, r)" by fastforce
  have "inv d" using assms(1) assms(2) w by (rule inv_dbWrite [where fn = fn])
  then show ?thesis by (simp add: webWrite_def w)
qed

end

section \<open>One action\<close>

datatype dashboard = DoRelease | DoReleaseLearn | DoDelete | DoQuarantine | DoLearnSpam

fun handle :: "web \<Rightarrow> dashboard \<Rightarrow> string \<Rightarrow> web_world \<Rightarrow> web_world \<times> int" where
  "handle E DoRelease = Release E"
| "handle E DoReleaseLearn = ReleaseAndLearn E"
| "handle E DoDelete = DeleteScan E"
| "handle E DoQuarantine = Quarantine E"
| "handle E DoLearnSpam = LearnSpam E"

fun target :: "dashboard \<Rightarrow> string" where
  "target DoRelease = StatusReleased"
| "target DoReleaseLearn = StatusLearnedHam"
| "target DoDelete = StatusDeleted"
| "target DoQuarantine = StatusQuarantined"
| "target DoLearnSpam = StatusLearnedSpam"

text \<open>An outcome was recorded: the row of a primary key has the new status and its actor, and the audit log has one more entry for it.\<close>

definition recordedOutcome :: "web \<Rightarrow> nat \<Rightarrow> string \<Rightarrow> db \<Rightarrow> db \<Rightarrow> bool" where
  "recordedOutcome E i status d d' \<longleftrightarrow>
     (\<exists>s'. rowOf i d' = Some s' \<and> Status s' = status \<and> ActionedBy s' = x_actor E)
     \<and> (\<exists>a. audit d' = audit d @ [a] \<and> al_ScanID a = i \<and> al_Actor a = x_actor E)
     \<and> (\<forall>j. j \<noteq> i \<longrightarrow> rowOf j d' = rowOf j d)"

lemma recordedOutcomeI:
  assumes "rowOf (ID scan) d = Some s" and "updateScan (ID scan) f d = Inr d1" and "\<And>s. ID (f s) = ID s"
    and "Status (f s) = status" and "ActionedBy (f s) = x_actor E" and "al_ScanID a = ID scan" and "al_Actor a = x_actor E"
  shows "recordedOutcome E (ID scan) status d (createAudit a d1)"
proof -
  have d1: "d1 = d\<lparr>scans := map (\<lambda>s. if ID s = ID scan then f s else s) (scans d)\<rparr>"
    using assms(2) by (auto simp: updateScan_def Let_def split: if_splits)
  have "rowOf j (createAudit a d1) = (if j = ID scan then map_option f (rowOf j d) else rowOf j d)" for j
    using rowOf_map [OF assms(3), where d = d and j = "ID scan"] by (simp add: d1 createAudit_def rowOf_def)
  then show ?thesis using assms by (simp add: recordedOutcome_def) (simp add: d1 createAudit_def)
qed

lemma rowOf_ID: "rowOf i d = Some s \<Longrightarrow> ID s = i"
  using find_Some_in [of "\<lambda>s. ID s = i" "scans d"] by (auto simp: rowOf_def)

lemma finish_outcome:
  assumes "finish E fn w = (w', code)"
    and "\<And>d' x. fn (ww_db w) = Inr (d', x) \<Longrightarrow> recordedOutcome E i status (ww_db w) d'"
  shows "code = 200 \<and> recordedOutcome E i status (ww_db w) (ww_db w') \<or> code = 500 \<and> ww_db w' = ww_db w"
  using assms by (cases rule: dbWrite_cases [of "x_faults E" "ww_writes w" fn "ww_db w"]) (auto simp: finish_def webWrite_def)

lemma statusTx_outcome:
  assumes "rowOf i d = Some scan" and "statusTx E scan status nt d = Inr (d', x)"
  shows "recordedOutcome E i status d d'"
proof -
  have i: "i = ID scan" using rowOf_ID [OF assms(1)] by simp
  show ?thesis
    unfolding i using assms
    by (auto simp: statusTx_def i split: sum.splits intro!: recordedOutcomeI [where s = scan])
qed

lemma quarantineTx_outcome:
  assumes "rowOf i d = Some scan" and "quarantineTx E scan u m d = Inr (d', x)"
  shows "recordedOutcome E i StatusQuarantined d d'"
proof -
  have i: "i = ID scan" using rowOf_ID [OF assms(1)] by simp
  show ?thesis
    unfolding i using assms
    by (auto simp: quarantineTx_def i Let_def split: sum.splits intro!: recordedOutcomeI [where s = scan])
qed

lemma world_db [simp]:
  "ww_db (fst (imapCall E c w)) = ww_db w" "ww_db (fst (learn E ham raw w)) = ww_db w"
  by (simp_all add: imapCall_def learn_def)

definition consistent :: "web \<Rightarrow> nat \<Rightarrow> string \<Rightarrow> web_world \<Rightarrow> web_world \<times> int \<Rightarrow> bool" where
  "consistent E i status w r \<longleftrightarrow>
     (if snd r = 200 then recordedOutcome E i status (ww_db w) (ww_db (fst r)) else ww_db (fst r) = ww_db w)"

lemma finish_consistent:
  assumes "ww_db w1 = ww_db w" and "\<And>d' x. fn (ww_db w) = Inr (d', x) \<Longrightarrow> recordedOutcome E i status (ww_db w) d'"
  shows "consistent E i status w (finish E fn w1)"
proof -
  obtain w' code where f: "finish E fn w1 = (w', code)" by fastforce
  then show ?thesis
    using finish_outcome [OF f, of i status] assms by (auto simp: consistent_def)
qed

lemma refused_consistent [simp]: "code \<noteq> 200 \<Longrightarrow> consistent E i status w (w', code) \<longleftrightarrow> ww_db w' = ww_db w"
  by (simp add: consistent_def)

lemma handle_consistent:
  "consistent E (case scanIDFromPath path of None \<Rightarrow> 0 | Some i \<Rightarrow> i) (target act) w (handle E act path w)"
proof (cases "scanIDFromPath path")
  case None
  then show ?thesis by (cases act) (simp_all add: Release_def ReleaseAndLearn_def DeleteScan_def Quarantine_def LearnSpam_def withScan_def)
next
  case (Some i)
  show ?thesis
  proof (cases "rowOf i (ww_db w)")
    case None
    with Some show ?thesis
      by (cases act) (simp_all add: Release_def ReleaseAndLearn_def DeleteScan_def Quarantine_def LearnSpam_def withScan_def)
  next
    case scan: (Some scan)
    have st: "consistent E i status w (finish E (statusTx E scan status nt) w1)" if "ww_db w1 = ww_db w" for status nt w1
      using that by (rule finish_consistent) (rule statusTx_outcome [OF scan])
    have qu: "consistent E i StatusQuarantined w (finish E (quarantineTx E scan u m) w1)" if "ww_db w1 = ww_db w" for u m w1
      using that by (rule finish_consistent) (rule quarantineTx_outcome [OF scan])
    show ?thesis
      using Some scan
      by (cases act)
        (auto simp: Release_def ReleaseAndLearn_def DeleteScan_def Quarantine_def LearnSpam_def withScan_def Let_def imapCall_def learn_def
          split: sum.split prod.split intro!: st qu)
  qed
qed

section \<open>Many actions\<close>

lemma loadRows_count: "loadRows ids d = (found, missing) \<Longrightarrow> length found + missing = length ids"
  by (induction ids arbitrary: found missing) (auto split: prod.splits option.splits)

lemma serveGroups_count:
  assumes "serveGroups E mk status nt key ks ss w = (w', ok, bad)" and "distinct ks"
  shows "ok + bad = length (filter (\<lambda>s. key s \<in> set ks) ss)"
  using assms
proof (induction ks arbitrary: w w' ok bad)
  case (Cons k ks)
  obtain w1 ok1 bad1 where g: "serveGroup E mk status nt k (filter (\<lambda>s. key s = k) ss) w = (w1, ok1, bad1)" by (metis surj_pair)
  obtain w2 ok2 bad2 where r: "serveGroups E mk status nt key ks ss w1 = (w2, ok2, bad2)" by (metis surj_pair)
  have "ok1 + bad1 = length (filter (\<lambda>s. key s = k) ss)"
    using g by (auto simp: serveGroup_def split: prod.splits sum.splits)
  moreover have "ok2 + bad2 = length (filter (\<lambda>s. key s \<in> set ks) ss)" using Cons.IH [OF r] Cons.prems(2) by simp
  moreover have "length (filter (\<lambda>s. key s \<in> set (k # ks)) xs) = length (filter (\<lambda>s. key s = k) xs) + length (filter (\<lambda>s. key s \<in> set ks) xs)" for xs
    using Cons.prems(2) by (induction xs) auto
  ultimately show ?case using Cons.prems(1) g r by simp
qed simp

lemma learnAll_count: "learnAll E ss w = (w', ok, bad) \<Longrightarrow> ok + bad = length ss"
  by (induction E ss w arbitrary: w' ok bad rule: learnAll.induct) (auto split: if_splits sum.splits prod.splits)

context table_invariant
begin

lemma recordAll_inv: "inv (ww_db w) \<Longrightarrow> inv (ww_db (recordAll E status nt ss w))"
proof (induction ss arbitrary: w)
  case (Cons s ss)
  have "inv (ww_db (fst (webWrite E (statusTx E s status nt) w)))"
    by (rule webWrite_inv [OF Cons.prems]) (rule statusTx_inv [OF Cons.prems])
  then show ?case by (simp add: Cons.IH)
qed simp

lemma serveGroups_inv:
  "inv (ww_db w) \<Longrightarrow> serveGroups E mk status nt key ks ss w = (w', r) \<Longrightarrow> inv (ww_db w')"
proof (induction ks arbitrary: w w' r)
  case (Cons k ks)
  obtain w1 ok1 bad1 where g: "serveGroup E mk status nt k (filter (\<lambda>s. key s = k) ss) w = (w1, ok1, bad1)" by (metis surj_pair)
  have "inv (ww_db w1)"
    using g Cons.prems(1) by (auto simp: serveGroup_def imapCall_def recordAll_inv split: prod.splits sum.splits)
  then show ?case using Cons g by (auto split: prod.splits)
qed simp

lemma learnAll_inv: "inv (ww_db w) \<Longrightarrow> inv (ww_db (fst (learnAll E ss w)))"
proof (induction ss arbitrary: w)
  case (Cons s ss)
  have "inv (ww_db (fst (webWrite E (statusTx E s StatusLearnedSpam ''bulk learn spam'') (fst (learn E False raw w)))))" for raw
    by (rule webWrite_inv) (use Cons.prems in \<open>auto intro: statusTx_inv\<close>)
  then show ?case
    using Cons by (auto simp: case_prod_beta split: sum.split prod.split)
qed simp

lemma BulkAction_inv: "inv (ww_db w) \<Longrightarrow> inv (ww_db (fst (BulkAction E sched action ids w)))"
  using serveGroups_inv [OF _ surjective_pairing] learnAll_inv
  by (simp add: BulkAction_def Let_def case_prod_beta)

end

section \<open>What a rescan and a bulk action record\<close>

text \<open>
  The log grew by entries for messages of \<open>I\<close>, at least \<open>lo\<close> and at most \<open>hi\<close> of them, and only rows with such an entry differ.
\<close>

definition loggedChanges :: "nat set \<Rightarrow> nat \<Rightarrow> nat \<Rightarrow> db \<Rightarrow> db \<Rightarrow> bool" where
  "loggedChanges I lo hi d d' \<longleftrightarrow>
     (\<exists>new. audit d' = audit d @ new \<and> lo \<le> length new \<and> length new \<le> hi \<and> al_ScanID ` set new \<subseteq> I
        \<and> (\<forall>j. j \<notin> al_ScanID ` set new \<longrightarrow> rowOf j d' = rowOf j d))"

lemma loggedChanges_refl: "loggedChanges I 0 hi d d"
  by (simp add: loggedChanges_def)

lemma loggedChanges_weaken: "loggedChanges I lo hi d d' \<Longrightarrow> I \<subseteq> J \<Longrightarrow> lo' \<le> lo \<Longrightarrow> hi \<le> hi' \<Longrightarrow> loggedChanges J lo' hi' d d'"
  unfolding loggedChanges_def by (meson order_trans)

lemma loggedChanges_trans:
  assumes "loggedChanges I lo1 hi1 d d1" and "loggedChanges I lo2 hi2 d1 d2"
  shows "loggedChanges I (lo1 + lo2) (hi1 + hi2) d d2"
proof -
  obtain n1 n2 where n: "audit d1 = audit d @ n1" "lo1 \<le> length n1" "length n1 \<le> hi1" "al_ScanID ` set n1 \<subseteq> I"
      "\<forall>j. j \<notin> al_ScanID ` set n1 \<longrightarrow> rowOf j d1 = rowOf j d"
    "audit d2 = audit d1 @ n2" "lo2 \<le> length n2" "length n2 \<le> hi2" "al_ScanID ` set n2 \<subseteq> I"
      "\<forall>j. j \<notin> al_ScanID ` set n2 \<longrightarrow> rowOf j d2 = rowOf j d1"
    using assms unfolding loggedChanges_def by blast
  show ?thesis unfolding loggedChanges_def by (rule exI [of _ "n1 @ n2"]) (use n in \<open>auto simp: image_Un\<close>)
qed

text \<open>Every status write goes through: the index holds and no transaction is refused.\<close>

definition writesWork :: "web \<Rightarrow> db \<Rightarrow> bool" where
  "writesWork E d \<longleftrightarrow> dbOK d \<and> (\<forall>n. x_faults E n = None)"

lemma statusTx_logged:
  assumes "statusTx E s status nt d = Inr (d', x)"
  shows "loggedChanges {ID s} 1 1 d d'"
proof -
  have "rowOf j d' = rowOf j d" if "j \<noteq> ID s" for j
    using statusTx_ok [OF assms] rowOf_map [where i = j and j = "ID s" and d = d and f = "\<lambda>t. t\<lparr>Status := status, ActionedBy := x_actor E, ActionedAt := Some (x_now E)\<rparr>"] that
    by (simp add: rowOf_def onRow_eq)
  with statusTx_ok [OF assms] show ?thesis
    unfolding loggedChanges_def by (intro exI [of _ "[\<lparr>al_ScanID = ID s, al_Action = status, al_Actor = x_actor E, al_Note = nt\<rparr>]"]) auto
qed

lemma statusTx_works: "dbOK d \<Longrightarrow> \<exists>d' x. statusTx E s status nt d = Inr (d', x)"
proof -
  assume "dbOK d"
  moreover have "map uidKey (map (\<lambda>t. if ID t = ID s then t\<lparr>Status := status, ActionedBy := x_actor E, ActionedAt := Some (x_now E)\<rparr> else t) xs) = map uidKey xs" for xs
    by (induction xs) (simp_all add: uidKey_def)
  ultimately have "updateScan (ID s) (\<lambda>t. t\<lparr>Status := status, ActionedBy := x_actor E, ActionedAt := Some (x_now E)\<rparr>) d
      = Inr (d\<lparr>scans := map (\<lambda>t. if ID t = ID s then t\<lparr>Status := status, ActionedBy := x_actor E, ActionedAt := Some (x_now E)\<rparr> else t) (scans d)\<rparr>)"
    unfolding updateScan_def Let_def dbOK_def by presburger
  then show ?thesis by (simp add: statusTx_def)
qed

lemma write_logged:
  assumes "webWrite E (statusTx E s status nt) w = (w', r)"
  shows "loggedChanges {ID s} (if r = Inr () then 1 else 0) (if r = Inr () then 1 else 0) (ww_db w) (ww_db w')"
    and "writesWork E (ww_db w) \<Longrightarrow> r = Inr () \<and> writesWork E (ww_db w')"
proof -
  show "loggedChanges {ID s} (if r = Inr () then 1 else 0) (if r = Inr () then 1 else 0) (ww_db w) (ww_db w')"
    by (cases rule: dbWrite_cases [of "x_faults E" "ww_writes w" "statusTx E s status nt" "ww_db w"])
      (use assms statusTx_logged in \<open>auto simp: webWrite_def loggedChanges_refl\<close>)
  assume k: "writesWork E (ww_db w)"
  then obtain d' where t: "statusTx E s status nt (ww_db w) = Inr (d', ())" using statusTx_works [of "ww_db w" E s status nt] by (auto simp: writesWork_def)
  have "dbOK d'" using wf.statusTx_inv [OF _ t] k by (simp add: writesWork_def)
  with k t assms show "r = Inr () \<and> writesWork E (ww_db w')" by (auto simp: writesWork_def webWrite_def dbWrite_def)
qed

lemma recordAll_logged:
  "loggedChanges (ID ` set ss) (if writesWork E (ww_db w) then length ss else 0) (length ss) (ww_db w) (ww_db (recordAll E status nt ss w))
    \<and> (writesWork E (ww_db w) \<longrightarrow> writesWork E (ww_db (recordAll E status nt ss w)))"
proof (induction ss arbitrary: w)
  case (Cons s ss)
  obtain w1 r where w1: "webWrite E (statusTx E s status nt) w = (w1, r)" by fastforce
  have "loggedChanges (ID ` set (s # ss)) (if writesWork E (ww_db w) then 1 else 0) 1 (ww_db w) (ww_db w1)"
    by (rule loggedChanges_weaken [OF write_logged(1) [OF w1]]) (use write_logged(2) [OF w1] in auto)
  moreover have "loggedChanges (ID ` set (s # ss)) (if writesWork E (ww_db w) then length ss else 0) (length ss) (ww_db w1) (ww_db (recordAll E status nt ss w1))"
    by (rule loggedChanges_weaken [OF conjunct1 [OF Cons.IH [of w1]]]) (use write_logged(2) [OF w1] in auto)
  ultimately have "loggedChanges (ID ` set (s # ss)) ((if writesWork E (ww_db w) then 1 else 0) + (if writesWork E (ww_db w) then length ss else 0))
      (1 + length ss) (ww_db w) (ww_db (recordAll E status nt ss w1))" by (rule loggedChanges_trans)
  then show ?case using w1 Cons.IH [of w1] write_logged(2) [OF w1] by (simp split: if_splits)
qed (simp add: loggedChanges_refl)

lemma serveGroups_logged:
  assumes "serveGroups E mk status nt key ks ss w = (w', ok, bad)"
  shows "loggedChanges (ID ` set ss) (if writesWork E (ww_db w) then ok else 0) ok (ww_db w) (ww_db w')"
  using assms
proof (induction ks arbitrary: w w' ok bad)
  case (Cons k ks)
  obtain w1 ok1 bad1 where g: "serveGroup E mk status nt k (filter (\<lambda>s. key s = k) ss) w = (w1, ok1, bad1)" by (metis surj_pair)
  obtain w2 ok2 bad2 where r: "serveGroups E mk status nt key ks ss w1 = (w2, ok2, bad2)" by (metis surj_pair)
  have o: "w' = w2" "ok = ok1 + ok2" using Cons.prems g r by auto
  have one: "loggedChanges (ID ` set ss) (if writesWork E (ww_db w) then ok1 else 0) ok1 (ww_db w) (ww_db w1)
      \<and> (writesWork E (ww_db w) \<longrightarrow> writesWork E (ww_db w1))"
  proof (cases "x_imap E (length (ww_calls w)) (mk k (map IMAPUID (filter (\<lambda>s. key s = k) ss)))")
    case (Inl e)
    then show ?thesis using g by (auto simp: serveGroup_def imapCall_def loggedChanges_refl)
  next
    case (Inr u)
    obtain w0 where "w1 = recordAll E status nt (filter (\<lambda>s. key s = k) ss) w0" "ok1 = length (filter (\<lambda>s. key s = k) ss)" "ww_db w0 = ww_db w"
      using g Inr by (auto simp: serveGroup_def imapCall_def)
    then show ?thesis using recordAll_logged [of "filter (\<lambda>s. key s = k) ss" E w0 status nt]
      by (auto intro: loggedChanges_weaken split: if_splits)
  qed
  have "loggedChanges (ID ` set ss) (if writesWork E (ww_db w) then ok2 else 0) ok2 (ww_db w1) (ww_db w2)"
    by (rule loggedChanges_weaken [OF Cons.IH [OF r]]) (use one in auto)
  from loggedChanges_trans [OF conjunct1 [OF one] this] show ?case by (simp add: o split: if_splits)
qed (simp add: loggedChanges_refl)

lemma learnAll_logged:
  "learnAll E ss w = (w', ok, bad) \<Longrightarrow> loggedChanges (ID ` set ss) ok ok (ww_db w) (ww_db w')"
proof (induction ss arbitrary: w w' ok bad)
  case (Cons s ss)
  have keep: "loggedChanges (ID ` set (s # ss)) ok ok (ww_db w) (ww_db w')" if "learnAll E ss w0 = (w', ok, bad')" "ww_db w0 = ww_db w" for w0 bad'
    by (rule loggedChanges_weaken [OF Cons.IH [OF that(1), unfolded that(2)]]) auto
  show ?case
  proof (cases "EMLPath s = [] \<or> (\<exists>e. x_read E (EMLPath s) = Inl e)")
    case True
    with Cons.prems obtain bad' where "learnAll E ss w = (w', ok, bad')" by (auto split: if_splits sum.splits prod.splits)
    then show ?thesis by (rule keep) simp
  next
    case False
    then obtain raw where raw: "EMLPath s \<noteq> []" "x_read E (EMLPath s) = Inr raw" by (cases "x_read E (EMLPath s)") auto
    let ?w0 = "fst (learn E False raw w)"
    obtain w1 r where w1: "webWrite E (statusTx E s StatusLearnedSpam ''bulk learn spam'') ?w0 = (w1, r)" by fastforce
    obtain w2 ok2 bad2 where w2: "learnAll E ss w1 = (w2, ok2, bad2)" by (metis surj_pair)
    have o: "w' = w2" "ok = (if r = Inr () then 1 else 0) + ok2" using Cons.prems raw w1 w2 by (auto split: sum.splits)
    have "loggedChanges (ID ` set (s # ss)) (if r = Inr () then 1 else 0) (if r = Inr () then 1 else 0) (ww_db w) (ww_db w1)"
      by (rule loggedChanges_weaken [OF write_logged(1) [OF w1, unfolded world_db]]) auto
    moreover have "loggedChanges (ID ` set (s # ss)) ok2 ok2 (ww_db w1) (ww_db w2)"
      by (rule loggedChanges_weaken [OF Cons.IH [OF w2]]) auto
    ultimately show ?thesis unfolding o by (rule loggedChanges_trans)
  qed
qed (simp add: loggedChanges_refl)

lemma loadRows_ids: "loadRows ids d = (found, missing) \<Longrightarrow> ID ` set found \<subseteq> set ids"
proof (induction ids arbitrary: found missing)
  case (Cons i ids)
  obtain ss n where "loadRows ids d = (ss, n)" by fastforce
  with Cons show ?case by (cases "rowOf i d") (auto simp: rowOf_ID image_subset_iff)
qed simp

lemma BulkAction_logged:
  "case BulkAction E sched action ids w of
     (w', BulkRefused) \<Rightarrow> ww_db w' = ww_db w
   | (w', BulkDone ok bad) \<Rightarrow>
       loggedChanges (set ids) (if action = ''learn-spam'' \<or> writesWork E (ww_db w) then ok else 0) ok (ww_db w) (ww_db w')"
proof -
  obtain found missing where l: "loadRows ids (ww_db w) = (found, missing)" by fastforce
  note ids = loadRows_ids [OF l]
  have groups: "loggedChanges (set ids) (if writesWork E (ww_db w) then ok else 0) ok (ww_db w) (ww_db w')"
    if "serveGroups E mk status nt key ks (filter P found) w = (w', ok, bad)" for mk status nt key ks P w' ok bad
    by (rule loggedChanges_weaken [OF serveGroups_logged [OF that]]) (use ids in auto)
  have learned: "loggedChanges (set ids) ok ok (ww_db w) (ww_db w')" if "learnAll E found w = (w', ok, bad)" for w' ok bad
    by (rule loggedChanges_weaken [OF learnAll_logged [OF that] ids]) simp_all
  consider (refused) "ids = [] \<or> length ids > 200" | (moved) "ids \<noteq> []" "\<not> length ids > 200" "action = ''release'' \<or> action = ''delete''"
    | (learn) "ids \<noteq> []" "\<not> length ids > 200" "action = ''learn-spam''"
    | (other) "ids \<noteq> []" "\<not> length ids > 200" "\<not> (action = ''release'' \<or> action = ''delete'')" "action \<noteq> ''learn-spam''" by blast
  then show ?thesis
  proof cases
    case moved
    obtain mk status nt key ks where g: "BulkAction E sched action ids w = (case serveGroups E mk status nt key ks (filter (\<lambda>s. x_known E (AccountName s)) found) w of
        (w', ok, bad) \<Rightarrow> (w', BulkDone ok (missing + (length found - length (filter (\<lambda>s. x_known E (AccountName s)) found)) + bad)))"
      using moved by (simp add: BulkAction_def l Let_def)
    obtain w' ok bad where r: "serveGroups E mk status nt key ks (filter (\<lambda>s. x_known E (AccountName s)) found) w = (w', ok, bad)" by (metis surj_pair)
    have "action \<noteq> ''learn-spam''" using moved by auto
    with groups [OF r] show ?thesis unfolding g r by simp
  next
    case learn
    obtain w' ok bad where r: "learnAll E found w = (w', ok, bad)" by (metis surj_pair)
    with learn learned [OF r] show ?thesis by (simp add: BulkAction_def l)
  qed (simp_all add: BulkAction_def l loggedChanges_refl)
qed

text \<open>The rescan of a message: its pipeline run is queued with the stored copy and the place of the row, whether or not the audit entry could be written.\<close>

definition rescanQueued :: "web \<Rightarrow> string \<Rightarrow> web_world \<Rightarrow> web_world \<Rightarrow> bool" where
  "rescanQueued E path w w' \<longleftrightarrow>
     (case scanIDFromPath path of None \<Rightarrow> False | Some i \<Rightarrow> (case rowOf i (ww_db w) of None \<Rightarrow> False | Some scan \<Rightarrow>
        (case x_read E (EMLPath scan) of Inl _ \<Rightarrow> False | Inr raw \<Rightarrow>
           ww_rescans w' = ww_rescans w @ [(AccountName scan, raw, IMAPUID scan, IMAPMailbox scan)]
           \<and> audit (ww_db w') = audit (ww_db w) @
               (if x_faults E (ww_writes w) = None then [\<lparr>al_ScanID = i, al_Action = ActionRescan, al_Actor = x_actor E, al_Note = []\<rparr>] else []))))"

lemma Rescan_queues:
  "case Rescan E path w of (w', code) \<Rightarrow> scans (ww_db w') = scans (ww_db w)
     \<and> (if code = 202 then rescanQueued E path w w' else ww_db w' = ww_db w \<and> ww_rescans w' = ww_rescans w)"
  by (auto simp: Rescan_def withScan_def rescanQueued_def webWrite_def dbWrite_def createAudit_def Let_def
      split: option.split sum.split prod.split dest: rowOf_ID)

section \<open>Properties\<close>

text \<open>
  C34. What the dashboard answers is what was recorded. Release, release-and-learn, delete, quarantine and learn-spam of one message: when the answer is 200, the row of the requested message has the
  action's status and the user as its actor, exactly one audit entry was added, for that message, and no other row changed; with any other answer the database is what it was.
  Rescan never changes a row; with the answer 202 a pipeline run of the stored copy was queued, and the audit entry is there unless its write was refused, which the answer does not show.
  A bulk action that is refused changes nothing; otherwise only rows of the request change, each with an audit entry, and the entries are at most the reported successes: exactly as many for
  learn-spam, and for release and delete when no write is refused (a refused one is counted as a success all the same).
\<close>

theorem dashboard_action_consistent:
  "(case handle E act path w of (w', code) \<Rightarrow>
      (if code = 200 then \<exists>i. scanIDFromPath path = Some i \<and> recordedOutcome E i (target act) (ww_db w) (ww_db w')
       else ww_db w' = ww_db w))
   \<and> (case Rescan E path w of (w', code) \<Rightarrow> scans (ww_db w') = scans (ww_db w)
      \<and> (if code = 202 then rescanQueued E path w w' else ww_db w' = ww_db w \<and> ww_rescans w' = ww_rescans w))
   \<and> (case BulkAction E sched action ids w of
        (w', BulkRefused) \<Rightarrow> ww_db w' = ww_db w
      | (w', BulkDone ok bad) \<Rightarrow>
          loggedChanges (set ids) (if action = ''learn-spam'' \<or> writesWork E (ww_db w) then ok else 0) ok (ww_db w) (ww_db w'))"
proof -
  obtain w' code where h: "handle E act path w = (w', code)" by fastforce
  have "code \<noteq> 200" if "scanIDFromPath path = None"
    using h that by (cases act) (auto simp: Release_def ReleaseAndLearn_def DeleteScan_def Quarantine_def LearnSpam_def withScan_def)
  then have "case handle E act path w of (w', code) \<Rightarrow>
      (if code = 200 then \<exists>i. scanIDFromPath path = Some i \<and> recordedOutcome E i (target act) (ww_db w) (ww_db w') else ww_db w' = ww_db w)"
    using handle_consistent [of E path act w] h by (cases "scanIDFromPath path") (auto simp: consistent_def split: if_splits)
  then show ?thesis using Rescan_queues [where E = E and path = path and w = w]
    BulkAction_logged [where E = E and sched = sched and action = action and ids = ids and w = w] by blast
qed

text \<open>
  A bulk action answers for every message: the numbers of successes and failures add up to the number of identifiers in the
  request, in whatever order the groups are served.
\<close>

theorem bulk_action_accounts:
  assumes "BulkAction E sched action ids w = (w', BulkDone ok bad)"
    and "\<forall>ks. set (sched ks) = set ks \<and> (distinct ks \<longrightarrow> distinct (sched ks))"
  shows "ok + bad = length ids"
proof -
  obtain found missing where l: "loadRows ids (ww_db w) = (found, missing)" by fastforce
  note n = loadRows_count [OF l]
  have groups: "ok' + bad' = length ss"
    if "serveGroups E mk status nt key (sched (remdups (map key ss))) ss w = (w1, ok', bad')" for mk status nt key ss w1 ok' bad'
    using serveGroups_count [OF that] assms(2) by (simp add: filter_id_conv)
  define known where "known = filter (\<lambda>s. x_known E (AccountName s)) found"
  have le: "length known \<le> length found" by (simp add: known_def)
  show ?thesis
    using assms(1) n le
    by (auto simp: BulkAction_def l Let_def split: if_splits prod.splits dest!: groups learnAll_count simp flip: known_def)
qed

text \<open>
  Whatever the dashboard does, the primary keys and the unique index of the messages stay intact and no audit entry is ever
  removed or changed.
\<close>

theorem bulk_action_keeps_tables:
  assumes "dbOK (ww_db w)"
  shows "dbOK (ww_db (fst (BulkAction E sched action ids w))) \<and> prefix (audit (ww_db w)) (audit (ww_db (fst (BulkAction E sched action ids w))))"
  using assms by (simp add: wf.BulkAction_inv trail.BulkAction_inv)

text \<open>
  Release does not look where the message is: the handler asks the server to move the row's UID out of the quarantine folder even when the row says
  that the message is in another mailbox, where the same number names a different message.
\<close>

theorem release_ignores_mailbox:
  assumes "scanIDFromPath path = Some i" and "rowOf i (ww_db w) = Some scan" and "x_known E (AccountName scan)"
  shows "ww_calls (fst (Release E path w)) = ww_calls w @ [CallRelease (AccountName scan) [IMAPUID scan]]"
  using assms by (auto simp: Release_def withScan_def imapCall_def finish_def webWrite_def split: sum.split prod.split)

section \<open>Witnesses\<close>

definition demoWeb :: web where
  "demoWeb = \<lparr>x_known = (\<lambda>a. a = ''A''), x_imap = (\<lambda>_ _. Inr (0, [])), x_learn = (\<lambda>_. Inr ()), x_read = (\<lambda>_. Inr ''raw''),
     x_faults = (\<lambda>_. None), x_actor = ''user:admin'', x_now = 5\<rparr>"

definition demoScan :: Scan where
  "demoScan = zeroScan\<lparr>ID := 1, AccountName := ''A'', IMAPMailbox := ''INBOX'', IMAPUID := 42, Status := StatusInbox\<rparr>"

definition demoWebWorld :: web_world where
  "demoWebWorld = \<lparr>ww_db = emptyDB\<lparr>scans := [demoScan], nextID := 2\<rparr>, ww_writes = 0, ww_calls = [], ww_learned = [], ww_rescans = []\<rparr>"

lemma demo_path: "scanIDFromPath ''/api/release/1'' = Some 1"
  by (simp add: scanIDFromPath_def Let_def hasSuffix_def isDigit_def decVal_def)

lemma demo_row: "rowOf 1 (ww_db demoWebWorld) = Some demoScan"
  by (simp add: demoWebWorld_def rowOf_def demoScan_def)

lemma release_ignores_mailbox_witness:
  "IMAPMailbox demoScan = ''INBOX'' \<and> ww_calls (fst (Release demoWeb ''/api/release/1'' demoWebWorld)) = [CallRelease ''A'' [42]]"
  using release_ignores_mailbox [OF demo_path demo_row, of demoWeb]
  by (simp add: demoWeb_def demoScan_def demoWebWorld_def)

lemma bulk_action_keeps_tables_witness: "dbOK (ww_db (fst (BulkAction demoWeb id ''delete'' [1, 9] demoWebWorld)))"
proof -
  have "dbOK (ww_db demoWebWorld)" by (simp add: demoWebWorld_def dbOK_def demoScan_def)
  from bulk_action_keeps_tables [OF this] show ?thesis by blast
qed

lemma bulk_action_accounts_witness:
  "\<exists>w'. BulkAction demoWeb id ''delete'' [1, 9] demoWebWorld = (w', BulkDone 1 1) \<and> 1 + 1 = length [1, 9 :: nat]"
proof -
  have "loadRows [1, 9] (ww_db demoWebWorld) = ([demoScan], 1)"
    by (simp add: demoWebWorld_def rowOf_def demoScan_def)
  then obtain w' where w': "BulkAction demoWeb id ''delete'' [1, 9] demoWebWorld = (w', BulkDone 1 1)"
    by (auto simp: BulkAction_def Let_def serveGroup_def imapCall_def demoWeb_def demoScan_def)
  from bulk_action_accounts [OF this] have "1 + 1 = length [1, 9 :: nat]" by simp
  with w' show ?thesis by blast
qed

end
