(* ===== verification/Sessions.thy ===== *)
theory Sessions
  imports Refinement Models
begin

text \<open>
  The session store of \<^verbatim>\<open>app/auth/session.go\<close>: sessions live in memory for at most \<^verbatim>\<open>ttl\<close>, die after four hours without use, and are
  saved to the database across restarts. The clock is an argument of every operation; an operation reads it once.
  The store refines a specification that only looks at the history of operations: sweeping
  and the clean-up inside \<^verbatim>\<open>Get\<close> are invisible.
\<close>

section \<open>The store\<close>

record Session =
  se_Token :: string
  se_Username :: string
  se_IPAddr :: string
  se_CreatedAt :: go_time
  se_ExpiresAt :: go_time
  se_LastSeenAt :: go_time

record Store =
  sessions :: "string \<rightharpoonup> Session"
  ttl :: duration

definition hours :: "int \<Rightarrow> duration" where
  "hours n = n * 3600 * 10 ^ 9"

definition defaultIdleTimeout :: duration where
  "defaultIdleTimeout = hours 4"

definition NewStore :: "duration \<Rightarrow> Store" where
  "NewStore d = \<lparr>sessions = Map.empty, ttl = d\<rparr>"

text \<open>The token comes from the system's random source; it is an argument.\<close>

definition Create :: "go_time \<Rightarrow> string \<Rightarrow> string \<Rightarrow> string \<Rightarrow> Store \<Rightarrow> Store" where
  "Create now token username ip s =
     s\<lparr>sessions := (sessions s)(token \<mapsto>
        \<lparr>se_Token = token, se_Username = username, se_IPAddr = ip, se_CreatedAt = now,
         se_ExpiresAt = now + ttl s, se_LastSeenAt = now\<rparr>)\<rparr>"

definition dead :: "go_time \<Rightarrow> Session \<Rightarrow> bool" where
  "dead now sess \<longleftrightarrow> now > se_ExpiresAt sess \<or> now - se_LastSeenAt sess > defaultIdleTimeout"

definition Delete :: "string \<Rightarrow> Store \<Rightarrow> Store" where
  "Delete token s = s\<lparr>sessions := (sessions s)(token := None)\<rparr>"

definition Get :: "go_time \<Rightarrow> string \<Rightarrow> Store \<Rightarrow> Store \<times> Session option" where
  "Get now token s =
     (case sessions s token of
        None \<Rightarrow> (s, None)
      | Some sess \<Rightarrow> if dead now sess then (s\<lparr>sessions := (sessions s)(token := None)\<rparr>, None) else (s, Some sess))"

definition Touch :: "go_time \<Rightarrow> string \<Rightarrow> Store \<Rightarrow> Store" where
  "Touch now token s =
     (case sessions s token of
        None \<Rightarrow> s
      | Some sess \<Rightarrow> s\<lparr>sessions := (sessions s)(token \<mapsto> sess\<lparr>se_LastSeenAt := now\<rparr>)\<rparr>)"

definition DeleteAll :: "Store \<Rightarrow> Store" where
  "DeleteAll s = s\<lparr>sessions := Map.empty\<rparr>"

definition store_Sweep :: "go_time \<Rightarrow> Store \<Rightarrow> Store" where
  "store_Sweep now s =
     s\<lparr>sessions := (\<lambda>t. case sessions s t of None \<Rightarrow> None | Some sess \<Rightarrow> if dead now sess then None else Some sess)\<rparr>"

section \<open>Persistence\<close>

record dbSession =
  dbs_Token :: string
  dbs_Username :: string
  dbs_IPAddr :: string
  dbs_CreatedAt :: go_time
  dbs_ExpiresAt :: go_time

text \<open>The table has a unique index on the token; it is a map from tokens.\<close>

type_synonym session_table = "string \<rightharpoonup> dbSession"

definition persisted :: "Session \<Rightarrow> dbSession" where
  "persisted sess = \<lparr>dbs_Token = se_Token sess, dbs_Username = se_Username sess, dbs_IPAddr = se_IPAddr sess,
     dbs_CreatedAt = se_CreatedAt sess, dbs_ExpiresAt = se_ExpiresAt sess\<rparr>"

definition PersistToDB :: "go_time \<Rightarrow> error option \<Rightarrow> Store \<Rightarrow> session_table \<Rightarrow> session_table \<times> unit result" where
  "PersistToDB now fault s tbl =
     (let valid = (\<lambda>t. case sessions s t of
                        None \<Rightarrow> None
                      | Some sess \<Rightarrow> if now < se_ExpiresAt sess then Some (persisted sess) else None)
      in case fault of Some e \<Rightarrow> (tbl, Inl e) | None \<Rightarrow> (valid, Inr ()))"

definition restored :: "go_time \<Rightarrow> dbSession \<Rightarrow> Session" where
  "restored now r = \<lparr>se_Token = dbs_Token r, se_Username = dbs_Username r, se_IPAddr = dbs_IPAddr r,
     se_CreatedAt = dbs_CreatedAt r, se_ExpiresAt = dbs_ExpiresAt r, se_LastSeenAt = now\<rparr>"

definition LoadFromDB :: "go_time \<Rightarrow> session_table \<Rightarrow> Store \<Rightarrow> Store" where
  "LoadFromDB now tbl s =
     s\<lparr>sessions := (\<lambda>t. case tbl t of
                        None \<Rightarrow> sessions s t
                      | Some r \<Rightarrow> if dbs_ExpiresAt r > now then Some (restored now r) else sessions s t)\<rparr>"

section \<open>What a request does to the store\<close>

text \<open>The store part of \<^verbatim>\<open>Middleware.Require\<close>; the handler sees the session through the same pointer that \<^verbatim>\<open>Touch\<close> updates.\<close>

definition useSession :: "go_time \<Rightarrow> string \<Rightarrow> Store \<Rightarrow> Store \<times> Session option" where
  "useSession now token s =
     (case Get now token s of
        (s1, None) \<Rightarrow> (s1, None)
      | (s1, Some sess) \<Rightarrow> (Touch now token s1, Some (sess\<lparr>se_LastSeenAt := now\<rparr>)))"

datatype store_op =
    OpCreate string string string
  | OpGet string
  | OpUse string
  | OpDelete string
  | OpDeleteAll
  | OpSweep

fun storeStep :: "go_time \<times> store_op \<Rightarrow> Store \<Rightarrow> Store" where
  "storeStep (now, OpCreate token user ip) s = Create now token user ip s"
| "storeStep (now, OpGet token) s = fst (Get now token s)"
| "storeStep (now, OpUse token) s = fst (useSession now token s)"
| "storeStep (now, OpDelete token) s = Delete token s"
| "storeStep (now, OpDeleteAll) s = DeleteAll s"
| "storeStep (now, OpSweep) s = store_Sweep now s"

section \<open>The specification\<close>

text \<open>
  What a login means, from the history alone (latest operation first): it was created and not deleted since, and every
  use came before its end and within four hours of the use before.
\<close>

fun login :: "duration \<Rightarrow> (go_time \<times> store_op) list \<Rightarrow> string \<Rightarrow> Session option" where
  "login d [] token = None"
| "login d ((now, OpCreate t user ip) # hist) token =
     (if t = token
      then Some \<lparr>se_Token = t, se_Username = user, se_IPAddr = ip, se_CreatedAt = now, se_ExpiresAt = now + d, se_LastSeenAt = now\<rparr>
      else login d hist token)"
| "login d ((now, OpGet t) # hist) token = login d hist token"
| "login d ((now, OpUse t) # hist) token =
     (case login d hist token of
        None \<Rightarrow> None
      | Some sess \<Rightarrow> if t = token \<and> \<not> dead now sess then Some (sess\<lparr>se_LastSeenAt := now\<rparr>) else Some sess)"
| "login d ((now, OpDelete t) # hist) token = (if t = token then None else login d hist token)"
| "login d ((now, OpDeleteAll) # hist) token = None"
| "login d ((now, OpSweep) # hist) token = login d hist token"

definition latest :: "(go_time \<times> store_op) list \<Rightarrow> go_time \<Rightarrow> bool" where
  "latest hist now \<longleftrightarrow> (\<forall>(t, opn) \<in> set hist. t \<le> now)"

definition liveLogin :: "duration \<Rightarrow> (go_time \<times> store_op) list \<Rightarrow> go_time \<Rightarrow> string \<Rightarrow> Session option" where
  "liveLogin d hist now token =
     (case login d hist token of None \<Rightarrow> None | Some sess \<Rightarrow> if dead now sess then None else Some sess)"

text \<open>The sessions of the store are those of the history, except for dead ones that may be gone.\<close>

definition storeRel :: "duration \<Rightarrow> Store \<Rightarrow> (go_time \<times> store_op) list \<Rightarrow> bool" where
  "storeRel d s hist \<longleftrightarrow> ttl s = d \<and> (\<forall>token. sessions s token = login d hist token
     \<or> sessions s token = None \<and> (\<forall>now. latest hist now \<longrightarrow> liveLogin d hist now token = None))"

lemma dead_mono: "dead now sess \<Longrightarrow> now \<le> now' \<Longrightarrow> dead now' sess"
  by (auto simp: dead_def)

lemma latest_Cons [simp]: "latest ((t, opn) # hist) now \<longleftrightarrow> t \<le> now \<and> latest hist now"
  by (auto simp: latest_def)

lemma latest_refl [simp]: "latest [] now"
  by (simp add: latest_def)

lemma liveLogin_None:
  "liveLogin d hist now token = None \<longleftrightarrow> (\<forall>sess. login d hist token = Some sess \<longrightarrow> dead now sess)"
  by (auto simp: liveLogin_def split: option.splits)

lemma storeRelI:
  assumes "ttl s = d" and "\<And>token. sessions s token = login d hist token
     \<or> sessions s token = None \<and> (\<forall>now. latest hist now \<longrightarrow> (\<forall>sess. login d hist token = Some sess \<longrightarrow> dead now sess))"
  shows "storeRel d s hist"
  using assms by (simp add: storeRel_def liveLogin_None)

lemma storeRelD:
  "storeRel d s hist \<Longrightarrow> sessions s token = login d hist token
     \<or> sessions s token = None \<and> (\<forall>now. latest hist now \<longrightarrow> (\<forall>sess. login d hist token = Some sess \<longrightarrow> dead now sess))"
  by (simp add: storeRel_def liveLogin_None)

lemma storeStep_ttl [simp]: "ttl (storeStep x s) = ttl s"
  by (cases x; cases "snd x")
    (auto simp: Create_def Get_def useSession_def Touch_def Delete_def DeleteAll_def store_Sweep_def split: option.splits)

lemmas store_defs = Create_def Get_def useSession_def Touch_def Delete_def DeleteAll_def store_Sweep_def

lemma storeStep_rel:
  assumes "storeRel d s hist" and "latest hist now"
  shows "storeRel d (storeStep (now, opn) s) ((now, opn) # hist)"
proof (rule storeRelI)
  fix token
  show "sessions (storeStep (now, opn) s) token = login d ((now, opn) # hist) token
    \<or> sessions (storeStep (now, opn) s) token = None \<and>
      (\<forall>now'. latest ((now, opn) # hist) now' \<longrightarrow> (\<forall>sess. login d ((now, opn) # hist) token = Some sess \<longrightarrow> dead now' sess))"
    using storeRelD [OF assms(1), of token] assms
    by (cases opn; cases "login d hist token"; cases "sessions s token")
      (auto simp: store_defs storeRel_def split: option.splits dest: dead_mono)
qed (use assms in \<open>simp add: storeRel_def\<close>)

interpretation store_sim: simulation "storeRel d" storeStep "(#)" "\<lambda>(now, opn) hist. latest hist now" for d
  by unfold_locales (auto intro: storeStep_rel)

lemma runs_enabled_sorted:
  "allowedRun (\<lambda>(now, opn) hist. latest hist now) (#) ops hist \<longleftrightarrow> sorted (map fst ops) \<and> (\<forall>x \<in> set ops. latest hist (fst x))"
proof (induction ops arbitrary: hist)
  case (Cons x ops)
  then show ?case by (cases x) (auto simp: latest_def)
qed simp

lemma fold_Cons_rev: "fold (#) xs ys = rev xs @ ys"
  by (induction xs arbitrary: ys) simp_all

lemma NewStore_rel: "storeRel d (NewStore d) []"
  by (simp add: storeRel_def NewStore_def)

section \<open>Properties\<close>

text \<open>
  C12. The session store refines its specification: after any sequence of operations in time order, from an empty store,
  \<^verbatim>\<open>Get\<close> answers with the session of a token exactly when the history says that the login is alive. When the hourly sweep
  runs, and what earlier calls of \<^verbatim>\<open>Get\<close> cleaned up, makes no difference.
\<close>

theorem sessions_refine_history:
  assumes "sorted (map fst ops)" and "\<forall>x \<in> set ops. fst x \<le> now"
  shows "snd (Get now token (fold storeStep ops (NewStore d))) = liveLogin d (rev ops) now token"
proof -
  have "storeRel d (fold storeStep ops (NewStore d)) (rev ops)"
    using store_sim.runs [OF NewStore_rel, of ops] assms(1) by (simp add: runs_enabled_sorted fold_Cons_rev)
  moreover have "latest (rev ops) now" using assms(2) by (auto simp: latest_def)
  ultimately show ?thesis
    using storeRelD [of d "fold storeStep ops (NewStore d)" "rev ops" token]
    by (cases "login d (rev ops) token"; cases "sessions (fold storeStep ops (NewStore d)) token") (auto simp: Get_def liveLogin_def)
qed

text \<open>
  Across a restart the sessions keep their owner, address and end of life: a session found after saving, starting
  afresh and loading was in the store when it was saved and has not expired. Its idle clock starts again.
\<close>

theorem sessions_survive_restart:
  assumes "PersistToDB saved None s tbl = (tbl', Inr ())" and "saved \<le> loaded"
  shows "sessions (LoadFromDB loaded tbl' (NewStore d)) token =
     (case sessions s token of
        None \<Rightarrow> None
      | Some sess \<Rightarrow> if loaded < se_ExpiresAt sess then Some (sess\<lparr>se_LastSeenAt := loaded\<rparr>) else None)"
  using assms
  by (cases "sessions s token") (auto simp: PersistToDB_def LoadFromDB_def NewStore_def persisted_def restored_def Let_def)

text \<open>
  Saving ignores the idle limit: a session that \<^verbatim>\<open>Get\<close> refuses because it was idle for more than four hours, but which nobody
  asked for since, is alive again after a restart.
\<close>

theorem idle_session_revived:
  assumes "sessions s token = Some sess" and "dead saved sess" and "saved \<le> loaded" and "loaded < se_ExpiresAt sess"
  shows "snd (Get saved token s) = None
     \<and> snd (Get loaded token (LoadFromDB loaded (fst (PersistToDB saved None s tbl)) (NewStore d))) \<noteq> None"
  using assms
  by (auto simp: PersistToDB_def LoadFromDB_def NewStore_def persisted_def restored_def Get_def Let_def dead_def defaultIdleTimeout_def hours_def)

section \<open>Witnesses\<close>

definition demoOps :: "(go_time \<times> store_op) list" where
  "demoOps = [(0, OpCreate ''t'' ''admin'' ''10.0.0.1''), (hours 3, OpUse ''t''), (hours 5, OpSweep), (hours 6, OpUse ''t'')]"

lemma sessions_refine_history_witness:
  "map_option se_LastSeenAt (snd (Get (hours 7) ''t'' (fold storeStep demoOps (NewStore (hours 24))))) = Some (hours 6)"
proof -
  have "sorted (map fst demoOps)" and "\<forall>x \<in> set demoOps. fst x \<le> hours 7" by (simp_all add: demoOps_def hours_def)
  from sessions_refine_history [OF this] show ?thesis
    by (simp add: demoOps_def liveLogin_def dead_def defaultIdleTimeout_def hours_def)
qed

definition idleStore :: Store where
  "idleStore = Create 0 ''t'' ''admin'' ''10.0.0.1'' (NewStore (hours 24))"

lemma sessions_survive_restart_witness:
  "map_option se_Username (sessions (LoadFromDB (hours 2) (fst (PersistToDB (hours 1) None idleStore Map.empty)) (NewStore (hours 24))) ''t'')
     = Some ''admin''"
proof -
  have "PersistToDB (hours 1) None idleStore Map.empty = (fst (PersistToDB (hours 1) None idleStore Map.empty), Inr ())"
    by (simp add: PersistToDB_def)
  moreover have "hours 1 \<le> hours 2" by (simp add: hours_def)
  ultimately have "sessions (LoadFromDB (hours 2) (fst (PersistToDB (hours 1) None idleStore Map.empty)) (NewStore (hours 24))) ''t'' =
    (case sessions idleStore ''t'' of None \<Rightarrow> None
     | Some sess \<Rightarrow> if hours 2 < se_ExpiresAt sess then Some (sess\<lparr>se_LastSeenAt := hours 2\<rparr>) else None)"
    by (rule sessions_survive_restart)
  then show ?thesis by (simp add: idleStore_def Create_def NewStore_def hours_def)
qed

lemma idle_session_revived_witness:
  "snd (Get (hours 5) ''t'' idleStore) = None
     \<and> snd (Get (hours 6) ''t'' (LoadFromDB (hours 6) (fst (PersistToDB (hours 5) None idleStore Map.empty)) (NewStore (hours 24)))) \<noteq> None"
  by (rule idle_session_revived [where sess = "\<lparr>se_Token = ''t'', se_Username = ''admin'', se_IPAddr = ''10.0.0.1'', se_CreatedAt = 0,
       se_ExpiresAt = hours 24, se_LastSeenAt = 0\<rparr>"])
    (simp_all add: idleStore_def Create_def NewStore_def dead_def defaultIdleTimeout_def hours_def)

end
