(* ===== verification/CachedScanners.thy ===== *)
theory CachedScanners
  imports ServiceScanners Sessions
begin

text \<open>
  The scanners that keep the answers of a service in a table: \<^verbatim>\<open>scanners/ipreputation.go\<close>, \<^verbatim>\<open>virustotal.go\<close> and \<^verbatim>\<open>nrdcheck.go\<close>. The contract of
  such a cache is a locale, interpreted by the three lookups. The services, the token bucket of \<^verbatim>\<open>golang.org/x/time/rate\<close> and
  the parsing and printing of dates are arguments; \<open>saved\<close> tells whether the write of a cache row succeeds.
\<close>

section \<open>The contract of a cache\<close>

text \<open>
  A lookup answers from a row that has not expired, and a lookup that succeeds leaves such a row behind. Two answers are the same up to
  the field that names where they come from.
\<close>

locale cached_lookup =
  fixes lookup :: "go_time \<Rightarrow> 'svc \<Rightarrow> 'k \<Rightarrow> ('k \<rightharpoonup> 'row) \<Rightarrow> ('k \<rightharpoonup> 'row) \<times> 'v result"
    and answer :: "'k \<Rightarrow> 'row \<Rightarrow> 'v" and expiry :: "'row \<Rightarrow> go_time" and same :: "'v \<Rightarrow> 'v \<Rightarrow> bool"
  assumes hit: "cache k = Some row \<Longrightarrow> now < expiry row \<Longrightarrow> lookup now svc k cache = (cache, Inr (answer k row))"
    and stored: "lookup now svc k cache = (cache', Inr v) \<Longrightarrow> \<exists>row. cache' k = Some row \<and> same (answer k row) v"
    and others: "k' \<noteq> k \<Longrightarrow> fst (lookup now svc k cache) k' = cache k'"
begin

lemma transparent:
  assumes "lookup now svc k cache = (cache', Inr v)" and "\<And>row. cache' k = Some row \<Longrightarrow> now' < expiry row"
  shows "\<exists>v'. lookup now' svc' k cache' = (cache', Inr v') \<and> same v' v"
proof -
  obtain row where "cache' k = Some row" "same (answer k row) v" using stored [OF assms(1)] by blast
  then show ?thesis using hit assms(2) by blast
qed

lemma other_fresh_rows_kept:
  assumes "k' \<noteq> k" and "cache k' = Some row" and "now' < expiry row"
  shows "lookup now' svc' k' (fst (lookup now svc k cache)) = (fst (lookup now svc k cache), Inr (answer k' row))"
  using hit [of "fst (lookup now svc k cache)" k' row now' svc'] others [OF assms(1)] assms(2,3) by simp

end

section \<open>Address reputation\<close>

record IPReputationCache =
  ic_AbuseScore :: int
  ic_TotalReports :: int
  ic_CountryCode :: string
  ic_ISP :: string
  ic_ExpiresAt :: go_time

definition marshalIPReputation :: "IPReputationResult \<Rightarrow> json" where
  "marshalIPReputation r = JObj ([(''ip'', JStr (ir_IP r)), (''abuse_score'', JNum (of_int (ir_AbuseScore r))),
     (''total_reports'', JNum (of_int (ir_TotalReports r)))] @ omitStr ''country_code'' (ir_CountryCode r) @ omitStr ''isp'' (ir_ISP r)
     @ [(''source'', JStr (ir_Source r))])"

definition fromCache :: "string \<Rightarrow> string \<Rightarrow> IPReputationCache \<Rightarrow> IPReputationResult" where
  "fromCache ip src c = \<lparr>ir_IP = ip, ir_AbuseScore = ic_AbuseScore c, ir_TotalReports = ic_TotalReports c,
     ir_CountryCode = ic_CountryCode c, ir_ISP = ic_ISP c, ir_Source = src\<rparr>"

text \<open>The service answers with the cached columns; the expiry of its answer is not used.\<close>

definition ipLookup :: "bool \<Rightarrow> go_time \<Rightarrow> (string \<Rightarrow> IPReputationCache http) \<Rightarrow> string \<Rightarrow> (string \<rightharpoonup> IPReputationCache)
    \<Rightarrow> (string \<rightharpoonup> IPReputationCache) \<times> IPReputationResult result" where
  "ipLookup saved now check ip cache =
     (case (case cache ip of Some c \<Rightarrow> if now < ic_ExpiresAt c then Some c else None | None \<Rightarrow> None) of
        Some c \<Rightarrow> (cache, Inr (fromCache ip ''cache'' c))
      | None \<Rightarrow>
          (case check ip of
             HttpErr e \<Rightarrow> (cache, Inl e)
           | HttpResp status body \<Rightarrow>
               if status \<noteq> 200 then (cache, Inl (''abuseipdb returned HTTP '' @ intStr status))
               else (case body of
                       None \<Rightarrow> (cache, Inl ''decode: '')
                     | Some a \<Rightarrow> ((if saved then cache(ip \<mapsto> a\<lparr>ic_ExpiresAt := now + hours 24\<rparr>) else cache), Inr (fromCache ip ''api'' a)))))"

definition reputationVerdict :: "int \<Rightarrow> string" where
  "reputationVerdict score = (if score \<ge> 75 then ''malicious'' else if score \<ge> 25 then ''suspicious'' else ''clean'')"

text \<open>\<open>ipString\<close> is \<^verbatim>\<open>net.IP.String\<close>.\<close>

definition IPReputation_Scan :: "bool \<Rightarrow> string \<Rightarrow> (ip \<Rightarrow> string) \<Rightarrow> go_time \<Rightarrow> bool \<Rightarrow> (string \<Rightarrow> IPReputationCache http)
    \<Rightarrow> (string \<rightharpoonup> IPReputationCache) \<Rightarrow> Email \<Rightarrow> (string \<rightharpoonup> IPReputationCache) \<times> ScanResult" where
  "IPReputation_Scan enabled apiKey ipString now saved check cache email =
     (if \<not> enabled then (cache, result ''ipreputation'' ''skip'' ''disabled'' None)
      else if apiKey = [] \<or> em_SenderIPs email = [] then (cache, result ''ipreputation'' ''skip'' [] None)
      else (let ip = ipString (hd (em_SenderIPs email)) in
            case ipLookup saved now check ip cache of
              (cache', Inl _) \<Rightarrow> (cache', result ''ipreputation'' ''skip'' ''unavailable'' None)
            | (cache', Inr r) \<Rightarrow>
                (cache', (result ''ipreputation'' (reputationVerdict (ir_AbuseScore r))
                   (''IP '' @ ip @ '' abuse score '' @ intStr (ir_AbuseScore r) @ ''/100 (source: '' @ ir_Source r @ '')'')
                   (Some (marshalIPReputation r)))\<lparr>sr_Score := of_int (ir_AbuseScore r)\<rparr>)))"


section \<open>VirusTotal\<close>

record VirusTotal =
  v_apiKey :: string
  v_enabled :: bool
  v_cacheTTL :: duration
  v_notFoundCacheTTL :: duration
  v_vtBaseURL :: string

definition NewVirusTotal :: "string \<Rightarrow> duration \<Rightarrow> duration \<Rightarrow> VirusTotal" where
  "NewVirusTotal apiKey cacheTTL notFoundTTL =
     \<lparr>v_apiKey = apiKey, v_enabled = True, v_cacheTTL = cacheTTL, v_notFoundCacheTTL = notFoundTTL, v_vtBaseURL = []\<rparr>"

record VTHashCache =
  vc_Positives :: int
  vc_Total :: int
  vc_FetchedAt :: go_time

record vtStats =
  vs_Malicious :: int
  vs_Suspicious :: int
  vs_Undetected :: int
  vs_Harmless :: int

definition vtTTL :: "VirusTotal \<Rightarrow> VTHashCache \<Rightarrow> duration" where
  "vtTTL v c = (if vc_Positives c = 0 \<and> vc_Total c = 0 then v_notFoundCacheTTL v else v_cacheTTL v)"

definition vtURL :: "VirusTotal \<Rightarrow> string \<Rightarrow> string" where
  "vtURL v sha256 = (if v_vtBaseURL v = [] then ''https://www.virustotal.com/api/v3'' else v_vtBaseURL v) @ ''/files/'' @ sha256"

definition lookupHash :: "VirusTotal \<Rightarrow> bool \<Rightarrow> go_time \<Rightarrow> (string \<Rightarrow> vtStats http) \<Rightarrow> string \<Rightarrow> (string \<rightharpoonup> VTHashCache)
    \<Rightarrow> (string \<rightharpoonup> VTHashCache) \<times> (int \<times> int \<times> string) result" where
  "lookupHash v saved now api sha256 cache =
     (case (case cache sha256 of Some c \<Rightarrow> if now - vc_FetchedAt c < vtTTL v c then Some c else None | None \<Rightarrow> None) of
        Some c \<Rightarrow> (cache, Inr (vc_Positives c, vc_Total c, ''cache''))
      | None \<Rightarrow>
          (case api (vtURL v sha256) of
             HttpErr e \<Rightarrow> (cache, Inl e)
           | HttpResp status body \<Rightarrow>
               (let save = (\<lambda>p t. if saved then cache(sha256 \<mapsto> \<lparr>vc_Positives = p, vc_Total = t, vc_FetchedAt = now\<rparr>) else cache)
                in if status = 404 then (save 0 0, Inr (0, 0, ''api''))
                   else if status \<noteq> 200 then (cache, Inl (''virustotal returned HTTP '' @ intStr status))
                   else (case body of
                           None \<Rightarrow> (cache, Inl ''decode: '')
                         | Some stats \<Rightarrow>
                             (let t = vs_Malicious stats + vs_Suspicious stats + vs_Undetected stats + vs_Harmless stats
                              in (save (vs_Malicious stats) t, Inr (vs_Malicious stats, t, ''api'')))))))"

text \<open>The loop over the attachments. \<open>allow\<close> answers the calls of the limiter in turn; None is the early return when it refuses.\<close>

fun vtLoop :: "VirusTotal \<Rightarrow> bool \<Rightarrow> go_time \<Rightarrow> (string \<Rightarrow> vtStats http) \<Rightarrow> (nat \<Rightarrow> bool) \<Rightarrow> nat \<Rightarrow> Attachment list \<Rightarrow> VTResult list
    \<Rightarrow> (string \<rightharpoonup> VTHashCache) \<Rightarrow> (string \<rightharpoonup> VTHashCache) \<times> VTResult list option" where
  "vtLoop v saved now api allow n [] acc cache = (cache, Some acc)"
| "vtLoop v saved now api allow n (att # atts) acc cache =
     (if \<not> at_IsDangerous att then vtLoop v saved now api allow n atts acc cache
      else if \<not> allow n then (cache, None)
      else (case lookupHash v saved now api (at_SHA256 att) cache of
              (cache', Inl e) \<Rightarrow> vtLoop v saved now api allow (Suc n) atts acc cache'
            | (cache', Inr (positives, tot, source)) \<Rightarrow>
                vtLoop v saved now api allow (Suc n) atts
                  (acc @ [\<lparr>vt_SHA256 = at_SHA256 att, vt_Filename = at_Filename att, vt_Positives = positives, vt_Total = tot,
                           vt_Permalink = [], vt_Source = source\<rparr>]) cache'))"

definition VirusTotal_Scan :: "VirusTotal \<Rightarrow> bool \<Rightarrow> go_time \<Rightarrow> (string \<Rightarrow> vtStats http) \<Rightarrow> (nat \<Rightarrow> bool) \<Rightarrow> (string \<rightharpoonup> VTHashCache) \<Rightarrow> Email
    \<Rightarrow> (string \<rightharpoonup> VTHashCache) \<times> ScanResult" where
  "VirusTotal_Scan v saved now api allow cache email =
     (if \<not> v_enabled v then (cache, result ''virustotal'' ''skip'' ''disabled'' None)
      else if v_apiKey v = [] \<or> em_Attachments email = [] then (cache, result ''virustotal'' ''skip'' [] None)
      else (case vtLoop v saved now api allow 0 (em_Attachments email) [] cache of
              (cache', None) \<Rightarrow> (cache', result ''virustotal'' ''skip'' ''VT rate limit queue full'' None)
            | (cache', Some vtResults) \<Rightarrow>
                (cache',
                 (let totalPositives = sum_list (map vt_Positives vtResults); matchData = Some (marshalList marshalVTResult vtResults)
                  in if totalPositives = 0 then result ''virustotal'' ''clean'' [] matchData
                     else (result ''virustotal'' (if totalPositives \<ge> 3 then ''malicious'' else ''suspicious'')
                             (''VirusTotal: '' @ intStr totalPositives @ '' engine(s) flagged attachment'') matchData)
                            \<lparr>sr_Score := of_int totalPositives\<rparr>))))"

section \<open>Newly registered domains\<close>

record NRDCheck =
  n_enabled :: bool
  n_maxAgeDays :: int
  n_cacheTTL :: duration
  n_failCacheTTL :: duration
  n_rdapBaseURL :: string

definition NewNRDCheck :: "bool \<Rightarrow> int \<Rightarrow> int \<Rightarrow> string \<Rightarrow> NRDCheck" where
  "NewNRDCheck NRDEnabled NRDMaxAgeDays NRDCacheTTLHours NRDRDAPBaseURL =
     \<lparr>n_enabled = (NRDEnabled \<and> hasPrefix NRDRDAPBaseURL ''https://''), n_maxAgeDays = NRDMaxAgeDays,
      n_cacheTTL = hours NRDCacheTTLHours, n_failCacheTTL = hours 1, n_rdapBaseURL = NRDRDAPBaseURL\<rparr>"

definition isValidDomain :: "string \<Rightarrow> bool" where
  "isValidDomain d \<longleftrightarrow> 0 < length d \<and> length d \<le> 253 \<and> list_all domainLabel (splitOn CHR ''.'' d)"

definition extractEmailDomain :: "string \<Rightarrow> string" where
  "extractEmailDomain addr0 =
     (let addr1 = trimSpace addr0;
          addr = (case lastIndexByte addr1 CHR ''<'' of
                    Some i \<Rightarrow> trimSuffix (trimSpace (drop (i + 1) addr1)) ''>''
                  | None \<Rightarrow> addr1)
      in case lastIndexByte addr CHR ''@'' of
           Some i \<Rightarrow> (let domain = toLower (drop (i + 1) addr) in if isValidDomain domain then domain else [])
         | None \<Rightarrow> [])"

record NRDCache =
  nc_RegistrationDate :: "go_time option"
  nc_LookupSuccess :: bool
  nc_ExpiresAt :: go_time

text \<open>\<^verbatim>\<open>time.Parse\<close> fails or gives a time, which may be the zero time.\<close>

type_synonym timeParse = "string \<Rightarrow> string \<Rightarrow> go_time option result"

definition parseRDAPDate :: "timeParse \<Rightarrow> string \<Rightarrow> go_time option" where
  "parseRDAPDate parseTime s =
     (case parseTime ''2006-01-02T15:04:05Z07:00'' s of
        Inr t \<Rightarrow> t
      | Inl _ \<Rightarrow> (case parseTime ''2006-01-02'' s of Inr t \<Rightarrow> t | Inl _ \<Rightarrow> None))"

fun registrationDate :: "timeParse \<Rightarrow> (string \<times> string) list \<Rightarrow> go_time option" where
  "registrationDate parseTime [] = None"
| "registrationDate parseTime ((action, date) # events) =
     (if equalFold action ''registration''
      then (case parseRDAPDate parseTime date of Some t \<Rightarrow> Some t | None \<Rightarrow> registrationDate parseTime events)
      else registrationDate parseTime events)"

text \<open>An answer carries the events; an inner None is malformed JSON, an outer one a body that cannot be read.\<close>

type_synonym rdap = "string \<Rightarrow> (string \<times> string) list option http"

definition rdapLookup :: "NRDCheck \<Rightarrow> timeParse \<Rightarrow> rdap \<Rightarrow> string \<Rightarrow> go_time option result" where
  "rdapLookup n parseTime get domain =
     (if \<not> isValidDomain domain then Inl (''nrdcheck: invalid domain '' @ domain)
      else (case get (n_rdapBaseURL n @ domain) of
              HttpErr e \<Rightarrow> Inl e
            | HttpResp status body \<Rightarrow>
                if status = 404 then Inr None
                else if status \<ge> 500 then Inl (''RDAP server error: HTTP '' @ intStr status @ '' for '' @ domain)
                else if status \<noteq> 200 then Inr None
                else (case body of
                        None \<Rightarrow> Inl ''read''
                      | Some None \<Rightarrow> Inr None
                      | Some (Some events) \<Rightarrow> Inr (registrationDate parseTime events))))"

definition checkDomain :: "NRDCheck \<Rightarrow> timeParse \<Rightarrow> bool \<Rightarrow> go_time \<Rightarrow> rdap \<Rightarrow> string \<Rightarrow> (string \<rightharpoonup> NRDCache)
    \<Rightarrow> (string \<rightharpoonup> NRDCache) \<times> go_time option result" where
  "checkDomain n parseTime saved now get domain cache =
     (case (case cache domain of Some c \<Rightarrow> if now < nc_ExpiresAt c then Some c else None | None \<Rightarrow> None) of
        Some c \<Rightarrow> (cache, Inr (if nc_LookupSuccess c then nc_RegistrationDate c else None))
      | None \<Rightarrow>
          (case rdapLookup n parseTime get domain of
             Inl e \<Rightarrow> (cache, Inl e)
           | Inr regDate \<Rightarrow>
               (let ttl = (if regDate = None then n_failCacheTTL n else n_cacheTTL n);
                    entry = \<lparr>nc_RegistrationDate = regDate, nc_LookupSuccess = (regDate \<noteq> None), nc_ExpiresAt = now + ttl\<rparr>
                in ((if saved then cache(domain \<mapsto> entry) else cache), Inr regDate))))"

text \<open>The domains in the order they are added, each once, with where it was found first.\<close>

fun addDomain :: "string \<Rightarrow> string \<Rightarrow> (string \<times> string) list \<Rightarrow> (string \<times> string) list" where
  "addDomain d src domains =
     (if d = [] \<or> toLower d \<in> fst ` set domains then domains else domains @ [(toLower d, src)])"

definition mailDomains :: "Email \<Rightarrow> (string \<times> string) list" where
  "mailDomains email =
     fold (\<lambda>u. addDomain (extractURLDomain u) ''url'') (em_URLs email) (addDomain (extractEmailDomain (em_From email)) ''from'' [])"

definition ageDays :: "go_time \<Rightarrow> go_time \<Rightarrow> int" where
  "ageDays now regDate = truncInt (of_int (now - regDate) / of_int (hours 24))"

fun nrdLoop :: "NRDCheck \<Rightarrow> timeParse \<Rightarrow> (go_time \<Rightarrow> string) \<Rightarrow> bool \<Rightarrow> go_time \<Rightarrow> rdap \<Rightarrow> (string \<times> string) list \<Rightarrow> (string \<rightharpoonup> NRDCache)
    \<Rightarrow> (string \<rightharpoonup> NRDCache) \<times> NRDHit list" where
  "nrdLoop n parseTime RFC3339 saved now get [] cache = (cache, [])"
| "nrdLoop n parseTime RFC3339 saved now get ((domain, source) # ds) cache =
     (case checkDomain n parseTime saved now get domain cache of
        (cache', r) \<Rightarrow>
          (case nrdLoop n parseTime RFC3339 saved now get ds cache' of
             (cache'', hits) \<Rightarrow>
               (cache'',
                (case r of
                   Inr (Some regDate) \<Rightarrow>
                     if ageDays now regDate \<le> n_maxAgeDays n
                     then \<lparr>nh_Domain = domain, nh_RegistrationDate = RFC3339 regDate, nh_AgeDays = ageDays now regDate, nh_Source = source\<rparr> # hits
                     else hits
                 | _ \<Rightarrow> hits))))"

definition NRDCheck_Scan :: "NRDCheck \<Rightarrow> timeParse \<Rightarrow> (go_time \<Rightarrow> string) \<Rightarrow> bool \<Rightarrow> go_time \<Rightarrow> rdap \<Rightarrow> (string \<rightharpoonup> NRDCache) \<Rightarrow> Email
    \<Rightarrow> (string \<rightharpoonup> NRDCache) \<times> ScanResult" where
  "NRDCheck_Scan n parseTime RFC3339 saved now get cache email =
     (if \<not> n_enabled n then (cache, result ''nrdcheck'' ''skip'' ''disabled'' None)
      else (case nrdLoop n parseTime RFC3339 saved now get (mailDomains email) cache of
              (cache', hits) \<Rightarrow>
                (cache',
                 if hits = [] then result ''nrdcheck'' ''clean'' [] None
                 else (result ''nrdcheck'' ''suspicious''
                        (clip500 (strJoin (map (\<lambda>h. nh_Domain h @ '' ('' @ intStr (nh_AgeDays h) @ ''d old)'') hits) '', ''))
                        (Some (JArr (map marshalNRDHit hits))))\<lparr>sr_Score := 3 / 5\<rparr>)))"

section \<open>The lookups meet the contract of a cache\<close>

interpretation ip_cache: cached_lookup "ipLookup True" "\<lambda>ip c. fromCache ip ''cache'' c" ic_ExpiresAt
  "\<lambda>r r'. r\<lparr>ir_Source := []\<rparr> = r'\<lparr>ir_Source := []\<rparr>"
  by unfold_locales
    (auto simp: ipLookup_def fromCache_def split: option.splits if_splits http.splits)

definition vtExpiry :: "VirusTotal \<Rightarrow> VTHashCache \<Rightarrow> go_time" where
  "vtExpiry v c = vc_FetchedAt c + vtTTL v c"

interpretation vt_cache: cached_lookup "lookupHash v True" "\<lambda>sha c. (vc_Positives c, vc_Total c, ''cache'')" "vtExpiry v"
  "\<lambda>(p, t, _) (p', t', _). p = p' \<and> t = t'" for v
  by unfold_locales
    (auto simp: lookupHash_def vtExpiry_def Let_def split: option.splits if_splits http.splits)

interpretation nrd_cache: cached_lookup "checkDomain n parseTime True" "\<lambda>d c. if nc_LookupSuccess c then nc_RegistrationDate c else None"
  nc_ExpiresAt "(=)" for n parseTime
  by unfold_locales
    (auto simp: checkDomain_def Let_def split: option.splits if_splits sum.splits)

section \<open>The scanners meet the contract\<close>

interpretation ipreputation: scanner "''ipreputation''" "\<lambda>e. snd (IPReputation_Scan enabled apiKey ipString now saved check cache e)"
  for enabled apiKey ipString now saved check cache
  by unfold_locales
    (auto simp: IPReputation_Scan_def reputationVerdict_def scanVerdicts_def Let_def split: prod.splits sum.splits)

interpretation virustotal: scanner "''virustotal''" "\<lambda>e. snd (VirusTotal_Scan v saved now api allow cache e)" for v saved now api allow cache
  by unfold_locales (auto simp: VirusTotal_Scan_def scanVerdicts_def Let_def split: prod.splits option.splits)

interpretation nrdcheck: scanner "''nrdcheck''" "\<lambda>e. snd (NRDCheck_Scan n parseTime RFC3339 saved now get cache e)"
  for n parseTime RFC3339 saved now get cache
  by unfold_locales (auto simp: NRDCheck_Scan_def scanVerdicts_def split: prod.splits)

section \<open>VirusTotal: lifetimes and the rate limit\<close>

lemma lookupHash_miss:
  assumes "\<And>c. cache sha256 = Some c \<Longrightarrow> vtTTL v c \<le> now - vc_FetchedAt c"
  shows "snd (lookupHash v saved now api sha256 cache) = snd (lookupHash v saved now api sha256 Map.empty)"
    and "lookupHash v True now api sha256 cache = (cache', Inr (p, t, src)) \<Longrightarrow>
      cache' sha256 = Some \<lparr>vc_Positives = p, vc_Total = t, vc_FetchedAt = now\<rparr>"
  using assms
  by (auto simp: lookupHash_def Let_def not_less [symmetric] split: option.splits if_splits http.splits)

text \<open>
  The lifetime of a cached hash answer: after an answer from the service, the same answer is given from the table until its lifetime
  has passed, the shorter one for a hash the service does not know, whatever the service would say by then; and from that moment on the
  service decides again.
\<close>

theorem vt_cache_lifetime:
  assumes "lookupHash v True now api sha256 Map.empty = (cache, Inr (p, t, src))"
    and "life = (if p = 0 \<and> t = 0 then v_notFoundCacheTTL v else v_cacheTTL v)"
  shows "if now' - now < life then lookupHash v True now' api' sha256 cache = (cache, Inr (p, t, ''cache''))
    else snd (lookupHash v True now' api' sha256 cache) = snd (lookupHash v True now' api' sha256 Map.empty)"
proof -
  let ?row = "\<lparr>vc_Positives = p, vc_Total = t, vc_FetchedAt = now\<rparr>"
  have row: "cache sha256 = Some ?row" using lookupHash_miss(2) [OF _ assms(1)] by simp
  have life: "vtTTL v ?row = life" using assms(2) by (simp add: vtTTL_def)
  show ?thesis
    using vt_cache.hit [where cache = cache and k = sha256 and row = ?row and now = now' and v = v and svc = api'] lookupHash_miss(1) [of cache sha256 v now' True api'] row life
    by (simp add: vtExpiry_def)
qed

lemma vtLoop_refused:
  assumes "\<not> allow k" and "n \<le> k" and "k < n + length (filter at_IsDangerous atts)"
  shows "snd (vtLoop v saved now api allow n atts acc cache) = None"
  using assms(2,3)
proof (induction atts arbitrary: n acc cache)
  case (Cons att atts)
  show ?case
  proof (cases "at_IsDangerous att \<and> allow n")
    case True
    then have "Suc n \<le> k" "k < Suc n + length (filter at_IsDangerous atts)" using Cons.prems assms(1) le_Suc_eq by force+
    then show ?thesis using True Cons.IH by (auto split: prod.splits sum.splits)
  qed (use Cons in auto)
qed simp

text \<open>
  The rate limit costs detections: the bucket holds one token, so its second call within fifteen seconds is refused. A message with two or
  more dangerous attachments is then reported as skipped, even when the first of them is known malware.
\<close>

theorem vt_second_attachment_skips:
  assumes "v_enabled v" and "v_apiKey v \<noteq> []" and "2 \<le> length (filter at_IsDangerous (em_Attachments e))" and "\<not> allow 1"
  shows "sr_Verdict (snd (VirusTotal_Scan v saved now api allow cache e)) = ''skip''"
proof -
  have "em_Attachments e \<noteq> []" using assms(3) by auto
  moreover have "snd (vtLoop v saved now api allow 0 (em_Attachments e) [] cache) = None"
    using vtLoop_refused [of allow 1 0] assms(3,4) by simp
  ultimately show ?thesis using assms(1,2) by (auto simp: VirusTotal_Scan_def split: prod.splits)
qed

section \<open>Domain checks: requests and cache\<close>

definition ldhChar :: "char \<Rightarrow> bool" where
  "ldhChar c \<longleftrightarrow> isAlnum c \<or> c = CHR ''-'' \<or> c = CHR ''.''"

lemma splitOn_chars: "c \<in> set s \<Longrightarrow> c = sep \<or> (\<exists>l \<in> set (splitOn sep s). c \<in> set l)"
  by (induction sep s rule: splitOn.induct) (auto split: list.splits)

lemma isValidDomain_chars: "isValidDomain d \<Longrightarrow> d \<noteq> [] \<and> length d \<le> 253 \<and> list_all ldhChar d"
  using splitOn_chars [of _ d "CHR ''.''"]
  by (fastforce simp: isValidDomain_def domainLabel_def list_all_iff ldhChar_def)

lemma rdapLookup_confined:
  assumes "\<And>d. d \<noteq> [] \<Longrightarrow> length d \<le> 253 \<Longrightarrow> list_all ldhChar d \<Longrightarrow> get (n_rdapBaseURL n @ d) = get' (n_rdapBaseURL n @ d)"
  shows "rdapLookup n parseTime get = rdapLookup n parseTime get'"
  using assms isValidDomain_chars by (intro ext) (simp add: rdapLookup_def)

lemma nrdLoop_cong:
  assumes "rdapLookup n parseTime get = rdapLookup n parseTime get'"
  shows "nrdLoop n parseTime RFC3339 saved now get ds cache = nrdLoop n parseTime RFC3339 saved now get' ds cache"
proof -
  have "checkDomain n parseTime saved now get d c = checkDomain n parseTime saved now get' d c" for d c
    by (simp only: checkDomain_def assms)
  then show ?thesis by (induction ds arbitrary: cache) auto
qed

text \<open>
  The domain check cannot be steered to another resource: whatever addresses and links a message carries, the only URLs requested are
  the configured base followed by at most 253 letters, digits, hyphens and dots. Two services that agree on those give the
  same scan; nothing else they serve is ever asked for.
\<close>

theorem nrd_requests_confined:
  assumes "\<And>d. d \<noteq> [] \<Longrightarrow> length d \<le> 253 \<Longrightarrow> list_all ldhChar d \<Longrightarrow> get (n_rdapBaseURL n @ d) = get' (n_rdapBaseURL n @ d)"
  shows "NRDCheck_Scan n parseTime RFC3339 saved now get cache e = NRDCheck_Scan n parseTime RFC3339 saved now get' cache e"
proof -
  have "rdapLookup n parseTime get = rdapLookup n parseTime get'" by (rule rdapLookup_confined) (rule assms)
  from nrdLoop_cong [OF this] show ?thesis by (simp add: NRDCheck_Scan_def)
qed

text \<open>A cache that agrees with the registry: every row that has not expired holds what the registry would answer.\<close>

definition cacheAgrees :: "NRDCheck \<Rightarrow> timeParse \<Rightarrow> go_time \<Rightarrow> rdap \<Rightarrow> (string \<rightharpoonup> NRDCache) \<Rightarrow> bool" where
  "cacheAgrees n parseTime now get cache \<longleftrightarrow>
     (\<forall>d row. cache d = Some row \<and> now < nc_ExpiresAt row \<longrightarrow>
        rdapLookup n parseTime get d = Inr (if nc_LookupSuccess row then nc_RegistrationDate row else None))"

lemma checkDomain_agrees:
  assumes "cacheAgrees n parseTime now get cache"
  shows "snd (checkDomain n parseTime saved now get d cache) = rdapLookup n parseTime get d
    \<and> cacheAgrees n parseTime now get (fst (checkDomain n parseTime saved now get d cache))"
proof (cases "\<exists>row. cache d = Some row \<and> now < nc_ExpiresAt row")
  case True
  then obtain row where row: "cache d = Some row" "now < nc_ExpiresAt row" by blast
  then have "rdapLookup n parseTime get d = Inr (if nc_LookupSuccess row then nc_RegistrationDate row else None)"
    using assms unfolding cacheAgrees_def by blast
  then show ?thesis using row assms by (simp add: checkDomain_def)
next
  case False
  with assms show ?thesis
    by (auto simp: checkDomain_def cacheAgrees_def Let_def split: option.splits sum.splits)
qed

lemma nrdLoop_cacheless:
  assumes "cacheAgrees n parseTime now get cache" and "cacheAgrees n parseTime now get cache'"
  shows "snd (nrdLoop n parseTime RFC3339 saved now get ds cache) = snd (nrdLoop n parseTime RFC3339 saved' now get ds cache')"
  using assms
proof (induction ds arbitrary: cache cache')
  case (Cons d ds)
  note a = checkDomain_agrees [OF Cons.prems(1), of saved "fst d"] checkDomain_agrees [OF Cons.prems(2), of saved' "fst d"]
  show ?case using a Cons.IH [OF a(1) [THEN conjunct2] a(2) [THEN conjunct2]]
    by (cases d) (auto split: prod.splits)
qed simp

text \<open>
  The cache of registration dates is only an optimisation: as long as its unexpired rows hold what the registry answers, a scan reports the
  same with the cache as without one, and the rows it writes on the way keep that so.
\<close>

theorem nrd_cache_equivalence:
  assumes "cacheAgrees n parseTime now get cache"
  shows "snd (NRDCheck_Scan n parseTime RFC3339 saved now get cache e)
    = snd (NRDCheck_Scan n parseTime RFC3339 False now get Map.empty e)"
proof -
  have "cacheAgrees n parseTime now get Map.empty" by (simp add: cacheAgrees_def)
  from nrdLoop_cacheless [OF assms this, of RFC3339 saved "mailDomains e" False] show ?thesis
    by (simp only: NRDCheck_Scan_def case_prod_unfold snd_conv if_distrib [of snd] cong: if_cong)
qed

section \<open>Witnesses\<close>

definition demoVT :: VirusTotal where
  "demoVT = NewVirusTotal ''key'' (hours 24) (hours 1)"

definition demoAPI :: "string \<Rightarrow> vtStats http" where
  "demoAPI u = HttpResp 200 (Some \<lparr>vs_Malicious = 60, vs_Suspicious = 0, vs_Undetected = 10, vs_Harmless = 0\<rparr>)"

lemma vt_cache_lifetime_witness:
  "lookupHash demoVT True (hours 23) (\<lambda>_. HttpErr ''down'') ''aa'' (fst (lookupHash demoVT True 0 demoAPI ''aa'' Map.empty))
   = (fst (lookupHash demoVT True 0 demoAPI ''aa'' Map.empty), Inr (60, 70, ''cache''))"
proof -
  have "lookupHash demoVT True 0 demoAPI ''aa'' Map.empty =
      ([''aa'' \<mapsto> \<lparr>vc_Positives = 60, vc_Total = 70, vc_FetchedAt = 0\<rparr>], Inr (60, 70, ''api''))"
    by (simp add: lookupHash_def demoAPI_def)
  from vt_cache_lifetime [OF this refl, of "hours 23" "\<lambda>_. HttpErr ''down''"] this show ?thesis
    by (simp add: demoVT_def NewVirusTotal_def hours_def)
qed

definition dangerousAtt :: Attachment where
  "dangerousAtt = \<lparr>at_Filename = ''a.exe'', at_ContentType = ''application/x-msdownload'', at_SHA256 = ''aa'',
     at_Extension = ''.exe'', at_SizeBytes = 1, at_IsDangerous = True, at_Raw = ''x''\<rparr>"

lemma vt_second_attachment_skips_witness:
  "sr_Verdict (snd (VirusTotal_Scan demoVT True 0 demoAPI (\<lambda>n. n = 0) Map.empty
     (authPassEmail\<lparr>em_Attachments := [dangerousAtt, dangerousAtt]\<rparr>))) = ''skip''"
  by (rule vt_second_attachment_skips) (simp_all add: demoVT_def NewVirusTotal_def dangerousAtt_def)

definition demoNRD :: NRDCheck where
  "demoNRD = NewNRDCheck True 30 24 ''https://rdap.org/domain/''"

lemma nrd_requests_confined_witness:
  "NRDCheck_Scan demoNRD (\<lambda>_ _. Inl []) (\<lambda>_. []) True 0 (\<lambda>u. HttpResp 404 None) Map.empty authPassEmail
   = NRDCheck_Scan demoNRD (\<lambda>_ _. Inl []) (\<lambda>_. []) True 0
       (\<lambda>u. if u = ''http://internal/'' then HttpResp 200 None else HttpResp 404 None) Map.empty authPassEmail"
  by (rule nrd_requests_confined) (simp add: demoNRD_def NewNRDCheck_def)

definition youngRegistry :: rdap where
  "youngRegistry u = HttpResp 200 (Some (Some [(''registration'', ''d'')]))"

lemma nrd_cache_equivalence_witness:
  "snd (NRDCheck_Scan demoNRD (\<lambda>_ _. Inr (Some 0)) (\<lambda>_. []) True 1 youngRegistry
      [''a.b'' \<mapsto> \<lparr>nc_RegistrationDate = Some 0, nc_LookupSuccess = True, nc_ExpiresAt = 5\<rparr>] authPassEmail)
   = snd (NRDCheck_Scan demoNRD (\<lambda>_ _. Inr (Some 0)) (\<lambda>_. []) False 1 youngRegistry Map.empty authPassEmail)"
proof (rule nrd_cache_equivalence)
  have "isValidDomain ''a.b''" by code_simp
  then show "cacheAgrees demoNRD (\<lambda>_ _. Inr (Some 0)) 1 youngRegistry
      [''a.b'' \<mapsto> \<lparr>nc_RegistrationDate = Some 0, nc_LookupSuccess = True, nc_ExpiresAt = 5\<rparr>]"
    by (simp add: cacheAgrees_def rdapLookup_def youngRegistry_def parseRDAPDate_def equalFold_def)
qed

end
