(* ===== verification/RateLimit.thy ===== *)
theory RateLimit
  imports Sessions
begin

text \<open>
  The login rate limiter of \<^verbatim>\<open>app/auth/ratelimit.go\<close>: a fixed window of five minutes per address, five recorded failures per
  window, then a lockout of fifteen minutes. \<^verbatim>\<open>Allow\<close> and \<^verbatim>\<open>Record\<close> are separate critical sections, with the comparison of the
  password between them, so the bound on guesses depends on how many requests are in flight at once.
\<close>

section \<open>The limiter\<close>

record bucket =
  bk_count :: nat
  bk_windowStart :: go_time
  bk_lockedUntil :: "go_time option"

type_synonym limiter = "string \<rightharpoonup> bucket"

definition minutes :: "int \<Rightarrow> duration" where
  "minutes n = n * 60 * 10 ^ 9"

definition freshBucket :: "go_time \<Rightarrow> bucket" where
  "freshBucket now = \<lparr>bk_count = 0, bk_windowStart = now, bk_lockedUntil = None\<rparr>"

definition NewLoginRateLimiter :: limiter where
  "NewLoginRateLimiter = Map.empty"

definition lockActive :: "go_time \<Rightarrow> bucket \<Rightarrow> bool" where
  "lockActive now b \<longleftrightarrow> (case bk_lockedUntil b of None \<Rightarrow> False | Some u \<Rightarrow> now < u)"

definition Allow :: "go_time \<Rightarrow> string \<Rightarrow> limiter \<Rightarrow> limiter \<times> bool \<times> duration" where
  "Allow now ip l =
     (case l ip of
        None \<Rightarrow> (l(ip \<mapsto> freshBucket now), True, 0)
      | Some b \<Rightarrow>
          if lockActive now b then (l, False, the (bk_lockedUntil b) - now)
          else (let b1 = (if now - bk_windowStart b > minutes 5 then freshBucket now else b)
                in if bk_count b1 \<ge> 5
                   then (l(ip \<mapsto> b1\<lparr>bk_lockedUntil := Some (now + minutes 15)\<rparr>), False, minutes 15)
                   else (l(ip \<mapsto> b1), True, 0)))"

definition Record :: "go_time \<Rightarrow> string \<Rightarrow> limiter \<Rightarrow> limiter" where
  "Record now ip l =
     (case l ip of
        None \<Rightarrow> l(ip \<mapsto> (freshBucket now)\<lparr>bk_count := 1\<rparr>)
      | Some b \<Rightarrow> l(ip \<mapsto> b\<lparr>bk_count := Suc (bk_count b)\<rparr>))"

definition staleBucket :: "go_time \<Rightarrow> bucket \<Rightarrow> bool" where
  "staleBucket now b \<longleftrightarrow> (case bk_lockedUntil b of
     None \<Rightarrow> now - bk_windowStart b > minutes 30
   | Some u \<Rightarrow> now > u + minutes 30)"

definition limiter_Sweep :: "go_time \<Rightarrow> limiter \<Rightarrow> limiter" where
  "limiter_Sweep now l = (\<lambda>ip. case l ip of None \<Rightarrow> None | Some b \<Rightarrow> if staleBucket now b then None else Some b)"

section \<open>How many guesses a limiter lets through\<close>

text \<open>
  Requests between their call of \<^verbatim>\<open>Allow\<close> and the answer are in flight; a wrong password is recorded when it is answered. A bucket is recent when its window
  started at or after \<open>t0\<close>: in the five minutes from \<open>t0\<close> it is neither renewed nor swept.
\<close>

definition recent :: "go_time \<Rightarrow> bucket \<Rightarrow> bool" where
  "recent t0 b \<longleftrightarrow> t0 \<le> bk_windowStart b \<and> (case bk_lockedUntil b of None \<Rightarrow> True | Some u \<Rightarrow> t0 + minutes 15 \<le> u)"

text \<open>
  How many wrong passwords can still be answered under the window of the bucket, with \<open>n\<close> requests in flight now and never more than \<open>k\<close>: below five failures
  another request may be let in; from five failures on only the requests in flight remain.
\<close>

definition room :: "nat \<Rightarrow> nat \<Rightarrow> bucket \<Rightarrow> nat" where
  "room k n b = (if bk_count b < 5 then 4 - bk_count b + k else n)"

text \<open>The same until five minutes after \<open>t0\<close>: an older window can be renewed once.\<close>

definition budget :: "go_time \<Rightarrow> nat \<Rightarrow> nat \<Rightarrow> bucket option \<Rightarrow> nat" where
  "budget t0 k n bo = (case bo of None \<Rightarrow> k + 4 | Some b \<Rightarrow> if recent t0 b then room k n b else room k n b + (k + 4))"

lemma budget_mono: "n' \<le> n \<Longrightarrow> budget t0 k n' bo \<le> budget t0 k n bo"
  by (simp add: budget_def room_def split: option.split)

lemma budget_bound: "n \<le> k \<Longrightarrow> budget t0 k n bo \<le> 2 * (k + 4)" "budget t0 k n None = k + 4"
  by (auto simp: budget_def room_def split: option.split)

lemma budget_fresh: "t0 \<le> now \<Longrightarrow> budget t0 k n (Some (freshBucket now)) = k + 4"
  by (simp add: budget_def recent_def room_def freshBucket_def)

lemma budget_old: "\<not> recent t0 b \<Longrightarrow> k + 4 \<le> budget t0 k n (Some b)"
  by (simp add: budget_def)

lemma Allow_other: "ip' \<noteq> ip \<Longrightarrow> fst (Allow now ip l) ip' = l ip'"
  by (simp add: Allow_def Let_def split: option.split)

lemma Record_other: "ip' \<noteq> ip \<Longrightarrow> Record now ip l ip' = l ip'"
  by (simp add: Record_def split: option.split)

text \<open>Letting a request in does not raise the budget, whatever the window.\<close>

lemma Allow_budget:
  assumes "Allow now ip l = (l', ok, wait)" and "t0 \<le> now" and "now \<le> t0 + minutes 5"
  shows "budget t0 k (if ok then Suc n else n) (l' ip) \<le> budget t0 k n (l ip)"
proof (cases "l ip")
  case None
  with assms show ?thesis by (auto simp: Allow_def budget_fresh budget_bound(2))
next
  case (Some b)
  show ?thesis
  proof (cases "\<not> lockActive now b \<and> now - bk_windowStart b > minutes 5")
    case True
    then have "\<not> recent t0 b" using assms(3) by (auto simp: recent_def)
    moreover have "l' ip = Some (freshBucket now)" using True assms(1) Some by (auto simp: Allow_def freshBucket_def Let_def)
    ultimately show ?thesis using Some budget_old [of t0 b k n] budget_fresh [OF assms(2), of k] by simp
  next
    case False
    then consider (locked) "l' = l" "\<not> ok" | (full) "l' ip = Some (b\<lparr>bk_lockedUntil := Some (now + minutes 15)\<rparr>)" "\<not> ok"
      | (passed) "l' ip = Some b" "bk_count b < 5"
      using assms(1) Some by (auto simp: Allow_def Let_def split: if_splits)
    then show ?thesis
    proof cases
      case full
      have "recent t0 b \<Longrightarrow> recent t0 (b\<lparr>bk_lockedUntil := Some (now + minutes 15)\<rparr>)" using assms(2) by (simp add: recent_def)
      with full Some show ?thesis by (auto simp: budget_def room_def)
    qed (simp_all add: Some budget_def room_def)
  qed
qed

text \<open>Recording a wrong password of a request in flight pays for it.\<close>

lemma Record_budget:
  assumes "t0 \<le> now" and "Suc n \<le> k"
  shows "Suc (budget t0 k n (Record now ip l ip)) \<le> budget t0 k (Suc n) (l ip)"
proof (cases "l ip")
  case None
  with assms(1) show ?thesis by (simp add: Record_def budget_def recent_def room_def freshBucket_def)
next
  case (Some b)
  have r: "recent t0 (b\<lparr>bk_count := c\<rparr>) = recent t0 b" for c by (simp add: recent_def)
  have "Suc (room k n (b\<lparr>bk_count := Suc (bk_count b)\<rparr>)) \<le> room k (Suc n) b" using assms(2) by (auto simp: room_def)
  with Some show ?thesis by (simp add: Record_def budget_def r)
qed

lemma Sweep_budget:
  assumes "now \<le> t0 + minutes 5"
  shows "budget t0 k n (limiter_Sweep now l ip) \<le> budget t0 k n (l ip)"
proof (cases "l ip")
  case (Some b)
  have "\<not> recent t0 b" if "staleBucket now b" using that assms by (auto simp: recent_def staleBucket_def minutes_def split: option.splits)
  with Some show ?thesis using budget_old [of t0 b k n] by (auto simp: limiter_Sweep_def budget_bound(2))
qed (simp add: limiter_Sweep_def)

section \<open>Properties\<close>

text \<open>
  After five recorded failures in a window the next attempt is refused and starts a lockout: every attempt of the fifteen minutes
  that follow is refused too, and the address is free again when they are over.
\<close>

theorem lockout_lasts:
  assumes "l ip = Some b" and "bk_count b \<ge> 5" and "\<not> lockActive now b" and "now - bk_windowStart b \<le> minutes 5"
    and "bk_windowStart b \<le> now"
  shows "case Allow now ip l of (l1, ok, retry) \<Rightarrow> \<not> ok \<and> retry = minutes 15
     \<and> (fst (snd (Allow t ip l1)) \<longleftrightarrow> t \<ge> now + minutes 15)"
  using assms by (auto simp: Allow_def lockActive_def freshBucket_def minutes_def Let_def split: option.splits)

section \<open>Witnesses\<close>

lemma lockout_lasts_witness:
  "case Allow 10 ''a'' [''a'' \<mapsto> (freshBucket 0)\<lparr>bk_count := 5\<rparr>] of
     (l1, ok, retry) \<Rightarrow> \<not> ok \<and> retry = minutes 15 \<and> (fst (snd (Allow (minutes 16) ''a'' l1)) \<longleftrightarrow> minutes 16 \<ge> 10 + minutes 15)"
  by (rule lockout_lasts [where b = "(freshBucket 0)\<lparr>bk_count := 5\<rparr>"]) (simp_all add: freshBucket_def lockActive_def minutes_def)

end
