(* ===== verification/Middleware.thy ===== *)
theory Middleware
  imports RateLimit NetIP
begin

text \<open>
  The web middleware and the login handler (\<^verbatim>\<open>app/auth/middleware.go\<close>, \<^verbatim>\<open>app/web/handlers/auth.go\<close>): the address of the client
  behind trusted proxies, signed double-submit CSRF tokens, the session check in front of protected handlers,
  login and logout. HMAC-SHA256, bcrypt and the random source are arguments.
\<close>

section \<open>Requests and responses\<close>

record Request =
  rq_Path :: string
  rq_RemoteAddr :: string
  rq_Header :: "string \<Rightarrow> string"          \<comment> \<open>\<^verbatim>\<open>Header.Get\<close>: empty when absent\<close>
  rq_Cookie :: "string \<rightharpoonup> string"
  rq_Form :: "string \<Rightarrow> string"             \<comment> \<open>\<^verbatim>\<open>FormValue\<close>: empty when absent\<close>
  rq_Query :: "string \<Rightarrow> string"

record Cookie =
  ck_Name :: string
  ck_Value :: string
  ck_MaxAge :: int
  ck_HttpOnly :: bool
  ck_Secure :: bool
  ck_SameSiteStrict :: bool

datatype reply = RedirectTo string | JSONReply int string | LoginPage string

record Response =
  rs_reply :: reply
  rs_cookies :: "Cookie list"

type_synonym bytes = "8 word list"
type_synonym hmac = "bytes \<Rightarrow> bytes \<Rightarrow> bytes"   \<comment> \<open>key, message\<close>

record Middleware =
  mw_trustedProxies :: "IPNet list"
  mw_csrfSecret :: bytes
  mw_secureCookies :: bool

definition sessionCookieName :: string where "sessionCookieName = ''mailhook_session''"
definition csrfCookieName :: string where "csrfCookieName = ''mailhook_csrf''"
definition csrfHeaderName :: string where "csrfHeaderName = ''X-CSRF-Token''"
definition csrfFormField :: string where "csrfFormField = ''_csrf''"

definition NewMiddleware :: "string list \<Rightarrow> bytes \<Rightarrow> bool \<Rightarrow> Middleware" where
  "NewMiddleware trustedCIDRs secret secure =
     \<lparr>mw_trustedProxies = List.map_filter ParseCIDR trustedCIDRs, mw_csrfSecret = secret, mw_secureCookies = secure\<rparr>"

section \<open>Packages encoding/hex and net\<close>

definition hexDigit :: "nat \<Rightarrow> char" where
  "hexDigit n = (if n < 10 then char_of (48 + n) else char_of (87 + n))"

definition hexEncode :: "bytes \<Rightarrow> string" where
  "hexEncode b = concat (map (\<lambda>x. [hexDigit (unat x div 16), hexDigit (unat x mod 16)]) b)"

fun hexDecode :: "string \<Rightarrow> bytes option" where
  "hexDecode [] = Some []"
| "hexDecode [c] = None"
| "hexDecode (c # d # cs) =
     (if isHex c \<and> isHex d
      then (case hexDecode cs of None \<Rightarrow> None | Some b \<Rightarrow> Some (of_nat (16 * unhex c + unhex d) # b))
      else None)"

definition SplitHostPort :: "string \<Rightarrow> (string \<times> string) option" where
  "SplitHostPort hp =
     (case lastIndexByte hp CHR '':'' of
        None \<Rightarrow> None
      | Some i \<Rightarrow>
          (if hp ! 0 = CHR ''[''
           then (case indexByte hp CHR '']'' of
                   None \<Rightarrow> None
                 | Some e \<Rightarrow>
                     if Suc e \<noteq> i \<or> CHR ''['' \<in> set (drop 1 hp) \<or> CHR '']'' \<in> set (drop (Suc e) hp) then None
                     else Some (drop 1 (take e hp), drop (Suc i) hp))
           else if CHR '':'' \<in> set (take i hp) \<or> CHR ''['' \<in> set hp \<or> CHR '']'' \<in> set hp then None
                else Some (take i hp, drop (Suc i) hp)))"

section \<open>The address of the client\<close>

definition extractRemoteIP :: "string \<Rightarrow> string" where
  "extractRemoteIP remoteAddr = (case SplitHostPort remoteAddr of None \<Rightarrow> remoteAddr | Some (host, _) \<Rightarrow> host)"

definition isTrustedProxy :: "Middleware \<Rightarrow> string \<Rightarrow> bool" where
  "isTrustedProxy m ip =
     (case ParseIP ip of None \<Rightarrow> False | Some parsed \<Rightarrow> list_ex (\<lambda>cidr. netContains cidr parsed) (mw_trustedProxies m))"

definition ClientIP :: "Middleware \<Rightarrow> Request \<Rightarrow> string" where
  "ClientIP m r =
     (let remoteIP = extractRemoteIP (rq_RemoteAddr r); xff = rq_Header r ''X-Forwarded-For''
      in if xff \<noteq> [] \<and> isTrustedProxy m remoteIP
         then (let parts = map trimSpace (splitOn CHR '','' xff)
               in case find (\<lambda>ip. \<not> isTrustedProxy m ip) (rev parts) of Some ip \<Rightarrow> ip | None \<Rightarrow> hd parts)
         else remoteIP)"

section \<open>CSRF tokens\<close>

definition csrfDenied :: Response where
  "csrfDenied = \<lparr>rs_reply = JSONReply 403 ''CSRF validation failed'', rs_cookies = []\<rparr>"

text \<open>\<open>None\<close>: the request goes on to the handler.\<close>

definition CSRF :: "hmac \<Rightarrow> Middleware \<Rightarrow> Request \<Rightarrow> Response option" where
  "CSRF mac m r =
     (let token = (if rq_Header r csrfHeaderName = [] then rq_Form r csrfFormField else rq_Header r csrfHeaderName)
      in case rq_Cookie r csrfCookieName of
           None \<Rightarrow> Some csrfDenied
         | Some v \<Rightarrow>
             (case indexByte v CHR ''.'' of
                None \<Rightarrow> Some csrfDenied
              | Some i \<Rightarrow>
                  (case hexDecode (take i v) of
                     None \<Rightarrow> Some csrfDenied
                   | Some nonceBytes \<Rightarrow>
                       if hexEncode (mac (mw_csrfSecret m) nonceBytes) \<noteq> drop (Suc i) v then Some csrfDenied
                       else if token \<noteq> take i v then Some csrfDenied
                       else None)))"

definition SetCSRFCookie :: "hmac \<Rightarrow> Middleware \<Rightarrow> bytes \<Rightarrow> Cookie \<times> string" where
  "SetCSRFCookie mac m nonce =
     (\<lparr>ck_Name = csrfCookieName, ck_Value = hexEncode nonce @ ''.'' @ hexEncode (mac (mw_csrfSecret m) nonce), ck_MaxAge = 0,
       ck_HttpOnly = True, ck_Secure = mw_secureCookies m, ck_SameSiteStrict = True\<rparr>, hexEncode nonce)"

section \<open>The session check\<close>

definition SetSessionCookie :: "Middleware \<Rightarrow> string \<Rightarrow> int \<Rightarrow> Cookie" where
  "SetSessionCookie m token maxAge =
     \<lparr>ck_Name = sessionCookieName, ck_Value = token, ck_MaxAge = maxAge, ck_HttpOnly = True,
      ck_Secure = mw_secureCookies m, ck_SameSiteStrict = True\<rparr>"

definition unauthorized :: "Request \<Rightarrow> reply" where
  "unauthorized r = (if hasPrefix (rq_Path r) ''/api/'' then JSONReply 401 ''unauthorized'' else RedirectTo ''/login'')"

text \<open>\<open>Inr\<close>: the handler runs with the session in its context.\<close>

definition Require :: "Middleware \<Rightarrow> go_time \<Rightarrow> Request \<Rightarrow> Store \<Rightarrow> Store \<times> (Response + Session)" where
  "Require m now r st =
     (case rq_Cookie r sessionCookieName of
        None \<Rightarrow> (st, Inl \<lparr>rs_reply = unauthorized r, rs_cookies = []\<rparr>)
      | Some v \<Rightarrow>
          if v = [] then (st, Inl \<lparr>rs_reply = unauthorized r, rs_cookies = []\<rparr>)
          else (case useSession now v st of
                  (st', None) \<Rightarrow> (st', Inl \<lparr>rs_reply = unauthorized r, rs_cookies = [SetSessionCookie m [] (-1)]\<rparr>)
                | (st', Some sess) \<Rightarrow> (st', Inr sess)))"

section \<open>Login and logout\<close>

record AuthHandler =
  ah_AdminUser :: string
  ah_AdminHash :: string
  ah_bcrypt :: "string \<Rightarrow> string \<Rightarrow> bool"   \<comment> \<open>\<^verbatim>\<open>CompareHashAndPassword\<close> returns nil\<close>
  ah_mac :: hmac
  ah_mw :: Middleware

text \<open>\<open>au_waiting\<close>: the login requests that \<^verbatim>\<open>Allow\<close> let through and whose password is being compared.\<close>

record AuthState =
  au_store :: Store
  au_limiter :: limiter
  au_waiting :: "Request list"

definition dummyHash :: string where
  "dummyHash = ''$2a$12$invalidusernameXXXXXXXXXXXXXXXXXXXXXXXXXXXXXXXXXXXXXXX''"

definition sessionToken :: "Request \<Rightarrow> string" where
  "sessionToken r = (case rq_Cookie r sessionCookieName of None \<Rightarrow> [] | Some v \<Rightarrow> v)"

definition GetLogin :: "go_time \<Rightarrow> Request \<Rightarrow> AuthState \<Rightarrow> AuthState \<times> Response" where
  "GetLogin now r st =
     (case Get now (sessionToken r) (au_store st) of
        (s, Some _) \<Rightarrow> (st\<lparr>au_store := s\<rparr>, \<lparr>rs_reply = RedirectTo ''/'', rs_cookies = []\<rparr>)
      | (s, None) \<Rightarrow> (st\<lparr>au_store := s\<rparr>, \<lparr>rs_reply = LoginPage (rq_Query r ''error''), rs_cookies = []\<rparr>))"

definition credentialsOK :: "AuthHandler \<Rightarrow> string \<Rightarrow> string \<Rightarrow> bool" where
  "credentialsOK h username password =
     (let targetHash = (if username \<noteq> ah_AdminUser h then dummyHash else ah_AdminHash h)
      in ah_bcrypt h targetHash password \<and> username = ah_AdminUser h)"

text \<open>
  \<^verbatim>\<open>PostLogin\<close> up to the call of bcrypt and from there on. The limiter's mutex is free in between, so other requests run there; a call with nothing in
  between is \<open>PostLogin\<close>. \<open>token\<close> and \<open>nonce\<close> are what the random source yields for the session and for the CSRF token.
\<close>

definition admitLogin :: "AuthHandler \<Rightarrow> go_time \<Rightarrow> Request \<Rightarrow> AuthState \<Rightarrow> AuthState \<times> Response option" where
  "admitLogin h now r st =
     (case Allow now (ClientIP (ah_mw h) r) (au_limiter st) of
        (l, False, _) \<Rightarrow>
          (st\<lparr>au_limiter := l\<rparr>, Some \<lparr>rs_reply = LoginPage ''Too many failed attempts. Please try again later.'', rs_cookies = []\<rparr>)
      | (l, True, _) \<Rightarrow> (st\<lparr>au_limiter := l\<rparr>, None))"

definition answerLogin :: "AuthHandler \<Rightarrow> go_time \<Rightarrow> string \<Rightarrow> bytes \<Rightarrow> Request \<Rightarrow> AuthState \<Rightarrow> AuthState \<times> Response" where
  "answerLogin h now token nonce r st =
     (let ip = ClientIP (ah_mw h) r; username = rq_Form r ''username''; password = rq_Form r ''password'' in
      if \<not> credentialsOK h username password
      then (st\<lparr>au_limiter := Record now ip (au_limiter st)\<rparr>, \<lparr>rs_reply = LoginPage ''Invalid credentials'', rs_cookies = []\<rparr>)
      else (st\<lparr>au_store := Create now token username ip (au_store st)\<rparr>,
            \<lparr>rs_reply = RedirectTo ''/'',
             rs_cookies = [SetSessionCookie (ah_mw h) token (ttl (au_store st) div 10 ^ 9), fst (SetCSRFCookie (ah_mac h) (ah_mw h) nonce)]\<rparr>))"

definition PostLogin :: "AuthHandler \<Rightarrow> go_time \<Rightarrow> go_time \<Rightarrow> string \<Rightarrow> bytes \<Rightarrow> Request \<Rightarrow> AuthState \<Rightarrow> AuthState \<times> Response" where
  "PostLogin h now later token nonce r st =
     (case admitLogin h now r st of
        (st', Some resp) \<Rightarrow> (st', resp)
      | (st', None) \<Rightarrow> answerLogin h later token nonce r st')"

definition PostLogout :: "AuthHandler \<Rightarrow> Request \<Rightarrow> AuthState \<Rightarrow> AuthState \<times> Response" where
  "PostLogout h r st =
     ((if sessionToken r \<noteq> [] then st\<lparr>au_store := Delete (sessionToken r) (au_store st)\<rparr> else st),
      \<lparr>rs_reply = RedirectTo ''/login'', rs_cookies = [SetSessionCookie (ah_mw h) [] (-1)]\<rparr>)"

section \<open>Hexadecimal text\<close>

lemma hexDigit_props:
  assumes "n < 16"
  shows "isHex (hexDigit n)" and "unhex (hexDigit n) = n"
proof -
  have "n \<in> set [0..<16]" using assms by simp
  then show "isHex (hexDigit n)" and "unhex (hexDigit n) = n"
    by (auto simp: upt_rec isHex_def isDigit_def unhex_def hexDigit_def Let_def)
qed

lemma dot_no_hex: "\<not> isHex CHR ''.''"
  by (simp add: isHex_def isDigit_def)

lemma unat_byte_split: "of_nat (16 * (unat x div 16) + unat x mod 16) = (x :: 8 word)" "unat x div 16 < 16" "unat x mod 16 < 16"
proof -
  show "of_nat (16 * (unat x div 16) + unat x mod 16) = x" by simp
  have "unat x < 2 ^ LENGTH(8)" by (rule unsigned_less)
  then show "unat x div 16 < 16" by simp
qed simp

lemma hexDecode_encode [simp]: "hexDecode (hexEncode b) = Some b"
proof (induction b)
  case (Cons x b)
  then show ?case
    using unat_byte_split [of x] by (simp add: hexEncode_def hexDigit_props)
qed (simp add: hexEncode_def)

lemma hexDecode_no_dot: "hexDecode s = Some b \<Longrightarrow> CHR ''.'' \<notin> set s"
  by (induction s arbitrary: b rule: hexDecode.induct)
    (use dot_no_hex in \<open>auto split: if_splits option.splits\<close>)

section \<open>Who may pass\<close>

lemma CSRF_None:
  "CSRF mac m r = None \<longleftrightarrow>
     (\<exists>token nonce. token = (if rq_Header r csrfHeaderName = [] then rq_Form r csrfFormField else rq_Header r csrfHeaderName)
        \<and> hexDecode token = Some nonce
        \<and> rq_Cookie r csrfCookieName = Some (token @ ''.'' @ hexEncode (mac (mw_csrfSecret m) nonce)))"
  (is "?L \<longleftrightarrow> ?R")
proof
  assume ?L
  then obtain v i nonce where v: "rq_Cookie r csrfCookieName = Some v" and i: "indexByte v CHR ''.'' = Some i"
    and n: "hexDecode (take i v) = Some nonce" "hexEncode (mac (mw_csrfSecret m) nonce) = drop (Suc i) v"
    and t: "(if rq_Header r csrfHeaderName = [] then rq_Form r csrfFormField else rq_Header r csrfHeaderName) = take i v"
    by (auto simp: CSRF_def Let_def split: option.splits if_splits)
  have "v = take i v @ ''.'' @ drop (Suc i) v"
    using indexByte_Some [OF i] id_take_nth_drop [of i v] by simp
  then show ?R using v n t by metis
next
  assume ?R
  then obtain token nonce where t: "token = (if rq_Header r csrfHeaderName = [] then rq_Form r csrfFormField else rq_Header r csrfHeaderName)"
    and n: "hexDecode token = Some nonce"
    and c: "rq_Cookie r csrfCookieName = Some (token @ CHR ''.'' # hexEncode (mac (mw_csrfSecret m) nonce))" by auto
  have "indexByte (token @ CHR ''.'' # hexEncode (mac (mw_csrfSecret m) nonce)) CHR ''.'' = Some (length token)"
    using hexDecode_no_dot [OF n] by (rule indexByte_append)
  then show ?L using t n c by (simp add: CSRF_def Let_def)
qed

text \<open>The events of the authentication state.\<close>

datatype auth_event =
    EvLogin go_time Request                 \<comment> \<open>a login asks the limiter\<close>
  | EvAnswer go_time string bytes Request   \<comment> \<open>a login that was let through is answered\<close>
  | EvLogout Request
  | EvPage go_time Request          \<comment> \<open>a protected page or API call\<close>
  | EvLoginPage go_time Request
  | EvSweep go_time
  | EvLimiterSweep go_time
  | EvPasswordChanged

fun authStep :: "AuthHandler \<Rightarrow> auth_event \<Rightarrow> AuthState \<Rightarrow> AuthState" where
  "authStep h (EvLogin now r) st =
     (case admitLogin h now r st of (st', Some _) \<Rightarrow> st' | (st', None) \<Rightarrow> st'\<lparr>au_waiting := r # au_waiting st'\<rparr>)"
| "authStep h (EvAnswer now token nonce r) st =
     (if r \<in> set (au_waiting st) then fst (answerLogin h now token nonce r (st\<lparr>au_waiting := remove1 r (au_waiting st)\<rparr>)) else st)"
| "authStep h (EvLogout r) st = fst (PostLogout h r st)"
| "authStep h (EvPage now r) st = st\<lparr>au_store := fst (Require (ah_mw h) now r (au_store st))\<rparr>"
| "authStep h (EvLoginPage now r) st = fst (GetLogin now r st)"
| "authStep h (EvSweep now) st = st\<lparr>au_store := store_Sweep now (au_store st)\<rparr>"
| "authStep h (EvLimiterSweep now) st = st\<lparr>au_limiter := limiter_Sweep now (au_limiter st)\<rparr>"
| "authStep h EvPasswordChanged st = st\<lparr>au_store := DeleteAll (au_store st)\<rparr>"

definition initAuth :: "duration \<Rightarrow> AuthState" where
  "initAuth d = \<lparr>au_store = NewStore d, au_limiter = NewLoginRateLimiter, au_waiting = []\<rparr>"

text \<open>A token was given out: a login with the administrator's credentials created it.\<close>

definition givenOut :: "AuthHandler \<Rightarrow> auth_event list \<Rightarrow> string \<Rightarrow> bool" where
  "givenOut h evs token \<longleftrightarrow>
     (\<exists>now nonce r. EvAnswer now token nonce r \<in> set evs \<and> credentialsOK h (rq_Form r ''username'') (rq_Form r ''password''))"

lemma authStep_sessions:
  assumes "sessions (au_store (authStep h ev st)) token \<noteq> None"
  shows "sessions (au_store st) token \<noteq> None \<or> givenOut h [ev] token"
  using assms
  by (cases ev)
    (auto simp: givenOut_def admitLogin_def answerLogin_def PostLogout_def GetLogin_def Require_def store_defs Let_def
      split: option.splits if_splits prod.splits bool.splits)

lemma givenOut_append: "givenOut h (evs @ evs') token \<longleftrightarrow> givenOut h evs token \<or> givenOut h evs' token"
  by (auto simp: givenOut_def)

lemma run_sessions:
  "sessions (au_store (fold (authStep h) evs st)) token \<noteq> None \<Longrightarrow> sessions (au_store st) token \<noteq> None \<or> givenOut h evs token"
proof (induction evs arbitrary: st)
  case (Cons ev evs)
  then show ?case
    using authStep_sessions [of h ev st token] givenOut_append [of h "[ev]" evs token] by auto
qed simp

lemma Require_passes:
  assumes "Require m now r st = (st', Inr sess)"
  shows "\<exists>token s. rq_Cookie r sessionCookieName = Some token \<and> token \<noteq> [] \<and> sessions st token = Some s \<and> \<not> dead now s
     \<and> sess = s\<lparr>se_LastSeenAt := now\<rparr>"
  using assms by (auto simp: Require_def useSession_def Get_def split: option.splits if_splits prod.splits)

text \<open>A call of \<^verbatim>\<open>PostLogin\<close> that no other request interrupts is its two events one after the other.\<close>

lemma PostLogin_events:
  "authStep h (EvAnswer later token nonce r) (authStep h (EvLogin now r) (st\<lparr>au_waiting := []\<rparr>))
     = (fst (PostLogin h now later token nonce r st))\<lparr>au_waiting := []\<rparr>"
  by (cases st) (simp add: PostLogin_def admitLogin_def answerLogin_def Let_def split: prod.split bool.split)

section \<open>Guessing passwords\<close>

text \<open>The requests of an address that are in flight, the most of them during a run, and the wrong passwords of the address that the run compares.\<close>

definition inFlight :: "AuthHandler \<Rightarrow> string \<Rightarrow> AuthState \<Rightarrow> nat" where
  "inFlight h ip st = length (filter (\<lambda>r. ClientIP (ah_mw h) r = ip) (au_waiting st))"

fun peak :: "AuthHandler \<Rightarrow> string \<Rightarrow> auth_event list \<Rightarrow> AuthState \<Rightarrow> nat" where
  "peak h ip [] st = inFlight h ip st"
| "peak h ip (ev # evs) st = max (inFlight h ip st) (peak h ip evs (authStep h ev st))"

fun isWrong :: "AuthHandler \<Rightarrow> string \<Rightarrow> auth_event \<Rightarrow> AuthState \<Rightarrow> bool" where
  "isWrong h ip (EvAnswer now token nonce r) st \<longleftrightarrow> r \<in> set (au_waiting st) \<and> ClientIP (ah_mw h) r = ip
     \<and> rs_reply (snd (answerLogin h now token nonce r st)) = LoginPage ''Invalid credentials''"
| "isWrong h ip _ st \<longleftrightarrow> False"

fun wrongPasswords :: "AuthHandler \<Rightarrow> string \<Rightarrow> auth_event list \<Rightarrow> AuthState \<Rightarrow> nat" where
  "wrongPasswords h ip [] st = 0"
| "wrongPasswords h ip (ev # evs) st = (if isWrong h ip ev st then 1 else 0) + wrongPasswords h ip evs (authStep h ev st)"

text \<open>The times at which an event reads the limiter's clock are in the five minutes from \<open>t0\<close>.\<close>

fun duringFive :: "go_time \<Rightarrow> auth_event \<Rightarrow> bool" where
  "duringFive t0 (EvLogin now r) \<longleftrightarrow> t0 \<le> now \<and> now \<le> t0 + minutes 5"
| "duringFive t0 (EvAnswer now token nonce r) \<longleftrightarrow> t0 \<le> now \<and> now \<le> t0 + minutes 5"
| "duringFive t0 (EvLimiterSweep now) \<longleftrightarrow> t0 \<le> now \<and> now \<le> t0 + minutes 5"
| "duringFive t0 _ \<longleftrightarrow> True"

lemma inFlight_remove:
  assumes "r \<in> set (au_waiting st)"
  shows "inFlight h ip st = inFlight h ip (st\<lparr>au_waiting := remove1 r (au_waiting st)\<rparr>) + (if ClientIP (ah_mw h) r = ip then 1 else 0)"
proof -
  have "length (filter P xs) = length (filter P (remove1 r xs)) + (if P r then 1 else 0)" if "r \<in> set xs" for P and xs :: "Request list"
    using that by (induction xs) auto
  from this [OF assms] show ?thesis by (simp add: inFlight_def)
qed

lemma inFlight_peak: "inFlight h ip st \<le> peak h ip evs st"
  by (cases evs) simp_all

lemma step_budget:
  assumes "duringFive t0 ev" and "inFlight h ip st \<le> k" and "st' = authStep h ev st"
  shows "(if isWrong h ip ev st then 1 else 0) + budget t0 k (inFlight h ip st') (au_limiter st' ip) \<le> budget t0 k (inFlight h ip st) (au_limiter st ip)"
proof (cases ev)
  case (EvLogin now r)
  obtain l ok wait where al: "Allow now (ClientIP (ah_mw h) r) (au_limiter st) = (l, ok, wait)" by (metis prod_cases3)
  have st': "au_limiter st' = l" "inFlight h ip st' = inFlight h ip st + (if ok \<and> ClientIP (ah_mw h) r = ip then 1 else 0)"
    using al assms(3) EvLogin by (auto simp: admitLogin_def inFlight_def split: bool.splits)
  show ?thesis
  proof (cases "ClientIP (ah_mw h) r = ip")
    case True
    have "budget t0 k (if ok then Suc (inFlight h ip st) else inFlight h ip st) (l ip) \<le> budget t0 k (inFlight h ip st) (au_limiter st ip)"
      using Allow_budget [OF al [unfolded True], of t0] assms(1) EvLogin by simp
    with st' True EvLogin show ?thesis by (simp split: if_splits)
  next
    case False
    with st' EvLogin show ?thesis using Allow_other [of ip "ClientIP (ah_mw h) r" now "au_limiter st"] al by simp
  qed
next
  case (EvAnswer now token nonce r)
  show ?thesis
  proof (cases "r \<in> set (au_waiting st)")
    case True
    let ?ip = "ClientIP (ah_mw h) r" and ?ok = "credentialsOK h (rq_Form r ''username'') (rq_Form r ''password'')"
    note fl = inFlight_remove [OF True, of h ip]
    have st': "au_limiter st' = (if ?ok then au_limiter st else Record now ?ip (au_limiter st))"
      "inFlight h ip st' = inFlight h ip (st\<lparr>au_waiting := remove1 r (au_waiting st)\<rparr>)"
      using True assms(3) EvAnswer by (simp_all add: answerLogin_def inFlight_def Let_def)
    have w: "isWrong h ip ev st \<longleftrightarrow> ?ip = ip \<and> \<not> ?ok" using True EvAnswer by (simp add: answerLogin_def Let_def)
    show ?thesis
    proof (cases "?ip = ip \<and> \<not> ?ok")
      case t: True
      with fl st' have n: "inFlight h ip st = Suc (inFlight h ip st')" by simp
      have "t0 \<le> now" using assms(1) EvAnswer by simp
      from Record_budget [OF this, of "inFlight h ip st'" k ip "au_limiter st"] assms(2) n t st' w show ?thesis by simp
    next
      case f: False
      have "au_limiter st' ip = au_limiter st ip" using f st' Record_other [of ip ?ip now "au_limiter st"] by auto
      moreover have "inFlight h ip st' \<le> inFlight h ip st" using fl st' by simp
      moreover have "\<not> isWrong h ip ev st" using f w by blast
      ultimately show ?thesis using budget_mono [of "inFlight h ip st'" "inFlight h ip st"] by simp
    qed
  qed (use assms(3) EvAnswer in simp)
next
  case (EvLimiterSweep now)
  then show ?thesis using assms(1,3) Sweep_budget [of now t0] by (simp add: inFlight_def)
qed (use assms(3) in \<open>simp_all add: inFlight_def PostLogout_def GetLogin_def split: prod.split option.split\<close>)

lemma wrong_budget:
  assumes "\<forall>ev \<in> set evs. duringFive t0 ev" and "peak h ip evs st \<le> k"
  shows "wrongPasswords h ip evs st \<le> budget t0 k (inFlight h ip st) (au_limiter st ip)"
  using assms
proof (induction evs arbitrary: st)
  case (Cons ev evs)
  have "duringFive t0 ev" "inFlight h ip st \<le> k" using Cons.prems by simp_all
  from step_budget [OF this refl] Cons show ?case by fastforce
qed simp

text \<open>Requests that wait for the answer before the next one: one is in flight at most.\<close>

lemma sequential_peak:
  assumes "au_waiting st = []"
  shows "peak h ip (concat (map (\<lambda>t. [EvLogin t r, EvAnswer t token nonce r]) ts)) st \<le> 1"
  using assms
proof (induction ts arbitrary: st)
  case (Cons t ts)
  let ?s1 = "authStep h (EvLogin t r) st"
  let ?s2 = "authStep h (EvAnswer t token nonce r) ?s1"
  have s1: "au_waiting ?s1 = [] \<or> au_waiting ?s1 = [r]" using Cons.prems by (simp add: admitLogin_def split: prod.split bool.split)
  then have "au_waiting ?s2 = []" by (auto simp: answerLogin_def Let_def)
  from Cons.IH [OF this] s1 Cons.prems show ?case by (auto simp: inFlight_def)
qed (simp add: inFlight_def)

text \<open>
  The bound grows with the requests in flight because the code lets it: of any number of requests that arrive before the first is answered, all are let
  through and every password is compared.
\<close>

lemma burst_arrives:
  assumes "t0 \<le> now" and "now \<le> t0 + minutes 5" and "bk_count b = 0" "bk_windowStart b = t0" "bk_lockedUntil b = None"
    and "au_limiter st (ClientIP (ah_mw h) r) = Some b"
  shows "fold (authStep h) (replicate n (EvLogin now r)) st = st\<lparr>au_waiting := replicate n r @ au_waiting st\<rparr>"
proof -
  have "authStep h (EvLogin now r) s = s\<lparr>au_waiting := r # au_waiting s\<rparr>" if "au_limiter s = au_limiter st" for s
  proof -
    have "(au_limiter st)(ClientIP (ah_mw h) r \<mapsto> b) = au_limiter st" using assms(6) by auto
    with assms that show ?thesis by (cases s) (simp add: admitLogin_def Allow_def lockActive_def Let_def)
  qed
  then have "au_limiter s = au_limiter st \<Longrightarrow> fold (authStep h) (replicate n (EvLogin now r)) s = s\<lparr>au_waiting := replicate n r @ au_waiting s\<rparr>" for s
  proof (induction n arbitrary: s)
    case (Suc n)
    then show ?case by (simp add: replicate_app_Cons_same)
  qed simp
  then show ?thesis by simp
qed

lemma burst_answered:
  assumes "\<not> credentialsOK h (rq_Form r ''username'') (rq_Form r ''password'')" and "au_waiting st = replicate n r"
  shows "wrongPasswords h (ClientIP (ah_mw h) r) (replicate n (EvAnswer now token nonce r)) st = n"
  using assms(2)
proof (induction n arbitrary: st)
  case (Suc n)
  have "au_waiting (authStep h (EvAnswer now token nonce r) st) = replicate n r" using Suc.prems assms(1) by (simp add: answerLogin_def Let_def)
  with Suc show ?case using assms(1) by (simp add: answerLogin_def Let_def)
qed simp

lemma burst_checks_every_password:
  assumes "\<not> credentialsOK h (rq_Form r ''username'') (rq_Form r ''password'')" and "0 < n"
  shows "wrongPasswords h (ClientIP (ah_mw h) r) (replicate n (EvLogin now r) @ replicate n (EvAnswer now token nonce r)) (initAuth d) = n"
proof -
  have app: "wrongPasswords h ip (xs @ ys) s = wrongPasswords h ip xs s + wrongPasswords h ip ys (fold (authStep h) xs s)" for ip xs ys s
    by (induction xs arbitrary: s) simp_all
  have none: "wrongPasswords h ip (replicate m (EvLogin now r)) s = 0" for ip m s by (induction m arbitrary: s) simp_all
  let ?s1 = "authStep h (EvLogin now r) (initAuth d)"
  have s1: "au_limiter ?s1 (ClientIP (ah_mw h) r) = Some (freshBucket now)" "au_waiting ?s1 = [r]"
    by (simp_all add: admitLogin_def Allow_def initAuth_def NewLoginRateLimiter_def)
  obtain m where m: "n = Suc m" using assms(2) by (cases n) auto
  have "fold (authStep h) (replicate n (EvLogin now r)) (initAuth d) = ?s1\<lparr>au_waiting := replicate m r @ [r]\<rparr>"
    using burst_arrives [of now now "freshBucket now" ?s1 h r m] s1 by (simp add: m freshBucket_def minutes_def)
  moreover have "replicate m r @ [r] = replicate n r" by (simp add: m replicate_append_same)
  ultimately show ?thesis by (simp add: app none burst_answered [OF assms(1)])
qed

section \<open>Forwarding headers\<close>

lemma splitOn_append_any: "splitOn sep (a @ sep # b) = splitOn sep a @ splitOn sep b"
proof (induction a)
  case (Cons c a)
  then show ?case by (cases "splitOn sep a") auto
qed simp

lemma find_rev_last:
  assumes "P x" and "\<And>y. y \<in> set ys \<Longrightarrow> \<not> P y"
  shows "find P (rev (xs @ x # ys)) = Some x"
proof -
  have "find P (rev ys @ x # rev xs) = Some x"
    using assms(2) by (induction ys rule: rev_induct) (simp_all add: assms(1))
  then show ?thesis by simp
qed

section \<open>Properties\<close>

text \<open>
  C37. Brute force is bounded at the login form, however the requests interleave: in any five minutes, with never more than \<open>k\<close> login requests of an address between the limiter's check
  and the answer, the handler compares at most 2 (k + 4) wrong passwords of that address, and k + 4 when the limiter starts with no record of it. For requests one after the other (k = 1) that is ten
  and five; requests that arrive together are all compared, so the documented five per five minutes hold only for a fresh address and one request at a time.
\<close>

theorem login_guesses_bounded:
  assumes "\<forall>ev \<in> set evs. duringFive t0 ev"
  shows "wrongPasswords h ip evs st \<le> 2 * (peak h ip evs st + 4)
    \<and> (au_limiter st ip = None \<longrightarrow> wrongPasswords h ip evs st \<le> peak h ip evs st + 4)"
  using wrong_budget [OF assms order_refl, of h ip st] budget_bound(1) [OF inFlight_peak [of h ip st evs], of t0 "au_limiter st ip"]
  by (auto simp: budget_bound(2))

text \<open>
  A protected handler runs only for somebody who logged in: in every state that the authentication events reach from an
  empty store, a request that \<^verbatim>\<open>Require\<close> lets through carries a token that an earlier login with the administrator's credentials
  gave out, and its session is neither expired nor idle.
\<close>

theorem protected_pages_need_login:
  assumes "Require (ah_mw h) now r (au_store (fold (authStep h) evs (initAuth d))) = (st', Inr sess)"
  shows "\<exists>token. rq_Cookie r sessionCookieName = Some token \<and> givenOut h evs token \<and> \<not> dead now sess"
proof -
  obtain token s where t: "rq_Cookie r sessionCookieName = Some token" "\<not> dead now s" "sess = s\<lparr>se_LastSeenAt := now\<rparr>"
    "sessions (au_store (fold (authStep h) evs (initAuth d))) token = Some s"
    using Require_passes [OF assms] by blast
  have "givenOut h evs token"
    using run_sessions [of h evs "initAuth d" token] t(4) by (auto simp: initAuth_def NewStore_def)
  moreover have "\<not> dead now sess" using t(2,3) by (simp add: dead_def defaultIdleTimeout_def hours_def)
  ultimately show ?thesis using t(1) by blast
qed

text \<open>
  CSRF tokens work and cannot be swapped: with the cookie that \<^verbatim>\<open>SetCSRFCookie\<close> sets, a request passes exactly when it submits the
  nonce that was embedded in the page; and a cookie whose signature is not the HMAC of its nonce never passes.
\<close>

theorem csrf_roundtrip:
  assumes "rq_Cookie r csrfCookieName = Some (nonceHex @ ''.'' @ sig)" and "hexDecode nonceHex = Some nonce"
  shows "CSRF mac m r = None \<longleftrightarrow>
     sig = hexEncode (mac (mw_csrfSecret m) nonce)
     \<and> (if rq_Header r csrfHeaderName = [] then rq_Form r csrfFormField else rq_Header r csrfHeaderName) = nonceHex"
proof -
  have eq: "token @ ''.'' @ a = nonceHex @ ''.'' @ sig \<longleftrightarrow> token = nonceHex \<and> a = sig" if "hexDecode token = Some n" for token n a
  proof -
    have "takeWhile (\<lambda>c. c \<noteq> CHR ''.'') (s @ CHR ''.'' # u) = s" if "CHR ''.'' \<notin> set s" for s u
      using that by (induction s) auto
    then have "token = nonceHex" if "token @ ''.'' @ a = nonceHex @ ''.'' @ sig"
      using hexDecode_no_dot [OF \<open>hexDecode token = Some n\<close>] hexDecode_no_dot [OF assms(2)] that by (metis append_Cons append_Nil)
    then show ?thesis by auto
  qed
  show ?thesis
    unfolding CSRF_None assms(1) option.inject using assms(2) eq by (metis option.inject)
qed

text \<open>
  The client's address cannot be forged through \<^verbatim>\<open>X-Forwarded-For\<close>. From a peer that is not a trusted proxy the header is ignored; behind
  trusted proxies the address is the entry that the outermost trusted proxy appended, whatever the client put in front of it.
\<close>

theorem client_ip_unspoofable:
  assumes "isTrustedProxy m (extractRemoteIP (rq_RemoteAddr r)) \<longrightarrow>
      rq_Header r ''X-Forwarded-For'' = forged @ '','' @ client @ concat (map (\<lambda>p. CHR '','' # p) proxies)
      \<and> CHR '','' \<notin> set client \<and> (\<forall>p \<in> set proxies. CHR '','' \<notin> set p \<and> isTrustedProxy m (trimSpace p))
      \<and> \<not> isTrustedProxy m (trimSpace client)"
  shows "ClientIP m r = (if isTrustedProxy m (extractRemoteIP (rq_RemoteAddr r)) then trimSpace client
     else extractRemoteIP (rq_RemoteAddr r))"
proof (cases "isTrustedProxy m (extractRemoteIP (rq_RemoteAddr r))")
  case True
  note a = assms [rule_format, OF True]
  have tail: "splitOn CHR '','' (x @ concat (map (\<lambda>p. CHR '','' # p) ps)) = x # ps"
    if "CHR '','' \<notin> set x" "\<forall>p \<in> set ps. CHR '','' \<notin> set p" for x ps
    using that
  proof (induction ps arbitrary: x)
    case (Cons p ps)
    then show ?case by (simp add: splitOn_append)
  qed (simp add: splitOn_single)
  have "map trimSpace (splitOn CHR '','' (rq_Header r ''X-Forwarded-For''))
      = map trimSpace (splitOn CHR '','' forged) @ trimSpace client # map trimSpace proxies"
    using a tail [of client proxies] by (simp add: splitOn_append_any)
  moreover have "find (\<lambda>ip. \<not> isTrustedProxy m ip)
      (rev (map trimSpace (splitOn CHR '','' forged) @ trimSpace client # map trimSpace proxies)) = Some (trimSpace client)"
    using a by (intro find_rev_last) auto
  ultimately show ?thesis using True a by (simp add: ClientIP_def Let_def)
qed (simp add: ClientIP_def Let_def)

section \<open>Witnesses\<close>

definition demoMW :: Middleware where
  "demoMW = \<lparr>mw_trustedProxies = [\<lparr>netIP = [10, 0, 0, 0], netMask = [255, 0, 0, 0]\<rparr>], mw_csrfSecret = [7], mw_secureCookies = True\<rparr>"

definition demoMac :: hmac where
  "demoMac key msg = [foldl (+) 0 (key @ msg)]"

definition demoHandler :: AuthHandler where
  "demoHandler = \<lparr>ah_AdminUser = ''admin'', ah_AdminHash = ''h'', ah_bcrypt = (\<lambda>hash pw. hash = ''h'' \<and> pw = ''secret''),
     ah_mac = demoMac, ah_mw = demoMW\<rparr>"

definition demoRequest :: Request where
  "demoRequest = \<lparr>rq_Path = ''/login'', rq_RemoteAddr = ''1.2.3.4:80'', rq_Header = (\<lambda>_. []), rq_Cookie = Map.empty,
     rq_Form = (\<lambda>k. if k = ''username'' then ''admin'' else if k = ''password'' then ''secret'' else []), rq_Query = (\<lambda>_. [])\<rparr>"

lemma demo_ip: "ClientIP demoMW demoRequest = ''1.2.3.4''"
  by (simp add: ClientIP_def demoRequest_def extractRemoteIP_def SplitHostPort_def numeral_nat)

definition badRequest :: Request where
  "badRequest = demoRequest\<lparr>rq_Form := (\<lambda>_. [])\<rparr>"

text \<open>Six wrong passwords one after the other: five are compared, the sixth request is refused.\<close>

definition sixTries :: "auth_event list" where
  "sixTries = concat (map (\<lambda>i. [EvLogin i badRequest, EvAnswer i [] [] badRequest]) [0, 1, 2, 3, 4, 5])"

lemma login_guesses_bounded_witness:
  "peak demoHandler ''1.2.3.4'' sixTries (initAuth (hours 1)) \<le> 1 \<and> wrongPasswords demoHandler ''1.2.3.4'' sixTries (initAuth (hours 1)) \<le> 5"
proof -
  have "\<forall>ev \<in> set sixTries. duringFive 0 ev" by (simp add: sixTries_def minutes_def)
  note b = login_guesses_bounded [OF this, of demoHandler "''1.2.3.4''" "initAuth (hours 1)"]
  have "peak demoHandler ''1.2.3.4'' sixTries (initAuth (hours 1)) \<le> 1"
    unfolding sixTries_def by (rule sequential_peak) (simp add: initAuth_def)
  with b show ?thesis by (simp add: initAuth_def NewLoginRateLimiter_def)
qed

definition sessionRequest :: Request where
  "sessionRequest = demoRequest\<lparr>rq_Cookie := [sessionCookieName \<mapsto> ''tok'']\<rparr>"

definition demoAuth :: AuthState where
  "demoAuth = fold (authStep demoHandler) [EvLogin 0 demoRequest, EvAnswer 0 ''tok'' [1] demoRequest] (initAuth (hours 1))"

lemma demo_session:
  assumes "rq_Cookie r sessionCookieName = Some ''tok''"
  shows "\<exists>st' sess. Require m 5 r (au_store demoAuth) = (st', Inr sess)"
proof -
  have "sessions (au_store demoAuth) ''tok'' = Some \<lparr>se_Token = ''tok'', se_Username = ''admin'', se_IPAddr = ''1.2.3.4'', se_CreatedAt = 0,
      se_ExpiresAt = hours 1, se_LastSeenAt = 0\<rparr>"
    using demo_ip
    by (simp add: demoAuth_def admitLogin_def answerLogin_def credentialsOK_def demoHandler_def initAuth_def NewLoginRateLimiter_def Allow_def Let_def)
      (simp add: demoRequest_def Create_def NewStore_def)
  with assms show ?thesis by (simp add: Require_def useSession_def Get_def dead_def defaultIdleTimeout_def hours_def)
qed

lemma protected_pages_need_login_witness:
  "givenOut demoHandler [EvLogin 0 demoRequest, EvAnswer 0 ''tok'' [1] demoRequest] ''tok''"
proof -
  obtain st' sess where "Require (ah_mw demoHandler) 5 sessionRequest (au_store demoAuth) = (st', Inr sess)"
    using demo_session [of sessionRequest "ah_mw demoHandler"] by (auto simp: sessionRequest_def)
  from protected_pages_need_login [OF this [unfolded demoAuth_def]] show ?thesis by (auto simp: sessionRequest_def)
qed

definition csrfRequest :: Request where
  "csrfRequest = demoRequest\<lparr>rq_Cookie := [csrfCookieName \<mapsto> ck_Value (fst (SetCSRFCookie demoMac demoMW [255]))],
     rq_Header := (\<lambda>k. if k = csrfHeaderName then ''ff'' else [])\<rparr>"

lemma csrf_roundtrip_witness: "CSRF demoMac demoMW csrfRequest = None"
proof -
  have ff: "hexEncode [255] = ''ff''" by code_simp
  have "rq_Cookie csrfRequest csrfCookieName = Some (''ff'' @ ''.'' @ hexEncode (demoMac (mw_csrfSecret demoMW) [255]))"
    by (simp add: csrfRequest_def SetCSRFCookie_def ff)
  moreover have "hexDecode ''ff'' = Some [255]" using hexDecode_encode [of "[255]"] ff by simp
  ultimately show ?thesis using csrf_roundtrip [of csrfRequest "''ff''" _ "[255]" demoMac demoMW] by (simp add: csrfRequest_def)
qed

definition proxiedRequest :: Request where
  "proxiedRequest = demoRequest\<lparr>rq_RemoteAddr := ''10.0.0.9:80'',
     rq_Header := (\<lambda>k. if k = ''X-Forwarded-For'' then ''127.0.0.1'' @ '','' @ '' 8.8.8.8'' @ concat (map (\<lambda>p. CHR '','' # p) ['' 10.0.0.2'']) else [])\<rparr>"

lemma client_ip_unspoofable_witness: "ClientIP demoMW proxiedRequest = ''8.8.8.8''"
proof -
  have r: "extractRemoteIP (rq_RemoteAddr proxiedRequest) = ''10.0.0.9''" by code_simp
  have t: "isTrustedProxy demoMW ''10.0.0.9''" "isTrustedProxy demoMW (trimSpace '' 10.0.0.2'')" "\<not> isTrustedProxy demoMW (trimSpace '' 8.8.8.8'')"
    by code_simp+
  have "ClientIP demoMW proxiedRequest = (if isTrustedProxy demoMW (extractRemoteIP (rq_RemoteAddr proxiedRequest)) then trimSpace '' 8.8.8.8''
     else extractRemoteIP (rq_RemoteAddr proxiedRequest))"
    by (rule client_ip_unspoofable [where forged = "''127.0.0.1''" and proxies = "['' 10.0.0.2'']"])
      (use t in \<open>simp add: proxiedRequest_def\<close>)
  then show ?thesis using r t(1) by (simp add: trimSpace_def asciiSpace_def)
qed

end
