(* ===== verification/Routes.thy ===== *)
theory Routes
  imports Middleware Storage Pipeline
begin

text \<open>
  The routes of the program (\<^verbatim>\<open>app/main.go\<close>), matched as \<^verbatim>\<open>http.ServeMux\<close> matches patterns of a method and a path, each behind the session
  check, behind the session check and the CSRF check, or open; the outer middleware of \<^verbatim>\<open>app/web/server.go\<close>; and the two handlers
  that are gated by the address of the client (\<^verbatim>\<open>handlers/metrics.go\<close>, \<^verbatim>\<open>handlers/scan.go\<close>). No pattern has a host or a wildcard.
\<close>

section \<open>The table\<close>

datatype guard = Open | Login | LoginCSRF

type_synonym route = "string \<times> string \<times> guard \<times> string"   \<comment> \<open>method, path, guard, handler\<close>

definition routes :: "route list" where
  "routes =
     [(''GET'', ''/static/'', Open, ''Static''),
      (''GET'', ''/healthz'', Open, ''GetLiveness''),
      (''GET'', ''/health'', Login, ''GetHealth''),
      (''GET'', ''/metrics'', Open, ''GetMetrics''),
      (''GET'', ''/login'', Open, ''GetLogin''),
      (''POST'', ''/login'', Open, ''PostLogin''),
      (''POST'', ''/logout'', Login, ''PostLogout''),
      (''GET'', ''/'', Login, ''GetDashboard''),
      (''GET'', ''/quarantine'', Login, ''GetQuarantine''),
      (''GET'', ''/backfill'', Login, ''GetBackfill''),
      (''GET'', ''/stats'', Login, ''GetStats''),
      (''GET'', ''/allowlists'', Login, ''GetAllowlists''),
      (''GET'', ''/settings'', Login, ''GetSettings''),
      (''GET'', ''/audit'', Login, ''GetAuditLog''),
      (''POST'', ''/api/scan'', Login, ''PostScan''),
      (''GET'', ''/api/events'', Login, ''GetEvents''),
      (''GET'', ''/api/scans'', Login, ''ListScans''),
      (''GET'', ''/api/scans/'', Login, ''GetScan''),
      (''GET'', ''/api/eml/'', Login, ''DownloadEML''),
      (''GET'', ''/api/preview/'', Login, ''PreviewHTML''),
      (''GET'', ''/api/defang'', Login, ''DefangURL''),
      (''GET'', ''/api/whitelist'', Login, ''ListWhitelist''),
      (''GET'', ''/api/blocklist'', Login, ''ListBlocklist''),
      (''GET'', ''/api/export'', Login, ''Export''),
      (''POST'', ''/api/bulk-action'', LoginCSRF, ''BulkAction''),
      (''POST'', ''/api/release/'', LoginCSRF, ''Release''),
      (''POST'', ''/api/release-learn/'', LoginCSRF, ''ReleaseAndLearn''),
      (''POST'', ''/api/delete/'', LoginCSRF, ''Delete''),
      (''POST'', ''/api/quarantine/'', LoginCSRF, ''Quarantine''),
      (''POST'', ''/api/learn-spam/'', LoginCSRF, ''LearnSpam''),
      (''POST'', ''/api/rescan/'', LoginCSRF, ''Rescan''),
      (''POST'', ''/api/whitelist'', LoginCSRF, ''AddWhitelist''),
      (''DELETE'', ''/api/whitelist/'', LoginCSRF, ''DeleteWhitelist''),
      (''POST'', ''/api/blocklist'', LoginCSRF, ''AddBlocklist''),
      (''DELETE'', ''/api/blocklist/'', LoginCSRF, ''DeleteBlocklist''),
      (''POST'', ''/api/allowlists/bulk-import'', LoginCSRF, ''BulkImport''),
      (''POST'', ''/api/settings/thresholds'', LoginCSRF, ''UpdateThresholds''),
      (''POST'', ''/api/settings/notify-test'', LoginCSRF, ''NotifyTest''),
      (''POST'', ''/api/settings/feeds-refresh'', LoginCSRF, ''FeedsRefresh''),
      (''POST'', ''/api/settings/yara-reload'', LoginCSRF, ''YARAReload''),
      (''POST'', ''/api/settings/api-keys'', LoginCSRF, ''UpdateAPIKeys''),
      (''POST'', ''/api/settings/notifications'', LoginCSRF, ''UpdateNotifications''),
      (''POST'', ''/api/settings/webhook'', LoginCSRF, ''UpdateWebhook''),
      (''POST'', ''/api/settings/password'', LoginCSRF, ''ChangePassword''),
      (''GET'', ''/api/settings/custom-feed'', Login, ''ListCustomFeed''),
      (''POST'', ''/api/settings/custom-feed'', LoginCSRF, ''AddCustomFeed''),
      (''DELETE'', ''/api/settings/custom-feed/'', LoginCSRF, ''DeleteCustomFeed''),
      (''POST'', ''/api/settings/scanners'', LoginCSRF, ''UpdateScanners''),
      (''POST'', ''/api/settings/endpoints'', LoginCSRF, ''UpdateEndpoints''),
      (''GET'', ''/api/settings/accounts'', Login, ''GetAccounts''),
      (''POST'', ''/api/settings/accounts/test'', LoginCSRF, ''TestAccount''),
      (''POST'', ''/api/settings/accounts'', LoginCSRF, ''CreateAccount''),
      (''PUT'', ''/api/settings/accounts/'', LoginCSRF, ''UpdateAccount''),
      (''DELETE'', ''/api/settings/accounts/'', LoginCSRF, ''DeleteAccount'')]"

section \<open>Matching\<close>

text \<open>A path that ends in a slash matches its subtree. A pattern for GET also serves HEAD.\<close>

definition pathMatches :: "string \<Rightarrow> string \<Rightarrow> bool" where
  "pathMatches pat path = (if last pat = CHR ''/'' then hasPrefix path pat else path = pat)"

definition methodMatches :: "string \<Rightarrow> string \<Rightarrow> bool" where
  "methodMatches pm method \<longleftrightarrow> pm = method \<or> pm = ''GET'' \<and> method = ''HEAD''"

text \<open>Among the patterns that match, the most specific one is the one with the longest path.\<close>

fun longest :: "route list \<Rightarrow> route option" where
  "longest [] = None"
| "longest (r # rs) =
     (case longest rs of
        None \<Rightarrow> Some r
      | Some r' \<Rightarrow> Some (if length (fst (snd r')) \<le> length (fst (snd r)) then r else r'))"

definition muxMatch :: "string \<Rightarrow> string \<Rightarrow> route option" where
  "muxMatch method path = longest (filter (\<lambda>(pm, pp, _). methodMatches pm method \<and> pathMatches pp path) routes)"

definition cleanPath :: "string \<Rightarrow> string" where
  "cleanPath p0 =
     (let p = (if p0 = [] then ''/'' else if hd p0 \<noteq> CHR ''/'' then ''/'' @ p0 else p0); np = Clean p
      in if last p = CHR ''/'' \<and> np \<noteq> ''/'' then np @ ''/'' else np)"

datatype found = Moved string | MethodNotAllowed | NotFound | Found route

text \<open>\<^verbatim>\<open>findHandler\<close>: a path that is not clean, and a path that only lacks the final slash of a pattern, are redirected.\<close>

definition findHandler :: "string \<Rightarrow> string \<Rightarrow> found" where
  "findHandler method p =
     (let path = (if method = ''CONNECT'' then p else cleanPath p);
          exact = (\<lambda>q. case muxMatch method q of None \<Rightarrow> False | Some (_, pp, _) \<Rightarrow> pp = q)
      in if \<not> exact path \<and> \<not> hasSuffix path ''/'' \<and> exact (path @ ''/'') then Moved (path @ ''/'')
         else if path \<noteq> p then Moved path
         else (case muxMatch method path of
                 Some r \<Rightarrow> Found r
               | None \<Rightarrow> if list_ex (\<lambda>(_, pp, _). pathMatches pp path) routes then MethodNotAllowed else NotFound))"

section \<open>Serving a request\<close>

datatype outcome = Answered found | Refused Response | Runs string

definition serve :: "hmac \<Rightarrow> Middleware \<Rightarrow> go_time \<Rightarrow> string \<Rightarrow> Request \<Rightarrow> Store \<Rightarrow> Store \<times> outcome" where
  "serve mac m now method r st =
     (case findHandler method (rq_Path r) of
        Found (_, _, g, h) \<Rightarrow>
          (case g of
             Open \<Rightarrow> (st, Runs h)
           | _ \<Rightarrow>
               (case Require m now r st of
                  (st', Inl resp) \<Rightarrow> (st', Refused resp)
                | (st', Inr _) \<Rightarrow>
                    if g = Login then (st', Runs h)
                    else (case CSRF mac m r of Some resp \<Rightarrow> (st', Refused resp) | None \<Rightarrow> (st', Runs h))))
      | answer \<Rightarrow> (st, Answered answer))"

text \<open>The outer middleware: a fresh nonce and the security headers in front, and a panic of the handler turned into a status.\<close>

definition quoted :: "string \<Rightarrow> string" where
  "quoted s = [CHR 0x27] @ s @ [CHR 0x27]"

definition securityHeaders :: "string \<Rightarrow> (string \<times> string) list" where
  "securityHeaders nonce =
     [(''X-Content-Type-Options'', ''nosniff''), (''X-Frame-Options'', ''DENY''),
      (''Referrer-Policy'', ''strict-origin-when-cross-origin''),
      (''Strict-Transport-Security'', ''max-age=31536000; includeSubDomains''),
      (''Content-Security-Policy'',
         ''default-src '' @ quoted ''self'' @ ''; script-src '' @ quoted ''self'' @ '' '' @ quoted (''nonce-'' @ nonce)
         @ ''; style-src '' @ quoted ''self'' @ '' '' @ quoted (''nonce-'' @ nonce) @ ''; img-src '' @ quoted ''self''
         @ '' data:; connect-src '' @ quoted ''self'' @ ''; frame-src '' @ quoted ''self'' @ ''; font-src '' @ quoted ''self'' @ '';'')]"

definition withMiddleware :: "string result \<Rightarrow> (string \<Rightarrow> int go) \<Rightarrow> (string \<times> string) list \<times> int go" where
  "withMiddleware nonce handler =
     (case nonce of
        Inl _ \<Rightarrow> ([], Returns 500)
      | Inr n \<Rightarrow> (securityHeaders n, (case handler n of Panics _ \<Rightarrow> Returns 500 | a \<Rightarrow> a)))"

section \<open>Handlers gated by the address\<close>

definition parseCIDRs :: "string list \<Rightarrow> IPNet list option" where
  "parseCIDRs cidrs = map_opt ParseCIDR cidrs"

definition ipAllowed :: "IPNet list \<Rightarrow> Middleware \<Rightarrow> Request \<Rightarrow> bool" where
  "ipAllowed nets m r =
     (case ParseIP (ClientIP m r) of None \<Rightarrow> False | Some parsed \<Rightarrow> list_ex (\<lambda>n. netContains n parsed) nets)"

text \<open>The body of a request as the limited reader gives it: too large, unreadable, or its bytes.\<close>

datatype body = TooLarge | Unreadable | Body string

datatype scan_reply = Denied int string | Scanned VerdictDecision "ScanResult list"

definition PostScan :: "IPNet list \<Rightarrow> Middleware \<Rightarrow> pipeline \<Rightarrow> Request \<Rightarrow> body \<Rightarrow> scan_reply go" where
  "PostScan nets m p r b =
     (if \<not> ipAllowed nets m r then Returns (Denied 403 ''forbidden'')
      else (case b of
              TooLarge \<Rightarrow> Returns (Denied 413 ''email too large (25 MB limit)'')
            | Unreadable \<Rightarrow> Returns (Denied 400 ''body required'')
            | Body raw \<Rightarrow>
                if raw = [] then Returns (Denied 400 ''body required'')
                else bind_go (RunScan p raw) (\<lambda>res. Returns (case res of
                       Inl err \<Rightarrow> Denied 422 (''parse failed: '' @ err)
                     | Inr (vd, results) \<Rightarrow> Scanned vd results))))"

definition GetMetrics :: "IPNet list \<Rightarrow> Middleware \<Rightarrow> 'a \<Rightarrow> Request \<Rightarrow> 'a + (int \<times> string)" where
  "GetMetrics nets m page r = (if ipAllowed nets m r then Inl page else Inr (403, ''forbidden''))"

section \<open>The guards of the table\<close>

lemma longest_in: "longest rs = Some r \<Longrightarrow> r \<in> set rs"
  by (induction rs) (auto split: option.splits if_splits)

lemma muxMatch_in: "muxMatch method path = Some r \<Longrightarrow> r \<in> set routes \<and> methodMatches (fst r) method \<and> pathMatches (fst (snd r)) path"
  unfolding muxMatch_def by (drule longest_in) auto

text \<open>The handlers that need no session, and those that change something without a CSRF token.\<close>

definition openHandlers :: "string list" where
  "openHandlers = [''Static'', ''GetLiveness'', ''GetMetrics'', ''GetLogin'', ''PostLogin'']"

definition unsignedHandlers :: "string list" where
  "unsignedHandlers = [''PostLogin'', ''PostLogout'', ''PostScan'']"

lemma table_guarded:
  "list_all (\<lambda>(pm, _, g, h). (g = Open \<longrightarrow> h \<in> set openHandlers)
      \<and> (g = LoginCSRF \<or> pm = ''GET'' \<or> h \<in> set unsignedHandlers)) routes"
  by code_simp

lemma table_unambiguous: "distinct (map (\<lambda>(pm, pp, _). (pm, pp)) routes)"
  by code_simp

lemma findHandler_Found:
  assumes "findHandler method p = Found (pm, pp, g, h)"
  shows "(pm, pp, g, h) \<in> set routes \<and> methodMatches pm method"
proof -
  have "\<exists>path. muxMatch method path = Some (pm, pp, g, h)"
    using assms by (auto simp: findHandler_def Let_def split: if_splits option.splits)
  then show ?thesis using muxMatch_in by fastforce
qed

lemma serve_Runs:
  assumes "serve mac m now method r st = (st', Runs f)"
  shows "\<exists>pm pp g. (pm, pp, g, f) \<in> set routes \<and> methodMatches pm method
    \<and> (g \<noteq> Open \<longrightarrow> (\<exists>sess. Require m now r st = (st', Inr sess))) \<and> (g = LoginCSRF \<longrightarrow> CSRF mac m r = None)"
proof -
  obtain pm pp g h where f: "findHandler method (rq_Path r) = Found (pm, pp, g, h)"
    using assms by (auto simp: serve_def split: found.splits)
  then show ?thesis
    using assms findHandler_Found [OF f]
    by (auto simp: serve_def split: guard.splits prod.splits sum.splits option.splits if_splits)
qed

section \<open>Sessions across restarts\<close>

text \<open>
  The runs of the program one after the other: each starts with the sessions of the table, handles requests, and ends by a crash or by a shutdown that
  saves the sessions, which may fail. Every event carries the login handler with the credentials in force at that time.
\<close>

datatype ending = Crashed | ShutDown go_time "error option"

record server_run =
  run_start :: go_time
  run_events :: "(AuthHandler \<times> auth_event) list"
  run_end :: ending

definition authSteps :: "(AuthHandler \<times> auth_event) list \<Rightarrow> AuthState \<Rightarrow> AuthState" where
  "authSteps = fold (\<lambda>(h, ev). authStep h ev)"

definition startAuth :: "duration \<Rightarrow> go_time \<Rightarrow> session_table \<Rightarrow> AuthState" where
  "startAuth d now tbl = \<lparr>au_store = LoadFromDB now tbl (NewStore d), au_limiter = NewLoginRateLimiter, au_waiting = []\<rparr>"

definition stateOf :: "duration \<Rightarrow> session_table \<Rightarrow> server_run \<Rightarrow> AuthState" where
  "stateOf d tbl R = authSteps (run_events R) (startAuth d (run_start R) tbl)"

definition tableAfter :: "duration \<Rightarrow> server_run list \<Rightarrow> session_table" where
  "tableAfter d Rs = fold (\<lambda>R tbl. case run_end R of Crashed \<Rightarrow> tbl
      | ShutDown now fault \<Rightarrow> fst (PersistToDB now fault (au_store (stateOf d tbl R)) tbl)) Rs Map.empty"

text \<open>In the run a login with the credentials that were in force then was given the token.\<close>

definition loggedIn :: "server_run \<Rightarrow> string \<Rightarrow> bool" where
  "loggedIn R token \<longleftrightarrow> (\<exists>h now nonce r. (h, EvAnswer now token nonce r) \<in> set (run_events R)
     \<and> credentialsOK h (rq_Form r ''username'') (rq_Form r ''password''))"

lemma authSteps_sessions:
  "sessions (au_store (authSteps evs st)) token \<noteq> None \<Longrightarrow> sessions (au_store st) token \<noteq> None \<or> (\<exists>(h, ev) \<in> set evs. givenOut h [ev] token)"
proof (induction evs arbitrary: st)
  case (Cons x evs)
  then show ?case using authStep_sessions [of "fst x" "snd x" st token] by (fastforce simp: authSteps_def split: prod.splits)
qed (simp add: authSteps_def)

lemma stateOf_sessions: "sessions (au_store (stateOf d tbl R)) token \<noteq> None \<Longrightarrow> tbl token \<noteq> None \<or> loggedIn R token"
  unfolding stateOf_def
  by (drule authSteps_sessions)
    (auto simp: startAuth_def LoadFromDB_def NewStore_def loggedIn_def givenOut_def split: option.splits if_splits)

lemma tableAfter_sessions: "tableAfter d Rs token \<noteq> None \<Longrightarrow> \<exists>R \<in> set Rs. loggedIn R token"
proof (induction Rs rule: rev_induct)
  case (snoc R Rs)
  have "tableAfter d (Rs @ [R]) token \<noteq> None \<Longrightarrow> tableAfter d Rs token \<noteq> None \<or> sessions (au_store (stateOf d (tableAfter d Rs) R)) token \<noteq> None"
    by (auto simp: tableAfter_def PersistToDB_def Let_def split: ending.splits option.splits)
  then show ?case using snoc stateOf_sessions by fastforce
qed (simp add: tableAfter_def)

text \<open>
  C14. No page of the dashboard can be reached around the guards: whatever the method, the path and the history of the program over any number of restarts and crashes, a handler other than the
  static files, the liveness probe, the metrics and the login form (GetLogin and PostLogin) runs only for a request that carries the token of a login
  with the right credentials, in this run or in an earlier one that saved its sessions, whose session is alive. Every handler reached by a method other than GET and HEAD runs only with a
  valid pair of CSRF cookie and token, with three exceptions: PostLogin, PostLogout, which ends the session of the request, and PostScan.
\<close>

theorem every_route_guarded:
  assumes "serve mac m now method r (au_store (stateOf d (tableAfter d earlier) R)) = (st', Runs f)"
  shows "(f \<notin> set openHandlers \<longrightarrow>
       (\<exists>token sess R'. rq_Cookie r sessionCookieName = Some token \<and> R' \<in> set (earlier @ [R]) \<and> loggedIn R' token
          \<and> Require m now r (au_store (stateOf d (tableAfter d earlier) R)) = (st', Inr sess) \<and> \<not> dead now sess))
    \<and> (method \<notin> {''GET'', ''HEAD''} \<and> f \<notin> {''PostLogin'', ''PostLogout'', ''PostScan''} \<longrightarrow> CSRF mac m r = None)"
proof -
  let ?st = "au_store (stateOf d (tableAfter d earlier) R)"
  obtain pm pp g where t: "(pm, pp, g, f) \<in> set routes" "methodMatches pm method"
    and q: "g \<noteq> Open \<longrightarrow> (\<exists>sess. Require m now r ?st = (st', Inr sess))" "g = LoginCSRF \<longrightarrow> CSRF mac m r = None"
    using serve_Runs [OF assms] by blast
  have g: "(g = Open \<longrightarrow> f \<in> set openHandlers) \<and> (g = LoginCSRF \<or> pm = ''GET'' \<or> f \<in> set unsignedHandlers)"
    using table_guarded t(1) by (force simp: list_all_iff)
  have "\<exists>token. rq_Cookie r sessionCookieName = Some token \<and> (\<exists>R' \<in> set (earlier @ [R]). loggedIn R' token) \<and> \<not> dead now sess"
    if req: "Require m now r ?st = (st', Inr sess)" for sess
  proof -
    obtain token s where s: "rq_Cookie r sessionCookieName = Some token" "sessions ?st token = Some s" "sess = s\<lparr>se_LastSeenAt := now\<rparr>" "\<not> dead now s"
      using Require_passes [OF req] by blast
    have "tableAfter d earlier token \<noteq> None \<or> loggedIn R token" using stateOf_sessions [of d "tableAfter d earlier" R token] s(2) by simp
    then have "\<exists>R' \<in> set (earlier @ [R]). loggedIn R' token" using tableAfter_sessions [of d earlier token] by auto
    moreover have "\<not> dead now sess" using s(3,4) by (simp add: dead_def defaultIdleTimeout_def hours_def)
    ultimately show ?thesis using s(1) by blast
  qed
  then show ?thesis using q g t(2) by (fastforce simp: methodMatches_def unsignedHandlers_def)
qed

section \<open>Witness\<close>

definition demoRun :: server_run where
  "demoRun = \<lparr>run_start = 0, run_events = [(demoHandler, EvLogin 0 demoRequest), (demoHandler, EvAnswer 0 ''tok'' [1] demoRequest)], run_end = Crashed\<rparr>"

lemma every_route_guarded_witness:
  "\<exists>st' token R. serve demoMac demoMW 5 ''GET'' (sessionRequest\<lparr>rq_Path := ''/settings''\<rparr>) (au_store demoAuth) = (st', Runs ''GetSettings'')
     \<and> R \<in> set [demoRun] \<and> loggedIn R token"
proof -
  let ?r = "sessionRequest\<lparr>rq_Path := ''/settings''\<rparr>"
  obtain st' sess where "Require demoMW 5 ?r (au_store demoAuth) = (st', Inr sess)"
    using demo_session [of ?r demoMW] by (auto simp: sessionRequest_def)
  moreover have "findHandler ''GET'' ''/settings'' = Found (''GET'', ''/settings'', Login, ''GetSettings'')" by code_simp
  ultimately have s: "serve demoMac demoMW 5 ''GET'' ?r (au_store demoAuth) = (st', Runs ''GetSettings'')"
    by (simp add: serve_def)
  have run: "stateOf (hours 1) (tableAfter (hours 1) []) demoRun = demoAuth"
    by (simp add: stateOf_def tableAfter_def demoRun_def startAuth_def authSteps_def demoAuth_def initAuth_def LoadFromDB_def NewStore_def)
  from every_route_guarded [of demoMac demoMW 5 "''GET''" ?r "hours 1" "[]" demoRun st' "''GetSettings''"] s show ?thesis
    unfolding run by (auto simp: openHandlers_def)
qed

end
