(* ===== verification/Encrypted.thy ===== *)
theory Encrypted
  imports Models
begin

text \<open>
  Encrypted columns (\<^verbatim>\<open>app/db/encrypted.go\<close>): \<^verbatim>\<open>EncryptedString\<close> with its \<^verbatim>\<open>Value\<close> and \<^verbatim>\<open>Scan\<close>, over a model of
  \<^verbatim>\<open>base64.StdEncoding\<close>. AES-GCM and the random source are arguments.
\<close>

section \<open>Package encoding/base64\<close>

definition b64Digit :: "nat \<Rightarrow> char" where
  "b64Digit n =
     (if n < 26 then char_of (65 + n) else if n < 52 then char_of (71 + n) else if n < 62 then char_of (n - 4)
      else if n = 62 then CHR ''+'' else CHR ''/'')"

definition b64Value :: "char \<Rightarrow> nat option" where
  "b64Value c =
     (let n = of_char c :: nat
      in if 65 \<le> n \<and> n \<le> 90 then Some (n - 65)
         else if 97 \<le> n \<and> n \<le> 122 then Some (n - 71)
         else if 48 \<le> n \<and> n \<le> 57 then Some (n + 4)
         else if c = CHR ''+'' then Some 62
         else if c = CHR ''/'' then Some 63 else None)"

definition quad :: "nat \<Rightarrow> char list" where
  "quad n = [b64Digit (n div 262144), b64Digit (n div 4096 mod 64), b64Digit (n div 64 mod 64), b64Digit (n mod 64)]"

fun EncodeToString :: "string \<Rightarrow> string" where
  "EncodeToString [] = []"
| "EncodeToString [x] = take 2 (quad (of_char x * 65536)) @ ''==''"
| "EncodeToString [x, y] = take 3 (quad (of_char x * 65536 + of_char y * 256)) @ ''=''"
| "EncodeToString (x # y # z # s) = quad (of_char x * 65536 + of_char y * 256 + of_char z) @ EncodeToString s"

definition triple :: "nat \<Rightarrow> char list" where
  "triple n = [char_of (n div 65536), char_of (n div 256), char_of n]"

text \<open>The decoder after line breaks are dropped: groups of four, padding only at the end; bits left over are ignored.\<close>

fun b64Groups :: "string \<Rightarrow> string option" where
  "b64Groups [] = Some []"
| "b64Groups (a # b # c # d # s) =
     (case (b64Value a, b64Value b) of
        (Some i, Some j) \<Rightarrow>
          if c = CHR ''='' then (if d = CHR ''='' \<and> s = [] then Some (take 1 (triple (i * 262144 + j * 4096))) else None)
          else (case b64Value c of
                  None \<Rightarrow> None
                | Some k \<Rightarrow>
                    if d = CHR ''='' then (if s = [] then Some (take 2 (triple (i * 262144 + j * 4096 + k * 64))) else None)
                    else (case b64Value d of
                            None \<Rightarrow> None
                          | Some l \<Rightarrow> map_option (\<lambda>r. triple (i * 262144 + j * 4096 + k * 64 + l) @ r) (b64Groups s)))
      | _ \<Rightarrow> None)"
| "b64Groups _ = None"

definition DecodeString :: "string \<Rightarrow> string option" where
  "DecodeString s = b64Groups (filter (\<lambda>c. c \<noteq> CHR 0x0A \<and> c \<noteq> CHR 0x0D) s)"

section \<open>EncryptedString\<close>

record gcm =
  gcm_Seal :: "string \<Rightarrow> string \<Rightarrow> string \<Rightarrow> string"            \<comment> \<open>key, nonce, plaintext\<close>
  gcm_Open :: "string \<Rightarrow> string \<Rightarrow> string \<Rightarrow> string option"

definition nonceSize :: nat where "nonceSize = 12"
definition encPrefix :: string where "encPrefix = ''enc:''"

definition aesKeyOK :: "string \<Rightarrow> bool" where
  "aesKeyOK key \<longleftrightarrow> length key \<in> {16, 24, 32}"

definition gcmEncrypt :: "gcm \<Rightarrow> string \<Rightarrow> string result \<Rightarrow> string \<Rightarrow> string result" where
  "gcmEncrypt g key rnd plaintext =
     (if \<not> aesKeyOK key then Inl ''crypto/aes: invalid key size''
      else (case rnd of Inl e \<Rightarrow> Inl e | Inr nonce \<Rightarrow> Inr (nonce @ gcm_Seal g key nonce plaintext)))"

definition gcmDecrypt :: "gcm \<Rightarrow> string \<Rightarrow> string \<Rightarrow> string result" where
  "gcmDecrypt g key d =
     (if \<not> aesKeyOK key then Inl ''crypto/aes: invalid key size''
      else if length d < nonceSize then Inl ''ciphertext too short''
      else (case gcm_Open g key (take nonceSize d) (drop nonceSize d) of
              None \<Rightarrow> Inl ''cipher: message authentication failed'' | Some p \<Rightarrow> Inr p))"

definition Value :: "gcm \<Rightarrow> string \<Rightarrow> string result \<Rightarrow> string \<Rightarrow> string result" where
  "Value g key rnd plaintext =
     (if key = [] then Inr plaintext
      else (case gcmEncrypt g key rnd plaintext of
              Inl e \<Rightarrow> Inl (''encrypted field: encrypt: '' @ e)
            | Inr ciphertext \<Rightarrow> Inr (encPrefix @ EncodeToString ciphertext)))"

datatype src = SrcNil | SrcText string | SrcOther

definition ScanColumn :: "gcm \<Rightarrow> string \<Rightarrow> src \<Rightarrow> string result" where
  "ScanColumn g key s =
     (case s of
        SrcNil \<Rightarrow> Inr []
      | SrcOther \<Rightarrow> Inl ''encrypted field: unsupported source type''
      | SrcText raw \<Rightarrow>
          if key = [] \<or> \<not> hasPrefix raw encPrefix then Inr raw
          else (case DecodeString (drop (length encPrefix) raw) of
                  None \<Rightarrow> Inr raw
                | Some decoded \<Rightarrow>
                    (case gcmDecrypt g key decoded of Inl e \<Rightarrow> Inl (''encrypted field: decrypt: '' @ e) | Inr p \<Rightarrow> Inr p)))"

text \<open>\<^verbatim>\<open>encryptSetting\<close> of the settings handler falls back to the plain text when the encryption fails.\<close>

definition encryptSetting :: "gcm \<Rightarrow> string \<Rightarrow> string result \<Rightarrow> string \<Rightarrow> string" where
  "encryptSetting g key rnd plaintext = (case Value g key rnd plaintext of Inl _ \<Rightarrow> plaintext | Inr v \<Rightarrow> v)"

section \<open>Base64 round trip\<close>

lemma b64Value_Digit: "n < 64 \<Longrightarrow> b64Value (b64Digit n) = Some n"
proof -
  assume "n < 64"
  then consider "n < 26" | "26 \<le> n" "n < 52" | "52 \<le> n" "n < 62" | "n = 62" | "n = 63" by linarith
  then show ?thesis by cases (auto simp: b64Value_def b64Digit_def Let_def)
qed

lemma b64Value_alphabet: "b64Value c = Some n \<Longrightarrow> c \<notin> {CHR ''='', CHR 0x0A, CHR 0x0D}"
  by (auto simp: b64Value_def Let_def)

lemma recombine: "q div 64 * (64 * k) + q mod 64 * k = q * (k::nat)"
proof -
  have "(q div 64 * 64 + q mod 64) * k = q * k" by (simp only: div_mult_mod_eq)
  then show ?thesis by (simp only: add_mult_distrib mult.assoc)
qed

lemma sextets:
  assumes "n < 16777216"
  shows "n div 262144 < 64" "n div 262144 * 262144 + n div 4096 mod 64 * 4096 + n div 64 mod 64 * 64 + n mod 64 = (n::nat)"
proof -
  have "n div 4096 = n div 64 div 64" "n div 262144 = n div 64 div 64 div 64" by (simp_all flip: div_mult2_eq)
  then show "n div 262144 * 262144 + n div 4096 mod 64 * 4096 + n div 64 mod 64 * 64 + n mod 64 = n"
    using recombine [of "n div 64 div 64" 4096] recombine [of "n div 64" 64] recombine [of n 1] by simp
qed (use assms in simp)

lemma pack_div:
  fixes x y z :: nat
  assumes "y < 256" and "z < 256"
  shows "(x * 65536 + y * 256 + z) div 65536 = x" "(x * 65536 + y * 256 + z) div 256 = x * 256 + y"
    "(x * 65536 + y * 256 + z) mod 256 = z"
proof -
  have "x * 65536 + y * 256 + z = 256 * (x * 256 + y) + z" by simp
  then show d: "(x * 65536 + y * 256 + z) div 256 = x * 256 + y" and "(x * 65536 + y * 256 + z) mod 256 = z"
    using assms(2) by (simp_all only: div_mult_self4 mod_mult_self4) simp_all
  have "(x * 65536 + y * 256 + z) div 65536 = (x * 65536 + y * 256 + z) div 256 div 256" by (simp flip: div_mult2_eq)
  also have "\<dots> = (256 * x + y) div 256" unfolding d by (simp add: mult.commute)
  also have "\<dots> = x" using assms(1) by simp
  finally show "(x * 65536 + y * 256 + z) div 65536 = x" .
qed

lemma octets: "triple (of_char x * 65536 + of_char y * 256 + of_char z) = [x, y, z]"
proof -
  have "of_char y < (256::nat)" "of_char z < (256::nat)" by simp_all
  note p = pack_div [OF this, of "of_char x"]
  have "take_bit 8 (of_char x * 256 + of_char y :: nat) = of_char y"
    "take_bit 8 (of_char x * 65536 + of_char y * 256 + of_char z :: nat) = of_char z"
    using p(3) by (simp_all add: take_bit_eq_mod)
  then show ?thesis unfolding triple_def using p by (simp add: char_of_eq_iff)
qed

lemma b64Groups_quad:
  assumes "n < 16777216"
  shows "b64Groups (quad n @ s) = map_option (\<lambda>r. triple n @ r) (b64Groups s)"
    and "n mod 4096 = 0 \<Longrightarrow> b64Groups (take 2 (quad n) @ ''=='') = Some (take 1 (triple n))"
    and "n mod 64 = 0 \<Longrightarrow> b64Groups (take 3 (quad n) @ ''='') = Some (take 2 (triple n))"
proof -
  note v = b64Value_Digit [OF sextets(1) [OF assms]] b64Value_Digit [of "n div 4096 mod 64"] b64Value_Digit [of "n div 64 mod 64"]
    b64Value_Digit [of "n mod 64"]
  have alpha: "b64Digit k \<noteq> CHR ''=''" if "k < 64" for k using b64Value_alphabet [OF b64Value_Digit [OF that]] by simp
  note s = sextets(2) [OF assms]
  show "b64Groups (quad n @ s) = map_option (\<lambda>r. triple n @ r) (b64Groups s)"
    using v alpha s by (simp add: quad_def)
  show "b64Groups (take 2 (quad n) @ ''=='') = Some (take 1 (triple n))" if "n mod 4096 = 0"
  proof -
    have "n mod (64 * 64) = 64 * (n div 64 mod 64) + n mod 64" by (rule mod_mult2_eq)
    then have "n div 64 mod 64 = 0" "n mod 64 = 0" using that by simp_all
    then show ?thesis using v s by (simp add: quad_def numeral_2_eq_2)
  qed
  show "b64Groups (take 3 (quad n) @ ''='') = Some (take 2 (triple n))" if "n mod 64 = 0"
    using v alpha s that by (simp add: quad_def numeral_3_eq_3)
qed

lemma packed_bound: "of_char x * 65536 + of_char y * 256 + of_char z < (16777216 :: nat)"
proof -
  have "of_char x < (256::nat)" "of_char y < (256::nat)" "of_char z < (256::nat)" by simp_all
  then show ?thesis by linarith
qed

lemma b64Groups_Encode: "b64Groups (EncodeToString s) = Some s"
proof (induction s rule: EncodeToString.induct)
  case (2 x)
  have "of_char x * 65536 < (16777216::nat)" using packed_bound [of x "CHR 0x00" "CHR 0x00"] by simp
  moreover have "triple (of_char x * 65536) = [x, CHR 0x00, CHR 0x00]" using octets [of x "CHR 0x00" "CHR 0x00"] by simp
  ultimately show ?case using b64Groups_quad(2) [of "of_char x * 65536"] by (simp add: mod_mult_right_eq)
next
  case (3 x y)
  have "of_char x * 65536 + of_char y * 256 < (16777216::nat)" using packed_bound [of x y "CHR 0x00"] by simp
  moreover have "triple (of_char x * 65536 + of_char y * 256) = [x, y, CHR 0x00]" using octets [of x y "CHR 0x00"] by simp
  moreover have "of_char x * 65536 + of_char y * 256 = 64 * (of_char x * 1024 + of_char y * 4 :: nat)" by simp
  then have "(of_char x * 65536 + of_char y * 256) mod 64 = (0::nat)" by (simp only: mod_mult_self1_is_0)
  ultimately show ?case using b64Groups_quad(3) [of "of_char x * 65536 + of_char y * 256"] by (simp add: numeral_2_eq_2)
next
  case (4 x y z s)
  then show ?case using b64Groups_quad(1) [OF packed_bound [of x y z], of "EncodeToString s"] by (simp add: octets)
qed simp

lemma Encode_no_breaks: "c \<in> set (EncodeToString s) \<Longrightarrow> c \<noteq> CHR 0x0A \<and> c \<noteq> CHR 0x0D"
proof -
  have d: "b64Digit k \<noteq> CHR 0x0A \<and> b64Digit k \<noteq> CHR 0x0D" if "k < 64" for k
    using b64Value_alphabet [OF b64Value_Digit [OF that]] by simp
  have q: "c \<noteq> CHR 0x0A \<and> c \<noteq> CHR 0x0D" if "c \<in> set (quad n)" "n < 16777216" for n
    using that d [OF sextets(1) [OF that(2)]] d [of "n div 4096 mod 64"] d [of "n div 64 mod 64"] d [of "n mod 64"]
    by (auto simp: quad_def)
  show "c \<in> set (EncodeToString s) \<Longrightarrow> c \<noteq> CHR 0x0A \<and> c \<noteq> CHR 0x0D"
  proof (induction s rule: EncodeToString.induct)
    case (2 x)
    then have "c \<in> set (quad (of_char x * 65536)) \<or> c = CHR ''=''" by (auto dest: in_set_takeD)
    then show ?case using q [of "of_char x * 65536"] packed_bound [of x "CHR 0x00" "CHR 0x00"] by auto
  next
    case (3 x y)
    then have "c \<in> set (quad (of_char x * 65536 + of_char y * 256)) \<or> c = CHR ''=''" by (auto dest: in_set_takeD)
    then show ?case using q [of "of_char x * 65536 + of_char y * 256"] packed_bound [of x y "CHR 0x00"] by auto
  next
    case (4 x y z s)
    then show ?case using q packed_bound [of x y z] by auto
  qed simp
qed

lemma Decode_Encode: "DecodeString (EncodeToString s) = Some s"
proof -
  have "filter (\<lambda>c. c \<noteq> CHR 0x0A \<and> c \<noteq> CHR 0x0D) (EncodeToString s) = EncodeToString s"
    using Encode_no_breaks by (auto intro: filter_True)
  then show ?thesis by (simp add: DecodeString_def b64Groups_Encode)
qed

section \<open>The column round trip\<close>

text \<open>Decryption undoes encryption under the same key and nonce, as every authenticated cipher promises.\<close>

definition gcmOK :: "gcm \<Rightarrow> bool" where
  "gcmOK g \<longleftrightarrow> (\<forall>key nonce p. gcm_Open g key nonce (gcm_Seal g key nonce p) = Some p)"

lemma column_roundtrip:
  assumes "gcmOK g" and "key = [] \<or> aesKeyOK key" and "length nonce = nonceSize"
  shows "\<exists>v. Value g key (Inr nonce) p = Inr v \<and> ScanColumn g key (SrcText v) = Inr p \<and> (key \<noteq> [] \<longrightarrow> hasPrefix v encPrefix)"
proof (cases "key = []")
  case False
  then have k: "aesKeyOK key" using assms(2) by simp
  let ?c = "nonce @ gcm_Seal g key nonce p"
  have "gcmDecrypt g key ?c = Inr p" using assms k by (simp add: gcmDecrypt_def gcmOK_def)
  then have "ScanColumn g key (SrcText (encPrefix @ EncodeToString ?c)) = Inr p"
    using False by (simp add: ScanColumn_def Decode_Encode)
  then show ?thesis using False k by (simp add: Value_def gcmEncrypt_def)
qed (simp add: Value_def ScanColumn_def)

text \<open>
  Credentials survive the database: whatever the text and the random nonce, what a secret column stores under a valid key reads back as the same
  text, the stored value is marked as encrypted, and without a key the text is stored as it is.
\<close>

theorem encrypted_column_roundtrip:
  assumes "gcmOK g" and "key = [] \<or> aesKeyOK key" and "length nonce = nonceSize"
  shows "\<exists>v. Value g key (Inr nonce) p = Inr v \<and> ScanColumn g key (SrcText v) = Inr p \<and> (key \<noteq> [] \<longrightarrow> hasPrefix v encPrefix)"
  by (rule column_roundtrip [OF assms])

text \<open>Rows from before the encryption read back as they are, unless they happen to look encrypted.\<close>

lemma legacy_column: "\<not> hasPrefix raw encPrefix \<Longrightarrow> ScanColumn g key (SrcText raw) = Inr raw"
  by (simp add: ScanColumn_def)

definition xorless :: gcm where
  "xorless = \<lparr>gcm_Seal = (\<lambda>key nonce p. rev p @ nonce), gcm_Open = (\<lambda>key nonce c. Some (rev (take (length c - length nonce) c)))\<rparr>"

lemma encrypted_column_roundtrip_witness:
  "\<exists>v. Value xorless (replicate 32 CHR ''k'') (Inr (replicate 12 CHR ''n'')) ''secret'' = Inr v
     \<and> ScanColumn xorless (replicate 32 CHR ''k'') (SrcText v) = Inr ''secret''"
proof -
  have "gcmOK xorless" by (simp add: gcmOK_def xorless_def)
  from encrypted_column_roundtrip [OF this, of "replicate 32 CHR ''k''" "replicate 12 CHR ''n''" "''secret''"] show ?thesis
    by (auto simp: aesKeyOK_def nonceSize_def)
qed

end
