(* ===== verification/Mailbox.thy ===== *)
theory Mailbox
  imports Config ScanRecord
begin

text \<open>
  What the program does on the mail server outside the listener (\<^verbatim>\<open>app/imap\<close>): moving, releasing, deleting and flagging messages
  with retries (\<^verbatim>\<open>actions.go\<close>), the recovery scan (\<^verbatim>\<open>recovery.go\<close>), the one-shot backfill (\<^verbatim>\<open>backfill.go\<close>) and the manager that
  starts and stops the listeners (\<^verbatim>\<open>manager.go\<close>). The mail server is an argument: what each command
  answers and how it changes the server's state.
\<close>

section \<open>The mail server\<close>

record 's server =
  sv_connect :: "'s \<Rightarrow> 's \<times> unit result"                                         \<comment> \<open>TLS dial and LOGIN\<close>
  sv_select :: "string \<Rightarrow> 's \<Rightarrow> 's \<times> unit result"
  sv_move :: "string \<Rightarrow> uint32 list \<Rightarrow> string \<Rightarrow> 's \<Rightarrow> 's \<times> uint32 list result"   \<comment> \<open>selected mailbox, UIDs, destination; COPYUID\<close>
  sv_search :: "string \<Rightarrow> uint32 \<Rightarrow> 's \<Rightarrow> 's \<times> uint32 list result"
  sv_store :: "string \<Rightarrow> uint32 list \<Rightarrow> string \<Rightarrow> 's \<Rightarrow> 's \<times> unit result"
  sv_expunge :: "string \<Rightarrow> uint32 list \<Rightarrow> 's \<Rightarrow> 's \<times> unit result"
  sv_list :: "string \<Rightarrow> 's \<Rightarrow> 's \<times> string list result"
  sv_create :: "string \<Rightarrow> 's \<Rightarrow> 's \<times> unit result"

section \<open>Retries\<close>

text \<open>\<open>n\<close> attempts may follow this one; \<open>cancelled i\<close> tells whether the context ends during the i-th pause.\<close>

fun retryWith :: "(nat \<Rightarrow> bool) \<Rightarrow> nat \<Rightarrow> nat \<Rightarrow> ('s \<Rightarrow> 's \<times> 'a result) \<Rightarrow> 's \<Rightarrow> 's \<times> 'a result" where
  "retryWith cancelled i 0 fn s = fn s"
| "retryWith cancelled i (Suc n) fn s =
     (case fn s of
        (s', Inr x) \<Rightarrow> (s', Inr x)
      | (s', Inl e) \<Rightarrow> if cancelled i then (s', Inl ''context canceled'') else retryWith cancelled (Suc i) n fn s')"

definition withRetry :: "(nat \<Rightarrow> bool) \<Rightarrow> ('s \<Rightarrow> 's \<times> 'a result) \<Rightarrow> 's \<Rightarrow> 's \<times> 'a result" where
  "withRetry cancelled fn = retryWith cancelled 0 2 fn"

definition withSelectedMailbox :: "'s server \<Rightarrow> string \<Rightarrow> ('s \<Rightarrow> 's \<times> 'a result) \<Rightarrow> 's \<Rightarrow> 's \<times> 'a result" where
  "withSelectedMailbox srv mbox fn s =
     (case sv_connect srv s of
        (s1, Inl e) \<Rightarrow> (s1, Inl e)
      | (s1, Inr _) \<Rightarrow>
          (case sv_select srv mbox s1 of
             (s2, Inl e) \<Rightarrow> (s2, Inl (''select '' @ mbox @ '': '' @ e))
           | (s2, Inr _) \<Rightarrow> fn s2))"

section \<open>Actions\<close>

definition MessageExists :: "'s server \<Rightarrow> string \<Rightarrow> uint32 \<Rightarrow> 's \<Rightarrow> 's \<times> bool result" where
  "MessageExists srv mbox uid =
     withSelectedMailbox srv mbox (\<lambda>s. case sv_search srv mbox uid s of
        (s', Inl e) \<Rightarrow> (s', Inl e) | (s', Inr uids) \<Rightarrow> (s', Inr (uids \<noteq> [])))"

definition moveOnce :: "'s server \<Rightarrow> AccountConfig \<Rightarrow> string \<Rightarrow> uint32 \<Rightarrow> 's \<Rightarrow> 's \<times> uint32 result" where
  "moveOnce srv a mbox uid =
     withSelectedMailbox srv mbox (\<lambda>s. case sv_move srv mbox [uid] (acc_Quarantine a) s of
        (s', Inl e) \<Rightarrow> (s', Inl e)
      | (s', Inr destUIDs) \<Rightarrow> (s', Inr (if destUIDs = [] then 0 else hd destUIDs)))"

definition MoveToQuarantine ::
  "'s server \<Rightarrow> (nat \<Rightarrow> bool) \<Rightarrow> AccountConfig \<Rightarrow> string \<Rightarrow> uint32 \<Rightarrow> 's \<Rightarrow> 's \<times> (uint32 \<times> string) result" where
  "MoveToQuarantine srv cancelled a mbox uid s =
     (case withRetry cancelled (moveOnce srv a mbox uid) s of
        (s1, Inr newUID) \<Rightarrow> (s1, Inr (newUID, acc_Quarantine a))
      | (s1, Inl err) \<Rightarrow>
          (case MessageExists srv mbox uid s1 of
             (s2, Inr False) \<Rightarrow> (s2, Inr (0, acc_Quarantine a))
           | (s2, _) \<Rightarrow> (s2, Inl err)))"

text \<open>\<open>BulkReleaseToInbox\<close> with one UID is \<open>ReleaseToInbox\<close>; the same holds of the deletions.\<close>

definition moveBack :: "'s server \<Rightarrow> (nat \<Rightarrow> bool) \<Rightarrow> AccountConfig \<Rightarrow> uint32 list \<Rightarrow> 's \<Rightarrow> 's \<times> unit result" where
  "moveBack srv cancelled a uids =
     withRetry cancelled (withSelectedMailbox srv (acc_Quarantine a)
       (\<lambda>s. case sv_move srv (acc_Quarantine a) uids (acc_Mailbox a) s of
              (s', Inl e) \<Rightarrow> (s', Inl e) | (s', Inr _) \<Rightarrow> (s', Inr ())))"

definition ReleaseToInbox :: "'s server \<Rightarrow> (nat \<Rightarrow> bool) \<Rightarrow> AccountConfig \<Rightarrow> uint32 \<Rightarrow> 's \<Rightarrow> 's \<times> unit result" where
  "ReleaseToInbox srv cancelled a uid = moveBack srv cancelled a [uid]"

definition BulkReleaseToInbox :: "'s server \<Rightarrow> (nat \<Rightarrow> bool) \<Rightarrow> AccountConfig \<Rightarrow> uint32 list \<Rightarrow> 's \<Rightarrow> 's \<times> unit result" where
  "BulkReleaseToInbox srv cancelled a uids s = (if uids = [] then (s, Inr ()) else moveBack srv cancelled a uids s)"

definition expungeUIDs :: "'s server \<Rightarrow> (nat \<Rightarrow> bool) \<Rightarrow> string \<Rightarrow> uint32 list \<Rightarrow> 's \<Rightarrow> 's \<times> unit result" where
  "expungeUIDs srv cancelled mbox uids =
     withRetry cancelled (withSelectedMailbox srv mbox
       (\<lambda>s. case sv_store srv mbox uids ''Deleted'' s of
              (s', Inl e) \<Rightarrow> (s', Inl (''store Deleted: '' @ e))
            | (s', Inr _) \<Rightarrow> sv_expunge srv mbox uids s'))"

definition DeleteMessage :: "'s server \<Rightarrow> (nat \<Rightarrow> bool) \<Rightarrow> string \<Rightarrow> uint32 \<Rightarrow> 's \<Rightarrow> 's \<times> unit result" where
  "DeleteMessage srv cancelled mbox uid = expungeUIDs srv cancelled mbox [uid]"

definition BulkDeleteMessages :: "'s server \<Rightarrow> (nat \<Rightarrow> bool) \<Rightarrow> string \<Rightarrow> uint32 list \<Rightarrow> 's \<Rightarrow> 's \<times> unit result" where
  "BulkDeleteMessages srv cancelled mbox uids s = (if uids = [] then (s, Inr ()) else expungeUIDs srv cancelled mbox uids s)"

definition FlagMessage :: "'s server \<Rightarrow> (nat \<Rightarrow> bool) \<Rightarrow> string \<Rightarrow> uint32 \<Rightarrow> 's \<Rightarrow> 's \<times> unit result" where
  "FlagMessage srv cancelled mbox uid =
     withRetry cancelled (withSelectedMailbox srv mbox (sv_store srv mbox [uid] ''Flagged''))"

definition EnsureFolderExists :: "'s server \<Rightarrow> AccountConfig \<Rightarrow> 's \<Rightarrow> 's \<times> unit result" where
  "EnsureFolderExists srv a s =
     (case sv_connect srv s of
        (s1, Inl e) \<Rightarrow> (s1, Inl e)
      | (s1, Inr _) \<Rightarrow>
          (case sv_list srv (acc_Quarantine a) s1 of
             (s2, Inl e) \<Rightarrow> (s2, Inl (''list folders: '' @ e))
           | (s2, Inr mbs) \<Rightarrow> if acc_Quarantine a \<in> set mbs then (s2, Inr ()) else sv_create srv (acc_Quarantine a) s2))"

section \<open>Recovery and backfill\<close>

text \<open>A fetched message: sequence number, UID and body.\<close>

record fetched =
  fm_SeqNum :: uint32
  fm_UID :: uint32
  fm_Raw :: string

text \<open>
  The answers of the server during a scan: connecting and selecting, the UNSEEN search, the UIDs of a sequence set, the bodies of one, and
  whether the final STORE works. \<open>sc_store\<close> only produces a log line.
\<close>

record scan_net =
  sc_connect :: "unit result"
  sc_search :: "uint32 list result"
  sc_uids :: "uint32 list \<Rightarrow> fetched list result"
  sc_bodies :: "uint32 list \<Rightarrow> fetched list result"

text \<open>What a scan did: the messages given to \<^verbatim>\<open>onEmail\<close>, the UIDs marked \<^verbatim>\<open>\Seen\<close> after they all returned, and the outcome.\<close>

record scan_report =
  sp_dispatched :: "(uint32 \<times> string) list"
  sp_markSeen :: "uint32 list"
  sp_result :: "unit result"

definition nothing :: "unit result \<Rightarrow> scan_report" where
  "nothing r = \<lparr>sp_dispatched = [], sp_markSeen = [], sp_result = r\<rparr>"

definition recorded :: "db \<Rightarrow> AccountConfig \<Rightarrow> uint32 \<Rightarrow> bool" where
  "recorded d a uid \<longleftrightarrow> MakeAccountUID (acc_Name a) (acc_Mailbox a) uid \<in> AccountUID ` set (scans d)"

definition dispatchable :: "fetched list \<Rightarrow> (uint32 \<times> string) list" where
  "dispatchable msgs = map (\<lambda>m. (fm_UID m, fm_Raw m)) (filter (\<lambda>m. fm_Raw m \<noteq> []) msgs)"

definition Recovery_scan :: "scan_net \<Rightarrow> AccountConfig \<Rightarrow> db \<Rightarrow> scan_report" where
  "Recovery_scan net a d =
     (case sc_connect net of Inl e \<Rightarrow> nothing (Inl e) | Inr _ \<Rightarrow>
      case sc_search net of Inl e \<Rightarrow> nothing (Inl (''search: '' @ e)) | Inr seqNums \<Rightarrow>
      if seqNums = [] then nothing (Inr ()) else
      case sc_uids net seqNums of Inl e \<Rightarrow> nothing (Inl (''fetch UIDs: '' @ e)) | Inr uidMessages \<Rightarrow>
      let unknownSeqs = map fm_SeqNum (filter (\<lambda>m. \<not> recorded d a (fm_UID m)) uidMessages) in
      if unknownSeqs = [] then nothing (Inr ()) else
      case sc_bodies net unknownSeqs of Inl e \<Rightarrow> nothing (Inl (''fetch messages: '' @ e)) | Inr full \<Rightarrow>
      \<lparr>sp_dispatched = dispatchable full, sp_markSeen = map fst (dispatchable full), sp_result = Inr ()\<rparr>)"

text \<open>Backfill: all messages of the window, the UIDs of the mailbox that the database knows, and the bodies streamed one by one.\<close>

record backfill_net =
  bf_connect :: "unit result"
  bf_search :: "int option \<Rightarrow> uint32 list result"      \<comment> \<open>how many days back, or everything\<close>
  bf_stream :: "uint32 list \<Rightarrow> (fetched result) list"   \<comment> \<open>a failed element is skipped\<close>
  bf_dbFails :: "error option"
  bf_stop :: "nat \<Rightarrow> bool"                              \<comment> \<open>the context is done when the n-th slot is requested\<close>

fun streamUntil :: "(nat \<Rightarrow> bool) \<Rightarrow> nat \<Rightarrow> fetched list \<Rightarrow> (uint32 \<times> string) list" where
  "streamUntil stop n [] = []"
| "streamUntil stop n (m # ms) =
     (if fm_Raw m = [] then streamUntil stop n ms
      else if stop n then []
      else (fm_UID m, fm_Raw m) # streamUntil stop (Suc n) ms)"

fun oks :: "'a result list \<Rightarrow> 'a list" where
  "oks [] = []"
| "oks (Inl _ # rs) = oks rs"
| "oks (Inr x # rs) = x # oks rs"

definition Backfill_scan :: "backfill_net \<Rightarrow> AccountConfig \<Rightarrow> db \<Rightarrow> scan_report" where
  "Backfill_scan net a d =
     (case bf_connect net of Inl e \<Rightarrow> nothing (Inl e) | Inr _ \<Rightarrow>
      case bf_search net (if acc_BackfillDays a > 0 then Some (acc_BackfillDays a) else None) of
        Inl e \<Rightarrow> nothing (Inl (''uid search: '' @ e)) | Inr allUIDs \<Rightarrow>
      if allUIDs = [] then nothing (Inr ()) else
      case bf_dbFails net of Some e \<Rightarrow> nothing (Inl (''db uid lookup: '' @ e)) | None \<Rightarrow>
      let known = map IMAPUID (filter (\<lambda>s. AccountName s = acc_Name a \<and> IMAPMailbox s = acc_Mailbox a) (scans d));
          newUIDs = filter (\<lambda>u. u \<notin> set known) allUIDs in
      if newUIDs = [] then nothing (Inr ()) else
      \<lparr>sp_dispatched = streamUntil (bf_stop net) 0 (oks (bf_stream net newUIDs)), sp_markSeen = [], sp_result = Inr ()\<rparr>)"

definition Backfill_Run :: "backfill_net \<Rightarrow> AccountConfig \<Rightarrow> db \<Rightarrow> scan_report" where
  "Backfill_Run net a d = (if acc_BackfillDays a = 0 then nothing (Inr ()) else Backfill_scan net a d)"

section \<open>The manager of the listeners\<close>

text \<open>\<open>mg_cancels\<close> holds the context of each account; \<open>mg_started\<close> and \<open>mg_cancelled\<close> record which contexts exist and which are over.\<close>

record manager =
  mg_cancels :: "string \<rightharpoonup> nat"
  mg_started :: "(nat \<times> AccountConfig) list"
  mg_cancelled :: "nat set"

definition NewManager :: manager where
  "NewManager = \<lparr>mg_cancels = Map.empty, mg_started = [], mg_cancelled = {}\<rparr>"

definition Start :: "AccountConfig \<Rightarrow> manager \<Rightarrow> manager \<times> unit result" where
  "Start a m =
     (if mg_cancels m (acc_Name a) \<noteq> None then (m, Inl (''account '' @ acc_Name a @ '' already running''))
      else (let c = length (mg_started m)
            in (m\<lparr>mg_cancels := (mg_cancels m)(acc_Name a \<mapsto> c), mg_started := mg_started m @ [(c, a)]\<rparr>, Inr ())))"

definition Stop :: "string \<Rightarrow> manager \<Rightarrow> manager" where
  "Stop name m =
     (case mg_cancels m name of
        None \<Rightarrow> m
      | Some c \<Rightarrow> m\<lparr>mg_cancels := (mg_cancels m)(name := None), mg_cancelled := insert c (mg_cancelled m)\<rparr>)"

definition Restart :: "AccountConfig \<Rightarrow> manager \<Rightarrow> manager \<times> unit result" where
  "Restart a m = Start a (Stop (acc_Name a) m)"

definition IsRunning :: "string \<Rightarrow> manager \<Rightarrow> bool" where
  "IsRunning name m \<longleftrightarrow> mg_cancels m name \<noteq> None"

section \<open>What an action that succeeds has done\<close>

lemma retryWith_success: "retryWith cancelled i n fn s = (s', Inr x) \<Longrightarrow> \<exists>s0. fn s0 = (s', Inr x)"
proof (induction n arbitrary: i s)
  case (Suc n)
  obtain s1 r where "fn s = (s1, r)" by fastforce
  with Suc show ?case by (cases r) (auto split: if_splits)
qed auto

lemma withSelected_success: "withSelectedMailbox srv mbox fn s = (s', Inr x) \<Longrightarrow> \<exists>s0. fn s0 = (s', Inr x)"
  by (auto simp: withSelectedMailbox_def split: prod.splits sum.splits)

lemma retry_selected_success:
  "withRetry cancelled (withSelectedMailbox srv mbox fn) s = (s', Inr x) \<Longrightarrow> \<exists>s0. fn s0 = (s', Inr x)"
  unfolding withRetry_def by (blast dest: retryWith_success withSelected_success)

text \<open>
  C24. A reported quarantine is real: when \<^verbatim>\<open>MoveToQuarantine\<close> returns no error, the message has left the source mailbox and the folder it
  names is the quarantine folder of the account, also when the answer of the server was malformed and only the check that
  follows found the message gone. The server is trusted to have removed the UIDs of a MOVE that it acknowledges, and to find messages
  that are there.
\<close>

theorem quarantine_left_source:
  assumes "\<forall>mb uids dst s s' d. sv_move srv mb uids dst s = (s', Inr d) \<longrightarrow> (\<forall>u \<in> set uids. \<not> present s' mb u)"
    and "\<forall>mb u s s' us. sv_search srv mb u s = (s', Inr us) \<longrightarrow> present s' mb u \<longrightarrow> us \<noteq> []"
    and "MoveToQuarantine srv cancelled a mbox uid s = (s', Inr (q, dest))"
  shows "\<not> present s' mbox uid \<and> dest = acc_Quarantine a"
proof -
  obtain s1 r where r: "withRetry cancelled (moveOnce srv a mbox uid) s = (s1, r)" by fastforce
  show ?thesis
  proof (cases r)
    case (Inr newUID)
    then obtain s0 where "(case sv_move srv mbox [uid] (acc_Quarantine a) s0 of (s', Inl e) \<Rightarrow> (s', Inl e)
        | (s', Inr destUIDs) \<Rightarrow> (s', Inr (if destUIDs = [] then 0 else hd destUIDs))) = (s1, Inr newUID)"
      using retry_selected_success [OF r [unfolded moveOnce_def Inr]] by blast
    then have "\<not> present s1 mbox uid"
      using assms(1) by (fastforce split: prod.splits sum.splits)
    then show ?thesis using assms(3) r Inr by (simp add: MoveToQuarantine_def)
  next
    case (Inl e)
    with assms(3) r have "MessageExists srv mbox uid s1 = (s', Inr False)" and d: "dest = acc_Quarantine a"
      by (auto simp: MoveToQuarantine_def split: prod.splits sum.splits bool.splits)
    then obtain s0 where "sv_search srv mbox uid s0 = (s', Inr [])"
      unfolding MessageExists_def by (fastforce dest: withSelected_success split: prod.splits sum.splits)
    then show ?thesis using assms(2) d by blast
  qed
qed

section \<open>What the scans dispatch\<close>

lemma streamUntil_subset: "set (streamUntil stop n ms) \<subseteq> (\<lambda>m. (fm_UID m, fm_Raw m)) ` set ms"
  by (induction stop n ms rule: streamUntil.induct) auto

text \<open>
  The recovery scan picks up exactly what was missed: among the unseen messages, those without a row in the database are fetched, each of
  them with a body is dispatched once and then marked \<^verbatim>\<open>\Seen\<close>, and nothing else is. The server is trusted to use one numbering
  in the session: its second answer lists the requested sequence numbers with the same UIDs.
\<close>

theorem recovery_dispatches_missed:
  fixes net :: scan_net and ms :: "fetched list" and a :: AccountConfig and d :: db
  defines "q \<equiv> map fm_SeqNum (filter (\<lambda>m. \<not> recorded d a (fm_UID m)) ms)"
  assumes "sc_connect net = Inr ()" and "sc_search net = Inr seqs" and "seqs \<noteq> []" and "sc_uids net seqs = Inr ms"
    and "sc_bodies net q = Inr full" and "distinct (map fm_SeqNum ms)" and "q \<noteq> []"
    and "(\<lambda>m. (fm_SeqNum m, fm_UID m)) ` set full = {(n, u) \<in> (\<lambda>m. (fm_SeqNum m, fm_UID m)) ` set ms. n \<in> set q}"
  shows "fm_UID ` set full = {u \<in> fm_UID ` set ms. \<not> recorded d a u}
     \<and> sp_dispatched (Recovery_scan net a d) = map (\<lambda>m. (fm_UID m, fm_Raw m)) (filter (\<lambda>m. fm_Raw m \<noteq> []) full)
     \<and> sp_markSeen (Recovery_scan net a d) = map fst (sp_dispatched (Recovery_scan net a d))"
proof -
  have "sp_dispatched (Recovery_scan net a d) = dispatchable full" "sp_markSeen (Recovery_scan net a d) = map fst (dispatchable full)"
    using assms(2-6,8) by (simp_all add: Recovery_scan_def Let_def q_def)
  moreover have "fm_UID ` set full = {u \<in> fm_UID ` set ms. \<not> recorded d a u}"
  proof -
    have inj: "inj_on fm_SeqNum (set ms)" using assms(7) by (simp add: distinct_map)
    have mem: "fm_SeqNum m \<in> set q \<longleftrightarrow> \<not> recorded d a (fm_UID m)" if "m \<in> set ms" for m
    proof
      assume "fm_SeqNum m \<in> set q"
      then obtain m' where "m' \<in> set ms" "\<not> recorded d a (fm_UID m')" "fm_SeqNum m' = fm_SeqNum m" by (auto simp: q_def)
      with inj that show "\<not> recorded d a (fm_UID m)" by (metis inj_onD)
    qed (use that in \<open>auto simp: q_def\<close>)
    have "fm_UID ` set full = snd ` ((\<lambda>m. (fm_SeqNum m, fm_UID m)) ` set full)" by (simp add: image_image)
    also have "\<dots> = fm_UID ` {m \<in> set ms. fm_SeqNum m \<in> set q}" unfolding assms(9) by force
    also have "\<dots> = {u \<in> fm_UID ` set ms. \<not> recorded d a u}" using mem by auto
    finally show ?thesis .
  qed
  ultimately show ?thesis by (simp add: dispatchable_def)
qed

text \<open>
  The backfill only observes: whatever it finds it sets no flag on the server, and every message it dispatches has a UID that the database does
  not know for the account and mailbox, when the server streams only messages that were asked for.
\<close>

theorem backfill_observes:
  assumes "\<forall>uids m. Inr m \<in> set (bf_stream net uids) \<longrightarrow> fm_UID m \<in> set uids"
  shows "sp_markSeen (Backfill_Run net a d) = []
     \<and> (\<forall>(uid, raw) \<in> set (sp_dispatched (Backfill_Run net a d)). raw \<noteq> [] \<and>
         \<not> (\<exists>s \<in> set (scans d). AccountName s = acc_Name a \<and> IMAPMailbox s = acc_Mailbox a \<and> IMAPUID s = uid))"
proof -
  have oks: "x \<in> set (oks rs) \<Longrightarrow> Inr x \<in> set rs" for x :: fetched and rs
    by (induction rs rule: oks.induct) auto
  have raw: "(u, r) \<in> set (streamUntil stop n ms) \<Longrightarrow> r \<noteq> [] \<and> (\<exists>m \<in> set ms. fm_UID m = u)" for u r stop n ms
    by (induction stop n ms rule: streamUntil.induct) (auto split: if_splits)
  have stream: "r \<noteq> [] \<and> u \<in> set uids" if "(u, r) \<in> set (streamUntil stop 0 (oks (bf_stream net uids)))" for u r stop uids
    using raw [OF that] oks assms by blast
  show ?thesis
    unfolding Backfill_Run_def Backfill_scan_def nothing_def
    by (auto simp: Let_def dest!: stream split: sum.splits option.splits if_splits)
qed

section \<open>One listener per account\<close>

datatype manager_op = MgStart AccountConfig | MgStop string | MgRestart AccountConfig

fun managerStep :: "manager_op \<Rightarrow> manager \<Rightarrow> manager" where
  "managerStep (MgStart a) m = fst (Start a m)"
| "managerStep (MgStop name) m = Stop name m"
| "managerStep (MgRestart a) m = fst (Restart a m)"

definition active :: "manager \<Rightarrow> (nat \<times> AccountConfig) list" where
  "active m = filter (\<lambda>x. fst x \<notin> mg_cancelled m) (mg_started m)"

definition managerOK :: "manager \<Rightarrow> bool" where
  "managerOK m \<longleftrightarrow> map fst (mg_started m) = [0..<length (mg_started m)] \<and> mg_cancelled m \<subseteq> {..<length (mg_started m)}
     \<and> distinct (map (acc_Name \<circ> snd) (active m))
     \<and> (\<forall>name c. mg_cancels m name = Some c \<longleftrightarrow> (\<exists>a. (c, a) \<in> set (active m) \<and> acc_Name a = name))"

lemma active_names:
  assumes "managerOK m"
  shows "mg_cancels m name = None \<longleftrightarrow> name \<notin> (acc_Name \<circ> snd) ` set (active m)"
proof
  assume none: "mg_cancels m name = None"
  show "name \<notin> (acc_Name \<circ> snd) ` set (active m)"
  proof
    assume "name \<in> (acc_Name \<circ> snd) ` set (active m)"
    then obtain c a where "(c, a) \<in> set (active m)" "acc_Name a = name" by auto
    then have "mg_cancels m name = Some c" using assms by (auto simp: managerOK_def)
    with none show False by simp
  qed
next
  assume "name \<notin> (acc_Name \<circ> snd) ` set (active m)"
  moreover have "\<exists>a. (c, a) \<in> set (active m) \<and> acc_Name a = name" if "mg_cancels m name = Some c" for c
    using assms that by (auto simp: managerOK_def)
  ultimately show "mg_cancels m name = None" by (cases "mg_cancels m name") force+
qed

lemma Start_OK:
  assumes "managerOK m"
  shows "managerOK (fst (Start a m))"
proof (cases "mg_cancels m (acc_Name a)")
  case None
  let ?m = "fst (Start a m)" and ?c = "length (mg_started m)"
  have fresh: "?c \<notin> mg_cancelled m" "\<And>b. (?c, b) \<notin> set (active m)"
  proof -
    show "?c \<notin> mg_cancelled m" using assms by (auto simp: managerOK_def)
    have "fst ` set (mg_started m) = {0..<?c}" using assms by (metis managerOK_def set_map set_upt)
    then show "(?c, b) \<notin> set (active m)" for b by (force simp: active_def)
  qed
  have act: "active ?m = active m @ [(?c, a)]" using None fresh(1) by (simp add: Start_def Let_def active_def)
  have nm: "acc_Name a \<notin> (acc_Name \<circ> snd) ` set (active m)" using None active_names [OF assms] by blast
  have "mg_cancels ?m name = Some c \<longleftrightarrow> (\<exists>b. (c, b) \<in> set (active ?m) \<and> acc_Name b = name)" for name c
  proof (cases "name = acc_Name a")
    case True
    then show ?thesis using None nm by (auto simp: act) (force simp: Start_def Let_def)+
  next
    case False
    have "mg_cancels ?m name = mg_cancels m name" using None False by (simp add: Start_def Let_def)
    moreover have "mg_cancels m name = Some c \<longleftrightarrow> (\<exists>b. (c, b) \<in> set (active m) \<and> acc_Name b = name)"
      using assms by (simp add: managerOK_def)
    ultimately show ?thesis using False by (auto simp: act)
  qed
  moreover have "distinct (map (acc_Name \<circ> snd) (active ?m))" using assms nm by (auto simp: act managerOK_def)
  moreover have "map fst (mg_started ?m) = [0..<length (mg_started ?m)]" "mg_cancelled ?m \<subseteq> {..<length (mg_started ?m)}"
    using assms None by (auto simp: Start_def Let_def managerOK_def)
  ultimately show ?thesis by (simp add: managerOK_def)
qed (use assms in \<open>simp add: Start_def\<close>)

lemma Stop_OK:
  assumes "managerOK m"
  shows "managerOK (Stop name m)"
proof (cases "mg_cancels m name")
  case (Some c)
  let ?m = "Stop name m"
  obtain a where a: "(c, a) \<in> set (active m)" "acc_Name a = name" using Some assms by (auto simp: managerOK_def)
  have act: "active ?m = filter (\<lambda>x. fst x \<noteq> c) (active m)"
    using Some by (auto simp: Stop_def active_def intro: filter_cong)
  have only: "x = (c, a)" if "x \<in> set (active m)" "(acc_Name \<circ> snd) x = name" for x
    using assms a that by (auto simp: managerOK_def distinct_map inj_on_def)
  have one: "b = a" if "(c, b) \<in> set (active m)" for b
  proof -
    have "inj_on fst (set (mg_started m))" using assms by (metis managerOK_def distinct_map distinct_upt)
    moreover have "(c, b) \<in> set (mg_started m)" "(c, a) \<in> set (mg_started m)" using that a(1) by (simp_all add: active_def)
    ultimately show ?thesis by (metis fst_conv inj_onD prod.inject)
  qed
  have "mg_cancels ?m n = Some k \<longleftrightarrow> (\<exists>b. (k, b) \<in> set (active ?m) \<and> acc_Name b = n)" for n k
  proof (cases "n = name")
    case True
    have "mg_cancels ?m n = None" using Some True by (simp add: Stop_def)
    then show ?thesis using only True by (force simp: act)
  next
    case False
    have "mg_cancels ?m n = mg_cancels m n" using Some False by (simp add: Stop_def)
    moreover have "mg_cancels m n = Some k \<longleftrightarrow> (\<exists>b. (k, b) \<in> set (active m) \<and> acc_Name b = n)" using assms by (simp add: managerOK_def)
    ultimately show ?thesis using False one a(2) by (auto simp: act)
  qed
  moreover have "distinct (map (acc_Name \<circ> snd) (active ?m))" using assms by (simp add: act managerOK_def distinct_map_filter)
  moreover have "map fst (mg_started ?m) = [0..<length (mg_started ?m)]" "mg_cancelled ?m \<subseteq> {..<length (mg_started ?m)}"
  proof -
    have "c \<in> fst ` set (mg_started m)" using a(1) by (force simp: active_def)
    also have "\<dots> = {0..<length (mg_started m)}" using assms by (metis managerOK_def set_map set_upt)
    finally have "c < length (mg_started m)" by simp
    moreover have "mg_started ?m = mg_started m" "mg_cancelled ?m = insert c (mg_cancelled m)" using Some by (simp_all add: Stop_def)
    ultimately show "map fst (mg_started ?m) = [0..<length (mg_started ?m)]" "mg_cancelled ?m \<subseteq> {..<length (mg_started ?m)}"
      using assms by (simp_all add: managerOK_def)
  qed
  ultimately show ?thesis by (simp add: managerOK_def)
qed (use assms in \<open>simp add: Stop_def\<close>)

lemma manager_runs_OK: "managerOK (fold managerStep ops NewManager)"
proof -
  have "managerOK m \<Longrightarrow> managerOK (fold managerStep ops m)" for m
  proof (induction ops arbitrary: m)
    case (Cons opn ops)
    then have "managerOK (managerStep opn m)" by (cases opn) (simp_all add: Start_OK Stop_OK Restart_def)
    then show ?case by (simp add: Cons.IH)
  qed simp
  moreover have "managerOK NewManager" by (simp add: managerOK_def NewManager_def active_def)
  ultimately show ?thesis by blast
qed

text \<open>
  An account never has two listeners: after any sequence of starts, stops and restarts, the contexts that are not cancelled belong to
  different accounts, and \<^verbatim>\<open>IsRunning\<close> names exactly their accounts.
\<close>

theorem one_listener_per_account:
  "let m = fold managerStep ops NewManager; live = filter (\<lambda>x. fst x \<notin> mg_cancelled m) (mg_started m)
   in distinct (map (acc_Name \<circ> snd) live) \<and> (\<forall>name. IsRunning name m \<longleftrightarrow> name \<in> set (map (acc_Name \<circ> snd) live))"
proof -
  have "distinct (map (acc_Name \<circ> snd) (active (fold managerStep ops NewManager)))"
    using manager_runs_OK [of ops] by (simp add: managerOK_def)
  moreover have "IsRunning name (fold managerStep ops NewManager)
      \<longleftrightarrow> name \<in> (acc_Name \<circ> snd) ` set (active (fold managerStep ops NewManager))" for name
    by (simp only: IsRunning_def active_names [OF manager_runs_OK [of ops]] not_not)
  ultimately show ?thesis unfolding Let_def active_def [symmetric] set_map by simp
qed

section \<open>Witnesses\<close>

text \<open>A server that performs every move and answers with an error, as GreenMail does; its state is the mailbox's messages.\<close>

definition greenMail :: "(string \<times> uint32) list server" where
  "greenMail = \<lparr>sv_connect = (\<lambda>s. (s, Inr ())), sv_select = (\<lambda>_ s. (s, Inr ())),
     sv_move = (\<lambda>mb uids dst s. (filter (\<lambda>(m, u). \<not> (m = mb \<and> u \<in> set uids)) s, Inl ''malformed COPYUID'')),
     sv_search = (\<lambda>mb u s. (s, Inr (if (mb, u) \<in> set s then [u] else []))), sv_store = (\<lambda>_ _ _ s. (s, Inr ())),
     sv_expunge = (\<lambda>_ _ s. (s, Inr ())), sv_list = (\<lambda>_ s. (s, Inr [])), sv_create = (\<lambda>_ s. (s, Inr ()))\<rparr>"

definition demoAccount :: AccountConfig where
  "demoAccount = \<lparr>acc_Name = ''A'', acc_Host = ''h'', acc_Port = 993, acc_User = ''u'', acc_Pass = ''p'', acc_Mailbox = ''INBOX'',
     acc_Quarantine = ''Q'', acc_TLSSkipVerify = False, acc_BackfillDays = 7\<rparr>"

lemma quarantine_left_source_witness:
  "\<not> (''INBOX'', 5) \<in> set (fst (MoveToQuarantine greenMail (\<lambda>_. False) demoAccount ''INBOX'' 5 [(''INBOX'', 5)]))"
proof -
  have "MoveToQuarantine greenMail (\<lambda>_. False) demoAccount ''INBOX'' 5 [(''INBOX'', 5)] = ([], Inr (0, ''Q''))"
    by (simp add: MoveToQuarantine_def MessageExists_def moveOnce_def withRetry_def withSelectedMailbox_def greenMail_def demoAccount_def
        numeral_2_eq_2)
  from quarantine_left_source [where present = "\<lambda>s mb u. (mb, u) \<in> set s", OF _ _ this] show ?thesis
    by (simp add: greenMail_def) (simp add: MoveToQuarantine_def MessageExists_def moveOnce_def withRetry_def withSelectedMailbox_def
        demoAccount_def numeral_2_eq_2)
qed

definition demoMsg :: fetched where
  "demoMsg = \<lparr>fm_SeqNum = 1, fm_UID = 5, fm_Raw = ''x''\<rparr>"

definition demoNet :: scan_net where
  "demoNet = \<lparr>sc_connect = Inr (), sc_search = Inr [1], sc_uids = (\<lambda>_. Inr [demoMsg]), sc_bodies = (\<lambda>_. Inr [demoMsg])\<rparr>"

lemma recovery_dispatches_missed_witness: "sp_markSeen (Recovery_scan demoNet demoAccount emptyDB) = [5]"
proof -
  have "sp_dispatched (Recovery_scan demoNet demoAccount emptyDB) = map (\<lambda>m. (fm_UID m, fm_Raw m)) (filter (\<lambda>m. fm_Raw m \<noteq> []) [demoMsg])
     \<and> sp_markSeen (Recovery_scan demoNet demoAccount emptyDB) = map fst (sp_dispatched (Recovery_scan demoNet demoAccount emptyDB))"
    using recovery_dispatches_missed [of demoNet "[1]" "[demoMsg]" emptyDB demoAccount "[demoMsg]"]
    by (simp add: demoNet_def recorded_def emptyDB_def) (auto simp: demoMsg_def)
  then show ?thesis by (simp add: demoMsg_def)
qed

definition demoBackfill :: backfill_net where
  "demoBackfill = \<lparr>bf_connect = Inr (), bf_search = (\<lambda>_. Inr [5]), bf_stream = (\<lambda>uids. if 5 \<in> set uids then [Inr demoMsg] else []),
     bf_dbFails = None, bf_stop = (\<lambda>_. False)\<rparr>"

lemma backfill_observes_witness: "sp_markSeen (Backfill_Run demoBackfill demoAccount emptyDB) = []"
proof -
  have "\<forall>uids m. Inr m \<in> set (bf_stream demoBackfill uids) \<longrightarrow> fm_UID m \<in> set uids"
    by (auto simp: demoBackfill_def demoMsg_def split: if_splits)
  from backfill_observes [OF this] show ?thesis by blast
qed

end
