(* ===== verification/Notify.thy ===== *)
theory Notify
  imports UrlScanners Sessions
begin

text \<open>
  Notifications (\<^verbatim>\<open>app/notify/ntfy.go\<close>): the messages to the ntfy server and to the webhook, the masking of sender and subject, the hourly limit on
  reports of a failed scanner, and the client that only connects to public addresses. Messages go out in goroutines of their own and
  nothing waits for them; an operation returns the messages that it starts. Name resolution and the answer of the remote server are arguments.
\<close>

section \<open>Messages\<close>

record Notifier =
  nt_NtfyURL :: string
  nt_NtfyToken :: string
  nt_RedactWebhookPII :: bool
  nt_lastEngineDown :: "string \<rightharpoonup> go_time"
  nt_webhookURL :: string
  nt_webhookVerdicts :: "string list"

definition newNotifier :: "string \<Rightarrow> string \<Rightarrow> bool \<Rightarrow> Notifier" where
  "newNotifier url token masked = \<lparr>nt_NtfyURL = url, nt_NtfyToken = token, nt_RedactWebhookPII = masked,
     nt_lastEngineDown = Map.empty, nt_webhookURL = [], nt_webhookVerdicts = []\<rparr>"

record payload =
  pl_Verdict :: string
  pl_From :: string
  pl_Subject :: string
  pl_Account :: string
  pl_Confidence :: float64
  pl_Reason :: string
  pl_ReceivedAt :: go_time

datatype message =
    Ntfy (ntfy_title: string) (ntfy_priority: string) (ntfy_tags: string) (ntfy_body: string)
  | Webhook string payload

definition SetWebhook :: "string \<Rightarrow> string \<Rightarrow> Notifier \<Rightarrow> Notifier" where
  "SetWebhook url verdicts n =
     n\<lparr>nt_webhookURL := url,
       nt_webhookVerdicts := (if verdicts = [] then [''MALWARE'', ''PHISH''] else splitOn CHR '','' verdicts)\<rparr>"

definition redact :: "Notifier \<Rightarrow> string \<Rightarrow> string \<Rightarrow> string \<times> string" where
  "redact n sender subject =
     (if \<not> nt_RedactWebhookPII n then (sender, subject)
      else (case indexByte sender CHR ''@'' of
              Some idx \<Rightarrow> ''***'' @ drop idx sender
            | None \<Rightarrow> if sender \<noteq> [] then ''***'' else sender, ''[redacted]''))"

definition sendWebhook :: "Notifier \<Rightarrow> go_time \<Rightarrow> Email \<Rightarrow> VerdictDecision \<Rightarrow> message list" where
  "sendWebhook n now email vd =
     (if nt_webhookURL n = [] then []
      else if \<not> list_ex (\<lambda>v. equalFold (trimSpace v) (vd_Verdict vd)) (nt_webhookVerdicts n) then []
      else (let (sender, subject) = redact n (em_From email) (em_Subject email)
            in [Webhook (nt_webhookURL n)
                  \<lparr>pl_Verdict = vd_Verdict vd, pl_From = sender, pl_Subject = subject, pl_Account = em_AccountName email,
                   pl_Confidence = vd_Confidence vd, pl_Reason = vd_Reason vd, pl_ReceivedAt = now\<rparr>]))"

definition notificationParams :: "VerdictDecision \<Rightarrow> string \<times> string \<times> string" where
  "notificationParams vd =
     (if vd_Verdict vd = ''MALWARE'' then (''MailHook: Malware Blocked'', ''urgent'', ''warning,email,malware'')
      else if vd_Verdict vd = ''PHISH'' then (''MailHook: Phishing Blocked'', ''high'', ''warning,email,phishing'')
      else if vd_Verdict vd = ''SPAM'' then (''MailHook: Spam Quarantined'', ''default'', ''email,spam'')
      else if vd_Verdict vd = ''SUSPICIOUS'' then (''MailHook: Suspicious Email Flagged'', ''low'', ''email,suspicious'')
      else (''MailHook: Email Processed'', ''min'', ''email''))"

definition nl :: string where "nl = [CHR 0x0A]"

definition Send :: "Notifier \<Rightarrow> go_time \<Rightarrow> Email \<Rightarrow> VerdictDecision \<Rightarrow> message list" where
  "Send n now email vd =
     (if nt_NtfyURL n \<noteq> [] then
        (let (sender, subject) = redact n (em_From email) (em_Subject email);
             (title, priority, tags) = notificationParams vd
         in [Ntfy title priority tags (''Account: '' @ em_AccountName email @ nl @ ''From: '' @ sender @ nl
               @ ''Subject: '' @ subject @ nl @ vd_Reason vd)])
      else []) @ sendWebhook n now email vd"

definition NotifyEngineDown :: "go_time \<Rightarrow> string \<Rightarrow> Notifier \<Rightarrow> Notifier \<times> message list" where
  "NotifyEngineDown now component n =
     (if nt_NtfyURL n = [] then (n, [])
      else if (case nt_lastEngineDown n component of Some t \<Rightarrow> now - t < hours 1 | None \<Rightarrow> False) then (n, [])
      else (n\<lparr>nt_lastEngineDown := (nt_lastEngineDown n)(component \<mapsto> now)\<rparr>,
            [Ntfy ''MailHook Scanner Unhealthy'' ''default'' ''warning,mailhook''
               (component @ '' is unreachable '' @ emDash @ '' scanning in degraded mode'')]))"

text \<open>The first hit is read without a check of the length.\<close>

definition NotifyRetroClawback :: "Notifier \<Rightarrow> Scan \<Rightarrow> URLHit list \<Rightarrow> message list go" where
  "NotifyRetroClawback n scan hits =
     (if nt_NtfyURL n = [] then Returns []
      else if hits = [] then Panics ''index out of range [0] with length 0''
      else (let (sender, subject) = redact n (From scan) (Subject scan)
            in Returns [Ntfy ([CHR 0xE2, CHR 0x8F, CHR 0xAA] @ '' Retro Clawback '' @ emDash @ '' Threat Detected'') ''high'' ''warning,email,retro''
                 (''From: '' @ sender @ nl @ ''Subject: '' @ subject @ nl @ ''URL: '' @ uh_URL (hd hits) @ nl
                  @ ''Feed: '' @ strJoin (map uh_Feed hits) '', '')]))"

section \<open>The wire\<close>

record request =
  rq_address :: string
  rq_url :: string
  rq_headers :: "(string \<times> string) list"
  rq_body :: "string + payload"

record client =
  cl_dns :: dns
  cl_server :: "request \<Rightarrow> nat result"

text \<open>What reaches the network for a request: the pinned address of the first hop, or an error before any connection.\<close>

definition clientDo :: "client \<Rightarrow> string \<Rightarrow> (string \<times> string) list \<Rightarrow> string + payload \<Rightarrow> request result" where
  "clientDo C url headers body =
     (case urlParse url of
        None \<Rightarrow> Inl (''parse '' @ url)
      | Some u \<Rightarrow>
          (case dialTarget (cl_dns C) (Hostname u) of
             Inl e \<Rightarrow> Inl e
           | Inr address \<Rightarrow> Inr \<lparr>rq_address = address, rq_url = url, rq_headers = headers, rq_body = body\<rparr>))"

definition ntfyHeaders :: "Notifier \<Rightarrow> string \<Rightarrow> string \<Rightarrow> string \<Rightarrow> (string \<times> string) list" where
  "ntfyHeaders n title priority tags =
     [(''Title'', title), (''Priority'', priority), (''Tags'', tags)]
     @ (if nt_NtfyToken n \<noteq> [] then [(''Authorization'', ''Bearer '' @ nt_NtfyToken n)] else [])"

fun post :: "client \<Rightarrow> Notifier \<Rightarrow> message \<Rightarrow> request result" where
  "post C n (Ntfy title priority tags body) = clientDo C (nt_NtfyURL n) (ntfyHeaders n title priority tags) (Inl body)"
| "post C n (Webhook url p) = clientDo C url [(''Content-Type'', ''application/json'')] (Inr p)"

definition SendTest :: "client \<Rightarrow> Notifier \<Rightarrow> unit result" where
  "SendTest C n =
     (if nt_NtfyURL n = [] then Inl ''ntfy URL not configured''
      else (case clientDo C (nt_NtfyURL n) (ntfyHeaders n ''MailHook Test'' ''default'' ''mailhook,test'')
                   (Inl (''MailHook test notification '' @ emDash @ '' if you see this, notifications are working.'')) of
              Inl e \<Rightarrow> Inl e
            | Inr req \<Rightarrow>
                (case cl_server C req of
                   Inl e \<Rightarrow> Inl e
                 | Inr status \<Rightarrow> if status \<ge> 400 then Inl (''ntfy returned '' @ natStr status) else Inr ())))"

section \<open>What leaves the program\<close>

text \<open>The part of a sender that masking keeps: everything from the first at sign, or whether there is a sender at all.\<close>

definition visibleSender :: "string \<Rightarrow> string option" where
  "visibleSender s = (if CHR ''@'' \<in> set s then Some (dropWhile (\<lambda>c. c \<noteq> CHR ''@'') s) else if s = [] then None else Some [])"

lemma dropWhile_indexByte: "indexByte s b = Some i \<Longrightarrow> drop i s = dropWhile (\<lambda>c. c \<noteq> b) s"
proof (induction s arbitrary: i)
  case (Cons c s)
  then show ?case by (cases "c = b") auto
qed simp

lemma redact_visible:
  assumes "nt_RedactWebhookPII n" and "visibleSender s = visibleSender t"
  shows "redact n s subj = redact n t subj'"
proof -
  have "(case indexByte s CHR ''@'' of Some idx \<Rightarrow> ''***'' @ drop idx s | None \<Rightarrow> if s \<noteq> [] then ''***'' else s)
      = (case visibleSender s of None \<Rightarrow> [] | Some v \<Rightarrow> ''***'' @ v)" for s
  proof (cases "indexByte s CHR ''@''")
    case (Some i)
    then have "CHR ''@'' \<in> set s" by (metis indexByte_None option.distinct(1))
    then show ?thesis using Some by (simp add: visibleSender_def dropWhile_indexByte)
  next
    case None
    then have "CHR ''@'' \<notin> set s" by (simp add: indexByte_None)
    then show ?thesis using None by (simp add: visibleSender_def)
  qed
  then show ?thesis using assms by (simp add: redact_def)
qed

text \<open>
  Masked notifications do not leak: with masking on, the messages for two emails of the same account are equal whenever the senders agree from
  the first at sign on, whatever the subjects and whatever stands before that sign; and every message goes to a public address only.
\<close>

theorem masked_notifications:
  assumes "nt_RedactWebhookPII n" and "visibleSender (em_From e1) = visibleSender (em_From e2)"
    and "em_AccountName e1 = em_AccountName e2"
  shows "Send n now e1 vd = Send n now e2 vd
    \<and> (\<forall>m req. post C n m = Inr req \<longrightarrow> (\<exists>i. ParseIP (rq_address req) = Some i \<and> IsPublicIP (Some i)))"
proof -
  have "redact n (em_From e1) (em_Subject e1) = redact n (em_From e2) (em_Subject e2)" using redact_visible [OF assms(1,2)] .
  then have same: "Send n now e1 vd = Send n now e2 vd" using assms(3) by (simp add: Send_def sendWebhook_def)
  have "\<exists>i. ParseIP (rq_address req) = Some i \<and> IsPublicIP (Some i)" if "clientDo C url hs b = Inr req" for url hs b req
    using that by (auto simp: clientDo_def dialTarget_def split: option.splits sum.splits list.splits if_splits)
  then have "\<exists>i. ParseIP (rq_address req) = Some i \<and> IsPublicIP (Some i)" if "post C n m = Inr req" for m req
    using that by (cases m) auto
  then show ?thesis using same by blast
qed

definition phishVerdict :: VerdictDecision where
  "phishVerdict = \<lparr>vd_Decision = ''quarantine'', vd_Reason = ''listed'', vd_Verdict = ''PHISH'', vd_Confidence = 1, vd_Results = []\<rparr>"

lemma masked_notifications_witness:
  "Send (newNotifier ''https://ntfy.example/t'' [] True) 0 (linkEmail\<lparr>em_From := ''alice@example.com'', em_Subject := ''one''\<rparr>) phishVerdict
   = Send (newNotifier ''https://ntfy.example/t'' [] True) 0 (linkEmail\<lparr>em_From := ''bob@example.com'', em_Subject := ''two''\<rparr>) phishVerdict"
proof -
  have "visibleSender ''alice@example.com'' = visibleSender ''bob@example.com''" by (simp add: visibleSender_def)
  then show ?thesis
    using masked_notifications [of "newNotifier ''https://ntfy.example/t'' [] True" "linkEmail\<lparr>em_From := ''alice@example.com'', em_Subject := ''one''\<rparr>"
      "linkEmail\<lparr>em_From := ''bob@example.com'', em_Subject := ''two''\<rparr>" 0 phishVerdict] by (simp add: newNotifier_def)
qed

text \<open>The first at sign may stand in the display name; then the address itself is sent.\<close>

lemma masked_display_name:
  "fst (redact (newNotifier url token True) (''bob@x <alice@example.com>'') subj) = ''***@x <alice@example.com>''"
  by (simp add: redact_def newNotifier_def numeral_eq_Suc)

section \<open>Reports of failed scanners\<close>

text \<open>A sequence of reports with their times, and the times of those of one component that were sent.\<close>

fun engineDowns :: "(go_time \<times> string) list \<Rightarrow> Notifier \<Rightarrow> Notifier \<times> (go_time \<times> string) list" where
  "engineDowns [] n = (n, [])"
| "engineDowns ((now, c) # es) n =
     (let (n1, ms) = NotifyEngineDown now c n; (n2, sent) = engineDowns es n1
      in (n2, (if ms = [] then [] else [(now, c)]) @ sent))"

definition sentFor :: "string \<Rightarrow> (go_time \<times> string) list \<Rightarrow> go_time list" where
  "sentFor c sent = map fst (filter (\<lambda>e. snd e = c) sent)"

text \<open>The reference: an alert goes out when the alert before it is at least an hour old.\<close>

fun hourly :: "go_time option \<Rightarrow> go_time list \<Rightarrow> go_time list" where
  "hourly prev [] = []"
| "hourly prev (t # ts) =
     (case prev of
        Some p \<Rightarrow> if t - p < hours 1 then hourly prev ts else t # hourly (Some t) ts
      | None \<Rightarrow> t # hourly (Some t) ts)"

lemma engineDowns_hourly:
  "nt_NtfyURL n \<noteq> [] \<Longrightarrow> sentFor c (snd (engineDowns es n)) = hourly (nt_lastEngineDown n c) (map fst (filter (\<lambda>e. snd e = c) es))"
proof (induction es arbitrary: n)
  case (Cons e es)
  obtain now d where e: "e = (now, d)" by fastforce
  have "nt_NtfyURL (fst (NotifyEngineDown now d n)) \<noteq> []" using Cons.prems by (simp add: NotifyEngineDown_def)
  note IH = Cons.IH [OF this]
  show ?case using IH Cons.prems
    by (auto simp: e sentFor_def NotifyEngineDown_def Let_def split: prod.splits option.splits if_splits)
qed (simp add: sentFor_def)

lemma hourly_far: "t \<in> set (hourly (Some p) ts) \<Longrightarrow> t - p \<ge> hours 1"
proof (induction ts arbitrary: p)
  case (Cons u ts)
  then consider "t \<in> set (hourly (Some p) ts)" | "t = u" "u - p \<ge> hours 1" | "t \<in> set (hourly (Some u) ts)" "u - p \<ge> hours 1"
    by (auto split: if_splits)
  then show ?case
  proof cases
    case 3
    then show ?thesis using Cons.IH [of u] by (simp add: hours_def)
  qed (use Cons.IH in auto)
qed simp

lemma hourly_spaced: "sorted_wrt (\<lambda>s t. t - s \<ge> hours 1) (hourly prev ts)"
  by (induction ts arbitrary: prev) (auto dest: hourly_far split: option.split)

lemma hourly_gap: "t \<in> set ts \<Longrightarrow> \<exists>s \<in> set (hourly prev ts) \<union> set_option prev. t - s < hours 1"
proof (induction ts arbitrary: prev)
  case (Cons u ts)
  have zero: "0 < hours 1" by (simp add: hours_def)
  show ?case
  proof (cases "t = u")
    case True
    then show ?thesis using zero by (cases prev) auto
  next
    case False
    then have "t \<in> set ts" using Cons.prems by simp
    note IH = Cons.IH [OF this]
    show ?thesis using IH [of prev] IH [of "Some u"] by (cases prev) auto
  qed
qed simp

text \<open>
  Reports of a failed scanner do not flood the receiver and are not lost: over any sequence of reports, the alerts sent for one component are at least
  an hour apart, they are those of the rule that sends when the alert before is an hour old, and every report of the component falls within an
  hour of an alert that was sent.
\<close>

theorem engine_alerts_hourly:
  fixes url token c :: string and masked :: bool and es :: "(go_time \<times> string) list"
  assumes "url \<noteq> []"
  defines "sent \<equiv> sentFor c (snd (engineDowns es (newNotifier url token masked)))"
  shows "sent = hourly None (map fst (filter (\<lambda>e. snd e = c) es)) \<and> sorted_wrt (\<lambda>s t. t - s \<ge> hours 1) sent
    \<and> (\<forall>t. (t, c) \<in> set es \<longrightarrow> (\<exists>s \<in> set sent. t - s < hours 1))"
proof (intro conjI allI impI)
  show eq: "sent = hourly None (map fst (filter (\<lambda>e. snd e = c) es))"
    using engineDowns_hourly [of "newNotifier url token masked" c es] assms(1) by (simp add: sent_def newNotifier_def)
  show "sorted_wrt (\<lambda>s t. t - s \<ge> hours 1) sent" unfolding eq by (rule hourly_spaced)
  show "\<exists>s \<in> set sent. t - s < hours 1" if "(t, c) \<in> set es" for t
    using hourly_gap [of t "map fst (filter (\<lambda>e. snd e = c) es)" None] that unfolding eq by force
qed

lemma engine_alerts_hourly_witness:
  "sentFor ''clamav'' (snd (engineDowns [(0, ''clamav''), (hours 1 - 1, ''clamav''), (hours 1, ''clamav'')] (newNotifier ''http://n'' [] True)))
     = [0, hours 1]"
  using engine_alerts_hourly [of "''http://n''" "''clamav''" "[(0, ''clamav''), (hours 1 - 1, ''clamav''), (hours 1, ''clamav'')]" "[]" True]
  by (simp add: hours_def)

section \<open>Who hears of a verdict\<close>

text \<open>Without a list of verdicts the webhook hears of malware and phishing only; a blank address turns it off.\<close>

lemma sendWebhook_default:
  "sendWebhook (SetWebhook url [] n) now email vd \<noteq> [] \<longleftrightarrow> url \<noteq> [] \<and> (equalFold ''MALWARE'' (vd_Verdict vd) \<or> equalFold ''PHISH'' (vd_Verdict vd))"
  by (auto simp: sendWebhook_def SetWebhook_def Let_def trimSpace_def asciiSpace_def split: prod.splits)

end
