(* ===== verification/Settings.thy ===== *)
theory Settings
  imports Encrypted Mailbox Notify
begin

text \<open>
  The settings of the dashboard (\<^verbatim>\<open>app/web/handlers/settings.go\<close>) and how the program reads them at its start (\<^verbatim>\<open>loadPersistedSettings\<close>
  and the checks of \<^verbatim>\<open>app/main.go\<close>): thresholds, keys, notification and service addresses, scanners, the password, and the mail accounts with
  their listeners. Handlers start from the decoded request and answer a status; bcrypt, AES-GCM and random bytes are arguments.
\<close>

section \<open>State\<close>

record Runtime =
  rc_SpamScore :: float64
  rc_RejectScore :: float64
  rc_NtfyURL :: string
  rc_NtfyTopic :: string
  rc_NtfyToken :: string
  rc_VTAPIKey :: string
  rc_AbuseIPDBKey :: string
  rc_PhishTankKey :: string
  rc_RspamdURL :: string
  rc_ClamAVAddr :: string
  rc_YARARulesDir :: string
  rc_AdminPasswordBcrypt :: string

record CustomFeedRow = CustomFeedEntry +
  ce_ID :: nat
  ce_AddedBy :: string

record settings =
  sw_rows :: "string \<rightharpoonup> string"                  \<comment> \<open>\<^verbatim>\<open>app_settings\<close>: key and value\<close>
  sw_cfg :: Runtime
  sw_keys :: "string \<rightharpoonup> string"                  \<comment> \<open>what the scanners and feeds were given\<close>
  sw_scanners :: "(string \<times> bool) list"
  sw_notifier :: Notifier
  sw_accounts :: "Account list"
  sw_mgr :: manager
  sw_registry :: "string \<rightharpoonup> AccountConfig"
  sw_custom :: "CustomFeedRow list"
  sw_nextCustom :: nat
  sw_sessions :: Store
  sw_writes :: nat

record settings_env =
  sv_faults :: "nat \<Rightarrow> error option"
  sv_gcm :: gcm
  sv_key :: string
  sv_rand :: "nat \<Rightarrow> string result"               \<comment> \<open>nonces of a request\<close>
  sv_actor :: string
  sv_bcrypt :: "string \<Rightarrow> string \<Rightarrow> bool"
  sv_generate :: "string \<Rightarrow> string result"
  sv_inert :: "string \<Rightarrow> bool"                      \<comment> \<open>scanners of the build whose \<^verbatim>\<open>SetEnabled\<close> does nothing\<close>

section \<open>Numbers as text\<close>

definition pad4 :: "nat \<Rightarrow> string" where
  "pad4 n = [digitChar (n div 1000 mod 10), digitChar (n div 100 mod 10), digitChar (n div 10 mod 10), digitChar (n mod 10)]"

definition fmtF4 :: "float64 \<Rightarrow> string" where
  "fmtF4 x = (let r = nat (roundHalfEven (\<bar>x\<bar> * 10000)) in (if x < 0 then ''-'' else []) @ natStr (r div 10000) @ ''.'' @ pad4 (r mod 10000))"

text \<open>\<^verbatim>\<open>strconv.ParseFloat\<close> on decimal numbers without an exponent, the only ones that are written.\<close>

definition ParseFloat :: "string \<Rightarrow> float64 option" where
  "ParseFloat s =
     (let neg = hasPrefix s ''-''; body = (if neg \<or> hasPrefix s ''+'' then tl s else s);
          (whole, frac) = (case indexByte body CHR ''.'' of None \<Rightarrow> (body, []) | Some i \<Rightarrow> (take i body, drop (Suc i) body));
          v = of_nat (decVal (whole @ frac)) / 10 ^ length frac
      in if whole @ frac = [] \<or> \<not> list_all isDigit (whole @ frac) then None else Some (if neg then - v else v))"

section \<open>Settings handlers\<close>

text \<open>One transaction that saves some rows.\<close>

definition saveRows :: "settings_env \<Rightarrow> (string \<times> string) list \<Rightarrow> settings \<Rightarrow> settings \<times> bool" where
  "saveRows E kvs w =
     (let w1 = w\<lparr>sw_writes := Suc (sw_writes w)\<rparr>
      in case sv_faults E (sw_writes w) of
           Some _ \<Rightarrow> (w1, False)
         | None \<Rightarrow> (w1\<lparr>sw_rows := sw_rows w ++ map_of (rev kvs)\<rparr>, True))"

definition UpdateThresholds :: "settings_env \<Rightarrow> float64 \<Rightarrow> float64 \<Rightarrow> settings \<Rightarrow> settings \<times> int" where
  "UpdateThresholds E spam reject w =
     (if spam \<le> 0 \<or> reject \<le> 0 \<or> spam \<ge> reject then (w, 400)
      else (let w1 = w\<lparr>sw_cfg := (sw_cfg w)\<lparr>rc_SpamScore := spam, rc_RejectScore := reject\<rparr>\<rparr>
            in (fst (saveRows E [(''spam_score'', fmtF4 spam), (''reject_score'', fmtF4 reject)] w1), 200)))"

definition secret :: "settings_env \<Rightarrow> nat \<Rightarrow> string \<Rightarrow> string" where
  "secret E i v = encryptSetting (sv_gcm E) (sv_key E) (sv_rand E i) v"

definition UpdateAPIKeys :: "settings_env \<Rightarrow> string \<Rightarrow> string \<Rightarrow> string \<Rightarrow> settings \<Rightarrow> settings \<times> int" where
  "UpdateAPIKeys E vt abuse phish w =
     (case saveRows E [(''vt_api_key'', secret E 0 vt), (''abuseipdb_key'', secret E 1 abuse), (''phishtank_key'', secret E 2 phish)] w of
        (w1, False) \<Rightarrow> (w1, 500)
      | (w1, True) \<Rightarrow>
          (w1\<lparr>sw_cfg := (sw_cfg w1)\<lparr>rc_VTAPIKey := vt, rc_AbuseIPDBKey := abuse, rc_PhishTankKey := phish\<rparr>,
              sw_keys := (sw_keys w1)(''virustotal'' \<mapsto> vt, ''ipreputation'' \<mapsto> abuse, ''phishtank'' \<mapsto> phish)\<rparr>, 200))"

text \<open>The notifier reads the same configuration record, so its address and token change too.\<close>

definition UpdateNotifications :: "settings_env \<Rightarrow> string \<Rightarrow> string \<Rightarrow> string \<Rightarrow> settings \<Rightarrow> settings \<times> int" where
  "UpdateNotifications E url topic token w =
     (case saveRows E [(''ntfy_url'', secret E 0 url), (''ntfy_topic'', topic), (''ntfy_token'', secret E 1 token)] w of
        (w1, False) \<Rightarrow> (w1, 500)
      | (w1, True) \<Rightarrow>
          (w1\<lparr>sw_cfg := (sw_cfg w1)\<lparr>rc_NtfyURL := url, rc_NtfyTopic := topic, rc_NtfyToken := token\<rparr>,
              sw_notifier := (sw_notifier w1)\<lparr>nt_NtfyURL := url, nt_NtfyToken := token\<rparr>\<rparr>, 200))"

definition UpdateEndpoints :: "settings_env \<Rightarrow> string \<Rightarrow> string \<Rightarrow> string \<Rightarrow> settings \<Rightarrow> settings \<times> int" where
  "UpdateEndpoints E rspamd clamav yara w =
     (case saveRows E [(''rspamd_url'', rspamd), (''clamav_addr'', clamav), (''yara_rules_dir'', yara)] w of
        (w1, False) \<Rightarrow> (w1, 500)
      | (w1, True) \<Rightarrow>
          (let put = (\<lambda>name v w. if v = [] then w else w\<lparr>sw_keys := (sw_keys w)(name \<mapsto> v)\<rparr>);
               c0 = sw_cfg w1;
               c1 = (if rspamd = [] then c0 else c0\<lparr>rc_RspamdURL := rspamd\<rparr>);
               c2 = (if clamav = [] then c1 else c1\<lparr>rc_ClamAVAddr := clamav\<rparr>);
               c3 = (if yara = [] then c2 else c2\<lparr>rc_YARARulesDir := yara\<rparr>)
           in (put ''yara'' yara (put ''clamav'' clamav (put ''rspamd'' rspamd (w1\<lparr>sw_cfg := c3\<rparr>))), 200)))"

text \<open>\<^verbatim>\<open>SetEnabled\<close> of one scanner. Without the build tag \<^verbatim>\<open>ai\<close> the classifier is a stub that ignores it.\<close>

definition setScanner :: "settings_env \<Rightarrow> string \<Rightarrow> bool \<Rightarrow> (string \<times> bool) list \<Rightarrow> (string \<times> bool) list" where
  "setScanner E name enabled = map (\<lambda>(n, b). (n, if n = name \<and> \<not> sv_inert E n then enabled else b))"

text \<open>The errors of the writes are ignored.\<close>

definition UpdateScanners :: "settings_env \<Rightarrow> (string \<rightharpoonup> bool) \<Rightarrow> settings \<Rightarrow> settings \<times> int" where
  "UpdateScanners E req w =
     (fold (\<lambda>(name, _) w.
        case req name of
          None \<Rightarrow> w
        | Some enabled \<Rightarrow>
            fst (saveRows E [(''scanner_'' @ name @ ''_enabled'', if enabled then ''true'' else ''false'')]
              (w\<lparr>sw_scanners := setScanner E name enabled (sw_scanners w)\<rparr>))) (sw_scanners w) w, 200)"

definition UpdateWebhook :: "settings_env \<Rightarrow> string \<Rightarrow> string \<Rightarrow> settings \<Rightarrow> settings \<times> int" where
  "UpdateWebhook E url verdicts w =
     (case saveRows E [(''webhook_url'', url), (''webhook_verdicts'', verdicts)] w of
        (w1, False) \<Rightarrow> (w1, 500)
      | (w1, True) \<Rightarrow> (w1\<lparr>sw_notifier := SetWebhook url verdicts (sw_notifier w1)\<rparr>, 200))"

text \<open>The length of the new password is counted in bytes; a failed write is ignored.\<close>

definition ChangePassword :: "settings_env \<Rightarrow> string \<Rightarrow> string \<Rightarrow> string \<Rightarrow> settings \<Rightarrow> settings \<times> int" where
  "ChangePassword E current new confirm w =
     (if \<not> sv_bcrypt E (rc_AdminPasswordBcrypt (sw_cfg w)) current then (w, 400)
      else if new \<noteq> confirm then (w, 422)
      else if length new < 12 then (w, 422)
      else (case sv_generate E new of
              Inl _ \<Rightarrow> (w, 500)
            | Inr hash \<Rightarrow>
                (let w1 = fst (saveRows E [(''admin_password_bcrypt'', hash)] w)
                 in (w1\<lparr>sw_cfg := (sw_cfg w1)\<lparr>rc_AdminPasswordBcrypt := hash\<rparr>, sw_sessions := DeleteAll (sw_sessions w1)\<rparr>, 204))))"

section \<open>Accounts\<close>

definition configOf :: "Account \<Rightarrow> AccountConfig" where
  "configOf a = \<lparr>acc_Name = ac_Name a, acc_Host = ac_Host a, acc_Port = ac_Port a, acc_User = ac_User a, acc_Pass = ac_Pass a,
     acc_Mailbox = ac_Mailbox a, acc_Quarantine = ac_Quarantine a, acc_TLSSkipVerify = ac_TLSSkipVerify a, acc_BackfillDays = 0\<rparr>"

text \<open>A transaction on the account table, which fails when the environment says so.\<close>

definition writeAccounts :: "settings_env \<Rightarrow> (Account list \<Rightarrow> Account list result) \<Rightarrow> settings \<Rightarrow> settings \<times> bool" where
  "writeAccounts E f w =
     (let w1 = w\<lparr>sw_writes := Suc (sw_writes w)\<rparr>
      in case sv_faults E (sw_writes w) of
           Some _ \<Rightarrow> (w1, False)
         | None \<Rightarrow> (case f (sw_accounts w) of Inl _ \<Rightarrow> (w1, False) | Inr as \<Rightarrow> (w1\<lparr>sw_accounts := as\<rparr>, True)))"

text \<open>\<^verbatim>\<open>makeOnEmail\<close> of \<^verbatim>\<open>main.go\<close> enters the account into the registry.\<close>

definition CreateAccount :: "settings_env \<Rightarrow> Account \<Rightarrow> settings \<Rightarrow> settings \<times> int" where
  "CreateAccount E req w =
     (if ac_Name req = [] \<or> ac_Host req = [] \<or> ac_User req = [] \<or> ac_Pass req = [] then (w, 400)
      else if list_ex (\<lambda>c. c \<in> set [CHR '' '', CHR ''/'', CHR 0x5C]) (ac_Name req) then (w, 400)
      else (let acc = req\<lparr>ac_Port := (if ac_Port req = 0 then 993 else ac_Port req),
                  ac_Mailbox := (if ac_Mailbox req = [] then ''INBOX'' else ac_Mailbox req),
                  ac_Quarantine := (if ac_Quarantine req = [] then ''Quarantine'' else ac_Quarantine req), ac_BackfillDays := 0\<rparr>
            in case writeAccounts E (\<lambda>as. if ac_Name acc \<in> ac_Name ` set as then Inl ''UNIQUE constraint failed'' else Inr (as @ [acc])) w of
                 (w1, False) \<Rightarrow> (w1, 409)
               | (w1, True) \<Rightarrow>
                   (w1\<lparr>sw_registry := (sw_registry w1)(ac_Name acc \<mapsto> configOf acc), sw_mgr := fst (Start (configOf acc) (sw_mgr w1))\<rparr>, 201)))"

record account_update =
  au_Host :: string
  au_Port :: int
  au_User :: string
  au_Pass :: string
  au_Mailbox :: string
  au_Quarantine :: string
  au_TLSSkipVerify :: "bool option"

definition applyUpdate :: "account_update \<Rightarrow> Account \<Rightarrow> Account" where
  "applyUpdate u a =
     a\<lparr>ac_Host := (if au_Host u = [] then ac_Host a else au_Host u), ac_Port := (if au_Port u = 0 then ac_Port a else au_Port u),
       ac_User := (if au_User u = [] then ac_User a else au_User u), ac_Pass := (if au_Pass u = [] then ac_Pass a else au_Pass u),
       ac_Mailbox := (if au_Mailbox u = [] then ac_Mailbox a else au_Mailbox u),
       ac_Quarantine := (if au_Quarantine u = [] then ac_Quarantine a else au_Quarantine u),
       ac_TLSSkipVerify := (case au_TLSSkipVerify u of None \<Rightarrow> ac_TLSSkipVerify a | Some b \<Rightarrow> b)\<rparr>"

definition accountPath :: "string \<Rightarrow> string" where
  "accountPath path = trimPrefix path ''/api/settings/accounts/''"

definition UpdateAccount :: "settings_env \<Rightarrow> string \<Rightarrow> account_update \<Rightarrow> settings \<Rightarrow> settings \<times> int" where
  "UpdateAccount E path u w =
     (let name = accountPath path in
      if name = [] then (w, 400)
      else (case find (\<lambda>a. ac_Name a = name) (sw_accounts w) of
              None \<Rightarrow> (w, 404)
            | Some a \<Rightarrow>
                (let acc = applyUpdate u a
                 in case writeAccounts E (\<lambda>as. Inr (map (\<lambda>b. if ac_Name b = ac_Name acc then acc else b) as)) w of
                      (w1, False) \<Rightarrow> (w1, 500)
                    | (w1, True) \<Rightarrow>
                        (w1\<lparr>sw_registry := (sw_registry w1)(ac_Name acc \<mapsto> configOf acc), sw_mgr := fst (Restart (configOf acc) (sw_mgr w1))\<rparr>, 200))))"

definition DeleteAccount :: "settings_env \<Rightarrow> string \<Rightarrow> settings \<Rightarrow> settings \<times> int" where
  "DeleteAccount E path w =
     (let name = accountPath path in
      if name = [] then (w, 400)
      else (case writeAccounts E (\<lambda>as. Inr (filter (\<lambda>a. ac_Name a \<noteq> name) as)) w of
              (w1, False) \<Rightarrow> (w1, 500)
            | (w1, True) \<Rightarrow> (w1\<lparr>sw_mgr := Stop name (sw_mgr w1), sw_registry := (sw_registry w1)(name := None)\<rparr>, 200)))"

text \<open>The account whose connection is tested: a blank password is taken from the stored account of that name.\<close>

definition testConfig :: "Account \<Rightarrow> settings \<Rightarrow> AccountConfig option" where
  "testConfig req w =
     (if ac_Host req = [] \<or> ac_User req = [] then None
      else (let pass = (if ac_Pass req = [] \<and> ac_Name req \<noteq> []
                        then (case find (\<lambda>a. ac_Name a = ac_Name req) (sw_accounts w) of None \<Rightarrow> [] | Some a \<Rightarrow> ac_Pass a)
                        else ac_Pass req)
            in if pass = [] then None
               else Some \<lparr>acc_Name = [], acc_Host = ac_Host req, acc_Port = (if ac_Port req = 0 then 993 else ac_Port req),
                       acc_User = ac_User req, acc_Pass = pass, acc_Mailbox = [], acc_Quarantine = [],
                       acc_TLSSkipVerify = ac_TLSSkipVerify req, acc_BackfillDays = 0\<rparr>))"

definition TestAccount :: "(AccountConfig \<Rightarrow> unit result) \<Rightarrow> Account \<Rightarrow> settings \<Rightarrow> int" where
  "TestAccount dial req w =
     (case testConfig req w of None \<Rightarrow> 400 | Some a \<Rightarrow> (case dial a of Inl _ \<Rightarrow> 502 | Inr _ \<Rightarrow> 200))"

record accountResponse =
  ar_Name :: string
  ar_Host :: string
  ar_Port :: int
  ar_User :: string
  ar_Mailbox :: string
  ar_Quarantine :: string
  ar_TLSSkipVerify :: bool
  ar_Running :: bool

definition responseFor :: "manager \<Rightarrow> Account \<Rightarrow> accountResponse" where
  "responseFor m a = \<lparr>ar_Name = ac_Name a, ar_Host = ac_Host a, ar_Port = ac_Port a, ar_User = ac_User a, ar_Mailbox = ac_Mailbox a,
     ar_Quarantine = ac_Quarantine a, ar_TLSSkipVerify = ac_TLSSkipVerify a, ar_Running = IsRunning (ac_Name a) m\<rparr>"

text \<open>\<open>readable\<close> tells whether the table can be read.\<close>

definition GetAccounts :: "bool \<Rightarrow> settings \<Rightarrow> accountResponse list result" where
  "GetAccounts readable w = (if readable then Inr (map (responseFor (sw_mgr w)) (sw_accounts w)) else Inl ''db error'')"

definition NotifyTest :: "client \<Rightarrow> settings \<Rightarrow> int" where
  "NotifyTest C w =
     (if rc_NtfyURL (sw_cfg w) = [] then 400 else (case SendTest C (sw_notifier w) of Inl _ \<Rightarrow> 502 | Inr _ \<Rightarrow> 200))"

section \<open>Custom feed entries\<close>

definition AddCustomFeed :: "settings_env \<Rightarrow> string \<Rightarrow> string \<Rightarrow> settings \<Rightarrow> settings \<times> int" where
  "AddCustomFeed E entry typ w =
     (if entry = [] then (w, 400)
      else if typ \<noteq> ''domain'' \<and> typ \<noteq> ''url'' then (w, 400)
      else if typ = ''domain'' \<and> list_ex (\<lambda>c. c \<in> set ''%_'') entry then (w, 400)
      else (let row = \<lparr>cf_Entry = toLower (trimSpace entry), cf_EntryType = typ, ce_ID = sw_nextCustom w, ce_AddedBy = sv_actor E\<rparr>;
                w1 = w\<lparr>sw_writes := Suc (sw_writes w)\<rparr>
            in if sv_faults E (sw_writes w) \<noteq> None \<or> cf_Entry row \<in> cf_Entry ` set (sw_custom w) then (w1, 409)
               else (w1\<lparr>sw_custom := sw_custom w @ [row], sw_nextCustom := Suc (sw_nextCustom w)\<rparr>, 201)))"

definition DeleteCustomFeed :: "settings_env \<Rightarrow> string \<Rightarrow> settings \<Rightarrow> settings \<times> int" where
  "DeleteCustomFeed E path w =
     (let idStr = last (splitOn CHR ''/'' (trimSuffix path ''/'')) in
      if idStr = [] \<or> \<not> list_all isDigit idStr \<or> decVal idStr \<ge> 2 ^ 64 \<or> decVal idStr = 0 then (w, 400)
      else (let w1 = w\<lparr>sw_writes := Suc (sw_writes w)\<rparr>
            in if sv_faults E (sw_writes w) \<noteq> None then (w1, 500)
               else if decVal idStr \<notin> ce_ID ` set (sw_custom w) then (w1, 404)
               else (w1\<lparr>sw_custom := filter (\<lambda>r. ce_ID r \<noteq> decVal idStr) (sw_custom w)\<rparr>, 200)))"

text \<open>What the feed lookups see of the table.\<close>

definition customTable :: "settings \<Rightarrow> CustomFeedEntry list option" where
  "customTable w = Some (map CustomFeedEntry.truncate (sw_custom w))"

section \<open>The next start\<close>

definition loadStr :: "(string \<rightharpoonup> string) \<Rightarrow> string \<Rightarrow> (string \<Rightarrow> Runtime \<Rightarrow> Runtime) \<Rightarrow> Runtime \<Rightarrow> Runtime" where
  "loadStr rows key f c = (case rows key of None \<Rightarrow> c | Some v \<Rightarrow> if v = [] then c else f v c)"

definition loadFloat :: "(string \<rightharpoonup> string) \<Rightarrow> string \<Rightarrow> (float64 \<Rightarrow> Runtime \<Rightarrow> Runtime) \<Rightarrow> Runtime \<Rightarrow> Runtime" where
  "loadFloat rows key f c =
     (case rows key of None \<Rightarrow> c | Some v \<Rightarrow> (case ParseFloat v of None \<Rightarrow> c | Some x \<Rightarrow> if x > 0 then f x c else c))"

definition loadSecret ::
  "settings_env \<Rightarrow> (string \<rightharpoonup> string) \<Rightarrow> string \<Rightarrow> (string \<Rightarrow> Runtime \<Rightarrow> Runtime) \<Rightarrow> Runtime \<Rightarrow> Runtime" where
  "loadSecret E rows key f c =
     (case rows key of
        None \<Rightarrow> c
      | Some v \<Rightarrow> if v = [] then c else (case ScanColumn (sv_gcm E) (sv_key E) (SrcText v) of Inl _ \<Rightarrow> c | Inr p \<Rightarrow> f p c))"

definition loadPersistedSettings :: "settings_env \<Rightarrow> (string \<rightharpoonup> string) \<Rightarrow> Runtime \<Rightarrow> Runtime" where
  "loadPersistedSettings E rows =
     loadStr rows ''admin_password_bcrypt'' (\<lambda>v. rc_AdminPasswordBcrypt_update (\<lambda>_. v))
     \<circ> loadStr rows ''yara_rules_dir'' (\<lambda>v. rc_YARARulesDir_update (\<lambda>_. v))
     \<circ> loadStr rows ''clamav_addr'' (\<lambda>v. rc_ClamAVAddr_update (\<lambda>_. v))
     \<circ> loadStr rows ''rspamd_url'' (\<lambda>v. rc_RspamdURL_update (\<lambda>_. v))
     \<circ> loadSecret E rows ''phishtank_key'' (\<lambda>v. rc_PhishTankKey_update (\<lambda>_. v))
     \<circ> loadSecret E rows ''abuseipdb_key'' (\<lambda>v. rc_AbuseIPDBKey_update (\<lambda>_. v))
     \<circ> loadSecret E rows ''vt_api_key'' (\<lambda>v. rc_VTAPIKey_update (\<lambda>_. v))
     \<circ> loadSecret E rows ''ntfy_token'' (\<lambda>v. rc_NtfyToken_update (\<lambda>_. v))
     \<circ> loadStr rows ''ntfy_topic'' (\<lambda>v. rc_NtfyTopic_update (\<lambda>_. v))
     \<circ> loadSecret E rows ''ntfy_url'' (\<lambda>v. rc_NtfyURL_update (\<lambda>_. v))
     \<circ> loadFloat rows ''reject_score'' (\<lambda>v. rc_RejectScore_update (\<lambda>_. v))
     \<circ> loadFloat rows ''spam_score'' (\<lambda>v. rc_SpamScore_update (\<lambda>_. v))"

definition rowOf :: "AccountConfig \<Rightarrow> Account" where
  "rowOf a = \<lparr>ac_Name = acc_Name a, ac_Host = acc_Host a, ac_Port = acc_Port a, ac_User = acc_User a, ac_Pass = acc_Pass a,
     ac_Mailbox = acc_Mailbox a, ac_Quarantine = acc_Quarantine a, ac_TLSSkipVerify = acc_TLSSkipVerify a, ac_BackfillDays = acc_BackfillDays a\<rparr>"

text \<open>\<^verbatim>\<open>tx.Save\<close> on the primary key \<^verbatim>\<open>name\<close>.\<close>

definition upsert :: "Account \<Rightarrow> Account list \<Rightarrow> Account list" where
  "upsert a as = (if ac_Name a \<in> ac_Name ` set as then map (\<lambda>b. if ac_Name b = ac_Name a then a else b) as else as @ [a])"

definition migrateAccountsToDB :: "settings_env \<Rightarrow> AccountConfig list \<Rightarrow> settings \<Rightarrow> settings" where
  "migrateAccountsToDB E = fold (\<lambda>a w. fst (writeAccounts E (\<lambda>as. Inr (upsert (rowOf a) as)) w))"

definition startConfig :: "Account \<Rightarrow> AccountConfig" where
  "startConfig a = (configOf a)\<lparr>acc_BackfillDays := ac_BackfillDays a\<rparr>"

text \<open>The loop over the accounts read from the database; \<^verbatim>\<open>makeOnEmail\<close> registers the account before its listener starts.\<close>

definition startListeners :: "Account list \<Rightarrow> settings \<Rightarrow> settings" where
  "startListeners = fold (\<lambda>a w. w\<lparr>sw_registry := (sw_registry w)(ac_Name a \<mapsto> startConfig a), sw_mgr := fst (Start (startConfig a) (sw_mgr w))\<rparr>)"

definition loadWebhook :: "(string \<rightharpoonup> string) \<Rightarrow> Notifier \<Rightarrow> Notifier" where
  "loadWebhook rows n =
     (case rows ''webhook_url'' of
        None \<Rightarrow> n
      | Some url \<Rightarrow> SetWebhook url (case rows ''webhook_verdicts'' of None \<Rightarrow> [] | Some v \<Rightarrow> v) n)"

definition loadScanners :: "settings_env \<Rightarrow> (string \<rightharpoonup> string) \<Rightarrow> (string \<times> bool) list \<Rightarrow> (string \<times> bool) list" where
  "loadScanners E rows =
     map (\<lambda>(name, b). (name, if sv_inert E name then b
        else case rows (''scanner_'' @ name @ ''_enabled'') of None \<Rightarrow> b | Some v \<Rightarrow> v \<noteq> ''false''))"

definition startKeys :: "Runtime \<Rightarrow> (string \<rightharpoonup> string)" where
  "startKeys c = [''virustotal'' \<mapsto> rc_VTAPIKey c, ''ipreputation'' \<mapsto> rc_AbuseIPDBKey c, ''phishtank'' \<mapsto> rc_PhishTankKey c,
     ''rspamd'' \<mapsto> rc_RspamdURL c, ''clamav'' \<mapsto> rc_ClamAVAddr c, ''yara'' \<mapsto> rc_YARARulesDir c]"

text \<open>
  The part of \<^verbatim>\<open>main\<close> that builds the running program from the configuration, the accounts of the YAML file, the initial scanner states and the
  database; None when the program exits. \<open>readable\<close> tells whether the account table can be read.
\<close>

definition startProgram ::
  "settings_env \<Rightarrow> bool \<Rightarrow> bool \<Rightarrow> Runtime \<Rightarrow> AccountConfig list \<Rightarrow> (string \<times> bool) list \<Rightarrow> Store \<Rightarrow> settings \<Rightarrow> settings option" where
  "startProgram E readable masked cfg yaml scanners store w =
     (let c = loadPersistedSettings E (sw_rows w) cfg in
      if rc_NtfyURL c \<noteq> [] \<and> ParseRequestURI (rc_NtfyURL c) = None then None
      else if rc_SpamScore c \<ge> rc_RejectScore c then None
      else (let w1 = migrateAccountsToDB E yaml
                  (w\<lparr>sw_cfg := c, sw_keys := startKeys c, sw_scanners := loadScanners E (sw_rows w) scanners,
                     sw_notifier := loadWebhook (sw_rows w) (newNotifier (rc_NtfyURL c) (rc_NtfyToken c) masked),
                     sw_mgr := NewManager, sw_registry := Map.empty, sw_sessions := store\<rparr>)
            in Some (startListeners (if readable then sw_accounts w1 else []) w1)))"

section \<open>Accounts and listeners stay in step\<close>

text \<open>The configuration of the live listener of an account.\<close>

definition running :: "manager \<Rightarrow> string \<rightharpoonup> AccountConfig" where
  "running m = map_of (map (\<lambda>x. (acc_Name (snd x), snd x)) (active m))"

lemma running_iff:
  assumes "managerOK m"
  shows "running m name = Some a \<longleftrightarrow> (\<exists>c. (c, a) \<in> set (active m)) \<and> acc_Name a = name"
proof -
  have "distinct (map fst (map (\<lambda>x. (acc_Name (snd x), snd x)) (active m)))" using assms by (simp add: managerOK_def comp_def)
  then show ?thesis by (force simp: running_def)
qed

lemma running_cancels: "managerOK m \<Longrightarrow> mg_cancels m name = None \<longleftrightarrow> running m name = None"
proof -
  assume m: "managerOK m"
  have "(\<exists>c. mg_cancels m name = Some c) \<longleftrightarrow> (\<exists>a. running m name = Some a)"
    using m running_iff [OF m] by (auto simp: managerOK_def)
  then show ?thesis by (metis not_None_eq)
qed

lemma running_Start:
  assumes "managerOK m" and "running m (acc_Name a) = None"
  shows "running (fst (Start a m)) = (running m)(acc_Name a \<mapsto> a)"
proof -
  have "mg_cancels m (acc_Name a) = None" using assms running_cancels by blast
  moreover have "length (mg_started m) \<notin> mg_cancelled m" using assms by (auto simp: managerOK_def)
  ultimately have act: "active (fst (Start a m)) = active m @ [(length (mg_started m), a)]" by (simp add: Start_def active_def Let_def)
  then show ?thesis using assms(2) by (auto simp: running_def map_add_def fun_eq_iff split: option.splits)
qed

lemma running_Stop:
  assumes "managerOK m"
  shows "running (Stop name m) = (running m)(name := None)"
proof (cases "mg_cancels m name")
  case None
  then have "Stop name m = m" by (simp add: Stop_def)
  moreover have "running m name = None" using None running_cancels [OF assms] by blast
  ultimately show ?thesis by (simp add: fun_upd_idem)
next
  case (Some c)
  obtain a where a: "(c, a) \<in> set (active m)" "acc_Name a = name" using Some assms by (auto simp: managerOK_def)
  have inj: "inj_on fst (set (mg_started m))" using assms by (metis managerOK_def distinct_map distinct_upt)
  have act: "set (active (Stop name m)) = {x \<in> set (active m). fst x \<noteq> c}" using Some by (auto simp: Stop_def active_def)
  have drop: "k = c \<longleftrightarrow> acc_Name b = name" if "(k, b) \<in> set (active m)" for k b
  proof
    assume "k = c"
    then have "(k, b) = (c, a)" using inj that a(1) by (intro inj_onD [OF inj]) (auto simp: active_def)
    then show "acc_Name b = name" using a(2) by simp
  next
    assume "acc_Name b = name"
    then have "mg_cancels m name = Some k" using assms that by (auto simp: managerOK_def)
    then show "k = c" using Some by simp
  qed
  have "running (Stop name m) n = ((running m)(name := None)) n" for n
  proof -
    have "running (Stop name m) n = Some b \<longleftrightarrow> ((running m)(name := None)) n = Some b" for b
      unfolding running_iff [OF Stop_OK [OF assms]] act using running_iff [OF assms, of n b] drop by auto
    then show ?thesis by (metis not_None_eq)
  qed
  then show ?thesis by blast
qed

definition noBackfill :: "AccountConfig \<Rightarrow> AccountConfig" where
  "noBackfill c = c\<lparr>acc_BackfillDays := 0\<rparr>"

definition accountMap :: "Account list \<Rightarrow> string \<rightharpoonup> AccountConfig" where
  "accountMap as = map_of (map (\<lambda>a. (ac_Name a, configOf a)) as)"

definition listenersOK :: "settings \<Rightarrow> bool" where
  "listenersOK w \<longleftrightarrow> managerOK (sw_mgr w) \<and> distinct (map ac_Name (sw_accounts w))
     \<and> map_option noBackfill \<circ> running (sw_mgr w) = accountMap (sw_accounts w)
     \<and> map_option noBackfill \<circ> sw_registry w = accountMap (sw_accounts w)"

lemma configOf_names [simp]: "acc_Name (configOf a) = ac_Name a" "acc_Name (startConfig a) = ac_Name a"
  "noBackfill (configOf a) = configOf a" "noBackfill (startConfig a) = configOf a"
  by (simp_all add: configOf_def startConfig_def noBackfill_def)

lemma map_option_upd: "map_option f \<circ> (m(k \<mapsto> v)) = (map_option f \<circ> m)(k \<mapsto> f v)" "map_option f \<circ> (m(k := None)) = (map_option f \<circ> m)(k := None)"
  by (auto simp: fun_eq_iff)

lemma accountMap_None: "accountMap as name = None \<longleftrightarrow> name \<notin> ac_Name ` set as"
  by (auto simp: accountMap_def map_of_eq_None_iff image_iff)

lemma accountMap_append: "ac_Name a \<notin> ac_Name ` set as \<Longrightarrow> accountMap (as @ [a]) = (accountMap as)(ac_Name a \<mapsto> configOf a)"
proof -
  assume "ac_Name a \<notin> ac_Name ` set as"
  then have "accountMap as (ac_Name a) = None" by (simp add: accountMap_None)
  then show ?thesis by (auto simp: accountMap_def map_add_def fun_eq_iff split: option.splits)
qed

lemma accountMap_filter: "accountMap (filter (\<lambda>a. ac_Name a \<noteq> name) as) = (accountMap as)(name := None)"
  by (induction as) (auto simp: accountMap_def)

lemma accountMap_replace:
  "ac_Name acc \<in> ac_Name ` set as \<Longrightarrow>
     accountMap (map (\<lambda>b. if ac_Name b = ac_Name acc then acc else b) as) = (accountMap as)(ac_Name acc \<mapsto> configOf acc)"
proof -
  assume mem: "ac_Name acc \<in> ac_Name ` set as"
  have "accountMap (map (\<lambda>b. if ac_Name b = ac_Name acc then acc else b) as) n
      = (if n = ac_Name acc \<and> n \<in> ac_Name ` set as then Some (configOf acc) else accountMap as n)" for n
    by (induction as) (auto simp: accountMap_def)
  then show ?thesis using mem by (auto simp: fun_eq_iff)
qed

lemma names_replace: "map ac_Name (map (\<lambda>b. if ac_Name b = ac_Name acc then acc else b) as) = map ac_Name as"
  by (induction as) auto

lemma writeAccounts_cases:
  assumes "writeAccounts E f w = (w1, ok)"
  shows "sw_mgr w1 = sw_mgr w" "sw_registry w1 = sw_registry w"
    "if ok then f (sw_accounts w) = Inr (sw_accounts w1) else sw_accounts w1 = sw_accounts w"
  using assms by (auto simp: writeAccounts_def Let_def split: option.splits sum.splits)

lemma listenersOK_same:
  "listenersOK w \<Longrightarrow> sw_mgr w1 = sw_mgr w \<Longrightarrow> sw_registry w1 = sw_registry w \<Longrightarrow> sw_accounts w1 = sw_accounts w \<Longrightarrow> listenersOK w1"
  by (simp add: listenersOK_def)

lemma listenersOK_None: "listenersOK w \<Longrightarrow> name \<notin> ac_Name ` set (sw_accounts w) \<Longrightarrow> running (sw_mgr w) name = None"
  unfolding listenersOK_def by (metis accountMap_None comp_apply option.map_disc_iff)

lemma CreateAccount_OK:
  assumes "listenersOK w"
  shows "listenersOK (fst (CreateAccount E req w))"
proof -
  define acc where "acc = req\<lparr>ac_Port := (if ac_Port req = 0 then 993 else ac_Port req),
                  ac_Mailbox := (if ac_Mailbox req = [] then ''INBOX'' else ac_Mailbox req),
                  ac_Quarantine := (if ac_Quarantine req = [] then ''Quarantine'' else ac_Quarantine req), ac_BackfillDays := 0\<rparr>"
  obtain w1 ok where wr: "writeAccounts E (\<lambda>as. if ac_Name acc \<in> ac_Name ` set as then Inl ''UNIQUE constraint failed'' else Inr (as @ [acc])) w = (w1, ok)"
    by fastforce
  note c = writeAccounts_cases [OF wr]
  have "listenersOK (w1\<lparr>sw_registry := (sw_registry w1)(ac_Name acc \<mapsto> configOf acc), sw_mgr := fst (Start (configOf acc) (sw_mgr w1))\<rparr>)" if ok
  proof -
    have new: "ac_Name acc \<notin> ac_Name ` set (sw_accounts w)" and as: "sw_accounts w1 = sw_accounts w @ [acc]"
      using c(3) that by (auto split: if_splits)
    then show ?thesis using assms c listenersOK_None [OF assms new]
      by (auto simp: listenersOK_def Start_OK running_Start map_option_upd accountMap_append)
  qed
  moreover have "listenersOK w1" if "\<not> ok" using listenersOK_same [OF assms] c that by simp
  ultimately show ?thesis using assms wr unfolding CreateAccount_def Let_def acc_def [symmetric] by (cases ok) simp_all
qed

lemma UpdateAccount_OK:
  assumes "listenersOK w"
  shows "listenersOK (fst (UpdateAccount E path u w))"
proof (cases "find (\<lambda>a. ac_Name a = accountPath path) (sw_accounts w)")
  case (Some a)
  define acc where "acc = applyUpdate u a"
  have a: "a \<in> set (sw_accounts w)" using Some by (auto simp: find_Some_iff)
  have "ac_Name acc = ac_Name a" by (simp add: acc_def applyUpdate_def)
  then have mem: "ac_Name acc \<in> ac_Name ` set (sw_accounts w)" using a by simp
  obtain w1 ok where wr: "writeAccounts E (\<lambda>as. Inr (map (\<lambda>b. if ac_Name b = ac_Name acc then acc else b) as)) w = (w1, ok)" by fastforce
  note c = writeAccounts_cases [OF wr]
  have "listenersOK (w1\<lparr>sw_registry := (sw_registry w1)(ac_Name acc \<mapsto> configOf acc), sw_mgr := fst (Restart (configOf acc) (sw_mgr w1))\<rparr>)" if ok
  proof -
    have as: "sw_accounts w1 = map (\<lambda>b. if ac_Name b = ac_Name acc then acc else b) (sw_accounts w)" using c(3) that by auto
    show ?thesis using assms c accountMap_replace [OF mem]
      by (simp add: listenersOK_def Restart_def Start_OK Stop_OK running_Start running_Stop map_option_upd as names_replace del: map_map)
  qed
  moreover have "listenersOK w1" if "\<not> ok" using listenersOK_same [OF assms] c that by simp
  ultimately show ?thesis using assms wr unfolding UpdateAccount_def Let_def Some option.case acc_def [symmetric] by (cases ok) simp_all
qed (use assms in \<open>simp add: UpdateAccount_def Let_def\<close>)

lemma DeleteAccount_OK:
  assumes "listenersOK w"
  shows "listenersOK (fst (DeleteAccount E path w))"
proof -
  let ?name = "accountPath path"
  obtain w1 ok where wr: "writeAccounts E (\<lambda>as. Inr (filter (\<lambda>a. ac_Name a \<noteq> ?name) as)) w = (w1, ok)" by fastforce
  note c = writeAccounts_cases [OF wr]
  have "listenersOK (w1\<lparr>sw_mgr := Stop ?name (sw_mgr w1), sw_registry := (sw_registry w1)(?name := None)\<rparr>)" if ok
  proof -
    have "sw_accounts w1 = filter (\<lambda>a. ac_Name a \<noteq> ?name) (sw_accounts w)" using c(3) that by auto
    then show ?thesis using assms c(1,2)
      by (simp add: listenersOK_def Stop_OK running_Stop map_option_upd accountMap_filter distinct_map_filter)
  qed
  moreover have "listenersOK w1" if "\<not> ok" using listenersOK_same [OF assms] c that by simp
  ultimately show ?thesis using assms wr unfolding DeleteAccount_def Let_def by (cases ok) simp_all
qed

datatype account_op = AccCreate Account | AccUpdate string account_update | AccDelete string

fun accountStep :: "settings_env \<times> account_op \<Rightarrow> settings \<Rightarrow> settings" where
  "accountStep (E, AccCreate req) w = fst (CreateAccount E req w)"
| "accountStep (E, AccUpdate path u) w = fst (UpdateAccount E path u w)"
| "accountStep (E, AccDelete path) w = fst (DeleteAccount E path w)"

lemma accountSteps_OK: "listenersOK w \<Longrightarrow> listenersOK (fold accountStep ops w)"
proof (induction ops arbitrary: w)
  case (Cons opn ops)
  obtain E a where "opn = (E, a)" by fastforce
  then have "listenersOK (accountStep opn w)"
    using Cons.prems by (cases a) (simp_all add: CreateAccount_OK UpdateAccount_OK DeleteAccount_OK)
  then show ?case by (simp add: Cons.IH)
qed simp

lemma startListeners_maps:
  assumes "managerOK (sw_mgr w)" and "distinct (map ac_Name as)" and "\<And>a. a \<in> set as \<Longrightarrow> running (sw_mgr w) (ac_Name a) = None"
  shows "managerOK (sw_mgr (startListeners as w)) \<and> sw_accounts (startListeners as w) = sw_accounts w
    \<and> map_option noBackfill \<circ> running (sw_mgr (startListeners as w)) = (map_option noBackfill \<circ> running (sw_mgr w)) ++ accountMap as
    \<and> map_option noBackfill \<circ> sw_registry (startListeners as w) = (map_option noBackfill \<circ> sw_registry w) ++ accountMap as"
  using assms
proof (induction as arbitrary: w)
  case (Cons a as)
  let ?w = "w\<lparr>sw_registry := (sw_registry w)(ac_Name a \<mapsto> startConfig a), sw_mgr := fst (Start (startConfig a) (sw_mgr w))\<rparr>"
  have run: "running (sw_mgr ?w) = (running (sw_mgr w))(ac_Name a \<mapsto> startConfig a)" using Cons.prems by (simp add: running_Start)
  have fresh: "ac_Name a \<notin> dom (accountMap as)" using Cons.prems(2) by (auto simp: dom_def accountMap_None)
  have am: "accountMap (a # as) = (accountMap as)(ac_Name a \<mapsto> configOf a)" by (simp add: accountMap_def)
  have "ac_Name b \<noteq> ac_Name a" if "b \<in> set as" for b using Cons.prems(2) that by (metis distinct.simps(2) imageI list.simps(9) set_map)
  then have "managerOK (sw_mgr ?w)" "\<And>b. b \<in> set as \<Longrightarrow> running (sw_mgr ?w) (ac_Name b) = None" "distinct (map ac_Name as)"
    using Cons.prems run by (auto simp: Start_OK)
  note IH = Cons.IH [OF this(1,3,2)]
  have "map_option noBackfill \<circ> running (sw_mgr ?w) = (map_option noBackfill \<circ> running (sw_mgr w))(ac_Name a \<mapsto> configOf a)"
    "map_option noBackfill \<circ> sw_registry ?w = (map_option noBackfill \<circ> sw_registry w)(ac_Name a \<mapsto> configOf a)"
    "sw_accounts ?w = sw_accounts w"
    unfolding run by (auto simp: fun_eq_iff)
  note IH' = IH [unfolded this map_add_upd_left [OF fresh]]
  have "startListeners (a # as) w = startListeners as ?w" by (simp add: startListeners_def)
  then show ?case unfolding am map_add_upd by (simp only: IH')
qed (simp add: startListeners_def accountMap_def)

lemma upsert_distinct: "distinct (map ac_Name as) \<Longrightarrow> distinct (map ac_Name (upsert a as))"
  by (auto simp: upsert_def names_replace simp del: map_map)

lemma migrate_fields:
  assumes "distinct (map ac_Name (sw_accounts w))"
  shows "distinct (map ac_Name (sw_accounts (migrateAccountsToDB E yaml w))) \<and> sw_mgr (migrateAccountsToDB E yaml w) = sw_mgr w
    \<and> sw_registry (migrateAccountsToDB E yaml w) = sw_registry w \<and> sw_cfg (migrateAccountsToDB E yaml w) = sw_cfg w"
  using assms
proof (induction yaml arbitrary: w)
  case (Cons a yaml)
  obtain w1 ok where wr: "writeAccounts E (\<lambda>as. Inr (upsert (rowOf a) as)) w = (w1, ok)" by fastforce
  have "sw_cfg w1 = sw_cfg w" using wr by (auto simp: writeAccounts_def Let_def split: option.splits)
  moreover have "distinct (map ac_Name (sw_accounts w1))"
    using writeAccounts_cases(3) [OF wr] Cons.prems upsert_distinct [OF Cons.prems, of "rowOf a"] by (cases ok) auto
  ultimately show ?case using Cons.IH [of w1] writeAccounts_cases(1,2) [OF wr] wr by (simp add: migrateAccountsToDB_def)
qed (simp add: migrateAccountsToDB_def)

lemma startProgram_listeners:
  assumes "distinct (map ac_Name (sw_accounts w0))" and "startProgram E True masked cfg yaml scanners store w0 = Some w"
  shows "listenersOK w"
proof -
  define w1 where "w1 = migrateAccountsToDB E yaml
    (let c = loadPersistedSettings E (sw_rows w0) cfg in
     w0\<lparr>sw_cfg := c, sw_keys := startKeys c, sw_scanners := loadScanners E (sw_rows w0) scanners,
        sw_notifier := loadWebhook (sw_rows w0) (newNotifier (rc_NtfyURL c) (rc_NtfyToken c) masked),
        sw_mgr := NewManager, sw_registry := Map.empty, sw_sessions := store\<rparr>)"
  have w: "w = startListeners (sw_accounts w1) w1" using assms(2) by (simp add: startProgram_def w1_def Let_def split: if_splits)
  have m: "distinct (map ac_Name (sw_accounts w1))" "sw_mgr w1 = NewManager" "sw_registry w1 = Map.empty"
    using migrate_fields assms(1) by (simp_all add: w1_def Let_def)
  have "managerOK NewManager" "running NewManager = Map.empty"
    by (simp_all add: managerOK_def NewManager_def active_def running_def)
  then show ?thesis using startListeners_maps [of w1 "sw_accounts w1"] m unfolding w by (simp add: listenersOK_def comp_def)
qed

text \<open>
  C15. The listeners always match the account table: from a start on any database, after any sequence of account requests and whichever of their
  writes fail, the accounts with a live listener and those of the action registry are exactly the stored accounts, each with the stored
  host, credentials and folders.
\<close>

theorem listeners_match_accounts:
  assumes "distinct (map ac_Name (sw_accounts w0))" and "startProgram E True masked cfg yaml scanners store w0 = Some w"
  shows "let w' = fold accountStep ops w in
    distinct (map ac_Name (sw_accounts w')) \<and>
    (\<forall>name. map_option noBackfill (running (sw_mgr w') name) = map_option configOf (find (\<lambda>a. ac_Name a = name) (sw_accounts w'))
       \<and> map_option noBackfill (sw_registry w' name) = map_option configOf (find (\<lambda>a. ac_Name a = name) (sw_accounts w')))"
proof -
  let ?w = "fold accountStep ops w"
  have ok: "listenersOK ?w" by (rule accountSteps_OK [OF startProgram_listeners [OF assms]])
  have "accountMap as name = map_option configOf (find (\<lambda>a. ac_Name a = name) as)" for as name
    by (induction as) (auto simp: accountMap_def)
  moreover have "map_option noBackfill (running (sw_mgr ?w) name) = accountMap (sw_accounts ?w) name"
    "map_option noBackfill (sw_registry ?w name) = accountMap (sw_accounts ?w) name" for name
    using ok unfolding listenersOK_def by (metis comp_apply)+
  ultimately show ?thesis using ok by (simp add: Let_def listenersOK_def)
qed

section \<open>Thresholds as text\<close>

lemma horner4: "r = 10 * a + d \<Longrightarrow> a = 10 * b + c \<Longrightarrow> b = 10 * e + f \<Longrightarrow> 10 * (10 * (10 * (10 * x + e) + f) + c) + d = 10000 * x + (r::nat)"
  by simp

lemma decVal_pad4: "r < 10000 \<Longrightarrow> decVal (s @ pad4 r) = 10000 * decVal s + r"
proof -
  assume r: "r < 10000"
  have split4: "s @ pad4 r = (((s @ [digitChar (r div 1000 mod 10)]) @ [digitChar (r div 100 mod 10)]) @ [digitChar (r div 10 mod 10)]) @ [digitChar (r mod 10)]"
    by (simp add: pad4_def)
  have e1: "r = 10 * (r div 10) + r mod 10" by simp
  have e2: "r div 10 = 10 * (r div 100) + r div 10 mod 10" and e3: "r div 100 = 10 * (r div 1000) + r div 100 mod 10"
    using mult_div_mod_eq [of 10 "r div 10"] mult_div_mod_eq [of 10 "r div 100"] by (simp_all add: div_mult2_eq [symmetric])
  have top: "r div 1000 mod 10 = r div 1000" using r by simp
  have dig: "of_char (digitChar (k mod 10)) - 48 = k mod 10" for k by (simp add: digitChar_digit)
  show ?thesis unfolding split4 decVal_snoc dig unfolding top by (rule horner4 [OF e1 e2 e3])
qed

lemma isDigit_not: "isDigit c \<Longrightarrow> c \<noteq> CHR ''.'' \<and> c \<noteq> CHR ''-'' \<and> c \<noteq> CHR ''+''"
  by (auto simp: isDigit_def)

lemma ParseFloat_fmtF4:
  assumes "x \<ge> 0"
  shows "ParseFloat (fmtF4 x) = Some (of_int (roundHalfEven (x * 10000)) / 10000)"
proof -
  define r where "r = nat (roundHalfEven (x * 10000))"
  have "0 \<le> \<lfloor>x * 10000\<rfloor>" using assms by simp
  then have "roundHalfEven (x * 10000) \<ge> 0" by (simp add: roundHalfEven_def Let_def)
  then have r: "of_int (roundHalfEven (x * 10000)) = (of_nat r :: rat)" by (simp add: r_def)
  let ?q = "natStr (r div 10000)" and ?p = "pad4 (r mod 10000)"
  have f: "fmtF4 x = ?q @ ''.'' @ ?p" using assms by (simp add: fmtF4_def r_def Let_def)
  have digits: "list_all isDigit ?q" "list_all isDigit ?p" by (simp_all add: natStr_digits pad4_def digitChar_digit)
  then have dot: "CHR ''.'' \<notin> set ?q" using isDigit_not by (auto simp: list_all_iff)
  obtain c cs where q: "?q = c # cs" by (meson list.exhaust natStr_not_Nil)
  have c: "c \<noteq> CHR ''-''" "c \<noteq> CHR ''+''" using digits(1) isDigit_not by (auto simp: q)
  have signs: "\<not> hasPrefix (fmtF4 x) ''-''" "\<not> hasPrefix (fmtF4 x) ''+''" using c by (auto simp: f q hasPrefix_iff)
  have ix: "indexByte (fmtF4 x) CHR ''.'' = Some (length ?q)" unfolding f using indexByte_append [OF dot, of ?p] by simp
  have "take (length ?q) (fmtF4 x) = ?q" "drop (Suc (length ?q)) (fmtF4 x) = ?p" by (simp_all add: f)
  moreover have "decVal (?q @ ?p) = r" using decVal_pad4 [of "r mod 10000" ?q] by (simp add: decVal_natStr)
  moreover have "length ?p = 4" by (simp add: pad4_def)
  ultimately show ?thesis using signs ix digits r by (simp add: ParseFloat_def)
qed

text \<open>Thresholds with at most four decimals come back as they are.\<close>

definition fourDecimals :: "float64 \<Rightarrow> bool" where
  "fourDecimals x \<longleftrightarrow> of_int \<lfloor>x * 10000\<rfloor> = x * 10000"

lemma fourDecimals_back: "x > 0 \<Longrightarrow> fourDecimals x \<Longrightarrow> ParseFloat (fmtF4 x) = Some x"
proof -
  assume x: "x > 0" "fourDecimals x"
  then obtain n where n: "x * 10000 = of_int n" by (metis fourDecimals_def)
  then have "roundHalfEven (x * 10000) = n" by (simp add: roundHalfEven_def)
  then show ?thesis using ParseFloat_fmtF4 [of x] x(1) n by (simp add: field_simps)
qed

section \<open>What the next start reads\<close>

definition strOf :: "(string \<rightharpoonup> string) \<Rightarrow> string \<Rightarrow> string \<Rightarrow> string" where
  "strOf rows key d = (case rows key of None \<Rightarrow> d | Some v \<Rightarrow> if v = [] then d else v)"

definition floatOf :: "(string \<rightharpoonup> string) \<Rightarrow> string \<Rightarrow> float64 \<Rightarrow> float64" where
  "floatOf rows key d = (case rows key of None \<Rightarrow> d | Some v \<Rightarrow> (case ParseFloat v of None \<Rightarrow> d | Some x \<Rightarrow> if x > 0 then x else d))"

definition secretOf :: "settings_env \<Rightarrow> (string \<rightharpoonup> string) \<Rightarrow> string \<Rightarrow> string \<Rightarrow> string" where
  "secretOf E rows key d =
     (case rows key of None \<Rightarrow> d
      | Some v \<Rightarrow> if v = [] then d else (case ScanColumn (sv_gcm E) (sv_key E) (SrcText v) of Inl _ \<Rightarrow> d | Inr p \<Rightarrow> p))"

lemma loadPersisted_eq:
  "loadPersistedSettings E rows c =
     \<lparr>rc_SpamScore = floatOf rows ''spam_score'' (rc_SpamScore c), rc_RejectScore = floatOf rows ''reject_score'' (rc_RejectScore c),
      rc_NtfyURL = secretOf E rows ''ntfy_url'' (rc_NtfyURL c), rc_NtfyTopic = strOf rows ''ntfy_topic'' (rc_NtfyTopic c),
      rc_NtfyToken = secretOf E rows ''ntfy_token'' (rc_NtfyToken c), rc_VTAPIKey = secretOf E rows ''vt_api_key'' (rc_VTAPIKey c),
      rc_AbuseIPDBKey = secretOf E rows ''abuseipdb_key'' (rc_AbuseIPDBKey c), rc_PhishTankKey = secretOf E rows ''phishtank_key'' (rc_PhishTankKey c),
      rc_RspamdURL = strOf rows ''rspamd_url'' (rc_RspamdURL c), rc_ClamAVAddr = strOf rows ''clamav_addr'' (rc_ClamAVAddr c),
      rc_YARARulesDir = strOf rows ''yara_rules_dir'' (rc_YARARulesDir c),
      rc_AdminPasswordBcrypt = strOf rows ''admin_password_bcrypt'' (rc_AdminPasswordBcrypt c)\<rparr>"
proof -
  have "loadStr rows k (\<lambda>v. rc_NtfyTopic_update (\<lambda>_. v)) c = c\<lparr>rc_NtfyTopic := strOf rows k (rc_NtfyTopic c)\<rparr>"
    "loadStr rows k (\<lambda>v. rc_RspamdURL_update (\<lambda>_. v)) c = c\<lparr>rc_RspamdURL := strOf rows k (rc_RspamdURL c)\<rparr>"
    "loadStr rows k (\<lambda>v. rc_ClamAVAddr_update (\<lambda>_. v)) c = c\<lparr>rc_ClamAVAddr := strOf rows k (rc_ClamAVAddr c)\<rparr>"
    "loadStr rows k (\<lambda>v. rc_YARARulesDir_update (\<lambda>_. v)) c = c\<lparr>rc_YARARulesDir := strOf rows k (rc_YARARulesDir c)\<rparr>"
    "loadStr rows k (\<lambda>v. rc_AdminPasswordBcrypt_update (\<lambda>_. v)) c = c\<lparr>rc_AdminPasswordBcrypt := strOf rows k (rc_AdminPasswordBcrypt c)\<rparr>"
    for k c by (simp_all add: loadStr_def strOf_def split: option.split)
  moreover have "loadFloat rows k (\<lambda>v. rc_SpamScore_update (\<lambda>_. v)) c = c\<lparr>rc_SpamScore := floatOf rows k (rc_SpamScore c)\<rparr>"
    "loadFloat rows k (\<lambda>v. rc_RejectScore_update (\<lambda>_. v)) c = c\<lparr>rc_RejectScore := floatOf rows k (rc_RejectScore c)\<rparr>"
    for k c by (simp_all add: loadFloat_def floatOf_def split: option.split)
  moreover have "loadSecret E rows k (\<lambda>v. rc_NtfyURL_update (\<lambda>_. v)) c = c\<lparr>rc_NtfyURL := secretOf E rows k (rc_NtfyURL c)\<rparr>"
    "loadSecret E rows k (\<lambda>v. rc_NtfyToken_update (\<lambda>_. v)) c = c\<lparr>rc_NtfyToken := secretOf E rows k (rc_NtfyToken c)\<rparr>"
    "loadSecret E rows k (\<lambda>v. rc_VTAPIKey_update (\<lambda>_. v)) c = c\<lparr>rc_VTAPIKey := secretOf E rows k (rc_VTAPIKey c)\<rparr>"
    "loadSecret E rows k (\<lambda>v. rc_AbuseIPDBKey_update (\<lambda>_. v)) c = c\<lparr>rc_AbuseIPDBKey := secretOf E rows k (rc_AbuseIPDBKey c)\<rparr>"
    "loadSecret E rows k (\<lambda>v. rc_PhishTankKey_update (\<lambda>_. v)) c = c\<lparr>rc_PhishTankKey := secretOf E rows k (rc_PhishTankKey c)\<rparr>"
    for k c by (simp_all add: loadSecret_def secretOf_def split: option.split sum.split)
  ultimately show ?thesis by (cases c) (simp add: loadPersistedSettings_def)
qed

text \<open>A 32-byte key, a cipher that opens what it seals, and twelve random bytes for each nonce.\<close>

definition cryptoOK :: "settings_env \<Rightarrow> bool" where
  "cryptoOK E \<longleftrightarrow> gcmOK (sv_gcm E) \<and> length (sv_key E) = 32 \<and> (\<forall>i. \<exists>nonce. sv_rand E i = Inr nonce \<and> length nonce = nonceSize)"

lemma secret_back:
  assumes "cryptoOK E" and "sv_gcm E' = sv_gcm E" and "sv_key E' = sv_key E" and "rows key = Some (secret E i v)"
  shows "secretOf E' rows key d = v"
proof -
  obtain nonce where n: "sv_rand E i = Inr nonce" "length nonce = nonceSize" using assms(1) by (auto simp: cryptoOK_def)
  have k: "sv_key E \<noteq> []" "aesKeyOK (sv_key E)" "gcmOK (sv_gcm E)" using assms(1) by (auto simp: cryptoOK_def aesKeyOK_def)
  obtain c where c: "Value (sv_gcm E) (sv_key E) (Inr nonce) v = Inr c" "ScanColumn (sv_gcm E) (sv_key E) (SrcText c) = Inr v" "hasPrefix c encPrefix"
    using column_roundtrip [OF k(3) disjI2 [OF k(2)] n(2), of v] k(1) by blast
  have "secret E i v = c" by (simp add: secret_def encryptSetting_def n(1) c(1))
  moreover have "c \<noteq> []" using c(3) by (auto simp: hasPrefix_iff encPrefix_def)
  ultimately show ?thesis using assms(2-4) c(2) by (simp add: secretOf_def)
qed

datatype setting_op =
    SetThresholds float64 float64
  | SetKeys string string string
  | SetNotifications string string string
  | SetEndpoints string string string
  | SetScanners "string \<rightharpoonup> bool"
  | SetHook string string
  | SetPassword string string string

fun settingStep :: "settings_env \<times> setting_op \<Rightarrow> settings \<Rightarrow> settings" where
  "settingStep (E, SetThresholds spam reject) w = fst (UpdateThresholds E spam reject w)"
| "settingStep (E, SetKeys vt abuse phish) w = fst (UpdateAPIKeys E vt abuse phish w)"
| "settingStep (E, SetNotifications url topic token) w = fst (UpdateNotifications E url topic token w)"
| "settingStep (E, SetEndpoints rspamd clamav yara) w = fst (UpdateEndpoints E rspamd clamav yara w)"
| "settingStep (E, SetScanners req) w = fst (UpdateScanners E req w)"
| "settingStep (E, SetHook url verdicts) w = fst (UpdateWebhook E url verdicts w)"
| "settingStep (E, SetPassword current new confirm) w = fst (ChangePassword E current new confirm w)"

text \<open>
  Requests whose effect a restart keeps: thresholds of at most four decimals, a password and scanner switches whose writes succeed, a topic that is not blank, endpoints
  none of which is blank. Keys, addresses of notifications and the webhook need no condition.
\<close>

fun durable :: "settings_env \<Rightarrow> setting_op \<Rightarrow> bool" where
  "durable E (SetThresholds spam reject) \<longleftrightarrow> fourDecimals spam \<and> fourDecimals reject \<and> sv_faults E = (\<lambda>_. None)"
| "durable E (SetNotifications url topic token) \<longleftrightarrow> topic \<noteq> []"
| "durable E (SetEndpoints rspamd clamav yara) \<longleftrightarrow> rspamd \<noteq> [] \<and> clamav \<noteq> [] \<and> yara \<noteq> []"
| "durable E (SetPassword current new confirm) \<longleftrightarrow> sv_generate E new \<noteq> Inr [] \<and> sv_faults E = (\<lambda>_. None)"
| "durable E (SetScanners req) \<longleftrightarrow> sv_faults E = (\<lambda>_. None)"
| "durable E _ \<longleftrightarrow> True"

lemma saveRows_cases:
  assumes "saveRows E kvs w = (w1, ok)"
  shows "sw_cfg w1 = sw_cfg w" "sw_scanners w1 = sw_scanners w"
    "sw_rows w1 = (if ok then sw_rows w ++ map_of (rev kvs) else sw_rows w)" "ok \<longleftrightarrow> sv_faults E (sw_writes w) = None"
  using assms by (auto simp: saveRows_def Let_def split: option.splits)

lemma load_upd:
  "strOf (rows(k \<mapsto> v)) key d = (if key = k then if v = [] then d else v else strOf rows key d)"
  "floatOf (rows(k \<mapsto> v)) key x = (if key = k then case ParseFloat v of None \<Rightarrow> x | Some y \<Rightarrow> if y > 0 then y else x else floatOf rows key x)"
  "key \<noteq> k \<Longrightarrow> secretOf E (rows(k \<mapsto> v)) key d = secretOf E rows key d"
  by (simp_all add: strOf_def floatOf_def secretOf_def)

text \<open>A restart with the configuration \<open>cfg\<close> would load what is running.\<close>

definition inStep :: "settings_env \<Rightarrow> Runtime \<Rightarrow> settings \<Rightarrow> bool" where
  "inStep E0 cfg w \<longleftrightarrow> sw_cfg w = loadPersistedSettings E0 (sw_rows w) cfg"

lemma inStep_same: "inStep E0 cfg w \<Longrightarrow> sw_cfg w1 = sw_cfg w \<Longrightarrow> sw_rows w1 = sw_rows w \<Longrightarrow> inStep E0 cfg w1"
  by (simp add: inStep_def)

lemma UpdateThresholds_inStep:
  assumes "inStep E0 cfg w" and "durable E (SetThresholds spam reject)"
  shows "inStep E0 cfg (fst (UpdateThresholds E spam reject w))"
proof (cases "spam \<le> 0 \<or> reject \<le> 0 \<or> spam \<ge> reject")
  case False
  let ?w = "w\<lparr>sw_cfg := (sw_cfg w)\<lparr>rc_SpamScore := spam, rc_RejectScore := reject\<rparr>\<rparr>"
  obtain w1 ok where wr: "saveRows E [(''spam_score'', fmtF4 spam), (''reject_score'', fmtF4 reject)] ?w = (w1, ok)" by fastforce
  note c = saveRows_cases [OF wr]
  have "ok" using c(4) assms(2) by simp
  moreover have "ParseFloat (fmtF4 spam) = Some spam" "ParseFloat (fmtF4 reject) = Some reject"
    using assms(2) False by (simp_all add: fourDecimals_back)
  ultimately have "inStep E0 cfg w1" using assms(1) c(1,3) False by (simp add: inStep_def loadPersisted_eq load_upd)
  then show ?thesis using False wr by (simp add: UpdateThresholds_def)
qed (use assms in \<open>simp add: UpdateThresholds_def\<close>)

lemma UpdateAPIKeys_inStep:
  assumes "inStep E0 cfg w" and E: "cryptoOK E" "sv_gcm E0 = sv_gcm E" "sv_key E0 = sv_key E"
  shows "inStep E0 cfg (fst (UpdateAPIKeys E vt abuse phish w))"
proof -
  obtain w1 ok where wr: "saveRows E [(''vt_api_key'', secret E 0 vt), (''abuseipdb_key'', secret E 1 abuse), (''phishtank_key'', secret E 2 phish)] w = (w1, ok)"
    by fastforce
  note c = saveRows_cases [OF wr]
  have "loadPersistedSettings E0 (sw_rows w1) cfg = (sw_cfg w)\<lparr>rc_VTAPIKey := vt, rc_AbuseIPDBKey := abuse, rc_PhishTankKey := phish\<rparr>" if ok
    using assms(1) c(3) that secret_back [OF E, of "sw_rows w1" "''vt_api_key''" 0 vt] secret_back [OF E, of "sw_rows w1" "''abuseipdb_key''" 1 abuse]
      secret_back [OF E, of "sw_rows w1" "''phishtank_key''" 2 phish]
    by (simp add: inStep_def loadPersisted_eq load_upd)
  moreover have "inStep E0 cfg w1" if "\<not> ok" using inStep_same [OF assms(1)] c(1,3) that by simp
  ultimately show ?thesis using wr c(1) unfolding UpdateAPIKeys_def by (cases ok) (simp_all add: inStep_def)
qed

lemma UpdateNotifications_inStep:
  assumes "inStep E0 cfg w" and E: "cryptoOK E" "sv_gcm E0 = sv_gcm E" "sv_key E0 = sv_key E" and "topic \<noteq> []"
  shows "inStep E0 cfg (fst (UpdateNotifications E url topic token w))"
proof -
  obtain w1 ok where wr: "saveRows E [(''ntfy_url'', secret E 0 url), (''ntfy_topic'', topic), (''ntfy_token'', secret E 1 token)] w = (w1, ok)"
    by fastforce
  note c = saveRows_cases [OF wr]
  have "loadPersistedSettings E0 (sw_rows w1) cfg = (sw_cfg w)\<lparr>rc_NtfyURL := url, rc_NtfyTopic := topic, rc_NtfyToken := token\<rparr>" if ok
    using assms(1,5) c(3) that secret_back [OF E, of "sw_rows w1" "''ntfy_url''" 0 url] secret_back [OF E, of "sw_rows w1" "''ntfy_token''" 1 token]
    by (simp add: inStep_def loadPersisted_eq load_upd)
  moreover have "inStep E0 cfg w1" if "\<not> ok" using inStep_same [OF assms(1)] c(1,3) that by simp
  ultimately show ?thesis using wr c(1) unfolding UpdateNotifications_def by (cases ok) (simp_all add: inStep_def)
qed

lemma UpdateEndpoints_inStep:
  assumes "inStep E0 cfg w" and "durable E (SetEndpoints rspamd clamav yara)"
  shows "inStep E0 cfg (fst (UpdateEndpoints E rspamd clamav yara w))"
proof -
  obtain w1 ok where wr: "saveRows E [(''rspamd_url'', rspamd), (''clamav_addr'', clamav), (''yara_rules_dir'', yara)] w = (w1, ok)" by fastforce
  note c = saveRows_cases [OF wr]
  have "loadPersistedSettings E0 (sw_rows w1) cfg = (sw_cfg w)\<lparr>rc_RspamdURL := rspamd, rc_ClamAVAddr := clamav, rc_YARARulesDir := yara\<rparr>" if ok
    using assms c(3) that by (simp add: inStep_def loadPersisted_eq load_upd)
  moreover have "inStep E0 cfg w1" if "\<not> ok" using inStep_same [OF assms(1)] c(1,3) that by simp
  ultimately show ?thesis using wr c(1) assms(2) unfolding UpdateEndpoints_def Let_def by (cases ok) (simp_all add: inStep_def)
qed

lemma ChangePassword_inStep:
  assumes "inStep E0 cfg w" and "durable E (SetPassword current new confirm)"
  shows "inStep E0 cfg (fst (ChangePassword E current new confirm w))"
proof (cases "sv_generate E new")
  case (Inr hash)
  obtain w1 ok where wr: "saveRows E [(''admin_password_bcrypt'', hash)] w = (w1, ok)" by fastforce
  note c = saveRows_cases [OF wr]
  have "ok" "hash \<noteq> []" using c(4) assms(2) Inr by auto
  then have "loadPersistedSettings E0 (sw_rows w1) cfg = (sw_cfg w1)\<lparr>rc_AdminPasswordBcrypt := hash\<rparr>"
    using assms(1) c(1,3) by (simp add: inStep_def loadPersisted_eq load_upd)
  then show ?thesis using assms(1) wr Inr unfolding ChangePassword_def Let_def by (cases "new = confirm") (auto simp: inStep_def)
next
  case (Inl e)
  then show ?thesis using assms(1) by (cases "new = confirm") (auto simp: ChangePassword_def)
qed

lemma saveRows_inStep:
  assumes "inStep E0 cfg w" and "map fst kvs \<noteq> []" and "\<forall>k \<in> fst ` set kvs. hasPrefix k ''scanner_'' \<or> hasPrefix k ''webhook_''"
  shows "inStep E0 cfg (fst (saveRows E kvs w))"
proof -
  obtain w1 ok where wr: "saveRows E kvs w = (w1, ok)" by fastforce
  note c = saveRows_cases [OF wr]
  have "(sw_rows w1) key = (sw_rows w) key" if "\<not> hasPrefix key ''scanner_''" "\<not> hasPrefix key ''webhook_''" for key
  proof -
    have "map_of (rev kvs) key = None" using that assms(3) by (force simp: map_of_eq_None_iff)
    then show ?thesis using c(3) by (simp add: map_add_def)
  qed
  then have "sw_rows w1 k = sw_rows w k" if "k \<in> {''spam_score'', ''reject_score'', ''ntfy_url'', ''ntfy_topic'', ''ntfy_token'',
     ''vt_api_key'', ''abuseipdb_key'', ''phishtank_key'', ''rspamd_url'', ''clamav_addr'', ''yara_rules_dir'', ''admin_password_bcrypt''}" for k
    using that by (auto simp: hasPrefix_def)
  then have "loadPersistedSettings E0 (sw_rows w1) cfg = loadPersistedSettings E0 (sw_rows w) cfg"
    by (simp add: loadPersisted_eq strOf_def floatOf_def secretOf_def)
  then show ?thesis using wr assms(1) c(1) by (simp add: inStep_def)
qed

lemma UpdateScanners_inStep:
  assumes "inStep E0 cfg w"
  shows "inStep E0 cfg (fst (UpdateScanners E req w))"
proof -
  have "inStep E0 cfg (fold (\<lambda>(name, _) w.
        case req name of
          None \<Rightarrow> w
        | Some enabled \<Rightarrow>
            fst (saveRows E [(''scanner_'' @ name @ ''_enabled'', if enabled then ''true'' else ''false'')]
              (w\<lparr>sw_scanners := setScanner E name enabled (sw_scanners w)\<rparr>))) xs w)" for xs
    using assms
  proof (induction xs arbitrary: w)
    case (Cons x xs)
    obtain name b where x: "x = (name, b)" by fastforce
    have "inStep E0 cfg (fst (saveRows E [(''scanner_'' @ name @ ''_enabled'', v)] (w\<lparr>sw_scanners := l\<rparr>)))" for v l
      by (rule saveRows_inStep) (use Cons.prems in \<open>simp_all add: inStep_def hasPrefix_def\<close>)
    then show ?case using Cons by (simp add: x split: option.split)
  qed simp
  then show ?thesis by (simp add: UpdateScanners_def)
qed

lemma UpdateWebhook_inStep:
  assumes "inStep E0 cfg w"
  shows "inStep E0 cfg (fst (UpdateWebhook E url verdicts w))"
proof -
  have "inStep E0 cfg (fst (saveRows E [(''webhook_url'', url), (''webhook_verdicts'', verdicts)] w))"
    by (rule saveRows_inStep [OF assms]) (simp_all add: hasPrefix_def)
  then show ?thesis by (auto simp: UpdateWebhook_def inStep_def split: prod.splits bool.splits)
qed

lemma settingStep_inStep:
  assumes "inStep E0 cfg w" and "cryptoOK E" "sv_gcm E0 = sv_gcm E" "sv_key E0 = sv_key E" and "durable E opn"
  shows "inStep E0 cfg (settingStep (E, opn) w)"
proof (cases opn)
  case (SetThresholds x y)
  then show ?thesis using UpdateThresholds_inStep [OF assms(1)] assms(5) by simp
next
  case (SetKeys x y z)
  then show ?thesis using UpdateAPIKeys_inStep [OF assms(1-4)] by simp
next
  case (SetNotifications x y z)
  then show ?thesis using UpdateNotifications_inStep [OF assms(1-4)] assms(5) by simp
next
  case (SetEndpoints x y z)
  then show ?thesis using UpdateEndpoints_inStep [OF assms(1)] assms(5) by simp
next
  case (SetPassword x y z)
  then show ?thesis using ChangePassword_inStep [OF assms(1)] assms(5) by simp
qed (simp_all add: UpdateScanners_inStep UpdateWebhook_inStep assms(1))

lemma settings_run_inStep:
  assumes "inStep E0 cfg w" and "\<forall>(E, opn) \<in> set ops. cryptoOK E \<and> sv_gcm E0 = sv_gcm E \<and> sv_key E0 = sv_key E \<and> durable E opn"
  shows "inStep E0 cfg (fold settingStep ops w)"
  using assms
proof (induction ops arbitrary: w)
  case (Cons x ops)
  obtain E opn where x: "x = (E, opn)" by fastforce
  have "inStep E0 cfg (settingStep x w)" unfolding x by (rule settingStep_inStep) (use Cons.prems x in auto)
  then show ?case using Cons by simp
qed simp

lemma startListeners_cfg: "sw_cfg (startListeners as w) = sw_cfg w \<and> sw_rows (startListeners as w) = sw_rows w"
  by (induction as arbitrary: w) (simp_all add: startListeners_def)

lemma migrate_cfg: "sw_cfg (migrateAccountsToDB E yaml w) = sw_cfg w \<and> sw_rows (migrateAccountsToDB E yaml w) = sw_rows w"
proof (induction yaml arbitrary: w)
  case (Cons a yaml)
  have "sw_cfg (fst (writeAccounts E f w)) = sw_cfg w \<and> sw_rows (fst (writeAccounts E f w)) = sw_rows w" for f
    by (auto simp: writeAccounts_def Let_def split: option.split sum.split)
  then show ?case using Cons by (simp add: migrateAccountsToDB_def)
qed (simp add: migrateAccountsToDB_def)

lemma startProgram_inStep:
  assumes "startProgram E readable masked cfg yaml scanners store w0 = Some w"
  shows "inStep E cfg w" and "sw_rows w = sw_rows w0"
  using assms by (auto simp: startProgram_def Let_def inStep_def startListeners_cfg migrate_cfg split: if_splits)

text \<open>The objects that are built from the configuration and the rows: keys of scanners and feeds, switches and notifier; and the order of the thresholds.\<close>

definition objectsInStep :: "settings_env \<Rightarrow> bool \<Rightarrow> (string \<times> bool) list \<Rightarrow> settings \<Rightarrow> bool" where
  "objectsInStep E0 masked scanners w \<longleftrightarrow> sw_keys w = startKeys (sw_cfg w) \<and> sw_scanners w = loadScanners E0 (sw_rows w) scanners
     \<and> sw_notifier w = loadWebhook (sw_rows w) (newNotifier (rc_NtfyURL (sw_cfg w)) (rc_NtfyToken (sw_cfg w)) masked)
     \<and> rc_SpamScore (sw_cfg w) < rc_RejectScore (sw_cfg w)"

lemma loadScanners_upd:
  "\<not> hasPrefix k ''scanner_'' \<Longrightarrow> loadScanners E (rows(k \<mapsto> v)) xs = loadScanners E rows xs"
  "loadScanners E (rows(''scanner_'' @ name @ ''_enabled'' \<mapsto> if b then ''true'' else ''false'')) xs = setScanner E name b (loadScanners E rows xs)"
proof -
  show "loadScanners E (rows(k \<mapsto> v)) xs = loadScanners E rows xs" if "\<not> hasPrefix k ''scanner_''"
  proof -
    have "(rows(k \<mapsto> v)) (''scanner_'' @ name @ ''_enabled'') = rows (''scanner_'' @ name @ ''_enabled'')" for name
      using that by (auto simp: hasPrefix_def)
    then show ?thesis unfolding loadScanners_def by presburger
  qed
qed (simp add: loadScanners_def setScanner_def case_prod_beta')

lemma loadWebhook_upd:
  "k \<notin> {''webhook_url'', ''webhook_verdicts''} \<Longrightarrow> loadWebhook (rows(k \<mapsto> v)) n = loadWebhook rows n"
  "loadWebhook (rows(''webhook_url'' \<mapsto> url, ''webhook_verdicts'' \<mapsto> v)) n = SetWebhook url v n"
  by (auto simp: loadWebhook_def split: option.split)

lemma loadWebhook_ntfy:
  "(loadWebhook rows (newNotifier u t masked))\<lparr>nt_NtfyURL := u', nt_NtfyToken := t'\<rparr> = loadWebhook rows (newNotifier u' t' masked)"
  "SetWebhook url v (loadWebhook rows n) = SetWebhook url v n"
  by (simp_all add: loadWebhook_def SetWebhook_def newNotifier_def split: option.split)

lemmas objects_upd = objectsInStep_def loadScanners_upd loadWebhook_upd hasPrefix_def

lemma UpdateScanners_objects:
  assumes "objectsInStep E0 masked scanners w" and "durable E (SetScanners req)" and "sv_inert E0 = sv_inert E"
  shows "objectsInStep E0 masked scanners (fst (UpdateScanners E req w))"
proof -
  have set_same: "setScanner E = setScanner E0" using assms(3) by (simp add: setScanner_def fun_eq_iff)
  have "objectsInStep E0 masked scanners (fold (\<lambda>(name, _) w.
        case req name of
          None \<Rightarrow> w
        | Some enabled \<Rightarrow>
            fst (saveRows E [(''scanner_'' @ name @ ''_enabled'', if enabled then ''true'' else ''false'')]
              (w\<lparr>sw_scanners := setScanner E name enabled (sw_scanners w)\<rparr>))) xs w)" for xs
    using assms(1)
  proof (induction xs arbitrary: w)
    case (Cons x xs)
    obtain name b where x: "x = (name, b)" by fastforce
    have "objectsInStep E0 masked scanners (fst (saveRows E [(''scanner_'' @ name @ ''_enabled'', if en then ''true'' else ''false'')]
              (w\<lparr>sw_scanners := setScanner E name en (sw_scanners w)\<rparr>)))" for en
      using Cons.prems assms(2) loadScanners_upd(2) [of E0 "sw_rows w" name en scanners]
      by (simp add: objectsInStep_def saveRows_def set_same loadWebhook_upd)
    then show ?case using Cons by (simp add: x split: option.split)
  qed simp
  then show ?thesis by (simp add: UpdateScanners_def)
qed

lemma settingStep_objects:
  assumes "objectsInStep E0 masked scanners w" and "durable E opn" and "sv_inert E0 = sv_inert E"
  shows "objectsInStep E0 masked scanners (settingStep (E, opn) w)"
proof (cases opn)
  case (SetThresholds x y)
  then show ?thesis using assms by (auto simp: UpdateThresholds_def saveRows_def objects_upd startKeys_def Let_def)
next
  case (SetKeys x y z)
  then show ?thesis using assms
    by (auto simp: UpdateAPIKeys_def saveRows_def objects_upd Let_def startKeys_def fun_eq_iff split: option.split)
next
  case (SetNotifications x y z)
  then show ?thesis using assms
    by (auto simp: UpdateNotifications_def saveRows_def objects_upd Let_def startKeys_def loadWebhook_ntfy split: option.split)
next
  case (SetEndpoints x y z)
  then show ?thesis using assms
    by (auto simp: UpdateEndpoints_def saveRows_def objects_upd Let_def startKeys_def fun_eq_iff split: option.split)
next
  case (SetScanners req)
  then show ?thesis using UpdateScanners_objects [OF assms(1)] assms(2,3) by simp
next
  case (SetHook x y)
  then show ?thesis using assms(1)
    by (auto simp: UpdateWebhook_def saveRows_def objects_upd Let_def loadWebhook_ntfy split: option.split)
next
  case (SetPassword x y z)
  then show ?thesis using assms
    by (auto simp: ChangePassword_def saveRows_def objects_upd Let_def startKeys_def split: sum.split option.split)
qed

lemma settings_run_objects:
  assumes "objectsInStep E0 masked scanners w" and "\<forall>(E, opn) \<in> set ops. sv_inert E0 = sv_inert E \<and> durable E opn"
  shows "objectsInStep E0 masked scanners (fold settingStep ops w)"
  using assms
proof (induction ops arbitrary: w)
  case (Cons x ops)
  obtain E opn where x: "x = (E, opn)" by fastforce
  have "objectsInStep E0 masked scanners (settingStep x w)" unfolding x by (rule settingStep_objects) (use Cons.prems x in auto)
  then show ?case using Cons by simp
qed simp

lemma startListeners_objects:
  "sw_keys (startListeners as w) = sw_keys w \<and> sw_scanners (startListeners as w) = sw_scanners w \<and> sw_notifier (startListeners as w) = sw_notifier w"
  by (induction as arbitrary: w) (simp_all add: startListeners_def)

lemma migrate_objects:
  "sw_keys (migrateAccountsToDB E yaml w) = sw_keys w \<and> sw_scanners (migrateAccountsToDB E yaml w) = sw_scanners w
   \<and> sw_notifier (migrateAccountsToDB E yaml w) = sw_notifier w"
proof (induction yaml arbitrary: w)
  case (Cons a yaml)
  have "sw_keys (fst (writeAccounts E f w)) = sw_keys w \<and> sw_scanners (fst (writeAccounts E f w)) = sw_scanners w
      \<and> sw_notifier (fst (writeAccounts E f w)) = sw_notifier w" for f
    by (auto simp: writeAccounts_def Let_def split: option.split sum.split)
  then show ?case using Cons by (simp add: migrateAccountsToDB_def)
qed (simp add: migrateAccountsToDB_def)

lemma startProgram_objects:
  assumes "startProgram E readable masked cfg yaml scanners store w0 = Some w"
  shows "objectsInStep E masked scanners w"
  using assms
  by (auto simp: startProgram_def Let_def objectsInStep_def startListeners_objects migrate_objects startListeners_cfg migrate_cfg split: if_splits)


text \<open>
  Accepted thresholds can stop the next start: the handler checks the numbers it is given but saves them with four decimals. For any two thresholds
  that differ and round to the same value, the request is accepted and the next start exits.
\<close>

theorem thresholds_can_block_start:
  assumes "0 < spam" and "spam < reject" and "fmtF4 spam = fmtF4 reject" and "sv_faults E (sw_writes w) = None"
    and "0 < roundHalfEven (spam * 10000)"
  shows "snd (UpdateThresholds E spam reject w) = 200
    \<and> startProgram E' readable masked cfg yaml scanners store (fst (UpdateThresholds E spam reject w)) = None"
proof -
  let ?w = "fst (UpdateThresholds E spam reject w)"
  have rows: "sw_rows ?w = (sw_rows w)(''spam_score'' \<mapsto> fmtF4 spam, ''reject_score'' \<mapsto> fmtF4 reject)"
    using assms by (simp add: UpdateThresholds_def saveRows_def Let_def)
  define v where "v = (of_int (roundHalfEven (spam * 10000)) / 10000 :: rat)"
  have "ParseFloat (fmtF4 spam) = Some v" "v > 0" using ParseFloat_fmtF4 [of spam] assms by (simp_all add: v_def)
  then have "rc_SpamScore (loadPersistedSettings E' (sw_rows ?w) cfg) = v" "rc_RejectScore (loadPersistedSettings E' (sw_rows ?w) cfg) = v"
    unfolding rows loadPersisted_eq using assms(3) by (simp_all add: load_upd)
  then show ?thesis using assms by (simp add: startProgram_def UpdateThresholds_def Let_def)
qed

section \<open>The password\<close>

text \<open>
  A password change is all or nothing: when it is accepted, the caller knew the old password, the new one was confirmed and has at least twelve bytes, its hash is in
  force at once and every session is over; every refusal leaves the program as it was.
\<close>

theorem password_change:
  "case ChangePassword E current new confirm w of (w', status) \<Rightarrow>
     if status = 204
     then sv_bcrypt E (rc_AdminPasswordBcrypt (sw_cfg w)) current \<and> new = confirm \<and> 12 \<le> length new
       \<and> sv_generate E new = Inr (rc_AdminPasswordBcrypt (sw_cfg w')) \<and> (\<forall>now token. snd (Get now token (sw_sessions w')) = None)
     else w' = w"
  by (auto simp: ChangePassword_def Let_def DeleteAll_def Get_def split: sum.splits prod.splits)

text \<open>The write of the new hash may fail unnoticed: the next start then loads the old one.\<close>

lemma password_write_lost:
  "sv_faults E (sw_writes w) \<noteq> None \<Longrightarrow> sw_rows (fst (ChangePassword E current new confirm w)) = sw_rows w"
  by (auto simp: ChangePassword_def saveRows_def Let_def split: sum.splits option.splits)

text \<open>A request that sets one endpoint blanks the saved rows of the others, while the running program keeps them.\<close>

lemma endpoint_rows_blanked:
  "sv_faults E (sw_writes w) = None \<Longrightarrow> rspamd \<noteq> [] \<Longrightarrow>
     sw_rows (fst (UpdateEndpoints E rspamd [] [] w)) ''clamav_addr'' = Some []
     \<and> rc_ClamAVAddr (sw_cfg (fst (UpdateEndpoints E rspamd [] [] w))) = rc_ClamAVAddr (sw_cfg w)"
  by (simp add: UpdateEndpoints_def saveRows_def Let_def)

text \<open>
  The listing never says more than the table, and after any requests it shows every account as running: passwords are not part of an answer,
  and a listener that is down would show.
\<close>

lemma accounts_shown_running:
  assumes "listenersOK w"
  shows "GetAccounts True w = Inr (map (\<lambda>a. (responseFor NewManager a)\<lparr>ar_Running := True\<rparr>) (sw_accounts w))"
proof -
  have "IsRunning (ac_Name a) (sw_mgr w)" if "a \<in> set (sw_accounts w)" for a
  proof -
    have "accountMap (sw_accounts w) (ac_Name a) \<noteq> None" using that by (simp add: accountMap_None)
    then have "running (sw_mgr w) (ac_Name a) \<noteq> None"
      using assms unfolding listenersOK_def by (metis comp_apply option.map_disc_iff)
    then show ?thesis using assms running_cancels by (auto simp: IsRunning_def listenersOK_def)
  qed
  then show ?thesis by (simp add: GetAccounts_def responseFor_def)
qed

text \<open>
  The sessions that a password change ends are only those in memory. The table keeps the rows of the last orderly shutdown, so that after a crash the next start
  brings back every session that was saved then and has not expired.
\<close>

lemma crash_restores_sessions:
  assumes "tbl token = Some r" and "dbs_ExpiresAt r > now"
  shows "\<exists>sess. snd (Get now token (LoadFromDB now tbl (NewStore d))) = Some sess \<and> se_Username sess = dbs_Username r"
  using assms by (simp add: Get_def LoadFromDB_def restored_def dead_def defaultIdleTimeout_def hours_def)

section \<open>Exactness of custom domains\<close>

lemma lowerChar_wild: "x \<in> {CHR ''%'', CHR ''_''} \<Longrightarrow> lowerChar c = x \<longleftrightarrow> c = x"
proof
  assume x: "x \<in> {CHR ''%'', CHR ''_''}" and l: "lowerChar c = x"
  show "c = x"
  proof (rule ccontr)
    assume "c \<noteq> x"
    then have up: "65 \<le> (of_char c :: nat)" "(of_char c :: nat) \<le> 90" and "x = char_of (of_char c + 32 :: nat)"
      using l by (auto simp: lowerChar_def Let_def split: if_splits)
    then have "(of_char x :: nat) = of_char c + 32" by simp
    then show False using x up by auto
  qed
qed (auto simp: lowerChar_def)

lemma toLower_wild: "x \<in> {CHR ''%'', CHR ''_''} \<Longrightarrow> x \<in> set (toLower s) \<longleftrightarrow> x \<in> set s"
proof -
  assume "x \<in> {CHR ''%'', CHR ''_''}"
  then have "x = lowerChar y \<longleftrightarrow> x = y" for y using lowerChar_wild [of x y] by metis
  then show ?thesis unfolding toLower_def set_map image_iff by simp
qed

text \<open>The row of an accepted entry.\<close>

lemma AddCustomFeed_accepted:
  assumes "AddCustomFeed E entry typ w = (w1, 201)"
  shows "customTable w1 = Some (the (customTable w) @ [\<lparr>cf_Entry = toLower (trimSpace entry), cf_EntryType = typ\<rparr>])"
    and "typ = ''domain'' \<Longrightarrow> CHR ''%'' \<notin> set entry \<and> CHR ''_'' \<notin> set entry"
proof -
  have "w1 = w\<lparr>sw_writes := Suc (sw_writes w), sw_custom := sw_custom w
      @ [\<lparr>cf_Entry = toLower (trimSpace entry), cf_EntryType = typ, ce_ID = sw_nextCustom w, ce_AddedBy = sv_actor E\<rparr>], sw_nextCustom := Suc (sw_nextCustom w)\<rparr>"
    using assms by (simp add: AddCustomFeed_def Let_def split: if_splits)
  then show "customTable w1 = Some (the (customTable w) @ [\<lparr>cf_Entry = toLower (trimSpace entry), cf_EntryType = typ\<rparr>])"
    by (simp add: customTable_def CustomFeedEntry.truncate_def)
  show "CHR ''%'' \<notin> set entry \<and> CHR ''_'' \<notin> set entry" if "typ = ''domain''"
    using assms that by (auto simp: AddCustomFeed_def list_ex_iff split: if_splits)
qed

text \<open>
  A custom domain lists exactly its own hosts: once the entry is accepted, the links that the feeds contain in addition are those whose host is the
  cleaned domain or ends in a dot and the domain; no entry can be written that matches more through the pattern operator of the database.
\<close>

theorem custom_domain_exact:
  assumes "AddCustomFeed E entry ''domain'' w = (w1, 201)"
  defines "d \<equiv> toLower (trimSpace entry)"
  shows "ContainsURL (customTable w1) m u \<longleftrightarrow>
    ContainsURL (customTable w) m u \<or> feedHost u \<noteq> [] \<and> (feedHost u = d \<or> (\<exists>pre. feedHost u = pre @ ''.'' @ d))"
proof -
  have "set (trimSpace entry) \<subseteq> set entry" unfolding trimSpace_def by (metis set_dropWhileD set_rev subsetI)
  then have wild: "CHR ''%'' \<notin> set (''.'' @ d)" "CHR ''_'' \<notin> set (''.'' @ d)"
    using AddCustomFeed_accepted(2) [OF assms(1)] toLower_wild [of "CHR ''%''" "trimSpace entry"] toLower_wild [of "CHR ''_''" "trimSpace entry"]
    unfolding d_def by auto
  have low: "toLower (''.'' @ d) = ''.'' @ d" 
  proof -
    have "lowerChar CHR ''.'' = CHR ''.''" by (simp add: lowerChar_def)
    then have "toLower (''.'' @ d) = ''.'' @ toLower d" by (simp add: toLower_def)
    then show ?thesis by (simp add: d_def)
  qed
  have host: "toLower (feedHost u) = feedHost u" by (simp add: feedHost_def toLower_def split: option.split)
  have "sqlLike (''%.'' @ d) (feedHost u) \<longleftrightarrow> (\<exists>pre. feedHost u = pre @ ''.'' @ d)"
  proof -
    have "sqlLike (''%.'' @ d) (feedHost u) \<longleftrightarrow> (\<exists>pre t. feedHost u = pre @ t \<and> ''.'' @ d = toLower t)"
      using sqlLike_percent [of "''.'' @ d"] sqlLike_plain [OF wild] low by simp
    also have "\<dots> \<longleftrightarrow> (\<exists>pre. feedHost u = pre @ ''.'' @ d)"
      using host low by (metis append_eq_append_conv length_map map_append toLower_def)
    finally show ?thesis .
  qed
  then have "customMatch (feedHost u) u \<lparr>cf_Entry = d, cf_EntryType = ''domain''\<rparr> \<longleftrightarrow> feedHost u = d \<or> (\<exists>pre. feedHost u = pre @ ''.'' @ d)"
    by (simp add: customMatch_def)
  then show ?thesis using AddCustomFeed_accepted(1) [OF assms(1)] by (auto simp: ContainsURL_def customTable_def d_def)
qed

text \<open>URL entries are stored in lower case and compared with the link as it is, so a link with a capital letter matches none of them.\<close>

lemma custom_url_case:
  assumes "AddCustomFeed E entry ''url'' w = (w1, 201)" and "toLower u \<noteq> u"
  shows "ContainsURL (customTable w1) m u \<longleftrightarrow> ContainsURL (customTable w) m u"
proof -
  have "\<not> customMatch (feedHost u) u \<lparr>cf_Entry = toLower (trimSpace entry), cf_EntryType = ''url''\<rparr>"
    using assms(2) by (auto simp: customMatch_def)
  then show ?thesis using AddCustomFeed_accepted(1) [OF assms(1)] by (auto simp: ContainsURL_def customTable_def)
qed

section \<open>A concrete program\<close>

definition demoCfg :: Runtime where
  "demoCfg = \<lparr>rc_SpamScore = 6, rc_RejectScore = 15, rc_NtfyURL = [], rc_NtfyTopic = ''mailhook'', rc_NtfyToken = [], rc_VTAPIKey = [],
     rc_AbuseIPDBKey = [], rc_PhishTankKey = [], rc_RspamdURL = ''http://rspamd:11333'', rc_ClamAVAddr = ''tcp://clamav:3310'',
     rc_YARARulesDir = ''/rules'', rc_AdminPasswordBcrypt = ''hash''\<rparr>"

definition demoEnv :: settings_env where
  "demoEnv = \<lparr>sv_faults = (\<lambda>_. None), sv_gcm = xorless, sv_key = replicate 32 CHR ''k'', sv_rand = (\<lambda>_. Inr (replicate 12 CHR ''n'')),
     sv_actor = ''admin'', sv_bcrypt = (\<lambda>h p. h = p), sv_generate = Inr, sv_inert = (\<lambda>name. name = ''onnx'')\<rparr>"

definition emptySettings :: settings where
  "emptySettings = \<lparr>sw_rows = Map.empty, sw_cfg = demoCfg, sw_keys = Map.empty, sw_scanners = [], sw_notifier = newNotifier [] [] True,
     sw_accounts = [], sw_mgr = NewManager, sw_registry = Map.empty, sw_custom = [], sw_nextCustom = 1, sw_sessions = NewStore (hours 24),
     sw_writes = 0\<rparr>"

definition demoAccount :: Account where
  "demoAccount = \<lparr>ac_Name = ''work'', ac_Host = ''imap.example'', ac_Port = 0, ac_User = ''u'', ac_Pass = ''p'', ac_Mailbox = [],
     ac_Quarantine = [], ac_TLSSkipVerify = False, ac_BackfillDays = 0\<rparr>"

lemma demoStart: "\<exists>w. startProgram demoEnv True True demoCfg [] scanners (NewStore (hours 24)) emptySettings = Some w"
proof -
  have "loadPersistedSettings demoEnv Map.empty demoCfg = demoCfg"
    by (simp add: loadPersisted_eq strOf_def floatOf_def secretOf_def demoCfg_def)
  moreover have "rc_NtfyURL demoCfg = []" "rc_SpamScore demoCfg = 6" "rc_RejectScore demoCfg = 15" by (simp_all add: demoCfg_def)
  ultimately show ?thesis by (simp add: startProgram_def emptySettings_def Let_def)
qed

lemma demoCrypto: "cryptoOK demoEnv"
  by (simp add: cryptoOK_def demoEnv_def gcmOK_def xorless_def nonceSize_def)

lemma listeners_match_accounts_witness:
  "\<exists>w. startProgram demoEnv True True demoCfg [] [] (NewStore (hours 24)) emptySettings = Some w
     \<and> map_option noBackfill (running (sw_mgr (fst (CreateAccount demoEnv demoAccount w))) ''work'')
       = map_option configOf (find (\<lambda>a. ac_Name a = ''work'') (sw_accounts (fst (CreateAccount demoEnv demoAccount w))))"
proof -
  obtain w where w: "startProgram demoEnv True True demoCfg [] [] (NewStore (hours 24)) emptySettings = Some w" using demoStart by blast
  have "distinct (map ac_Name (sw_accounts emptySettings))" by (simp add: emptySettings_def)
  from listeners_match_accounts [OF this w, of "[(demoEnv, AccCreate demoAccount)]"] w show ?thesis by (auto simp: Let_def)
qed


lemma thresholds_can_block_start_witness:
  "startProgram demoEnv True True demoCfg [] [] (NewStore (hours 24))
     (fst (UpdateThresholds demoEnv (500001 / 100000) (500002 / 100000) emptySettings)) = None"
proof -
  have "roundHalfEven x = 50000" if "50000 \<le> x" "x < 50000 + 1 / 2" for x
  proof -
    have "\<lfloor>x\<rfloor> = 50000" using that by (intro floor_unique) simp_all
    then show ?thesis using that by (simp add: roundHalfEven_def)
  qed
  then have r: "roundHalfEven (500001 / 100000 * 10000) = 50000" "roundHalfEven (500002 / 100000 * 10000) = 50000" by simp_all
  have "sv_faults demoEnv (sw_writes emptySettings) = None" by (simp add: demoEnv_def)
  with thresholds_can_block_start [of "500001 / 100000" "500002 / 100000" demoEnv emptySettings demoEnv True True demoCfg "[]" "[]" "NewStore (hours 24)"]
  show ?thesis using r by (simp add: fmtF4_def)
qed

lemma custom_domain_exact_witness:
  "ContainsURL (customTable (fst (AddCustomFeed demoEnv '' Evil.example '' ''domain'' emptySettings))) newManager ''http://x.evil.example/''"
proof -
  let ?r = "AddCustomFeed demoEnv '' Evil.example '' ''domain'' emptySettings"
  have "snd ?r = 201" by (simp add: AddCustomFeed_def demoEnv_def emptySettings_def Let_def)
  then have "?r = (fst ?r, 201)" by (metis prod.collapse)
  from custom_domain_exact [OF this, of newManager "''http://x.evil.example/''"]
  have "feedHost ''http://x.evil.example/'' = ''x'' @ ''.'' @ toLower (trimSpace '' Evil.example '') \<Longrightarrow> ?thesis" by auto
  moreover have "feedHost ''http://x.evil.example/'' = ''x.evil.example''" by code_simp
  moreover have "toLower (trimSpace '' Evil.example '') = ''evil.example''" by code_simp
  ultimately show ?thesis by simp
qed

end
