(* ===== verification/Maintenance.thy ===== *)
theory Maintenance
  imports ScanRecord Storage Sessions
begin

text \<open>
  The daily maintenance of \<^verbatim>\<open>app/main.go\<close> (\<^verbatim>\<open>runDailyMaintenance\<close>): retention of stored messages, sweeps of the caches, backups and their rotation, and
  the removal of orphaned files; the time of the next run and the gauges. A day has 24 hours: \<^verbatim>\<open>AddDate\<close> across a change to summer time is not modelled.
\<close>

section \<open>State and environment\<close>

record maint =
  mt_db :: db
  mt_files :: files
  mt_ipCache :: "(string \<times> go_time) list"    \<comment> \<open>key and \<^verbatim>\<open>fetched_at\<close>\<close>
  mt_nrdCache :: "(string \<times> go_time) list"   \<comment> \<open>key and \<^verbatim>\<open>expires_at\<close>\<close>
  mt_vtCache :: "(string \<times> go_time) list"    \<comment> \<open>key and \<^verbatim>\<open>fetched_at\<close>\<close>
  mt_backups :: "string list"                \<comment> \<open>base names in the data directory\<close>
  mt_writes :: nat

record maint_config =
  mc_DataDir :: string
  mc_EMLCleanRetain :: bool
  mc_RetentionDays :: int
  mc_EMLQuarantineRetentionDays :: int

text \<open>
  \<open>me_reads n\<close> tells whether the n-th query succeeds (its error is not looked at by the code), \<open>me_parse\<close> is \<^verbatim>\<open>time.Parse\<close> with the layout
  \<^verbatim>\<open>2006-01-02\<close>, \<open>me_today\<close> the date of the day in that layout.
\<close>

record maint_env =
  me_now :: go_time
  me_today :: string
  me_faults :: faults
  me_reads :: "nat \<Rightarrow> bool"
  me_fs :: fs_faults
  me_parse :: "string \<Rightarrow> go_time option"
  me_vacuum :: bool
  me_backupStuck :: "string \<Rightarrow> bool"

definition days :: "int \<Rightarrow> duration" where
  "days n = n * hours 24"

section \<open>The steps\<close>

definition quarantinedPaths :: "db \<Rightarrow> string list" where
  "quarantinedPaths d = map EMLPath (filter (\<lambda>s. Status s = StatusQuarantined \<and> EMLPath s \<noteq> []) (scans d))"

definition purgeClean :: "maint_env \<Rightarrow> maint_config \<Rightarrow> maint \<Rightarrow> maint" where
  "purgeClean E c s =
     (if mc_EMLCleanRetain c \<and> mc_RetentionDays c > 0
      then s\<lparr>mt_files := snd (PurgeOlderThan (me_fs E) (mc_DataDir c) (me_now E) (days (mc_RetentionDays c))
              (if me_reads E 0 then quarantinedPaths (mt_db s) else []) (mt_files s))\<rparr>
      else s)"

definition oldQuarantined :: "go_time \<Rightarrow> Scan \<Rightarrow> bool" where
  "oldQuarantined cutoff s \<longleftrightarrow> Status s = StatusQuarantined \<and> CreatedAt s < cutoff \<and> EMLPath s \<noteq> []"

definition clearPath :: "maint_env \<Rightarrow> nat \<Rightarrow> maint \<Rightarrow> maint" where
  "clearPath E i s =
     s\<lparr>mt_db := fst (dbWrite (me_faults E) (mt_writes s)
          (\<lambda>d. Inr (d\<lparr>scans := map (onRow i (\<lambda>r. r\<lparr>EMLPath := []\<rparr>)) (scans d)\<rparr>, ())) (mt_db s)), mt_writes := Suc (mt_writes s)\<rparr>"

definition expireScan :: "maint_env \<Rightarrow> maint_config \<Rightarrow> Scan \<Rightarrow> maint \<Rightarrow> maint" where
  "expireScan E c r s =
     (case store_Delete (me_fs E) (mc_DataDir c) (EMLPath r) (mt_files s) of
        (Inl _, fs) \<Rightarrow> s\<lparr>mt_files := fs\<rparr>
      | (Inr _, fs) \<Rightarrow> clearPath E (ID r) (s\<lparr>mt_files := fs\<rparr>))"

definition purgeQuarantined :: "maint_env \<Rightarrow> maint_config \<Rightarrow> maint \<Rightarrow> maint" where
  "purgeQuarantined E c s =
     (if mc_EMLQuarantineRetentionDays c > 0
      then fold (expireScan E c)
             (if me_reads E 1 then filter (oldQuarantined (me_now E - days (mc_EMLQuarantineRetentionDays c))) (scans (mt_db s)) else []) s
      else s)"

text \<open>One transaction on a cache table.\<close>

definition sweepTable :: "maint_env \<Rightarrow> nat \<Rightarrow> go_time \<Rightarrow> (string \<times> go_time) list \<Rightarrow> (string \<times> go_time) list" where
  "sweepTable E n cutoff rows = (case me_faults E n of Some _ \<Rightarrow> rows | None \<Rightarrow> filter (\<lambda>r. \<not> snd r < cutoff) rows)"

definition sweepCaches :: "maint_env \<Rightarrow> maint \<Rightarrow> maint" where
  "sweepCaches E s =
     s\<lparr>mt_ipCache := sweepTable E (mt_writes s) (me_now E - days 7) (mt_ipCache s),
       mt_nrdCache := sweepTable E (mt_writes s + 1) (me_now E) (mt_nrdCache s),
       mt_vtCache := sweepTable E (mt_writes s + 2) (me_now E - days 7) (mt_vtCache s), mt_writes := mt_writes s + 3\<rparr>"

definition backupName :: "string \<Rightarrow> string" where
  "backupName date = ''mailhook-backup-'' @ date @ ''.db''"

definition isBackup :: "string \<Rightarrow> bool" where
  "isBackup f \<longleftrightarrow> hasPrefix f ''mailhook-backup-'' \<and> hasSuffix f ''.db'' \<and> length ''mailhook-backup-'' + length ''.db'' \<le> length f"

definition backupDate :: "string \<Rightarrow> string" where
  "backupDate f = trimPrefix (trimSuffix f ''.db'') ''mailhook-backup-''"

definition expiredBackup :: "maint_env \<Rightarrow> string \<Rightarrow> bool" where
  "expiredBackup E f \<longleftrightarrow> isBackup f \<and> \<not> me_backupStuck E f
     \<and> (case me_parse E (backupDate f) of None \<Rightarrow> False | Some t \<Rightarrow> t < me_now E - days 7)"

text \<open>\<^verbatim>\<open>VACUUM INTO\<close> fails when the file exists.\<close>

definition backup :: "maint_env \<Rightarrow> maint \<Rightarrow> maint" where
  "backup E s =
     (let f = backupName (me_today E);
          bs = (if me_vacuum E \<and> f \<notin> set (mt_backups s) then mt_backups s @ [f] else mt_backups s)
      in s\<lparr>mt_backups := filter (\<lambda>f. \<not> expiredBackup E f) bs\<rparr>)"

definition reconcile :: "maint_env \<Rightarrow> maint_config \<Rightarrow> maint \<Rightarrow> maint" where
  "reconcile E c s =
     s\<lparr>mt_files := snd (ReconcileOrphans (me_fs E) (mc_DataDir c) (me_now E)
          (if me_reads E 2 then map EMLPath (filter (\<lambda>r. EMLPath r \<noteq> []) (scans (mt_db s))) else []) (mt_files s))\<rparr>"

definition runDailyMaintenance :: "maint_env \<Rightarrow> maint_config \<Rightarrow> maint \<Rightarrow> maint" where
  "runDailyMaintenance E c s = reconcile E c (backup E (sweepCaches E (purgeQuarantined E c (purgeClean E c s))))"

section \<open>The next run and the gauges\<close>

text \<open>Times are local; a day starts at the multiples of 24 hours.\<close>

definition durationUntilHour :: "go_time \<Rightarrow> int \<Rightarrow> duration" where
  "durationUntilHour now h =
     (let next = now - now mod hours 24 + hours h; next' = (if \<not> next > now then next + hours 24 else next) in next' - now)"

record gauges =
  ga_EMLStoreSizeBytes :: nat
  ga_DBSizeBytes :: nat
  ga_QuarantineQueueTotal :: nat
  ga_YARARulesTotal :: nat
  ga_FeedEntriesTotal :: "string \<rightharpoonup> nat"

definition updateMetricGauges ::
  "fs_faults \<Rightarrow> string \<Rightarrow> files \<Rightarrow> nat option \<Rightarrow> db \<Rightarrow> nat \<Rightarrow> (string \<times> nat) list \<Rightarrow> nat \<Rightarrow> gauges \<Rightarrow> gauges" where
  "updateMetricGauges ff dir fs dbSize d rules counts mbCount g =
     g\<lparr>ga_EMLStoreSizeBytes := DirSize ff dir fs,
       ga_DBSizeBytes := (case dbSize of Some n \<Rightarrow> n | None \<Rightarrow> ga_DBSizeBytes g),
       ga_QuarantineQueueTotal := length (filter (\<lambda>s. Status s = StatusQuarantined) (scans d)),
       ga_YARARulesTotal := rules,
       ga_FeedEntriesTotal := (ga_FeedEntriesTotal g ++ map_of counts)(''malwarebazaar'' \<mapsto> mbCount)\<rparr>"

section \<open>The database\<close>

text \<open>A row of which at most the path has been blanked.\<close>

definition pathBlanked :: "Scan \<Rightarrow> Scan \<Rightarrow> bool" where
  "pathBlanked r r' \<longleftrightarrow> r' = r \<or> r' = r\<lparr>EMLPath := []\<rparr>"

lemma clearPath_files [simp]: "mt_files (clearPath E i s) = mt_files s"
  by (simp add: clearPath_def)

lemma clearPath_rows: "scans (mt_db (clearPath E i s)) = scans (mt_db s) \<or> scans (mt_db (clearPath E i s)) = map (onRow i (\<lambda>r. r\<lparr>EMLPath := []\<rparr>)) (scans (mt_db s))"
  by (simp add: clearPath_def dbWrite_def split: option.split)

lemma expireScan_files: "mt_files (expireScan E c r s) = snd (store_Delete (me_fs E) (mc_DataDir c) (EMLPath r) (mt_files s))"
  by (simp add: expireScan_def split: prod.split sum.split)

lemma expireScan_rows:
  "scans (mt_db (expireScan E c r s)) = scans (mt_db s) \<or> scans (mt_db (expireScan E c r s)) = map (onRow (ID r) (\<lambda>r. r\<lparr>EMLPath := []\<rparr>)) (scans (mt_db s))"
proof -
  obtain res fs where d: "store_Delete (me_fs E) (mc_DataDir c) (EMLPath r) (mt_files s) = (res, fs)" by fastforce
  show ?thesis using d clearPath_rows [of E "ID r" "s\<lparr>mt_files := fs\<rparr>"] by (cases res) (simp_all add: expireScan_def)
qed

lemma store_Delete_keeps: "e \<in> set fs \<Longrightarrow> safeAbs dir rel \<noteq> Inr (fst e) \<Longrightarrow> e \<in> set (snd (store_Delete ff dir rel fs))"
  by (auto simp: store_Delete_def fsRemove_def split: sum.split)

lemma store_Delete_subset: "set (snd (store_Delete ff dir rel fs)) \<subseteq> set fs"
  by (auto simp: store_Delete_def fsRemove_def split: sum.split)

lemma expire_keeps:
  assumes "e \<in> set (mt_files s)" and "r \<in> set (scans (mt_db s))" and "\<And>q. q \<in> set qs \<Longrightarrow> safeAbs (mc_DataDir c) (EMLPath q) \<noteq> Inr (fst e) \<and> ID q \<noteq> ID r"
  shows "e \<in> set (mt_files (fold (expireScan E c) qs s)) \<and> r \<in> set (scans (mt_db (fold (expireScan E c) qs s)))"
  using assms
proof (induction qs arbitrary: s)
  case (Cons q qs)
  have "e \<in> set (mt_files (expireScan E c q s))" using Cons.prems store_Delete_keeps by (simp add: expireScan_files)
  moreover have "r \<in> set (scans (mt_db (expireScan E c q s)))"
    using expireScan_rows [of E c q s] Cons.prems(2,3) by (force simp: onRow_def)
  ultimately show ?case using Cons by simp
qed simp

text \<open>
  C28. Maintenance does not destroy evidence: while the reads of the database succeed, the stored message of a quarantined row that has not reached its own retention
  survives the run, whatever the retention of clean mail, whichever deletions and writes fail, and its row still points to it, provided no other row names the same file.
\<close>

theorem maintenance_keeps_evidence:
  assumes "dbOK (mt_db s)" and "me_reads E = (\<lambda>_. True)"
    and "e \<in> set (mt_files s)" and "r \<in> set (scans (mt_db s))" and "relOf (mc_DataDir c) (fst e) = EMLPath r" and "EMLPath r \<noteq> []"
    and "Status r = StatusQuarantined" and "CreatedAt r \<ge> me_now E - days (mc_EMLQuarantineRetentionDays c)"
    and "\<forall>q \<in> set (scans (mt_db s)). q \<noteq> r \<longrightarrow> safeAbs (mc_DataDir c) (EMLPath q) \<noteq> Inr (fst e)"
  shows "e \<in> set (mt_files (runDailyMaintenance E c s)) \<and> r \<in> set (scans (mt_db (runDailyMaintenance E c s)))"
proof -
  let ?s1 = "purgeClean E c s" and ?cut = "me_now E - days (mc_EMLQuarantineRetentionDays c)"
  have db1: "mt_db ?s1 = mt_db s" by (simp add: purgeClean_def)
  have "EMLPath r \<in> set (quarantinedPaths (mt_db s))" using assms by (auto simp: quarantinedPaths_def)
  then have f1: "e \<in> set (mt_files ?s1)"
    using assms by (auto simp: purgeClean_def PurgeOlderThan_def purgeable_def Let_def)
  define s2 where "s2 = purgeQuarantined E c ?s1"
  have "safeAbs (mc_DataDir c) (EMLPath q) \<noteq> Inr (fst e) \<and> ID q \<noteq> ID r" if "q \<in> set (filter (oldQuarantined ?cut) (scans (mt_db s)))" for q
  proof -
    have q: "q \<in> set (scans (mt_db s))" "q \<noteq> r" using that assms(8) by (auto simp: oldQuarantined_def)
    then have "ID q \<noteq> ID r" using assms(1,4) by (auto simp: dbOK_def distinct_map dest: inj_onD)
    then show ?thesis using q assms(9) by blast
  qed
  then have keep: "e \<in> set (mt_files s2) \<and> r \<in> set (scans (mt_db s2))"
    using expire_keeps [of e ?s1 r "filter (oldQuarantined ?cut) (scans (mt_db s))" c E] f1 assms(2,4) db1
    by (simp add: s2_def purgeQuarantined_def)
  let ?s3 = "backup E (sweepCaches E s2)"
  have s3: "mt_files ?s3 = mt_files s2" "mt_db ?s3 = mt_db s2" by (simp_all add: backup_def sweepCaches_def Let_def)
  have "EMLPath r \<in> set (map EMLPath (filter (\<lambda>r. EMLPath r \<noteq> []) (scans (mt_db s2))))" using keep assms(6) by auto
  then have "e \<in> set (mt_files (reconcile E c ?s3))"
    using keep assms(2,5) s3 by (auto simp: reconcile_def ReconcileOrphans_def orphaned_def Let_def)
  then show ?thesis using keep s3 by (simp add: runDailyMaintenance_def reconcile_def s2_def)
qed

text \<open>
  A failed read empties the store: the code does not look at the error of the query for the known paths, and an empty answer makes every message file an orphan. Then every
  message file older than an hour that can be removed is gone, whatever the rows say.
\<close>

theorem maintenance_read_error_wipes_store:
  assumes "\<not> me_reads E 2" and "e \<in> set (mt_files s)" and "underEmls (mc_DataDir c) (fst e)" and "hasSuffix (fst e) ''.eml''"
    and "me_now E - f_mtime (snd e) \<ge> hours 1" and "\<not> infoFails (me_fs E) (fst e)" and "\<not> removeFails (me_fs E) (fst e)"
  shows "e \<notin> set (mt_files (runDailyMaintenance E c s))"
  using assms by (auto simp: runDailyMaintenance_def reconcile_def ReconcileOrphans_def orphaned_def Let_def hours_def)

section \<open>Retention is enforced\<close>

lemma purgeClean_subset: "set (mt_files (purgeClean E c s)) \<subseteq> set (mt_files s)"
  by (auto simp: purgeClean_def PurgeOlderThan_def Let_def)

lemma expire_subset: "set (mt_files (fold (expireScan E c) qs s)) \<subseteq> set (mt_files s)"
proof (induction qs arbitrary: s)
  case (Cons q qs)
  then show ?case using store_Delete_subset expireScan_files by (metis (no_types, opaque_lifting) fold_simps(2) subset_trans)
qed simp

lemma expire_removes:
  assumes "q \<in> set qs" and "safeAbs (mc_DataDir c) (EMLPath q) = Inr p" and "\<not> removeFails (me_fs E) p"
  shows "p \<notin> fst ` set (mt_files (fold (expireScan E c) qs s))"
  using assms(1)
proof (induction qs arbitrary: s)
  case (Cons x qs)
  show ?case
  proof (cases "x = q")
    case True
    have "p \<notin> fst ` set (mt_files (expireScan E c q s))"
      using assms(2,3) by (auto simp: expireScan_files store_Delete_def fsRemove_def map_of_eq_None_iff)
    then show ?thesis using expire_subset [of E c qs "expireScan E c q s"] True by auto
  qed (use Cons in auto)
qed simp

text \<open>
  Old quarantined mail is really deleted: when the query for it succeeds and the file can be removed, no file is left at the path of a quarantined row that is
  past its retention.
\<close>

theorem quarantine_retention_enforced:
  assumes "me_reads E 1" and "mc_EMLQuarantineRetentionDays c > 0" and "r \<in> set (scans (mt_db s))"
    and "oldQuarantined (me_now E - days (mc_EMLQuarantineRetentionDays c)) r"
    and "safeAbs (mc_DataDir c) (EMLPath r) = Inr p" and "\<not> removeFails (me_fs E) p"
  shows "p \<notin> fst ` set (mt_files (runDailyMaintenance E c s))"
proof -
  let ?s = "purgeClean E c s"
  have "mt_db ?s = mt_db s" by (simp add: purgeClean_def)
  then have "p \<notin> fst ` set (mt_files (purgeQuarantined E c ?s))"
    using expire_removes [OF _ assms(5,6), of "filter (oldQuarantined (me_now E - days (mc_EMLQuarantineRetentionDays c))) (scans (mt_db s))" ?s]
      assms(1-4) by (simp add: purgeQuarantined_def)
  moreover have "set (mt_files (runDailyMaintenance E c s)) \<subseteq> set (mt_files (purgeQuarantined E c ?s))"
    by (auto simp: runDailyMaintenance_def reconcile_def ReconcileOrphans_def backup_def sweepCaches_def Let_def)
  ultimately show ?thesis by blast
qed

section \<open>The tables\<close>

lemma expire_db:
  assumes "dbOK (mt_db s)"
  shows "dbOK (mt_db (fold (expireScan E c) qs s)) \<and> list_all2 pathBlanked (scans (mt_db s)) (scans (mt_db (fold (expireScan E c) qs s)))
    \<and> audit (mt_db (fold (expireScan E c) qs s)) = audit (mt_db s)"
  using assms
proof (induction qs arbitrary: s)
  case Nil
  then show ?case by (simp add: list_all2_same pathBlanked_def)
next
  case (Cons q qs)
  let ?b = "onRow (ID q) (\<lambda>r. r\<lparr>EMLPath := []\<rparr>)" and ?s = "expireScan E c q s"
  have au: "audit (mt_db ?s) = audit (mt_db s)" "nextID (mt_db ?s) = nextID (mt_db s)"
    by (simp_all add: expireScan_def clearPath_def dbWrite_def split: prod.split sum.split option.split)
  have keys: "map ID (map ?b xs) = map ID xs" "map uidKey (map ?b xs) = map uidKey xs" for xs
    by (auto simp: onRow_def uidKey_def)
  have "scans (mt_db ?s) = scans (mt_db s) \<or> scans (mt_db ?s) = map ?b (scans (mt_db s))" by (rule expireScan_rows)
  then have "dbOK (mt_db ?s) \<and> list_all2 pathBlanked (scans (mt_db s)) (scans (mt_db ?s))"
  proof
    assume eq: "scans (mt_db ?s) = map ?b (scans (mt_db s))"
    have "dbOK (mt_db ?s)"
      using Cons.prems keys [of "scans (mt_db s)"] au unfolding dbOK_def eq by (auto simp: onRow_def simp del: map_map)
    then show ?thesis by (auto simp: eq list_all2_conv_all_nth pathBlanked_def onRow_def)
  qed (use Cons.prems au in \<open>simp add: dbOK_def list_all2_same pathBlanked_def\<close>)
  then have ok: "dbOK (mt_db ?s)" and step: "list_all2 pathBlanked (scans (mt_db s)) (scans (mt_db ?s))" by blast+
  have trans: "pathBlanked a b \<Longrightarrow> pathBlanked b d \<Longrightarrow> pathBlanked a d" for a b d by (auto simp: pathBlanked_def)
  show ?case using Cons.IH [OF ok] list_all2_trans [OF trans step] au by auto
qed

text \<open>
  Maintenance keeps the tables: whatever fails, the primary keys and the unique index hold, the audit log is untouched, and a row differs at most in a blanked path.
\<close>

theorem maintenance_keeps_rows:
  assumes "dbOK (mt_db s)"
  shows "dbOK (mt_db (runDailyMaintenance E c s)) \<and> list_all2 pathBlanked (scans (mt_db s)) (scans (mt_db (runDailyMaintenance E c s)))
    \<and> audit (mt_db (runDailyMaintenance E c s)) = audit (mt_db s)"
proof -
  have p: "mt_db (purgeClean E c s) = mt_db s" by (simp add: purgeClean_def)
  have "mt_db (runDailyMaintenance E c s) = mt_db (purgeQuarantined E c (purgeClean E c s))"
    by (simp add: runDailyMaintenance_def reconcile_def backup_def sweepCaches_def Let_def)
  moreover have "list_all2 pathBlanked xs xs" for xs by (simp add: list_all2_same pathBlanked_def)
  ultimately show ?thesis using expire_db [of "purgeClean E c s"] assms p by (simp add: purgeQuarantined_def)
qed

section \<open>Backups and timing\<close>

text \<open>The backup of the day is never rotated away, and only files with the name and date of a backup older than seven days are removed.\<close>

lemma backup_rotation:
  assumes "me_parse E (backupDate (backupName (me_today E))) = Some t" and "t \<ge> me_now E - days 7" and "me_vacuum E"
  shows "backupName (me_today E) \<in> set (mt_backups (backup E s))"
    and "f \<in> set (mt_backups s) \<Longrightarrow> f \<notin> set (mt_backups (backup E s)) \<Longrightarrow> isBackup f \<and> (\<exists>t. me_parse E (backupDate f) = Some t \<and> t < me_now E - days 7)"
  using assms by (auto simp: backup_def expiredBackup_def Let_def split: option.splits if_splits)

lemma durationUntilHour_bounds:
  assumes "0 \<le> h" and "h < 24"
  shows "0 < durationUntilHour now h" "durationUntilHour now h \<le> hours 24" "(now + durationUntilHour now h) mod hours 24 = hours h"
proof -
  have m: "0 \<le> now mod hours 24" "now mod hours 24 < hours 24" by (simp_all add: hours_def)
  have h: "0 \<le> hours h" "hours h < hours 24" using assms by (simp_all add: hours_def)
  define r d H where "r = now mod hours 24" and "d = hours 24" and "H = hours h"
  have "durationUntilHour now h = (if H - r > 0 then H - r else H - r + d)" by (simp add: durationUntilHour_def Let_def r_def d_def H_def)
  moreover have "0 \<le> r" "r < d" "0 \<le> H" "H < d" using m h by (simp_all add: r_def d_def H_def)
  ultimately show "0 < durationUntilHour now h" "durationUntilHour now h \<le> hours 24" by (auto simp: d_def)
  have "now + durationUntilHour now h = (now div hours 24) * hours 24 + hours h + (if \<not> now - now mod hours 24 + hours h > now then hours 24 else 0)"
    using minus_mod_eq_div_mult [of now "hours 24"] by (simp add: durationUntilHour_def Let_def)
  then show "(now + durationUntilHour now h) mod hours 24 = hours h" using h by (auto simp: mod_pos_pos_trivial)
qed

section \<open>Witnesses\<close>

definition quietFS :: fs_faults where
  "quietFS = \<lparr>writeFails = (\<lambda>_. False), removeFails = (\<lambda>_. False), infoFails = (\<lambda>_. False)\<rparr>"

definition demoMaintEnv :: "(nat \<Rightarrow> bool) \<Rightarrow> maint_env" where
  "demoMaintEnv reads = \<lparr>me_now = days 100, me_today = ''2026-01-02'', me_faults = (\<lambda>_. None), me_reads = reads, me_fs = quietFS,
     me_parse = (\<lambda>_. None), me_vacuum = True, me_backupStuck = (\<lambda>_. False)\<rparr>"

definition demoMaintCfg :: maint_config where
  "demoMaintCfg = \<lparr>mc_DataDir = ''/data'', mc_EMLCleanRetain = True, mc_RetentionDays = 30, mc_EMLQuarantineRetentionDays = 90\<rparr>"

definition heldScan :: "int \<Rightarrow> Scan" where
  "heldScan day = zeroScan\<lparr>ID := 1, Status := StatusQuarantined, CreatedAt := days day, EMLPath := ''emls/a.eml''\<rparr>"

definition heldFile :: "string \<times> emlfile" where
  "heldFile = (''/data/emls/a.eml'', \<lparr>f_data = ''raw'', f_mtime = days 20\<rparr>)"

definition demoMaint :: "int \<Rightarrow> maint" where
  "demoMaint day = \<lparr>mt_db = emptyDB\<lparr>scans := [heldScan day], nextID := 2\<rparr>, mt_files = [heldFile], mt_ipCache = [], mt_nrdCache = [],
     mt_vtCache = [], mt_backups = [], mt_writes = 0\<rparr>"

lemmas demo_maint_defs = demoMaintEnv_def demoMaintCfg_def heldScan_def heldFile_def demoMaint_def quietFS_def days_def hours_def

lemma demoMaint_OK: "dbOK (mt_db (demoMaint day))"
  by (simp add: demo_maint_defs dbOK_def)

lemma demoMaint_path: "safeAbs ''/data'' ''emls/a.eml'' = Inr ''/data/emls/a.eml''"
  by (simp add: safeAbs_def Join_def Clean_def comps_def)

lemma maintenance_keeps_evidence_witness:
  "heldFile \<in> set (mt_files (runDailyMaintenance (demoMaintEnv (\<lambda>_. True)) demoMaintCfg (demoMaint 20)))"
proof -
  have "relOf ''/data'' ''/data/emls/a.eml'' = ''emls/a.eml''" by (simp add: relOf_def Clean_def comps_def)
  then show ?thesis
    using maintenance_keeps_evidence [OF demoMaint_OK, of "demoMaintEnv (\<lambda>_. True)" heldFile 20 "heldScan 20" demoMaintCfg]
    by (simp add: demo_maint_defs)
qed

lemma maintenance_read_error_wipes_store_witness:
  "heldFile \<notin> set (mt_files (runDailyMaintenance (demoMaintEnv (\<lambda>n. n \<noteq> 2)) demoMaintCfg (demoMaint 20)))"
proof -
  have "underEmls ''/data'' ''/data/emls/a.eml''" by (simp add: underEmls_def Join_def Clean_def comps_def)
  then show ?thesis
    using maintenance_read_error_wipes_store [of "demoMaintEnv (\<lambda>n. n \<noteq> 2)" heldFile "demoMaint 20" demoMaintCfg]
    by (simp add: demo_maint_defs hasSuffix_def)
qed

lemma quarantine_retention_enforced_witness:
  "''/data/emls/a.eml'' \<notin> fst ` set (mt_files (runDailyMaintenance (demoMaintEnv (\<lambda>_. True)) demoMaintCfg (demoMaint 5)))"
  using quarantine_retention_enforced [of "demoMaintEnv (\<lambda>_. True)" demoMaintCfg "heldScan 5" "demoMaint 5" "''/data/emls/a.eml''"] demoMaint_path
  by (simp add: demo_maint_defs oldQuarantined_def)

lemma maintenance_keeps_rows_witness:
  "dbOK (mt_db (runDailyMaintenance (demoMaintEnv (\<lambda>_. True)) demoMaintCfg (demoMaint 5)))"
  using maintenance_keeps_rows [OF demoMaint_OK, of "demoMaintEnv (\<lambda>_. True)" demoMaintCfg 5] by simp

end
