(* ===== verification/Onnx.thy ===== *)
theory Onnx
  imports UrlScanners
begin

text \<open>
  The neural classifier (\<^verbatim>\<open>app/scanners/onnx_ai.go\<close>, and the stub \<^verbatim>\<open>onnx_stub.go\<close> of builds without it): loading of the models, the list of popular domains that are
  passed over, the encodings of texts and domains as tensors, the probabilities and the verdict. The two sessions of the ONNX runtime and the tokeniser
  are arguments, as is \<^verbatim>\<open>math.Exp\<close>; single-precision numbers are exact rationals.
\<close>

section \<open>Host names\<close>

definition hostPart :: "string \<Rightarrow> string" where
  "hostPart rest =
     (let host = (case indexByte rest CHR ''/'' of Some slash \<Rightarrow> take slash rest | None \<Rightarrow> rest)
      in case lastIndexByte host CHR '':'' of Some colon \<Rightarrow> take colon host | None \<Rightarrow> host)"

definition extractDomain :: "string \<Rightarrow> string" where
  "extractDomain rawURL = (case strIndex rawURL ''://'' of None \<Rightarrow> rawURL | Some idx \<Rightarrow> toLower (hostPart (drop (idx + 3) rawURL)))"

fun extractDomainsFrom :: "string list \<Rightarrow> string list \<Rightarrow> string list" where
  "extractDomainsFrom seen [] = []"
| "extractDomainsFrom seen (u # us) =
     (case strIndex u ''://'' of
        None \<Rightarrow> extractDomainsFrom seen us
      | Some idx \<Rightarrow>
          (let host = toLower (hostPart (drop (idx + 3) u))
           in if host = [] \<or> host \<in> set seen then extractDomainsFrom seen us else host # extractDomainsFrom (host # seen) us))"

definition extractDomains :: "string list \<Rightarrow> string list" where
  "extractDomains urls = extractDomainsFrom [] urls"

section \<open>The list of popular domains\<close>

definition parseTranco :: "string \<Rightarrow> string set" where
  "parseTranco data = set (filter (\<lambda>d. d \<noteq> []) (map (\<lambda>line. toLower (trimSpace line)) (splitOn CHR 0x0A data)))"

function greylistLoop :: "string set \<Rightarrow> string \<Rightarrow> bool" where
  "greylistLoop tranco d =
     (if d \<in> tranco then True
      else (case indexByte d CHR ''.'' of
              None \<Rightarrow> False
            | Some dot \<Rightarrow> if indexByte (drop (Suc dot) d) CHR ''.'' = None then False else greylistLoop tranco (drop (Suc dot) d)))"
  by pat_completeness auto
termination
  by (relation "measure (\<lambda>(tranco, d). length d)") (auto dest: indexByte_Some)

declare greylistLoop.simps [simp del]

definition isTrancoGreylisted :: "string set \<Rightarrow> string \<Rightarrow> bool" where
  "isTrancoGreylisted tranco domain = greylistLoop tranco (toLower domain)"

section \<open>Tensors and probabilities\<close>

definition bertMaxTokens :: nat where "bertMaxTokens = 512"
definition dgaMaxDomainLen :: nat where "dgaMaxDomainLen = 75"

definition padOrTruncateInt :: "int list \<Rightarrow> nat \<Rightarrow> int list" where
  "padOrTruncateInt s n = take n s @ replicate (n - length s) 0"

definition charIndex :: "char \<Rightarrow> int" where
  "charIndex c =
     (let n = (of_char c :: int)
      in if 97 \<le> n \<and> n \<le> 122 then n - 97 + 1
         else if 48 \<le> n \<and> n \<le> 57 then n - 48 + 27
         else if c = CHR ''-'' then 37 else if c = CHR ''.'' then 38 else if c = CHR ''_'' then 39 else 0)"

definition encodeDomainChars :: "string \<Rightarrow> nat \<Rightarrow> int list" where
  "encodeDomainChars domain maxLen = padOrTruncateInt (map charIndex (toLower domain)) maxLen"

type_synonym float32 = rat

definition softmax2 :: "(float32 \<Rightarrow> float32) \<Rightarrow> float32 \<Rightarrow> float32 \<Rightarrow> float32" where
  "softmax2 ex l0 l1 = ex l1 / (ex l0 + ex l1)"

definition softmaxPhish :: "(float32 \<Rightarrow> float32) \<Rightarrow> float32 list \<Rightarrow> nat set \<Rightarrow> float32" where
  "softmaxPhish ex logits phish =
     (let maxL = foldl (\<lambda>m l. if l > m then l else m) (hd logits) logits;
          es = map (\<lambda>l. ex (l - maxL)) logits;
          total_e = sum_list es;
          ph = sum_list (map (\<lambda>(i, e). if i \<in> phish then e else 0) (enumerate 0 es))
      in if total_e = 0 then 0 else ph / total_e)"

section \<open>The scanner\<close>

record onnx =
  ox_bert :: "(int list \<Rightarrow> int list \<Rightarrow> float32 list result) option"      \<comment> \<open>\<^verbatim>\<open>bertSession\<close>\<close>
  ox_tokenizer :: "(string \<Rightarrow> (int list \<times> int list) result) option"
  ox_bertThreshold :: float32
  ox_dga :: "(int list \<Rightarrow> float32 list result) option"
  ox_dgaThreshold :: float32
  ox_tranco :: "string set"
  ox_enabled :: bool

definition runBERT :: "(float32 \<Rightarrow> float32) \<Rightarrow> (string \<Rightarrow> (int list \<times> int list) result) \<Rightarrow> (int list \<Rightarrow> int list \<Rightarrow> float32 list result)
    \<Rightarrow> string \<Rightarrow> float32 result" where
  "runBERT ex tk session text =
     (case tk (take 4000 text) of
        Inl e \<Rightarrow> Inl (''tokenize: '' @ e)
      | Inr (ids, attention) \<Rightarrow>
          (case session (padOrTruncateInt ids bertMaxTokens) (padOrTruncateInt attention bertMaxTokens) of
             Inl e \<Rightarrow> Inl e
           | Inr logits \<Rightarrow>
               if length logits < 2 then Inl (''unexpected bert output shape: '' @ natStr (length logits))
               else if length logits = 2 then Inr (softmax2 ex (logits ! 0) (logits ! 1))
               else Inr (softmaxPhish ex logits {1, 3})))"

definition runDGA :: "(float32 \<Rightarrow> float32) \<Rightarrow> (int list \<Rightarrow> float32 list result) \<Rightarrow> string \<Rightarrow> float32 result" where
  "runDGA ex session domain =
     (case session (encodeDomainChars domain dgaMaxDomainLen) of
        Inl e \<Rightarrow> Inl e
      | Inr logits \<Rightarrow>
          if length logits < 2 then Inl (''unexpected dga output shape: '' @ natStr (length logits))
          else Inr (softmax2 ex (logits ! 0) (logits ! 1)))"

definition fmtF3 :: "rat \<Rightarrow> string" where
  "fmtF3 x =
     (let r = nat (roundHalfEven (\<bar>x\<bar> * 1000))
      in (if x < 0 then ''-'' else []) @ natStr (r div 1000) @ ''.''
         @ [digitChar (r div 100 mod 10), digitChar (r div 10 mod 10), digitChar (r mod 10)])"

text \<open>The loop that keeps the highest score and its description; items on the list and failed inferences are passed over.\<close>

fun bestScore :: "('a \<Rightarrow> bool) \<Rightarrow> ('a \<Rightarrow> float32 result) \<Rightarrow> (float32 \<Rightarrow> 'a \<Rightarrow> string) \<Rightarrow> 'a list \<Rightarrow> float32 \<times> string \<Rightarrow> float32 \<times> string" where
  "bestScore skip run detail [] acc = acc"
| "bestScore skip run detail (x # xs) acc =
     (if skip x then bestScore skip run detail xs acc
      else (case run x of
              Inl _ \<Rightarrow> bestScore skip run detail xs acc
            | Inr score \<Rightarrow> bestScore skip run detail xs (if score > fst acc then (score, detail score x) else acc)))"

definition bertPass :: "(float32 \<Rightarrow> float32) \<Rightarrow> onnx \<Rightarrow> Email \<Rightarrow> float32 \<times> string" where
  "bertPass ex ox email =
     (case (ox_bert ox, ox_tokenizer ox) of
        (Some session, Some tk) \<Rightarrow>
          bestScore (\<lambda>u. isTrancoGreylisted (ox_tranco ox) (extractDomain u)) (runBERT ex tk session)
            (\<lambda>score u. ''bert_phish='' @ fmtF3 score @ '' url='' @ u) (em_URLs email) (0, [])
      | _ \<Rightarrow> (0, []))"

definition dgaPass :: "(float32 \<Rightarrow> float32) \<Rightarrow> onnx \<Rightarrow> Email \<Rightarrow> float32 \<times> string" where
  "dgaPass ex ox email =
     (case ox_dga ox of
        Some session \<Rightarrow>
          bestScore (isTrancoGreylisted (ox_tranco ox)) (runDGA ex session)
            (\<lambda>score d. ''dga_score='' @ fmtF3 score @ '' domain='' @ d) (extractDomains (em_URLs email)) (0, [])
      | None \<Rightarrow> (0, []))"

definition ONNX_Scan :: "(float32 \<Rightarrow> float32) \<Rightarrow> onnx \<Rightarrow> Email \<Rightarrow> ScanResult" where
  "ONNX_Scan ex ox email =
     (let bertOK = (ox_bert ox \<noteq> None \<and> ox_tokenizer ox \<noteq> None); dgaOK = (ox_dga ox \<noteq> None) in
      if \<not> ox_enabled ox then result ''onnx'' ''skip'' ''disabled'' None
      else if \<not> bertOK \<and> \<not> dgaOK then result ''onnx'' ''skip'' ''no models loaded'' None
      else (let (bertScore, bertDetail) = bertPass ex ox email; (dgaScore, dgaDetail) = dgaPass ex ox email in
            if bertScore > ox_bertThreshold ox
            then (result ''onnx'' ''malicious'' (''DistilBERT phishing URL: '' @ bertDetail) None)\<lparr>sr_Score := bertScore\<rparr>
            else if dgaScore > ox_dgaThreshold ox
            then (result ''onnx'' ''suspicious'' (''DGA domain detected: '' @ dgaDetail) None)\<lparr>sr_Score := dgaScore\<rparr>
            else (let parts = filter (\<lambda>p. p \<noteq> []) [bertDetail, dgaDetail];
                      detail = (if parts \<noteq> [] then strJoin parts '' '' else ''clean'')
                  in (result ''onnx'' ''clean'' detail None)\<lparr>sr_Score := (if bertScore > dgaScore then bertScore else dgaScore)\<rparr>)))"

definition ONNX_stub_Scan :: "Email \<Rightarrow> ScanResult" where
  "ONNX_stub_Scan email = result ''onnx'' ''skip'' ''ai build tag not set'' None"

interpretation onnx_ai: scanner "''onnx''" "ONNX_Scan ex ox" for ex ox
  by unfold_locales (simp_all add: ONNX_Scan_def result_def scanVerdicts_def Let_def split: prod.split)

interpretation onnx_none: scanner "''onnx''" ONNX_stub_Scan
  by unfold_locales (simp_all add: ONNX_stub_Scan_def result_def scanVerdicts_def)

section \<open>Loading\<close>

definition defaultBERTThreshold :: float32 where "defaultBERTThreshold = 92 / 100"
definition defaultDGAThreshold :: float32 where "defaultDGAThreshold = 80 / 100"

text \<open>
  What the embedded file system and the disk hold, and what the runtime makes of the bytes: a session or an error. A file that is missing is an error.
\<close>

record model_files =
  mf_embedded :: "string \<Rightarrow> string result"
  mf_disk :: "string \<Rightarrow> string result"

record runtime =
  rt_env :: "unit result"
  rt_bertSession :: "string \<Rightarrow> (int list \<Rightarrow> int list \<Rightarrow> float32 list result) result"
  rt_fromReader :: "string \<Rightarrow> (string \<Rightarrow> (int list \<times> int list) result) result"
  rt_dgaSession :: "string \<Rightarrow> (int list \<Rightarrow> float32 list result) result"

definition initBERT :: "runtime \<Rightarrow> string \<Rightarrow> string \<Rightarrow> onnx \<Rightarrow> onnx result" where
  "initBERT R modelData tokData ox =
     (case rt_bertSession R modelData of
        Inl e \<Rightarrow> Inl (''bert session: '' @ e)
      | Inr session \<Rightarrow>
          (case rt_fromReader R tokData of
             Inl e \<Rightarrow> Inl (''tokenizer: '' @ e)
           | Inr tk \<Rightarrow> Inr (ox\<lparr>ox_bert := Some session, ox_tokenizer := Some tk\<rparr>)))"

definition loadBERT :: "(string \<Rightarrow> string result) \<Rightarrow> runtime \<Rightarrow> string \<Rightarrow> onnx \<Rightarrow> onnx result" where
  "loadBERT readFile R dir ox =
     (case readFile (dir @ ''/model.onnx'') of
        Inl e \<Rightarrow> Inl e
      | Inr modelData \<Rightarrow> (case readFile (dir @ ''/tokenizer.json'') of Inl e \<Rightarrow> Inl e | Inr tokData \<Rightarrow> initBERT R modelData tokData ox))"

definition loadDGA :: "(string \<Rightarrow> string result) \<Rightarrow> runtime \<Rightarrow> string \<Rightarrow> onnx \<Rightarrow> onnx result" where
  "loadDGA readFile R path ox =
     (case readFile path of
        Inl e \<Rightarrow> Inl e
      | Inr data \<Rightarrow> (case rt_dgaSession R data of Inl e \<Rightarrow> Inl (''dga session: '' @ e) | Inr session \<Rightarrow> Inr (ox\<lparr>ox_dga := Some session\<rparr>)))"

definition loadTranco :: "(string \<Rightarrow> string result) \<Rightarrow> string \<Rightarrow> onnx \<Rightarrow> onnx result" where
  "loadTranco readFile path ox = (case readFile path of Inl e \<Rightarrow> Inl e | Inr data \<Rightarrow> Inr (ox\<lparr>ox_tranco := parseTranco data\<rparr>))"

text \<open>Embedded first, then the configured directory, else without.\<close>

definition firstOf :: "(onnx \<Rightarrow> onnx result) \<Rightarrow> bool \<Rightarrow> (onnx \<Rightarrow> onnx result) \<Rightarrow> onnx \<Rightarrow> onnx" where
  "firstOf embedded configured disk ox =
     (case embedded ox of
        Inr ox' \<Rightarrow> ox'
      | Inl _ \<Rightarrow> if configured then (case disk ox of Inr ox' \<Rightarrow> ox' | Inl _ \<Rightarrow> ox) else ox)"

definition NewONNXScanner :: "model_files \<Rightarrow> runtime \<Rightarrow> string \<Rightarrow> float32 \<Rightarrow> float32 \<Rightarrow> onnx result" where
  "NewONNXScanner F R dir bertT dgaT =
     (case rt_env R of
        Inl e \<Rightarrow> Inl (''onnx runtime init: '' @ e)
      | Inr _ \<Rightarrow>
          (let ox0 = \<lparr>ox_bert = None, ox_tokenizer = None, ox_bertThreshold = (if bertT = 0 then defaultBERTThreshold else bertT), ox_dga = None,
                      ox_dgaThreshold = (if dgaT = 0 then defaultDGAThreshold else dgaT), ox_tranco = {}, ox_enabled = True\<rparr>;
               ox1 = firstOf (loadTranco (mf_embedded F) ''models/tranco-top10k.txt'') (dir \<noteq> []) (loadTranco (mf_disk F) (dir @ ''/tranco-top10k.txt'')) ox0;
               ox2 = firstOf (loadBERT (mf_embedded F) R ''models/distilbert-phishing'') (dir \<noteq> []) (loadBERT (mf_disk F) R (dir @ ''/distilbert-phishing'')) ox1
           in Inr (firstOf (loadDGA (mf_embedded F) R ''models/dga-cnn/model.onnx'') (dir \<noteq> []) (loadDGA (mf_disk F) R (dir @ ''/dga-cnn/model.onnx'')) ox2)))"

section \<open>Which domains are passed over\<close>

lemma splitOn_indexByte:
  "indexByte d c = None \<Longrightarrow> splitOn c d = [d]"
  "indexByte d c = Some i \<Longrightarrow> splitOn c d = take i d # splitOn c (drop (Suc i) d)"
proof -
  show "indexByte d c = None \<Longrightarrow> splitOn c d = [d]" by (induction d) auto
  show "indexByte d c = Some i \<Longrightarrow> splitOn c d = take i d # splitOn c (drop (Suc i) d)"
  proof (induction d arbitrary: i)
    case (Cons x d)
    then show ?case by (cases "x = c") auto
  qed simp
qed

definition parentIn :: "string set \<Rightarrow> string \<Rightarrow> bool" where
  "parentIn tranco d \<longleftrightarrow> (\<exists>k. (k = 0 \<or> k + 2 \<le> length (splitOn CHR ''.'' d)) \<and> strJoin (drop k (splitOn CHR ''.'' d)) ''.'' \<in> tranco)"

lemma greylistLoop_iff: "greylistLoop tranco d \<longleftrightarrow> parentIn tranco d"
proof (induction tranco d rule: greylistLoop.induct)
  case (1 tranco d)
  have whole: "strJoin (splitOn CHR ''.'' d) ''.'' = d" by (rule splitOn_join)
  show ?case
  proof (cases "indexByte d CHR ''.''")
    case None
    then show ?thesis using splitOn_indexByte(1) [OF None] by (subst greylistLoop.simps) (auto simp: parentIn_def)
  next
    case (Some dot)
    let ?r = "drop (Suc dot) d"
    have ls: "splitOn CHR ''.'' d = take dot d # splitOn CHR ''.'' ?r" by (rule splitOn_indexByte(2) [OF Some])
    show ?thesis
    proof (cases "indexByte ?r CHR ''.''")
      case None
      have "splitOn CHR ''.'' d = [take dot d, ?r]" using ls splitOn_indexByte(1) [OF None] by simp
      then have "parentIn tranco d \<longleftrightarrow> d \<in> tranco" using whole by (auto simp: parentIn_def)
      then show ?thesis using Some None by (subst greylistLoop.simps) simp
    next
      case (Some dot2)
      have two: "2 \<le> length (splitOn CHR ''.'' ?r)"
        using splitOn_indexByte(2) [OF Some] by (simp add: Suc_le_eq)
      have "parentIn tranco d \<longleftrightarrow> d \<in> tranco \<or> parentIn tranco ?r"
      proof
        assume "parentIn tranco d"
        then obtain k where k: "k = 0 \<or> k + 2 \<le> length (splitOn CHR ''.'' d)" "strJoin (drop k (splitOn CHR ''.'' d)) ''.'' \<in> tranco"
          by (auto simp: parentIn_def)
        show "d \<in> tranco \<or> parentIn tranco ?r"
        proof (cases k)
          case (Suc j)
          then show ?thesis using k ls by (auto simp: parentIn_def intro!: exI [of _ j])
        qed (use k whole in simp)
      next
        assume "d \<in> tranco \<or> parentIn tranco ?r"
        then show "parentIn tranco d"
        proof
          assume "parentIn tranco ?r"
          then obtain k where "k = 0 \<or> k + 2 \<le> length (splitOn CHR ''.'' ?r)" "strJoin (drop k (splitOn CHR ''.'' ?r)) ''.'' \<in> tranco"
            by (auto simp: parentIn_def)
          then show ?thesis unfolding parentIn_def ls using two by (intro exI [of _ "Suc k"]) auto
        qed (use whole in \<open>auto simp: parentIn_def intro!: exI [of _ 0]\<close>)
      qed
      moreover have "greylistLoop tranco d \<longleftrightarrow> d \<in> tranco \<or> greylistLoop tranco ?r"
        using \<open>indexByte d CHR ''.'' = Some dot\<close> Some by (subst greylistLoop.simps) simp
      moreover have "greylistLoop tranco ?r \<longleftrightarrow> parentIn tranco ?r" if "d \<notin> tranco"
        using "1.IH" [OF that \<open>indexByte d CHR ''.'' = Some dot\<close>] Some by simp
      ultimately show ?thesis by blast
    qed
  qed
qed

text \<open>The list covers a domain when the domain itself or a parent with at least two labels is on it.\<close>

lemma isTrancoGreylisted_iff: "isTrancoGreylisted tranco domain \<longleftrightarrow> parentIn tranco (toLower domain)"
  by (simp add: isTrancoGreylisted_def greylistLoop_iff)

section \<open>The verdict\<close>

lemma bestScore_above:
  "fst (bestScore skip run detail xs acc) > t \<longleftrightarrow> fst acc > t \<or> (\<exists>x \<in> set xs. \<not> skip x \<and> (\<exists>s. run x = Inr s \<and> s > t))"
proof (induction xs arbitrary: acc)
  case (Cons x xs)
  show ?case by (cases "run x") (auto simp: Cons.IH)
qed simp

lemma extractDomainsFrom_set:
  "set (extractDomainsFrom seen urls) = {extractDomain u | u. u \<in> set urls \<and> strIndex u ''://'' \<noteq> None} - {[]} - set seen"
proof (induction urls arbitrary: seen)
  case (Cons u us)
  show ?case
  proof (cases "strIndex u ''://''")
    case None
    then show ?thesis using Cons.IH by auto
  next
    case (Some idx)
    have h: "extractDomain u = toLower (hostPart (drop (idx + 3) u))" using Some by (simp add: extractDomain_def)
    have "{extractDomain v | v. v \<in> set (u # us) \<and> strIndex v ''://'' \<noteq> None}
        = insert (extractDomain u) {extractDomain v | v. v \<in> set us \<and> strIndex v ''://'' \<noteq> None}" using Some by auto
    then show ?thesis using Cons.IH unfolding extractDomainsFrom.simps Some option.case Let_def h [symmetric] by auto
  qed
qed simp

text \<open>A link that the classifier judges to be phishing, and a host that it judges to be generated.\<close>

definition phishLink :: "(float32 \<Rightarrow> float32) \<Rightarrow> onnx \<Rightarrow> string \<Rightarrow> bool" where
  "phishLink ex ox u \<longleftrightarrow> \<not> parentIn (ox_tranco ox) (toLower (extractDomain u))
     \<and> (\<exists>session tk s. ox_bert ox = Some session \<and> ox_tokenizer ox = Some tk \<and> runBERT ex tk session u = Inr s \<and> s > ox_bertThreshold ox)"

definition generatedHost :: "(float32 \<Rightarrow> float32) \<Rightarrow> onnx \<Rightarrow> string \<Rightarrow> bool" where
  "generatedHost ex ox u \<longleftrightarrow> strIndex u ''://'' \<noteq> None \<and> extractDomain u \<noteq> [] \<and> \<not> parentIn (ox_tranco ox) (toLower (extractDomain u))
     \<and> (\<exists>session s. ox_dga ox = Some session \<and> runDGA ex session (extractDomain u) = Inr s \<and> s > ox_dgaThreshold ox)"

lemma bertPass_above: "ox_bertThreshold ox \<ge> 0 \<Longrightarrow> fst (bertPass ex ox e) > ox_bertThreshold ox \<longleftrightarrow> (\<exists>u \<in> set (em_URLs e). phishLink ex ox u)"
  by (auto simp: bertPass_def phishLink_def bestScore_above isTrancoGreylisted_iff split: option.split)

lemma dgaPass_above: "ox_dgaThreshold ox \<ge> 0 \<Longrightarrow> fst (dgaPass ex ox e) > ox_dgaThreshold ox \<longleftrightarrow> (\<exists>u \<in> set (em_URLs e). generatedHost ex ox u)"
proof -
  assume t: "ox_dgaThreshold ox \<ge> 0"
  show ?thesis
  proof (cases "ox_dga ox")
    case (Some session)
    have "fst (dgaPass ex ox e) > ox_dgaThreshold ox \<longleftrightarrow>
      (\<exists>d \<in> set (extractDomains (em_URLs e)). \<not> parentIn (ox_tranco ox) (toLower d) \<and> (\<exists>s. runDGA ex session d = Inr s \<and> s > ox_dgaThreshold ox))"
      using t Some by (auto simp: dgaPass_def bestScore_above isTrancoGreylisted_iff)
    then show ?thesis using Some by (auto simp: generatedHost_def extractDomains_def extractDomainsFrom_set)
  qed (use t in \<open>simp add: dgaPass_def generatedHost_def\<close>)
qed

text \<open>
  The classifier flags exactly what its models flag: with models loaded, a message is malicious if and only if one of its links, on a domain that is not popular, scores above
  the threshold, suspicious if and only if no link does but a host looks generated, and clean otherwise; failed inferences and the order of
  the links do not matter.
\<close>

theorem onnx_flags_iff:
  assumes "ox_enabled ox" and "ox_dga ox \<noteq> None \<or> ox_bert ox \<noteq> None \<and> ox_tokenizer ox \<noteq> None" and "ox_bertThreshold ox \<ge> 0" and "ox_dgaThreshold ox \<ge> 0"
  shows "sr_Verdict (ONNX_Scan ex ox e) =
    (if \<exists>u \<in> set (em_URLs e). phishLink ex ox u then ''malicious''
     else if \<exists>u \<in> set (em_URLs e). generatedHost ex ox u then ''suspicious'' else ''clean'')"
proof -
  have "sr_Verdict (ONNX_Scan ex ox e) =
    (if fst (bertPass ex ox e) > ox_bertThreshold ox then ''malicious''
     else if fst (dgaPass ex ox e) > ox_dgaThreshold ox then ''suspicious'' else ''clean'')"
    using assms(1,2) by (auto simp: ONNX_Scan_def Let_def result_def split: prod.split)
  then show ?thesis by (simp add: bertPass_above [OF assms(3)] dgaPass_above [OF assms(4)])
qed

section \<open>Probabilities and encodings\<close>

lemma softmax2_bounds: "ex l0 > 0 \<Longrightarrow> ex l1 > 0 \<Longrightarrow> 0 < softmax2 ex l0 l1 \<and> softmax2 ex l0 l1 < 1"
  by (simp add: softmax2_def)

lemma sum_selected:
  fixes es :: "rat list"
  assumes "\<forall>e \<in> set es. e > 0"
  shows "0 \<le> sum_list (map (\<lambda>(i, e). if i \<in> phish then e else 0) (enumerate k es))
    \<and> sum_list (map (\<lambda>(i, e). if i \<in> phish then e else 0) (enumerate k es)) \<le> sum_list es"
  using assms
proof (induction es arbitrary: k)
  case (Cons e es)
  have "0 < e" "\<forall>e \<in> set es. e > 0" using Cons.prems by simp_all
  then show ?case using Cons.IH [of "Suc k"] by auto
qed simp

text \<open>Every score that the models report is a probability, so that thresholds of one and more turn a model off.\<close>

lemma scores_are_probabilities:
  assumes "\<And>x. ex x > 0"
  shows "runBERT ex tk session text = Inr s \<Longrightarrow> 0 \<le> s \<and> s \<le> 1" and "runDGA ex dga domain = Inr s \<Longrightarrow> 0 \<le> s \<and> s \<le> 1"
proof -
  have two: "0 \<le> softmax2 ex a b \<and> softmax2 ex a b \<le> 1" for a b using softmax2_bounds [of ex a b] assms by (simp add: less_imp_le)
  have "0 \<le> softmaxPhish ex logits ph \<and> softmaxPhish ex logits ph \<le> 1" for logits ph
  proof -
    define es where "es = map (\<lambda>l. ex (l - foldl (\<lambda>m l. if l > m then l else m) (hd logits) logits)) logits"
    have "\<forall>e \<in> set es. e > 0" using assms by (auto simp: es_def)
    note b = sum_selected [OF this, of ph 0]
    then show ?thesis by (auto simp: softmaxPhish_def Let_def divide_le_eq_1 simp flip: es_def)
  qed
  then show "runBERT ex tk session text = Inr s \<Longrightarrow> 0 \<le> s \<and> s \<le> 1" "runDGA ex dga domain = Inr s \<Longrightarrow> 0 \<le> s \<and> s \<le> 1"
    using two by (auto simp: runBERT_def runDGA_def split: sum.splits if_splits)
qed

lemma encode_shape: "length (encodeDomainChars d n) = n" "v \<in> set (encodeDomainChars d n) \<Longrightarrow> 0 \<le> v \<and> v \<le> 39"
  by (auto simp: encodeDomainChars_def padOrTruncateInt_def charIndex_def Let_def dest!: in_set_takeD split: if_splits)

definition decodeIndex :: "int \<Rightarrow> char" where
  "decodeIndex v =
     (if v \<le> 26 then char_of (nat (v + 96)) else if v \<le> 36 then char_of (nat (v + 21))
      else if v = 37 then CHR ''-'' else if v = 38 then CHR ''.'' else CHR ''_'')"

text \<open>Two domains of at most 75 characters of the alphabet have different tensors.\<close>

lemma decode_encode:
  assumes "length d \<le> n" and "\<forall>c \<in> set (toLower d). charIndex c \<noteq> 0"
  shows "map decodeIndex (takeWhile (\<lambda>v. v \<noteq> 0) (encodeDomainChars d n)) = toLower d"
proof -
  have inv: "decodeIndex (charIndex c) = c" if "charIndex c \<noteq> 0" for c
    using that by (auto simp: charIndex_def decodeIndex_def Let_def split: if_splits)
  have len: "length (toLower d) \<le> n" using assms(1) by (simp add: toLower_def)
  have "takeWhile (\<lambda>v. v \<noteq> 0) (map charIndex (toLower d) @ replicate k 0) = map charIndex (toLower d)" for k
    using assms(2) by (subst takeWhile_append2) auto
  then have "takeWhile (\<lambda>v. v \<noteq> 0) (encodeDomainChars d n) = map charIndex (toLower d)"
    using len by (simp add: encodeDomainChars_def padOrTruncateInt_def)
  then show ?thesis using assms(2) inv by (simp add: map_idI)
qed

section \<open>What the host extraction misses\<close>

text \<open>
  The host is cut at the last colon before the first slash, so that a user name with a password hides the real host: the link below goes to \<^verbatim>\<open>evil.example\<close> but is taken for
  \<^verbatim>\<open>google.com\<close> and not classified at all. A query right after the host does the same.
\<close>

lemma userinfo_hides_host:
  "extractDomain ''http://google.com:x@evil.example/login'' = ''google.com''"
  "map_option Hostname (urlParse ''http://google.com:x@evil.example/login'') = Some ''evil.example''"
  "isTrancoGreylisted {''google.com''} (extractDomain ''http://google.com:x@evil.example/login'')"
  by code_simp+

lemma query_hides_host:
  "isTrancoGreylisted {''google.com''} (extractDomain ''http://evil.example?x.google.com'')"
  "map_option Hostname (urlParse ''http://evil.example?x.google.com'') = Some ''evil.example''"
  by code_simp+

section \<open>Witnesses\<close>

definition demoOnnx :: onnx where
  "demoOnnx = \<lparr>ox_bert = Some (\<lambda>ids mask. Inr [0, 1]), ox_tokenizer = Some (\<lambda>s. Inr ([], [])), ox_bertThreshold = 1 / 2, ox_dga = Some (\<lambda>_. Inl ''down''),
     ox_dgaThreshold = 8 / 10, ox_tranco = {''google.com''}, ox_enabled = True\<rparr>"

lemma onnx_flags_iff_witness:
  "sr_Verdict (ONNX_Scan (\<lambda>x. if x > 0 then 3 else 1) demoOnnx (linkEmail\<lparr>em_URLs := [''http://evil.example/'']\<rparr>)) = ''malicious''"
proof -
  let ?ex = "\<lambda>x::rat. if x > 0 then 3 else 1"
  have "\<not> isTrancoGreylisted {''google.com''} (extractDomain ''http://evil.example/'')" by code_simp
  then have "phishLink ?ex demoOnnx ''http://evil.example/''"
    by (simp add: phishLink_def demoOnnx_def runBERT_def softmax2_def isTrancoGreylisted_iff) (rule exI [of _ "3 / 4"], simp)
  then show ?thesis
    using onnx_flags_iff [of demoOnnx ?ex "linkEmail\<lparr>em_URLs := [''http://evil.example/'']\<rparr>"] by (simp add: demoOnnx_def)
qed

end
