(* ===== verification/HashImport.thy ===== *)
theory HashImport
  imports UrlScanners Database
begin

text \<open>
  The MalwareBazaar table (\<^verbatim>\<open>app/feeds/malwarebazaar.go\<close>): download with a fall-back to the cache file, the streamed import of the CSV in batches of 500, and
  the replacement of the cache. The network, gzip and the CSV reader are arguments: a stream is the records and broken lines that the reader delivers, and how
  it ends. A reader that fails for good returns its error at every further call.
\<close>

section \<open>Rows and streams\<close>

record HashRow = MalwareBazaarHash +
  mr_FileType :: string
  mr_AddedAt :: go_time
  mr_SeenAt :: go_time

datatype csv_end = AtEOF | Broken

record csv_stream =
  cs_items :: "string list option list"      \<comment> \<open>None: a line that the reader rejects\<close>
  cs_end :: csv_end

datatype fetched = NetFail | Response nat string

record hash_env =
  he_net :: "string \<Rightarrow> fetched"
  he_temp :: bool                            \<comment> \<open>the temporary file can be created\<close>
  he_rename :: bool                          \<comment> \<open>and renamed\<close>
  he_gunzip :: "string \<Rightarrow> csv_stream result"
  he_parse :: "string \<Rightarrow> go_time"             \<comment> \<open>\<^verbatim>\<open>time.Parse\<close>, the zero time on an error\<close>
  he_now :: go_time
  he_faults :: faults
  he_cancelAt :: "nat option"                \<comment> \<open>the iteration at which the context ends\<close>

type_synonym hash_state = "HashRow list \<times> nat"   \<comment> \<open>the table and the number of transactions so far\<close>

section \<open>The import\<close>

definition csvRow :: "hash_env \<Rightarrow> string list option \<Rightarrow> HashRow option" where
  "csvRow E item =
     (case item of
        None \<Rightarrow> None
      | Some rec \<Rightarrow>
          if length rec < 10 then None
          else if trimSpace (rec ! 1) = [] then None
          else Some \<lparr>mh_SHA256 = trimSpace (rec ! 1), mh_Signature = trimSpace (rec ! 9), mr_FileType = trimSpace (rec ! 7),
                     mr_AddedAt = he_parse E (trimSpace (rec ! 0)), mr_SeenAt = he_now E\<rparr>)"

text \<open>\<^verbatim>\<open>INSERT ... ON CONFLICT DO NOTHING\<close> on the primary key.\<close>

definition insertNew :: "HashRow \<Rightarrow> HashRow list \<Rightarrow> HashRow list" where
  "insertNew r tbl = (if mh_SHA256 r \<in> mh_SHA256 ` set tbl then tbl else tbl @ [r])"

definition insertAll :: "HashRow list \<Rightarrow> HashRow list \<Rightarrow> HashRow list" where
  "insertAll rows tbl = fold insertNew rows tbl"

definition batchSize :: nat where "batchSize = 500"

definition flush :: "hash_env \<Rightarrow> HashRow list \<Rightarrow> hash_state \<Rightarrow> hash_state \<times> error option" where
  "flush E batch st =
     (case st of (tbl, n) \<Rightarrow>
        if batch = [] then (st, None)
        else (case he_faults E n of Some e \<Rightarrow> ((tbl, Suc n), Some e) | None \<Rightarrow> ((insertAll batch tbl, Suc n), None)))"

definition cancelled :: "hash_env \<Rightarrow> nat \<Rightarrow> bool" where
  "cancelled E i \<longleftrightarrow> (case he_cancelAt E of None \<Rightarrow> False | Some k \<Rightarrow> k \<le> i)"

text \<open>The loop of \<^verbatim>\<open>mbParseAndInsert\<close>; on a broken reader it reads until the context ends.\<close>

fun importLoop :: "hash_env \<Rightarrow> csv_end \<Rightarrow> nat \<Rightarrow> string list option list \<Rightarrow> HashRow list \<Rightarrow> nat \<Rightarrow> hash_state
    \<Rightarrow> (hash_state \<times> nat \<times> error option) go" where
  "importLoop E fin i [] batch n st =
     (if cancelled E i then Returns (st, n, Some ''context canceled'')
      else if fin = Broken then (if he_cancelAt E = None then Hangs else Returns (st, n, Some ''context canceled''))
      else (case flush E batch st of
              (st', Some e) \<Rightarrow> Returns (st', n, Some (''final batch insert: '' @ e))
            | (st', None) \<Rightarrow> Returns (st', n, None)))"
| "importLoop E fin i (x # xs) batch n st =
     (if cancelled E i then Returns (st, n, Some ''context canceled'')
      else (case csvRow E x of
              None \<Rightarrow> importLoop E fin (Suc i) xs batch n st
            | Some r \<Rightarrow>
                if length (batch @ [r]) \<ge> batchSize
                then (case flush E (batch @ [r]) st of
                        (st', Some e) \<Rightarrow> Returns (st', Suc n, Some (''batch insert: '' @ e))
                      | (st', None) \<Rightarrow> importLoop E fin (Suc i) xs [] (Suc n) st')
                else importLoop E fin (Suc i) xs (batch @ [r]) (Suc n) st))"

definition mbParseAndInsert :: "hash_env \<Rightarrow> csv_stream \<Rightarrow> hash_state \<Rightarrow> (hash_state \<times> nat \<times> error option) go" where
  "mbParseAndInsert E s st = importLoop E (cs_end s) 0 (cs_items s) [] 0 st"

section \<open>Download and cache\<close>

definition mbFullURL :: string where "mbFullURL = ''https://bazaar.abuse.ch/export/csv/full/''"
definition mbRecentURL :: string where "mbRecentURL = ''https://bazaar.abuse.ch/export/csv/recent/''"

definition fallbackGzipReader :: "hash_env \<Rightarrow> string option \<Rightarrow> csv_stream result" where
  "fallbackGzipReader E cached =
     (case cached of
        None \<Rightarrow> Inl ''no cache''
      | Some bytes \<Rightarrow> (case he_gunzip E bytes of Inl e \<Rightarrow> Inl (''gzip open cache: '' @ e) | Inr s \<Rightarrow> Inr s))"

text \<open>The stream, and the bytes that are copied to the temporary file on the way.\<close>

definition mbFetch :: "hash_env \<Rightarrow> string \<Rightarrow> string option \<Rightarrow> (csv_stream \<times> string option) result" where
  "mbFetch E url cached =
     (let fallback = (case fallbackGzipReader E cached of Inl e \<Rightarrow> Inl e | Inr s \<Rightarrow> Inr (s, None)) in
      case he_net E url of
        NetFail \<Rightarrow> fallback
      | Response status body \<Rightarrow>
          if status \<noteq> 200 then fallback
          else (case he_gunzip E body of Inl e \<Rightarrow> Inl (''gzip open: '' @ e) | Inr s \<Rightarrow> Inr (s, if he_temp E then Some body else None)))"

definition syncURL :: "HashRow list \<Rightarrow> string" where
  "syncURL tbl = (if tbl = [] then mbFullURL else mbRecentURL)"

definition syncCache :: "HashRow list \<Rightarrow> string" where
  "syncCache tbl = (if tbl = [] then ''malwarebazaar_full.csv.gz'' else ''malwarebazaar_recent.csv.gz'')"

definition Sync :: "hash_env \<Rightarrow> (string \<rightharpoonup> string) \<Rightarrow> hash_state \<Rightarrow> ((string \<rightharpoonup> string) \<times> hash_state \<times> nat \<times> error option) go" where
  "Sync E cache st =
     (let path = syncCache (fst st) in
      case mbFetch E (syncURL (fst st)) (cache path) of
        Inl e \<Rightarrow> Returns (cache, st, 0, Some (''malwarebazaar fetch: '' @ e))
      | Inr (s, tee) \<Rightarrow>
          (case mbParseAndInsert E s st of
             Returns (st', n, None) \<Rightarrow>
               Returns (case tee of Some body \<Rightarrow> if he_rename E then cache(path \<mapsto> body) else cache | None \<Rightarrow> cache, st', n, None)
           | Returns (st', n, Some e) \<Rightarrow> Returns (cache, st', n, Some e)
           | Panics p \<Rightarrow> Panics p
           | Hangs \<Rightarrow> Hangs))"

text \<open>What the scanner looks up.\<close>

definition hashTable :: "HashRow list \<Rightarrow> MalwareBazaarHash list option" where
  "hashTable tbl = Some (map MalwareBazaarHash.truncate tbl)"

section \<open>Batches do not matter\<close>

definition csvRows :: "hash_env \<Rightarrow> string list option list \<Rightarrow> HashRow list" where
  "csvRows E items = List.map_filter (csvRow E) items"

lemma csvRows_Cons: "csvRows E (x # xs) = (case csvRow E x of None \<Rightarrow> csvRows E xs | Some r \<Rightarrow> r # csvRows E xs)"
  by (simp add: csvRows_def map_filter_simps split: option.split)

lemma insertAll_append: "insertAll ys (insertAll xs tbl) = insertAll (xs @ ys) tbl"
  by (simp add: insertAll_def)

lemma flush_ok: "he_faults E = (\<lambda>_. None) \<Longrightarrow> \<exists>m. flush E batch (tbl, k) = ((insertAll batch tbl, m), None)"
  by (auto simp: flush_def insertAll_def)

lemma importLoop_complete:
  assumes "he_faults E = (\<lambda>_. None)" and "he_cancelAt E = None"
  shows "\<exists>m. importLoop E AtEOF i items batch n (tbl, k)
    = Returns ((insertAll (batch @ csvRows E items) tbl, m), n + length (csvRows E items), None)"
proof (induction items arbitrary: i batch n tbl k)
  case Nil
  obtain m where "flush E batch (tbl, k) = ((insertAll batch tbl, m), None)" using flush_ok [OF assms(1)] by blast
  then show ?case using assms(2) by (simp add: cancelled_def csvRows_def map_filter_simps)
next
  case (Cons x items)
  have nc: "\<not> cancelled E i" using assms(2) by (simp add: cancelled_def)
  show ?case
  proof (cases "csvRow E x")
    case None
    then show ?thesis using Cons.IH nc by (simp add: csvRows_Cons)
  next
    case (Some r)
    obtain m where "flush E (batch @ [r]) (tbl, k) = ((insertAll (batch @ [r]) tbl, m), None)" using flush_ok [OF assms(1)] by blast
    then show ?thesis
      using Cons.IH [of "Suc i" "[]" "Suc n" "insertAll (batch @ [r]) tbl" m] Cons.IH [of "Suc i" "batch @ [r]" "Suc n" tbl k] Some nc
      by (simp add: csvRows_Cons insertAll_append)
  qed
qed

text \<open>
  The batched import equals one insert of all rows: when the stream ends and no write fails, the import returns, the table is the old one followed by
  the first row of every new hash in the order of the file, and the count is that of the valid records; where the batches end plays no role.
\<close>

theorem import_equals_insert:
  assumes "he_faults E = (\<lambda>_. None)" and "he_cancelAt E = None" and "cs_end s = AtEOF"
  shows "\<exists>m. mbParseAndInsert E s (tbl, k) = Returns ((fold insertNew (csvRows E (cs_items s)) tbl, m), length (csvRows E (cs_items s)), None)"
  using importLoop_complete [OF assms(1,2), of 0 "cs_items s" "[]" 0 tbl k] assms(3) by (simp add: mbParseAndInsert_def insertAll_def)

section \<open>Interrupted imports\<close>

lemma importLoop_prefix:
  assumes "importLoop E fin i items batch n (tbl, k) = Returns ((tbl', k'), n', err)"
  shows "\<exists>j. tbl' = insertAll (take j (batch @ csvRows E items)) tbl \<and> (err = None \<longrightarrow> take j (batch @ csvRows E items) = batch @ csvRows E items)"
  using assms
proof (induction items arbitrary: i batch n tbl k)
  case Nil
  have f: "flush E batch (tbl, k) = ((t, m), e) \<Longrightarrow> t = (if e = None then insertAll batch tbl else tbl)" for t m e
    by (auto simp: flush_def insertAll_def split: if_splits option.splits)
  show ?case
  proof (cases "err = None")
    case True
    then have "tbl' = insertAll batch tbl" using Nil f by (auto split: if_splits prod.splits option.splits)
    then show ?thesis by (intro exI [of _ "length batch"]) (simp add: csvRows_def map_filter_simps)
  next
    case False
    then have "tbl' = tbl" using Nil f by (auto split: if_splits prod.splits option.splits)
    then show ?thesis using False by (intro exI [of _ 0]) (auto simp: insertAll_def)
  qed
next
  case (Cons x items)
  show ?case
  proof (cases "cancelled E i")
    case True
    then show ?thesis using Cons.prems by (intro exI [of _ 0]) (auto simp: insertAll_def)
  next
    case nc: False
    show ?thesis
    proof (cases "csvRow E x")
      case None
      then show ?thesis using Cons nc by (simp add: csvRows_Cons)
    next
      case (Some r)
      show ?thesis
      proof (cases "length (batch @ [r]) \<ge> batchSize")
        case False
        then show ?thesis using Cons.IH [of "Suc i" "batch @ [r]" "Suc n" tbl k] Cons.prems Some nc by (simp add: csvRows_Cons)
      next
        case True
        obtain t m e where fl: "flush E (batch @ [r]) (tbl, k) = ((t, m), e)" by (metis surj_pair)
        show ?thesis
        proof (cases e)
          case (Some err')
          then have "t = tbl" "err \<noteq> None" "tbl' = t"
            using fl Cons.prems nc True \<open>csvRow E x = Some r\<close> by (auto simp: flush_def split: if_splits option.splits)
          then show ?thesis by (intro exI [of _ 0]) (auto simp: insertAll_def)
        next
          case None
          then have "t = insertAll (batch @ [r]) tbl" using fl by (auto simp: flush_def split: if_splits option.splits)
          moreover have "importLoop E fin (Suc i) items [] (Suc n) (t, m) = Returns ((tbl', k'), n', err)"
            using Cons.prems nc True \<open>csvRow E x = Some r\<close> fl None by simp
          ultimately obtain j where "tbl' = insertAll (take j (csvRows E items)) (insertAll (batch @ [r]) tbl)"
            "err = None \<longrightarrow> take j (csvRows E items) = csvRows E items" 
            using Cons.IH [of "Suc i" "[]" "Suc n" t m] unfolding append_Nil by blast
          then show ?thesis
            using \<open>csvRow E x = Some r\<close> by (intro exI [of _ "length batch + 1 + j"]) (simp add: csvRows_Cons insertAll_append)
        qed
      qed
    qed
  qed
qed

lemma insertAll_grows: "\<exists>new. insertAll rows tbl = tbl @ new \<and> set new \<subseteq> set rows"
proof (induction rows arbitrary: tbl)
  case (Cons r rows)
  then obtain new where "insertAll rows (insertNew r tbl) = insertNew r tbl @ new" "set new \<subseteq> set rows" by blast
  then show ?case by (auto simp: insertAll_def insertNew_def)
qed (simp add: insertAll_def)

lemma insertAll_keys: "distinct (map mh_SHA256 tbl) \<Longrightarrow> distinct (map mh_SHA256 (insertAll rows tbl))"
  by (induction rows arbitrary: tbl) (auto simp: insertAll_def insertNew_def)

lemma insertAll_found: "r \<in> set rows \<Longrightarrow> mh_SHA256 r \<in> mh_SHA256 ` set (insertAll rows tbl)"
proof (induction rows arbitrary: tbl)
  case (Cons x rows)
  have "mh_SHA256 x \<in> mh_SHA256 ` set (insertNew x tbl)" by (auto simp: insertNew_def)
  moreover obtain new where "insertAll rows (insertNew x tbl) = insertNew x tbl @ new" using insertAll_grows by blast
  ultimately have "mh_SHA256 x \<in> mh_SHA256 ` set (insertAll (x # rows) tbl)" by (auto simp: insertAll_def)
  then show ?case using Cons by (auto simp: insertAll_def)
qed simp

text \<open>
  An import never loses or invents hashes: however it ends (failed writes, a cancelled context, broken lines), the table keeps all its rows in front, its keys stay distinct,
  and every added row is a record of the file.
\<close>

theorem import_only_grows:
  assumes "mbParseAndInsert E s (tbl, k) = Returns ((tbl', k'), n, err)" and "distinct (map mh_SHA256 tbl)"
  shows "distinct (map mh_SHA256 tbl') \<and> (\<exists>new. tbl' = tbl @ new \<and> set new \<subseteq> set (csvRows E (cs_items s)))"
proof -
  obtain j where j: "tbl' = insertAll (take j (csvRows E (cs_items s))) tbl"
    using importLoop_prefix [of E "cs_end s" 0 "cs_items s" "[]" 0 tbl k tbl' k' n err] assms(1) by (auto simp: mbParseAndInsert_def)
  then show ?thesis using insertAll_keys [OF assms(2)] insertAll_grows [of "take j (csvRows E (cs_items s))" tbl] set_take_subset by fastforce
qed

section \<open>A broken download\<close>

text \<open>
  A truncated download stops the feeds for good: the loop goes on after every error of the reader, and a reader whose source has failed keeps failing. Whatever was read before, the import
  does not return until the context of the program ends.
\<close>

theorem truncated_download_hangs:
  assumes "cs_end s = Broken" and "he_cancelAt E = None" and "he_faults E = (\<lambda>_. None)"
  shows "mbParseAndInsert E s st = Hangs"
proof -
  have nc: "\<not> cancelled E i" for i using assms(2) by (simp add: cancelled_def)
  have "importLoop E Broken i items batch n (tbl, k) = Hangs" for i items batch n tbl k
  proof (induction items arbitrary: i batch n tbl k)
    case (Cons x items)
    show ?case
    proof (cases "csvRow E x")
      case (Some r)
      obtain m where "flush E (batch @ [r]) (tbl, k) = ((insertAll (batch @ [r]) tbl, m), None)" using flush_ok [OF assms(3)] by blast
      then show ?thesis using Some nc Cons.IH by simp
    qed (use nc Cons.IH in simp)
  qed (use nc assms(2) in simp)
  then show ?thesis using assms(1) by (cases st) (simp add: mbParseAndInsert_def)
qed

text \<open>An import always returns when the stream ends, and when the program stops.\<close>

lemma import_returns: "cs_end s = AtEOF \<or> he_cancelAt E \<noteq> None \<Longrightarrow> \<exists>r. mbParseAndInsert E s st = Returns r"
proof -
  assume a: "cs_end s = AtEOF \<or> he_cancelAt E \<noteq> None"
  have "\<exists>r. importLoop E (cs_end s) i items batch n st = Returns r" for i items batch n st
  proof (induction items arbitrary: i batch n st)
    case Nil
    obtain st' e where "flush E batch st = (st', e)" by fastforce
    then show ?case using a by (cases "cs_end s"; cases e) auto
  next
    case (Cons x items)
    show ?case
    proof (cases "csvRow E x")
      case (Some r)
      obtain st' e where "flush E (batch @ [r]) st = (st', e)" by fastforce
      then show ?thesis using Some Cons.IH by (cases e) auto
    qed (use Cons.IH in simp)
  qed
  then show ?thesis by (simp add: mbParseAndInsert_def)
qed

section \<open>The cache file\<close>

text \<open>
  The cache never holds a partial dump: after a synchronisation, every cache file is what it was, or the body of a complete response whose rows were all imported; a failed one leaves the
  cache as it was.
\<close>

theorem sync_cache_complete:
  assumes "Sync E cache st = Returns (cache', st', n, err)"
  shows "cache' = cache \<or> (err = None \<and> (\<exists>body s. he_net E (syncURL (fst st)) = Response 200 body \<and> he_gunzip E body = Inr s
    \<and> cache' = cache(syncCache (fst st) \<mapsto> body) \<and> fst st' = insertAll (csvRows E (cs_items s)) (fst st)))"
proof (cases "mbFetch E (syncURL (fst st)) (cache (syncCache (fst st)))")
  case (Inr f)
  obtain s tee where f: "f = (s, tee)" by fastforce
  obtain tbl k where st: "st = (tbl, k)" by fastforce
  show ?thesis
  proof (cases "cache' = cache")
    case False
    have p: "mbParseAndInsert E s st = Returns (st', n, None) \<and> err = None \<and> (\<exists>body. tee = Some body \<and> cache' = cache(syncCache (fst st) \<mapsto> body))"
      using assms Inr False unfolding Sync_def Let_def f by (auto split: go.splits prod.splits option.splits if_splits)
    then obtain body where body: "tee = Some body" "cache' = cache(syncCache (fst st) \<mapsto> body)" by blast
    have "he_net E (syncURL (fst st)) = Response 200 body \<and> he_gunzip E body = Inr s"
      using Inr body(1) unfolding mbFetch_def f Let_def fallbackGzipReader_def
      by (auto split: fetched.splits sum.splits option.splits if_splits)
    moreover have "fst st' = insertAll (csvRows E (cs_items s)) tbl"
      using importLoop_prefix [of E "cs_end s" 0 "cs_items s" "[]" 0 tbl k "fst st'" "snd st'" n None] p st by (auto simp: mbParseAndInsert_def)
    ultimately show ?thesis using p body(2) st by auto
  qed simp
qed (use assms in \<open>simp add: Sync_def Let_def\<close>)

text \<open>A first synchronisation that fails after its first batch is never completed: the table is not empty any more, and only the recent file is asked for.\<close>

lemma first_sync_not_repeated: "tbl \<noteq> [] \<Longrightarrow> syncURL tbl = mbRecentURL"
  by (simp add: syncURL_def)

section \<open>Imported hashes are found\<close>

lemma hashTable_found: "h \<in> mh_SHA256 ` set tbl \<Longrightarrow> LookupHash (hashTable tbl) h \<noteq> None"
  by (auto simp: LookupHash_def hashTable_def find_None_iff MalwareBazaarHash.truncate_def)

text \<open>
  From the feed to the verdict: after an import that ends without an error, every message with a dangerous attachment whose hash is in the second column of a record of the file is
  malicious for the hash scanner.
\<close>

theorem imported_hash_flagged:
  assumes "mbParseAndInsert E s (tbl, k) = Returns ((tbl', k'), n, None)"
    and "Some rec \<in> set (cs_items s)" and "10 \<le> length rec" and "trimSpace (rec ! 1) \<noteq> []"
    and "a \<in> set (em_Attachments e)" and "at_IsDangerous a" and "at_SHA256 a = trimSpace (rec ! 1)"
  shows "sr_Verdict (MalwareBazaar_Scan True (LookupHash (hashTable tbl')) e) = ''malicious''"
proof -
  have "\<exists>j. tbl' = insertAll (take j (csvRows E (cs_items s))) tbl \<and> take j (csvRows E (cs_items s)) = csvRows E (cs_items s)"
    using importLoop_prefix [of E "cs_end s" 0 "cs_items s" "[]" 0 tbl k tbl' k' n None] assms(1) by (simp add: mbParseAndInsert_def)
  then have t: "tbl' = insertAll (csvRows E (cs_items s)) tbl" by auto
  obtain r where r: "csvRow E (Some rec) = Some r" "mh_SHA256 r = trimSpace (rec ! 1)" using assms(3,4) by (simp add: csvRow_def)
  then have "r \<in> set (csvRows E (cs_items s))"
    using assms(2) by (force simp: csvRows_def List.map_filter_def)
  then have "LookupHash (hashTable tbl') (at_SHA256 a) \<noteq> None"
    using hashTable_found [of "at_SHA256 a" tbl'] insertAll_found [of r "csvRows E (cs_items s)" tbl] r(2) assms(7) t by simp
  then have "mbHits (LookupHash (hashTable tbl')) (em_Attachments e) \<noteq> []"
    using assms(5,6) by (force simp: mbHits_def List.map_filter_def filter_empty_conv)
  then show ?thesis using assms(5) by (auto simp: MalwareBazaar_Scan_def Let_def)
qed

section \<open>Witnesses\<close>

definition demoRecord :: "string list" where
  "demoRecord = [''2026-01-02 03:04:05'', ''abc'', [], [], [], [], [], ''exe'', [], ''Emotet'']"

definition demoHashEnv :: hash_env where
  "demoHashEnv = \<lparr>he_net = (\<lambda>_. Response 200 ''gz''), he_temp = True, he_rename = True,
     he_gunzip = (\<lambda>_. Inr \<lparr>cs_items = [None, Some demoRecord, Some demoRecord], cs_end = AtEOF\<rparr>), he_parse = (\<lambda>_. 0), he_now = 0,
     he_faults = (\<lambda>_. None), he_cancelAt = None\<rparr>"

definition demoStream :: "csv_end \<Rightarrow> csv_stream" where
  "demoStream fin = \<lparr>cs_items = [None, Some demoRecord, Some demoRecord], cs_end = fin\<rparr>"

lemma demo_rows: "csvRows demoHashEnv [None, Some demoRecord, Some demoRecord]
    = replicate 2 \<lparr>mh_SHA256 = ''abc'', mh_Signature = ''Emotet'', mr_FileType = ''exe'', mr_AddedAt = 0, mr_SeenAt = 0\<rparr>"
  by (simp add: csvRows_Cons csvRow_def demoRecord_def demoHashEnv_def trimSpace_def asciiSpace_def numeral_2_eq_2)
    (simp add: csvRows_def map_filter_simps)

lemma import_equals_insert_witness:
  "\<exists>m. mbParseAndInsert demoHashEnv (demoStream AtEOF) ([], 0)
     = Returns (([\<lparr>mh_SHA256 = ''abc'', mh_Signature = ''Emotet'', mr_FileType = ''exe'', mr_AddedAt = 0, mr_SeenAt = 0\<rparr>], m), 2, None)"
  using import_equals_insert [of demoHashEnv "demoStream AtEOF" "[]" 0]
  by (simp add: demoStream_def demo_rows insertNew_def numeral_2_eq_2) (simp add: demoHashEnv_def)

lemma demo_import:
  "\<exists>m. mbParseAndInsert demoHashEnv (demoStream AtEOF) ([], 0)
     = Returns (([\<lparr>mh_SHA256 = ''abc'', mh_Signature = ''Emotet'', mr_FileType = ''exe'', mr_AddedAt = 0, mr_SeenAt = 0\<rparr>], m), 2, None)"
proof -
  have "he_faults demoHashEnv = (\<lambda>_. None)" "he_cancelAt demoHashEnv = None" by (simp_all add: demoHashEnv_def)
  from importLoop_complete [OF this, of 0 "[None, Some demoRecord, Some demoRecord]" "[]" 0 "[]" 0] show ?thesis
    unfolding mbParseAndInsert_def demoStream_def demo_rows by (simp add: insertAll_def insertNew_def numeral_2_eq_2 del: importLoop.simps)
qed

lemma import_only_grows_witness:
  "\<exists>r. mbParseAndInsert demoHashEnv (demoStream AtEOF) ([], 0) = Returns r \<and> distinct (map mh_SHA256 (fst (fst r)))"
proof -
  obtain m where m: "mbParseAndInsert demoHashEnv (demoStream AtEOF) ([], 0)
      = Returns (([\<lparr>mh_SHA256 = ''abc'', mh_Signature = ''Emotet'', mr_FileType = ''exe'', mr_AddedAt = 0, mr_SeenAt = 0\<rparr>], m), 2, None)"
    using demo_import by blast
  from import_only_grows [OF m] m show ?thesis by simp
qed

definition infectedEmail :: Email where
  "infectedEmail = linkEmail\<lparr>em_Attachments := [\<lparr>at_Filename = ''a.exe'', at_ContentType = [], at_SHA256 = ''abc'', at_Extension = ''.exe'',
     at_SizeBytes = 1, at_IsDangerous = True, at_Raw = ''x''\<rparr>]\<rparr>"

lemma imported_hash_flagged_witness:
  "\<exists>r. mbParseAndInsert demoHashEnv (demoStream AtEOF) ([], 0) = Returns r
     \<and> sr_Verdict (MalwareBazaar_Scan True (LookupHash (hashTable (fst (fst r)))) infectedEmail) = ''malicious''"
proof -
  obtain m where m: "mbParseAndInsert demoHashEnv (demoStream AtEOF) ([], 0)
      = Returns (([\<lparr>mh_SHA256 = ''abc'', mh_Signature = ''Emotet'', mr_FileType = ''exe'', mr_AddedAt = 0, mr_SeenAt = 0\<rparr>], m), 2, None)"
    using demo_import by blast
  from imported_hash_flagged [OF m, of demoRecord _ infectedEmail] m show ?thesis
    by (simp add: demoStream_def demoRecord_def infectedEmail_def trimSpace_def asciiSpace_def)
qed

lemma sync_cache_complete_witness:
  "\<exists>r. Sync demoHashEnv Map.empty ([], 0) = Returns r \<and> fst r ''malwarebazaar_full.csv.gz'' = Some ''gz''"
proof -
  have st: "demoStream AtEOF = \<lparr>cs_items = [None, Some demoRecord, Some demoRecord], cs_end = AtEOF\<rparr>" by (simp add: demoStream_def)
  obtain m where m: "mbParseAndInsert demoHashEnv (demoStream AtEOF) ([], 0)
      = Returns (([\<lparr>mh_SHA256 = ''abc'', mh_Signature = ''Emotet'', mr_FileType = ''exe'', mr_AddedAt = 0, mr_SeenAt = 0\<rparr>], m), 2, None)"
    using demo_import by blast
  have net: "he_net demoHashEnv u = Response 200 ''gz''" "he_temp demoHashEnv" "he_rename demoHashEnv" "he_gunzip demoHashEnv x = Inr (demoStream AtEOF)" for u x
    by (simp_all add: demoHashEnv_def demoStream_def)
  have "\<exists>st' n. Sync demoHashEnv Map.empty ([], 0) = Returns ([''malwarebazaar_full.csv.gz'' \<mapsto> ''gz''], st', n, None)"
    using m net by (simp add: Sync_def mbFetch_def syncCache_def syncURL_def Let_def)
  then obtain st' n where sy: "Sync demoHashEnv Map.empty ([], 0) = Returns ([''malwarebazaar_full.csv.gz'' \<mapsto> ''gz''], st', n, None)" by blast
  from sync_cache_complete [OF sy] sy show ?thesis by simp
qed

lemma truncated_download_hangs_witness: "mbParseAndInsert demoHashEnv (demoStream Broken) ([], 0) = Hangs"
  using truncated_download_hangs [of "demoStream Broken" demoHashEnv "([], 0)"] by (simp add: demoStream_def demoHashEnv_def)

end
