(* ===== verification/Hub.thy ===== *)
theory Hub
  imports Refinement "HOL-Library.Sublist"
begin

text \<open>
  Live events for the dashboard: the hub of \<^verbatim>\<open>app/web/server.go\<close> and the event stream of \<^verbatim>\<open>app/web/handlers/sse.go\<close>. Subscribers, broadcasts and departures of different
  goroutines interleave; a departing subscriber leaves the map under the lock and closes its channel afterwards, outside. A broadcast happens
  under the lock and never waits; since it looks at every channel once, it is one step. The gauge of the metrics is updated right after the unlock and after the close in the code; here
  that update is part of the step before it, so the gauge of the model is the one that is reached when the goroutines in between have gone on.
\<close>

section \<open>The hub\<close>

text \<open>Besides the map and the channels, the state records what was broadcast, since when a client listens and what it has received.\<close>

record hub =
  hb_clients :: "nat set"
  hb_buf :: "nat \<Rightarrow> string list"
  hb_leaving :: "nat set"
  hb_closed :: "nat set"
  hb_next :: nat
  hb_gauge :: int
  hb_panicked :: bool
  hb_sent :: "string list"
  hb_since :: "nat \<Rightarrow> nat"
  hb_got :: "nat \<Rightarrow> string list"

definition chanSize :: nat where "chanSize = 16"

definition NewSSEHub :: hub where
  "NewSSEHub = \<lparr>hb_clients = {}, hb_buf = (\<lambda>_. []), hb_leaving = {}, hb_closed = {}, hb_next = 0, hb_gauge = 0, hb_panicked = False,
     hb_sent = [], hb_since = (\<lambda>_. 0), hb_got = (\<lambda>_. [])\<rparr>"

definition Subscribe :: "hub \<Rightarrow> hub" where
  "Subscribe h =
     h\<lparr>hb_clients := insert (hb_next h) (hb_clients h), hb_buf := (hb_buf h)(hb_next h := []), hb_next := Suc (hb_next h),
       hb_gauge := hb_gauge h + 1, hb_since := (hb_since h)(hb_next h := length (hb_sent h)), hb_got := (hb_got h)(hb_next h := [])\<rparr>"

text \<open>The part of \<^verbatim>\<open>Unsubscribe\<close> under the lock, and the rest; closing a closed channel panics.\<close>

definition removeClient :: "nat \<Rightarrow> hub \<Rightarrow> hub" where
  "removeClient ch h = h\<lparr>hb_clients := hb_clients h - {ch}, hb_leaving := insert ch (hb_leaving h)\<rparr>"

definition closeClient :: "nat \<Rightarrow> hub \<Rightarrow> hub" where
  "closeClient ch h =
     (if ch \<in> hb_closed h then h\<lparr>hb_panicked := True\<rparr>
      else h\<lparr>hb_leaving := hb_leaving h - {ch}, hb_closed := insert ch (hb_closed h), hb_gauge := hb_gauge h - 1\<rparr>)"

text \<open>Sending on a closed channel panics; a full channel is passed over.\<close>

definition trySendTo :: "string \<Rightarrow> string list \<Rightarrow> string list" where
  "trySendTo data buf = (if length buf < chanSize then buf @ [data] else buf)"

definition Broadcast :: "string \<Rightarrow> hub \<Rightarrow> hub" where
  "Broadcast data h =
     (if hb_clients h \<inter> hb_closed h \<noteq> {} then h\<lparr>hb_panicked := True\<rparr>
      else h\<lparr>hb_buf := (\<lambda>ch. if ch \<in> hb_clients h then trySendTo data (hb_buf h ch) else hb_buf h ch), hb_sent := hb_sent h @ [data]\<rparr>)"

definition receive :: "nat \<Rightarrow> hub \<Rightarrow> hub" where
  "receive ch h =
     (case hb_buf h ch of
        [] \<Rightarrow> h
      | d # ds \<Rightarrow> h\<lparr>hb_buf := (hb_buf h)(ch := ds), hb_got := (hb_got h)(ch := hb_got h ch @ [d])\<rparr>)"

definition ConnectedClients :: "hub \<Rightarrow> nat" where
  "ConnectedClients h = card (hb_clients h)"

text \<open>What the goroutines do. Every event handler subscribes once, receives, and unsubscribes once.\<close>

inductive hub_step :: "hub \<Rightarrow> hub \<Rightarrow> bool" where
  subscribe: "hub_step h (Subscribe h)"
| broadcast: "hub_step h (Broadcast data h)"
| recv: "ch \<in> hb_clients h \<Longrightarrow> hub_step h (receive ch h)"
| leave: "ch \<in> hb_clients h \<Longrightarrow> hub_step h (removeClient ch h)"
| close: "ch \<in> hb_leaving h \<Longrightarrow> hub_step h (closeClient ch h)"

section \<open>The invariant\<close>

definition hubOK :: "hub \<Rightarrow> bool" where
  "hubOK h \<longleftrightarrow> \<not> hb_panicked h \<and> finite (hb_clients h) \<and> finite (hb_leaving h)
     \<and> hb_clients h \<inter> hb_leaving h = {} \<and> hb_clients h \<inter> hb_closed h = {} \<and> hb_leaving h \<inter> hb_closed h = {}
     \<and> (\<forall>ch \<in> hb_clients h \<union> hb_leaving h \<union> hb_closed h. ch < hb_next h)
     \<and> hb_gauge h = int (card (hb_clients h \<union> hb_leaving h))"

definition deliveryOK :: "hub \<Rightarrow> bool" where
  "deliveryOK h \<longleftrightarrow> (\<forall>ch \<in> hb_clients h. length (hb_buf h ch) \<le> chanSize \<and> hb_since h ch \<le> length (hb_sent h)
     \<and> subseq (hb_got h ch @ hb_buf h ch) (drop (hb_since h ch) (hb_sent h)))"

lemmas hub_ops = Subscribe_def removeClient_def closeClient_def Broadcast_def receive_def

lemma hubOK_start: "hubOK NewSSEHub"
  by (simp add: hubOK_def NewSSEHub_def)

lemma deliveryOK_start: "deliveryOK NewSSEHub"
  by (simp add: deliveryOK_def NewSSEHub_def)

lemma hubOK_step:
  assumes "hubOK h" and "hub_step h h'"
  shows "hubOK h'"
  using assms(2)
proof (cases rule: hub_step.cases)
  case subscribe
  have "hb_next h \<notin> hb_clients h \<union> hb_leaving h \<union> hb_closed h" using assms(1) by (auto simp: hubOK_def)
  then show ?thesis using assms(1) unfolding subscribe hubOK_def by (auto simp: hub_ops less_Suc_eq)
next
  case (recv ch)
  then show ?thesis using assms(1) by (simp add: hubOK_def receive_def split: list.split)
next
  case (leave ch)
  have "insert ch (hb_clients h - {ch} \<union> hb_leaving h) = hb_clients h \<union> hb_leaving h" using leave by auto
  then show ?thesis using assms(1) leave unfolding hubOK_def by (auto simp: hub_ops)
next
  case (close ch)
  have "ch \<notin> hb_closed h" "ch \<notin> hb_clients h" "finite (hb_clients h \<union> hb_leaving h)" using assms(1) close by (auto simp: hubOK_def)
  moreover have "hb_clients h \<union> (hb_leaving h - {ch}) = hb_clients h \<union> hb_leaving h - {ch}" using \<open>ch \<notin> hb_clients h\<close> by auto
  moreover have "card (hb_clients h \<union> hb_leaving h - {ch}) = card (hb_clients h \<union> hb_leaving h) - 1"
    "card (hb_clients h \<union> hb_leaving h) > 0"
    using close calculation(3) by (auto simp: card_gt_0_iff)
  ultimately show ?thesis using assms(1) close unfolding hubOK_def by (auto simp: hub_ops)
qed (use assms(1) in \<open>simp add: hubOK_def Broadcast_def\<close>)

lemma deliveryOK_step:
  assumes "deliveryOK h" and "hubOK h" and "hub_step h h'"
  shows "deliveryOK h'"
  using assms(3)
proof (cases rule: hub_step.cases)
  case subscribe
  then show ?thesis using assms(1) by (auto simp: deliveryOK_def hub_ops)
next
  case (broadcast data)
  have "deliveryOK (Broadcast data h)"
    unfolding deliveryOK_def
  proof
    fix ch assume "ch \<in> hb_clients (Broadcast data h)"
    then have ch: "ch \<in> hb_clients h" by (simp add: Broadcast_def split: if_splits)
    have b: "hb_buf (Broadcast data h) ch = trySendTo data (hb_buf h ch)" "hb_got (Broadcast data h) ch = hb_got h ch"
      "hb_since (Broadcast data h) ch = hb_since h ch" "hb_sent (Broadcast data h) = hb_sent h @ [data]"
      using assms(2) ch by (auto simp: Broadcast_def hubOK_def)
    have old: "length (hb_buf h ch) \<le> chanSize" "hb_since h ch \<le> length (hb_sent h)"
      "subseq (hb_got h ch @ hb_buf h ch) (drop (hb_since h ch) (hb_sent h))" using assms(1) ch by (auto simp: deliveryOK_def)
    have "subseq (hb_got h ch @ trySendTo data (hb_buf h ch)) (drop (hb_since h ch) (hb_sent h) @ [data])"
    proof (cases "length (hb_buf h ch) < chanSize")
      case True
      then show ?thesis using list_emb_append_mono [OF old(3), of "[data]" "[data]"] by (simp add: trySendTo_def)
    next
      case False
      then show ?thesis using list_emb_append_mono [OF old(3), of "[]" "[data]"] by (simp add: trySendTo_def)
    qed
    then show "length (hb_buf (Broadcast data h) ch) \<le> chanSize \<and> hb_since (Broadcast data h) ch \<le> length (hb_sent (Broadcast data h))
      \<and> subseq (hb_got (Broadcast data h) ch @ hb_buf (Broadcast data h) ch) (drop (hb_since (Broadcast data h) ch) (hb_sent (Broadcast data h)))"
      using old b by (auto simp: trySendTo_def)
  qed
  then show ?thesis using broadcast by simp
next
  case (recv ch)
  then show ?thesis using assms(1) by (auto simp: deliveryOK_def receive_def split: list.split)
next
  case (leave ch)
  then show ?thesis using assms(1) by (auto simp: deliveryOK_def removeClient_def)
next
  case (close ch)
  then show ?thesis using assms(1) by (auto simp: deliveryOK_def closeClient_def)
qed

interpretation hub_safe: inductive_invariant "\<lambda>h. h = NewSSEHub" hub_step "\<lambda>_. True" hubOK
  by unfold_locales (simp_all add: hubOK_step hubOK_start)

interpretation hub_delivery: inductive_invariant "\<lambda>h. h = NewSSEHub" hub_step hubOK deliveryOK
  by unfold_locales (simp_all add: deliveryOK_step hub_safe.holds deliveryOK_start)

text \<open>
  C33. Live events are safe and in order: in every interleaving of subscriptions, broadcasts, receives and departures no goroutine sends on or closes a closed channel, the gauge counts (up to updates under way) the clients
  whose channel is open, no client has more than sixteen events waiting, and what a client has received and will receive is a
  subsequence of what was broadcast since it subscribed.
\<close>

theorem events_in_order:
  assumes "reachable (\<lambda>h. h = NewSSEHub) hub_step h"
  shows "\<not> hb_panicked h \<and> hb_gauge h = int (card (hb_clients h \<union> hb_leaving h)) \<and>
    (\<forall>ch \<in> hb_clients h. length (hb_buf h ch) \<le> 16 \<and> subseq (hb_got h ch @ hb_buf h ch) (drop (hb_since h ch) (hb_sent h)))"
  using hub_safe.holds [OF assms] hub_delivery.holds [OF assms] by (auto simp: hubOK_def deliveryOK_def chanSize_def)

text \<open>A client that keeps up misses nothing: with room in its channel every broadcast is queued for it.\<close>

lemma broadcast_reaches:
  "hubOK h \<Longrightarrow> ch \<in> hb_clients h \<Longrightarrow> length (hb_buf h ch) < chanSize \<Longrightarrow> hb_buf (Broadcast data h) ch = hb_buf h ch @ [data]"
  by (auto simp: Broadcast_def hubOK_def trySendTo_def)

lemma events_in_order_witness:
  "subseq (hb_got (receive 0 (Broadcast ''e'' (Subscribe NewSSEHub))) 0 @ hb_buf (receive 0 (Broadcast ''e'' (Subscribe NewSSEHub))) 0)
     (hb_sent (receive 0 (Broadcast ''e'' (Subscribe NewSSEHub))))"
proof -
  let ?h = "Broadcast ''e'' (Subscribe NewSSEHub)"
  have "reachable (\<lambda>h. h = NewSSEHub) hub_step NewSSEHub" by (rule reachable.start) (rule refl)
  then have "reachable (\<lambda>h. h = NewSSEHub) hub_step (Subscribe NewSSEHub)" by (rule reachable.step) (rule hub_step.subscribe)
  then have r: "reachable (\<lambda>h. h = NewSSEHub) hub_step ?h" by (rule reachable.step) (rule hub_step.broadcast)
  have "0 \<in> hb_clients ?h" by (simp add: hub_ops NewSSEHub_def)
  then have "hub_step ?h (receive 0 ?h)" by (rule hub_step.recv)
  with r have "reachable (\<lambda>h. h = NewSSEHub) hub_step (receive 0 ?h)" by (rule reachable.step)
  from events_in_order [OF this] show ?thesis by (simp add: hub_ops NewSSEHub_def trySendTo_def chanSize_def)
qed

section \<open>The event stream\<close>

definition lf :: string where "lf = [CHR 0x0A]"

definition eventFrame :: "string \<Rightarrow> string" where
  "eventFrame data = ''data: '' @ data @ lf @ lf"

definition heartbeat :: string where
  "heartbeat = '': heartbeat'' @ lf @ lf"

datatype tick = Event string | Heartbeat

text \<open>What \<^verbatim>\<open>GetEvents\<close> writes for the events of its channel and the ticks of its timer, in the order of its select.\<close>

fun GetEvents :: "tick list \<Rightarrow> string" where
  "GetEvents [] = []"
| "GetEvents (Event data # ts) = eventFrame data @ GetEvents ts"
| "GetEvents (Heartbeat # ts) = heartbeat @ GetEvents ts"

text \<open>A reader of the format: lines of data are joined until a blank line, comments are skipped.\<close>

fun readEvents :: "string option \<Rightarrow> string list \<Rightarrow> string list" where
  "readEvents acc [] = []"
| "readEvents acc (l # ls) =
     (if l = [] then (case acc of Some d \<Rightarrow> d # readEvents None ls | None \<Rightarrow> readEvents None ls)
      else if hasPrefix l ''data: '' then readEvents (Some (case acc of None \<Rightarrow> drop 6 l | Some d \<Rightarrow> d @ lf @ drop 6 l)) ls
      else readEvents acc ls)"

fun eventsOf :: "tick list \<Rightarrow> string list" where
  "eventsOf [] = []"
| "eventsOf (Event data # ts) = data # eventsOf ts"
| "eventsOf (Heartbeat # ts) = eventsOf ts"

lemma splitOn_line: "CHR 0x0A \<notin> set l \<Longrightarrow> splitOn CHR 0x0A (l @ CHR 0x0A # s) = l # splitOn CHR 0x0A s"
  by (induction l) auto

text \<open>
  The browser sees the events that were queued, one by one and in order, with heartbeats in between, as long as an event has no line feed (events are JSON texts, which escape it).
\<close>

theorem event_stream_roundtrip:
  assumes "\<forall>t \<in> set ts. \<forall>data. t = Event data \<longrightarrow> CHR 0x0A \<notin> set data"
  shows "readEvents None (splitOn CHR 0x0A (GetEvents ts)) = eventsOf ts"
  using assms
proof (induction ts rule: GetEvents.induct)
  case (2 data ts)
  have "splitOn CHR 0x0A (GetEvents (Event data # ts)) = (''data: '' @ data) # [] # splitOn CHR 0x0A (GetEvents ts)"
    using 2 splitOn_line [of "''data: '' @ data" "CHR 0x0A # GetEvents ts"] splitOn_line [of "[]" "GetEvents ts"]
    by (simp add: eventFrame_def lf_def)
  then show ?case using 2 by (simp add: hasPrefix_def)
next
  case (3 ts)
  have "splitOn CHR 0x0A (GetEvents (Heartbeat # ts)) = '': heartbeat'' # [] # splitOn CHR 0x0A (GetEvents ts)"
    using splitOn_line [of "'': heartbeat''" "CHR 0x0A # GetEvents ts"] splitOn_line [of "[]" "GetEvents ts"]
    by (simp add: heartbeat_def lf_def)
  then show ?case using 3 by (simp add: hasPrefix_def)
qed simp

lemma event_stream_roundtrip_witness: "readEvents None (splitOn CHR 0x0A (GetEvents [Event ''a'', Heartbeat, Event ''b''])) = [''a'', ''b'']"
  using event_stream_roundtrip [of "[Event ''a'', Heartbeat, Event ''b'']"] by simp

end
