(* ===== verification/Listings.thy ===== *)
theory Listings
  imports WebActions Config Feeds Middleware Storage
begin

text \<open>
  The pages of the dashboard and the read-only API: filters, pages, single messages, the export as a spreadsheet file, statistics and the audit log
  (\<^verbatim>\<open>app/web/handlers/dashboard.go\<close>, \<^verbatim>\<open>emails.go\<close>). A page is the record of the values that its template is given. \<^verbatim>\<open>Query().Get\<close> is a function that gives the empty string
  for a parameter that is absent. The order that the database gives rows with the same time, the calendar and whether a query
  succeeds are fields of \<open>listing_env\<close>; a query whose error the code does not look at leaves its variable at zero or empty.
\<close>

section \<open>Environment\<close>

type_synonym query = "string \<Rightarrow> string"

record listing_env =
  le_now :: go_time
  le_parseDate :: "string \<Rightarrow> go_time option"           \<comment> \<open>\<^verbatim>\<open>time.Parse\<close> with the layout \<^verbatim>\<open>2006-01-02\<close>\<close>
  le_date :: "go_time \<Rightarrow> string"                       \<comment> \<open>\<^verbatim>\<open>Format\<close> with that layout\<close>
  le_rfc3339 :: "go_time \<Rightarrow> string"
  le_newestFirst :: "Scan list \<Rightarrow> Scan list"           \<comment> \<open>\<^verbatim>\<open>ORDER BY created_at DESC\<close>\<close>
  le_groups :: "string list list \<Rightarrow> string list list"   \<comment> \<open>the order of the groups of \<^verbatim>\<open>GROUP BY\<close>\<close>
  le_reads :: "nat \<Rightarrow> bool"                            \<comment> \<open>the n-th query of the request succeeds\<close>
  le_broken :: "nat option"                            \<comment> \<open>the row of a streamed result at which the connection fails\<close>
  le_unscannable :: "Scan \<Rightarrow> bool"                     \<comment> \<open>rows that \<^verbatim>\<open>ScanRows\<close> cannot decode\<close>

definition upperChar :: "char \<Rightarrow> char" where
  "upperChar c = (let n = of_char c :: nat in if 97 \<le> n \<and> n \<le> 122 then char_of (n - 32) else c)"

definition toUpper :: "string \<Rightarrow> string" where
  "toUpper = map upperChar"

definition rowsOf :: "listing_env \<Rightarrow> nat \<Rightarrow> 'a list \<Rightarrow> 'a list" where
  "rowsOf E n rows = (if le_reads E n then rows else [])"

definition countOf :: "listing_env \<Rightarrow> nat \<Rightarrow> 'a list \<Rightarrow> nat" where
  "countOf E n rows = length (rowsOf E n rows)"

section \<open>Pages\<close>

definition parsePositiveInt :: "string \<Rightarrow> int option" where
  "parsePositiveInt s = (case Atoi s of None \<Rightarrow> None | Some n \<Rightarrow> if n < 1 then None else Some n)"

definition boundedParam :: "string \<Rightarrow> int \<Rightarrow> int \<Rightarrow> int" where
  "boundedParam v most dflt =
     (if v = [] then dflt else case parsePositiveInt v of Some p \<Rightarrow> if p \<le> most then p else dflt | None \<Rightarrow> dflt)"

definition paginationParams :: "query \<Rightarrow> int \<Rightarrow> int \<times> int" where
  "paginationParams q defaultLimit = (boundedParam (q ''page'') 10000 1, boundedParam (q ''limit'') 200 defaultLimit)"

definition totalPages :: "nat \<Rightarrow> int \<Rightarrow> int" where
  "totalPages tot limit =
     (if limit \<le> 0 then 1
      else (let pages = int tot div limit; pages' = (if int tot mod limit > 0 then pages + 1 else pages)
            in if pages' = 0 then 1 else pages'))"

definition limitOffset :: "int \<Rightarrow> int \<Rightarrow> 'a list \<Rightarrow> 'a list" where
  "limitOffset limit offset rows = take (nat limit) (drop (nat offset) rows)"

section \<open>Filters\<close>

definition backslash :: char where "backslash = CHR 0x5C"

definition escapeLike :: "string \<Rightarrow> string" where
  "escapeLike s =
     replaceAll (replaceAll (replaceAll s [backslash] [backslash, backslash]) ''%'' [backslash, CHR ''%'']) ''_'' [backslash, CHR ''_'']"

definition likeParam :: "string \<Rightarrow> string" where
  "likeParam v = ''%'' @ escapeLike v @ ''%''"

definition textMatch :: "string \<Rightarrow> Scan \<Rightarrow> bool" where
  "textMatch v s \<longleftrightarrow> sqlLike (likeParam v) (From s) \<or> sqlLike (likeParam v) (Subject s)"

definition fromDate :: "listing_env \<Rightarrow> query \<Rightarrow> go_time \<Rightarrow> bool" where
  "fromDate E q t = (case if q ''from_date'' = [] then None else le_parseDate E (q ''from_date'') of None \<Rightarrow> True | Some d \<Rightarrow> t \<ge> d)"

definition toDate :: "listing_env \<Rightarrow> query \<Rightarrow> go_time \<Rightarrow> bool" where
  "toDate E q t = (case if q ''to_date'' = [] then None else le_parseDate E (q ''to_date'') of None \<Rightarrow> True | Some d \<Rightarrow> t \<le> d + (hours 24 - second))"

definition buildScanFilters :: "listing_env \<Rightarrow> query \<Rightarrow> Scan \<Rightarrow> bool" where
  "buildScanFilters E q s \<longleftrightarrow>
     (q ''verdict'' \<noteq> [] \<longrightarrow> Verdict s = toUpper (q ''verdict'')) \<and> (q ''q'' \<noteq> [] \<longrightarrow> textMatch (q ''q'') s)
     \<and> fromDate E q (CreatedAt s) \<and> toDate E q (CreatedAt s)"

definition appliedFilters :: "listing_env \<Rightarrow> query \<Rightarrow> (string \<times> string) list" where
  "appliedFilters E q =
     map (\<lambda>k. (k, q k)) (filter (\<lambda>k. q k \<noteq> []) [''verdict'', ''q''])
     @ map (\<lambda>k. (k, q k)) (filter (\<lambda>k. q k \<noteq> [] \<and> le_parseDate E (q k) \<noteq> None) [''from_date'', ''to_date''])"

section \<open>The token of a page\<close>

text \<open>The nonce of the cookie, or a new cookie; \<open>nonce\<close> are the random bytes of this request.\<close>

definition csrfFromRequest :: "hmac \<Rightarrow> Middleware \<Rightarrow> bytes \<Rightarrow> Request \<Rightarrow> string \<times> Cookie list" where
  "csrfFromRequest mac m nonce r =
     (case (case rq_Cookie r csrfCookieName of None \<Rightarrow> None | Some v \<Rightarrow> map_option (\<lambda>i. take i v) (indexByte v CHR ''.'')) of
        Some n \<Rightarrow> (n, [])
      | None \<Rightarrow> (case SetCSRFCookie mac m nonce of (c, n) \<Rightarrow> (n, [c])))"

section \<open>The pages\<close>

record scan_list =
  sl_Total :: nat
  sl_Page :: int
  sl_Limit :: int
  sl_Scans :: "Scan list"

definition ListScans :: "listing_env \<Rightarrow> query \<Rightarrow> db \<Rightarrow> scan_list" where
  "ListScans E q d =
     (let (page, limit) = paginationParams q 50; offset = (page - 1) * limit;
          keep = (\<lambda>s. (q ''status'' \<noteq> [] \<longrightarrow> Status s = toUpper (q ''status'')) \<and> (q ''verdict'' \<noteq> [] \<longrightarrow> Verdict s = toUpper (q ''verdict''))
                    \<and> (q ''account'' \<noteq> [] \<longrightarrow> AccountName s = q ''account'') \<and> (q ''from'' \<noteq> [] \<longrightarrow> sqlLike (likeParam (q ''from'')) (From s))
                    \<and> (q ''subject'' \<noteq> [] \<longrightarrow> sqlLike (likeParam (q ''subject'')) (Subject s)) \<and> (q ''source'' \<noteq> [] \<longrightarrow> Source s = q ''source''));
          rows = filter keep (scans d)
      in \<lparr>sl_Total = countOf E 0 rows, sl_Page = page, sl_Limit = limit, sl_Scans = rowsOf E 1 (limitOffset limit offset (le_newestFirst E rows))\<rparr>)"

record page_view = scan_list +
  pv_Pages :: int
  pv_Filters :: "(string \<times> string) list"

definition filteredPage :: "listing_env \<Rightarrow> query \<Rightarrow> (Scan \<Rightarrow> bool) \<Rightarrow> db \<Rightarrow> page_view" where
  "filteredPage E q base d =
     (let (page, limit) = paginationParams q 50; offset = (page - 1) * limit;
          rows = filter (\<lambda>s. base s \<and> buildScanFilters E q s) (scans d); tot = countOf E 0 rows
      in \<lparr>sl_Total = tot, sl_Page = page, sl_Limit = limit, sl_Scans = rowsOf E 1 (limitOffset limit offset (le_newestFirst E rows)),
          pv_Pages = totalPages tot limit, pv_Filters = appliedFilters E q\<rparr>)"

definition GetQuarantine :: "listing_env \<Rightarrow> query \<Rightarrow> db \<Rightarrow> page_view" where
  "GetQuarantine E q = filteredPage E q (\<lambda>s. Status s = StatusQuarantined)"

definition GetBackfill :: "listing_env \<Rightarrow> query \<Rightarrow> db \<Rightarrow> page_view" where
  "GetBackfill E q = filteredPage E q (\<lambda>s. Source s = SourceBackfill)"

record dashboard_view =
  dv_Scans :: "Scan list"
  dv_Total :: nat
  dv_Quarantined :: nat
  dv_Deleted :: nat
  dv_Last24h :: nat
  dv_Filters :: "(string \<times> string) list"

definition GetDashboard :: "listing_env \<Rightarrow> query \<Rightarrow> db \<Rightarrow> dashboard_view" where
  "GetDashboard E q d =
     \<lparr>dv_Scans = rowsOf E 0 (take 100 (le_newestFirst E (filter (buildScanFilters E q) (scans d)))),
      dv_Total = countOf E 1 (scans d),
      dv_Quarantined = countOf E 2 (filter (\<lambda>s. Status s = StatusQuarantined) (scans d)),
      dv_Deleted = countOf E 3 (filter (\<lambda>s. Status s = StatusDeleted) (scans d)),
      dv_Last24h = countOf E 4 (filter (\<lambda>s. CreatedAt s > le_now E - hours 24) (scans d)),
      dv_Filters = appliedFilters E q\<rparr>"

text \<open>Rows of the audit log with their time, newest first, each with the subject and sender of its message if that still has a row.\<close>

record audit_view =
  av_Rows :: "(AuditLog \<times> go_time \<times> (string \<times> string) option) list"
  av_Total :: nat
  av_Page :: int
  av_Pages :: int

definition GetAuditLog :: "listing_env \<Rightarrow> query \<Rightarrow> (AuditLog \<times> go_time) list \<Rightarrow> db \<Rightarrow> audit_view" where
  "GetAuditLog E q entries d =
     (let (page, limit) = paginationParams q 100; offset = (page - 1) * limit;
          rows = filter (\<lambda>(a, t). (q ''action'' \<noteq> [] \<longrightarrow> al_Action a = toUpper (q ''action'')) \<and> fromDate E q t \<and> toDate E q t) entries;
          tot = countOf E 0 rows
      in \<lparr>av_Rows = rowsOf E 1 (map (\<lambda>(a, t). (a, t, map_option (\<lambda>s. (Subject s, From s)) (rowOf (al_ScanID a) d))) (limitOffset limit offset rows)),
          av_Total = tot, av_Page = page, av_Pages = totalPages tot limit\<rparr>)"

section \<open>Statistics\<close>

definition groupCount :: "listing_env \<Rightarrow> (Scan \<Rightarrow> string list) \<Rightarrow> Scan list \<Rightarrow> (string list \<times> nat) list" where
  "groupCount E key rows = map (\<lambda>k. (k, length (filter (\<lambda>s. key s = k) rows))) (le_groups E (remdups (map key rows)))"

fun strLE :: "string \<Rightarrow> string \<Rightarrow> bool" where
  "strLE [] t = True"
| "strLE (c # s) [] = False"
| "strLE (c # s) (d # t) = ((of_char c :: nat) < of_char d \<or> c = d \<and> strLE s t)"

record stats_view =
  st_VerdictCounts :: "(string list \<times> nat) list"
  st_TopSenders :: "(string list \<times> nat) list"
  st_DailyStats :: "(string \<times> DailyStat) list"
  st_FlowData :: "(string list \<times> nat) list"

text \<open>\<open>dates\<close> are the keys of the table of daily totals in ascending order.\<close>

definition GetStats :: "listing_env \<Rightarrow> string list \<Rightarrow> db \<Rightarrow> stats_view" where
  "GetStats E dates d =
     (let since30d = le_now E - 30 * hours 24; rows = filter (\<lambda>s. CreatedAt s > since30d) (scans d)
      in \<lparr>st_VerdictCounts = rowsOf E 0 (groupCount E (\<lambda>s. [Verdict s]) rows),
          st_TopSenders = rowsOf E 1 (take 10 (sort_key (\<lambda>g. - int (snd g)) (groupCount E (\<lambda>s. [From s]) rows))),
          st_DailyStats = rowsOf E 2 (List.map_filter (\<lambda>dt. map_option (Pair dt) (daily d dt)) (filter (strLE (le_date E since30d)) dates)),
          st_FlowData = rowsOf E 3 (groupCount E (\<lambda>s. [Verdict s, Status s]) rows)\<rparr>)"

section \<open>Single messages\<close>

datatype answer = Failed int | RowFound Scan | RawMessage string string | Preview string

definition GetScan :: "string \<Rightarrow> db \<Rightarrow> answer" where
  "GetScan path d =
     (case scanIDFromPath path of None \<Rightarrow> Failed 400 | Some i \<Rightarrow> (case rowOf i d of None \<Rightarrow> Failed 404 | Some scan \<Rightarrow> RowFound scan))"

text \<open>\<open>sha\<close> is \<^verbatim>\<open>util.SHA256Hex\<close>, \<open>sanitize\<close> is \<^verbatim>\<open>util.ExtractAndSanitizeHTML\<close>.\<close>

definition DownloadEML :: "(string \<Rightarrow> string) \<Rightarrow> string \<Rightarrow> files \<Rightarrow> string \<Rightarrow> db \<Rightarrow> answer" where
  "DownloadEML sha dataDir fs path d =
     (case scanIDFromPath path of
        None \<Rightarrow> Failed 400
      | Some i \<Rightarrow> (case rowOf i d of
          None \<Rightarrow> Failed 404
        | Some scan \<Rightarrow>
            if EMLPath scan = [] then Failed 404
            else (case store_Read dataDir (EMLPath scan) fs of
                    Inl _ \<Rightarrow> Failed 500
                  | Inr raw \<Rightarrow> RawMessage (sha (MessageID scan) @ ''.eml'') raw)))"

definition PreviewHTML :: "(string \<Rightarrow> string) \<Rightarrow> string \<Rightarrow> files \<Rightarrow> string \<Rightarrow> db \<Rightarrow> answer" where
  "PreviewHTML sanitize dataDir fs path d =
     (case scanIDFromPath path of
        None \<Rightarrow> Failed 400
      | Some i \<Rightarrow> (case rowOf i d of
          None \<Rightarrow> Failed 404
        | Some scan \<Rightarrow>
            (let body = (if EMLPath scan = [] then [] else case store_Read dataDir (EMLPath scan) fs of Inl _ \<Rightarrow> [] | Inr raw \<Rightarrow> sanitize raw)
             in Preview (if body = [] then ''<p><em>No content available.</em></p>'' else body))))"

section \<open>The export\<close>

definition exportFilter :: "listing_env \<Rightarrow> query \<Rightarrow> Scan \<Rightarrow> bool" where
  "exportFilter E q s \<longleftrightarrow>
     (q ''verdict'' \<noteq> [] \<longrightarrow> Verdict s = toUpper (q ''verdict'')) \<and> (q ''status'' \<noteq> [] \<longrightarrow> Status s = toUpper (q ''status''))
     \<and> (q ''source'' \<noteq> [] \<longrightarrow> Source s = q ''source'') \<and> (q ''q'' \<noteq> [] \<longrightarrow> textMatch (q ''q'') s)
     \<and> fromDate E q (CreatedAt s) \<and> toDate E q (CreatedAt s)
     \<and> (q ''from_date'' = [] \<and> q ''to_date'' = [] \<longrightarrow> CreatedAt s \<ge> le_now E - 90 * hours 24)"

definition apostrophe :: char where "apostrophe = CHR 0x27"

definition formulaStart :: "string \<Rightarrow> bool" where
  "formulaStart s \<longleftrightarrow> s \<noteq> [] \<and> hd s \<in> {CHR ''='', CHR ''+'', CHR ''-'', CHR ''@'', CHR 0x09, CHR 0x0D}"

definition sanitizeCSVField :: "string \<Rightarrow> string" where
  "sanitizeCSVField s = (if formulaStart s then apostrophe # s else s)"

definition fmtF2 :: "float64 \<Rightarrow> string" where
  "fmtF2 x =
     (let r = nat (roundHalfEven (\<bar>x\<bar> * 100))
      in (if x < 0 then ''-'' else []) @ natStr (r div 100) @ ''.'' @ [digitChar (r div 10 mod 10), digitChar (r mod 10)])"

definition exportHeader :: "string list" where
  "exportHeader = [''ID'', ''Received'', ''From'', ''To'', ''Subject'', ''Verdict'', ''RspamdScore'', ''SPF'', ''DKIM'', ''DMARC'', ''ClamAV'', ''Status'', ''ActionedBy'', ''ActionedAt'']"

definition exportRecord :: "listing_env \<Rightarrow> Scan \<Rightarrow> string list" where
  "exportRecord E s =
     [natStr (ID s), le_rfc3339 E (CreatedAt s), sanitizeCSVField (From s), sanitizeCSVField (To s), sanitizeCSVField (Subject s), Verdict s, fmtF2 (RspamdScore s),
      SPFResult s, DKIMResult s, DMARCResult s, ClamAVStatus s, Status s, sanitizeCSVField (ActionedBy s),
      (case ActionedAt s of None \<Rightarrow> [] | Some t \<Rightarrow> le_rfc3339 E t)]"

text \<open>\<^verbatim>\<open>csv.Writer\<close> of the standard library: \<^verbatim>\<open>unicode.IsSpace\<close> of the first character, the fields that are quoted, the quoting.\<close>

definition dquote :: char where "dquote = CHR 0x22"
definition comma :: char where "comma = CHR 0x2C"
definition newline :: char where "newline = CHR 0x0A"

definition leadingSpace :: "string \<Rightarrow> bool" where
  "leadingSpace f \<longleftrightarrow>
     (case map of_char (take 3 f) :: nat list of
        [] \<Rightarrow> False
      | a # bs \<Rightarrow> a \<in> {9, 10, 11, 12, 13, 32} \<or> a = 0xC2 \<and> take 1 bs \<in> {[0x85], [0xA0]}
          \<or> a # bs \<in> {[0xE1, 0x9A, 0x80], [0xE2, 0x80, 0xA8], [0xE2, 0x80, 0xA9], [0xE2, 0x80, 0xAF], [0xE2, 0x81, 0x9F], [0xE3, 0x80, 0x80]}
          \<or> (\<exists>c \<in> set [0x80 ..< 0x8B]. a # bs = [0xE2, 0x80, c]))"

definition fieldNeedsQuotes :: "string \<Rightarrow> bool" where
  "fieldNeedsQuotes f \<longleftrightarrow>
     f \<noteq> [] \<and> (f = [backslash, CHR ''.''] \<or> (\<exists>c \<in> set f. c \<in> {comma, dquote, CHR 0x0D, newline}) \<or> leadingSpace f)"

fun doubled :: "string \<Rightarrow> string" where
  "doubled [] = []"
| "doubled (c # cs) = (if c = dquote then dquote # dquote # doubled cs else c # doubled cs)"

definition writeField :: "string \<Rightarrow> string" where
  "writeField f = (if fieldNeedsQuotes f then dquote # doubled f @ [dquote] else f)"

fun writeFields :: "string list \<Rightarrow> string" where
  "writeFields [] = [newline]"
| "writeFields [f] = writeField f @ [newline]"
| "writeFields (f # fs) = writeField f @ comma # writeFields fs"

text \<open>The loop over a streamed result: it ends where the connection fails, without an error, and leaves out the rows that cannot be decoded.\<close>

definition streamed :: "listing_env \<Rightarrow> Scan list \<Rightarrow> Scan list" where
  "streamed E rows = filter (\<lambda>s. \<not> le_unscannable E s) (case le_broken E of None \<Rightarrow> rows | Some n \<Rightarrow> take n rows)"

definition Export :: "listing_env \<Rightarrow> query \<Rightarrow> db \<Rightarrow> string result" where
  "Export E q d =
     (if \<not> le_reads E 0 then Inl ''export failed''
      else Inr (concat (map writeFields (exportHeader # map (exportRecord E) (streamed E (take 5000 (le_newestFirst E (filter (exportFilter E q) (scans d)))))))))"

definition defang_reply :: "string \<Rightarrow> string result" where
  "defang_reply raw = (if raw = [] then Inl ''url query param required'' else Inr (DefangURL raw))"

section \<open>Every row is on one page\<close>

lemma Atoi_natStr: "n < 2 ^ 63 \<Longrightarrow> Atoi (natStr n) = Some (int n)"
proof -
  assume n: "n < 2 ^ 63"
  have "hd (natStr n) \<notin> {CHR ''-'', CHR ''+''}"
    using natStr_digits [of n] by (cases "natStr n") (auto simp: isDigit_def)
  then show ?thesis using n natStr_digits [of n] by (simp add: Atoi_def decVal_natStr Let_def)
qed

lemma boundedParam_natStr: "1 \<le> p \<Longrightarrow> p \<le> 10000 \<Longrightarrow> boundedParam (natStr p) 10000 dflt = int p"
  using Atoi_natStr [of p] by (simp add: boundedParam_def parsePositiveInt_def)

lemma boundedParam_range: "1 \<le> dflt \<Longrightarrow> dflt \<le> most \<Longrightarrow> 1 \<le> boundedParam v most dflt \<and> boundedParam v most dflt \<le> most"
  by (auto simp: boundedParam_def parsePositiveInt_def split: option.split)

lemma concat_pages: "concat (map (\<lambda>p. take l (drop ((p - 1) * l) xs)) [1 ..< Suc k]) = take (k * l) xs"
proof (induction k)
  case (Suc k)
  have "concat (map (\<lambda>p. take l (drop ((p - 1) * l) xs)) [1 ..< Suc (Suc k)]) = take (k * l) xs @ take l (drop (k * l) xs)"
    using Suc.IH by simp
  also have "\<dots> = take (Suc k * l) xs" using take_add [of "k * l" l xs] by (simp add: add.commute)
  finally show ?case .
qed simp

lemma totalPages_enough: "limit > 0 \<Longrightarrow> tot \<le> nat (totalPages tot limit) * nat limit" "totalPages tot limit \<ge> 1"
proof -
  define k where "k = (if int tot mod limit > 0 then int tot div limit + 1 else int tot div limit)"
  assume l: "limit > 0"
  have m: "int tot = limit * (int tot div limit) + int tot mod limit" "0 \<le> int tot mod limit" "int tot mod limit < limit" using l by simp_all
  have "int tot \<le> k * limit"
  proof (cases "int tot mod limit > 0")
    case True
    then have "k * limit = limit * (int tot div limit) + limit" by (simp add: k_def algebra_simps)
    then show ?thesis using m by linarith
  next
    case False
    then show ?thesis using m by (simp add: k_def mult.commute)
  qed
  moreover have "0 \<le> k" using l by (auto simp: k_def pos_imp_zdiv_nonneg_iff)
  moreover have "totalPages tot limit = (if k = 0 then 1 else k)" using l by (simp add: totalPages_def k_def Let_def)
  ultimately have "int tot \<le> totalPages tot limit * limit" "1 \<le> totalPages tot limit" using l by auto
  then show "tot \<le> nat (totalPages tot limit) * nat limit" using l by (simp add: nat_mult_distrib [symmetric] nat_le_iff le_nat_iff)
next
  show "totalPages tot limit \<ge> 1"
  proof (cases "limit \<le> 0")
    case False
    then have "0 \<le> int tot div limit" by (simp add: pos_imp_zdiv_nonneg_iff)
    then show ?thesis by (auto simp: totalPages_def Let_def)
  qed (simp add: totalPages_def)
qed

lemma buildScanFilters_page: "buildScanFilters E (q(''page'' := v)) = buildScanFilters E q"
  by (rule ext) (simp add: buildScanFilters_def fromDate_def toDate_def)

lemma filteredPage_pages:
  assumes "le_reads E = (\<lambda>_. True)" and "le_newestFirst E = ord" and "\<And>xs. length (ord xs) = length xs"
    and "pv_Pages (filteredPage E q base d) \<le> 10000"
  shows "concat (map (\<lambda>p. sl_Scans (filteredPage E (q(''page'' := natStr p)) base d)) [1 ..< Suc (nat (pv_Pages (filteredPage E q base d)))])
    = ord (filter (\<lambda>s. base s \<and> buildScanFilters E q s) (scans d))"
proof -
  let ?rows = "ord (filter (\<lambda>s. base s \<and> buildScanFilters E q s) (scans d))" and ?limit = "boundedParam (q ''limit'') 200 50"
  let ?k = "nat (pv_Pages (filteredPage E q base d))"
  have l: "1 \<le> ?limit" using boundedParam_range [of 50 200] by simp
  have k: "pv_Pages (filteredPage E q base d) = totalPages (length ?rows) ?limit"
    using assms(1,3) by (simp add: filteredPage_def paginationParams_def Let_def countOf_def rowsOf_def)
  have "sl_Scans (filteredPage E (q(''page'' := natStr p)) base d) = take (nat ?limit) (drop ((p - 1) * nat ?limit) ?rows)" if "1 \<le> p" "p \<le> ?k" for p
  proof -
    have "nat ((int p - 1) * ?limit) = (p - 1) * nat ?limit" using l that(1) by (simp add: nat_mult_distrib nat_diff_distrib)
    moreover have "boundedParam (natStr p) 10000 1 = int p" using boundedParam_natStr [OF that(1)] that(2) assms(4) by simp
    ultimately show ?thesis
      using assms(1,2) by (simp add: filteredPage_def paginationParams_def Let_def rowsOf_def limitOffset_def buildScanFilters_page)
  qed
  then have "concat (map (\<lambda>p. sl_Scans (filteredPage E (q(''page'' := natStr p)) base d)) [1 ..< Suc ?k])
      = concat (map (\<lambda>p. take (nat ?limit) (drop ((p - 1) * nat ?limit) ?rows)) [1 ..< Suc ?k])"
    by (intro arg_cong [where f = concat] map_cong) auto
  also have "\<dots> = take (?k * nat ?limit) ?rows" by (rule concat_pages)
  also have "\<dots> = ?rows" using totalPages_enough(1) [of ?limit "length ?rows"] l k by simp
  finally show ?thesis .
qed

text \<open>
  Paging loses nothing and repeats nothing: turning the pages of the quarantine view one after the other, from the first to the number of pages that it shows, gives the rows in
  quarantine that pass the filters, each exactly as often as it is in the table, newest first, for every page size that the request asks for.
\<close>

theorem quarantine_pages_complete:
  assumes "le_reads E = (\<lambda>_. True)" and "\<forall>xs. mset (le_newestFirst E xs) = mset xs \<and> sorted_wrt (\<lambda>a b. CreatedAt a \<ge> CreatedAt b) (le_newestFirst E xs)"
    and "pv_Pages (GetQuarantine E q d) \<le> 10000"
    and "shown = concat (map (\<lambda>p. sl_Scans (GetQuarantine E (q(''page'' := natStr p)) d)) [1 ..< Suc (nat (pv_Pages (GetQuarantine E q d)))])"
  shows "mset shown = filter_mset (\<lambda>s. Status s = StatusQuarantined \<and> buildScanFilters E q s) (mset (scans d))
    \<and> sorted_wrt (\<lambda>a b. CreatedAt a \<ge> CreatedAt b) shown"
proof -
  have "shown = le_newestFirst E (filter (\<lambda>s. Status s = StatusQuarantined \<and> buildScanFilters E q s) (scans d))"
    unfolding assms(4) GetQuarantine_def
  proof (rule filteredPage_pages [OF assms(1) refl])
    show "length (le_newestFirst E xs) = length xs" for xs using assms(2) by (blast intro: mset_eq_length)
  qed (use assms(3) in \<open>simp add: GetQuarantine_def\<close>)
  then show ?thesis using assms(2) by simp
qed

section \<open>The search\<close>

lemma replaceAll_absent: "c \<notin> set s \<Longrightarrow> replaceAll s [c] new = s"
  by (induction s) (auto simp: hasPrefix_def)

lemma replaceAll_marks: "c \<in> set s \<Longrightarrow> set new \<subseteq> set (replaceAll s [c] new)"
proof (induction s)
  case (Cons a s)
  then show ?case by (cases "a = c") auto
qed simp

lemma replaceAll_keeps: "x \<in> set s \<Longrightarrow> x \<noteq> c \<Longrightarrow> x \<in> set (replaceAll s [c] new)"
proof (induction s)
  case (Cons a s)
  then show ?case by (cases "a = c") auto
qed simp

lemma sqlLike_prefix: "CHR ''%'' \<notin> set p \<Longrightarrow> CHR ''_'' \<notin> set p \<Longrightarrow> sqlLike (p @ ''%'') s \<longleftrightarrow> hasPrefix (toLower s) (toLower p)"
proof (induction p arbitrary: s)
  case Nil
  have "sqlLike ''%'' s" by (induction s) auto
  then show ?case by (simp add: toLower_def)
next
  case (Cons c p)
  then show ?case by (cases s) (auto simp: toLower_def)
qed

lemma sqlLike_infix:
  assumes "CHR ''%'' \<notin> set p" and "CHR ''_'' \<notin> set p"
  shows "sqlLike (''%'' @ p @ ''%'') s \<longleftrightarrow> contains (toLower s) (toLower p)"
proof
  assume "sqlLike (''%'' @ p @ ''%'') s"
  then obtain pre t where "s = pre @ t" "hasPrefix (toLower t) (toLower p)"
    using sqlLike_percent [of "p @ ''%''" s] sqlLike_prefix [OF assms] by auto
  then show "contains (toLower s) (toLower p)" by (auto simp: contains_iff hasPrefix_iff toLower_append)
next
  assume "contains (toLower s) (toLower p)"
  then obtain u v where uv: "toLower s = u @ toLower p @ v" by (auto simp: contains_iff)
  have "drop (length u) (toLower s) = toLower (drop (length u) s)" by (simp add: toLower_def drop_map)
  then have "toLower (drop (length u) s) = toLower p @ v" using uv by simp
  then have "sqlLike (p @ ''%'') (drop (length u) s)" using sqlLike_prefix [OF assms] by (simp add: hasPrefix_iff)
  moreover have "s = take (length u) s @ drop (length u) s" by simp
  ultimately have "sqlLike (CHR ''%'' # p @ ''%'') s" using sqlLike_percent by blast
  then show "sqlLike (''%'' @ p @ ''%'') s" by simp
qed

text \<open>A pattern with a backslash matches only texts with one: \<^verbatim>\<open>LIKE\<close> has no escape character unless the statement names one.\<close>

lemma lowerChar_backslash: "lowerChar c = backslash \<longleftrightarrow> c = backslash"
proof
  assume l: "lowerChar c = backslash"
  show "c = backslash"
  proof (rule ccontr)
    assume "c \<noteq> backslash"
    then have up: "65 \<le> (of_char c :: nat)" "(of_char c :: nat) \<le> 90" and ch: "backslash = char_of (of_char c + 32 :: nat)"
      using l by (auto simp: lowerChar_def Let_def split: if_splits)
    have "(of_char backslash :: nat) = of_char c + 32" unfolding ch using up by simp
    then show False using up by (simp add: backslash_def)
  qed
qed (simp add: lowerChar_def backslash_def)

lemma sqlLike_backslash: "sqlLike p s \<Longrightarrow> backslash \<in> set p \<Longrightarrow> backslash \<in> set s"
proof (induction p s rule: sqlLike.induct)
  case (3 p ps c cs)
  have "lowerChar backslash = backslash" by (simp add: lowerChar_def backslash_def)
  then have "p = backslash \<Longrightarrow> lowerChar p = lowerChar c \<Longrightarrow> c = backslash" by (metis lowerChar_backslash)
  then show ?case using 3 by (auto simp: backslash_def split: if_splits)
qed (auto simp: backslash_def)

lemma escapeLike_plain: "set v \<inter> {backslash, CHR ''%'', CHR ''_''} = {} \<Longrightarrow> escapeLike v = v"
  by (simp add: escapeLike_def replaceAll_absent)

lemma escapeLike_marked:
  assumes "set v \<inter> {backslash, CHR ''%'', CHR ''_''} \<noteq> {}"
  shows "backslash \<in> set (escapeLike v)"
proof -
  let ?a = "replaceAll v [backslash] [backslash, backslash]"
  let ?b = "replaceAll ?a ''%'' [backslash, CHR ''%'']"
  have ne: "backslash \<noteq> CHR ''%''" "backslash \<noteq> CHR ''_''" by (simp_all add: backslash_def)
  have bs: "backslash \<in> set v \<Longrightarrow> backslash \<in> set ?a" using replaceAll_marks [of backslash v "[backslash, backslash]"] by simp
  have pc: "CHR ''%'' \<in> set v \<Longrightarrow> CHR ''%'' \<in> set ?a" using replaceAll_keeps [of "CHR ''%''" v backslash] ne by auto
  have us: "CHR ''_'' \<in> set v \<Longrightarrow> CHR ''_'' \<in> set ?b"
    using replaceAll_keeps [of "CHR ''_''" v backslash] replaceAll_keeps [of "CHR ''_''" ?a "CHR ''%''"] ne by auto
  have "backslash \<in> set ?a \<or> CHR ''%'' \<in> set ?a \<Longrightarrow> backslash \<in> set ?b"
    using replaceAll_marks [of "CHR ''%''" ?a "[backslash, CHR ''%'']"] replaceAll_keeps [of backslash ?a "CHR ''%''"] ne by auto
  then have "backslash \<in> set ?b \<or> CHR ''_'' \<in> set ?b" using assms bs pc us by auto
  then show ?thesis
    using replaceAll_marks [of "CHR ''_''" ?b "[backslash, CHR ''_'']"] replaceAll_keeps [of backslash ?b "CHR ''_''"] ne by (auto simp: escapeLike_def)
qed

text \<open>
  What the search finds: a text without percent sign, underscore and backslash finds exactly the messages whose sender or subject contains it, whatever the case of letters. A text with one of
  the three finds no message without a backslash, not even one that contains the text: the escapes are added, but the statement does not declare them.
\<close>

theorem search_finds_iff:
  "if set v \<inter> {backslash, CHR ''%'', CHR ''_''} = {}
   then textMatch v s = (contains (toLower (From s)) (toLower v) \<or> contains (toLower (Subject s)) (toLower v))
   else textMatch v s \<longrightarrow> (backslash \<in> set (From s) \<or> backslash \<in> set (Subject s))"
proof (cases "set v \<inter> {backslash, CHR ''%'', CHR ''_''} = {}")
  case True
  then show ?thesis by (simp add: textMatch_def likeParam_def escapeLike_plain sqlLike_infix [simplified])
next
  case False
  then show ?thesis using escapeLike_marked [OF False] sqlLike_backslash [of "likeParam v"] by (auto simp: textMatch_def likeParam_def)
qed

section \<open>The export is read back\<close>

text \<open>A reader of the format, as a machine over the characters: records end with a line feed, a quoted field may hold anything, a doubled quote stands for one.\<close>

datatype csv_mode = Fresh | Plain | Quoted | Closing

fun readCSV :: "csv_mode \<Rightarrow> string \<Rightarrow> string list \<Rightarrow> string \<Rightarrow> string list list option" where
  "readCSV md cur fs [] = (if md = Fresh \<and> fs = [] then Some [] else None)"
| "readCSV md cur fs (c # cs) =
     (if md = Quoted then (if c = dquote then readCSV Closing cur fs cs else readCSV Quoted (cur @ [c]) fs cs)
      else if c = comma then readCSV Fresh [] (fs @ [cur]) cs
      else if c = newline then map_option ((#) (fs @ [cur])) (readCSV Fresh [] [] cs)
      else if c = dquote then (if md = Fresh then readCSV Quoted [] fs cs else if md = Closing then readCSV Quoted (cur @ [dquote]) fs cs else None)
      else if md = Closing then None else readCSV Plain (cur @ [c]) fs cs)"

lemma csv_chars [simp]: "comma \<noteq> dquote" "newline \<noteq> dquote" "comma \<noteq> newline" "dquote \<noteq> comma" "dquote \<noteq> newline" "newline \<noteq> comma"
  by (simp_all add: comma_def dquote_def newline_def)

lemma readCSV_quoted: "readCSV Quoted cur fs (doubled f @ dquote # rest) = readCSV Closing (cur @ f) fs rest"
  by (induction f arbitrary: cur) auto

lemma readCSV_plain:
  "set f \<inter> {comma, dquote, newline} = {} \<Longrightarrow> md = Plain \<or> md = Fresh \<Longrightarrow> cur = [] \<or> md = Plain \<Longrightarrow>
   readCSV md cur fs (f @ rest) = readCSV (if f = [] then md else Plain) (cur @ f) fs rest"
  by (induction f arbitrary: cur md) auto

lemma readCSV_field:
  "readCSV Fresh [] fs (writeField f @ comma # rest) = readCSV Fresh [] (fs @ [f]) rest"
  "readCSV Fresh [] fs (writeField f @ newline # rest) = map_option ((#) (fs @ [f])) (readCSV Fresh [] [] rest)"
proof -
  have plain: "set f \<inter> {comma, dquote, newline} = {}" if "\<not> fieldNeedsQuotes f" using that by (auto simp: fieldNeedsQuotes_def)
  show "readCSV Fresh [] fs (writeField f @ comma # rest) = readCSV Fresh [] (fs @ [f]) rest"
    using readCSV_plain [OF plain, of Fresh "[]" fs "comma # rest"] readCSV_quoted [of "[]" fs f "comma # rest"] by (simp add: writeField_def)
  show "readCSV Fresh [] fs (writeField f @ newline # rest) = map_option ((#) (fs @ [f])) (readCSV Fresh [] [] rest)"
    using readCSV_plain [OF plain, of Fresh "[]" fs "newline # rest"] readCSV_quoted [of "[]" fs f "newline # rest"] by (simp add: writeField_def)
qed

lemma readCSV_record: "r \<noteq> [] \<Longrightarrow> readCSV Fresh [] fs (writeFields r @ rest) = map_option ((#) (fs @ r)) (readCSV Fresh [] [] rest)"
  by (induction r arbitrary: fs rule: writeFields.induct) (simp_all add: readCSV_field)

lemma readCSV_file: "[] \<notin> set rs \<Longrightarrow> readCSV Fresh [] [] (concat (map writeFields rs)) = Some rs"
  by (induction rs) (auto simp: readCSV_record)

lemma sanitizeCSVField_safe: "\<not> formulaStart (sanitizeCSVField s)"
  by (auto simp: sanitizeCSVField_def formulaStart_def apostrophe_def)

text \<open>
  C31. The export can be read back: whatever the texts of the messages contain (commas, quotes, line ends), a reader gets the header and one record of fourteen cells for each of the
  at most 5000 newest rows that pass the filters, and no cell with the sender, recipient, subject or user starts a spreadsheet formula. Rows that the loop could not decode are missing, and so is everything after a failure of the
  connection; with neither, no row is missing. The four cells with the results of authentication and of the virus scanner are the columns as they are.
\<close>

theorem export_reads_back:
  assumes "Export E q d = Inr text" and "rows = take 5000 (le_newestFirst E (filter (exportFilter E q) (scans d)))"
  shows "readCSV Fresh [] [] text = Some (exportHeader # map (exportRecord E) (streamed E rows)) \<and> length rows \<le> 5000
    \<and> (le_broken E = None \<and> (\<forall>s \<in> set rows. \<not> le_unscannable E s) \<longrightarrow> streamed E rows = rows)
    \<and> (\<forall>s \<in> set (streamed E rows). s \<in> set rows \<and> (let cells = exportRecord E s in length cells = 14
         \<and> \<not> formulaStart (cells ! 2) \<and> \<not> formulaStart (cells ! 3) \<and> \<not> formulaStart (cells ! 4) \<and> \<not> formulaStart (cells ! 12)
         \<and> take 4 (drop 7 cells) = [SPFResult s, DKIMResult s, DMARCResult s, ClamAVStatus s]))"
proof -
  have "text = concat (map writeFields (exportHeader # map (exportRecord E) (streamed E rows)))"
    using assms by (simp add: Export_def split: if_splits)
  moreover have "[] \<notin> set (exportHeader # map (exportRecord E) (streamed E rows))" by (auto simp: exportHeader_def exportRecord_def)
  ultimately have "readCSV Fresh [] [] text = Some (exportHeader # map (exportRecord E) (streamed E rows))" by (metis readCSV_file)
  moreover have "set (streamed E rows) \<subseteq> set rows" by (auto simp: streamed_def dest: in_set_takeD split: option.splits)
  moreover have "le_broken E = None \<and> (\<forall>s \<in> set rows. \<not> le_unscannable E s) \<longrightarrow> streamed E rows = rows"
    by (simp add: streamed_def filter_id_conv)
  ultimately show ?thesis using assms(2) by (auto simp: exportRecord_def sanitizeCSVField_safe Let_def)
qed

text \<open>A connection that fails during the export gives a shorter file that reads like a complete one: the error of the loop is not looked at.\<close>

lemma export_truncated_silently:
  assumes "le_reads E 0" and "le_broken E = Some n"
  shows "\<exists>text. Export E q d = Inr text \<and> readCSV Fresh [] [] text
    = Some (exportHeader # map (exportRecord E) (filter (\<lambda>s. \<not> le_unscannable E s) (take n (take 5000 (le_newestFirst E (filter (exportFilter E q) (scans d)))))))"
proof -
  let ?rs = "exportHeader # map (exportRecord E) (filter (\<lambda>s. \<not> le_unscannable E s) (take n (take 5000 (le_newestFirst E (filter (exportFilter E q) (scans d))))))"
  have "[] \<notin> set ?rs" by (auto simp: exportHeader_def exportRecord_def)
  from readCSV_file [OF this] show ?thesis using assms by (simp add: Export_def streamed_def)
qed

text \<open>
  A sender can start a formula through the authentication results: the value after \<^verbatim>\<open>spf=\<close> in a header of the message is stored as it is, and the export does not clean that cell.
\<close>

lemma auth_cell_starts_formula:
  assumes "SPFResult s = extractAuthResult [''mx; spf==cmd''] ''spf'' []"
  shows "exportRecord E s ! 7 = ''=cmd'' \<and> formulaStart (exportRecord E s ! 7)"
proof -
  have "extractAuthResult [''mx; spf==cmd''] ''spf'' [] = ''=cmd''" by code_simp
  then show ?thesis using assms by (simp add: exportRecord_def formulaStart_def)
qed

section \<open>The tokens of pages\<close>

text \<open>The token that a page embeds is accepted: with a new cookie, and with a cookie that is signed with the secret in force.\<close>

lemma page_token_accepted:
  assumes "rq_Cookie r csrfCookieName = None" and "nonce \<noteq> []" and "csrfFromRequest mac m nonce r = (token, [c])"
    and "rq_Cookie r' csrfCookieName = Some (ck_Value c)" and "rq_Header r' csrfHeaderName = token"
  shows "CSRF mac m r' = None"
proof -
  have v: "token = hexEncode nonce" "ck_Value c = hexEncode nonce @ ''.'' @ hexEncode (mac (mw_csrfSecret m) nonce)"
    using assms(1,3) by (auto simp: csrfFromRequest_def SetCSRFCookie_def)
  have "hexEncode nonce \<noteq> []" using hexDecode_encode [of nonce] assms(2) by (cases "hexEncode nonce") auto
  then show ?thesis using v assms(4,5) by (auto simp: CSRF_None)
qed

text \<open>
  A cookie that was signed with an earlier secret is neither accepted nor replaced: the page embeds its nonce without looking at the signature, and no request that carries it passes.
\<close>

lemma stale_cookie_kept:
  assumes "rq_Cookie r csrfCookieName = Some (hexEncode n @ ''.'' @ sig)" and "sig \<noteq> hexEncode (mac (mw_csrfSecret m) n)"
  shows "csrfFromRequest mac m nonce r = (hexEncode n, []) \<and> CSRF mac m r \<noteq> None"
proof
  have dot: "indexByte (hexEncode n @ CHR ''.'' # sig) CHR ''.'' = Some (length (hexEncode n))"
    by (rule indexByte_append [OF hexDecode_no_dot [OF hexDecode_encode]])
  then show "csrfFromRequest mac m nonce r = (hexEncode n, [])" using assms(1) by (simp add: csrfFromRequest_def)
next
  have dot: "indexByte (hexEncode n @ CHR ''.'' # sig) CHR ''.'' = Some (length (hexEncode n))"
    by (rule indexByte_append [OF hexDecode_no_dot [OF hexDecode_encode]])
  show "CSRF mac m r \<noteq> None"
  proof
    assume "CSRF mac m r = None"
    then obtain token n' where t: "hexDecode token = Some n'" and c: "rq_Cookie r csrfCookieName = Some (token @ ''.'' @ hexEncode (mac (mw_csrfSecret m) n'))"
      unfolding CSRF_None by blast
    then have e: "hexEncode n @ CHR ''.'' # sig = token @ CHR ''.'' # hexEncode (mac (mw_csrfSecret m) n')" using assms(1) by simp
    have idx: "indexByte (token @ CHR ''.'' # hexEncode (mac (mw_csrfSecret m) n')) CHR ''.'' = Some (length token)"
      by (rule indexByte_append [OF hexDecode_no_dot [OF t]])
    have len: "length (hexEncode n) = length token" using dot unfolding e idx by simp
    have "hexEncode n = token \<and> CHR ''.'' # sig = CHR ''.'' # hexEncode (mac (mw_csrfSecret m) n')"
      by (rule iffD1 [OF append_eq_append_conv e]) (rule disjI1 [OF len])
    then have tk: "token = hexEncode n" and sg: "sig = hexEncode (mac (mw_csrfSecret m) n')" by simp_all
    have "n' = n" using t unfolding tk by simp
    then show False using sg assms(2) by simp
  qed
qed

section \<open>Statistics add up\<close>

lemma groupCount_sum:
  assumes "\<And>ks. mset (le_groups E ks) = mset ks"
  shows "sum_list (map snd (groupCount E key rows)) = length rows"
proof -
  have "sum_list (map snd (groupCount E key rows)) = sum_mset (image_mset (\<lambda>k. length (filter (\<lambda>s. key s = k) rows)) (mset (le_groups E (remdups (map key rows)))))"
    by (simp add: groupCount_def o_def sum_mset_sum_list [symmetric])
  also have "\<dots> = (\<Sum>k\<in>set (map key rows). length (filter (\<lambda>s. key s = k) rows))"
    using mset_set_set [of "remdups (map key rows)"] by (simp add: assms sum_unfold_sum_mset)
  also have "\<dots> = (\<Sum>k\<in>set (map key rows). count_list (map key rows) k)"
    by (rule sum.cong) (simp_all add: count_list_eq_length_filter filter_map o_def eq_commute)
  also have "\<dots> = length rows" by (metis length_map sum_count_set order_refl finite_set)
  finally show ?thesis .
qed

section \<open>Witnesses\<close>

definition demoListing :: listing_env where
  "demoListing = \<lparr>le_now = 100, le_parseDate = (\<lambda>_. None), le_date = (\<lambda>_. []), le_rfc3339 = (\<lambda>_. ''t''), le_newestFirst = sort_key (\<lambda>s. - CreatedAt s),
     le_groups = id, le_reads = (\<lambda>_. True), le_broken = None, le_unscannable = (\<lambda>_. False)\<rparr>"

definition listedScan :: "nat \<Rightarrow> string \<Rightarrow> Scan" where
  "listedScan i subject = zeroScan\<lparr>ID := i, CreatedAt := int i, Status := StatusQuarantined, Subject := subject\<rparr>"

definition listedDB :: db where
  "listedDB = emptyDB\<lparr>scans := [listedScan 1 ''Big_Sale'', listedScan 2 ''=1+1'', listedScan 3 ''hi'']\<rparr>"

definition twoPerPage :: query where
  "twoPerPage = (\<lambda>k. if k = ''limit'' then ''2'' else [])"

lemma sort_key_newest:
  "mset (sort_key (\<lambda>s. - CreatedAt s) xs) = mset xs \<and> sorted_wrt (\<lambda>a b. CreatedAt a \<ge> CreatedAt b) (sort_key (\<lambda>s. - CreatedAt s) xs)"
  using sorted_sort_key [of "\<lambda>s. - CreatedAt s" xs] by (simp add: sorted_wrt_map)

lemma two_pages: "pv_Pages (GetQuarantine demoListing twoPerPage listedDB) = 2"
  by code_simp

lemma quarantine_pages_complete_witness:
  "mset (concat (map (\<lambda>p. sl_Scans (GetQuarantine demoListing (twoPerPage(''page'' := natStr p)) listedDB)) [1 ..< Suc (nat (pv_Pages (GetQuarantine demoListing twoPerPage listedDB)))]))
   = filter_mset (\<lambda>s. Status s = StatusQuarantined \<and> buildScanFilters demoListing twoPerPage s) (mset (scans listedDB))"
  by (rule quarantine_pages_complete [of demoListing, OF _ _ _ refl, THEN conjunct1]) (simp_all add: two_pages sort_key_newest, simp_all add: demoListing_def sort_key_newest)

lemma search_finds_iff_witness: "textMatch ''SALE'' (listedScan 1 ''Big_Sale'') \<and> \<not> textMatch ''g_s'' (listedScan 1 ''Big_Sale'')"
proof
  have "contains (toLower (Subject (listedScan 1 ''Big_Sale''))) (toLower ''SALE'')" "set ''SALE'' \<inter> {backslash, CHR ''%'', CHR ''_''} = {}" by code_simp+
  then show "textMatch ''SALE'' (listedScan 1 ''Big_Sale'')" using search_finds_iff [of "''SALE''" "listedScan 1 ''Big_Sale''"] by simp
  have "set ''g_s'' \<inter> {backslash, CHR ''%'', CHR ''_''} \<noteq> {}" "backslash \<notin> set (From (listedScan 1 ''Big_Sale''))" "backslash \<notin> set (Subject (listedScan 1 ''Big_Sale''))"
    by code_simp+
  then show "\<not> textMatch ''g_s'' (listedScan 1 ''Big_Sale'')" using search_finds_iff [of "''g_s''" "listedScan 1 ''Big_Sale''"] by (metis (full_types))
qed

definition exportedText :: string where
  "exportedText = (case Export demoListing (\<lambda>_. []) listedDB of Inl _ \<Rightarrow> [] | Inr text \<Rightarrow> text)"

lemma export_reads_back_witness:
  "readCSV Fresh [] [] exportedText
   = Some (exportHeader # map (exportRecord demoListing) (take 5000 (le_newestFirst demoListing (filter (exportFilter demoListing (\<lambda>_. [])) (scans listedDB)))))"
proof -
  have "Export demoListing (\<lambda>_. []) listedDB = Inr exportedText" by (simp add: exportedText_def Export_def demoListing_def)
  from export_reads_back [OF this refl] have "readCSV Fresh [] [] exportedText
    = Some (exportHeader # map (exportRecord demoListing) (streamed demoListing (take 5000 (le_newestFirst demoListing (filter (exportFilter demoListing (\<lambda>_. [])) (scans listedDB))))))"
    by blast
  then show ?thesis by (simp add: streamed_def demoListing_def)
qed

end
