(* ===== verification/Health.thy ===== *)
theory Health
  imports Refinement Database
begin

text \<open>
  The health report of the dashboard with its cache of ten seconds (\<^verbatim>\<open>app/web/handlers/health.go\<close>). A request first looks at the cache under the lock; on a miss it measures without the
  lock and stores its report under the lock, so that several requests may measure at once. The two critical sections are definitions of their own and
  the steps of a relation. What the components answer to a request is the record \<open>probe\<close>.
\<close>

section \<open>The report\<close>

record healthComponent =
  hc_Status :: string
  hc_Error :: string

record yaraHealthComponent =
  yh_Status :: string
  yh_RuleCount :: nat
  yh_LastLoaded :: go_time

record feedsHealthComponent =
  fh_Status :: string
  fh_Counts :: "(string \<times> nat) list"

record healthComponents =
  co_Database :: healthComponent
  co_Rspamd :: healthComponent
  co_ClamAV :: healthComponent
  co_YARA :: yaraHealthComponent
  co_Feeds :: feedsHealthComponent

record statsToday =
  tt_Total :: nat
  tt_Clean :: nat
  tt_Spam :: nat
  tt_Phish :: nat
  tt_Malware :: nat
  tt_Suspicious :: nat

record healthResponse =
  hr_Status :: string
  hr_Version :: string
  hr_UptimeSeconds :: int
  hr_Components :: healthComponents
  hr_StatsToday :: statsToday

text \<open>\<open>pb_stat\<close> is the row of the day, None when there is none or the query fails.\<close>

record probe =
  pb_db :: "error option"
  pb_rspamd :: "error option"
  pb_clamav :: "error option"
  pb_rules :: nat
  pb_loaded :: go_time
  pb_feeds :: "(string \<times> nat) list"
  pb_stat :: "DailyStat option"
  pb_now :: go_time

definition check :: "error option \<Rightarrow> healthComponent" where
  "check err = (case err of None \<Rightarrow> \<lparr>hc_Status = ''healthy'', hc_Error = []\<rparr> | Some _ \<Rightarrow> \<lparr>hc_Status = ''unhealthy'', hc_Error = ''component unreachable''\<rparr>)"

definition statsOf :: "DailyStat option \<Rightarrow> statsToday" where
  "statsOf row =
     (let stat = (case row of None \<Rightarrow> zeroDailyStat | Some s \<Rightarrow> s)
      in \<lparr>tt_Total = ds_Total stat, tt_Clean = ds_Clean stat, tt_Spam = ds_Spam stat, tt_Phish = ds_Phish stat, tt_Malware = ds_Malware stat,
          tt_Suspicious = ds_Suspicious stat\<rparr>)"

definition allHealthy :: "probe \<Rightarrow> bool" where
  "allHealthy p \<longleftrightarrow> pb_db p = None \<and> pb_rspamd p = None \<and> pb_clamav p = None"

definition httpStatus :: "probe \<Rightarrow> int" where
  "httpStatus p = (if allHealthy p then 200 else 503)"

definition measure_health :: "string \<Rightarrow> go_time \<Rightarrow> probe \<Rightarrow> healthResponse" where
  "measure_health version startAt p =
     \<lparr>hr_Status = (if allHealthy p then ''healthy'' else ''degraded''), hr_Version = version, hr_UptimeSeconds = (pb_now p - startAt) div 10 ^ 9,
      hr_Components = \<lparr>co_Database = check (pb_db p), co_Rspamd = check (pb_rspamd p), co_ClamAV = check (pb_clamav p),
         co_YARA = \<lparr>yh_Status = ''healthy'', yh_RuleCount = pb_rules p, yh_LastLoaded = pb_loaded p\<rparr>,
         co_Feeds = \<lparr>fh_Status = ''healthy'', fh_Counts = pb_feeds p\<rparr>\<rparr>,
      hr_StatsToday = statsOf (pb_stat p)\<rparr>"

definition GetLiveness :: "int \<times> string" where
  "GetLiveness = (200, [CHR ''{'', CHR 0x22] @ ''status'' @ [CHR 0x22, CHR '':'', CHR 0x22] @ ''alive'' @ [CHR 0x22, CHR ''}''])"

section \<open>The cache\<close>

record health =
  hh_version :: string
  hh_startAt :: go_time
  hh_cached :: "(int \<times> healthResponse) option"
  hh_cachedAt :: go_time

definition cacheMaxAge :: duration where "cacheMaxAge = 10 * 10 ^ 9"

definition NewHealthHandler :: "string \<Rightarrow> go_time \<Rightarrow> health" where
  "NewHealthHandler version now = \<lparr>hh_version = version, hh_startAt = now, hh_cached = None, hh_cachedAt = 0\<rparr>"

definition cachedReply :: "go_time \<Rightarrow> health \<Rightarrow> (int \<times> healthResponse) option" where
  "cachedReply now h = (if now - hh_cachedAt h < cacheMaxAge then hh_cached h else None)"

definition storeReply :: "go_time \<Rightarrow> probe \<Rightarrow> health \<Rightarrow> health \<times> int \<times> healthResponse" where
  "storeReply now p h =
     (let r = (httpStatus p, measure_health (hh_version h) (hh_startAt h) p) in (h\<lparr>hh_cached := Some r, hh_cachedAt := now\<rparr>, r))"

text \<open>A request that is alone, with the times at which it looks at the cache and at which it stores.\<close>

definition GetHealth :: "go_time \<Rightarrow> probe \<Rightarrow> go_time \<Rightarrow> health \<Rightarrow> health \<times> int \<times> healthResponse" where
  "GetHealth now p now' h = (case cachedReply now h of Some r \<Rightarrow> (h, r) | None \<Rightarrow> storeReply now' p h)"

section \<open>Concurrent requests\<close>

text \<open>\<open>hs_measured\<close> records what was stored and when, \<open>hs_replies\<close> what was answered and when, and \<open>hs_flying\<close> counts the requests that measure.\<close>

record health_state =
  hs_h :: health
  hs_clock :: go_time
  hs_flying :: nat
  hs_measured :: "(go_time \<times> probe) set"
  hs_replies :: "(go_time \<times> int \<times> healthResponse) list"

definition hstart :: "health_state \<Rightarrow> bool" where
  "hstart s \<longleftrightarrow> (\<exists>version now. s = \<lparr>hs_h = NewHealthHandler version now, hs_clock = now, hs_flying = 0, hs_measured = {}, hs_replies = []\<rparr>)"

inductive health_step :: "health_state \<Rightarrow> health_state \<Rightarrow> bool" where
  tick: "t \<ge> hs_clock s \<Longrightarrow> health_step s (s\<lparr>hs_clock := t\<rparr>)"
| hit: "cachedReply (hs_clock s) (hs_h s) = Some r \<Longrightarrow> health_step s (s\<lparr>hs_replies := (hs_clock s, r) # hs_replies s\<rparr>)"
| miss: "cachedReply (hs_clock s) (hs_h s) = None \<Longrightarrow> health_step s (s\<lparr>hs_flying := Suc (hs_flying s)\<rparr>)"
| store: "hs_flying s = Suc n \<Longrightarrow> storeReply (hs_clock s) p (hs_h s) = (h', r) \<Longrightarrow>
    health_step s (s\<lparr>hs_h := h', hs_flying := n, hs_measured := insert (hs_clock s, p) (hs_measured s), hs_replies := (hs_clock s, r) # hs_replies s\<rparr>)"

definition reportOf :: "health \<Rightarrow> probe \<Rightarrow> int \<times> healthResponse" where
  "reportOf h p = (httpStatus p, measure_health (hh_version h) (hh_startAt h) p)"

definition truthful :: "health_state \<Rightarrow> bool" where
  "truthful s \<longleftrightarrow>
     (\<forall>r. hh_cached (hs_h s) = Some r \<longrightarrow> hh_cachedAt (hs_h s) \<le> hs_clock s \<and> (\<exists>p. (hh_cachedAt (hs_h s), p) \<in> hs_measured s \<and> r = reportOf (hs_h s) p))
     \<and> (\<forall>(t, r) \<in> set (hs_replies s). \<exists>t' p. (t', p) \<in> hs_measured s \<and> t' \<le> t \<and> t - t' < cacheMaxAge \<and> r = reportOf (hs_h s) p)"

lemma reportOf_store: "storeReply now p h = (h', r) \<Longrightarrow> r = reportOf h p \<and> reportOf h' = reportOf h \<and> hh_cached h' = Some r \<and> hh_cachedAt h' = now"
  by (auto simp: storeReply_def reportOf_def Let_def fun_eq_iff)

lemma truthful_step:
  assumes "truthful s" and "health_step s s'"
  shows "truthful s'"
  using assms(2)
proof (cases rule: health_step.cases)
  case (tick t)
  then show ?thesis using assms(1) by (fastforce simp: truthful_def)
next
  case (hit r)
  then have "hh_cached (hs_h s) = Some r" "hs_clock s - hh_cachedAt (hs_h s) < cacheMaxAge" by (auto simp: cachedReply_def split: if_splits)
  then show ?thesis using assms(1) hit(1) by (fastforce simp: truthful_def)
next
  case (store n p h' r)
  have pos: "0 < cacheMaxAge" by (simp add: cacheMaxAge_def)
  show ?thesis using assms(1) store(1) reportOf_store [OF store(3)] pos by (fastforce simp: truthful_def)
qed (use assms(1) in \<open>simp add: truthful_def\<close>)

lemma truthful_start: "hstart s \<Longrightarrow> truthful s"
  by (auto simp: hstart_def truthful_def NewHealthHandler_def)

interpretation health_cache: inductive_invariant hstart health_step "\<lambda>_. True" truthful
  by unfold_locales (simp_all add: truthful_start truthful_step)

text \<open>
  The health report is honest: however requests overlap, each answer is a report whose measurement was stored less than ten seconds before, and its code is 503 exactly when the database, Rspamd or
  ClamAV failed in that measurement.
\<close>

theorem health_truthful:
  assumes "reachable hstart health_step s" and "(t, code, report) \<in> set (hs_replies s)"
  shows "\<exists>t' p. (t', p) \<in> hs_measured s \<and> t' \<le> t \<and> t - t' < 10 * 10 ^ 9 \<and> report = measure_health (hh_version (hs_h s)) (hh_startAt (hs_h s)) p
    \<and> code = (if pb_db p = None \<and> pb_rspamd p = None \<and> pb_clamav p = None then 200 else 503)"
proof -
  obtain t' p where "(t', p) \<in> hs_measured s" "t' \<le> t" "t - t' < cacheMaxAge" "(code, report) = reportOf (hs_h s) p"
    using health_cache.holds [OF assms(1)] assms(2) unfolding truthful_def by fastforce
  then show ?thesis by (intro exI [of _ t'] exI [of _ p]) (simp add: reportOf_def httpStatus_def allHealthy_def cacheMaxAge_def)
qed

text \<open>Rules and feeds are always called healthy: a report without any rule and with empty feeds has code 200.\<close>

lemma empty_rules_healthy:
  "pb_db p = None \<Longrightarrow> pb_rspamd p = None \<Longrightarrow> pb_clamav p = None \<Longrightarrow> pb_rules p = 0 \<Longrightarrow> pb_feeds p = [] \<Longrightarrow>
   httpStatus p = 200 \<and> yh_Status (co_YARA (hr_Components (measure_health v t p))) = ''healthy''"
  by (simp add: httpStatus_def allHealthy_def measure_health_def)

section \<open>Witness\<close>

definition downProbe :: probe where
  "downProbe = \<lparr>pb_db = None, pb_rspamd = None, pb_clamav = Some ''down'', pb_rules = 1, pb_loaded = 0, pb_feeds = [], pb_stat = None, pb_now = 5\<rparr>"

definition freshHealth :: health_state where
  "freshHealth = \<lparr>hs_h = NewHealthHandler ''1'' 5, hs_clock = 5, hs_flying = 0, hs_measured = {}, hs_replies = []\<rparr>"

definition answeredHealth :: health_state where
  "answeredHealth = freshHealth\<lparr>hs_h := fst (storeReply 5 downProbe (NewHealthHandler ''1'' 5)), hs_measured := {(5, downProbe)},
     hs_replies := [(5, snd (storeReply 5 downProbe (NewHealthHandler ''1'' 5)))]\<rparr>"

lemma answered_reachable: "reachable hstart health_step answeredHealth"
proof -
  have a: "reachable hstart health_step freshHealth" by (rule reachable.start) (auto simp: hstart_def freshHealth_def)
  have "cachedReply (hs_clock freshHealth) (hs_h freshHealth) = None" by (simp add: freshHealth_def cachedReply_def NewHealthHandler_def)
  from reachable.step [OF a health_step.miss [OF this]] have b: "reachable hstart health_step (freshHealth\<lparr>hs_flying := Suc 0\<rparr>)" by (simp add: freshHealth_def)
  have "health_step (freshHealth\<lparr>hs_flying := Suc 0\<rparr>) answeredHealth"
    using health_step.store [of "freshHealth\<lparr>hs_flying := Suc 0\<rparr>" 0 downProbe "fst (storeReply 5 downProbe (NewHealthHandler ''1'' 5))" "snd (storeReply 5 downProbe (NewHealthHandler ''1'' 5))"]
    by (simp add: freshHealth_def answeredHealth_def)
  then show ?thesis using reachable.step [OF b] by blast
qed

lemma health_truthful_witness: "\<exists>t' p. (t', p) \<in> {(5, downProbe)} \<and> fst (snd (hd (hs_replies answeredHealth)))
    = (if pb_db p = None \<and> pb_rspamd p = None \<and> pb_clamav p = None then 200 else 503)"
  using health_truthful [OF answered_reachable, of 5 "fst (snd (hd (hs_replies answeredHealth)))" "snd (snd (hd (hs_replies answeredHealth)))"]
  by (auto simp: answeredHealth_def)

end
