(* ===== verification/YaraRules.thy ===== *)
theory YaraRules
  imports UrlScanners Refinement "HOL-Library.Multiset"
begin

text \<open>
  The YARA scanner and its rules (\<^verbatim>\<open>app/scanners/yara.go\<close>): scanning, loading and reloading the rule files, the watcher of the rules directory, and the life of compiled rule sets, which
  live outside the garbage collector and are destroyed ten seconds after they are replaced. A compiled set is a handle. The compiler and the matching of the library are arguments.
\<close>

section \<open>The scanner\<close>

type_synonym handle = nat

record yara =
  y_rules :: "handle option"
  y_ruleCount :: nat
  y_lastLoaded :: go_time
  y_rulesDir :: string
  y_enabled :: bool

type_synonym scan_mem = "handle \<Rightarrow> string \<Rightarrow> duration \<Rightarrow> string list result"   \<comment> \<open>\<^verbatim>\<open>ScanMem\<close>: the identifiers of the matching rules\<close>

definition millis :: "int \<Rightarrow> duration" where "millis n = n * 10 ^ 6"

definition yaraMinTimeout :: duration where "yaraMinTimeout = millis 500"

definition maxScanTimeout :: duration where "maxScanTimeout = millis 8000"

definition scanTimeout :: "go_time \<Rightarrow> go_time option \<Rightarrow> duration" where
  "scanTimeout now deadline =
     (case deadline of
        None \<Rightarrow> maxScanTimeout
      | Some dl \<Rightarrow> (let rem = dl - now - millis 50
                    in if rem > 0 \<and> rem < maxScanTimeout then (if rem < yaraMinTimeout then yaraMinTimeout else rem) else maxScanTimeout))"

definition uniqueStrings :: "string list \<Rightarrow> string list" where
  "uniqueStrings ss = rev (fold (\<lambda>s out. if s \<in> set out then out else s # out) ss [])"

fun yaraAttachments :: "(string \<Rightarrow> string list result) \<Rightarrow> Attachment list \<Rightarrow> string list \<Rightarrow> string list result" where
  "yaraAttachments match [] matched = Inr matched"
| "yaraAttachments match (a # as) matched =
     (if at_Raw a = [] then yaraAttachments match as matched
      else (case match (at_Raw a) of Inl e \<Rightarrow> Inl e | Inr names \<Rightarrow> yaraAttachments match as (matched @ names)))"

definition YARA_Scan :: "scan_mem \<Rightarrow> go_time \<Rightarrow> go_time option \<Rightarrow> yara \<Rightarrow> Email \<Rightarrow> ScanResult" where
  "YARA_Scan scanMem now deadline y email =
     (if \<not> y_enabled y then result ''yara'' ''skip'' ''disabled'' None
      else case y_rules y of
        None \<Rightarrow> result ''yara'' ''clean'' ''no rules loaded'' None
      | Some rules \<Rightarrow>
          (let match = (\<lambda>raw. scanMem rules raw (scanTimeout now deadline))
           in case (case match (em_Raw email) of Inl e \<Rightarrow> Inl e | Inr names \<Rightarrow> yaraAttachments match (em_Attachments email) names) of
                Inl e \<Rightarrow> result ''yara'' ''error'' e None
              | Inr matched \<Rightarrow>
                  if matched = [] then result ''yara'' ''clean'' [] None
                  else (let dedup = uniqueStrings matched
                        in result ''yara'' ''malicious'' (strJoin dedup '', '') (Some (marshalStrings dedup)))))"

interpretation yara: scanner "''yara''" "YARA_Scan scanMem now deadline y" for scanMem now deadline y
  by unfold_locales (auto simp: YARA_Scan_def result_def scanVerdicts_def Let_def split: option.split sum.split)

section \<open>Loading rules\<close>

text \<open>
  \<open>rf_walk\<close> lists the files below a directory in the order of \<^verbatim>\<open>WalkDir\<close>, with their contents or the error of opening them. The compiler takes the files added so far; adding one may fail. \<open>rf_rules\<close> builds
  the set of all added files, \<open>rf_size\<close> counts its rules.
\<close>

record rule_files =
  rf_now :: go_time
  rf_compiler :: "error option"
  rf_walk :: "string \<Rightarrow> (string \<times> string result) list"
  rf_add :: "(string \<times> string) list \<Rightarrow> string \<Rightarrow> string \<Rightarrow> error option"
  rf_rules :: "(string \<times> string) list \<Rightarrow> handle result"
  rf_size :: "handle \<Rightarrow> nat"

definition fileBase :: "string \<Rightarrow> string" where
  "fileBase path = (case lastIndexByte path CHR ''/'' of None \<Rightarrow> path | Some i \<Rightarrow> drop (Suc i) path)"

fun compileFiles :: "rule_files \<Rightarrow> (string \<times> string result) list \<Rightarrow> (string \<times> string) list \<Rightarrow> (string \<times> string) list" where
  "compileFiles E [] added = added"
| "compileFiles E ((path, content) # files) added =
     (if \<not> hasSuffix path ''.yar'' then compileFiles E files added
      else (case content of
              Inl _ \<Rightarrow> compileFiles E files added
            | Inr text \<Rightarrow>
                (let namespace = trimSuffix (fileBase path) ''.yar''
                 in compileFiles E files (if rf_add E added text namespace = None then added @ [(text, namespace)] else added))))"

text \<open>The result is the state, the set that is destroyed ten seconds later, and the error.\<close>

definition loadRules :: "rule_files \<Rightarrow> yara \<Rightarrow> yara \<times> handle option \<times> error option" where
  "loadRules E y =
     (case rf_compiler E of
        Some e \<Rightarrow> (y, None, Some e)
      | None \<Rightarrow>
          (let added = compileFiles E (rf_walk E (y_rulesDir y)) []
           in if added = [] then (y\<lparr>y_rules := None, y_ruleCount := 0, y_lastLoaded := rf_now E\<rparr>, None, None)
              else (case rf_rules E added of
                      Inl e \<Rightarrow> (y, None, Some e)
                    | Inr rules \<Rightarrow> (y\<lparr>y_rules := Some rules, y_ruleCount := rf_size E rules, y_lastLoaded := rf_now E\<rparr>, y_rules y, None))))"

definition NewYARA :: "rule_files \<Rightarrow> string \<Rightarrow> yara result" where
  "NewYARA E dir =
     (case loadRules E \<lparr>y_rules = None, y_ruleCount = 0, y_lastLoaded = 0, y_rulesDir = dir, y_enabled = True\<rparr> of
        (y, _, None) \<Rightarrow> Inr y
      | (_, _, Some e) \<Rightarrow> Inl e)"

definition ReloadRules :: "rule_files \<Rightarrow> yara \<Rightarrow> yara \<times> handle option \<times> error option" where
  "ReloadRules = loadRules"

definition SetRulesDir :: "rule_files \<Rightarrow> string \<Rightarrow> yara \<Rightarrow> yara \<times> handle option \<times> error option" where
  "SetRulesDir E dir y = loadRules E (y\<lparr>y_rulesDir := dir\<rparr>)"

definition SetEnabled :: "bool \<Rightarrow> yara \<Rightarrow> yara" where
  "SetEnabled v y = y\<lparr>y_enabled := v\<rparr>"

section \<open>The watcher\<close>

text \<open>A snapshot lists the paths of the rule files with their times; every path occurs once.\<close>

type_synonym snapshot = "(string \<times> go_time) list"

definition ruleModTimes :: "(string \<times> go_time option) list \<Rightarrow> snapshot" where
  "ruleModTimes walk = List.map_filter (\<lambda>(path, info). if hasSuffix path ''.yar'' then map_option (Pair path) info else None) walk"

definition ruleModTimesEqual :: "snapshot \<Rightarrow> snapshot \<Rightarrow> bool" where
  "ruleModTimesEqual a b \<longleftrightarrow> length a = length b \<and> list_all (\<lambda>(k, v). map_of b k = Some v) a"

datatype fs_op = Write | Create | Remove | Rename | Chmod

datatype watch_event = FileEvent string "fs_op set" | PollTick | TimerFires | WatchError

record watch =
  wa_y :: yara
  wa_timer :: "go_time option"
  wa_last :: snapshot
  wa_doomed :: "(handle \<times> go_time) list"     \<comment> \<open>sets that are destroyed, and when\<close>

definition schedule :: "go_time \<Rightarrow> handle option \<Rightarrow> (handle \<times> go_time) list" where
  "schedule now old = (case old of None \<Rightarrow> [] | Some h \<Rightarrow> [(h, now + millis 10000)])"

text \<open>One round of the loop at the time of \<open>E\<close>; \<open>walk\<close> is what the directory looks like when the snapshot is taken.\<close>

definition watchStep :: "rule_files \<Rightarrow> (string \<times> go_time option) list \<Rightarrow> watch_event \<Rightarrow> watch \<Rightarrow> watch" where
  "watchStep E walk ev w =
     (case ev of
        FileEvent name ops \<Rightarrow>
          if hasSuffix name ''.yar'' \<and> (Write \<in> ops \<or> Create \<in> ops \<or> Remove \<in> ops) then w\<lparr>wa_timer := Some (rf_now E + millis 2000)\<rparr> else w
      | PollTick \<Rightarrow>
          if ruleModTimesEqual (wa_last w) (ruleModTimes walk) then w
          else w\<lparr>wa_last := ruleModTimes walk, wa_timer := Some (rf_now E + millis 2000)\<rparr>
      | TimerFires \<Rightarrow>
          (case loadRules E (wa_y w) of
             (y, old, _) \<Rightarrow> w\<lparr>wa_y := y, wa_timer := None, wa_last := ruleModTimes walk, wa_doomed := schedule (rf_now E) old @ wa_doomed w\<rparr>)
      | WatchError \<Rightarrow> w)"

section \<open>What the scanner reports\<close>

lemma yaraAttachments_iff:
  "yaraAttachments match as matched =
     (case List.find (\<lambda>a. at_Raw a \<noteq> [] \<and> \<not> is_ok (match (at_Raw a))) as of
        Some a \<Rightarrow> Inl (projl (match (at_Raw a)))
      | None \<Rightarrow> Inr (matched @ concat (map (\<lambda>a. if at_Raw a = [] then [] else projr (match (at_Raw a))) as)))"
  by (induction as arbitrary: matched) (auto split: sum.split option.split)

lemma uniqueStrings_set: "set (uniqueStrings ss) = set ss" "distinct (uniqueStrings ss)"
proof -
  have "set (fold (\<lambda>s out. if s \<in> set out then out else s # out) ss out) = set ss \<union> set out
      \<and> (distinct out \<longrightarrow> distinct (fold (\<lambda>s out. if s \<in> set out then out else s # out) ss out))" for out
    by (induction ss arbitrary: out) auto
  from this [of "[]"] show "set (uniqueStrings ss) = set ss" "distinct (uniqueStrings ss)" by (simp_all add: uniqueStrings_def)
qed

definition scanned :: "Email \<Rightarrow> string list" where
  "scanned e = em_Raw e # filter (\<lambda>raw. raw \<noteq> []) (map at_Raw (em_Attachments e))"

text \<open>
  The scanner is exact and fails closed: with rules loaded it reports an error if and only if the matching of the message or of an attachment fails, else malicious if and only if a rule matches
  one of them, and the stored matches are then the names of all rules that match, each once.
\<close>

theorem yara_flags_iff:
  fixes scanMem now deadline y e rules match
  assumes "y_enabled y" and "y_rules y = Some rules" and "match = (\<lambda>raw. scanMem rules raw (scanTimeout now deadline))"
  shows "sr_Verdict (YARA_Scan scanMem now deadline y e) =
      (if \<exists>raw \<in> set (scanned e). \<not> is_ok (match raw) then ''error'' else if \<exists>raw \<in> set (scanned e). match raw \<noteq> Inr [] then ''malicious'' else ''clean'')
    \<and> (sr_Verdict (YARA_Scan scanMem now deadline y e) = ''malicious'' \<longrightarrow>
         (\<exists>names. sr_Matches (YARA_Scan scanMem now deadline y e) = Some (marshalStrings names) \<and> distinct names
            \<and> set names = (\<Union>raw \<in> set (scanned e). set (projr (match raw)))))"
proof (cases "\<exists>raw \<in> set (scanned e). \<not> is_ok (match raw)")
  case True
  have "sr_Verdict (YARA_Scan scanMem now deadline y e) = ''error''"
  proof (cases "match (em_Raw e)")
    case (Inr names)
    then obtain a where "a \<in> set (em_Attachments e)" "at_Raw a \<noteq> []" "\<not> is_ok (match (at_Raw a))" using True by (auto simp: scanned_def)
    then have "\<exists>x. yaraAttachments match (em_Attachments e) names = Inl x"
      unfolding yaraAttachments_iff using find_None_iff [of "\<lambda>a. at_Raw a \<noteq> [] \<and> \<not> is_ok (match (at_Raw a))" "em_Attachments e"] by (auto split: option.split)
    then show ?thesis using assms(1,2) Inr by (auto simp: YARA_Scan_def assms(3) result_def Let_def)
  qed (use assms(1,2) in \<open>simp add: YARA_Scan_def assms(3) result_def Let_def\<close>)
  then show ?thesis using True by simp
next
  case ok: False
  obtain names where n: "match (em_Raw e) = Inr names" using ok by (cases "match (em_Raw e)") (auto simp: scanned_def)
  define all where "all = names @ concat (map (\<lambda>a. if at_Raw a = [] then [] else projr (match (at_Raw a))) (em_Attachments e))"
  have "List.find (\<lambda>a. at_Raw a \<noteq> [] \<and> \<not> is_ok (match (at_Raw a))) (em_Attachments e) = None" using ok by (auto simp: find_None_iff scanned_def)
  then have "yaraAttachments match (em_Attachments e) names = Inr all" by (simp add: yaraAttachments_iff all_def)
  then have res: "YARA_Scan scanMem now deadline y e = (if all = [] then result ''yara'' ''clean'' [] None
      else result ''yara'' ''malicious'' (strJoin (uniqueStrings all) '', '') (Some (marshalStrings (uniqueStrings all))))"
    using assms(1,2) n by (simp add: YARA_Scan_def assms(3) Let_def)
  have set_all: "set all = (\<Union>raw \<in> set (scanned e). set (projr (match raw)))" using n by (auto simp: all_def scanned_def split: if_splits)
  have "match raw \<noteq> Inr [] \<longleftrightarrow> set (projr (match raw)) \<noteq> {}" if "raw \<in> set (scanned e)" for raw
    using ok that by (cases "match raw") auto
  then have "all = [] \<longleftrightarrow> \<not> (\<exists>raw \<in> set (scanned e). match raw \<noteq> Inr [])" using set_all by (metis (no_types, lifting) SUP_bot_conv(1) set_empty)
  then show ?thesis using ok res uniqueStrings_set [of all] set_all by (auto simp: result_def)
qed

section \<open>Snapshots\<close>

lemma ruleModTimesEqual_iff:
  assumes "distinct (map fst a)" and "distinct (map fst b)"
  shows "ruleModTimesEqual a b \<longleftrightarrow> map_of a = map_of b"
proof
  have d: "distinct a" "distinct b" using assms by (simp_all add: distinct_map)
  assume eq: "ruleModTimesEqual a b"
  then have "set a \<subseteq> set b" by (auto simp: ruleModTimesEqual_def list_all_iff dest: map_of_SomeD)
  moreover have "card (set a) = card (set b)"
    using eq d by (metis ruleModTimesEqual_def distinct_card)
  ultimately have "set a = set b" by (simp add: card_subset_eq)
  then show "map_of a = map_of b" using assms map_of_inject_set by blast
next
  have d: "distinct a" "distinct b" using assms by (simp_all add: distinct_map)
  assume eq: "map_of a = map_of b"
  then have st: "set a = set b" using assms map_of_inject_set by blast
  then have "length a = length b" using d by (metis distinct_card)
  then show "ruleModTimesEqual a b" using st assms(2) by (auto simp: ruleModTimesEqual_def list_all_iff)
qed

text \<open>
  A change that the poll sees is loaded two seconds later, from the files as they are then; but a change that comes between the loading and the snapshot after it is part of the
  snapshot and not of the rules, and no later poll sees it.
\<close>

lemma change_reloaded:
  assumes "\<not> ruleModTimesEqual (wa_last w) (ruleModTimes walk)"
  shows "wa_timer (watchStep E walk PollTick w) = Some (rf_now E + millis 2000)
    \<and> wa_y (watchStep E' walk' TimerFires (watchStep E walk PollTick w)) = fst (loadRules E' (wa_y w))"
  using assms by (simp add: watchStep_def split: prod.split)

lemma change_missed:
  assumes "w' = watchStep E walk TimerFires w" and "distinct (map fst (ruleModTimes walk))"
  shows "watchStep E' walk PollTick w' = w'"
  using assms ruleModTimesEqual_iff [OF assms(2,2)] by (simp add: watchStep_def split: prod.split)

section \<open>The life of a compiled set\<close>

text \<open>
  Scans hold the handle that they took when they started. A scan is its handle, its start, the number of buffers that are left after the current one and the start of the current one. A buffer takes at most
  \<open>T\<close>, the time limit given to \<^verbatim>\<open>ScanMem\<close>; a message has at most \<open>N\<close> buffers.
\<close>

type_synonym yara_scan = "handle \<times> go_time \<times> nat \<times> go_time"

record life =
  lf_now :: go_time
  lf_rules :: "handle option"
  lf_next :: handle
  lf_due :: "(handle \<times> go_time) set"
  lf_dead :: "handle set"
  lf_scans :: "yara_scan multiset"

definition firstLife :: "life \<Rightarrow> bool" where
  "firstLife s \<longleftrightarrow> s = \<lparr>lf_now = 0, lf_rules = None, lf_next = 0, lf_due = {}, lf_dead = {}, lf_scans = {#}\<rparr>"

inductive life_step :: "duration \<Rightarrow> nat \<Rightarrow> life \<Rightarrow> life \<Rightarrow> bool" for T N where
  pass: "t \<ge> lf_now s \<Longrightarrow> (\<And>h s0 k b. (h, s0, k, b) \<in># lf_scans s \<Longrightarrow> t \<le> b + T) \<Longrightarrow> life_step T N s (s\<lparr>lf_now := t\<rparr>)"
| begin_scan: "lf_rules s = Some h \<Longrightarrow> k < N \<Longrightarrow> life_step T N s (s\<lparr>lf_scans := add_mset (h, lf_now s, k, lf_now s) (lf_scans s)\<rparr>)"
| next_buffer: "lf_scans s = add_mset (h, s0, Suc k, b) ms \<Longrightarrow> life_step T N s (s\<lparr>lf_scans := add_mset (h, s0, k, lf_now s) ms\<rparr>)"
| end_scan: "lf_scans s = add_mset sc ms \<Longrightarrow> life_step T N s (s\<lparr>lf_scans := ms\<rparr>)"
| reload: "life_step T N s (s\<lparr>lf_rules := Some (lf_next s), lf_next := Suc (lf_next s), lf_due := lf_due s \<union> set (schedule (lf_now s) (lf_rules s))\<rparr>)"
| unload: "life_step T N s (s\<lparr>lf_rules := None\<rparr>)"
| destroy: "(h, d) \<in> lf_due s \<Longrightarrow> d \<le> lf_now s \<Longrightarrow> life_step T N s (s\<lparr>lf_dead := insert h (lf_dead s)\<rparr>)"

definition scanOK :: "duration \<Rightarrow> nat \<Rightarrow> life \<Rightarrow> yara_scan \<Rightarrow> bool" where
  "scanOK T N s sc \<longleftrightarrow>
     (case sc of (h, s0, k, b) \<Rightarrow> h < lf_next s \<and> s0 \<le> lf_now s \<and> lf_now s \<le> b + T \<and> b + (int k + 1) * T \<le> s0 + int N * T
        \<and> (\<forall>d. (h, d) \<in> lf_due s \<longrightarrow> s0 + millis 10000 \<le> d))"

definition lifeOK :: "duration \<Rightarrow> nat \<Rightarrow> life \<Rightarrow> bool" where
  "lifeOK T N s \<longleftrightarrow>
     (\<forall>sc. sc \<in># lf_scans s \<longrightarrow> scanOK T N s sc)
     \<and> (\<forall>h. lf_rules s = Some h \<longrightarrow> h < lf_next s \<and> (\<forall>d. (h, d) \<notin> lf_due s))
     \<and> (\<forall>h d. (h, d) \<in> lf_due s \<longrightarrow> h < lf_next s)
     \<and> (\<forall>h \<in> lf_dead s. \<exists>d. (h, d) \<in> lf_due s \<and> d \<le> lf_now s)"

lemma lifeOK_first: "firstLife s \<Longrightarrow> lifeOK T N s"
  by (simp add: firstLife_def lifeOK_def)

lemma scanOK_pass: "scanOK T N s sc \<Longrightarrow> t \<ge> lf_now s \<Longrightarrow> t \<le> snd (snd (snd sc)) + T \<Longrightarrow> scanOK T N (s\<lparr>lf_now := t\<rparr>) sc"
  by (auto simp: scanOK_def)

lemma scanOK_begin:
  assumes "lifeOK T N s" and "lf_rules s = Some h" and "k < N" and "0 \<le> T"
  shows "scanOK T N s (h, lf_now s, k, lf_now s)"
proof -
  have "(int k + 1) * T \<le> int N * T" using assms(3,4) by (intro mult_right_mono) auto
  then show ?thesis using assms by (auto simp: scanOK_def lifeOK_def)
qed

lemma scanOK_next:
  assumes "scanOK T N s (h, s0, Suc k, b)" and "0 \<le> T"
  shows "scanOK T N s (h, s0, k, lf_now s)"
proof -
  have "(int (Suc k) + 1) * T = T + (int k + 1) * T" by (simp add: algebra_simps)
  then show ?thesis using assms by (simp add: scanOK_def)
qed

lemma scanOK_reload:
  "scanOK T N s sc \<Longrightarrow>
   scanOK T N (s\<lparr>lf_rules := Some (lf_next s), lf_next := Suc (lf_next s), lf_due := lf_due s \<union> set (schedule (lf_now s) (lf_rules s))\<rparr>) sc"
  by (cases "lf_rules s") (auto simp: scanOK_def schedule_def)

lemma scanOK_cong: "lf_next s' = lf_next s \<Longrightarrow> lf_now s' = lf_now s \<Longrightarrow> lf_due s' = lf_due s \<Longrightarrow> scanOK T N s' sc = scanOK T N s sc"
  by (simp add: scanOK_def)

lemma lifeOK_step:
  assumes "0 \<le> T" and ok: "lifeOK T N s" and "life_step T N s s'"
  shows "lifeOK T N s'"
  using assms(3)
proof (cases rule: life_step.cases)
  case (pass t)
  have "scanOK T N s' sc" if "sc \<in># lf_scans s" for sc
    using pass that ok by (cases sc) (auto simp: lifeOK_def intro!: scanOK_pass)
  moreover have "\<exists>d. (h, d) \<in> lf_due s \<and> d \<le> t" if "h \<in> lf_dead s" for h
    using ok that pass(2) unfolding lifeOK_def by (meson order_trans)
  ultimately show ?thesis using ok pass(1) by (simp add: lifeOK_def)
next
  case (begin_scan h k)
  have "scanOK T N s' sc \<longleftrightarrow> scanOK T N s sc" for sc by (rule scanOK_cong) (simp_all add: begin_scan(1))
  then show ?thesis using ok scanOK_begin [OF ok begin_scan(2,3) assms(1)] begin_scan(1) by (auto simp: lifeOK_def)
next
  case (next_buffer h s0 k b ms)
  have "scanOK T N s' sc \<longleftrightarrow> scanOK T N s sc" for sc by (rule scanOK_cong) (simp_all add: next_buffer(1))
  moreover have "scanOK T N s (h, s0, Suc k, b)" using ok next_buffer(2) by (simp add: lifeOK_def)
  ultimately show ?thesis using ok scanOK_next [OF _ assms(1)] next_buffer by (auto simp: lifeOK_def)
next
  case (end_scan sc ms)
  have "scanOK T N s' sc \<longleftrightarrow> scanOK T N s sc" for sc by (rule scanOK_cong) (simp_all add: end_scan(1))
  then show ?thesis using ok end_scan by (auto simp: lifeOK_def)
next
  case reload
  have "scanOK T N s' sc" if "scanOK T N s sc" for sc using scanOK_reload [OF that] reload by simp
  then have a: "\<forall>sc. sc \<in># lf_scans s' \<longrightarrow> scanOK T N s' sc" using ok reload by (simp add: lifeOK_def)
  have lt: "h < lf_next s" if "(h, d) \<in> lf_due s'" for h d
    using ok that reload by (auto simp: lifeOK_def schedule_def split: option.splits)
  have b: "h < lf_next s' \<and> (\<forall>d. (h, d) \<notin> lf_due s')" if "lf_rules s' = Some h" for h
    using lt [of h] that reload by auto
  have c: "\<exists>d. (h, d) \<in> lf_due s' \<and> d \<le> lf_now s'" if "h \<in> lf_dead s'" for h
    using ok that reload unfolding lifeOK_def by auto
  have e: "h < lf_next s'" if "(h, d) \<in> lf_due s'" for h d using lt [OF that] reload by simp
  show ?thesis unfolding lifeOK_def by (intro conjI allI impI ballI) (use a b c e in blast)+
next
  case unload
  have "scanOK T N s' sc \<longleftrightarrow> scanOK T N s sc" for sc by (rule scanOK_cong) (simp_all add: unload)
  then show ?thesis using ok unload by (simp add: lifeOK_def)
next
  case (destroy h d)
  have "scanOK T N s' sc \<longleftrightarrow> scanOK T N s sc" for sc by (rule scanOK_cong) (simp_all add: destroy(1))
  then show ?thesis using ok destroy by (auto simp: lifeOK_def)
qed

interpretation rule_life: inductive_invariant firstLife "life_step T N" "\<lambda>_. True" "\<lambda>s. 0 \<le> T \<longrightarrow> lifeOK T N s" for T N
proof
  show "firstLife s \<Longrightarrow> 0 \<le> T \<longrightarrow> lifeOK T N s" for s by (simp add: lifeOK_first)
  show "0 \<le> T \<longrightarrow> lifeOK T N s'" if "0 \<le> T \<longrightarrow> lifeOK T N s" and "life_step T N s s'" for s s'
    using that lifeOK_step by blast
qed simp

text \<open>The limit of one buffer under the deadline of five seconds that the pipeline sets for this scanner.\<close>

definition stageTimeout :: duration where "stageTimeout = millis 5000"

definition bufferLimit :: duration where "bufferLimit = scanTimeout 0 (Some stageTimeout)"

lemma bufferLimit_value: "bufferLimit = millis 4950" "scanTimeout now (Some (now + stageTimeout)) = bufferLimit"
  by (simp_all add: bufferLimit_def scanTimeout_def stageTimeout_def millis_def maxScanTimeout_def yaraMinTimeout_def)

text \<open>
  C30. Rules outlive the scans that use them as long as messages are small: in every interleaving of scans, reloads and destructions, when a message and its attachments together take less than the ten seconds of
  delay, no scan holds a set that has been destroyed; under the deadline of the pipeline this covers messages with at most one attachment.
\<close>

theorem rules_alive_while_scanning:
  assumes "reachable firstLife (life_step T N) s" and "0 \<le> T" and "int N * T < millis 10000" and "(h, s0, k, b) \<in># lf_scans s"
  shows "h \<notin> lf_dead s"
proof
  assume dead: "h \<in> lf_dead s"
  have ok: "lifeOK T N s" using rule_life.holds [OF assms(1)] assms(2) by simp
  then obtain d where d: "(h, d) \<in> lf_due s" "d \<le> lf_now s" using dead unfolding lifeOK_def by blast
  have sc: "scanOK T N s (h, s0, k, b)" using ok assms(4) unfolding lifeOK_def by blast
  have "T \<le> (int k + 1) * T" using assms(2) mult_right_mono [of 1 "int k + 1" T] by simp
  then have "lf_now s \<le> s0 + int N * T" using sc by (simp add: scanOK_def)
  moreover have "s0 + millis 10000 \<le> d" using sc d(1) by (simp add: scanOK_def)
  ultimately show False using d(2) assms(3) by linarith
qed

section \<open>Two attachments are too many\<close>

definition lifeAt :: "int \<Rightarrow> yara_scan multiset \<Rightarrow> handle set \<Rightarrow> life" where
  "lifeAt t sc dead = \<lparr>lf_now = t, lf_rules = Some 1, lf_next = 2, lf_due = {(0, millis 10000)}, lf_dead = dead, lf_scans = sc\<rparr>"

lemma reach_loaded: "reachable firstLife (life_step T 3) (lifeAt 0 {#(0, 0, 2, 0)#} {})"
proof -
  define s0 where "s0 = \<lparr>lf_now = 0, lf_rules = None, lf_next = 0, lf_due = {}, lf_dead = {}, lf_scans = {#}\<rparr>"
  define s1 where "s1 = s0\<lparr>lf_rules := Some 0, lf_next := Suc 0\<rparr>"
  define s2 where "s2 = s1\<lparr>lf_scans := {#(0, 0, 2, 0)#}\<rparr>"
  have "reachable firstLife (life_step T 3) s0" by (rule reachable.start) (simp add: firstLife_def s0_def)
  moreover have "life_step T 3 s0 s1" using life_step.reload [of T 3 s0] by (simp add: s0_def s1_def schedule_def)
  moreover have "life_step T 3 s1 s2" using life_step.begin_scan [of s1 0 2 3 T] by (simp add: s0_def s1_def s2_def)
  moreover have "life_step T 3 s2 (lifeAt 0 {#(0, 0, 2, 0)#} {})"
    using life_step.reload [of T 3 s2] by (simp add: s0_def s1_def s2_def schedule_def lifeAt_def numeral_2_eq_2)
  ultimately show ?thesis by (meson reachable.step)
qed

lemma step_pass: "t \<le> t' \<Longrightarrow> t' \<le> b + T \<Longrightarrow> life_step T 3 (lifeAt t {#(h, s0, k, b)#} dead) (lifeAt t' {#(h, s0, k, b)#} dead)"
  using life_step.pass [of "lifeAt t {#(h, s0, k, b)#} dead" t' T 3] by (simp add: lifeAt_def)

lemma step_next: "life_step T 3 (lifeAt t {#(h, s0, Suc k, b)#} dead) (lifeAt t {#(h, s0, k, t)#} dead)"
  using life_step.next_buffer [of "lifeAt t {#(h, s0, Suc k, b)#} dead" h s0 k b "{#}" T 3] by (simp add: lifeAt_def)

lemma step_destroy: "millis 10000 \<le> t \<Longrightarrow> life_step T 3 (lifeAt t sc {}) (lifeAt t sc {0})"
  using life_step.destroy [of 0 "millis 10000" "lifeAt t sc {}" T 3] by (simp add: lifeAt_def)

text \<open>
  With a message and two attachments the delay is too short: each of the three buffers may take the full limit, the limit is computed once and not reduced by the time already used, and a reload right after
  the start destroys the rules while the third buffer is being scanned.
\<close>

theorem rules_freed_in_use:
  "\<exists>s h s0 k b. reachable firstLife (life_step bufferLimit 3) s \<and> (h, s0, k, b) \<in># lf_scans s \<and> h \<in> lf_dead s"
proof -
  let ?L = "bufferLimit" and ?R = "reachable firstLife (life_step bufferLimit 3)"
  have L: "?L = millis 4950" "0 \<le> ?L" by (simp_all add: bufferLimit_value millis_def)
  have go: "?R s \<Longrightarrow> life_step ?L 3 s s' \<Longrightarrow> ?R s'" for s s' by (rule reachable.step)
  have "?R (lifeAt ?L {#(0, 0, Suc (Suc 0), 0)#} {})"
    by (rule go [of "lifeAt 0 {#(0, 0, 2, 0)#} {}"]) (use reach_loaded step_pass [of 0 ?L 0 ?L 0 0 2 "{}"] L in \<open>simp_all add: numeral_2_eq_2\<close>)
  from go [OF this step_next] have "?R (lifeAt ?L {#(0, 0, Suc 0, ?L)#} {})" .
  from go [OF this step_pass [of ?L "2 * ?L"]] have "?R (lifeAt (2 * ?L) {#(0, 0, Suc 0, ?L)#} {})" using L by simp
  from go [OF this step_next] have "?R (lifeAt (2 * ?L) {#(0, 0, 0, 2 * ?L)#} {})" .
  from go [OF this step_pass [of "2 * ?L" "millis 10000"]] have "?R (lifeAt (millis 10000) {#(0, 0, 0, 2 * ?L)#} {})" by (simp add: L(1) millis_def)
  from go [OF this step_destroy] have r: "?R (lifeAt (millis 10000) {#(0, 0, 0, 2 * ?L)#} {0})" by simp
  show ?thesis by (intro exI conjI) (rule r, simp_all add: lifeAt_def)
qed

section \<open>Loading\<close>

text \<open>Rule files that all fail to compile unload the rules, and the scanner then reports every message as clean.\<close>

lemma compileFiles_broken:
  assumes "\<And>text ns. rf_add E [] text ns \<noteq> None"
  shows "compileFiles E files [] = []"
proof (induction files)
  case (Cons f files)
  obtain path content where f: "f = (path, content)" by force
  have never: "(rf_add E [] t ns = None) = False" for t ns using assms by blast
  show ?case using Cons by (cases content) (simp_all add: f never Let_def)
qed simp

lemma broken_rules_pass_everything:
  assumes "rf_compiler E = None" and "\<And>text ns. rf_add E [] text ns \<noteq> None"
  shows "snd (snd (loadRules E y)) = None \<and> sr_Verdict (YARA_Scan scanMem now deadline (fst (loadRules E y)) e) \<noteq> ''malicious''"
  using assms(1) compileFiles_broken [OF assms(2)] by (simp add: loadRules_def YARA_Scan_def result_def)

text \<open>A failed load keeps the rules that are in force.\<close>

lemma failed_load_keeps: "loadRules E y = (y', old, Some err) \<Longrightarrow> y' = y \<and> old = None"
  by (auto simp: loadRules_def Let_def split: option.splits if_splits sum.splits)

section \<open>Witnesses\<close>

definition demoYara :: yara where
  "demoYara = \<lparr>y_rules = Some 0, y_ruleCount = 1, y_lastLoaded = 0, y_rulesDir = ''/rules'', y_enabled = True\<rparr>"

definition matchX :: scan_mem where
  "matchX h raw limit = Inr (if contains raw ''X'' then [''has_x''] else [])"

lemma yara_flags_iff_witness: "sr_Verdict (YARA_Scan matchX 0 None demoYara (linkEmail\<lparr>em_Raw := ''aXb'', em_Attachments := []\<rparr>)) = ''malicious''"
proof -
  have s: "scanned (linkEmail\<lparr>em_Raw := ''aXb'', em_Attachments := []\<rparr>) = [''aXb'']" by (simp add: scanned_def)
  have m: "matchX 0 ''aXb'' (scanTimeout 0 None) = Inr [''has_x'']" by (simp add: matchX_def) code_simp
  show ?thesis
    using yara_flags_iff [of demoYara 0 "\<lambda>raw. matchX 0 raw (scanTimeout 0 None)" matchX 0 None "linkEmail\<lparr>em_Raw := ''aXb'', em_Attachments := []\<rparr>"] s m
    by (simp add: demoYara_def)
qed

lemma one_scan_reachable:
  "reachable firstLife (life_step bufferLimit 2)
     \<lparr>lf_now = 0, lf_rules = Some 0, lf_next = 1, lf_due = {}, lf_dead = {}, lf_scans = {#(0, 0, 1, 0)#}\<rparr>"
proof -
  define s0 where "s0 = \<lparr>lf_now = 0, lf_rules = None, lf_next = 0, lf_due = {}, lf_dead = {}, lf_scans = {#}\<rparr>"
  define s1 where "s1 = s0\<lparr>lf_rules := Some 0, lf_next := Suc 0\<rparr>"
  have "reachable firstLife (life_step bufferLimit 2) s0" by (rule reachable.start) (simp add: firstLife_def s0_def)
  moreover have "life_step bufferLimit 2 s0 s1" using life_step.reload [of bufferLimit 2 s0] by (simp add: s0_def s1_def schedule_def)
  moreover have "life_step bufferLimit 2 s1 \<lparr>lf_now = 0, lf_rules = Some 0, lf_next = 1, lf_due = {}, lf_dead = {}, lf_scans = {#(0, 0, 1, 0)#}\<rparr>"
    using life_step.begin_scan [of s1 0 1 2 bufferLimit] by (simp add: s0_def s1_def)
  ultimately show ?thesis by (meson reachable.step)
qed

lemma rules_alive_while_scanning_witness:
  "int 2 * bufferLimit < millis 10000 \<and>
   0 \<notin> lf_dead \<lparr>lf_now = 0, lf_rules = Some 0, lf_next = 1, lf_due = {}, lf_dead = {}, lf_scans = {#(0, 0, 1, 0)#}\<rparr>"
proof
  show b: "int 2 * bufferLimit < millis 10000" by (simp add: bufferLimit_value millis_def)
  show "0 \<notin> lf_dead \<lparr>lf_now = 0, lf_rules = Some 0, lf_next = 1, lf_due = {}, lf_dead = {}, lf_scans = {#(0, 0, 1, 0)#}\<rparr>"
    using rules_alive_while_scanning [OF one_scan_reachable, of 0 0 1 0] b by (simp add: bufferLimit_value(1) millis_def)
qed

end
