(* ===== verification/HiddenText.thy ===== *)
theory HiddenText
  imports UrlScanners "HOL-Library.Sublist"
begin

text \<open>
  The detector of hidden text (\<^verbatim>\<open>app/scanners/hiddentextdetect.go\<close>). The regular expressions of the source are terms of a small syntax; \<open>rests\<close> computes what is left after a match, in the order in which the
  engine tries the alternatives, and agrees with a declarative notion of matching. The parser of HTML is an argument that gives the elements with their style and size attributes and text.
\<close>

section \<open>Regular expressions\<close>

text \<open>Literals are in lower case and match without case, as \<^verbatim>\<open>(?i)\<close> says.\<close>

datatype re = Empty | Cls "char \<Rightarrow> bool" | Lit string | Many "char \<Rightarrow> bool" | Between "char \<Rightarrow> bool" nat nat | EndText | Seq re re | Alt re re

fun many :: "(char \<Rightarrow> bool) \<Rightarrow> string \<Rightarrow> string list" where
  "many p [] = [[]]"
| "many p (c # cs) = (if p c then many p cs @ [c # cs] else [c # cs])"

fun rests :: "re \<Rightarrow> string \<Rightarrow> string list" where
  "rests Empty s = [s]"
| "rests (Cls p) s = (case s of [] \<Rightarrow> [] | c # cs \<Rightarrow> if p c then [cs] else [])"
| "rests (Lit w) s = (if hasPrefix (toLower s) w then [drop (length w) s] else [])"
| "rests (Many p) s = many p s"
| "rests (Between p lo hi) s =
     (let n = min hi (length (takeWhile p s)) in if n < lo then [] else map (\<lambda>i. drop i s) (rev [lo ..< Suc n]))"
| "rests EndText s = (if s = [] then [s] else [])"
| "rests (Seq a b) s = concat (map (rests b) (rests a s))"
| "rests (Alt a b) s = rests a s @ rests b s"

definition matchAt :: "re \<Rightarrow> string \<Rightarrow> bool" where
  "matchAt r s \<longleftrightarrow> rests r s \<noteq> []"

text \<open>\<^verbatim>\<open>MatchString\<close> of a pattern without an anchor at its start.\<close>

fun MatchString :: "re \<Rightarrow> string \<Rightarrow> bool" where
  "MatchString r [] = matchAt r []"
| "MatchString r (c # cs) \<longleftrightarrow> matchAt r (c # cs) \<or> MatchString r cs"

text \<open>
  \<^verbatim>\<open>FindStringSubmatch\<close> of a pattern that ends with its group: what precedes the group may depend on being at the start of the text.
\<close>

definition groupAt :: "re \<Rightarrow> re \<Rightarrow> string \<Rightarrow> string option" where
  "groupAt pre grp s =
     (case concat (map (\<lambda>p. map (\<lambda>t. take (length p - length t) p) (rests grp p)) (rests pre s)) of [] \<Rightarrow> None | g # _ \<Rightarrow> Some g)"

fun findGroup :: "bool \<Rightarrow> (bool \<Rightarrow> re) \<Rightarrow> re \<Rightarrow> string \<Rightarrow> string option" where
  "findGroup first pre grp [] = groupAt (pre first) grp []"
| "findGroup first pre grp (c # cs) = (case groupAt (pre first) grp (c # cs) of Some g \<Rightarrow> Some g | None \<Rightarrow> findGroup False pre grp cs)"

section \<open>The patterns\<close>

abbreviation spaces :: re where "spaces \<equiv> Many reSpace"

definition stop :: re where
  "stop = Alt (Cls (\<lambda>c. c = CHR '';'' \<or> reSpace c \<or> c = CHR 0x22 \<or> c = CHR 0x27)) EndText"

definition property :: "string \<Rightarrow> re" where
  "property name = Seq (Lit name) (Seq spaces (Seq (Lit '':'') spaces))"

definition htZeroFontRe :: re where
  "htZeroFontRe = Seq (property ''font-size'') (Seq (Lit ''0'')
     (Seq (Alt (Alt (Lit ''px'') (Alt (Lit ''em'') (Alt (Lit ''rem'') (Alt (Lit ''pt'') (Lit ''%''))))) Empty) stop))"

definition htDisplayNoneRe :: re where
  "htDisplayNoneRe = Seq (property ''display'') (Seq (Lit ''none'') stop)"

definition htVisibilityHiddenRe :: re where
  "htVisibilityHiddenRe = Seq (property ''visibility'') (Seq (Lit ''hidden'') stop)"

definition htOpacityZeroRe :: re where
  "htOpacityZeroRe = Seq (property ''opacity'') (Seq (Lit ''0'')
     (Seq (Alt (Seq (Lit ''.'') (Seq spaces (Many (\<lambda>c. c = CHR ''0'')))) Empty) stop))"

definition isHexDigit :: "char \<Rightarrow> bool" where
  "isHexDigit c \<longleftrightarrow> isDigit c \<or> (let n = of_char (lowerChar c) :: nat in 97 \<le> n \<and> n \<le> 102)"

definition isLetter :: "char \<Rightarrow> bool" where
  "isLetter c \<longleftrightarrow> (let n = of_char (lowerChar c) :: nat in 97 \<le> n \<and> n \<le> 122)"

definition colorPrefix :: "bool \<Rightarrow> re" where
  "colorPrefix first =
     (let sep = Cls (\<lambda>c. c = CHR '';'' \<or> reSpace c) in Seq (if first then Alt Empty sep else sep) (property ''color''))"

definition bgPrefix :: "bool \<Rightarrow> re" where
  "bgPrefix first = Seq (Lit ''background'') (Seq (Alt (Lit ''-color'') Empty) (Seq spaces (Seq (Lit '':'') spaces)))"

definition hexGroup :: re where "hexGroup = Seq (Lit ''#'') (Between isHexDigit 3 8)"

definition namedGroup :: re where "namedGroup = Seq (Cls isLetter) (Many isLetter)"

definition rgbGroup :: re where
  "rgbGroup = Seq (Lit ''rgb'') (Seq (Alt (Lit ''a'') Empty) (Seq (Lit ''('') (Seq (Seq (Cls (\<lambda>c. c \<noteq> CHR '')'')) (Many (\<lambda>c. c \<noteq> CHR '')''))) (Lit '')''))))"

section \<open>Colours\<close>

definition namedColorHex :: "(string \<times> string) list" where
  "namedColorHex =
     [(''white'', ''ffffff''), (''black'', ''000000''), (''red'', ''ff0000''), (''green'', ''008000''), (''blue'', ''0000ff''), (''yellow'', ''ffff00''),
      (''orange'', ''ffa500''), (''purple'', ''800080''), (''gray'', ''808080''), (''grey'', ''808080''), (''silver'', ''c0c0c0''), (''transparent'', ''transparent'')]"

definition extractColorValue :: "string \<Rightarrow> (bool \<Rightarrow> re) \<Rightarrow> string" where
  "extractColorValue style pre =
     (case findGroup True pre hexGroup style of
        Some g \<Rightarrow> g
      | None \<Rightarrow> (case findGroup True pre rgbGroup style of
                  Some g \<Rightarrow> g
                | None \<Rightarrow> (case findGroup True pre namedGroup style of Some g \<Rightarrow> toLower g | None \<Rightarrow> [])))"

definition normalizeHex :: "string \<Rightarrow> string" where
  "normalizeHex hex =
     (case toLower (trimPrefix hex ''#'') of [a, b, c] \<Rightarrow> [a, a, b, b, c, c] | h \<Rightarrow> h)"

definition normalizeColor :: "string \<Rightarrow> string" where
  "normalizeColor c =
     (let c = toLower c
      in case map_of namedColorHex c of
           Some hex \<Rightarrow> hex
         | None \<Rightarrow> if hasPrefix c ''#'' then normalizeHex c else filter (\<lambda>x. \<not> reSpace x) c)"

definition isColorMatch :: "string \<Rightarrow> bool" where
  "isColorMatch style =
     (let fg = extractColorValue style colorPrefix; bg = extractColorValue style bgPrefix
      in fg \<noteq> [] \<and> bg \<noteq> [] \<and> equalFold (normalizeColor fg) (normalizeColor bg))"

section \<open>The scanner\<close>

record element =
  el_style :: "string option"
  el_fontSize :: "string option"      \<comment> \<open>the size attribute of a font element\<close>
  el_text :: string

type_synonym techniques = "(string \<times> nat \<times> string) list"   \<comment> \<open>technique, count, sample\<close>

definition sampleOf :: "string \<Rightarrow> string" where
  "sampleOf t = take 80 (trimSpace t)"

definition recordHit :: "string \<Rightarrow> string \<Rightarrow> techniques \<Rightarrow> techniques" where
  "recordHit technique t counts =
     (if technique \<in> fst ` set counts then map (\<lambda>(k, n, s). if k = technique then (k, Suc n, s) else (k, n, s)) counts
      else counts @ [(technique, 1, sampleOf t)])"

definition styleTechniques :: "string \<Rightarrow> string list" where
  "styleTechniques style =
     map fst (filter (\<lambda>(name, hit). hit style)
       [(''zero_font'', MatchString htZeroFontRe), (''display_none'', MatchString htDisplayNoneRe), (''visibility_hidden'', MatchString htVisibilityHiddenRe),
        (''opacity_zero'', MatchString htOpacityZeroRe), (''color_match'', isColorMatch)])"

definition styledHits :: "element \<Rightarrow> (string \<times> string) list" where
  "styledHits el =
     (case el_style el of
        None \<Rightarrow> []
      | Some style \<Rightarrow> if style = [] \<or> trimSpace (el_text el) = [] then [] else map (\<lambda>tq. (tq, trimSpace (el_text el))) (styleTechniques style))"

definition fontHits :: "element \<Rightarrow> (string \<times> string) list" where
  "fontHits el =
     (case el_fontSize el of
        None \<Rightarrow> []
      | Some sz \<Rightarrow> if trimSpace (el_text el) \<noteq> [] \<and> trimSpace sz \<in> {''0'', ''1''} then [(''zero_font'', trimSpace (el_text el))] else [])"

definition countsOf :: "element list \<Rightarrow> techniques" where
  "countsOf els = fold (\<lambda>(tq, t). recordHit tq t) (concat (map styledHits els) @ concat (map fontHits els)) []"

text \<open>\<open>parse\<close> is the HTML parser, None for an error; \<open>order\<close> the order in which the map is traversed.\<close>

definition HiddenTextDetect_Scan :: "(string \<Rightarrow> element list option) \<Rightarrow> (techniques \<Rightarrow> techniques) \<Rightarrow> bool \<Rightarrow> bool \<Rightarrow> Email \<Rightarrow> ScanResult" where
  "HiddenTextDetect_Scan parse order enabled cancelled email =
     (if \<not> enabled then result ''hiddentextdetect'' ''skip'' ''disabled'' None
      else if em_HTMLBody email = [] then result ''hiddentextdetect'' ''skip'' ''no HTML body'' None
      else if cancelled then result ''hiddentextdetect'' ''skip'' ''context cancelled'' None
      else case parse (em_HTMLBody email) of
        None \<Rightarrow> result ''hiddentextdetect'' ''clean'' [] None
      | Some els \<Rightarrow>
          (let counts = order (countsOf els)
           in if countsOf els = [] then result ''hiddentextdetect'' ''clean'' [] None
              else (result ''hiddentextdetect'' ''suspicious'' (''hidden text: '' @ strJoin (map fst counts) '', '')
                     (Some (JArr (map (\<lambda>(tq, n, s). marshalHiddenTextHit \<lparr>ht_Technique = tq, ht_Count = int n, ht_Sample = s\<rparr>) counts))))\<lparr>sr_Score := 1 / 2\<rparr>))"

interpretation hiddentext: scanner "''hiddentextdetect''" "HiddenTextDetect_Scan parse order enabled cancelled" for parse order enabled cancelled
  by unfold_locales (auto simp: HiddenTextDetect_Scan_def result_def scanVerdicts_def Let_def split: option.split)

section \<open>Matching, declaratively\<close>

text \<open>\<open>matches r s t\<close>: the pattern matches a prefix of \<open>s\<close> and leaves \<open>t\<close>.\<close>

inductive matches :: "re \<Rightarrow> string \<Rightarrow> string \<Rightarrow> bool" where
  Empty: "matches Empty s s"
| Cls: "p c \<Longrightarrow> matches (Cls p) (c # s) s"
| Lit: "toLower u = w \<Longrightarrow> matches (Lit w) (u @ s) s"
| Many: "list_all p u \<Longrightarrow> matches (Many p) (u @ s) s"
| Between: "list_all p u \<Longrightarrow> lo \<le> length u \<Longrightarrow> length u \<le> hi \<Longrightarrow> matches (Between p lo hi) (u @ s) s"
| EndText: "matches EndText [] []"
| Seq: "matches a s t \<Longrightarrow> matches b t v \<Longrightarrow> matches (Seq a b) s v"
| Alt1: "matches a s t \<Longrightarrow> matches (Alt a b) s t"
| Alt2: "matches b s t \<Longrightarrow> matches (Alt a b) s t"

inductive_cases matchesE: "matches Empty s t" "matches (Cls p) s t" "matches (Lit w) s t" "matches (Many p) s t" "matches (Between p lo hi) s t"
  "matches EndText s t" "matches (Seq a b) s t" "matches (Alt a b) s t"

lemma many_iff: "t \<in> set (many p s) \<longleftrightarrow> (\<exists>u. list_all p u \<and> s = u @ t)"
proof (induction s)
  case (Cons c cs)
  have "(\<exists>u. list_all p u \<and> c # cs = u @ t) \<longleftrightarrow> t = c # cs \<or> p c \<and> (\<exists>u. list_all p u \<and> cs = u @ t)"
    by (auto simp: Cons_eq_append_conv)
  then show ?case using Cons by auto
qed auto

lemma between_iff:
  "t \<in> set (rests (Between p lo hi) s) \<longleftrightarrow> (\<exists>u. list_all p u \<and> lo \<le> length u \<and> length u \<le> hi \<and> s = u @ t)"
proof
  assume "t \<in> set (rests (Between p lo hi) s)"
  then have "\<exists>i \<in> {lo ..< Suc (min hi (length (takeWhile p s)))}. t = drop i s" by (auto simp: Let_def simp del: upt_Suc split: if_splits)
  then obtain i where i: "lo \<le> i" "i \<le> hi" "i \<le> length (takeWhile p s)" "t = drop i s" by (auto simp: less_Suc_eq_le)
  have "length (take i s) = i" using i(3) length_takeWhile_le [of p s] by simp
  moreover have "take i s = take i (takeWhile p s)" using i(3) by (metis takeWhile_dropWhile_id take_append diff_is_0_eq take0 append_Nil2)
  then have "list_all p (take i s)" by (auto simp: list_all_iff dest: set_takeWhileD in_set_takeD)
  ultimately show "\<exists>u. list_all p u \<and> lo \<le> length u \<and> length u \<le> hi \<and> s = u @ t" using i by (intro exI [of _ "take i s"]) simp
next
  assume "\<exists>u. list_all p u \<and> lo \<le> length u \<and> length u \<le> hi \<and> s = u @ t"
  then obtain u where u: "list_all p u" "lo \<le> length u" "length u \<le> hi" "s = u @ t" by blast
  have "length u \<le> length (takeWhile p s)" using u(1,4) by (simp add: list_all_iff takeWhile_append2)
  then show "t \<in> set (rests (Between p lo hi) s)" using u by (auto simp: Let_def image_iff simp del: upt_Suc intro!: bexI [of _ "length u"])
qed

lemma rests_iff: "t \<in> set (rests r s) \<longleftrightarrow> matches r s t"
proof (induction r arbitrary: s t)
  case (Lit w)
  show ?case
  proof
    assume "t \<in> set (rests (Lit w) s)"
    then obtain v where "toLower s = w @ v" "t = drop (length w) s" by (auto simp: hasPrefix_iff split: if_splits)
    then have "toLower (take (length w) s) = w" "s = take (length w) s @ t"
      by (simp_all add: toLower_def take_map [symmetric])
    then show "matches (Lit w) s t" by (metis matches.Lit)
  next
    assume "matches (Lit w) s t"
    then show "t \<in> set (rests (Lit w) s)" by (auto elim!: matchesE simp: toLower_def hasPrefix_iff)
  qed
next
  case (Seq a b)
  then show ?case by (auto elim!: matchesE intro: matches.Seq)
next
  case (Alt a b)
  then show ?case by (auto elim!: matchesE intro: matches.Alt1 matches.Alt2)
next
  case (Cls p)
  then show ?case by (cases s) (auto elim: matchesE intro: matches.Cls)
next
  case (Many p)
  then show ?case unfolding rests.simps many_iff by (auto elim: matchesE intro: matches.Many)
next
  case (Between p lo hi)
  then show ?case unfolding between_iff by (auto elim: matchesE intro: matches.Between)
qed (auto elim: matchesE intro: matches.intros)

definition occurs :: "re \<Rightarrow> string \<Rightarrow> bool" where
  "occurs r s \<longleftrightarrow> (\<exists>pre t v. s = pre @ t \<and> matches r t v)"

lemma matchAt_iff: "matchAt r s \<longleftrightarrow> (\<exists>v. matches r s v)"
  unfolding matchAt_def rests_iff [symmetric] by (cases "rests r s") auto

lemma MatchString_iff: "MatchString r s \<longleftrightarrow> occurs r s"
proof (induction s)
  case (Cons c cs)
  have "occurs r (c # cs) \<longleftrightarrow> (\<exists>v. matches r (c # cs) v) \<or> occurs r cs"
    unfolding occurs_def by (metis append_Cons append_Nil Cons_eq_append_conv)
  then show ?case using Cons by (simp add: matchAt_iff)
qed (simp add: occurs_def matchAt_iff)

section \<open>What is flagged\<close>

definition allHits :: "element list \<Rightarrow> (string \<times> string) list" where
  "allHits els = concat (map styledHits els) @ concat (map fontHits els)"

definition countIn :: "techniques \<Rightarrow> string \<Rightarrow> nat" where
  "countIn c k = (case map_of c k of None \<Rightarrow> 0 | Some (n, _) \<Rightarrow> n)"

definition bump :: "string \<Rightarrow> techniques \<Rightarrow> techniques" where
  "bump tq c = map (\<lambda>(k, n, s). if k = tq then (k, Suc n, s) else (k, n, s)) c"

lemma bump_facts: "map_of (bump tq c) k = map_option (\<lambda>(n, s). (if k = tq then Suc n else n, s)) (map_of c k)" "map fst (bump tq c) = map fst c"
  by (induction c) (auto simp: bump_def)

lemma recordHit_bump: "recordHit tq t c = (if tq \<in> set (map fst c) then bump tq c else c @ [(tq, 1, sampleOf t)])"
  by (simp add: recordHit_def bump_def)

lemma recordHit_count: "countIn (recordHit tq t c) k = countIn c k + (if k = tq then 1 else 0)"
proof (cases "tq \<in> set (map fst c)")
  case True
  then obtain n s where "map_of c tq = Some (n, s)" by (metis list.set_map map_of_eq_None_iff not_None_eq surj_pair)
  then show ?thesis using True by (auto simp: recordHit_bump countIn_def bump_facts split: option.split)
next
  case False
  then have "map_of c tq = None" by (simp add: map_of_eq_None_iff)
  then show ?thesis using False by (auto simp: recordHit_bump countIn_def map_add_def split: option.split)
qed

lemma recordHit_keys: "set (map fst (recordHit tq t c)) = insert tq (set (map fst c))" "distinct (map fst c) \<Longrightarrow> distinct (map fst (recordHit tq t c))"
  unfolding recordHit_bump by (cases "tq \<in> set (map fst c)"; simp add: bump_facts(2) insert_absorb del: list.set_map)+

lemma fold_recordHit:
  "distinct (map fst c) \<Longrightarrow>
   distinct (map fst (fold (\<lambda>(tq, t). recordHit tq t) hits c)) \<and> set (map fst (fold (\<lambda>(tq, t). recordHit tq t) hits c)) = set (map fst c) \<union> set (map fst hits)
   \<and> (\<forall>k. countIn (fold (\<lambda>(tq, t). recordHit tq t) hits c) k = countIn c k + length (filter (\<lambda>h. fst h = k) hits))"
proof (induction hits arbitrary: c)
  case (Cons h hits)
  obtain tq t where h: "h = (tq, t)" by force
  show ?case using Cons.IH [OF recordHit_keys(2) [OF Cons.prems, of tq t]] by (simp add: h recordHit_keys(1) [simplified] recordHit_count)
qed simp

lemma countsOf_facts:
  "distinct (map fst (countsOf els))" "fst ` set (countsOf els) = fst ` set (allHits els)" "countIn (countsOf els) k = length (filter (\<lambda>h. fst h = k) (allHits els))"
proof -
  have "countsOf els = fold (\<lambda>(tq, t). recordHit tq t) (allHits els) []" unfolding countsOf_def allHits_def ..
  then show "distinct (map fst (countsOf els))" "fst ` set (countsOf els) = fst ` set (allHits els)"
    "countIn (countsOf els) k = length (filter (\<lambda>h. fst h = k) (allHits els))"
    using fold_recordHit [of "[]" "allHits els"] by (simp_all add: countIn_def [of "[]"])
qed

definition hidesText :: "element \<Rightarrow> bool" where
  "hidesText el \<longleftrightarrow> trimSpace (el_text el) \<noteq> [] \<and>
     ((\<exists>style. el_style el = Some style \<and> style \<noteq> [] \<and> (occurs htZeroFontRe style \<or> occurs htDisplayNoneRe style \<or> occurs htVisibilityHiddenRe style
         \<or> occurs htOpacityZeroRe style \<or> isColorMatch style))
      \<or> (\<exists>sz. el_fontSize el = Some sz \<and> trimSpace sz \<in> {''0'', ''1''}))"

lemma allHits_iff: "allHits els \<noteq> [] \<longleftrightarrow> (\<exists>el \<in> set els. hidesText el)"
  by (auto simp: allHits_def styledHits_def fontHits_def hidesText_def styleTechniques_def MatchString_iff split: option.splits if_splits)

text \<open>
  Hidden text is flagged exactly when it is there: a message whose body parses is suspicious if and only if an element with text has a style in which one of the five techniques occurs, or is a font element of size 0 or 1, and each
  stored hit counts the elements found by its technique, whatever the order in which the table is traversed.
\<close>

theorem hidden_text_flags_iff:
  assumes "parse (em_HTMLBody e) = Some els" and "em_HTMLBody e \<noteq> []" and "\<forall>c. mset (order c) = mset c"
  shows "sr_Verdict (HiddenTextDetect_Scan parse order True False e) = (if \<exists>el \<in> set els. hidesText el then ''suspicious'' else ''clean'')
    \<and> ((\<exists>el \<in> set els. hidesText el) \<longrightarrow>
       (\<exists>hits. sr_Matches (HiddenTextDetect_Scan parse order True False e) = Some (JArr (map marshalHiddenTextHit hits))
          \<and> distinct (map ht_Technique hits) \<and> (\<forall>h \<in> set hits. ht_Count h = int (length (filter (\<lambda>x. fst x = ht_Technique h) (allHits els))))))"
proof -
  have ne: "countsOf els \<noteq> [] \<longleftrightarrow> (\<exists>el \<in> set els. hidesText el)"
    using countsOf_facts(2) [of els] allHits_iff [of els] by (metis image_is_empty set_empty)
  let ?mk = "\<lambda>(tq, n, s). \<lparr>ht_Technique = tq, ht_Count = int n, ht_Sample = s\<rparr>"
  define hits where "hits = map ?mk (order (countsOf els))"
  have set_order: "set (order (countsOf els)) = set (countsOf els)" using assms(3) by (metis mset_eq_setD)
  have "map ht_Technique hits = map fst (order (countsOf els))" by (auto simp: hits_def)
  moreover have "mset (map fst (order (countsOf els))) = mset (map fst (countsOf els))" using assms(3) by simp
  ultimately have d: "distinct (map ht_Technique hits)" using countsOf_facts(1) [of els] by (metis mset_eq_imp_distinct_iff)
  have c: "ht_Count h = int (length (filter (\<lambda>x. fst x = ht_Technique h) (allHits els)))" if h: "h \<in> set hits" for h
  proof -
    obtain tq n s where m: "(tq, n, s) \<in> set (countsOf els)" "h = \<lparr>ht_Technique = tq, ht_Count = int n, ht_Sample = s\<rparr>"
      using h set_order by (auto simp: hits_def)
    then have "countIn (countsOf els) tq = n" using countsOf_facts(1) [of els] by (simp add: countIn_def)
    then show ?thesis using m(2) countsOf_facts(3) [of els tq] by simp
  qed
  have "sr_Matches (HiddenTextDetect_Scan parse order True False e) = Some (JArr (map marshalHiddenTextHit hits))" if "countsOf els \<noteq> []"
    using that assms(1,2) by (simp add: HiddenTextDetect_Scan_def result_def Let_def hits_def o_def split_def)
  moreover have "sr_Verdict (HiddenTextDetect_Scan parse order True False e) = (if countsOf els = [] then ''clean'' else ''suspicious'')"
    using assms(1,2) by (simp add: HiddenTextDetect_Scan_def result_def Let_def)
  ultimately show ?thesis using ne d c by auto
qed

section \<open>Colours\<close>

text \<open>Short and long hexadecimal forms and names are compared, but not with the functional notation.\<close>

lemma color_name_and_hex: "normalizeColor ''#FFF'' = normalizeColor ''White''"
  by code_simp

lemma color_hex_and_function: "normalizeColor ''#fff'' \<noteq> normalizeColor ''rgb(255,255,255)''"
  by code_simp

lemma normalizeHex_short: "normalizeHex [CHR ''#'', a, b, c] = normalizeHex [CHR ''#'', a, a, b, b, c, c]"
  by (simp add: normalizeHex_def trimPrefix_def hasPrefix_def toLower_def)

section \<open>Witness\<close>

definition hiddenBody :: "element list" where
  "hiddenBody = [\<lparr>el_style = Some ''Display : NONE;color:red'', el_fontSize = None, el_text = '' win ''\<rparr>]"

lemma hidden_text_flags_iff_witness:
  "sr_Verdict (HiddenTextDetect_Scan (\<lambda>_. Some hiddenBody) (\<lambda>c. c) True False (linkEmail\<lparr>em_HTMLBody := ''h''\<rparr>)) = ''suspicious''"
proof -
  have m: "MatchString htDisplayNoneRe ''Display : NONE;color:red''" "trimSpace '' win '' \<noteq> []" by code_simp+
  then have "\<exists>el \<in> set hiddenBody. hidesText el" by (simp add: hiddenBody_def hidesText_def MatchString_iff)
  then show ?thesis
    using hidden_text_flags_iff [of "\<lambda>_. Some hiddenBody" "linkEmail\<lparr>em_HTMLBody := ''h''\<rparr>" hiddenBody "\<lambda>c. c"] by simp
qed

end
