(* ===== verification/Migrations.thy ===== *)
theory Migrations
  imports Database
begin

text \<open>
  Schema migrations (\<^verbatim>\<open>app/db/migrations.go\<close>): the list of versions, the one data migration, which rewrites the keys of stored messages, and \<^verbatim>\<open>Migrate\<close>. Creating tables and columns (\<^verbatim>\<open>AutoMigrate\<close>)
  does not touch rows and is an argument that may fail; so are the failures of statements. The table of versions is a list of numbers and notes.
\<close>

section \<open>The migrations\<close>

record schema =
  sc_db :: db
  sc_versions :: "(nat \<times> string) list"
  sc_writes :: nat

text \<open>\<open>mg_auto i\<close> is the answer of \<^verbatim>\<open>AutoMigrate\<close> for the i-th model, \<open>mg_exec\<close> that of the update statement, \<open>mg_read\<close> tells whether the version is read.\<close>

record migrate_env =
  mg_auto :: "nat \<Rightarrow> error option"
  mg_read :: bool
  mg_exec :: "error option"
  mg_faults :: faults

definition scopedUID :: "Scan \<Rightarrow> string" where
  "scopedUID s = MakeAccountUID (AccountName s) (IMAPMailbox s) (IMAPUID s)"

definition migrateV6AccountUIDMailboxScoped :: "error option \<Rightarrow> db \<Rightarrow> db result" where
  "migrateV6AccountUIDMailboxScoped err d =
     (case err of
        Some e \<Rightarrow> Inl e
      | None \<Rightarrow> (let scans' = map (\<lambda>s. s\<lparr>AccountUID := scopedUID s\<rparr>) (scans d)
                 in if distinct (map uidKey scans') then Inr (d\<lparr>scans := scans'\<rparr>) else Inl uniqueViolation))"

record versionedMigration =
  vm_version :: nat
  vm_note :: string
  vm_fn :: "(error option \<Rightarrow> db \<Rightarrow> db result) option"

definition migrations :: "versionedMigration list" where
  "migrations =
     [\<lparr>vm_version = 1, vm_note = ''initial schema'', vm_fn = None\<rparr>,
      \<lparr>vm_version = 2, vm_note = ''add nrd_cache table and resolved_url_hits/nrd_hits columns to scans'', vm_fn = None\<rparr>,
      \<lparr>vm_version = 3, vm_note = ''add html_smuggling_hits and hidden_text_hits columns to scans'', vm_fn = None\<rparr>,
      \<lparr>vm_version = 4, vm_note = ''add malware_bazaar_hashes table and mb_results column on scans'', vm_fn = None\<rparr>,
      \<lparr>vm_version = 5, vm_note = ''add scanned_urls column to scans for retrospective scanning'', vm_fn = None\<rparr>,
      \<lparr>vm_version = 6, vm_note = ''rebuild account_uid as account:mailbox:uid (F-056)'', vm_fn = Some migrateV6AccountUIDMailboxScoped\<rparr>,
      \<lparr>vm_version = 7, vm_note = ''add source column to scans and backfill_days to accounts'', vm_fn = None\<rparr>]"

definition modelCount :: nat where "modelCount = 15"

fun autoMigrate :: "(nat \<Rightarrow> error option) \<Rightarrow> nat list \<Rightarrow> error option" where
  "autoMigrate auto [] = None"
| "autoMigrate auto (i # is) = (case auto i of Some e \<Rightarrow> Some (''automigrate: '' @ e) | None \<Rightarrow> autoMigrate auto is)"

definition currentVersion :: "bool \<Rightarrow> schema \<Rightarrow> nat" where
  "currentVersion readable s = (if readable then fold max (map fst (sc_versions s)) 0 else 0)"

text \<open>\<^verbatim>\<open>tx.Save\<close> of a version: an existing row with the number is overwritten.\<close>

definition saveVersion :: "migrate_env \<Rightarrow> versionedMigration \<Rightarrow> schema \<Rightarrow> schema \<times> error option" where
  "saveVersion E m s =
     (case mg_faults E (sc_writes s) of
        Some e \<Rightarrow> (s\<lparr>sc_writes := Suc (sc_writes s)\<rparr>, Some (''migration v'' @ natStr (vm_version m) @ '': version save: '' @ e))
      | None \<Rightarrow> (s\<lparr>sc_versions := filter (\<lambda>v. fst v \<noteq> vm_version m) (sc_versions s) @ [(vm_version m, vm_note m)], sc_writes := Suc (sc_writes s)\<rparr>, None))"

definition runFn :: "migrate_env \<Rightarrow> versionedMigration \<Rightarrow> db \<Rightarrow> db result" where
  "runFn E m d = (case vm_fn m of None \<Rightarrow> Inr d | Some fn \<Rightarrow> fn (mg_exec E) d)"

fun applyMigrations :: "migrate_env \<Rightarrow> versionedMigration list \<Rightarrow> nat \<Rightarrow> schema \<Rightarrow> schema \<times> error option" where
  "applyMigrations E [] current s = (s, None)"
| "applyMigrations E (m # ms) current s =
     (if vm_version m \<le> current then applyMigrations E ms current s
      else (case runFn E m (sc_db s) of
              Inl e \<Rightarrow> (s, Some (''migration v'' @ natStr (vm_version m) @ '' ('' @ vm_note m @ ''): '' @ e))
            | Inr d \<Rightarrow> (case saveVersion E m (s\<lparr>sc_db := d\<rparr>) of
                         (s', Some e) \<Rightarrow> (s', Some e)
                       | (s', None) \<Rightarrow> applyMigrations E ms (vm_version m) s')))"

definition Migrate :: "migrate_env \<Rightarrow> schema \<Rightarrow> schema \<times> error option" where
  "Migrate E s =
     (case autoMigrate (mg_auto E) [0 ..< modelCount] of
        Some e \<Rightarrow> (s, Some e)
      | None \<Rightarrow> applyMigrations E migrations (currentVersion (mg_read E) s) s)"

section \<open>What a run does\<close>

definition quietMigrate :: migrate_env where
  "quietMigrate = \<lparr>mg_auto = (\<lambda>_. None), mg_read = True, mg_exec = None, mg_faults = (\<lambda>_. None)\<rparr>"

definition rekeyed :: "db \<Rightarrow> db" where
  "rekeyed d = d\<lparr>scans := map (\<lambda>s. s\<lparr>AccountUID := scopedUID s\<rparr>) (scans d)\<rparr>"

lemma rekeyed_idem [simp]: "rekeyed (rekeyed d) = rekeyed d"
  by (simp add: rekeyed_def scopedUID_def o_def)

lemma V6_ok: "migrateV6AccountUIDMailboxScoped None d = Inr d' \<longleftrightarrow> d' = rekeyed d \<and> distinct (map uidKey (scans (rekeyed d)))"
  by (auto simp: migrateV6AccountUIDMailboxScoped_def rekeyed_def Let_def)

lemma V6_cases: "migrateV6AccountUIDMailboxScoped err d = Inr d' \<Longrightarrow> d' = rekeyed d"
  by (auto simp: migrateV6AccountUIDMailboxScoped_def rekeyed_def Let_def split: option.splits if_splits)

lemma migrations_fn: "m \<in> set migrations \<Longrightarrow> vm_fn m = None \<or> vm_fn m = Some migrateV6AccountUIDMailboxScoped"
  by (auto simp: migrations_def)

lemma fold_max_iff: "n \<le> fold max xs a \<longleftrightarrow> n \<le> a \<or> (\<exists>x \<in> set xs. n \<le> x)" for n :: nat
  by (induction xs arbitrary: a) (auto simp: le_max_iff_disj)

lemma currentVersion_ge: "0 < n \<Longrightarrow> n \<le> currentVersion True s \<longleftrightarrow> (\<exists>v \<in> set (sc_versions s). n \<le> fst v)"
  by (auto simp: currentVersion_def fold_max_iff)

text \<open>
  The invariant of a database between starts: once version 6 or a later one is recorded, the keys are scoped. It says nothing of a database before version 6. The running program keeps it except
  by a move for which the server reports no new UID: the row then names the new mailbox under its old key.
\<close>

definition migratedOK :: "schema \<Rightarrow> bool" where
  "migratedOK s \<longleftrightarrow> ((\<exists>v \<in> set (sc_versions s). 6 \<le> fst v) \<longrightarrow> rekeyed (sc_db s) = sc_db s)"

definition sixth :: "versionedMigration \<Rightarrow> bool" where
  "sixth m \<longleftrightarrow> vm_fn m \<noteq> None"

lemma runFn_Inr: "m \<in> set migrations \<Longrightarrow> runFn E m d = Inr d' \<Longrightarrow> d' = (if sixth m then rekeyed d else d)"
  using migrations_fn [of m] V6_cases by (auto simp: runFn_def sixth_def)

lemma saveVersion_cases:
  "saveVersion E m s = (s', err) \<Longrightarrow>
   sc_db s' = sc_db s \<and> (\<forall>v \<in> set (sc_versions s'). v \<in> set (sc_versions s) \<or> fst v = vm_version m) \<and> (err = None \<longrightarrow> (vm_version m, vm_note m) \<in> set (sc_versions s'))"
  by (auto simp: saveVersion_def split: option.splits)

lemma saveVersion_keeps: "saveVersion E m s = (s', err) \<Longrightarrow> fst ` set (sc_versions s) \<subseteq> fst ` set (sc_versions s')"
  by (auto simp: saveVersion_def image_iff split: option.splits)

lemma apply_keeps: "applyMigrations E ms current s = (s', err) \<Longrightarrow> fst ` set (sc_versions s) \<subseteq> fst ` set (sc_versions s')"
proof (induction ms arbitrary: current s)
  case (Cons m ms)
  show ?case
  proof (cases "vm_version m \<le> current")
    case True
    then show ?thesis using Cons by simp
  next
    case new: False
    show ?thesis
    proof (cases "runFn E m (sc_db s)")
      case (Inl e)
      then show ?thesis using Cons.prems new by auto
    next
      case (Inr d)
      obtain s1 er where sv: "saveVersion E m (s\<lparr>sc_db := d\<rparr>) = (s1, er)" by force
      have "fst ` set (sc_versions s) \<subseteq> fst ` set (sc_versions s1)" using saveVersion_keeps [OF sv] by simp
      then show ?thesis using Cons.IH [of "vm_version m" s1] Cons.prems new Inr sv by (cases er) auto
    qed
  qed
qed simp

lemma sixth_version: "m \<in> set migrations \<Longrightarrow> sixth m \<longleftrightarrow> vm_version m = 6"
  by (auto simp: migrations_def sixth_def)

text \<open>
  A run that may stop anywhere leaves the rows as they were or with scoped keys, and keeps the invariant. In the loop, either version 6 is behind or it is still to come.
\<close>

lemma apply_safe:
  assumes "set ms \<subseteq> set migrations" and "sorted_wrt (\<lambda>a b. vm_version a < vm_version b) ms" and "6 \<le> current \<or> (\<exists>m \<in> set ms. sixth m)"
    and "6 \<le> current \<longrightarrow> rekeyed (sc_db s) = sc_db s" and "migratedOK s" and "applyMigrations E ms current s = (s', err)"
  shows "migratedOK s' \<and> sc_db s' \<in> {sc_db s, rekeyed (sc_db s)} \<and> (err = None \<longrightarrow> rekeyed (sc_db s') = sc_db s' \<and> (\<forall>m \<in> set ms. current < vm_version m \<longrightarrow> vm_version m \<in> fst ` set (sc_versions s')))"
  using assms
proof (induction ms arbitrary: current s)
  case (Cons m ms)
  have mig: "m \<in> set migrations" "set ms \<subseteq> set migrations" and srt: "sorted_wrt (\<lambda>a b. vm_version a < vm_version b) ms" "\<forall>m' \<in> set ms. vm_version m < vm_version m'"
    using Cons.prems(1,2) by auto
  show ?case
  proof (cases "vm_version m \<le> current")
    case True
    then have "6 \<le> current \<or> (\<exists>m \<in> set ms. sixth m)" using Cons.prems(3) sixth_version [OF mig(1)] by auto
    then show ?thesis using Cons.IH [OF mig(2) srt(1) _ Cons.prems(4,5)] Cons.prems(6) True by auto
  next
    case new: False
    show ?thesis
    proof (cases "runFn E m (sc_db s)")
      case (Inl e)
      then show ?thesis using Cons.prems(5,6) new by auto
    next
      case (Inr d)
      have d: "d = (if sixth m then rekeyed (sc_db s) else sc_db s)" by (rule runFn_Inr [OF mig(1) Inr])
      have behind: "rekeyed d = d" if "6 \<le> vm_version m"
      proof (cases "sixth m")
        case False
        then have "6 < vm_version m" using that sixth_version [OF mig(1)] by auto
        then have "\<not> (\<exists>m' \<in> set ms. sixth m')" using srt(2) sixth_version mig(2) by fastforce
        then show ?thesis using Cons.prems(3,4) d False by auto
      qed (simp add: d)
      obtain s1 er where sv: "saveVersion E m (s\<lparr>sc_db := d\<rparr>) = (s1, er)" by force
      have s1: "sc_db s1 = d" "\<forall>v \<in> set (sc_versions s1). v \<in> set (sc_versions s) \<or> fst v = vm_version m"
        "er = None \<longrightarrow> vm_version m \<in> fst ` set (sc_versions s1)" using saveVersion_cases [OF sv] by force+
      have old: "rekeyed d = d" if "\<exists>v \<in> set (sc_versions s). 6 \<le> fst v" using Cons.prems(5) that d by (auto simp: migratedOK_def)
      have ok1: "migratedOK s1" unfolding migratedOK_def s1(1) using s1(2) behind old by metis
      have db1: "d \<in> {sc_db s, rekeyed (sc_db s)}" by (simp add: d)
      show ?thesis
      proof (cases er)
        case (Some e)
        then show ?thesis using Cons.prems(6) new Inr sv ok1 db1 s1(1) by auto
      next
        case None
        have next6: "6 \<le> vm_version m \<or> (\<exists>m \<in> set ms. sixth m)" using Cons.prems(3) new sixth_version [OF mig(1)] by auto
        have "6 \<le> vm_version m \<longrightarrow> rekeyed (sc_db s1) = sc_db s1" using behind s1(1) by simp
        moreover have run: "applyMigrations E ms (vm_version m) s1 = (s', err)" using Cons.prems(6) new Inr sv None by simp
        ultimately have ih: "migratedOK s' \<and> sc_db s' \<in> {d, rekeyed d} \<and> (err = None \<longrightarrow> rekeyed (sc_db s') = sc_db s'
            \<and> (\<forall>m' \<in> set ms. vm_version m < vm_version m' \<longrightarrow> vm_version m' \<in> fst ` set (sc_versions s')))"
          using Cons.IH [OF mig(2) srt(1) next6 _ ok1] s1(1) by simp
        have kept: "vm_version m \<in> fst ` set (sc_versions s')" if "err = None"
          using s1(3) None apply_keeps [OF run] by blast
        show ?thesis using ih kept srt(2) db1 by (cases "sixth m") (auto simp: d)
      qed
    qed
  qed
qed auto

lemma migrations_order: "sorted_wrt (\<lambda>a b. vm_version a < vm_version b) migrations" "\<exists>m \<in> set migrations. sixth m" "\<exists>m \<in> set migrations. vm_version m = 7"
  by (simp_all add: migrations_def sixth_def)

lemma Migrate_safe:
  assumes "migratedOK s" and "Migrate E s = (s', err)"
  shows "migratedOK s' \<and> sc_db s' \<in> {sc_db s, rekeyed (sc_db s)} \<and> (err = None \<longrightarrow> rekeyed (sc_db s') = sc_db s' \<and> 7 \<le> currentVersion True s')"
proof (cases "autoMigrate (mg_auto E) [0 ..< modelCount]")
  case (Some e)
  then show ?thesis using assms by (auto simp: Migrate_def)
next
  case None
  let ?cur = "currentVersion (mg_read E) s"
  have run: "applyMigrations E migrations ?cur s = (s', err)" using assms(2) None by (simp add: Migrate_def)
  have scoped: "6 \<le> ?cur \<longrightarrow> rekeyed (sc_db s) = sc_db s"
    using assms(1) currentVersion_ge [of 6 s] by (auto simp: migratedOK_def currentVersion_def)
  have safe: "migratedOK s' \<and> sc_db s' \<in> {sc_db s, rekeyed (sc_db s)} \<and> (err = None \<longrightarrow> rekeyed (sc_db s') = sc_db s'
      \<and> (\<forall>m \<in> set migrations. ?cur < vm_version m \<longrightarrow> vm_version m \<in> fst ` set (sc_versions s')))"
    by (rule apply_safe [OF order_refl migrations_order(1) disjI2 [OF migrations_order(2)] scoped assms(1) run])
  have "7 \<le> currentVersion True s'" if "err = None"
  proof (cases "?cur < 7")
    case True
    then have "7 \<in> fst ` set (sc_versions s')" using safe that migrations_order(3) by metis
    then show ?thesis using currentVersion_ge [of 7 s'] by force
  next
    case False
    then have "\<exists>v \<in> set (sc_versions s). 7 \<le> fst v" using currentVersion_ge [of 7 s] by (auto simp: currentVersion_def split: if_splits)
    then show ?thesis using apply_keeps [OF run] currentVersion_ge [of 7 s'] by fastforce
  qed
  then show ?thesis using safe by blast
qed

text \<open>
  C38. Migrations survive crashes: from a database whose keys are scoped once version 6 is recorded, after any number of starts that fail at any point (while creating tables, in the update, or between the update and the record of the version), a start that succeeds leaves exactly the rows
  with keys that name their account, mailbox and number, as one undisturbed migration would, and version 7 is recorded.
\<close>

theorem migrate_crash_safe:
  assumes "migratedOK s" and "Migrate E (fold (\<lambda>E t. fst (Migrate E t)) Es s) = (s', None)"
  shows "sc_db s' = rekeyed (sc_db s) \<and> 7 \<le> currentVersion True s'"
proof -
  have "migratedOK (fold (\<lambda>E t. fst (Migrate E t)) Es s) \<and> sc_db (fold (\<lambda>E t. fst (Migrate E t)) Es s) \<in> {sc_db s, rekeyed (sc_db s)}"
    using assms(1)
  proof (induction Es arbitrary: s)
    case (Cons E Es)
    obtain t err where t: "Migrate E s = (t, err)" by force
    have "migratedOK t" "sc_db t \<in> {sc_db s, rekeyed (sc_db s)}" using Migrate_safe [OF Cons.prems t] by auto
    then show ?case using Cons.IH [of t] t by auto
  qed simp
  then show ?thesis using Migrate_safe [OF _ assms(2)] by auto
qed

section \<open>The upgrade succeeds\<close>

definition oldUID :: "Scan \<Rightarrow> string" where
  "oldUID s = AccountName s @ '':'' @ natStr (unat (IMAPUID s))"

lemma split_colon: "CHR '':'' \<notin> set a \<Longrightarrow> CHR '':'' \<notin> set b \<Longrightarrow> a @ CHR '':'' # x = b @ CHR '':'' # y \<Longrightarrow> a = b"
proof -
  assume a: "CHR '':'' \<notin> set a" and b: "CHR '':'' \<notin> set b" and e: "a @ CHR '':'' # x = b @ CHR '':'' # y"
  have "takeWhile (\<lambda>c. c \<noteq> CHR '':'') (a @ CHR '':'' # x) = a" using a by (subst takeWhile_append2) auto
  moreover have "takeWhile (\<lambda>c. c \<noteq> CHR '':'') (b @ CHR '':'' # y) = b" using b by (subst takeWhile_append2) auto
  ultimately show ?thesis using e by simp
qed

lemma rekeyed_distinct:
  assumes "distinct (map uidKey (scans d))" and "\<forall>r \<in> set (scans d). AccountUID r = oldUID r \<and> CHR '':'' \<notin> set (AccountName r)"
  shows "distinct (map uidKey (scans (rekeyed d)))"
proof -
  have inj: "uidKey r = uidKey q" if "r \<in> set (scans d)" "q \<in> set (scans d)" "scopedUID r = scopedUID q" "IMAPUID r = IMAPUID q" for r q
  proof -
    have clean: "CHR '':'' \<notin> set (AccountName r)" "CHR '':'' \<notin> set (AccountName q)" using that(1,2) assms(2) by blast+
    have "AccountName r @ CHR '':'' # (IMAPMailbox r @ '':'' @ natStr (unat (IMAPUID r))) = AccountName q @ CHR '':'' # (IMAPMailbox q @ '':'' @ natStr (unat (IMAPUID q)))"
      using that(3) unfolding scopedUID_def MakeAccountUID_def by simp
    then have acc: "AccountName r = AccountName q" by (rule split_colon [OF clean])
    have "AccountUID r = oldUID r" "AccountUID q = oldUID q" using that(1,2) assms(2) by blast+
    then show ?thesis unfolding uidKey_def oldUID_def acc that(4) by simp
  qed
  have i: "inj_on uidKey (set (scans d))" and "distinct (scans d)" using assms(1) by (simp_all add: distinct_map)
  moreover have "inj_on (\<lambda>r. (scopedUID r, IMAPUID r)) (set (scans d))"
  proof (rule inj_onI)
    fix r q assume r: "r \<in> set (scans d)" and q: "q \<in> set (scans d)" and e: "(scopedUID r, IMAPUID r) = (scopedUID q, IMAPUID q)"
    have "uidKey r = uidKey q" by (rule inj [OF r q]) (use e in simp_all)
    then show "r = q" using i r q by (meson inj_onD)
  qed
  moreover have "map uidKey (scans (rekeyed d)) = map (\<lambda>r. (scopedUID r, IMAPUID r)) (scans d)" by (simp add: rekeyed_def uidKey_def)
  ultimately show ?thesis by (simp add: distinct_map)
qed

lemma apply_quiet:
  "set ms \<subseteq> set migrations \<Longrightarrow> distinct (map uidKey (scans (rekeyed (sc_db s)))) \<Longrightarrow> \<exists>s'. applyMigrations quietMigrate ms current s = (s', None)"
proof (induction ms arbitrary: current s)
  case (Cons m ms)
  have "\<exists>d. runFn quietMigrate m (sc_db s) = Inr d \<and> d \<in> {sc_db s, rekeyed (sc_db s)}"
    using migrations_fn [of m] Cons.prems V6_ok [of "sc_db s"] by (auto simp: runFn_def quietMigrate_def)
  then obtain d where d: "runFn quietMigrate m (sc_db s) = Inr d" "d \<in> {sc_db s, rekeyed (sc_db s)}" by blast
  obtain s1 where s1: "saveVersion quietMigrate m (s\<lparr>sc_db := d\<rparr>) = (s1, None)" "sc_db s1 = d" by (simp add: saveVersion_def quietMigrate_def)
  have "rekeyed d = rekeyed (sc_db s)" using d(2) by auto
  then have "\<exists>s'. applyMigrations quietMigrate ms (vm_version m) s1 = (s', None)" using Cons.IH [of s1 "vm_version m"] Cons.prems s1(2) by simp
  moreover have "\<exists>s'. applyMigrations quietMigrate ms current s = (s', None)" using Cons.IH [of s current] Cons.prems by simp
  ultimately show ?case by (simp add: d(1) s1(1))
qed simp

text \<open>
  Old databases can be upgraded: a well-formed database with keys of account and number, whose account names have no colon, is migrated by an undisturbed start, and the result is well formed.
\<close>

theorem migrate_upgrades:
  assumes "dbOK (sc_db s)" and "migratedOK s" and "\<forall>r \<in> set (scans (sc_db s)). AccountUID r = oldUID r \<and> CHR '':'' \<notin> set (AccountName r)"
  shows "\<exists>s'. Migrate quietMigrate s = (s', None) \<and> dbOK (sc_db s') \<and> (\<forall>r \<in> set (scans (sc_db s')). AccountUID r = scopedUID r)"
proof -
  have auto: "autoMigrate (mg_auto quietMigrate) is = None" for "is" by (induction "is") (auto simp: quietMigrate_def)
  have dist: "distinct (map uidKey (scans (rekeyed (sc_db s))))" using rekeyed_distinct assms(1,3) by (simp add: dbOK_def)
  then obtain s' where s': "Migrate quietMigrate s = (s', None)" using apply_quiet [OF order_refl] by (auto simp: Migrate_def auto)
  then have db: "sc_db s' = rekeyed (sc_db s)" using Migrate_safe [OF assms(2) s'] by auto
  have "dbOK (sc_db s')" using assms(1) dist unfolding db by (auto simp: dbOK_def rekeyed_def o_def)
  moreover have "AccountUID r = scopedUID r" if "r \<in> set (scans (sc_db s'))" for r using that unfolding db by (auto simp: rekeyed_def scopedUID_def)
  ultimately show ?thesis using s' by blast
qed

text \<open>With a colon in an account name two rows can get the same new key, and the program does not start.\<close>

lemma colon_blocks_upgrade:
  "snd (Migrate quietMigrate \<lparr>sc_db = emptyDB\<lparr>scans := [zeroScan\<lparr>ID := 1, AccountName := ''a:b'', IMAPMailbox := ''c'', IMAPUID := 5, AccountUID := ''a:b:5''\<rparr>,
       zeroScan\<lparr>ID := 2, AccountName := ''a'', IMAPMailbox := ''b:c'', IMAPUID := 5, AccountUID := ''a:5''\<rparr>], nextID := 3\<rparr>,
     sc_versions = [(5, [])], sc_writes = 0\<rparr>) \<noteq> None"
  by code_simp

section \<open>Witnesses\<close>

definition oldSchema :: schema where
  "oldSchema = \<lparr>sc_db = emptyDB\<lparr>scans := [zeroScan\<lparr>ID := 1, AccountName := ''a'', IMAPMailbox := ''INBOX'', IMAPUID := 5, AccountUID := ''a:5''\<rparr>], nextID := 2\<rparr>,
     sc_versions = [(5, [])], sc_writes = 0\<rparr>"

lemma oldSchema_OK: "migratedOK oldSchema" "dbOK (sc_db oldSchema)"
  by (simp_all add: oldSchema_def migratedOK_def dbOK_def)

lemma oldSchema_keys: "\<forall>r \<in> set (scans (sc_db oldSchema)). AccountUID r = oldUID r \<and> CHR '':'' \<notin> set (AccountName r)"
  by code_simp

lemma migrate_upgrades_witness:
  "\<exists>s'. Migrate quietMigrate oldSchema = (s', None) \<and> dbOK (sc_db s')"
  using migrate_upgrades [OF oldSchema_OK(2,1) oldSchema_keys] by blast

definition crashAfterUpdate :: migrate_env where
  "crashAfterUpdate = quietMigrate\<lparr>mg_faults := (\<lambda>_. Some ''disk full'')\<rparr>"

lemma crash_then_ok: "\<exists>s'. Migrate quietMigrate (fold (\<lambda>E t. fst (Migrate E t)) [crashAfterUpdate] oldSchema) = (s', None)"
proof -
  let ?s = "fold (\<lambda>E t. fst (Migrate E t)) [crashAfterUpdate] oldSchema"
  have "snd (Migrate quietMigrate ?s) = None" by code_simp
  then show ?thesis by (cases "Migrate quietMigrate ?s") simp
qed

lemma migrate_crash_safe_witness:
  "\<exists>s'. Migrate quietMigrate (fold (\<lambda>E t. fst (Migrate E t)) [crashAfterUpdate] oldSchema) = (s', None) \<and> sc_db s' = rekeyed (sc_db oldSchema)"
  using crash_then_ok migrate_crash_safe [OF oldSchema_OK(1), of quietMigrate "[crashAfterUpdate]"] by blast

end
