(* ===== verification/FeedSources.thy ===== *)
theory FeedSources
  imports Feeds HashImport
begin

text \<open>
  The PhishTank source, the cache files and the complete refresh (\<^verbatim>\<open>app/feeds/urlhaus.go\<close>, \<^verbatim>\<open>manager.go\<close>): the download that is decoded while it arrives, its fall-back to the cache, the
  dispatch on the name of a cache file, and \<^verbatim>\<open>Refresh\<close> with the table of metadata and the hash feeds.
\<close>

section \<open>Downloads\<close>

text \<open>
  A stream of JSON as the decoder meets it: the first token (None when reading fails), the complete elements of the array, and how it ends: with the closing bracket, between two elements, or inside one.
\<close>

datatype json_tail = Closed | BreaksBetween | BreaksInside

datatype json_token = OpenArray | OtherToken

record json_stream =
  js_first :: "json_token option"
  js_elements :: "json list"
  js_tail :: json_tail

text \<open>\<^verbatim>\<open>More\<close> is false at the closing bracket and also when nothing more can be read.\<close>

definition parsePhishTankJSONStream :: "json_stream \<Rightarrow> string list result" where
  "parsePhishTankJSONStream s =
     (case js_first s of
        None \<Rightarrow> Inl ''phishtank: read opening token''
      | Some OtherToken \<Rightarrow> Inl ''phishtank: expected JSON array''
      | Some OpenArray \<Rightarrow>
          (case parsePhishTankEntries (js_elements s) of
             Inl e \<Rightarrow> Inl e
           | Inr urls \<Rightarrow> if js_tail s = BreaksInside then Inl ''phishtank: decode entry'' else Inr urls))"

definition segmentChar :: "char \<Rightarrow> bool" where
  "segmentChar c \<longleftrightarrow> isAlnum c \<or> c \<in> set ''-_.~$&+:=@''"

definition PathEscape :: "string \<Rightarrow> string" where
  "PathEscape s =
     concat (map (\<lambda>c. if segmentChar c then [c] else [CHR ''%'', upperhex (of_char c div 16), upperhex (of_char c mod 16)]) s)"

definition phishtankURL :: "string \<Rightarrow> string" where
  "phishtankURL key =
     (if key \<noteq> [] then ''https://data.phishtank.com/data/'' @ PathEscape key @ ''/online-valid.json'' else ''https://data.phishtank.com/data/online-valid.json'')"

datatype phish_answer = Unreachable error | Answer nat json_stream

record phish_env =
  pe_net :: "string \<Rightarrow> phish_answer"
  pe_temp :: bool        \<comment> \<open>the temporary file can be created\<close>
  pe_rename :: bool      \<comment> \<open>and renamed\<close>

definition loadPhishCache :: "json_stream option \<Rightarrow> string list result" where
  "loadPhishCache cache = (case cache of None \<Rightarrow> Inl ''no cache'' | Some s \<Rightarrow> parsePhishTankJSONStream s)"

definition keyHint :: "nat \<Rightarrow> string \<Rightarrow> string" where
  "keyHint status key =
     (if (status = 403 \<or> status = 429) \<and> key = []
      then '' (set MAILHOOK_PHISHTANK_KEY or configure via Settings '' @ [CHR 0xE2, CHR 0x86, CHR 0x92] @ '' API keys to avoid rate limits)'' else [])"

definition phishtank_Fetch :: "phish_env \<Rightarrow> string \<Rightarrow> json_stream option \<Rightarrow> string list result \<times> json_stream option" where
  "phishtank_Fetch E key cache =
     (case pe_net E (phishtankURL key) of
        Unreachable err \<Rightarrow> (case loadPhishCache cache of Inl ce \<Rightarrow> Inl (''fetch: '' @ err @ ''; '' @ ce) | Inr urls \<Rightarrow> Inr urls, cache)
      | Answer status body \<Rightarrow>
          if status \<noteq> 200
          then (case loadPhishCache cache of Inl ce \<Rightarrow> Inl (''HTTP '' @ natStr status @ keyHint status key @ ''; '' @ ce) | Inr urls \<Rightarrow> Inr urls, cache)
          else (case parsePhishTankJSONStream body of
                  Inl _ \<Rightarrow> (loadPhishCache cache, cache)
                | Inr urls \<Rightarrow> (Inr urls, if pe_temp E \<and> pe_rename E then Some body else cache)))"

text \<open>\<^verbatim>\<open>httpGet\<close> with its limit of 256 megabytes, and the dispatch of \<^verbatim>\<open>loadCacheFile\<close> on the extension.\<close>

datatype http_answer = NoAnswer error | HTTPAnswer nat string

definition maxBody :: nat where "maxBody = 256 * 1024 * 1024"

definition httpGet :: "string \<Rightarrow> http_answer \<Rightarrow> string result" where
  "httpGet rawURL a =
     (case a of
        NoAnswer e \<Rightarrow> Inl e
      | HTTPAnswer status body \<Rightarrow> if status \<noteq> 200 then Inl (''HTTP '' @ natStr status @ '' from '' @ rawURL) else Inr (take maxBody body))"

definition fileExt :: "string \<Rightarrow> string" where
  "fileExt path =
     (let base = (case lastIndexByte path CHR ''/'' of None \<Rightarrow> path | Some i \<Rightarrow> drop (Suc i) path)
      in case lastIndexByte base CHR ''.'' of None \<Rightarrow> [] | Some i \<Rightarrow> drop i base)"

definition loadCacheFile :: "(string \<Rightarrow> json_stream) \<Rightarrow> string \<Rightarrow> string option \<Rightarrow> string list result" where
  "loadCacheFile decode path content =
     (case content of
        None \<Rightarrow> Inl (''no cache at '' @ path)
      | Some raw \<Rightarrow>
          if fileExt path = ''.csv'' then Inr (parseURLhaus raw)
          else if fileExt path = ''.txt'' then Inr (parseLineFile raw)
          else if fileExt path = ''.json'' then parsePhishTankJSONStream (decode raw)
          else Inr (parseLineFile raw))"

text \<open>\<^verbatim>\<open>writeFileSafe\<close>: the file is replaced as a whole or not at all.\<close>

definition writeFileSafe :: "bool \<Rightarrow> bool \<Rightarrow> string \<Rightarrow> string option \<Rightarrow> unit result \<times> string option" where
  "writeFileSafe writeOK renameOK data old =
     (if \<not> writeOK then (Inl ''write'', old) else if \<not> renameOK then (Inl ''rename'', old) else (Inr (), Some data))"

section \<open>The complete refresh\<close>

record FeedMeta =
  fm_Name :: string
  fm_LastRefreshed :: go_time
  fm_EntryCount :: nat

record feed_state =
  fs_m :: Manager
  fs_meta :: "FeedMeta list"
  fs_hashes :: hash_state
  fs_hashCache :: "string \<rightharpoonup> string"

definition saveMeta :: "faults \<Rightarrow> go_time \<Rightarrow> string \<times> nat \<Rightarrow> feed_state \<Rightarrow> feed_state" where
  "saveMeta flt now entry s =
     (let n = snd (fs_hashes s); s' = s\<lparr>fs_hashes := (fst (fs_hashes s), Suc n)\<rparr>
      in case flt n of
           Some _ \<Rightarrow> s'
         | None \<Rightarrow> s'\<lparr>fs_meta := filter (\<lambda>r. fm_Name r \<noteq> fst entry) (fs_meta s) @ [\<lparr>fm_Name = fst entry, fm_LastRefreshed = now, fm_EntryCount = snd entry\<rparr>]\<rparr>)"

text \<open>The feeds in order with their counts, the new index, and then the import of hashes; an import that does not return keeps the whole refresh from returning.\<close>

definition fetchedCounts :: "(string \<Rightarrow> string list result) \<Rightarrow> (string \<times> nat) list" where
  "fetchedCounts fetch = List.map_filter (\<lambda>f. case fetch f of Inl _ \<Rightarrow> None | Inr urls \<Rightarrow> Some (f, length urls)) feedNames"

definition RefreshAll :: "hash_env \<Rightarrow> (string \<Rightarrow> string list result) \<Rightarrow> feed_state \<Rightarrow> feed_state go" where
  "RefreshAll E fetch s =
     (let s1 = fold (saveMeta (he_faults E) (he_now E)) (fetchedCounts fetch) s;
          s2 = s1\<lparr>fs_m := Refresh (he_now E) fetch (fs_m s)\<rparr>
      in case Sync E (fs_hashCache s2) (fs_hashes s2) of
           Returns (cache, st, n, None) \<Rightarrow> Returns (saveMeta (he_faults E) (he_now E) (''malwarebazaar'', n) (s2\<lparr>fs_hashCache := cache, fs_hashes := st\<rparr>))
         | Returns (cache, st, n, Some _) \<Rightarrow> Returns (s2\<lparr>fs_hashCache := cache, fs_hashes := st\<rparr>)
         | Panics p \<Rightarrow> Panics p
         | Hangs \<Rightarrow> Hangs)"

definition EntryCount :: "Manager \<Rightarrow> nat" where
  "EntryCount m = card (m_index m)"

section \<open>The address of the download\<close>

lemma hexChar_segment: "n < 16 \<Longrightarrow> isAlnum (upperhex n)"
proof -
  assume "n < 16"
  then have "n \<in> set [0..<16]" by simp
  moreover have "list_all (\<lambda>k. isAlnum (upperhex k)) [0..<16]"
    by (simp add: upt_rec isAlnum_def isAlpha_def isDigit_def upperhex_def)
  ultimately show ?thesis by (simp add: list_all_iff)
qed

lemma PathEscape_chars: "c \<in> set (PathEscape s) \<Longrightarrow> segmentChar c \<or> c = CHR ''%''"
proof (induction s)
  case (Cons x s)
  have n: "(of_char x :: nat) div 16 < 16" "(of_char x :: nat) mod 16 < 16" using of_char_nibbles [of x] by simp_all
  show ?case using Cons hexChar_segment [OF n(1)] hexChar_segment [OF n(2)] by (auto simp: PathEscape_def segmentChar_def split: if_splits)
qed (simp add: PathEscape_def)

text \<open>
  The key cannot redirect the download: whatever the settings contain, the requested address is the fixed directory of the provider, one path segment without slash, question mark or hash sign, and the name of
  the list.
\<close>

theorem phishtank_url_confined:
  "\<exists>segment. phishtankURL key \<in> {''https://data.phishtank.com/data/online-valid.json'', ''https://data.phishtank.com/data/'' @ segment @ ''/online-valid.json''}
     \<and> set segment \<inter> set ''/?#'' = {}"
proof -
  have "set (PathEscape key) \<inter> set ''/?#'' = {}"
    using PathEscape_chars [of _ key] by (fastforce simp: segmentChar_def isAlnum_def isAlpha_def isDigit_def)
  then show ?thesis by (auto simp: phishtankURL_def)
qed

section \<open>The cache\<close>

text \<open>
  The cache makes the source reliable: once a list has been cached, every later fetch returns a list and keeps a list in the cache, whatever the network does; and while the network fails or answers with an
  error or with something that does not parse, both stay what they were.
\<close>

theorem phishtank_available:
  assumes "parsePhishTankJSONStream s = Inr urls"
  shows "\<exists>urls' s'. phishtank_Fetch E key (Some s) = (Inr urls', Some s') \<and> is_ok (parsePhishTankJSONStream s')
    \<and> ((\<forall>body. pe_net E (phishtankURL key) = Answer 200 body \<longrightarrow> \<not> is_ok (parsePhishTankJSONStream body)) \<longrightarrow> urls' = urls \<and> s' = s)"
proof (cases "pe_net E (phishtankURL key)")
  case (Unreachable e)
  then show ?thesis using assms by (simp add: phishtank_Fetch_def loadPhishCache_def)
next
  case (Answer status body)
  show ?thesis
  proof (cases "status = 200")
    case True
    then show ?thesis using assms Answer by (cases "parsePhishTankJSONStream body") (auto simp: phishtank_Fetch_def loadPhishCache_def)
  next
    case False
    then show ?thesis using assms Answer by (simp add: phishtank_Fetch_def loadPhishCache_def)
  qed
qed

text \<open>A download that breaks off between two entries is taken for complete and replaces the cached list: the closing bracket is not read.\<close>

lemma truncated_list_accepted:
  assumes "pe_net E (phishtankURL key) = Answer 200 \<lparr>js_first = Some OpenArray, js_elements = [], js_tail = BreaksBetween\<rparr>" and "pe_temp E" and "pe_rename E"
  shows "phishtank_Fetch E key cache = (Inr [], Some \<lparr>js_first = Some OpenArray, js_elements = [], js_tail = BreaksBetween\<rparr>)"
  using assms by (simp add: phishtank_Fetch_def parsePhishTankJSONStream_def)

section \<open>The refresh as a whole\<close>

text \<open>The hash import works on the state that the metadata writes leave; the index does not depend on it.\<close>

lemma RefreshAll_index: "RefreshAll E fetch s = Returns s' \<Longrightarrow> fs_m s' = Refresh (he_now E) fetch (fs_m s)"
  by (auto simp: RefreshAll_def Let_def saveMeta_def split: go.splits prod.splits option.splits)

section \<open>Witness\<close>

lemma phishtank_available_witness:
  "\<exists>urls' s'. phishtank_Fetch \<lparr>pe_net = (\<lambda>_. Unreachable ''down''), pe_temp = True, pe_rename = True\<rparr> [] (Some \<lparr>js_first = Some OpenArray, js_elements = [], js_tail = Closed\<rparr>) = (Inr urls', Some s')"
  using phishtank_available [of "\<lparr>js_first = Some OpenArray, js_elements = [], js_tail = Closed\<rparr>" "[]" "\<lparr>pe_net = (\<lambda>_. Unreachable ''down''), pe_temp = True, pe_rename = True\<rparr>" "[]"]
  by (auto simp: parsePhishTankJSONStream_def)

end
