(* ===== verification/ConfigLoad.thy ===== *)
theory ConfigLoad
  imports Config
begin

text \<open>
  The whole of \<^verbatim>\<open>Load\<close> (\<^verbatim>\<open>app/config/config.go\<close>): every setting with its variable and default, the account file and the validation. \<^verbatim>\<open>strconv.ParseFloat\<close> and \<^verbatim>\<open>time.ParseDuration\<close> are
  arguments; the former may yield infinities and NaN.
\<close>

section \<open>The configuration\<close>

record FullConfig = Config +
  fc_RspamdURL :: string
  fc_ClamAVAddr :: string
  fc_YARARulesDir :: string
  fc_VTAPIKey :: string
  fc_AbuseIPDBKey :: string
  fc_PhishTankKey :: string
  fc_ListenAddr :: string
  fc_AdminUser :: string
  fc_DataDir :: string
  fc_FeedsCacheDir :: string
  fc_DBPath :: string
  fc_RetentionDays :: int
  fc_EMLCleanRetain :: bool
  fc_EMLQuarantineRetentionDays :: int
  fc_NtfyTopic :: string
  fc_NtfyToken :: string
  fc_ScanTimeout :: duration
  fc_FeedRefreshInterval :: duration
  fc_IMAPReconnectMax :: duration
  fc_MaxConcurrentScans :: int
  fc_InsecureCookies :: bool
  fc_RedactWebhookPII :: bool
  fc_MaxEmailSizeMB :: int
  fc_LogLevel :: string
  fc_LogFormat :: string
  fc_URLUnshortenEnabled :: bool
  fc_URLUnshortenMaxHops :: int
  fc_URLUnshortenPerURLTimeout :: duration
  fc_URLUnshortenRateLimit :: int
  fc_URLUnshortenRateBurst :: int
  fc_NRDEnabled :: bool
  fc_NRDMaxAgeDays :: int
  fc_NRDCacheTTLHours :: int
  fc_NRDRDAPBaseURL :: string
  fc_VTCacheTTLHours :: int
  fc_VTNotFoundCacheTTLHours :: int
  fc_HTMLSmugglingEnabled :: bool
  fc_HTMLSmugglingMinB64KB :: int
  fc_HiddenTextEnabled :: bool
  fc_ONNXModelsDir :: string
  fc_ONNXBERTThreshold :: go_float
  fc_ONNXDGAThreshold :: go_float
  fc_TrustedAuthservID :: string

record parsers =
  pa_float :: "string \<Rightarrow> go_float option"
  pa_duration :: "string \<Rightarrow> duration option"

definition getEnvFloat :: "parsers \<Rightarrow> environment \<Rightarrow> string \<Rightarrow> go_float \<Rightarrow> go_float result" where
  "getEnvFloat P = typedEnv (pa_float P)"

definition getEnvDuration :: "parsers \<Rightarrow> environment \<Rightarrow> string \<Rightarrow> duration \<Rightarrow> duration result" where
  "getEnvDuration P = typedEnv (pa_duration P)"

section \<open>The settings in the order of the source\<close>

text \<open>A step reads one variable into the configuration or stops with an error.\<close>

type_synonym step = "FullConfig \<Rightarrow> FullConfig result"

definition store :: "('a \<Rightarrow> FullConfig \<Rightarrow> FullConfig) \<Rightarrow> 'a result \<Rightarrow> step" where
  "store put r c = (case r of Inl e \<Rightarrow> Inl e | Inr v \<Rightarrow> Inr (put v c))"

fun runSteps :: "step list \<Rightarrow> FullConfig \<Rightarrow> FullConfig result" where
  "runSteps [] c = Inr c"
| "runSteps (f # fs) c = (case f c of Inl e \<Rightarrow> Inl e | Inr c' \<Rightarrow> runSteps fs c')"

definition initialConfig :: "environment \<Rightarrow> FullConfig" where
  "initialConfig env =
     \<lparr>cf_Accounts = [], cf_SpamScore = Finite 0, cf_RejectScore = Finite 0, cf_AdminPasswordBcrypt = getEnv env ''MAILHOOK_ADMIN_PASSWORD_BCRYPT'' [],
      cf_NtfyURL = getEnv env ''MAILHOOK_NTFY_URL'' [], cf_DBEncryptionKey = [], cf_CSRFSecret = [], cf_MetricsAllowedCIDRs = [], cf_TrustedProxies = [],
      fc_RspamdURL = getEnv env ''MAILHOOK_RSPAMD_URL'' ''http://rspamd:11333'', fc_ClamAVAddr = getEnv env ''MAILHOOK_CLAMAV_ADDR'' ''clamav:3310'',
      fc_YARARulesDir = getEnv env ''MAILHOOK_YARA_RULES_DIR'' ''/rules'', fc_VTAPIKey = getEnv env ''MAILHOOK_VT_API_KEY'' [],
      fc_AbuseIPDBKey = getEnv env ''MAILHOOK_ABUSEIPDB_KEY'' [], fc_PhishTankKey = getEnv env ''MAILHOOK_PHISHTANK_KEY'' [],
      fc_ListenAddr = getEnv env ''MAILHOOK_LISTEN'' ''0.0.0.0:8080'', fc_AdminUser = getEnv env ''MAILHOOK_ADMIN_USER'' ''admin'',
      fc_DataDir = getEnv env ''MAILHOOK_DATA_DIR'' ''/data'', fc_FeedsCacheDir = getEnv env ''MAILHOOK_FEEDS_CACHE_DIR'' ''/feeds-cache'',
      fc_DBPath = getEnv env ''MAILHOOK_DB_PATH'' ''/data/mailhook.db'', fc_RetentionDays = 0, fc_EMLCleanRetain = False, fc_EMLQuarantineRetentionDays = 0,
      fc_NtfyTopic = getEnv env ''MAILHOOK_NTFY_TOPIC'' ''mailhook'', fc_NtfyToken = getEnv env ''MAILHOOK_NTFY_TOKEN'' [],
      fc_ScanTimeout = 0, fc_FeedRefreshInterval = 0, fc_IMAPReconnectMax = 0, fc_MaxConcurrentScans = 0, fc_InsecureCookies = False, fc_RedactWebhookPII = False,
      fc_MaxEmailSizeMB = 0, fc_LogLevel = getEnv env ''MAILHOOK_LOG_LEVEL'' ''info'', fc_LogFormat = getEnv env ''MAILHOOK_LOG_FORMAT'' ''json'',
      fc_URLUnshortenEnabled = False, fc_URLUnshortenMaxHops = 0, fc_URLUnshortenPerURLTimeout = 0, fc_URLUnshortenRateLimit = 0, fc_URLUnshortenRateBurst = 0,
      fc_NRDEnabled = False, fc_NRDMaxAgeDays = 0, fc_NRDCacheTTLHours = 0, fc_NRDRDAPBaseURL = [], fc_VTCacheTTLHours = 0, fc_VTNotFoundCacheTTLHours = 0,
      fc_HTMLSmugglingEnabled = False, fc_HTMLSmugglingMinB64KB = 0, fc_HiddenTextEnabled = False, fc_ONNXModelsDir = [], fc_ONNXBERTThreshold = Finite 0, fc_ONNXDGAThreshold = Finite 0,
      fc_TrustedAuthservID = []\<rparr>"

definition typedSteps :: "parsers \<Rightarrow> environment \<Rightarrow> step list" where
  "typedSteps P env =
     [store (\<lambda>v c. c\<lparr>cf_SpamScore := v\<rparr>) (getEnvFloat P env ''MAILHOOK_SPAM_SCORE'' (Finite 5)),
      store (\<lambda>v c. c\<lparr>cf_RejectScore := v\<rparr>) (getEnvFloat P env ''MAILHOOK_REJECT_SCORE'' (Finite 15)),
      store (\<lambda>v c. c\<lparr>fc_RetentionDays := v\<rparr>) (getEnvInt env ''MAILHOOK_RETENTION_DAYS'' 30),
      store (\<lambda>v c. c\<lparr>fc_EMLCleanRetain := v\<rparr>) (getEnvBool env ''MAILHOOK_EML_CLEAN_RETAIN'' False),
      store (\<lambda>v c. c\<lparr>fc_EMLQuarantineRetentionDays := v\<rparr>) (getEnvInt env ''MAILHOOK_EML_QUARANTINE_RETENTION_DAYS'' 90),
      store (\<lambda>v c. c\<lparr>fc_ScanTimeout := v\<rparr>) (getEnvDuration P env ''MAILHOOK_SCAN_TIMEOUT'' (60 * second)),
      store (\<lambda>v c. c\<lparr>fc_FeedRefreshInterval := v\<rparr>) (getEnvDuration P env ''MAILHOOK_FEED_REFRESH_INTERVAL'' (360 * minute)),
      store (\<lambda>v c. c\<lparr>fc_IMAPReconnectMax := v\<rparr>) (getEnvDuration P env ''MAILHOOK_IMAP_RECONNECT_MAX'' (5 * minute)),
      store (\<lambda>v c. c\<lparr>fc_MaxConcurrentScans := v\<rparr>) (getEnvInt env ''MAILHOOK_MAX_CONCURRENT_SCANS'' 20),
      store (\<lambda>v c. c\<lparr>fc_MaxEmailSizeMB := v\<rparr>) (getEnvInt env ''MAILHOOK_MAX_EMAIL_SIZE_MB'' 100),
      store (\<lambda>v c. c\<lparr>fc_InsecureCookies := v\<rparr>) (getEnvBool env ''MAILHOOK_INSECURE_COOKIES'' False),
      store (\<lambda>v c. c\<lparr>fc_RedactWebhookPII := v, cf_DBEncryptionKey := getEnv env ''MAILHOOK_DB_ENCRYPTION_KEY'' []\<rparr>) (getEnvBool env ''MAILHOOK_REDACT_WEBHOOK_PII'' True),
      store (\<lambda>v c. c\<lparr>fc_URLUnshortenEnabled := v\<rparr>) (getEnvBool env ''MAILHOOK_URLUNSHORTEN_ENABLED'' True),
      store (\<lambda>v c. c\<lparr>fc_URLUnshortenMaxHops := v\<rparr>) (getEnvInt env ''MAILHOOK_URLUNSHORTEN_MAX_HOPS'' 3),
      store (\<lambda>v c. c\<lparr>fc_URLUnshortenPerURLTimeout := v\<rparr>) (getEnvDuration P env ''MAILHOOK_URLUNSHORTEN_PER_URL_TIMEOUT'' (5 * second)),
      store (\<lambda>v c. c\<lparr>fc_URLUnshortenRateLimit := v\<rparr>) (getEnvInt env ''MAILHOOK_URLUNSHORTEN_RATE_LIMIT'' 10),
      store (\<lambda>v c. c\<lparr>fc_URLUnshortenRateBurst := v\<rparr>) (getEnvInt env ''MAILHOOK_URLUNSHORTEN_RATE_BURST'' 5),
      store (\<lambda>v c. c\<lparr>fc_NRDEnabled := v\<rparr>) (getEnvBool env ''MAILHOOK_NRD_ENABLED'' True),
      store (\<lambda>v c. c\<lparr>fc_NRDMaxAgeDays := v\<rparr>) (getEnvInt env ''MAILHOOK_NRD_MAX_AGE_DAYS'' 14),
      store (\<lambda>v c. c\<lparr>fc_NRDCacheTTLHours := v, fc_NRDRDAPBaseURL := getEnv env ''MAILHOOK_NRD_RDAP_BASE_URL'' ''https://rdap.org/domain/''\<rparr>)
        (getEnvInt env ''MAILHOOK_NRD_CACHE_TTL_HOURS'' 24),
      store (\<lambda>v c. c\<lparr>fc_VTCacheTTLHours := v\<rparr>) (getEnvInt env ''MAILHOOK_VT_CACHE_TTL_HOURS'' 24),
      store (\<lambda>v c. c\<lparr>fc_VTNotFoundCacheTTLHours := v\<rparr>) (getEnvInt env ''MAILHOOK_VT_NOTFOUND_CACHE_TTL_HOURS'' 4),
      store (\<lambda>v c. c\<lparr>fc_HTMLSmugglingEnabled := v\<rparr>) (getEnvBool env ''MAILHOOK_HTML_SMUGGLING_ENABLED'' True),
      store (\<lambda>v c. c\<lparr>fc_HTMLSmugglingMinB64KB := v\<rparr>) (getEnvInt env ''MAILHOOK_HTML_SMUGGLING_MIN_B64_KB'' 10),
      store (\<lambda>v c. c\<lparr>fc_HiddenTextEnabled := v, fc_ONNXModelsDir := getEnv env ''MAILHOOK_ONNX_MODELS_DIR'' []\<rparr>) (getEnvBool env ''MAILHOOK_HIDDEN_TEXT_ENABLED'' True),
      store (\<lambda>v c. c\<lparr>fc_ONNXBERTThreshold := v\<rparr>) (getEnvFloat P env ''MAILHOOK_ONNX_BERT_THRESHOLD'' (Finite (92 / 100))),
      store (\<lambda>v c. c\<lparr>fc_ONNXDGAThreshold := v\<rparr>) (getEnvFloat P env ''MAILHOOK_ONNX_DGA_THRESHOLD'' (Finite (80 / 100)))]"

text \<open>\<open>yaml\<close> gives the file of a path; \<^verbatim>\<open>MAILHOOK_CONFIG\<close> counts as given when it is set, even to the empty string.\<close>

definition Load :: "parsers \<Rightarrow> (string \<Rightarrow> bool) \<Rightarrow> (string \<Rightarrow> yaml_file) \<Rightarrow> environment \<Rightarrow> FullConfig result" where
  "Load P bcryptCost yaml env =
     (case runSteps (typedSteps P env) (initialConfig env) of
        Inl e \<Rightarrow> Inl e
      | Inr c \<Rightarrow>
          (let c1 = c\<lparr>cf_MetricsAllowedCIDRs := metricsAllowedCIDRs env, cf_TrustedProxies := trustedProxies env,
                      cf_CSRFSecret := getEnv env ''MAILHOOK_CSRF_SECRET'' [], fc_TrustedAuthservID := getEnv env ''MAILHOOK_TRUSTED_AUTHSERV_ID'' []\<rparr>;
               (path, explicit) = (case env ''MAILHOOK_CONFIG'' of Some p \<Rightarrow> (p, True) | None \<Rightarrow> (''config.yaml'', False))
           in case loadAccounts explicit (yaml path) of
                Inl e \<Rightarrow> Inl e
              | Inr as \<Rightarrow>
                  (let c2 = c1\<lparr>cf_Accounts := as\<rparr>
                   in case validate bcryptCost (Config.truncate c2) of Inl e \<Rightarrow> Inl (''config validation: '' @ e) | Inr _ \<Rightarrow> Inr c2)))"

section \<open>When loading succeeds\<close>

datatype kind = KFloat | KInt | KBool | KDuration

definition typedVariables :: "(string \<times> kind) list" where
  "typedVariables =
     [(''MAILHOOK_SPAM_SCORE'', KFloat), (''MAILHOOK_REJECT_SCORE'', KFloat), (''MAILHOOK_RETENTION_DAYS'', KInt),
      (''MAILHOOK_EML_CLEAN_RETAIN'', KBool), (''MAILHOOK_EML_QUARANTINE_RETENTION_DAYS'', KInt), (''MAILHOOK_SCAN_TIMEOUT'', KDuration),
      (''MAILHOOK_FEED_REFRESH_INTERVAL'', KDuration), (''MAILHOOK_IMAP_RECONNECT_MAX'', KDuration), (''MAILHOOK_MAX_CONCURRENT_SCANS'', KInt),
      (''MAILHOOK_MAX_EMAIL_SIZE_MB'', KInt), (''MAILHOOK_INSECURE_COOKIES'', KBool), (''MAILHOOK_REDACT_WEBHOOK_PII'', KBool),
      (''MAILHOOK_URLUNSHORTEN_ENABLED'', KBool), (''MAILHOOK_URLUNSHORTEN_MAX_HOPS'', KInt), (''MAILHOOK_URLUNSHORTEN_PER_URL_TIMEOUT'', KDuration),
      (''MAILHOOK_URLUNSHORTEN_RATE_LIMIT'', KInt), (''MAILHOOK_URLUNSHORTEN_RATE_BURST'', KInt), (''MAILHOOK_NRD_ENABLED'', KBool),
      (''MAILHOOK_NRD_MAX_AGE_DAYS'', KInt), (''MAILHOOK_NRD_CACHE_TTL_HOURS'', KInt), (''MAILHOOK_VT_CACHE_TTL_HOURS'', KInt),
      (''MAILHOOK_VT_NOTFOUND_CACHE_TTL_HOURS'', KInt), (''MAILHOOK_HTML_SMUGGLING_ENABLED'', KBool), (''MAILHOOK_HTML_SMUGGLING_MIN_B64_KB'', KInt),
      (''MAILHOOK_HIDDEN_TEXT_ENABLED'', KBool), (''MAILHOOK_ONNX_BERT_THRESHOLD'', KFloat), (''MAILHOOK_ONNX_DGA_THRESHOLD'', KFloat)]"

definition variableOK :: "parsers \<Rightarrow> environment \<Rightarrow> string \<times> kind \<Rightarrow> bool" where
  "variableOK P env kv \<longleftrightarrow>
     (let v = Getenv env (fst kv)
      in v = [] \<or> (case snd kv of KFloat \<Rightarrow> pa_float P v \<noteq> None | KInt \<Rightarrow> Atoi v \<noteq> None | KBool \<Rightarrow> ParseBool v \<noteq> None | KDuration \<Rightarrow> pa_duration P v \<noteq> None))"

lemma typedEnv_ok: "is_ok (typedEnv parse env key dflt) \<longleftrightarrow> Getenv env key = [] \<or> parse (Getenv env key) \<noteq> None"
  by (auto simp: typedEnv_def Let_def split: option.split)

lemma store_ok: "is_ok (store put r c) = is_ok r"
  by (simp add: store_def split: sum.split)

lemma runSteps_ok: "(\<And>f c c'. f \<in> set fs \<Longrightarrow> is_ok (f c) = is_ok (f c')) \<Longrightarrow> is_ok (runSteps fs c) \<longleftrightarrow> (\<forall>f \<in> set fs. is_ok (f d))"
proof (induction fs arbitrary: c)
  case (Cons f fs)
  have "is_ok (f c) = is_ok (f d)" by (rule Cons.prems) simp
  then show ?case using Cons.IH Cons.prems by (cases "f c") auto
qed simp

lemma typedSteps_ok: "is_ok (runSteps (typedSteps P env) c) \<longleftrightarrow> (\<forall>kv \<in> set typedVariables. variableOK P env kv)"
proof -
  have "is_ok (f c) = is_ok (f c')" if "f \<in> set (typedSteps P env)" for f c c'
    using that unfolding typedSteps_def by (auto simp: store_ok)
  then have "is_ok (runSteps (typedSteps P env) c) \<longleftrightarrow> (\<forall>f \<in> set (typedSteps P env). is_ok (f c))" by (rule runSteps_ok)
  also have "\<dots> \<longleftrightarrow> (\<forall>kv \<in> set typedVariables. variableOK P env kv)"
    unfolding typedSteps_def typedVariables_def
    by (simp add: store_ok typedEnv_ok getEnvFloat_def getEnvDuration_def getEnvInt_def getEnvBool_def variableOK_def Let_def)
  finally show ?thesis .
qed

text \<open>
  C39. What the program starts with is well formed: loading succeeds only when every numeric, boolean and duration variable that is set parses, and then every account has host, user, password, a name of its own,
  a port, a mailbox and a quarantine folder, the notification URL parses, the administrator's password is a bcrypt hash, and the encryption key and the CSRF secret are set, are not a placeholder (neither the text of the
  documentation nor one that starts with changeme), the CSRF secret having 32 characters or more. The spam threshold is below the reject threshold unless one of the two is NaN, which passes the validation.
\<close>

theorem load_wellformed:
  assumes "Load P bcryptCost yaml env = Inr c"
  shows "(\<forall>kv \<in> set typedVariables. variableOK P env kv) \<and> list_all accountOK (cf_Accounts c) \<and> distinct (map acc_Name (cf_Accounts c))
    \<and> (floatLt (cf_SpamScore c) (cf_RejectScore c) \<or> cf_SpamScore c = NaN \<or> cf_RejectScore c = NaN)
    \<and> (cf_NtfyURL c = [] \<or> ParseRequestURI (cf_NtfyURL c) \<noteq> None)
    \<and> cf_AdminPasswordBcrypt c \<noteq> [] \<and> bcryptCost (cf_AdminPasswordBcrypt c)
    \<and> cf_DBEncryptionKey c \<notin> {[], ''REPLACE_WITH_HEX_KEY''} \<and> take 8 (cf_DBEncryptionKey c) \<noteq> ''changeme''
    \<and> cf_CSRFSecret c \<notin> {[], ''REPLACE_WITH_HEX_SECRET''} \<and> take 8 (cf_CSRFSecret c) \<noteq> ''changeme'' \<and> length (cf_CSRFSecret c) \<ge> 32"
proof -
  obtain c0 where c0: "runSteps (typedSteps P env) (initialConfig env) = Inr c0"
    using assms by (auto simp: Load_def split: sum.splits)
  obtain explicit f where ac: "loadAccounts explicit f = Inr (cf_Accounts c)" and v: "validate bcryptCost (Config.truncate c) = Inr ()"
    using assms c0 by (auto simp: Load_def Let_def split: sum.splits prod.splits)
  have "list_all accountOK (cf_Accounts c) \<and> distinct (map acc_Name (cf_Accounts c))"
    using accounts_wellformed [OF ac] v by (simp add: validate_iff Config.truncate_def)
  moreover have "\<forall>kv \<in> set typedVariables. variableOK P env kv" using typedSteps_ok [of P env "initialConfig env"] c0 by simp
  ultimately show ?thesis using v by (auto simp: validate_iff secretsOK_def realSecret_def floatGe_def Config.truncate_def)
qed

text \<open>A variable that is set and does not parse stops the program.\<close>

lemma malformed_variable_refused:
  assumes "kv \<in> set typedVariables" and "\<not> variableOK P env kv"
  shows "\<exists>e. Load P bcryptCost yaml env = Inl e"
  using typedSteps_ok [of P env "initialConfig env"] assms
  by (cases "runSteps (typedSteps P env) (initialConfig env)") (auto simp: Load_def)

text \<open>A threshold that is NaN passes: every comparison with it is false.\<close>

lemma nan_threshold_accepted:
  assumes "validate bcryptCost c = Inr ()"
  shows "validate bcryptCost (c\<lparr>cf_SpamScore := NaN\<rparr>) = Inr ()"
  using assms by (simp add: validate_iff secretsOK_def floatGe_def)

section \<open>Witness\<close>

definition demoEnv :: environment where
  "demoEnv = [''MAILHOOK_ADMIN_PASSWORD_BCRYPT'' \<mapsto> ''$2a$'', ''MAILHOOK_DB_ENCRYPTION_KEY'' \<mapsto> replicate 64 CHR ''0'', ''MAILHOOK_CSRF_SECRET'' \<mapsto> replicate 32 CHR ''x'']"

lemma typedEnv_unset: "env key = None \<Longrightarrow> typedEnv parse env key dflt = Inr dflt"
  by (simp add: typedEnv_def Getenv_def)

lemma demo_unset: "kv \<in> set typedVariables \<Longrightarrow> demoEnv (fst kv) = None"
proof -
  have "list_all (\<lambda>kv. fst kv \<notin> {''MAILHOOK_ADMIN_PASSWORD_BCRYPT'', ''MAILHOOK_DB_ENCRYPTION_KEY'', ''MAILHOOK_CSRF_SECRET''}) typedVariables"
    unfolding typedVariables_def by simp
  moreover assume "kv \<in> set typedVariables"
  ultimately show ?thesis by (auto simp: demoEnv_def list_all_iff)
qed

lemma demo_steps:
  "\<exists>c. runSteps (typedSteps P demoEnv) (initialConfig demoEnv) = Inr c \<and> cf_SpamScore c = Finite 5 \<and> cf_RejectScore c = Finite 15 \<and> cf_DBEncryptionKey c = replicate 64 CHR ''0''
     \<and> cf_AdminPasswordBcrypt c = ''$2a$'' \<and> cf_NtfyURL c = []"
proof -
  have unset: "demoEnv k = None" if "(k, kd) \<in> set typedVariables" for k kd using demo_unset [OF that] by simp
  have all: "\<forall>(k, kd) \<in> set typedVariables. demoEnv k = None" using unset by blast
  show ?thesis
    using all unfolding typedVariables_def typedSteps_def getEnvFloat_def getEnvDuration_def getEnvInt_def getEnvBool_def
    by (simp add: typedEnv_unset store_def initialConfig_def getEnv_def Getenv_def) (simp add: demoEnv_def)
qed

lemma demo_load: "\<exists>c. Load P (\<lambda>_. True) (\<lambda>_. YamlMissing) demoEnv = Inr c \<and> cf_SpamScore c = Finite 5 \<and> cf_RejectScore c = Finite 15
    \<and> cf_DBEncryptionKey c = replicate 64 CHR ''0'' \<and> cf_NtfyURL c = []"
proof -
  obtain c where c: "runSteps (typedSteps P demoEnv) (initialConfig demoEnv) = Inr c" "cf_SpamScore c = Finite 5" "cf_RejectScore c = Finite 15" "cf_DBEncryptionKey c = replicate 64 CHR ''0''"
    "cf_AdminPasswordBcrypt c = ''$2a$''" "cf_NtfyURL c = []" using demo_steps by blast
  have e: "demoEnv ''MAILHOOK_CONFIG'' = None" "getEnv demoEnv ''MAILHOOK_CSRF_SECRET'' [] = replicate 32 CHR ''x''" by (simp_all add: demoEnv_def getEnv_def Getenv_def)
  have z: "replicate 64 CHR ''0'' = CHR ''0'' # replicate 63 CHR ''0''" by (simp add: numeral_eq_Suc)
  have x: "replicate 32 CHR ''x'' = CHR ''x'' # replicate 31 CHR ''x''" by (simp add: numeral_eq_Suc)
  have "validate (\<lambda>_. True) (Config.truncate (c\<lparr>cf_MetricsAllowedCIDRs := ms, cf_TrustedProxies := ts, cf_CSRFSecret := replicate 32 CHR ''x'', fc_TrustedAuthservID := ai, cf_Accounts := []\<rparr>)) = Inr ()" for ms ts ai
    using c by (simp add: validate_iff secretsOK_def realSecret_def floatGe_def Config.truncate_def) (simp add: x z numeral_eq_Suc)
  then show ?thesis using c e by (simp add: Load_def loadAccounts_def loadYAML_def Let_def)
qed

lemma load_wellformed_witness:
  "\<exists>c. Load \<lparr>pa_float = (\<lambda>_. None), pa_duration = (\<lambda>_. None)\<rparr> (\<lambda>_. True) (\<lambda>_. YamlMissing) demoEnv = Inr c \<and> take 8 (cf_DBEncryptionKey c) \<noteq> ''changeme''"
  using demo_load [of "\<lparr>pa_float = (\<lambda>_. None), pa_duration = (\<lambda>_. None)\<rparr>"] load_wellformed by blast

end
