(* ===== verification/Lifecycle.thy ===== *)
theory Lifecycle
  imports ConfigLoad Settings Migrations YaraRules Onnx Routes "HOL-Library.Sublist"
begin

text \<open>
  The start of the process (\<^verbatim>\<open>app/main.go\<close>), stage by stage, each of which may end the program, with the functions of \<^verbatim>\<open>app/db/db.go\<close> that open and check the database file. The shutdown
  is in \<open>Shutdown\<close>.
\<close>

section \<open>The database file\<close>

definition pragmasDSN :: string where
  "pragmasDSN = ''?_journal_mode=WAL&_busy_timeout=5000&_synchronous=NORMAL'' @
     ''&_foreign_keys=on&_cache_size=-65536&_temp_store=MEMORY&_auto_vacuum=INCREMENTAL''"

text \<open>What gorm and the driver answer for a DSN, and the pool that the code asks for: open and idle connections.\<close>

record dbfile =
  df_dsn :: string
  df_maxOpen :: nat
  df_maxIdle :: nat

definition Open :: "(string \<Rightarrow> unit result) \<Rightarrow> unit result \<Rightarrow> string \<Rightarrow> dbfile result" where
  "Open gormOpen sqlDB path =
     (let dsn = ''file:'' @ path @ pragmasDSN in
      case gormOpen dsn of
        Inl e \<Rightarrow> Inl (''open sqlite '' @ path @ '': '' @ e)
      | Inr _ \<Rightarrow> (case sqlDB of Inl e \<Rightarrow> Inl (''get sql.DB: '' @ e) | Inr _ \<Rightarrow> Inr \<lparr>df_dsn = dsn, df_maxOpen = 4, df_maxIdle = 4\<rparr>))"

definition IntegrityCheck :: "string result \<Rightarrow> unit result" where
  "IntegrityCheck answer =
     (case answer of
        Inl e \<Rightarrow> Inl (''integrity_check failed: '' @ e)
      | Inr r \<Rightarrow> if r \<noteq> ''ok'' then Inl (''integrity_check returned: '' @ r) else Inr ())"

definition Size :: "64 word result \<Rightarrow> 64 word result \<Rightarrow> 64 word result" where
  "Size pageCount pageSize =
     (case pageCount of Inl e \<Rightarrow> Inl e | Inr n \<Rightarrow> (case pageSize of Inl e \<Rightarrow> Inl e | Inr k \<Rightarrow> Inr (n * k)))"

section \<open>Starting\<close>

text \<open>What the start has done so far. A stage is recorded when it is over and was successful.\<close>

datatype stage =
    ConfigLoaded | DirsMade | DBOpened | Migrated | KeySet | SettingsLoaded | AccountsMigrated | TemplatesReady | StorageReady
  | SessionsLoaded | RulesLoaded | ModelsLoaded | ListenersStarted | TasksStarted | Serving

type_synonym 'a boot = "stage list \<times> 'a result"

definition attempt :: "stage \<Rightarrow> 'a result \<Rightarrow> 'a boot" where
  "attempt st r = (case r of Inl e \<Rightarrow> ([], Inl e) | Inr x \<Rightarrow> ([st], Inr x))"

definition andThen :: "'a boot \<Rightarrow> ('a \<Rightarrow> 'b boot) \<Rightarrow> 'b boot" where
  "andThen m f = (case m of (t, Inl e) \<Rightarrow> (t, Inl e) | (t, Inr x) \<Rightarrow> (case f x of (t', r) \<Rightarrow> (t @ t', r)))"

text \<open>The rest of the system, as the start meets it; the contents of the database are those of the file that was opened.\<close>

record boot_env =
  be_parsers :: parsers
  be_bcryptCost :: "string \<Rightarrow> bool"
  be_yaml :: "string \<Rightarrow> yaml_file"
  be_env :: environment
  be_mkdir :: "string \<Rightarrow> unit result"
  be_open :: "string \<Rightarrow> unit result"
  be_sqlDB :: "unit result"
  be_migrate :: migrate_env
  be_schema :: "dbfile \<Rightarrow> schema"
  be_integrity :: "dbfile \<Rightarrow> string result"
  be_settings :: settings_env
  be_rows :: "dbfile \<Rightarrow> string \<rightharpoonup> string"
  be_templates :: "unit result"
  be_storage :: "unit result"
  be_rules :: rule_files
  be_ai :: bool                               \<comment> \<open>build tag \<^verbatim>\<open>ai\<close>; without it the classifier is a stub without models\<close>
  be_models :: model_files
  be_runtime :: runtime
  be_f32 :: "go_float \<Rightarrow> float32"

definition dirOf :: "string \<Rightarrow> string" where
  "dirOf path = (case lastIndexByte path CHR ''/'' of None \<Rightarrow> ''.'' | Some i \<Rightarrow> if i = 0 then ''/'' else take i path)"

definition runtimeDirs :: "FullConfig \<Rightarrow> string list" where
  "runtimeDirs c = [dirOf (fc_DBPath c), fc_DataDir c @ ''/emls'', fc_FeedsCacheDir c, fc_YARARulesDir c]"

fun mkdirs :: "(string \<Rightarrow> unit result) \<Rightarrow> string list \<Rightarrow> unit result" where
  "mkdirs mk [] = Inr ()"
| "mkdirs mk (d # ds) = (case mk d of Inl e \<Rightarrow> Inl e | Inr _ \<Rightarrow> mkdirs mk ds)"

definition encryptionKey :: "FullConfig \<Rightarrow> bytes result" where
  "encryptionKey c =
     (case hexDecode (cf_DBEncryptionKey c) of
        None \<Rightarrow> Inl ''MAILHOOK_DB_ENCRYPTION_KEY must be a 64-character hex string (32 bytes)''
      | Some k \<Rightarrow> if length k \<noteq> 32 then Inl ''MAILHOOK_DB_ENCRYPTION_KEY must be a 64-character hex string (32 bytes)'' else Inr k)"

text \<open>
  The running configuration has finite thresholds. One that the environment gave as an infinity or NaN and no row of the database replaces reaches the check as it is; its number is not read there.
\<close>

definition number :: "go_float \<Rightarrow> float64" where
  "number x = (case x of Finite v \<Rightarrow> v | _ \<Rightarrow> 0)"

definition persistedScore :: "(string \<rightharpoonup> string) \<Rightarrow> string \<Rightarrow> go_float \<Rightarrow> go_float" where
  "persistedScore rows key x =
     (case rows key of None \<Rightarrow> x | Some v \<Rightarrow> (case ParseFloat v of None \<Rightarrow> x | Some y \<Rightarrow> if y > 0 then Finite y else x))"

definition runtimeOf :: "FullConfig \<Rightarrow> Runtime" where
  "runtimeOf c = \<lparr>rc_SpamScore = number (cf_SpamScore c), rc_RejectScore = number (cf_RejectScore c), rc_NtfyURL = cf_NtfyURL c, rc_NtfyTopic = fc_NtfyTopic c,
     rc_NtfyToken = fc_NtfyToken c, rc_VTAPIKey = fc_VTAPIKey c, rc_AbuseIPDBKey = fc_AbuseIPDBKey c, rc_PhishTankKey = fc_PhishTankKey c,
     rc_RspamdURL = fc_RspamdURL c, rc_ClamAVAddr = fc_ClamAVAddr c, rc_YARARulesDir = fc_YARARulesDir c,
     rc_AdminPasswordBcrypt = cf_AdminPasswordBcrypt c\<rparr>"

definition checkSettings :: "go_float \<Rightarrow> go_float \<Rightarrow> Runtime \<Rightarrow> unit result" where
  "checkSettings spam reject c =
     (if rc_NtfyURL c \<noteq> [] \<and> ParseRequestURI (rc_NtfyURL c) = None then Inl ''invalid ntfy_url loaded from DB''
      else if floatGe spam reject then Inl ''persisted spam_score/reject_score are invalid'' else Inr ())"

text \<open>The settings of the database over those of the environment; secrets are decrypted with the key that was just set.\<close>

definition keyString :: "bytes \<Rightarrow> string" where
  "keyString k = map (\<lambda>b. char_of (unat b)) k"

definition readSettings :: "boot_env \<Rightarrow> dbfile \<Rightarrow> bytes \<Rightarrow> FullConfig \<Rightarrow> Runtime result" where
  "readSettings B f key cfg =
     (let c = loadPersistedSettings ((be_settings B)\<lparr>sv_key := keyString key\<rparr>) (be_rows B f) (runtimeOf cfg);
          spam = persistedScore (be_rows B f) ''spam_score'' (cf_SpamScore cfg);
          reject = persistedScore (be_rows B f) ''reject_score'' (cf_RejectScore cfg)
      in case checkSettings spam reject c of Inl e \<Rightarrow> Inl e | Inr _ \<Rightarrow> Inr c)"

definition cidrCheck :: "FullConfig \<Rightarrow> unit result" where
  "cidrCheck c = (case parseCIDRs (cf_MetricsAllowedCIDRs c) of None \<Rightarrow> Inl ''metrics handler init failed'' | Some _ \<Rightarrow> Inr ())"

text \<open>The answer of the integrity check is only logged: the start carries it along and nothing depends on it. The listeners and the background tasks run from \<open>ListenersStarted\<close> and
  \<open>TasksStarted\<close> on; the network ranges of the metrics and scan handlers are parsed after that.\<close>

definition openData :: "boot_env \<Rightarrow> (FullConfig \<times> unit result \<times> Runtime) boot" where
  "openData B =
     andThen (attempt ConfigLoaded (Load (be_parsers B) (be_bcryptCost B) (be_yaml B) (be_env B))) (\<lambda>cfg.
     andThen (attempt DirsMade (mkdirs (be_mkdir B) (runtimeDirs cfg))) (\<lambda>_.
     andThen (attempt DBOpened (Open (be_open B) (be_sqlDB B) (fc_DBPath cfg))) (\<lambda>f.
     andThen (attempt Migrated (case snd (Migrate (be_migrate B) (be_schema B f)) of Some e \<Rightarrow> Inl e | None \<Rightarrow> Inr ())) (\<lambda>_.
     let logged = IntegrityCheck (be_integrity B f) in
     andThen (attempt KeySet (encryptionKey cfg)) (\<lambda>key.
     andThen (attempt SettingsLoaded (readSettings B f key cfg)) (\<lambda>c.
     ([], Inr (cfg, logged, c))))))))"

definition newClassifier :: "boot_env \<Rightarrow> FullConfig \<Rightarrow> onnx option result" where
  "newClassifier B cfg =
     (if \<not> be_ai B then Inr None
      else (case NewONNXScanner (be_models B) (be_runtime B) (fc_ONNXModelsDir cfg)
                   (be_f32 B (fc_ONNXBERTThreshold cfg)) (be_f32 B (fc_ONNXDGAThreshold cfg)) of
              Inl e \<Rightarrow> Inl e | Inr ox \<Rightarrow> Inr (Some ox)))"

definition startScanners :: "boot_env \<Rightarrow> FullConfig \<Rightarrow> Runtime \<Rightarrow> onnx option boot" where
  "startScanners B cfg c =
     andThen (attempt AccountsMigrated (Inr ())) (\<lambda>_.
     andThen (attempt TemplatesReady (be_templates B)) (\<lambda>_.
     andThen (attempt StorageReady (be_storage B)) (\<lambda>_.
     andThen (attempt SessionsLoaded (Inr ())) (\<lambda>_.
     andThen (attempt RulesLoaded (NewYARA (be_rules B) (rc_YARARulesDir c))) (\<lambda>_.
     attempt ModelsLoaded (newClassifier B cfg))))))"

definition boot :: "boot_env \<Rightarrow> unit boot" where
  "boot B =
     andThen (openData B) (\<lambda>(cfg, logged, c).
     andThen (startScanners B cfg c) (\<lambda>_.
     andThen (attempt ListenersStarted (Inr ())) (\<lambda>_.
     andThen (attempt TasksStarted (Inr ())) (\<lambda>_.
     attempt Serving (cidrCheck cfg)))))"

definition scanSemMax :: "int \<Rightarrow> int" where
  "scanSemMax configured = (if configured \<le> 0 then 20 else configured)"

text \<open>A pipeline uses the semaphore it is given, the shared one, or makes its own.\<close>

definition pipelineSem :: "int option \<Rightarrow> int \<Rightarrow> int" where
  "pipelineSem sem configured = (case sem of Some capacity \<Rightarrow> capacity | None \<Rightarrow> if configured \<le> 0 then 20 else configured)"

lemma pipelines_share_capacity: "pipelineSem (Some (scanSemMax configured)) configured = pipelineSem None configured \<and> 0 < pipelineSem None configured"
  by (simp add: pipelineSem_def scanSemMax_def)

datatype level = LevelDebug | LevelInfo | LevelWarn | LevelError

definition initLogger :: "FullConfig \<Rightarrow> level \<times> bool" where
  "initLogger c =
     ((if fc_LogLevel c = ''debug'' then LevelDebug else if fc_LogLevel c = ''warn'' then LevelWarn
       else if fc_LogLevel c = ''error'' then LevelError else LevelInfo), fc_LogFormat c = ''text'')"


section \<open>What has been checked before the mail is touched\<close>

lemma snd_andThen: "snd (andThen m f) = (case snd m of Inl e \<Rightarrow> Inl e | Inr x \<Rightarrow> snd (f x))"
  by (simp add: andThen_def split: prod.split sum.split)

lemma in_andThen: "st \<in> set (fst (andThen m f)) \<longleftrightarrow> st \<in> set (fst m) \<or> (\<exists>x. snd m = Inr x \<and> st \<in> set (fst (f x)))"
  by (auto simp: andThen_def split: prod.split sum.split)

lemma attempt_simps [simp]:
  "snd (attempt st r) = r" "st' \<in> set (fst (attempt st r)) \<longleftrightarrow> st' = st \<and> (\<exists>x. r = Inr x)"
  by (auto simp: attempt_def split: sum.split)

lemma andThen_ok: "snd (andThen m f) = Inr y \<longleftrightarrow> (\<exists>x. snd m = Inr x \<and> snd (f x) = Inr y)"
  by (simp add: snd_andThen split: sum.split)

lemma mkdirs_ok: "mkdirs mk ds = Inr () \<longleftrightarrow> (\<forall>d \<in> set ds. mk d = Inr ())"
  by (induction ds) (auto split: sum.split)

lemma openData_ok:
  assumes "snd (openData B) = Inr (cfg, logged, c)"
  shows "Load (be_parsers B) (be_bcryptCost B) (be_yaml B) (be_env B) = Inr cfg"
    and "\<forall>d \<in> set (runtimeDirs cfg). be_mkdir B d = Inr ()"
    and "\<exists>f key. Open (be_open B) (be_sqlDB B) (fc_DBPath cfg) = Inr f \<and> snd (Migrate (be_migrate B) (be_schema B f)) = None
      \<and> hexDecode (cf_DBEncryptionKey cfg) = Some key \<and> length key = 32 \<and> readSettings B f key cfg = Inr c"
  using assms
  by (auto simp: openData_def andThen_ok mkdirs_ok encryptionKey_def Let_def split: option.splits if_splits)


definition bootOrder :: "stage list" where
  "bootOrder = [ConfigLoaded, DirsMade, DBOpened, Migrated, KeySet, SettingsLoaded, AccountsMigrated, TemplatesReady, StorageReady, SessionsLoaded,
     RulesLoaded, ModelsLoaded, ListenersStarted, TasksStarted, Serving]"

text \<open>The stages come in one order, and a failure stops them.\<close>

definition staged :: "'a boot \<Rightarrow> stage list \<Rightarrow> bool" where
  "staged m ts \<longleftrightarrow> prefix (fst m) ts \<and> (\<forall>x. snd m = Inr x \<longrightarrow> fst m = ts)"

lemma staged_return: "staged ([], Inr x) []"
  by (simp add: staged_def)

lemma staged_attempt: "staged (attempt st r) [st]"
  by (simp add: staged_def attempt_def split: sum.split)

lemma staged_andThen: "staged m ts \<Longrightarrow> (\<And>x. staged (f x) us) \<Longrightarrow> staged (andThen m f) (ts @ us)"
  by (auto simp: staged_def andThen_def split: prod.splits sum.splits) (metis fst_conv snd_conv)+

lemma staged_Cons: "(\<And>x. staged (f x) us) \<Longrightarrow> staged (andThen (attempt st r) f) (st # us)"
  using staged_andThen [OF staged_attempt] by fastforce

lemma staged_openData: "staged (openData B) [ConfigLoaded, DirsMade, DBOpened, Migrated, KeySet, SettingsLoaded]"
  unfolding openData_def Let_def by (intro staged_Cons staged_return)

lemma staged_startScanners:
  "staged (startScanners B cfg c) [AccountsMigrated, TemplatesReady, StorageReady, SessionsLoaded, RulesLoaded, ModelsLoaded]"
  unfolding startScanners_def by (intro staged_Cons staged_attempt)

lemma boot_in_order: "prefix (fst (boot B)) bootOrder"
proof -
  have "staged (boot B) ([ConfigLoaded, DirsMade, DBOpened, Migrated, KeySet, SettingsLoaded]
      @ [AccountsMigrated, TemplatesReady, StorageReady, SessionsLoaded, RulesLoaded, ModelsLoaded] @ [ListenersStarted, TasksStarted, Serving])"
    unfolding boot_def case_prod_beta'
    by (intro staged_andThen staged_openData staged_startScanners staged_Cons staged_attempt)
  then show ?thesis by (simp add: staged_def bootOrder_def)
qed

text \<open>The start goes the same way whatever the integrity check answers.\<close>

lemma boot_ignores_integrity: "fst (boot (B\<lparr>be_integrity := chk\<rparr>)) = fst (boot B)"
proof -
  have assoc: "andThen (andThen m f) h = andThen m (\<lambda>x. andThen (f x) h)" for m :: "'a boot" and f :: "'a \<Rightarrow> 'b boot" and h :: "'b \<Rightarrow> 'c boot"
    by (auto simp: andThen_def split: prod.splits sum.splits)
  have ret: "andThen ([], Inr x) h = h x" for x :: 'a and h :: "'a \<Rightarrow> 'b boot" by (simp add: andThen_def split: prod.splits)
  have same: "newClassifier (B\<lparr>be_integrity := chk\<rparr>) = newClassifier B" by (rule ext) (cases "be_ai B"; simp add: newClassifier_def)
  show ?thesis by (simp add: boot_def openData_def startScanners_def same readSettings_def Let_def assoc ret)
qed


text \<open>But the network ranges of the metrics and scan endpoints are parsed last: with a mistake there, the process ends after the listeners and the tasks have started.\<close>

lemma bad_range_exits_late:
  assumes "snd (openData B) = Inr (cfg, logged, c)" and "snd (startScanners B cfg c) = Inr ox" and "parseCIDRs (cf_MetricsAllowedCIDRs cfg) = None"
  shows "snd (boot B) = Inl ''metrics handler init failed'' \<and> ListenersStarted \<in> set (fst (boot B)) \<and> TasksStarted \<in> set (fst (boot B))"
  using assms by (simp add: boot_def snd_andThen in_andThen cidrCheck_def)

lemma exits_late_only_so: "TasksStarted \<in> set (fst (boot B)) \<Longrightarrow> snd (boot B) = Inl e \<Longrightarrow> e = ''metrics handler init failed''"
  by (auto simp: boot_def snd_andThen in_andThen openData_def startScanners_def cidrCheck_def Let_def split: sum.splits option.splits)


lemma hexDecode_zeros: "hexDecode (replicate (2 * n) CHR ''0'') = Some (replicate n 0)"
  by (induction n) (simp_all add: isHex_def unhex_def isDigit_def)

definition demoBoot :: boot_env where
  "demoBoot = \<lparr>be_parsers = \<lparr>pa_float = (\<lambda>_. None), pa_duration = (\<lambda>_. None)\<rparr>, be_bcryptCost = (\<lambda>_. True), be_yaml = (\<lambda>_. YamlMissing), be_env = ConfigLoad.demoEnv,
     be_mkdir = (\<lambda>_. Inr ()), be_open = (\<lambda>_. Inr ()), be_sqlDB = Inr (), be_migrate = quietMigrate, be_schema = (\<lambda>_. oldSchema),
     be_integrity = (\<lambda>_. Inr ''ok''), be_settings = Settings.demoEnv, be_rows = (\<lambda>_. Map.empty),
     be_templates = Inr (), be_storage = Inr (),
     be_rules = \<lparr>rf_now = 0, rf_compiler = None, rf_walk = (\<lambda>_. []), rf_add = (\<lambda>_ _ _. None), rf_rules = (\<lambda>_. Inl []), rf_size = (\<lambda>_. 0)\<rparr>,
     be_ai = True, be_models = \<lparr>mf_embedded = (\<lambda>_. Inl []), mf_disk = (\<lambda>_. Inl [])\<rparr>,
     be_runtime = \<lparr>rt_env = Inr (), rt_bertSession = (\<lambda>_. Inl []), rt_fromReader = (\<lambda>_. Inl []), rt_dgaSession = (\<lambda>_. Inl [])\<rparr>, be_f32 = number\<rparr>"

lemma demoBoot_starts: "ListenersStarted \<in> set (fst (boot demoBoot))"
proof -
  obtain cfg where l: "Load (be_parsers demoBoot) (be_bcryptCost demoBoot) (be_yaml demoBoot) (be_env demoBoot) = Inr cfg"
    and cfg: "cf_SpamScore cfg = Finite 5" "cf_RejectScore cfg = Finite 15" "cf_DBEncryptionKey cfg = replicate (2 * 32) CHR ''0''" "cf_NtfyURL cfg = []"
    using demo_load by (auto simp: demoBoot_def)
  have m: "snd (Migrate quietMigrate oldSchema) = None" by code_simp
  have p: "loadPersistedSettings E Map.empty (runtimeOf cfg) = runtimeOf cfg" for E
    by (simp add: loadPersisted_eq strOf_def floatOf_def secretOf_def runtimeOf_def)
  have "readSettings demoBoot f key cfg = Inr (runtimeOf cfg)" for f key
    using cfg by (simp add: readSettings_def demoBoot_def p checkSettings_def persistedScore_def floatGe_def) (simp add: runtimeOf_def)
  moreover have "encryptionKey cfg = Inr (replicate 32 0)"
    using hexDecode_zeros [of 32] cfg(3) by (simp add: encryptionKey_def)
  moreover have "\<exists>f. Open (be_open demoBoot) (be_sqlDB demoBoot) path = Inr f" for path by (simp add: Open_def demoBoot_def)
  moreover have "mkdirs (be_mkdir demoBoot) ds = Inr ()" for ds by (simp add: mkdirs_ok demoBoot_def)
  moreover have "snd (Migrate (be_migrate demoBoot) (be_schema demoBoot f)) = None" for f using m by (simp add: demoBoot_def)
  ultimately have "\<exists>logged. snd (openData demoBoot) = Inr (cfg, logged, runtimeOf cfg)"
    using l by (auto simp: openData_def snd_andThen Let_def split: sum.split) (metis Inl_Inr_False)
  moreover have "\<exists>ox. snd (startScanners demoBoot cfg (runtimeOf cfg)) = Inr ox"
    by (simp add: startScanners_def snd_andThen demoBoot_def NewYARA_def loadRules_def newClassifier_def NewONNXScanner_def Let_def)
  ultimately show ?thesis by (auto simp: boot_def in_andThen)
qed


end
