(* ===== verification/Shutdown.thy ===== *)
theory Shutdown
  imports Refinement "HOL-Library.Multiset"
begin

text \<open>
  The running program and its end (\<^verbatim>\<open>app/main.go\<close>, from the wait groups on) as a step relation: the goroutine that waits for the signal, drains HTTP, saves the sessions,
  cancels the background context and waits for the mail workers; the tasks of the wait group; the listeners and backfills that spawn mail workers; the requests; and the
  main goroutine, which closes the database when all of them are over or thirty seconds have passed.
\<close>

section \<open>State\<close>

datatype task = Backfill string | FeedRun | RetroRun | WatchRules | SweepLoop | LimiterSweep | DailyMaintenance | GaugeRefresh

text \<open>The two contexts: the signal's, and the background one.\<close>

fun usesSignalCtx :: "task \<Rightarrow> bool" where
  "usesSignalCtx SweepLoop = True"
| "usesSignalCtx LimiterSweep = True"
| "usesSignalCtx _ = False"

datatype owner = Listeners | BackfillOf string

datatype http_state = HttpServing | HttpDraining | HttpFailed

text \<open>The shutdown goroutine: before the signal, in \<^verbatim>\<open>srv.Shutdown\<close>, before \<^verbatim>\<open>PersistToDB\<close>, before \<^verbatim>\<open>bgCancel\<close>, in \<^verbatim>\<open>pipelineWg.Wait\<close>, over.\<close>

datatype sd_pc = SdSignal | SdDrain | SdPersist | SdCancel | SdPipeline | SdOver

text \<open>The main goroutine: in \<^verbatim>\<open>ListenAndServe\<close>, waiting for the group, running its deferred calls, with the database closed, gone.\<close>

datatype main_pc = MainServe | MainWait | MainDefers | MainClosed | MainExited

datatype user = UserTask task | UserWorker owner | UserRequest | UserUntracked

text \<open>
  \<open>queued\<close> holds the workers that were started but have not registered yet (\<^verbatim>\<open>pipelineWg.Add\<close> is their first statement), \<open>scanning\<close> the registered ones. \<open>untracked\<close> counts goroutines that no wait
  group knows: the first feed refresh, bulk actions and refreshes asked for in the dashboard. History: whether the ten-second and the thirty-second limit struck, whether the
  saving of the sessions has run and whether it failed, logins after that, registrations after the wait for the workers was over, and who used the database when it was closed.
\<close>

record life =
  signalled :: bool
  bgCancelled :: bool
  http :: http_state
  requests :: nat
  tasks :: "task set"
  listening :: bool
  queued :: "owner multiset"
  scanning :: "owner multiset"
  untracked :: nat
  sd :: sd_pc
  main :: main_pc
  persisted :: bool
  saveFailed :: bool
  drainLimit :: bool
  mainLimit :: bool
  lateLogins :: nat
  stray :: nat
  lateUsers :: "user set"

definition startTasks :: "string set \<Rightarrow> task set" where
  "startTasks backfills = Backfill ` backfills \<union> {FeedRun, RetroRun, WatchRules, SweepLoop, LimiterSweep, DailyMaintenance, GaugeRefresh}"

definition started :: "life \<Rightarrow> bool" where
  "started s \<longleftrightarrow> \<not> signalled s \<and> \<not> bgCancelled s \<and> http s = HttpServing \<and> requests s = 0 \<and> (\<exists>bs. finite bs \<and> tasks s = startTasks bs)
     \<and> listening s \<and> queued s = {#} \<and> scanning s = {#} \<and> sd s = SdSignal \<and> main s = MainServe \<and> \<not> persisted s \<and> \<not> saveFailed s \<and> \<not> drainLimit s \<and> \<not> mainLimit s
     \<and> lateLogins s = 0 \<and> stray s = 0 \<and> lateUsers s = {}"

section \<open>Steps\<close>

text \<open>A use of the database.\<close>

definition use :: "user \<Rightarrow> life \<Rightarrow> life" where
  "use u s = (if main s = MainClosed then s\<lparr>lateUsers := insert u (lateUsers s)\<rparr> else s)"

text \<open>A session that is created after the sessions were saved is lost.\<close>

definition logIn :: "life \<Rightarrow> life" where
  "logIn s = (if persisted s then s\<lparr>lateLogins := Suc (lateLogins s)\<rparr> else s)"

definition register :: "owner \<Rightarrow> life \<Rightarrow> life" where
  "register w s = s\<lparr>queued := queued s - {#w#}, scanning := add_mset w (scanning s), stray := stray s + (if sd s = SdOver then 1 else 0)\<rparr>"

definition mayEnd :: "task \<Rightarrow> life \<Rightarrow> bool" where
  "mayEnd t s \<longleftrightarrow>
     (case t of Backfill a \<Rightarrow> BackfillOf a \<notin> set_mset (queued s) \<union> set_mset (scanning s)
      | _ \<Rightarrow> if usesSignalCtx t then signalled s else bgCancelled s)"

text \<open>\<^verbatim>\<open>wg\<close> counts the tasks and the shutdown goroutine.\<close>

definition wgZero :: "life \<Rightarrow> bool" where
  "wgZero s \<longleftrightarrow> tasks s = {} \<and> sd s = SdOver"

inductive life_step :: "life \<Rightarrow> life \<Rightarrow> bool" where
  signal: "main s \<noteq> MainExited \<Longrightarrow> life_step s (s\<lparr>signalled := True\<rparr>)"
| listen_fails: "main s = MainServe \<Longrightarrow> http s = HttpServing \<Longrightarrow> life_step s (s\<lparr>http := HttpFailed, main := MainWait\<rparr>)"
| listen_returns: "main s = MainServe \<Longrightarrow> http s = HttpDraining \<Longrightarrow> life_step s (s\<lparr>main := MainWait\<rparr>)"
| request: "main s \<noteq> MainExited \<Longrightarrow> http s = HttpServing \<Longrightarrow> life_step s (s\<lparr>requests := Suc (requests s)\<rparr>)"
| request_uses: "main s \<noteq> MainExited \<Longrightarrow> 0 < requests s \<Longrightarrow> life_step s (use UserRequest s)"
| request_logs_in: "main s \<noteq> MainExited \<Longrightarrow> 0 < requests s \<Longrightarrow> life_step s (logIn s)"
| request_detaches: "main s \<noteq> MainExited \<Longrightarrow> 0 < requests s \<Longrightarrow> life_step s (s\<lparr>untracked := Suc (untracked s)\<rparr>)"
| request_ends: "main s \<noteq> MainExited \<Longrightarrow> 0 < requests s \<Longrightarrow> life_step s (s\<lparr>requests := requests s - 1\<rparr>)"
| untracked_uses: "main s \<noteq> MainExited \<Longrightarrow> 0 < untracked s \<Longrightarrow> life_step s (use UserUntracked s)"
| untracked_ends: "main s \<noteq> MainExited \<Longrightarrow> 0 < untracked s \<Longrightarrow> life_step s (s\<lparr>untracked := untracked s - 1\<rparr>)"
| task_uses: "main s \<noteq> MainExited \<Longrightarrow> t \<in> tasks s \<Longrightarrow> life_step s (use (UserTask t) s)"
| task_ends: "main s \<noteq> MainExited \<Longrightarrow> t \<in> tasks s \<Longrightarrow> mayEnd t s \<Longrightarrow> life_step s (s\<lparr>tasks := tasks s - {t}\<rparr>)"
| listener_spawns: "main s \<noteq> MainExited \<Longrightarrow> listening s \<Longrightarrow> life_step s (s\<lparr>queued := add_mset Listeners (queued s)\<rparr>)"
| listener_ends: "main s \<noteq> MainExited \<Longrightarrow> signalled s \<Longrightarrow> life_step s (s\<lparr>listening := False\<rparr>)"
| backfill_spawns: "main s \<noteq> MainExited \<Longrightarrow> Backfill a \<in> tasks s \<Longrightarrow> life_step s (s\<lparr>queued := add_mset (BackfillOf a) (queued s)\<rparr>)"
| worker_registers: "main s \<noteq> MainExited \<Longrightarrow> w \<in># queued s \<Longrightarrow> life_step s (register w s)"
| worker_uses: "main s \<noteq> MainExited \<Longrightarrow> w \<in># scanning s \<Longrightarrow> life_step s (use (UserWorker w) s)"
| worker_ends: "main s \<noteq> MainExited \<Longrightarrow> w \<in># scanning s \<Longrightarrow> life_step s (s\<lparr>scanning := scanning s - {#w#}\<rparr>)"
| sd_begins: "main s \<noteq> MainExited \<Longrightarrow> sd s = SdSignal \<Longrightarrow> signalled s \<Longrightarrow>
    life_step s (s\<lparr>sd := SdDrain, http := (if http s = HttpServing then HttpDraining else http s)\<rparr>)"
| sd_drained: "main s \<noteq> MainExited \<Longrightarrow> sd s = SdDrain \<Longrightarrow> requests s = 0 \<Longrightarrow> life_step s (s\<lparr>sd := SdPersist\<rparr>)"
| sd_drain_limit: "main s \<noteq> MainExited \<Longrightarrow> sd s = SdDrain \<Longrightarrow> life_step s (s\<lparr>sd := SdPersist, drainLimit := True\<rparr>)"
| sd_persists: "main s \<noteq> MainExited \<Longrightarrow> sd s = SdPersist \<Longrightarrow> life_step s (s\<lparr>sd := SdCancel, persisted := True\<rparr>)"
| sd_persist_fails: "main s \<noteq> MainExited \<Longrightarrow> sd s = SdPersist \<Longrightarrow> life_step s (s\<lparr>sd := SdCancel, persisted := True, saveFailed := True\<rparr>)"
| sd_cancels: "main s \<noteq> MainExited \<Longrightarrow> sd s = SdCancel \<Longrightarrow> life_step s (s\<lparr>sd := SdPipeline, bgCancelled := True\<rparr>)"
| sd_waited: "main s \<noteq> MainExited \<Longrightarrow> sd s = SdPipeline \<Longrightarrow> scanning s = {#} \<Longrightarrow> life_step s (s\<lparr>sd := SdOver\<rparr>)"
| main_complete: "main s = MainWait \<Longrightarrow> wgZero s \<Longrightarrow> life_step s (s\<lparr>main := MainDefers\<rparr>)"
| main_limit: "main s = MainWait \<Longrightarrow> life_step s (s\<lparr>main := MainDefers, mainLimit := True\<rparr>)"
| main_closes: "main s = MainDefers \<Longrightarrow> life_step s (s\<lparr>main := MainClosed, bgCancelled := True\<rparr>)"
| main_exits: "main s = MainClosed \<Longrightarrow> life_step s (s\<lparr>main := MainExited\<rparr>)"

inductive_cases life_stepE: "life_step s s'"

abbreviation lifeReachable :: "life \<Rightarrow> bool" where
  "lifeReachable \<equiv> reachable started life_step"

section \<open>Invariants\<close>

lemmas life_ops = use_def logIn_def register_def mayEnd_def wgZero_def

text \<open>The stages follow each other: HTTP is drained, or the limit struck, before the sessions are saved, before the tasks are cancelled.\<close>

definition stagesOK :: "life \<Rightarrow> bool" where
  "stagesOK s \<longleftrightarrow> (sd s \<noteq> SdSignal \<longrightarrow> signalled s \<and> http s \<noteq> HttpServing)
     \<and> (sd s \<notin> {SdSignal, SdDrain} \<longrightarrow> drainLimit s \<or> requests s = 0)
     \<and> (persisted s \<longleftrightarrow> sd s \<in> {SdCancel, SdPipeline, SdOver})
     \<and> (lateLogins s \<noteq> 0 \<longrightarrow> drainLimit s)
     \<and> (sd s \<in> {SdPipeline, SdOver} \<longrightarrow> bgCancelled s)"

text \<open>Without the thirty-second limit, the deferred calls run when the group is done. Workers of a backfill have their backfill still running, and workers that registered in time are over.\<close>

definition groupOK :: "life \<Rightarrow> bool" where
  "groupOK s \<longleftrightarrow> (main s \<in> {MainDefers, MainClosed, MainExited} \<and> \<not> mainLimit s \<longrightarrow> wgZero s)
     \<and> (\<forall>a. BackfillOf a \<in> set_mset (queued s) \<union> set_mset (scanning s) \<longrightarrow> Backfill a \<in> tasks s)
     \<and> (sd s = SdOver \<longrightarrow> size (scanning s) \<le> stray s)
     \<and> finite (tasks s)
     \<and> (main s = MainServe \<longrightarrow> http s \<noteq> HttpFailed) \<and> (main s = MainWait \<longrightarrow> http s \<noteq> HttpServing)"

text \<open>Who can meet the closed database.\<close>

definition usersOK :: "life \<Rightarrow> bool" where
  "usersOK s \<longleftrightarrow> (\<not> mainLimit s \<longrightarrow> lateUsers s \<subseteq> {UserUntracked, UserWorker Listeners, UserRequest})
     \<and> (\<not> mainLimit s \<and> UserWorker Listeners \<in> lateUsers s \<longrightarrow> stray s \<noteq> 0)
     \<and> (\<not> mainLimit s \<and> UserRequest \<in> lateUsers s \<longrightarrow> drainLimit s)
     \<and> (mainLimit s \<longrightarrow> main s \<in> {MainDefers, MainClosed, MainExited})
     \<and> (lateUsers s \<noteq> {} \<longrightarrow> main s \<in> {MainClosed, MainExited})"

lemma stagesOK_step: "stagesOK s \<Longrightarrow> life_step s s' \<Longrightarrow> stagesOK s'"
  by (erule life_stepE) (auto simp: stagesOK_def life_ops)

lemma groupOK_step:
  assumes "groupOK s" and "life_step s s'"
  shows "groupOK s'"
  using assms(2)
proof (cases rule: life_step.cases)
  case (task_ends t)
  then show ?thesis using assms(1) by (auto simp: groupOK_def life_ops split: task.splits)
next
  case (worker_ends w)
  then have "size (scanning s') \<le> size (scanning s)" by (simp add: size_Diff_singleton)
  then show ?thesis using assms(1) worker_ends by (auto simp: groupOK_def life_ops dest: in_diffD)
next
  case (worker_registers w)
  then show ?thesis using assms(1) by (auto simp: groupOK_def life_ops dest: in_diffD)
qed (use assms(1) in \<open>auto simp: groupOK_def life_ops\<close>)


lemma usersOK_step:
  assumes "usersOK s" and "stagesOK s" and "groupOK s" and "life_step s s'"
  shows "usersOK s'"
  using assms(4)
proof (cases rule: life_step.cases)
  case (request_uses)
  then show ?thesis using assms(1-3) by (auto simp: usersOK_def stagesOK_def groupOK_def life_ops)
next
  case (task_uses t)
  then show ?thesis using assms(1,3) by (auto simp: usersOK_def groupOK_def life_ops)
next
  case (worker_uses w)
  have "w = Listeners \<and> stray s \<noteq> 0" if "\<not> mainLimit s" "main s = MainClosed"
  proof -
    have "size (scanning s) \<le> stray s" "w = Listeners"
      using assms(3) that worker_uses by (cases w; auto simp: groupOK_def wgZero_def)+
    then show ?thesis using worker_uses by (metis empty_not_add_mset le_zero_eq multi_member_split size_eq_0_iff_empty)
  qed
  then show ?thesis using assms(1) worker_uses by (auto simp: usersOK_def use_def)
qed (use assms(1) in \<open>auto simp: usersOK_def life_ops\<close>)

definition programOK :: "life \<Rightarrow> bool" where
  "programOK s \<longleftrightarrow> stagesOK s \<and> groupOK s \<and> usersOK s"

lemma programOK_started: "started s \<Longrightarrow> programOK s"
  by (auto simp: started_def programOK_def stagesOK_def groupOK_def usersOK_def startTasks_def)

lemma programOK_step: "programOK s \<Longrightarrow> life_step s s' \<Longrightarrow> programOK s'"
  unfolding programOK_def using stagesOK_step groupOK_step usersOK_step by blast

interpretation life: inductive_invariant started life_step "\<lambda>_. True" programOK
  by unfold_locales (auto intro: programOK_started programOK_step)

text \<open>
  C13. An orderly end: when the process closes the database before the thirty-second limit, the saving of the sessions has run (the program ignores whether it failed), no task of the program is left, no worker of a backfill is left, HTTP is drained (or its ten-second
  limit struck), every mail worker that is left registered after the wait for the workers was over, and nothing the wait groups know has met or can meet the closed database.
\<close>

theorem orderly_shutdown:
  assumes "lifeReachable s" and "main s \<in> {MainClosed, MainExited}" and "\<not> mainLimit s"
  shows "persisted s \<and> tasks s = {} \<and> (drainLimit s \<or> requests s = 0 \<and> lateLogins s = 0) \<and> size (scanning s) \<le> stray s
    \<and> set_mset (queued s) \<union> set_mset (scanning s) \<subseteq> {Listeners}
    \<and> lateUsers s \<subseteq> {UserUntracked} \<union> (if drainLimit s then {UserRequest} else {}) \<union> (if stray s = 0 then {} else {UserWorker Listeners})"
proof -
  have ok: "stagesOK s" "groupOK s" "usersOK s" using life.holds [OF assms(1)] by (auto simp: programOK_def)
  have over: "tasks s = {}" "sd s = SdOver" using ok(2) assms(2,3) by (auto simp: groupOK_def wgZero_def)
  have "set_mset (queued s) \<union> set_mset (scanning s) \<subseteq> {Listeners}"
  proof
    fix w assume "w \<in> set_mset (queued s) \<union> set_mset (scanning s)"
    then show "w \<in> {Listeners}" using ok(2) over(1) by (cases w) (auto simp: groupOK_def)
  qed
  moreover have "persisted s" "drainLimit s \<or> requests s = 0" "lateLogins s \<noteq> 0 \<longrightarrow> drainLimit s" using ok(1) over(2) by (auto simp: stagesOK_def)
  moreover have "size (scanning s) \<le> stray s" using ok(2) over(2) by (simp add: groupOK_def)
  moreover have "lateUsers s \<subseteq> {UserUntracked, UserWorker Listeners, UserRequest}"
    "UserWorker Listeners \<in> lateUsers s \<longrightarrow> stray s \<noteq> 0" "UserRequest \<in> lateUsers s \<longrightarrow> drainLimit s"
    using ok(3) assms(3) by (auto simp: usersOK_def)
  ultimately show ?thesis using over(1) by auto
qed


section \<open>The end is always possible\<close>

lemma steps_requests: "main s \<noteq> MainExited \<Longrightarrow> life_step\<^sup>*\<^sup>* s (s\<lparr>requests := 0\<rparr>)"
proof (induction "requests s" arbitrary: s)
  case 0
  then have "s\<lparr>requests := 0\<rparr> = s" by (cases s) simp
  then show ?case by simp
next
  case (Suc n)
  have "life_step s (s\<lparr>requests := requests s - 1\<rparr>)" by (rule life_step.request_ends) (use Suc in simp_all)
  moreover have "life_step\<^sup>*\<^sup>* (s\<lparr>requests := requests s - 1\<rparr>) (s\<lparr>requests := 0\<rparr>)"
    using Suc(1) [of "s\<lparr>requests := requests s - 1\<rparr>"] Suc(2,3) by simp
  ultimately show ?case by (rule converse_rtranclp_into_rtranclp)
qed

lemma steps_scanning: "main s \<noteq> MainExited \<Longrightarrow> life_step\<^sup>*\<^sup>* s (s\<lparr>scanning := {#}\<rparr>)"
proof (induction "scanning s" arbitrary: s)
  case empty
  then have "s\<lparr>scanning := {#}\<rparr> = s" by (cases s) simp
  then show ?case by simp
next
  case (add w ws)
  have "scanning s - {#w#} = ws" "w \<in># scanning s" using add(2) [symmetric] by simp_all
  then have "life_step s (s\<lparr>scanning := ws\<rparr>)" using life_step.worker_ends [of s w] add(3) by simp
  moreover have "life_step\<^sup>*\<^sup>* (s\<lparr>scanning := ws\<rparr>) (s\<lparr>scanning := {#}\<rparr>)"
    using add(1) [of "s\<lparr>scanning := ws\<rparr>"] add(3) by simp
  ultimately show ?case by (rule converse_rtranclp_into_rtranclp)
qed

lemma steps_queued: "main s \<noteq> MainExited \<Longrightarrow> \<exists>n. life_step\<^sup>*\<^sup>* s (s\<lparr>queued := {#}, scanning := queued s + scanning s, stray := n\<rparr>)"
proof (induction "queued s" arbitrary: s)
  case empty
  then have "s\<lparr>queued := {#}, scanning := queued s + scanning s, stray := stray s\<rparr> = s" by (cases s) simp
  then show ?case by (metis rtranclp.rtrancl_refl)
next
  case (add w ws)
  have q: "queued s - {#w#} = ws" "w \<in># queued s" using add(2) [symmetric] by simp_all
  let ?s = "register w s"
  have "life_step s ?s" using life_step.worker_registers [of s w] add(3) q by simp
  moreover obtain n where "life_step\<^sup>*\<^sup>* ?s (?s\<lparr>queued := {#}, scanning := queued ?s + scanning ?s, stray := n\<rparr>)"
    using add(1) [of ?s] add(3) q by (auto simp: register_def)
  moreover have "?s\<lparr>queued := {#}, scanning := queued ?s + scanning ?s, stray := n\<rparr> = s\<lparr>queued := {#}, scanning := queued s + scanning s, stray := n\<rparr>"
    using q(1) add(2) [symmetric] by (simp add: register_def)
  ultimately show ?case by (metis converse_rtranclp_into_rtranclp)
qed

lemma steps_tasks:
  assumes "finite (tasks s)" and "main s \<noteq> MainExited" and "signalled s" and "bgCancelled s"
    and "\<forall>a. BackfillOf a \<notin> set_mset (queued s) \<union> set_mset (scanning s)"
  shows "life_step\<^sup>*\<^sup>* s (s\<lparr>tasks := {}\<rparr>)"
  using assms
proof (induction "tasks s" arbitrary: s rule: finite_induct)
  case empty
  then have "s\<lparr>tasks := {}\<rparr> = s" by (cases s) simp
  then show ?case by simp
next
  case (insert t ts)
  have t: "tasks s - {t} = ts" "t \<in> tasks s" using insert(2,4) by auto
  have "mayEnd t s" using insert(6-8) by (cases t) (simp_all add: mayEnd_def)
  then have "life_step s (s\<lparr>tasks := ts\<rparr>)" using life_step.task_ends [of s t] insert(5) t by simp
  moreover have "life_step\<^sup>*\<^sup>* (s\<lparr>tasks := ts\<rparr>) (s\<lparr>tasks := {}\<rparr>)"
    using insert(3) [of "s\<lparr>tasks := ts\<rparr>"] insert(5-8) by simp
  ultimately show ?case by (rule converse_rtranclp_into_rtranclp)
qed


text \<open>Every request and worker is over and the signal has come, but the process still serves or waits.\<close>

definition quiet :: "life \<Rightarrow> bool" where
  "quiet s \<longleftrightarrow> programOK s \<and> requests s = 0 \<and> queued s = {#} \<and> scanning s = {#} \<and> signalled s \<and> main s \<in> {MainServe, MainWait}"

definition endsOrderly :: "life \<Rightarrow> bool" where
  "endsOrderly s \<longleftrightarrow> (\<exists>s'. life_step\<^sup>*\<^sup>* s s' \<and> main s' = MainExited \<and> persisted s' \<and> tasks s' = {} \<and> \<not> mainLimit s' \<and> drainLimit s' = drainLimit s \<and> lateUsers s' = {})"

lemma endsOrderly_back:
  assumes "life_step\<^sup>*\<^sup>* s s1" and "drainLimit s1 = drainLimit s" and "endsOrderly s1"
  shows "endsOrderly s"
  using assms unfolding endsOrderly_def by (metis rtranclp_trans)

lemma endsOrderly_step: "life_step s s1 \<Longrightarrow> drainLimit s1 = drainLimit s \<Longrightarrow> endsOrderly s1 \<Longrightarrow> endsOrderly s"
  using endsOrderly_back by blast

lemma quiet_step:
  assumes "quiet s" and "life_step s s'" and "requests s' = 0" "queued s' = {#}" "scanning s' = {#}" "signalled s'" "main s' \<in> {MainServe, MainWait}"
  shows "quiet s'"
  using assms programOK_step by (auto simp: quiet_def)

lemma end_closing: "main s = MainDefers \<Longrightarrow> persisted s \<Longrightarrow> tasks s = {} \<Longrightarrow> \<not> mainLimit s \<Longrightarrow> lateUsers s = {} \<Longrightarrow> endsOrderly s"
proof -
  assume s: "main s = MainDefers" "persisted s" "tasks s = {}" "\<not> mainLimit s" "lateUsers s = {}"
  let ?c = "s\<lparr>main := MainClosed, bgCancelled := True\<rparr>"
  have "life_step s ?c" "life_step ?c (?c\<lparr>main := MainExited\<rparr>)"
    using s(1) life_step.main_closes [of s] life_step.main_exits [of ?c] by simp_all
  then have "life_step\<^sup>*\<^sup>* s (?c\<lparr>main := MainExited\<rparr>)" by (meson converse_rtranclp_into_rtranclp r_into_rtranclp)
  then show ?thesis using s(2-5) unfolding endsOrderly_def by (intro exI [of _ "?c\<lparr>main := MainExited\<rparr>"]) simp
qed

lemma end_waiting:
  assumes "quiet s" and "sd s = SdOver" and "main s = MainWait"
  shows "endsOrderly s"
proof -
  let ?t = "s\<lparr>tasks := {}\<rparr>"
  have ok: "stagesOK s" "usersOK s" "finite (tasks s)" using assms(1) by (auto simp: quiet_def programOK_def groupOK_def)
  have f: "bgCancelled s" "persisted s" "\<not> mainLimit s" "lateUsers s = {}" using ok(1,2) assms(2,3) by (auto simp: stagesOK_def usersOK_def)
  have "life_step\<^sup>*\<^sup>* s ?t" by (rule steps_tasks) (use assms ok f in \<open>auto simp: quiet_def\<close>)
  moreover have "life_step ?t (?t\<lparr>main := MainDefers\<rparr>)" using assms by (intro life_step.main_complete) (simp_all add: wgZero_def)
  moreover have "endsOrderly (?t\<lparr>main := MainDefers\<rparr>)" by (rule end_closing) (use f in simp_all)
  ultimately show ?thesis using endsOrderly_back [of s ?t] endsOrderly_step [of ?t] by simp
qed

lemma end_over:
  assumes "quiet s" and "sd s = SdOver"
  shows "endsOrderly s"
proof (cases "main s = MainWait")
  case True
  then show ?thesis using end_waiting assms by blast
next
  case False
  let ?t = "s\<lparr>main := MainWait\<rparr>"
  have m: "main s = MainServe" "http s = HttpDraining"
    using assms False by (auto simp: quiet_def programOK_def stagesOK_def groupOK_def intro: http_state.exhaust [of "http s"])
  then have t: "life_step s ?t" by (intro life_step.listen_returns)
  then have "quiet ?t" by (rule quiet_step [OF assms(1)]) (use assms(1) in \<open>simp_all add: quiet_def\<close>)
  then show ?thesis using end_waiting [of ?t] assms(2) endsOrderly_step [OF t] by simp
qed

lemma end_pipeline: "quiet s \<Longrightarrow> sd s = SdPipeline \<Longrightarrow> endsOrderly s"
proof -
  assume s: "quiet s" "sd s = SdPipeline"
  then have t: "life_step s (s\<lparr>sd := SdOver\<rparr>)" by (intro life_step.sd_waited) (auto simp: quiet_def)
  have "quiet (s\<lparr>sd := SdOver\<rparr>)" by (rule quiet_step [OF s(1) t]) (use s(1) in \<open>simp_all add: quiet_def\<close>)
  then show ?thesis using end_over [of "s\<lparr>sd := SdOver\<rparr>"] endsOrderly_step [OF t] by simp
qed

lemma end_cancel: "quiet s \<Longrightarrow> sd s = SdCancel \<Longrightarrow> endsOrderly s"
proof -
  assume s: "quiet s" "sd s = SdCancel"
  let ?t = "s\<lparr>sd := SdPipeline, bgCancelled := True\<rparr>"
  have t: "life_step s ?t" using s by (intro life_step.sd_cancels) (auto simp: quiet_def)
  have "quiet ?t" by (rule quiet_step [OF s(1) t]) (use s(1) in \<open>simp_all add: quiet_def\<close>)
  then show ?thesis using end_pipeline [of ?t] endsOrderly_step [OF t] by simp
qed

lemma end_persist: "quiet s \<Longrightarrow> sd s = SdPersist \<Longrightarrow> endsOrderly s"
proof -
  assume s: "quiet s" "sd s = SdPersist"
  let ?t = "s\<lparr>sd := SdCancel, persisted := True\<rparr>"
  have t: "life_step s ?t" using s by (intro life_step.sd_persists) (auto simp: quiet_def)
  have "quiet ?t" by (rule quiet_step [OF s(1) t]) (use s(1) in \<open>simp_all add: quiet_def\<close>)
  then show ?thesis using end_cancel [of ?t] endsOrderly_step [OF t] by simp
qed

lemma end_drain: "quiet s \<Longrightarrow> sd s = SdDrain \<Longrightarrow> endsOrderly s"
proof -
  assume s: "quiet s" "sd s = SdDrain"
  let ?t = "s\<lparr>sd := SdPersist\<rparr>"
  have t: "life_step s ?t" using s by (intro life_step.sd_drained) (auto simp: quiet_def)
  have "quiet ?t" by (rule quiet_step [OF s(1) t]) (use s(1) in \<open>simp_all add: quiet_def\<close>)
  then show ?thesis using end_persist [of ?t] endsOrderly_step [OF t] by simp
qed

lemma end_quiet: "quiet s \<Longrightarrow> endsOrderly s"
proof (cases "sd s")
  case SdSignal
  assume s: "quiet s"
  let ?t = "s\<lparr>sd := SdDrain, http := (if http s = HttpServing then HttpDraining else http s)\<rparr>"
  have t: "life_step s ?t" using s SdSignal by (intro life_step.sd_begins) (auto simp: quiet_def)
  have "quiet ?t" by (rule quiet_step [OF s t]) (use s in \<open>simp_all add: quiet_def\<close>)
  then show ?thesis using end_drain [of ?t] endsOrderly_step [OF t] by simp
qed (simp_all add: end_drain end_persist end_cancel end_pipeline end_over)



section \<open>Where the end is not orderly\<close>

definition running :: "string set \<Rightarrow> life" where
  "running backfills = \<lparr>signalled = False, bgCancelled = False, http = HttpServing, requests = 0, tasks = startTasks backfills, listening = True, queued = {#}, scanning = {#},
     untracked = 1, sd = SdSignal, main = MainServe, persisted = False, saveFailed = False, drainLimit = False, mainLimit = False, lateLogins = 0, stray = 0, lateUsers = {}\<rparr>"

lemma running_started: "finite bs \<Longrightarrow> started (running bs)"
  by (auto simp: started_def running_def)

lemma lifeReachable_steps:
  assumes "lifeReachable s" and "life_step\<^sup>*\<^sup>* s s'"
  shows "lifeReachable s'"
  using assms(2,1) by (induction rule: rtranclp_induct) (auto intro: reachable.step)

text \<open>When the server cannot listen, nothing cancels the signal context: the process ends only by the thirty-second limit, or by a signal that happens to come.\<close>

definition unsignalledOK :: "life \<Rightarrow> bool" where
  "unsignalledOK s \<longleftrightarrow> (\<not> signalled s \<longrightarrow> sd s = SdSignal \<and> \<not> persisted s \<and> (main s \<in> {MainDefers, MainClosed, MainExited} \<longrightarrow> mainLimit s))"

lemma unsignalledOK_started: "started s \<Longrightarrow> unsignalledOK s"
  by (simp add: started_def unsignalledOK_def)

lemma unsignalledOK_step: "unsignalledOK s \<Longrightarrow> life_step s s' \<Longrightarrow> unsignalledOK s'"
  by (erule life_stepE) (auto simp: unsignalledOK_def life_ops)

interpretation unsignalled: inductive_invariant started life_step "\<lambda>_. True" unsignalledOK
  by unfold_locales (auto intro: unsignalledOK_started unsignalledOK_step)

lemma listen_failure_skips_shutdown:
  assumes "lifeReachable s" and "\<not> signalled s" and "main s = MainExited"
  shows "mainLimit s \<and> \<not> persisted s"
  using unsignalled.holds [OF assms(1)] assms(2,3) by (simp add: unsignalledOK_def)


text \<open>A run without any limit that ends with the database closed, while the first feed refresh still runs and a worker of a listener has not registered yet.\<close>

definition closedState :: life where
  "closedState = (running {})\<lparr>signalled := True, http := HttpDraining, tasks := {}, queued := {#Listeners#}, sd := SdOver, main := MainClosed, persisted := True, bgCancelled := True\<rparr>"

lemma closedState_reachable: "lifeReachable closedState"
proof -
  define st where "st b h tk p m q = (running {})\<lparr>signalled := True, http := h, tasks := tk, queued := {#Listeners#}, sd := p, main := m, persisted := q, bgCancelled := b\<rparr>"
    for b h tk p m q
  have go: "lifeReachable s'" if "lifeReachable s" "life_step s s'" for s s' using that by (rule reachable.step)
  let ?T = "startTasks {}"
  have "lifeReachable (running {})" by (rule reachable.start) (simp add: running_started)
  from go [OF this life_step.listener_spawns] have "lifeReachable ((running {})\<lparr>queued := {#Listeners#}\<rparr>)" by (simp add: running_def)
  from go [OF this life_step.signal] have "lifeReachable (st False HttpServing ?T SdSignal MainServe False)" by (simp add: st_def running_def)
  from go [OF this life_step.sd_begins] have "lifeReachable (st False HttpDraining ?T SdDrain MainServe False)" by (simp add: st_def running_def)
  from go [OF this life_step.listen_returns] have "lifeReachable (st False HttpDraining ?T SdDrain MainWait False)" by (simp add: st_def running_def)
  from go [OF this life_step.sd_drained] have "lifeReachable (st False HttpDraining ?T SdPersist MainWait False)" by (simp add: st_def running_def)
  from go [OF this life_step.sd_persists] have "lifeReachable (st False HttpDraining ?T SdCancel MainWait True)" by (simp add: st_def running_def)
  from go [OF this life_step.sd_cancels] have "lifeReachable (st True HttpDraining ?T SdPipeline MainWait True)" by (simp add: st_def running_def)
  from go [OF this life_step.sd_waited] have r: "lifeReachable (st True HttpDraining ?T SdOver MainWait True)" by (simp add: st_def running_def)
  have "life_step\<^sup>*\<^sup>* (st True HttpDraining ?T SdOver MainWait True) ((st True HttpDraining ?T SdOver MainWait True)\<lparr>tasks := {}\<rparr>)"
    by (rule steps_tasks) (simp_all add: st_def running_def startTasks_def)
  from lifeReachable_steps [OF r this] have "lifeReachable (st True HttpDraining {} SdOver MainWait True)" by (simp add: st_def running_def)
  from go [OF this life_step.main_complete] have "lifeReachable (st True HttpDraining {} SdOver MainDefers True)" by (simp add: st_def running_def wgZero_def)
  from go [OF this life_step.main_closes] show ?thesis by (simp add: st_def running_def closedState_def)
qed

text \<open>The goroutine of the first feed refresh is in no group; it can meet the closed database.\<close>

lemma first_refresh_meets_closed_db: "\<exists>s. lifeReachable s \<and> \<not> mainLimit s \<and> \<not> drainLimit s \<and> UserUntracked \<in> lateUsers s"
proof -
  have "lifeReachable (use UserUntracked closedState)"
    using reachable.step [OF closedState_reachable life_step.untracked_uses] by (simp add: closedState_def running_def)
  then show ?thesis by (intro exI [of _ "use UserUntracked closedState"]) (simp add: use_def closedState_def running_def)
qed

text \<open>A worker adds itself to the group only when it runs; the wait can be over before.\<close>

lemma late_worker_meets_closed_db: "\<exists>s. lifeReachable s \<and> \<not> mainLimit s \<and> \<not> drainLimit s \<and> UserWorker Listeners \<in> lateUsers s"
proof -
  let ?r = "register Listeners closedState"
  have "lifeReachable ?r"
    using reachable.step [OF closedState_reachable life_step.worker_registers] by (simp add: closedState_def running_def)
  from reachable.step [OF this life_step.worker_uses, of Listeners] have "lifeReachable (use (UserWorker Listeners) ?r)"
    by (simp add: register_def closedState_def running_def)
  then show ?thesis by (intro exI [of _ "use (UserWorker Listeners) ?r"]) (simp add: use_def register_def closedState_def running_def)
qed

section \<open>Witnesses\<close>

lemma orderly_shutdown_witness: "persisted closedState \<and> tasks closedState = {} \<and> requests closedState = 0"
proof -
  have "main closedState \<in> {MainClosed, MainExited}" "\<not> mainLimit closedState" "\<not> drainLimit closedState"
    by (simp_all add: closedState_def running_def)
  then show ?thesis using orderly_shutdown [OF closedState_reachable] by blast
qed


end
