(* ===== verification/Loops.thy ===== *)
theory Loops
  imports Maintenance RateLimit Sessions
begin

text \<open>
  The background loops of the program: \<^verbatim>\<open>select\<close> between a tick and the end of a context. They are the session sweep (\<^verbatim>\<open>app/auth/session.go\<close>), the sweep of the rate limiter, the gauges and
  the daily maintenance (\<^verbatim>\<open>app/main.go\<close>), and the timer of the recovery scan (\<^verbatim>\<open>app/imap/recovery.go\<close>).
\<close>

section \<open>Loops on a ticker\<close>

text \<open>The events that the loop has seen come as a list; the result says whether the loop has returned.\<close>

datatype loop_event = Tick go_time | CtxDone

fun tickerLoop :: "(go_time \<Rightarrow> 'w \<Rightarrow> 'w) \<Rightarrow> loop_event list \<Rightarrow> 'w \<Rightarrow> 'w \<times> bool" where
  "tickerLoop body [] w = (w, False)"
| "tickerLoop body (Tick now # evs) w = tickerLoop body evs (body now w)"
| "tickerLoop body (CtxDone # evs) w = (w, True)"

definition SweepLoop :: "loop_event list \<Rightarrow> Store \<Rightarrow> Store \<times> bool" where
  "SweepLoop = tickerLoop store_Sweep"

definition limiterLoop :: "loop_event list \<Rightarrow> limiter \<Rightarrow> limiter \<times> bool" where
  "limiterLoop = tickerLoop limiter_Sweep"

definition gaugeLoop :: "(go_time \<Rightarrow> gauges \<Rightarrow> gauges) \<Rightarrow> loop_event list \<Rightarrow> gauges \<Rightarrow> gauges \<times> bool" where
  "gaugeLoop refresh = tickerLoop refresh"

text \<open>The feeds, refreshed at every tick of the configured interval.\<close>

definition feedLoop :: "(go_time \<Rightarrow> 'f \<Rightarrow> 'f) \<Rightarrow> loop_event list \<Rightarrow> 'f \<Rightarrow> 'f \<times> bool" where
  "feedLoop refresh = tickerLoop refresh"

text \<open>The recovery timer: a failed scan is logged.\<close>

definition recoveryLoop :: "(go_time \<Rightarrow> 'w \<Rightarrow> 'w \<times> unit result) \<Rightarrow> loop_event list \<Rightarrow> 'w \<Rightarrow> 'w \<times> bool" where
  "recoveryLoop scan = tickerLoop (\<lambda>now w. fst (scan now w))"

lemma loop_append: "tickerLoop body (map Tick ts @ evs) w = tickerLoop body evs (fold body ts w)"
  by (induction ts arbitrary: w) simp_all

lemma loop_returns: "snd (tickerLoop body evs w) \<longleftrightarrow> CtxDone \<in> set evs"
  by (induction body evs w rule: tickerLoop.induct) auto

lemma loop_quiet_after_done: "tickerLoop body (evs @ CtxDone # later) w = (fst (tickerLoop body evs w), True)"
  by (induction body evs w rule: tickerLoop.induct) auto

text \<open>Sweeping twice is sweeping at the later time, so what the loop leaves in memory depends on the last tick only: the sessions that are alive then.\<close>

lemma sweep_sweep: "t \<le> now \<Longrightarrow> store_Sweep now (store_Sweep t s) = store_Sweep now s"
  by (auto simp: store_Sweep_def dead_def fun_eq_iff split: option.split)

lemma fold_sweep:
  "sorted (ts @ [now]) \<Longrightarrow> fold store_Sweep (ts @ [now]) s = store_Sweep now s"
  by (induction ts arbitrary: s) (simp_all add: sweep_sweep sorted_append)

lemma sweepLoop_last:
  assumes "sorted (ts @ [now])"
  shows "SweepLoop (map Tick (ts @ [now])) s = (store_Sweep now s, False)"
  using loop_append [of store_Sweep "ts @ [now]" "[]" s] fold_sweep [OF assms] by (simp add: SweepLoop_def)

section \<open>Once a day\<close>

text \<open>The daily loop: it waits until three o'clock, runs, and computes the next delay when the run is over. \<open>spent\<close> is what each run took; the result lists the times at which the runs begin.\<close>

fun dailyTimes :: "go_time \<Rightarrow> duration list \<Rightarrow> go_time list" where
  "dailyTimes now [] = []"
| "dailyTimes now (d # spent) =
     (let fire = now + durationUntilHour now 3 in fire # dailyTimes (fire + d) spent)"

text \<open>With the maintenance as the body; the loop ends when the context is done while it waits.\<close>

definition dailyLoop :: "(go_time \<Rightarrow> maint_env) \<Rightarrow> maint_config \<Rightarrow> go_time \<Rightarrow> duration list \<Rightarrow> maint \<Rightarrow> maint" where
  "dailyLoop E c now spent = fold (\<lambda>t. runDailyMaintenance (E t) c) (dailyTimes now spent)"

lemma next_fire:
  assumes "fire mod hours 24 = hours 3" and "0 \<le> d" and "d < hours 24"
  shows "fire + d + durationUntilHour (fire + d) 3 = fire + hours 24"
proof -
  define n where "n = fire + d + durationUntilHour (fire + d) 3"
  have b: "0 < durationUntilHour (fire + d) 3" "durationUntilHour (fire + d) 3 \<le> hours 24" "n mod hours 24 = hours 3"
    using durationUntilHour_bounds [of 3 "fire + d"] by (simp_all add: n_def)
  have "(n - fire) mod hours 24 = 0" using b(3) assms(1) by (simp add: mod_diff_eq [symmetric])
  then obtain k where k: "n - fire = hours 24 * k" by (auto simp: mod_eq_0_iff_dvd dvd_def)
  have "0 < n - fire" "n - fire < 2 * hours 24" using b assms(2,3) by (simp_all add: n_def)
  moreover have "hours 24 > 0" by (simp add: hours_def)
  ultimately have "0 < k" "k < 2" using k by (simp_all add: zero_less_mult_iff mult.commute [of _ k])
  then have "k = 1" by simp
  then show ?thesis using k by (simp add: n_def)
qed

lemma dailyTimes_regular:
  assumes "\<forall>d \<in> set spent. 0 \<le> d \<and> d < hours 24" and "k < length spent"
  shows "dailyTimes now spent ! k = now + durationUntilHour now 3 + hours 24 * int k"
  using assms
proof (induction spent arbitrary: now k)
  case (Cons d spent)
  define fire where "fire = now + durationUntilHour now 3"
  have m: "fire mod hours 24 = hours 3" using durationUntilHour_bounds(3) [of 3 now] by (simp add: fire_def)
  show ?case
  proof (cases k)
    case (Suc j)
    have "dailyTimes (fire + d) spent ! j = fire + d + durationUntilHour (fire + d) 3 + hours 24 * int j"
      using Cons Suc by simp
    also have "\<dots> = fire + hours 24 * int k" using next_fire [OF m, of d] Cons(2) Suc by (simp add: algebra_simps)
    finally show ?thesis using Suc by (simp add: fire_def Let_def)
  qed (simp add: Let_def)
qed simp

text \<open>
  The maintenance runs once a day: however long each run takes below a day, the k-th run begins exactly k days after the first, at three o'clock, and the first within a day of the start.
\<close>

theorem maintenance_daily:
  assumes "\<forall>d \<in> set spent. 0 \<le> d \<and> d < hours 24" and "k < length spent"
  shows "dailyTimes now spent ! k mod hours 24 = hours 3 \<and> dailyTimes now spent ! k = hd (dailyTimes now spent) + hours 24 * int k
    \<and> now < hd (dailyTimes now spent) \<and> hd (dailyTimes now spent) \<le> now + hours 24"
proof -
  have "spent \<noteq> []" using assms(2) by auto
  then have h: "hd (dailyTimes now spent) = now + durationUntilHour now 3" by (cases spent) (simp_all add: Let_def)
  then show ?thesis using dailyTimes_regular [OF assms] durationUntilHour_bounds [of 3 now] by simp
qed

lemma maintenance_daily_witness: "dailyTimes (hours 1) [minute, hours 2] ! 1 = hours 27"
proof -
  have "\<forall>d \<in> set [minute, hours 2]. 0 \<le> d \<and> d < hours 24" by (simp add: hours_def)
  from maintenance_daily [OF this, of 1 "hours 1"] show ?thesis by (simp add: Let_def durationUntilHour_def hours_def)
qed

end
