(* ===== verification/LiveScanners.thy ===== *)
theory LiveScanners
  imports ServiceScanners CachedScanners UrlScanners HiddenText Onnx YaraRules Settings
begin

text \<open>
  The scanners as objects that the dashboard changes while mail is scanned (\<^verbatim>\<open>app/scanners/*.go\<close>): constructors, the switch that every scanner has, and the endpoints and keys that some have. A setter and the read at the
  start of a scan hold the scanner's lock, so each is one step. The switches of all scanners are what the settings handlers see as a list of names and states.
\<close>

section \<open>The interface of a switch\<close>

text \<open>What every scanner promises of its reports, the stub of the classifier too.\<close>

locale reporting =
  fixes name :: string and isEnabled :: "'s \<Rightarrow> bool" and scan :: "'s \<Rightarrow> Email \<Rightarrow> ScanResult"
  assumes off_skips: "\<not> isEnabled s \<Longrightarrow> sr_Verdict (scan s e) = ''skip''"
    and reports_name: "sr_Scanner (scan s e) = name"

text \<open>A scanner with a switch that works.\<close>

locale switchable = reporting name isEnabled scan
  for name :: string and setEnabled :: "bool \<Rightarrow> 's \<Rightarrow> 's" and isEnabled :: "'s \<Rightarrow> bool" and scan :: "'s \<Rightarrow> Email \<Rightarrow> ScanResult" +
  assumes is_set: "isEnabled (setEnabled b s) = b"
    and set_set: "setEnabled b (setEnabled c s) = setEnabled b s"
begin

lemma switched_off: "sr_Verdict (scan (setEnabled False s) e) = ''skip'' \<and> sr_Scanner (scan (setEnabled False s) e) = name"
  by (simp add: off_skips is_set reports_name)

text \<open>Of any sequence of switchings only the last counts.\<close>

lemma last_switch: "bs \<noteq> [] \<Longrightarrow> fold setEnabled bs s = setEnabled (last bs) s"
  by (induction bs arbitrary: s) (auto simp: set_set)

end

section \<open>The objects\<close>

record Rspamd =
  rp_enabled :: bool
  rp_url :: string

definition NewRspamd :: "string \<Rightarrow> Rspamd" where
  "NewRspamd url = \<lparr>rp_enabled = True, rp_url = url\<rparr>"

definition Rspamd_SetEnabled :: "bool \<Rightarrow> Rspamd \<Rightarrow> Rspamd" where
  "Rspamd_SetEnabled v r = r\<lparr>rp_enabled := v\<rparr>"

definition SetURL :: "string \<Rightarrow> Rspamd \<Rightarrow> Rspamd" where
  "SetURL url r = r\<lparr>rp_url := url\<rparr>"

definition Rspamd_IsEnabled :: "Rspamd \<Rightarrow> bool" where
  "Rspamd_IsEnabled r = rp_enabled r"

record ClamAV =
  ca_enabled :: bool
  ca_addr :: string
  ca_timeout :: duration

definition NewClamAV :: "string \<Rightarrow> ClamAV" where
  "NewClamAV addr = \<lparr>ca_enabled = True, ca_addr = addr, ca_timeout = 30 * second\<rparr>"

definition ClamAV_SetEnabled :: "bool \<Rightarrow> ClamAV \<Rightarrow> ClamAV" where
  "ClamAV_SetEnabled v c = c\<lparr>ca_enabled := v\<rparr>"

definition SetAddr :: "string \<Rightarrow> ClamAV \<Rightarrow> ClamAV" where
  "SetAddr addr c = c\<lparr>ca_addr := addr\<rparr>"

definition ClamAV_IsEnabled :: "ClamAV \<Rightarrow> bool" where
  "ClamAV_IsEnabled c = ca_enabled c"

record IPReputation =
  ir_apiKey :: string
  ir_enabled :: bool
  ir_cacheTTL :: duration

definition NewIPReputation :: "string \<Rightarrow> IPReputation" where
  "NewIPReputation apiKey = \<lparr>ir_apiKey = apiKey, ir_enabled = True, ir_cacheTTL = hours 24\<rparr>"

definition IPReputation_SetEnabled :: "bool \<Rightarrow> IPReputation \<Rightarrow> IPReputation" where
  "IPReputation_SetEnabled b r = r\<lparr>ir_enabled := b\<rparr>"

definition IPReputation_SetAPIKey :: "string \<Rightarrow> IPReputation \<Rightarrow> IPReputation" where
  "IPReputation_SetAPIKey key r = r\<lparr>ir_apiKey := key\<rparr>"

definition VirusTotal_SetEnabled :: "bool \<Rightarrow> VirusTotal \<Rightarrow> VirusTotal" where
  "VirusTotal_SetEnabled b v = v\<lparr>v_enabled := b\<rparr>"

definition VirusTotal_SetAPIKey :: "string \<Rightarrow> VirusTotal \<Rightarrow> VirusTotal" where
  "VirusTotal_SetAPIKey key v = v\<lparr>v_apiKey := key\<rparr>"

definition SetVTBaseURL :: "string \<Rightarrow> VirusTotal \<Rightarrow> VirusTotal" where
  "SetVTBaseURL baseURL v = v\<lparr>v_vtBaseURL := baseURL\<rparr>"

definition NRDCheck_SetEnabled :: "bool \<Rightarrow> NRDCheck \<Rightarrow> NRDCheck" where
  "NRDCheck_SetEnabled v n = n\<lparr>n_enabled := v\<rparr>"

record HTMLSmuggling =
  hs_enabled :: bool
  hs_minB64KB :: int

definition NewHTMLSmuggling :: "bool \<Rightarrow> int \<Rightarrow> HTMLSmuggling" where
  "NewHTMLSmuggling enabled minB64KB = \<lparr>hs_enabled = enabled, hs_minB64KB = minB64KB\<rparr>"

definition HTMLSmuggling_SetEnabled :: "bool \<Rightarrow> HTMLSmuggling \<Rightarrow> HTMLSmuggling" where
  "HTMLSmuggling_SetEnabled v h = h\<lparr>hs_enabled := v\<rparr>"

record URLUnshorten =
  uu_enabled :: bool
  uu_maxHops :: nat
  uu_perURLTO :: duration
  uu_rate :: int
  uu_burst :: int

definition NewURLUnshorten :: "bool \<Rightarrow> nat \<Rightarrow> duration \<Rightarrow> int \<Rightarrow> int \<Rightarrow> URLUnshorten" where
  "NewURLUnshorten enabled maxHops perURL limit burst =
     \<lparr>uu_enabled = enabled, uu_maxHops = maxHops, uu_perURLTO = perURL, uu_rate = limit, uu_burst = burst\<rparr>"

definition URLUnshorten_SetEnabled :: "bool \<Rightarrow> URLUnshorten \<Rightarrow> URLUnshorten" where
  "URLUnshorten_SetEnabled v u = u\<lparr>uu_enabled := v\<rparr>"

text \<open>Three scanners keep nothing but the switch; the constructors of the URL check and of the hash lookup switch them on.\<close>

record plain_scanner =
  pl_enabled :: bool

definition NewURLCheck :: plain_scanner where
  "NewURLCheck = \<lparr>pl_enabled = True\<rparr>"

definition NewMalwareBazaar :: plain_scanner where
  "NewMalwareBazaar = \<lparr>pl_enabled = True\<rparr>"

definition NewHiddenTextDetect :: "bool \<Rightarrow> plain_scanner" where
  "NewHiddenTextDetect enabled = \<lparr>pl_enabled = enabled\<rparr>"

definition URLCheck_SetEnabled :: "bool \<Rightarrow> plain_scanner \<Rightarrow> plain_scanner" where
  "URLCheck_SetEnabled v u = u\<lparr>pl_enabled := v\<rparr>"

definition MalwareBazaar_SetEnabled :: "bool \<Rightarrow> plain_scanner \<Rightarrow> plain_scanner" where
  "MalwareBazaar_SetEnabled b mb = mb\<lparr>pl_enabled := b\<rparr>"

definition HiddenText_SetEnabled :: "bool \<Rightarrow> plain_scanner \<Rightarrow> plain_scanner" where
  "HiddenText_SetEnabled v h = h\<lparr>pl_enabled := v\<rparr>"

definition ONNX_SetEnabled :: "bool \<Rightarrow> onnx \<Rightarrow> onnx" where
  "ONNX_SetEnabled v ox = ox\<lparr>ox_enabled := v\<rparr>"

text \<open>At the end of the program the sessions of the runtime are released; a scan after that finds no models.\<close>

definition ONNX_Close :: "onnx \<Rightarrow> onnx" where
  "ONNX_Close o' = o'\<lparr>ox_bert := None, ox_dga := None\<rparr>"

lemma closed_classifier_skips: "sr_Verdict (ONNX_Scan ex (ONNX_Close o') e) = ''skip''"
  by (simp add: ONNX_Scan_def ONNX_Close_def result_def Let_def)

lemmas setters = Rspamd_SetEnabled_def ClamAV_SetEnabled_def IPReputation_SetEnabled_def VirusTotal_SetEnabled_def NRDCheck_SetEnabled_def
  HTMLSmuggling_SetEnabled_def URLUnshorten_SetEnabled_def URLCheck_SetEnabled_def MalwareBazaar_SetEnabled_def HiddenText_SetEnabled_def
  ONNX_SetEnabled_def YaraRules.SetEnabled_def Rspamd_IsEnabled_def ClamAV_IsEnabled_def

section \<open>Every scanner keeps the contract\<close>

interpretation sw_rspamd: switchable "''rspamd''" Rspamd_SetEnabled Rspamd_IsEnabled "\<lambda>r. Rspamd_Scan (rp_enabled r) (checkv2 (rp_url r))" for checkv2
  by unfold_locales (simp_all add: setters rspamd.own_name, simp add: Rspamd_Scan_def)

interpretation sw_clamav: switchable "''clamav''" ClamAV_SetEnabled ClamAV_IsEnabled "\<lambda>c. ClamAV_Scan (ca_enabled c) (clamd (ca_addr c) (ca_timeout c))" for clamd
  by unfold_locales (simp_all add: setters clamav.own_name, simp add: ClamAV_Scan_def)

interpretation sw_yara: switchable "''yara''" YaraRules.SetEnabled y_enabled "YARA_Scan scanMem now deadline" for scanMem now deadline
  by unfold_locales (simp_all add: setters YARA_Scan_def result_def Let_def split: option.split sum.split)

interpretation sw_urlcheck: switchable "''urlcheck''" URLCheck_SetEnabled pl_enabled "\<lambda>u. URLCheck_Scan (pl_enabled u) ctxDone lookup exact" for ctxDone lookup exact
  by unfold_locales (simp_all add: setters urlcheck.own_name, simp add: URLCheck_Scan_def)

interpretation sw_unshorten: switchable "''urlunshorten''" URLUnshorten_SetEnabled uu_enabled
  "\<lambda>u. URLUnshorten_Scan (uu_enabled u) (allow (uu_rate u) (uu_burst u)) (head (uu_perURLTO u)) dns (uu_maxHops u) lookup" for allow head dns lookup
  by unfold_locales (simp_all add: setters urlunshorten.own_name, simp add: URLUnshorten_Scan_def)

interpretation sw_nrd: switchable "''nrdcheck''" NRDCheck_SetEnabled n_enabled "\<lambda>n e. snd (NRDCheck_Scan n parseTime RFC3339 saved now get cache e)"
  for parseTime RFC3339 saved now get cache
  by unfold_locales (simp_all add: setters nrdcheck.own_name, simp add: NRDCheck_Scan_def)

interpretation sw_iprep: switchable "''ipreputation''" IPReputation_SetEnabled ir_enabled
  "\<lambda>r e. snd (IPReputation_Scan (ir_enabled r) (ir_apiKey r) ipString now saved check cache e)" for ipString now saved check cache
  by unfold_locales (simp_all add: setters ipreputation.own_name, simp add: IPReputation_Scan_def)

interpretation sw_vt: switchable "''virustotal''" VirusTotal_SetEnabled v_enabled "\<lambda>v e. snd (VirusTotal_Scan v saved now check allow cache e)" for saved now check allow cache
  by unfold_locales (simp_all add: setters virustotal.own_name, simp add: VirusTotal_Scan_def)

interpretation sw_smuggling: switchable "''htmlsmuggling''" HTMLSmuggling_SetEnabled hs_enabled "\<lambda>h. HTMLSmuggling_Scan (hs_enabled h) ctxDone (hs_minB64KB h)" for ctxDone
  by unfold_locales (simp_all add: setters htmlsmuggling.own_name, simp add: HTMLSmuggling_Scan_def)

interpretation sw_hidden: switchable "''hiddentextdetect''" HiddenText_SetEnabled pl_enabled "\<lambda>h. HiddenTextDetect_Scan parse order (pl_enabled h) cancelled" for parse order cancelled
  by unfold_locales (simp_all add: setters hiddentext.own_name, simp add: HiddenTextDetect_Scan_def)

interpretation sw_mb: switchable "''malwarebazaar''" MalwareBazaar_SetEnabled pl_enabled "\<lambda>m. MalwareBazaar_Scan (pl_enabled m) lookupHash" for lookupHash
  by unfold_locales (simp_all add: setters malwarebazaar.own_name, simp add: MalwareBazaar_Scan_def)

interpretation sw_onnx: switchable "''onnx''" ONNX_SetEnabled ox_enabled "ONNX_Scan ex" for ex
  by unfold_locales (simp_all add: setters onnx_ai.own_name, simp add: ONNX_Scan_def)


text \<open>The classifier of the program: the one of \<^verbatim>\<open>onnx_ai.go\<close>, or in the default build the stub of \<^verbatim>\<open>onnx_stub.go\<close>, whose switch does nothing and which always skips.\<close>

datatype classifier = Stub | AI onnx

definition classifier_SetEnabled :: "bool \<Rightarrow> classifier \<Rightarrow> classifier" where
  "classifier_SetEnabled v c = (case c of Stub \<Rightarrow> Stub | AI ox \<Rightarrow> AI (ONNX_SetEnabled v ox))"

definition classifier_IsEnabled :: "classifier \<Rightarrow> bool" where
  "classifier_IsEnabled c = (case c of Stub \<Rightarrow> False | AI ox \<Rightarrow> ox_enabled ox)"

definition classifier_Scan :: "(float32 \<Rightarrow> float32) \<Rightarrow> classifier \<Rightarrow> Email \<Rightarrow> ScanResult" where
  "classifier_Scan ex c email =
     (case c of
        Stub \<Rightarrow> \<lparr>sr_Scanner = ''onnx'', sr_Verdict = ''skip'', sr_Score = 0, sr_Detail = ''ai build tag not set'', sr_Matches = None\<rparr>
      | AI ox \<Rightarrow> ONNX_Scan ex ox email)"

lemmas classifier_defs = classifier_SetEnabled_def classifier_IsEnabled_def classifier_Scan_def

interpretation rp_classifier: reporting "''onnx''" classifier_IsEnabled "classifier_Scan ex" for ex
  by unfold_locales (auto simp: classifier_defs sw_onnx.off_skips sw_onnx.reports_name split: classifier.splits)

section \<open>The scanners of the program\<close>

record live =
  lv_rspamd :: Rspamd
  lv_clamav :: ClamAV
  lv_yara :: yara
  lv_urlcheck :: plain_scanner
  lv_unshorten :: URLUnshorten
  lv_nrd :: NRDCheck
  lv_iprep :: IPReputation
  lv_vt :: VirusTotal
  lv_smuggling :: HTMLSmuggling
  lv_hidden :: plain_scanner
  lv_mb :: plain_scanner
  lv_onnx :: classifier

text \<open>What the scanners meet outside when a message is scanned.\<close>

record services =
  sx_checkv2 :: "string \<Rightarrow> string \<Rightarrow> rspamdResponse http"
  sx_clamd :: "string \<Rightarrow> duration \<Rightarrow> string \<Rightarrow> string result"
  sx_scanMem :: scan_mem
  sx_now :: go_time
  sx_deadline :: "go_time option"
  sx_ctxDone :: bool
  sx_lookup :: lookup
  sx_exact :: lookup
  sx_allow :: "int \<Rightarrow> int \<Rightarrow> nat \<Rightarrow> bool"
  sx_head :: "duration \<Rightarrow> string \<Rightarrow> (int \<times> string) result"
  sx_dns :: "nat \<Rightarrow> dns"
  sx_parseTime :: timeParse
  sx_rfc3339 :: "go_time \<Rightarrow> string"
  sx_saved :: bool
  sx_rdap :: rdap
  sx_nrdCache :: "string \<rightharpoonup> NRDCache"
  sx_ipString :: "ip \<Rightarrow> string"
  sx_abuse :: "string \<Rightarrow> IPReputationCache http"
  sx_ipCache :: "string \<rightharpoonup> IPReputationCache"
  sx_vt :: "string \<Rightarrow> vtStats http"
  sx_vtAllow :: "nat \<Rightarrow> bool"
  sx_vtCache :: "string \<rightharpoonup> VTHashCache"
  sx_html :: "string \<Rightarrow> element list option"
  sx_order :: "techniques \<Rightarrow> techniques"
  sx_hash :: "string \<Rightarrow> string option"
  sx_exp :: "float32 \<Rightarrow> float32"

text \<open>\<^verbatim>\<open>allScanners\<close> of \<^verbatim>\<open>main\<close>, in its order: name, switch, scan.\<close>

definition allScanners :: "services \<Rightarrow> live \<Rightarrow> (string \<times> bool \<times> (Email \<Rightarrow> ScanResult)) list" where
  "allScanners W L =
     [(''rspamd'', rp_enabled (lv_rspamd L), Rspamd_Scan (rp_enabled (lv_rspamd L)) (sx_checkv2 W (rp_url (lv_rspamd L)))),
      (''clamav'', ca_enabled (lv_clamav L), ClamAV_Scan (ca_enabled (lv_clamav L)) (sx_clamd W (ca_addr (lv_clamav L)) (ca_timeout (lv_clamav L)))),
      (''yara'', y_enabled (lv_yara L), YARA_Scan (sx_scanMem W) (sx_now W) (sx_deadline W) (lv_yara L)),
      (''urlcheck'', pl_enabled (lv_urlcheck L), URLCheck_Scan (pl_enabled (lv_urlcheck L)) (sx_ctxDone W) (sx_lookup W) (sx_exact W)),
      (''urlunshorten'', uu_enabled (lv_unshorten L),
         URLUnshorten_Scan (uu_enabled (lv_unshorten L)) (sx_allow W (uu_rate (lv_unshorten L)) (uu_burst (lv_unshorten L))) (sx_head W (uu_perURLTO (lv_unshorten L)))
           (sx_dns W) (uu_maxHops (lv_unshorten L)) (sx_lookup W)),
      (''nrdcheck'', n_enabled (lv_nrd L),
         (\<lambda>e. snd (NRDCheck_Scan (lv_nrd L) (sx_parseTime W) (sx_rfc3339 W) (sx_saved W) (sx_now W) (sx_rdap W) (sx_nrdCache W) e))),
      (''ipreputation'', ir_enabled (lv_iprep L),
         (\<lambda>e. snd (IPReputation_Scan (ir_enabled (lv_iprep L)) (ir_apiKey (lv_iprep L)) (sx_ipString W) (sx_now W) (sx_saved W) (sx_abuse W) (sx_ipCache W) e))),
      (''virustotal'', v_enabled (lv_vt L), (\<lambda>e. snd (VirusTotal_Scan (lv_vt L) (sx_saved W) (sx_now W) (sx_vt W) (sx_vtAllow W) (sx_vtCache W) e))),
      (''htmlsmuggling'', hs_enabled (lv_smuggling L), HTMLSmuggling_Scan (hs_enabled (lv_smuggling L)) (sx_ctxDone W) (hs_minB64KB (lv_smuggling L))),
      (''hiddentextdetect'', pl_enabled (lv_hidden L), HiddenTextDetect_Scan (sx_html W) (sx_order W) (pl_enabled (lv_hidden L)) (sx_ctxDone W)),
      (''malwarebazaar'', pl_enabled (lv_mb L), MalwareBazaar_Scan (pl_enabled (lv_mb L)) (sx_hash W)),
      (''onnx'', classifier_IsEnabled (lv_onnx L), classifier_Scan (sx_exp W) (lv_onnx L))]"

definition switches :: "live \<Rightarrow> (string \<times> bool) list" where
  "switches L =
     [(''rspamd'', rp_enabled (lv_rspamd L)), (''clamav'', ca_enabled (lv_clamav L)), (''yara'', y_enabled (lv_yara L)), (''urlcheck'', pl_enabled (lv_urlcheck L)),
      (''urlunshorten'', uu_enabled (lv_unshorten L)), (''nrdcheck'', n_enabled (lv_nrd L)), (''ipreputation'', ir_enabled (lv_iprep L)), (''virustotal'', v_enabled (lv_vt L)),
      (''htmlsmuggling'', hs_enabled (lv_smuggling L)), (''hiddentextdetect'', pl_enabled (lv_hidden L)), (''malwarebazaar'', pl_enabled (lv_mb L)), (''onnx'', classifier_IsEnabled (lv_onnx L))]"

text \<open>\<^verbatim>\<open>SetEnabled\<close> of the scanner with the name.\<close>

definition setByName :: "string \<Rightarrow> bool \<Rightarrow> live \<Rightarrow> live" where
  "setByName name b L =
     (if name = ''rspamd'' then L\<lparr>lv_rspamd := Rspamd_SetEnabled b (lv_rspamd L)\<rparr>
      else if name = ''clamav'' then L\<lparr>lv_clamav := ClamAV_SetEnabled b (lv_clamav L)\<rparr>
      else if name = ''yara'' then L\<lparr>lv_yara := YaraRules.SetEnabled b (lv_yara L)\<rparr>
      else if name = ''urlcheck'' then L\<lparr>lv_urlcheck := URLCheck_SetEnabled b (lv_urlcheck L)\<rparr>
      else if name = ''urlunshorten'' then L\<lparr>lv_unshorten := URLUnshorten_SetEnabled b (lv_unshorten L)\<rparr>
      else if name = ''nrdcheck'' then L\<lparr>lv_nrd := NRDCheck_SetEnabled b (lv_nrd L)\<rparr>
      else if name = ''ipreputation'' then L\<lparr>lv_iprep := IPReputation_SetEnabled b (lv_iprep L)\<rparr>
      else if name = ''virustotal'' then L\<lparr>lv_vt := VirusTotal_SetEnabled b (lv_vt L)\<rparr>
      else if name = ''htmlsmuggling'' then L\<lparr>lv_smuggling := HTMLSmuggling_SetEnabled b (lv_smuggling L)\<rparr>
      else if name = ''hiddentextdetect'' then L\<lparr>lv_hidden := HiddenText_SetEnabled b (lv_hidden L)\<rparr>
      else if name = ''malwarebazaar'' then L\<lparr>lv_mb := MalwareBazaar_SetEnabled b (lv_mb L)\<rparr>
      else if name = ''onnx'' then L\<lparr>lv_onnx := classifier_SetEnabled b (lv_onnx L)\<rparr>
      else L)"

text \<open>The loop of \<^verbatim>\<open>UpdateScanners\<close> over the scanners.\<close>

definition applySwitches :: "(string \<rightharpoonup> bool) \<Rightarrow> live \<Rightarrow> live" where
  "applySwitches req L = fold (\<lambda>(name, _) L. case req name of None \<Rightarrow> L | Some b \<Rightarrow> setByName name b L) (switches L) L"

lemma switches_allScanners: "switches L = map (\<lambda>(n, b, _). (n, b)) (allScanners W L)"
  by (simp add: switches_def allScanners_def)


section \<open>Switching from the dashboard\<close>

text \<open>The scanners of a build whose switch does nothing.\<close>

definition inertIn :: "live \<Rightarrow> string \<Rightarrow> bool" where
  "inertIn L name \<longleftrightarrow> lv_onnx L = Stub \<and> name = ''onnx''"

lemma inertIn_names [simp]:
  "inertIn L ''rspamd'' \<longleftrightarrow> False" "inertIn L ''clamav'' \<longleftrightarrow> False" "inertIn L ''yara'' \<longleftrightarrow> False" "inertIn L ''urlcheck'' \<longleftrightarrow> False" "inertIn L ''urlunshorten'' \<longleftrightarrow> False" "inertIn L ''nrdcheck'' \<longleftrightarrow> False" "inertIn L ''ipreputation'' \<longleftrightarrow> False" "inertIn L ''virustotal'' \<longleftrightarrow> False" "inertIn L ''htmlsmuggling'' \<longleftrightarrow> False" "inertIn L ''hiddentextdetect'' \<longleftrightarrow> False" "inertIn L ''malwarebazaar'' \<longleftrightarrow> False"
  "inertIn L ''onnx'' \<longleftrightarrow> lv_onnx L = Stub"
  by (simp_all add: inertIn_def)

definition switched :: "(string \<Rightarrow> bool) \<Rightarrow> string \<Rightarrow> bool \<Rightarrow> (string \<times> bool) list \<Rightarrow> (string \<times> bool) list" where
  "switched inert name b = map (\<lambda>(n, c). (n, if n = name \<and> \<not> inert n then b else c))"

definition scannerNames :: "string list" where
  "scannerNames = [''rspamd'', ''clamav'', ''yara'', ''urlcheck'', ''urlunshorten'', ''nrdcheck'', ''ipreputation'', ''virustotal'', ''htmlsmuggling'', ''hiddentextdetect'', ''malwarebazaar'', ''onnx'']"

lemma scanner_cases:
  assumes "name = ''rspamd'' \<Longrightarrow> P"
    and "name = ''clamav'' \<Longrightarrow> P"
    and "name = ''yara'' \<Longrightarrow> P"
    and "name = ''urlcheck'' \<Longrightarrow> P"
    and "name = ''urlunshorten'' \<Longrightarrow> P"
    and "name = ''nrdcheck'' \<Longrightarrow> P"
    and "name = ''ipreputation'' \<Longrightarrow> P"
    and "name = ''virustotal'' \<Longrightarrow> P"
    and "name = ''htmlsmuggling'' \<Longrightarrow> P"
    and "name = ''hiddentextdetect'' \<Longrightarrow> P"
    and "name = ''malwarebazaar'' \<Longrightarrow> P"
    and "name = ''onnx'' \<Longrightarrow> P"
    and "name \<notin> set scannerNames \<Longrightarrow> P"
  shows P
  using assms by (auto simp: scannerNames_def)

lemma inertIn_setByName [simp]: "inertIn (setByName name b L) = inertIn L"
  by (auto simp: inertIn_def setByName_def classifier_defs fun_eq_iff split: classifier.splits)

lemma switches_setByName: "switches (setByName name b L) = switched (inertIn L) name b (switches L)"
proof (rule scanner_cases [of name])
  assume "name \<notin> set scannerNames"
  then have "map (\<lambda>(n, c). (n, if n = name \<and> \<not> inertIn L n then b else c)) (switches L) = switches L"
    by (auto simp: switches_def scannerNames_def)
  then show ?thesis using \<open>name \<notin> set scannerNames\<close> by (simp add: setByName_def switched_def scannerNames_def)
next
  assume "name = ''onnx''"
  then show ?thesis by (cases "lv_onnx L") (simp_all add: setByName_def switches_def switched_def classifier_defs setters)
qed (simp_all add: setByName_def switches_def switched_def setters)

text \<open>A loop that switches by name, over any state with switches.\<close>

lemma fold_switch:
  assumes "\<And>name b x. good x \<Longrightarrow> sw (put name b x) = switched inert name b (sw x)" and "\<And>name b x. good x \<Longrightarrow> good (put name b x)" and "good x"
  shows "sw (fold (\<lambda>(name, _) x. case req name of None \<Rightarrow> x | Some b \<Rightarrow> put name b x) ns x)
    = map (\<lambda>(n, c). (n, if n \<in> fst ` set ns \<and> \<not> inert n then (case req n of None \<Rightarrow> c | Some b \<Rightarrow> b) else c)) (sw x)"
  using assms(3)
proof (induction ns arbitrary: x)
  case (Cons p ns)
  obtain name c0 where p: "p = (name, c0)" by fastforce
  show ?case
  proof (cases "req name")
    case None
    then show ?thesis using Cons p by (auto intro!: map_cong split: option.splits if_splits)
  next
    case (Some b)
    have "sw (fold (\<lambda>(name, _) x. case req name of None \<Rightarrow> x | Some b \<Rightarrow> put name b x) ns (put name b x))
      = map (\<lambda>(n, c). (n, if n \<in> fst ` set ns \<and> \<not> inert n then (case req n of None \<Rightarrow> c | Some b \<Rightarrow> b) else c)) (switched inert name b (sw x))"
      using Cons.IH [OF assms(2) [OF Cons.prems]] assms(1) [OF Cons.prems] by simp
    then show ?thesis using Some p by (auto simp: switched_def intro!: map_cong split: option.splits if_splits)
  qed
qed (simp add: case_prod_beta')

definition requested :: "(string \<Rightarrow> bool) \<Rightarrow> (string \<rightharpoonup> bool) \<Rightarrow> (string \<times> bool) list \<Rightarrow> (string \<times> bool) list" where
  "requested inert req = map (\<lambda>(n, c). (n, if inert n then c else case req n of None \<Rightarrow> c | Some b \<Rightarrow> b))"

lemma requested_own:
  "map (\<lambda>(n, c). (n, if n \<in> fst ` set xs \<and> \<not> inert n then (case req n of None \<Rightarrow> c | Some b \<Rightarrow> b) else c)) xs = requested inert req xs"
  unfolding requested_def by (rule map_cong) (force split: if_splits)+

lemma applySwitches_requested: "switches (applySwitches req L) = requested (inertIn L) req (switches L)"
  unfolding applySwitches_def
  by (subst fold_switch [of "\<lambda>L'. inertIn L' = inertIn L" switches setByName "inertIn L"]) (simp_all add: switches_setByName requested_own)

lemma UpdateScanners_requested: "sw_scanners (fst (UpdateScanners E req w)) = requested (sv_inert E) req (sw_scanners w)"
proof -
  let ?set = "\<lambda>name b w. fst (saveRows E [(''scanner_'' @ name @ ''_enabled'', if b then ''true'' else ''false'')]
      (w\<lparr>sw_scanners := setScanner E name b (sw_scanners w)\<rparr>))"
  have "sw_scanners (?set name b w) = switched (sv_inert E) name b (sw_scanners w)" for name b w
    by (simp add: saveRows_def switched_def setScanner_def Let_def split: option.split)
  then have "sw_scanners (fold (\<lambda>(name, _) x. case req name of None \<Rightarrow> x | Some b \<Rightarrow> ?set name b x) (sw_scanners w) w)
    = map (\<lambda>(n, c). (n, if n \<in> fst ` set (sw_scanners w) \<and> \<not> sv_inert E n then (case req n of None \<Rightarrow> c | Some b \<Rightarrow> b) else c)) (sw_scanners w)"
    by (intro fold_switch [where good = "\<lambda>_. True"]) blast+
  then show ?thesis unfolding UpdateScanners_def fst_conv requested_own .
qed

text \<open>The rows that a request stores, when the writes succeed.\<close>

definition rowKey :: "string \<Rightarrow> string" where
  "rowKey name = ''scanner_'' @ name @ ''_enabled''"

lemma rowKey_inj [simp]: "rowKey a = rowKey b \<longleftrightarrow> a = b"
  by (simp add: rowKey_def)

lemma fold_rows:
  assumes "\<And>n b x. rows (put n b x) = (rows x)(rowKey n \<mapsto> val b)"
  shows "rows (fold (\<lambda>(n, _) x. case req n of None \<Rightarrow> x | Some b \<Rightarrow> put n b x) ns x) (rowKey name) =
    (if name \<in> fst ` set ns then (case req name of None \<Rightarrow> rows x (rowKey name) | Some b \<Rightarrow> Some (val b)) else rows x (rowKey name))"
proof (induction ns arbitrary: x)
  case (Cons p ns)
  obtain n c0 where p: "p = (n, c0)" by fastforce
  show ?case by (cases "req n") (auto simp: p Cons assms split: option.split)
qed simp

lemma UpdateScanners_rows:
  assumes "sv_faults E = (\<lambda>_. None)"
  shows "sw_rows (fst (UpdateScanners E req w)) (rowKey name) =
    (if name \<in> fst ` set (sw_scanners w) then (case req name of None \<Rightarrow> sw_rows w (rowKey name) | Some b \<Rightarrow> Some (if b then ''true'' else ''false''))
     else sw_rows w (rowKey name))"
proof -
  let ?set = "\<lambda>name b w. fst (saveRows E [(''scanner_'' @ name @ ''_enabled'', if b then ''true'' else ''false'')]
      (w\<lparr>sw_scanners := setScanner E name b (sw_scanners w)\<rparr>))"
  have "sw_rows (?set n b w) = (sw_rows w)(rowKey n \<mapsto> if b then ''true'' else ''false'')" for n b w
    by (simp add: saveRows_def assms Let_def rowKey_def)
  from fold_rows [of sw_rows ?set "\<lambda>b. if b then ''true'' else ''false''", OF this] show ?thesis
    unfolding UpdateScanners_def fst_conv .
qed

lemma off_is_silent:
  assumes "(name, False, scan) \<in> set (allScanners W L)"
  shows "sr_Verdict (scan e) = ''skip'' \<and> sr_Scanner (scan e) = name"
proof -
  note off = sw_rspamd.off_skips sw_clamav.off_skips sw_yara.off_skips sw_urlcheck.off_skips sw_unshorten.off_skips sw_nrd.off_skips sw_iprep.off_skips
    sw_vt.off_skips sw_smuggling.off_skips sw_hidden.off_skips sw_mb.off_skips rp_classifier.off_skips
  note names = sw_rspamd.reports_name sw_clamav.reports_name sw_yara.reports_name sw_urlcheck.reports_name sw_unshorten.reports_name sw_nrd.reports_name
    sw_iprep.reports_name sw_vt.reports_name sw_smuggling.reports_name sw_hidden.reports_name sw_mb.reports_name rp_classifier.reports_name
  have "list_all (\<lambda>(n, b, sc). (sr_Verdict (sc e) = ''skip'' \<or> b) \<and> sr_Scanner (sc e) = n) (allScanners W L)"
    unfolding allScanners_def list.pred_inject prod.case
    by (intro conjI TrueI names disjCI off) (simp_all add: setters)
  then show ?thesis using assms by (auto simp: list_all_iff)
qed


lemma unnamed_unchanged:
  assumes "req name = None" and "(name, b, scan) \<in> set (allScanners W (applySwitches req L))"
  shows "(name, b, scan) \<in> set (allScanners W L)"
proof -
  have keep: "filter (\<lambda>x. fst x \<noteq> n) (allScanners W (setByName n c L)) = filter (\<lambda>x. fst x \<noteq> n) (allScanners W L)" for n c L
    by (rule scanner_cases [of n]) (simp_all add: setByName_def allScanners_def setters scannerNames_def)
  have "x \<in> set (allScanners W (fold (\<lambda>(n, _) L. case req n of None \<Rightarrow> L | Some c \<Rightarrow> setByName n c L) ns L)) \<Longrightarrow> fst x = name \<Longrightarrow> x \<in> set (allScanners W L)" for x ns
  proof (induction ns arbitrary: L)
    case (Cons p ns)
    obtain n c0 where p: "p = (n, c0)" by fastforce
    show ?case
    proof (cases "req n")
      case (Some c)
      then have "x \<in> set (allScanners W (setByName n c L))" and "fst x \<noteq> n" using Cons p assms(1) by auto
      then have "x \<in> set (filter (\<lambda>x. fst x \<noteq> n) (allScanners W (setByName n c L)))" by simp
      then show ?thesis unfolding keep by simp
    qed (use Cons p in simp)
  qed simp
  from this [of "(name, b, scan)" "switches L"] assms(2) show ?thesis by (simp add: applySwitches_def)
qed

text \<open>
  C29. The switches of the dashboard reach the scanners: after a request the settings show exactly the states of the live scanners, which are the requested ones and, where nothing was requested, the old ones;
  a scanner that is off afterwards reports \<^verbatim>\<open>skip\<close> under its own name for every message; a scanner that the request does not name scans as before. The exception is the classifier of the default build, without the tag \<^verbatim>\<open>ai\<close>: it is a
  stub that is always off, whatever is requested. When the database takes the writes (the handler ignores their errors), the rows of the named scanners hold the requested states, the stub's row too.
\<close>

theorem dashboard_switches_scanners:
  assumes "sw_scanners w = switches L" and "sv_inert E = inertIn L"
  shows "sw_scanners (fst (UpdateScanners E req w)) = switches (applySwitches req L)
    \<and> switches (applySwitches req L) = requested (inertIn L) req (switches L)
    \<and> (lv_onnx L = Stub \<longrightarrow> (''onnx'', False) \<in> set (switches (applySwitches req L)))
    \<and> (\<forall>(name, b, scan) \<in> set (allScanners W (applySwitches req L)).
         (\<not> b \<longrightarrow> sr_Verdict (scan e) = ''skip'' \<and> sr_Scanner (scan e) = name) \<and> (req name = None \<longrightarrow> (name, b, scan) \<in> set (allScanners W L)))
    \<and> (sv_faults E = (\<lambda>_. None) \<longrightarrow> (\<forall>name \<in> fst ` set (switches L). \<forall>b. req name = Some b \<longrightarrow>
         sw_rows (fst (UpdateScanners E req w)) (''scanner_'' @ name @ ''_enabled'') = Some (if b then ''true'' else ''false'')))"
proof (intro conjI ballI impI)
  show "sw_scanners (fst (UpdateScanners E req w)) = switches (applySwitches req L)"
    by (simp only: assms UpdateScanners_requested applySwitches_requested)
  show "(''onnx'', False) \<in> set (switches (applySwitches req L))" if "lv_onnx L = Stub"
    using that unfolding applySwitches_requested by (simp add: requested_def switches_def classifier_defs)
  show "\<forall>b. req name = Some b \<longrightarrow> sw_rows (fst (UpdateScanners E req w)) (''scanner_'' @ name @ ''_enabled'') = Some (if b then ''true'' else ''false'')"
    if "sv_faults E = (\<lambda>_. None)" "name \<in> fst ` set (switches L)" for name
    using UpdateScanners_rows [OF that(1), of req w name] that(2) unfolding assms(1) rowKey_def by simp
  fix x assume "x \<in> set (allScanners W (applySwitches req L))"
  moreover obtain name b scan where x: "x = (name, b, scan)" by (rule prod_cases3)
  ultimately have mem: "(name, b, scan) \<in> set (allScanners W (applySwitches req L))" by simp
  have "\<not> b \<longrightarrow> sr_Verdict (scan e) = ''skip'' \<and> sr_Scanner (scan e) = name"
  proof
    assume "\<not> b"
    then have "(name, False, scan) \<in> set (allScanners W (applySwitches req L))" using mem by simp
    then show "sr_Verdict (scan e) = ''skip'' \<and> sr_Scanner (scan e) = name" by (rule off_is_silent)
  qed
  moreover have "req name = None \<longrightarrow> (name, b, scan) \<in> set (allScanners W L)" using unnamed_unchanged [OF _ mem] by blast
  ultimately show "case x of (name, b, scan) \<Rightarrow> (\<not> b \<longrightarrow> sr_Verdict (scan e) = ''skip'' \<and> sr_Scanner (scan e) = name)
      \<and> (req name = None \<longrightarrow> (name, b, scan) \<in> set (allScanners W L))" unfolding x prod.case by blast
qed (rule applySwitches_requested)

text \<open>The guard of the domain check is only in its constructor: without TLS to the registry it starts switched off, as the warning says, but the dashboard (or a stored setting) switches it on.\<close>

lemma nrd_guard_bypassed:
  assumes "\<not> hasPrefix base ''https://''"
  shows "\<not> n_enabled (NewNRDCheck on days cacheHours base) \<and> n_enabled (NRDCheck_SetEnabled True (NewNRDCheck on days cacheHours base))
    \<and> n_rdapBaseURL (NRDCheck_SetEnabled True (NewNRDCheck on days cacheHours base)) = base"
  using assms by (simp add: NewNRDCheck_def NRDCheck_SetEnabled_def)

definition demoLive :: live where
  "demoLive = \<lparr>lv_rspamd = NewRspamd ''http://rspamd:11333'', lv_clamav = NewClamAV ''clamav:3310'', lv_yara = demoYara, lv_urlcheck = NewURLCheck,
     lv_unshorten = NewURLUnshorten True 5 second 10 20, lv_nrd = demoNRD, lv_iprep = NewIPReputation [], lv_vt = NewVirusTotal [] 0 0, lv_smuggling = NewHTMLSmuggling True 10,
     lv_hidden = NewHiddenTextDetect True, lv_mb = NewMalwareBazaar, lv_onnx = Stub\<rparr>"

lemma dashboard_switches_scanners_witness:
  "sw_scanners (fst (UpdateScanners Settings.demoEnv [''clamav'' \<mapsto> False, ''onnx'' \<mapsto> True] (emptySettings\<lparr>sw_scanners := switches demoLive\<rparr>))) ! 1 = (''clamav'', False)
   \<and> sw_scanners (fst (UpdateScanners Settings.demoEnv [''clamav'' \<mapsto> False, ''onnx'' \<mapsto> True] (emptySettings\<lparr>sw_scanners := switches demoLive\<rparr>))) ! 11 = (''onnx'', False)"
proof -
  have a: "sw_scanners (emptySettings\<lparr>sw_scanners := switches demoLive\<rparr>) = switches demoLive" by simp
  have b: "sv_inert Settings.demoEnv = inertIn demoLive" by (simp add: Settings.demoEnv_def inertIn_def demoLive_def fun_eq_iff)
  have "sw_scanners (fst (UpdateScanners Settings.demoEnv [''clamav'' \<mapsto> False, ''onnx'' \<mapsto> True] (emptySettings\<lparr>sw_scanners := switches demoLive\<rparr>)))
      = requested (inertIn demoLive) [''clamav'' \<mapsto> False, ''onnx'' \<mapsto> True] (switches demoLive)"
    by (rule trans [OF conjunct1 [OF dashboard_switches_scanners [OF a b]] conjunct1 [OF conjunct2 [OF dashboard_switches_scanners [OF a b]]]])
  then show ?thesis by (simp add: requested_def switches_def classifier_defs demoLive_def)
qed

end
