(* ===== verification/HtmlPreview.thy ===== *)
theory HtmlPreview
  imports Email Listings
begin

text \<open>
  The preview of a stored message: \<^verbatim>\<open>app/util/sanitise.go\<close> and \<^verbatim>\<open>app/util/hash.go\<close>. The HTML policies of bluemonday and SHA-256 are arguments; the parts come from the same reader as in the scanning
  pipeline, with the raw \<^verbatim>\<open>Content-Type\<close> header of each part beside them.
\<close>

section \<open>Sanitising\<close>

record policies =
  po_strict :: "string \<Rightarrow> string"
  po_ugc :: "string \<Rightarrow> string"

definition SanitiseHTML :: "policies \<Rightarrow> string \<Rightarrow> string" where
  "SanitiseHTML P raw = po_strict P raw"

text \<open>\<open>pv_html\<close> and \<open>pv_text\<close> are empty until a part has filled them.\<close>

record preview =
  pv_html :: string
  pv_text :: string

definition previewCap :: int where
  "previewCap = 2 * 2 ^ 20"

definition previewPart :: "policies \<Rightarrow> string \<Rightarrow> body \<Rightarrow> preview \<Rightarrow> preview" where
  "previewPart P ct b v =
     (let (data, fails) = readLimited b previewCap
      in if fails then v
         else if hasPrefix ct ''text/html'' \<and> pv_html v = [] then v\<lparr>pv_html := po_ugc P data\<rparr>
         else if hasPrefix ct ''text/plain'' \<and> pv_text v = [] then v\<lparr>pv_text := ''<pre>'' @ po_strict P data @ ''</pre>''\<rparr>
         else v)"

fun bodyOf :: "part_event \<Rightarrow> body" where
  "bodyOf (PartInline _ b) = b"
| "bodyOf (PartAttachment _ b) = b"
| "bodyOf _ = \<lparr>bodyBytes = [], bodyFails = False\<rparr>"

definition partEnds :: "part_event \<Rightarrow> bool" where
  "partEnds e \<longleftrightarrow> e = PartEOF \<or> e = PartErr"

definition shown :: "preview \<Rightarrow> string" where
  "shown v =
     (if pv_html v \<noteq> [] then pv_html v
      else if pv_text v \<noteq> [] then pv_text v
      else ''<p><em>No readable content found.</em></p>'')"

text \<open>The loop ends at the first error of the reader, \<^verbatim>\<open>io.EOF\<close> or not.\<close>

definition ExtractAndSanitizeHTML :: "policies \<Rightarrow> mail_lib \<Rightarrow> (nat \<Rightarrow> string) \<Rightarrow> string \<Rightarrow> string go" where
  "ExtractAndSanitizeHTML P lib rawType raw =
     (case createReader lib raw of
        Inl _ \<Rightarrow> Returns ''<p><em>Unable to parse email.</em></p>''
      | Inr (_, parts) \<Rightarrow>
          (case while_option (\<lambda>(i, v). \<not> partEnds (parts i)) (\<lambda>(i, v). (Suc i, previewPart P (rawType i) (bodyOf (parts i)) v)) (0, \<lparr>pv_html = [], pv_text = []\<rparr>) of
             None \<Rightarrow> Hangs
           | Some (_, v) \<Rightarrow> Returns (shown v)))"

definition SHA256Hex :: "(string \<Rightarrow> bytes) \<Rightarrow> string \<Rightarrow> string" where
  "SHA256Hex sum256 b = hexEncode (sum256 b)"

section \<open>What is shown\<close>

text \<open>The parts before the first error, each with its header.\<close>

definition partsTo :: "(nat \<Rightarrow> string) \<Rightarrow> (nat \<Rightarrow> part_event) \<Rightarrow> nat \<Rightarrow> (string \<times> body) list" where
  "partsTo rawType parts n = map (\<lambda>i. (rawType i, bodyOf (parts i))) [0..<n]"

definition htmlOf :: "policies \<Rightarrow> string \<times> body \<Rightarrow> string" where
  "htmlOf P p = (let (data, fails) = readLimited (snd p) previewCap in if fails \<or> \<not> hasPrefix (fst p) ''text/html'' then [] else po_ugc P data)"

definition textOf :: "policies \<Rightarrow> string \<times> body \<Rightarrow> string" where
  "textOf P p =
     (let (data, fails) = readLimited (snd p) previewCap
      in if fails \<or> \<not> hasPrefix (fst p) ''text/plain'' then [] else ''<pre>'' @ po_strict P data @ ''</pre>'')"

text \<open>The first that is not empty.\<close>

definition firstFilled :: "string list \<Rightarrow> string" where
  "firstFilled xs = (case find (\<lambda>x. x \<noteq> []) xs of None \<Rightarrow> [] | Some x \<Rightarrow> x)"

lemma not_both_types: "hasPrefix ct ''text/html'' \<Longrightarrow> \<not> hasPrefix ct ''text/plain''"
proof
  assume "hasPrefix ct ''text/html''" "hasPrefix ct ''text/plain''"
  then have "take 9 ct = ''text/html''" "take 10 ct = ''text/plain''" by (simp_all add: hasPrefix_def eval_nat_numeral)
  then have "take 6 (take 9 ct) = ''text/h''" "take 6 (take 10 ct) = ''text/p''" by (simp_all del: take_take)
  then show False by simp
qed

lemma previewPart_fields:
  "pv_html (previewPart P ct b v) = (if pv_html v = [] then htmlOf P (ct, b) else pv_html v)"
  "pv_text (previewPart P ct b v) = (if pv_text v = [] then textOf P (ct, b) else pv_text v)"
  using not_both_types [of ct] by (auto simp: previewPart_def htmlOf_def textOf_def split: prod.split)

lemma firstFilled_Cons: "firstFilled (x # xs) = (if x = [] then firstFilled xs else x)"
  by (simp add: firstFilled_def)

lemma fold_previewPart:
  "pv_html (fold (\<lambda>p. previewPart P (fst p) (snd p)) ps v) = (if pv_html v = [] then firstFilled (map (htmlOf P) ps) else pv_html v)
   \<and> pv_text (fold (\<lambda>p. previewPart P (fst p) (snd p)) ps v) = (if pv_text v = [] then firstFilled (map (textOf P) ps) else pv_text v)"
  by (induction ps arbitrary: v) (auto simp: previewPart_fields firstFilled_Cons, auto simp: firstFilled_def)

lemma preview_loop:
  assumes "partEnds (parts n)" and "\<forall>i < n. \<not> partEnds (parts i)" and "k \<le> n"
  shows "while_option (\<lambda>(i, v). \<not> partEnds (parts i)) (\<lambda>(i, v). (Suc i, previewPart P (rawType i) (bodyOf (parts i)) v)) (k, v)
    = Some (n, fold (\<lambda>i. previewPart P (rawType i) (bodyOf (parts i))) [k..<n] v)"
  using assms(3)
proof (induction "n - k" arbitrary: k v)
  case 0
  then show ?case using assms(1) by (subst while_option_unfold) simp
next
  case (Suc m)
  then have "k < n" "[k..<n] = k # [Suc k..<n]" by (simp_all add: upt_conv_Cons)
  then show ?case using Suc assms(2) by (subst while_option_unfold) simp
qed

text \<open>
  C32. The preview shows the first HTML part that has anything left after sanitising, else the first plain text, escaped, else a notice; it never shows a byte of the message that did not go through one of the two
  policies, and it returns whenever the reader ends.
\<close>

theorem preview_shows_first:
  assumes "createReader lib raw = Inr (h, parts)" and "partEnds (parts n)" and "\<forall>i < n. \<not> partEnds (parts i)"
  shows "ExtractAndSanitizeHTML P lib rawType raw =
    Returns (firstFilled [firstFilled (map (htmlOf P) (partsTo rawType parts n)), firstFilled (map (textOf P) (partsTo rawType parts n)),
      ''<p><em>No readable content found.</em></p>''])"
proof -
  let ?f = "fold (\<lambda>p. previewPart P (fst p) (snd p)) (partsTo rawType parts n) \<lparr>pv_html = [], pv_text = []\<rparr>"
  have "fold (\<lambda>i. previewPart P (rawType i) (bodyOf (parts i))) [0..<n] \<lparr>pv_html = [], pv_text = []\<rparr> = ?f"
    by (simp add: partsTo_def fold_map o_def)
  then have "ExtractAndSanitizeHTML P lib rawType raw = Returns (shown ?f)"
    using assms(1) preview_loop [OF assms(2,3), of 0 P rawType "\<lparr>pv_html = [], pv_text = []\<rparr>"] by (simp add: ExtractAndSanitizeHTML_def)
  then show ?thesis using fold_previewPart [of P "partsTo rawType parts n" "\<lparr>pv_html = [], pv_text = []\<rparr>"]
    by (simp add: shown_def firstFilled_Cons)
qed

text \<open>Safety carries over from the policies to the page: whatever holds of everything that the policies produce and of the three notices holds of the answer.\<close>

lemma firstFilled_mem: "firstFilled xs = [] \<or> firstFilled xs \<in> set xs"
  by (auto simp: firstFilled_def find_Some_iff split: option.split)

lemma preview_safe:
  assumes "\<forall>s. safe (po_ugc P s)" and "\<forall>s. safe (''<pre>'' @ po_strict P s @ ''</pre>'')"
    and "safe ''<p><em>No readable content found.</em></p>''" and "safe ''<p><em>Unable to parse email.</em></p>''"
    and "ExtractAndSanitizeHTML P lib rawType raw = Returns out"
  shows "safe out"
proof (cases "createReader lib raw")
  case (Inr x)
  obtain h parts where x: "x = (h, parts)" by fastforce
  define init where "init = \<lparr>pv_html = [], pv_text = []\<rparr>"
  obtain i v where w: "while_option (\<lambda>(i, v). \<not> partEnds (parts i)) (\<lambda>(i, v). (Suc i, previewPart P (rawType i) (bodyOf (parts i)) v)) (0, init) = Some (i, v)"
    and out: "out = shown v"
    using assms(5) Inr x by (auto simp: ExtractAndSanitizeHTML_def init_def split: option.splits)
  have "case (i, v) of (i, v) \<Rightarrow> (pv_html v \<noteq> [] \<longrightarrow> safe (pv_html v)) \<and> (pv_text v \<noteq> [] \<longrightarrow> safe (pv_text v))"
    by (rule while_option_rule [OF _ w])
      (use assms(1,2) in \<open>auto simp: previewPart_fields htmlOf_def textOf_def init_def split: prod.splits\<close>)
  then show ?thesis using out assms(3) by (auto simp: shown_def)
qed (use assms(4,5) in \<open>simp add: ExtractAndSanitizeHTML_def\<close>)

text \<open>The scanning pipeline skips a part that the reader reports as broken and reads on; the preview stops there. A message can have a body that was scanned and no preview.\<close>

definition brokenFirst :: "nat \<Rightarrow> part_event" where
  "brokenFirst i = (if i = 0 then PartErr else if i = 1 then PartInline ''text/html'' \<lparr>bodyBytes = ''<b>x</b>'', bodyFails = False\<rparr> else PartEOF)"

lemma preview_stops_at_broken_part:
  assumes "createReader lib raw = Inr (h, brokenFirst)"
  shows "ExtractAndSanitizeHTML P lib rawType raw = Returns ''<p><em>No readable content found.</em></p>''
    \<and> (\<exists>w. walkParts lib 0 brokenFirst = Returns w \<and> wk_HTML w = ''<b>x</b>'')"
proof -
  have "while_option (\<lambda>(i, w). brokenFirst i \<noteq> PartEOF) (\<lambda>(i, w). (Suc i, walkStep lib 0 (brokenFirst i) w)) (0, walk0)
      = Some (2, walkStep lib 0 (brokenFirst 1) (walkStep lib 0 (brokenFirst 0) walk0))"
    by (subst while_option_unfold, simp add: brokenFirst_def)+
  then have "\<exists>w. walkParts lib 0 brokenFirst = Returns w \<and> wk_HTML w = ''<b>x</b>''"
    by (simp add: walkParts_def brokenFirst_def inlinePart_def walk0_def readLimited_def maxTotalBodyBytes_def hasPrefix_def Let_def)
  moreover have "ExtractAndSanitizeHTML P lib rawType raw = Returns ''<p><em>No readable content found.</em></p>''"
    using assms by (simp add: ExtractAndSanitizeHTML_def while_option_unfold brokenFirst_def partEnds_def shown_def)
  ultimately show ?thesis by blast
qed

text \<open>Media types are compared as they are written: a part declared as \<^verbatim>\<open>Text/HTML\<close> is not shown.\<close>

lemma upper_case_type_ignored: "htmlOf P (''Text/HTML'', b) = []"
  by (simp add: htmlOf_def hasPrefix_def split: prod.split)

lemma SHA256Hex_length: "length (sum256 b) = 32 \<Longrightarrow> length (SHA256Hex sum256 b) = 64"
  by (simp add: SHA256Hex_def hexEncode_def length_concat o_def sum_list_triv)

definition twoParts :: "nat \<Rightarrow> part_event" where
  "twoParts i = (if i = 0 then PartInline ''text/html'' \<lparr>bodyBytes = ''<b>x</b>'', bodyFails = False\<rparr> else PartEOF)"

definition demoReader :: mail_lib where
  "demoReader = \<lparr>createReader = (\<lambda>_. Inr (\<lparr>mh_MessageID = [], mh_Subject = [], mh_From = None, mh_To = None, mh_Date = None, mh_AuthResults = [], mh_Received = []\<rparr>, twoParts)),
     htmlAttrs = (\<lambda>_. Returns None), imageConfig = (\<lambda>_. Returns None), decodeQR = (\<lambda>_. Returns None), sha256Hex = id, mediaType = Inr\<rparr>"

lemma preview_shows_first_witness:
  "ExtractAndSanitizeHTML \<lparr>po_strict = id, po_ugc = (\<lambda>s. filter (\<lambda>c. c \<noteq> CHR ''b'') s)\<rparr> demoReader (\<lambda>_. ''text/html; charset=utf-8'') ''m'' = Returns ''<>x</>''"
proof -
  have "createReader demoReader ''m'' = Inr (\<lparr>mh_MessageID = [], mh_Subject = [], mh_From = None, mh_To = None, mh_Date = None, mh_AuthResults = [], mh_Received = []\<rparr>, twoParts)"
    "partEnds (twoParts 1)" "\<forall>i < 1. \<not> partEnds (twoParts i)" by (simp_all add: demoReader_def twoParts_def partEnds_def)
  from preview_shows_first [OF this] show ?thesis
    by (simp add: partsTo_def htmlOf_def twoParts_def readLimited_def previewCap_def hasPrefix_def firstFilled_def)
qed

end
