(* ===== verification/TestServer.thy ===== *)
theory TestServer
  imports Mailbox Refinement
begin

text \<open>
  The IMAP server that the integration tests run the real client code against (\<^verbatim>\<open>app/imap/testserver/testserver.go\<close>): the shared inbox with its UID
  counter, and one handler per IMAP command. Every handler holds the lock while it changes the inbox, so a handler is one step; the two
  places where a handler gives the lock up in the middle (\<^verbatim>\<open>Append\<close> and \<^verbatim>\<open>Idle\<close>) and the slice that \<^verbatim>\<open>Search\<close> and \<^verbatim>\<open>Fetch\<close> read without it are
  modelled separately. Number sets belong to go-imap: a set is the list of its members.
\<close>

section \<open>State\<close>

record Message =
  ms_Raw :: string
  ms_UID :: uint32
  ms_Seen :: bool
  ms_Deleted :: bool

text \<open>\<open>ts_notify\<close> counts the notification channels: a channel is closed when a later one has replaced it.\<close>

record testserver =
  ts_msgs :: "Message list"
  ts_notify :: nat
  ts_nextUID :: uint32

record session =
  se_username :: string
  se_password :: string
  se_selected :: bool

datatype num_set = SeqSet "uint32 list" | UIDSet "uint32 list" | OtherSet

datatype imap_flag = FlagSeen | FlagDeleted | FlagFlagged | FlagAnswered

datatype store_op = StoreFlagsSet | StoreFlagsAdd | StoreFlagsDel

section \<open>The server\<close>

definition newServer :: testserver where
  "newServer = \<lparr>ts_msgs = [], ts_notify = 0, ts_nextUID = 1\<rparr>"

text \<open>Starting it: the outcomes of the certificate and of the socket come from the system.\<close>

definition New :: "unit result \<Rightarrow> unit result \<Rightarrow> testserver result" where
  "New cert sock =
     (case cert of Inl e \<Rightarrow> Inl (''testserver: TLS setup: '' @ e)
      | Inr _ \<Rightarrow> (case sock of Inl e \<Rightarrow> Inl (''testserver: listen: '' @ e) | Inr _ \<Rightarrow> Inr newServer))"

definition NewSession :: "string \<Rightarrow> string \<Rightarrow> session" where
  "NewSession user pass = \<lparr>se_username = user, se_password = pass, se_selected = False\<rparr>"

definition Deliver :: "string \<Rightarrow> testserver \<Rightarrow> testserver" where
  "Deliver raw s =
     s\<lparr>ts_msgs := ts_msgs s @ [\<lparr>ms_Raw = raw, ms_UID = ts_nextUID s, ms_Seen = False, ms_Deleted = False\<rparr>],
       ts_nextUID := ts_nextUID s + 1, ts_notify := Suc (ts_notify s)\<rparr>"

definition Messages :: "testserver \<Rightarrow> Message list" where
  "Messages s = ts_msgs s"

section \<open>The session\<close>

definition Login :: "string \<Rightarrow> string \<Rightarrow> session \<Rightarrow> unit result" where
  "Login user pass se =
     (if user = se_username se \<and> pass = se_password se then Inr () else Inl ''authentication failed'')"

definition numMessages :: "testserver \<Rightarrow> uint32" where
  "numMessages s = of_nat (length (ts_msgs s))"

record select_data =
  sd_NumMessages :: uint32
  sd_UIDValidity :: uint32
  sd_UIDNext :: uint32

definition Select :: "string \<Rightarrow> testserver \<Rightarrow> session \<Rightarrow> session \<times> select_data" where
  "Select mbox s se =
     (se\<lparr>se_selected := True\<rparr>, \<lparr>sd_NumMessages = numMessages s, sd_UIDValidity = 1, sd_UIDNext = numMessages s + 1\<rparr>)"

definition Unselect :: "session \<Rightarrow> session" where
  "Unselect se = se\<lparr>se_selected := False\<rparr>"

definition List :: "string list" where
  "List = [''INBOX'']"

record status_data =
  st_Mailbox :: string
  st_NumMessages :: "uint32 option"
  st_UIDNext :: uint32        \<comment> \<open>zero: not asked for\<close>
  st_UIDValidity :: uint32

definition Status :: "string \<Rightarrow> bool \<Rightarrow> bool \<Rightarrow> bool \<Rightarrow> testserver \<Rightarrow> status_data" where
  "Status mbox wantNum wantUIDNext wantValidity s =
     \<lparr>st_Mailbox = mbox, st_NumMessages = (if wantNum then Some (numMessages s) else None),
      st_UIDNext = (if wantUIDNext then numMessages s + 1 else 0), st_UIDValidity = (if wantValidity then 1 else 0)\<rparr>"

text \<open>\<^verbatim>\<open>Append\<close> delivers and then, under the lock again, reads the UID of the last message; an empty inbox makes the index panic (\<open>None\<close>).\<close>

definition lastUID :: "testserver \<Rightarrow> uint32 option" where
  "lastUID s = (if ts_msgs s = [] then None else Some (ms_UID (last (ts_msgs s))))"

definition Append :: "string result \<Rightarrow> testserver \<Rightarrow> testserver \<times> uint32 option result" where
  "Append body s =
     (case body of Inl e \<Rightarrow> (s, Inl e) | Inr raw \<Rightarrow> (let s' = Deliver raw s in (s', Inr (lastUID s'))))"

definition Poll :: "testserver \<Rightarrow> uint32" where
  "Poll s = numMessages s"

text \<open>
  \<^verbatim>\<open>kept\<close> shares the array of the inbox: the loop writes the messages it keeps over the front of the array that it reads. \<open>compact keep i k arr\<close> is the loop at
  index \<open>i\<close> with \<open>k\<close> messages kept. Plain EXPUNGE has no set; UID EXPUNGE has one.
\<close>

function compact :: "('a \<Rightarrow> bool) \<Rightarrow> nat \<Rightarrow> nat \<Rightarrow> 'a list \<Rightarrow> 'a list \<times> nat" where
  "compact keep i k arr =
     (if length arr \<le> i then (arr, k)
      else if keep (arr ! i) then compact keep (Suc i) (Suc k) (arr[k := arr ! i]) else compact keep (Suc i) k arr)"
  by pat_completeness auto
termination
  by (relation "measure (\<lambda>(keep, i, k, arr). length arr - i)") auto

declare compact.simps [simp del]

definition survives :: "uint32 list option \<Rightarrow> Message \<Rightarrow> bool" where
  "survives uidSet m \<longleftrightarrow> \<not> ms_Deleted m \<or> (case uidSet of None \<Rightarrow> False | Some us \<Rightarrow> ms_UID m \<notin> set us)"

definition Expunge :: "uint32 list option \<Rightarrow> testserver \<Rightarrow> testserver" where
  "Expunge uidSet s = (let (arr, k) = compact (survives uidSet) 0 0 (ts_msgs s) in s\<lparr>ts_msgs := take k arr\<rparr>)"

text \<open>The messages of a slice with their sequence numbers.\<close>

definition numbered :: "Message list \<Rightarrow> (uint32 \<times> Message) list" where
  "numbered ms = zip (map (\<lambda>i. of_nat (Suc i)) [0..<length ms]) ms"

definition contains :: "num_set \<Rightarrow> uint32 \<Rightarrow> uint32 \<Rightarrow> bool" where
  "contains ns seqNum uid =
     (case ns of SeqSet qs \<Rightarrow> seqNum \<in> set qs | UIDSet us \<Rightarrow> uid \<in> set us | OtherSet \<Rightarrow> False)"

text \<open>The criteria the handler reads: the flags a message must not have, and UID sets that all have to contain it. A search by sequence number
  does not look at the UID sets.\<close>

record criteria =
  cr_NotFlag :: "imap_flag list"
  cr_UID :: "uint32 list list"

definition wantUnseen :: "criteria \<Rightarrow> bool" where
  "wantUnseen cr \<longleftrightarrow> FlagSeen \<in> set (cr_NotFlag cr)"

definition SearchUID :: "criteria \<Rightarrow> Message list \<Rightarrow> uint32 list" where
  "SearchUID cr ms =
     map ms_UID (filter (\<lambda>m. \<not> (wantUnseen cr \<and> ms_Seen m) \<and> (\<forall>us \<in> set (cr_UID cr). ms_UID m \<in> set us)) ms)"

definition SearchSeq :: "criteria \<Rightarrow> Message list \<Rightarrow> uint32 list" where
  "SearchSeq cr ms = map fst (filter (\<lambda>(_, m). \<not> (wantUnseen cr \<and> ms_Seen m)) (numbered ms))"

text \<open>A fetched message: sequence number, UID if asked for, flags, and the body once per requested section. The body of a \<^verbatim>\<open>Peek\<close> and of any other section is the whole message.\<close>

record fetch_item =
  fi_SeqNum :: uint32
  fi_UID :: "uint32 option"
  fi_Flags :: "imap_flag list"
  fi_Bodies :: "string list"

definition fetchItem :: "bool \<Rightarrow> nat \<Rightarrow> uint32 \<times> Message \<Rightarrow> fetch_item" where
  "fetchItem wantUID sections p =
     \<lparr>fi_SeqNum = fst p, fi_UID = (if wantUID then Some (ms_UID (snd p)) else None),
      fi_Flags = (if ms_Seen (snd p) then [FlagSeen] else []), fi_Bodies = replicate sections (ms_Raw (snd p))\<rparr>"

definition Fetch :: "num_set \<Rightarrow> bool \<Rightarrow> nat \<Rightarrow> Message list \<Rightarrow> fetch_item list" where
  "Fetch ns wantUID sections ms =
     map (fetchItem wantUID sections) (filter (\<lambda>(q, m). contains ns q (ms_UID m)) (numbered ms))"

definition applyFlag :: "store_op \<Rightarrow> imap_flag \<Rightarrow> Message \<Rightarrow> Message" where
  "applyFlag opn f m =
     (case f of FlagSeen \<Rightarrow> m\<lparr>ms_Seen := opn \<noteq> StoreFlagsDel\<rparr> | FlagDeleted \<Rightarrow> m\<lparr>ms_Deleted := opn \<noteq> StoreFlagsDel\<rparr> | _ \<Rightarrow> m)"

definition applyFlags :: "store_op \<Rightarrow> imap_flag list \<Rightarrow> Message \<Rightarrow> Message" where
  "applyFlags opn fs m = fold (applyFlag opn) fs m"

definition StoreMsgs :: "num_set \<Rightarrow> store_op \<Rightarrow> imap_flag list \<Rightarrow> Message list \<Rightarrow> Message list" where
  "StoreMsgs ns opn fs ms =
     map (\<lambda>(q, m). if contains ns q (ms_UID m) then applyFlags opn fs m else m) (numbered ms)"

definition Store :: "num_set \<Rightarrow> store_op \<Rightarrow> imap_flag list \<Rightarrow> testserver \<Rightarrow> testserver" where
  "Store ns opn fs s = s\<lparr>ts_msgs := StoreMsgs ns opn fs (ts_msgs s)\<rparr>"

text \<open>\<^verbatim>\<open>Copy\<close> takes a UID and answers with it; it stores nothing. The answer: source and destination UIDs.\<close>

definition Copy :: "num_set \<Rightarrow> testserver \<Rightarrow> testserver \<times> uint32 list \<times> uint32 list" where
  "Copy ns s =
     (s\<lparr>ts_nextUID := ts_nextUID s + 1\<rparr>,
      (case ns of UIDSet us \<Rightarrow> us | _ \<Rightarrow> [ts_nextUID s - 1]), [ts_nextUID s])"

section \<open>Mailbox of RFC 3501\<close>

text \<open>
  The specification: messages by UID, and the UID the next message will have. A message's sequence number is its rank among the UIDs of the mailbox.
\<close>

record content =
  ct_raw :: string
  ct_seen :: bool
  ct_deleted :: bool

record mailstore =
  mb_msgs :: "nat \<rightharpoonup> content"
  mb_next :: nat

definition rank :: "(nat \<rightharpoonup> content) \<Rightarrow> nat \<Rightarrow> nat" where
  "rank m u = card {v \<in> dom m. v \<le> u}"

definition selectedBy :: "num_set \<Rightarrow> (nat \<rightharpoonup> content) \<Rightarrow> nat \<Rightarrow> bool" where
  "selectedBy ns m u =
     (case ns of SeqSet qs \<Rightarrow> rank m u \<in> unat ` set qs | UIDSet us \<Rightarrow> u \<in> unat ` set us | OtherSet \<Rightarrow> False)"

definition flagged :: "store_op \<Rightarrow> imap_flag list \<Rightarrow> content \<Rightarrow> content" where
  "flagged opn fs c =
     c\<lparr>ct_seen := (if FlagSeen \<in> set fs then opn \<noteq> StoreFlagsDel else ct_seen c),
       ct_deleted := (if FlagDeleted \<in> set fs then opn \<noteq> StoreFlagsDel else ct_deleted c)\<rparr>"

datatype imap_op =
    OpAppend string
  | OpExpunge "uint32 list option"
  | OpStore num_set store_op "imap_flag list"
  | OpCopy num_set

fun serverStep :: "imap_op \<Rightarrow> testserver \<Rightarrow> testserver" where
  "serverStep (OpAppend raw) s = Deliver raw s"
| "serverStep (OpExpunge us) s = Expunge us s"
| "serverStep (OpStore ns opn fs) s = Store ns opn fs s"
| "serverStep (OpCopy ns) s = fst (Copy ns s)"

fun mailboxStep :: "imap_op \<Rightarrow> mailstore \<Rightarrow> mailstore" where
  "mailboxStep (OpAppend raw) b =
     b\<lparr>mb_msgs := (mb_msgs b)(mb_next b \<mapsto> \<lparr>ct_raw = raw, ct_seen = False, ct_deleted = False\<rparr>), mb_next := Suc (mb_next b)\<rparr>"
| "mailboxStep (OpExpunge us) b =
     b\<lparr>mb_msgs := (\<lambda>u. case mb_msgs b u of None \<Rightarrow> None
        | Some c \<Rightarrow> if ct_deleted c \<and> (case us of None \<Rightarrow> True | Some vs \<Rightarrow> u \<in> unat ` set vs) then None else Some c)\<rparr>"
| "mailboxStep (OpStore ns opn fs) b =
     b\<lparr>mb_msgs := (\<lambda>u. map_option (\<lambda>c. if selectedBy ns (mb_msgs b) u then flagged opn fs c else c) (mb_msgs b u))\<rparr>"
| "mailboxStep (OpCopy ns) b = b\<lparr>mb_next := Suc (mb_next b)\<rparr>"

text \<open>UIDs are 32 bits wide and not reused: an operation that takes one needs one that is left.\<close>

fun uidsLeft :: "imap_op \<Rightarrow> mailstore \<Rightarrow> bool" where
  "uidsLeft (OpAppend _) b \<longleftrightarrow> mb_next b < 2 ^ 32 - 1"
| "uidsLeft (OpCopy _) b \<longleftrightarrow> mb_next b < 2 ^ 32 - 1"
| "uidsLeft _ b = True"

definition contentOf :: "Message \<Rightarrow> content" where
  "contentOf m = \<lparr>ct_raw = ms_Raw m, ct_seen = ms_Seen m, ct_deleted = ms_Deleted m\<rparr>"

definition uidOf :: "Message \<Rightarrow> nat" where
  "uidOf m = unat (ms_UID m)"

definition byUID :: "Message list \<Rightarrow> nat \<rightharpoonup> content" where
  "byUID ms = map_of (map (\<lambda>m. (uidOf m, contentOf m)) ms)"

text \<open>The inbox is in ascending order of UIDs, below the next one.\<close>

definition inboxOK :: "testserver \<Rightarrow> bool" where
  "inboxOK s \<longleftrightarrow> sorted_wrt (<) (map uidOf (ts_msgs s)) \<and> (\<forall>m \<in> set (ts_msgs s). 0 < uidOf m \<and> uidOf m < unat (ts_nextUID s))
     \<and> 0 < unat (ts_nextUID s)"

definition representsMailbox :: "testserver \<Rightarrow> mailstore \<Rightarrow> bool" where
  "representsMailbox s b \<longleftrightarrow> inboxOK s \<and> mb_msgs b = byUID (ts_msgs s) \<and> mb_next b = unat (ts_nextUID s)"


section \<open>The server implements the mailbox\<close>

lemma compact_correct:
  assumes "k \<le> i" and "i \<le> length arr"
  shows "compact keep i k arr = (take k arr @ filter keep (drop i arr) @ drop (k + length (filter keep (drop i arr))) arr,
    k + length (filter keep (drop i arr)))"
  using assms
proof (induction keep i k arr rule: compact.induct)
  case (1 keep i k arr)
  show ?case
  proof (cases "i = length arr")
    case True
    then show ?thesis by (simp add: compact.simps [of keep "length arr"])
  next
    case False
    with 1(4) have i: "i < length arr" by simp
    then have split: "drop i arr = arr ! i # drop (Suc i) arr" by (simp add: Cons_nth_drop_Suc)
    show ?thesis
    proof (cases "keep (arr ! i)")
      case True
      have d: "drop j (arr[k := arr ! i]) = drop j arr" if "k < j" for j using that by simp
      have t: "take (Suc k) (arr[k := arr ! i]) = take k arr @ [arr ! i]"
        using i 1(3) by (simp add: take_Suc_conv_app_nth)
      show ?thesis
        using 1(1) [OF _ True] 1(3) i t split True by (simp add: compact.simps [of keep i k] d)
    next
      case False
      then show ?thesis using 1(2) [OF _ False] 1(3) i split by (simp add: compact.simps [of keep i k])
    qed
  qed
qed

text \<open>The loop in place computes the filter, although it overwrites what it reads; and a slice of the whole array taken before sees the kept messages
  followed by the old rest, so some messages twice.\<close>

lemma Expunge_filter: "Expunge us s = s\<lparr>ts_msgs := filter (survives us) (ts_msgs s)\<rparr>"
  by (simp add: Expunge_def compact_correct)

lemma stale_slice:
  "fst (compact keep 0 0 ms) = filter keep ms @ drop (length (filter keep ms)) ms"
  by (simp add: compact_correct)

lemma stale_search_doubles:
  defines "ms \<equiv> ts_msgs (Store (UIDSet [1]) StoreFlagsAdd [FlagDeleted] (Deliver ''y'' (Deliver ''x'' newServer)))"
  shows "SearchUID \<lparr>cr_NotFlag = [], cr_UID = []\<rparr> (fst (compact (survives None) 0 0 ms)) = [2, 2]"
  by (simp add: stale_slice ms_def Deliver_def newServer_def Store_def StoreMsgs_def numbered_def contains_def upt_rec
      applyFlags_def applyFlag_def survives_def SearchUID_def wantUnseen_def)

lemma unat_mem [simp]: "unat (u :: uint32) \<in> unat ` set us \<longleftrightarrow> u \<in> set us"
  by (auto dest: unsigned_word_eqI)

lemma length_numbered [simp]: "length (numbered ms) = length ms"
  by (simp add: numbered_def)

lemma nth_numbered [simp]: "i < length ms \<Longrightarrow> numbered ms ! i = (of_nat (Suc i), ms ! i)"
  by (simp add: numbered_def)

lemma snd_numbered [simp]: "map snd (numbered ms) = ms"
  by (simp add: numbered_def)

lemma applyFlag_keeps [simp]:
  "ms_UID (applyFlag opn f m) = ms_UID m" "ms_Raw (applyFlag opn f m) = ms_Raw m"
  by (simp_all add: applyFlag_def split: imap_flag.split)

lemma applyFlags_keeps [simp]: "ms_UID (applyFlags opn fs m) = ms_UID m" "ms_Raw (applyFlags opn fs m) = ms_Raw m"
  by (induction fs arbitrary: m) (simp_all add: applyFlags_def)

lemma applyFlags_flagged: "contentOf (applyFlags opn fs m) = flagged opn fs (contentOf m)"
proof (induction fs arbitrary: m)
  case (Cons f fs)
  have "contentOf (applyFlags opn (f # fs) m) = flagged opn fs (contentOf (applyFlag opn f m))"
    using Cons [of "applyFlag opn f m"] by (simp add: applyFlags_def)
  also have "\<dots> = flagged opn (f # fs) (contentOf m)"
    by (simp add: flagged_def contentOf_def applyFlag_def split: imap_flag.split)
  finally show ?case .
qed (simp add: applyFlags_def flagged_def)

lemma StoreMsgs_nth: "i < length ms \<Longrightarrow> StoreMsgs ns opn fs ms ! i =
    (if contains ns (of_nat (Suc i)) (ms_UID (ms ! i)) then applyFlags opn fs (ms ! i) else ms ! i)"
  by (simp add: StoreMsgs_def)

lemma StoreMsgs_length [simp]: "length (StoreMsgs ns opn fs ms) = length ms"
  by (simp add: StoreMsgs_def)

lemma StoreMsgs_uids [simp]: "map uidOf (StoreMsgs ns opn fs ms) = map uidOf ms"
  by (rule nth_equalityI) (simp_all add: StoreMsgs_nth uidOf_def)

lemma inboxOK_distinct: "inboxOK s \<Longrightarrow> distinct (map uidOf (ts_msgs s))"
  by (simp add: inboxOK_def strict_sorted_iff)

lemma inboxOK_length:
  assumes "inboxOK s"
  shows "length (ts_msgs s) < 2 ^ 32"
proof -
  have "uidOf ` set (ts_msgs s) \<subseteq> {0<..<unat (ts_nextUID s)}" using assms by (auto simp: inboxOK_def)
  then have "card (uidOf ` set (ts_msgs s)) \<le> unat (ts_nextUID s) - 1" by (metis card_mono finite_greaterThanLessThan card_greaterThanLessThan Suc_eq_plus1 diff_zero diff_Suc_eq_diff_pred)
  moreover have "card (uidOf ` set (ts_msgs s)) = length (ts_msgs s)"
    using distinct_card [OF inboxOK_distinct [OF assms]] by simp
  moreover have "unat (ts_nextUID s) < 2 ^ 32" using unsigned_less [of "ts_nextUID s"] by simp
  ultimately show ?thesis by linarith
qed

lemma byUID_nth:
  "distinct (map uidOf ms) \<Longrightarrow> i < length ms \<Longrightarrow> byUID ms (uidOf (ms ! i)) = Some (contentOf (ms ! i))"
  unfolding byUID_def by (rule map_of_is_SomeI) (auto simp: o_def)

lemma dom_byUID: "dom (byUID ms) = set (map uidOf ms)"
  by (simp add: byUID_def dom_map_of_conv_image_fst image_image)

text \<open>Sequence numbers are ranks.\<close>

lemma rank_nth:
  assumes "sorted_wrt (<) (map uidOf ms)" and "i < length ms"
  shows "rank (byUID ms) (uidOf (ms ! i)) = Suc i"
proof -
  let ?us = "map uidOf ms"
  have less: "?us ! j < ?us ! i \<longleftrightarrow> j < i" if "j < length ms" for j
    using assms that by (metis length_map linorder_neqE_nat order_less_asym order_less_irrefl sorted_wrt_nth_less)
  have le: "?us ! j \<le> ?us ! i \<longleftrightarrow> j \<le> i" if "j < length ms" for j
    using less [OF that] assms that by (metis length_map le_less linorder_neqE_nat order_less_asym sorted_wrt_nth_less)
  have "{v \<in> dom (byUID ms). v \<le> uidOf (ms ! i)} = (\<lambda>j. ?us ! j) ` {..i}" (is "?A = ?B")
  proof
    show "?A \<subseteq> ?B"
    proof
      fix v assume "v \<in> ?A"
      then have "v \<in> set ?us" "v \<le> ?us ! i" using assms(2) by (simp_all add: dom_byUID)
      then obtain j where "j < length ms" "v = ?us ! j" by (metis in_set_conv_nth length_map)
      then show "v \<in> ?B" using le [of j] \<open>v \<le> ?us ! i\<close> by blast
    qed
    show "?B \<subseteq> ?A"
    proof
      fix v assume "v \<in> ?B"
      then obtain j where "j \<le> i" "v = ?us ! j" by blast
      then show "v \<in> ?A" using le [of j] assms(2) by (simp add: dom_byUID)
    qed
  qed
  moreover have "inj_on (\<lambda>j. ?us ! j) {..i}"
    by (rule inj_on_nth) (use assms in \<open>simp_all add: strict_sorted_iff\<close>)
  ultimately show ?thesis by (simp add: rank_def card_image)
qed

lemma contains_selectedBy:
  assumes "inboxOK s" and "i < length (ts_msgs s)"
  shows "contains ns (of_nat (Suc i)) (ms_UID (ts_msgs s ! i)) = selectedBy ns (byUID (ts_msgs s)) (uidOf (ts_msgs s ! i))"
proof (cases ns)
  case (SeqSet qs)
  have "unat (of_nat (Suc i) :: uint32) = Suc i"
    using inboxOK_length [OF assms(1)] assms(2) by (simp del: of_nat_Suc add: unat_of_nat take_bit_nat_eq_self)
  then have "(of_nat (Suc i) :: uint32) \<in> set qs \<longleftrightarrow> Suc i \<in> unat ` set qs"
    by (metis unat_mem)
  then show ?thesis using SeqSet assms by (simp add: contains_def selectedBy_def rank_nth inboxOK_def)
next
  case (UIDSet us)
  then show ?thesis by (simp add: contains_def selectedBy_def uidOf_def)
qed (simp add: contains_def selectedBy_def)

text \<open>Two lists with the same ascending UIDs and pointwise related contents.\<close>

lemma byUID_eqI:
  assumes "distinct (map uidOf ms)" and "\<And>i. i < length ms \<Longrightarrow> f (uidOf (ms ! i)) = Some (contentOf (ms ! i))"
    and "\<And>u. u \<notin> set (map uidOf ms) \<Longrightarrow> f u = None"
  shows "f = byUID ms"
proof
  fix u show "f u = byUID ms u"
  proof (cases "u \<in> set (map uidOf ms)")
    case True
    then obtain i where "i < length ms" "u = uidOf (ms ! i)" by (auto simp: in_set_conv_nth)
    then show ?thesis using assms(1,2) byUID_nth by metis
  next
    case False
    then have "u \<notin> dom (byUID ms)" by (simp add: dom_byUID)
    then show ?thesis using assms(3) [OF False] by (simp add: domIff)
  qed
qed

lemma inboxOK_Store: "inboxOK s \<Longrightarrow> inboxOK (Store ns opn fs s)"
proof -
  assume ok: "inboxOK s"
  have "uidOf ` set (StoreMsgs ns opn fs (ts_msgs s)) = uidOf ` set (ts_msgs s)"
    by (metis StoreMsgs_uids list.set_map)
  then have "\<forall>m \<in> set (StoreMsgs ns opn fs (ts_msgs s)). uidOf m \<in> uidOf ` set (ts_msgs s)" by blast
  then show ?thesis using ok by (fastforce simp: inboxOK_def Store_def)
qed

lemma inboxOK_Expunge: "inboxOK s \<Longrightarrow> inboxOK (Expunge us s)"
  by (auto simp: inboxOK_def Expunge_filter sorted_wrt_map intro: sorted_wrt_filter)

lemma nextUID_Suc:
  assumes "unat (u :: uint32) < 2 ^ 32 - 1"
  shows "unat (u + 1) = Suc (unat u)"
  using assms by (simp add: unat_plus_if_size word_size)

lemma inboxOK_Deliver: "inboxOK s \<Longrightarrow> unat (ts_nextUID s) < 2 ^ 32 - 1 \<Longrightarrow> inboxOK (Deliver raw s)"
  by (auto simp: inboxOK_def Deliver_def sorted_wrt_append uidOf_def nextUID_Suc less_Suc_eq)

lemma inboxOK_Copy: "inboxOK s \<Longrightarrow> unat (ts_nextUID s) < 2 ^ 32 - 1 \<Longrightarrow> inboxOK (fst (Copy ns s))"
  by (auto simp: inboxOK_def Copy_def nextUID_Suc less_Suc_eq)

lemma sim_Deliver:
  assumes "inboxOK s" "mb_msgs b = byUID (ts_msgs s)" "mb_next b = unat (ts_nextUID s)"
  shows "mb_msgs (mailboxStep (OpAppend raw) b) = byUID (ts_msgs (Deliver raw s))"
proof -
  let ?m = "\<lparr>ms_Raw = raw, ms_UID = ts_nextUID s, ms_Seen = False, ms_Deleted = False\<rparr>"
  have new: "unat (ts_nextUID s) \<notin> set (map uidOf (ts_msgs s))" using assms(1) by (auto simp: inboxOK_def)
  have "(byUID (ts_msgs s))(unat (ts_nextUID s) \<mapsto> contentOf ?m) = byUID (ts_msgs s @ [?m])" (is "?f = _")
  proof (rule byUID_eqI)
    show "distinct (map uidOf (ts_msgs s @ [?m]))" using inboxOK_distinct [OF assms(1)] new by (simp add: uidOf_def)
    show "?f u = None" if "u \<notin> set (map uidOf (ts_msgs s @ [?m]))" for u
    proof -
      have "u \<notin> dom (byUID (ts_msgs s))" "u \<noteq> unat (ts_nextUID s)" using that by (auto simp: dom_byUID uidOf_def)
      then show ?thesis by (simp add: domIff)
    qed
    fix i assume i: "i < length (ts_msgs s @ [?m])"
    show "?f (uidOf ((ts_msgs s @ [?m]) ! i)) = Some (contentOf ((ts_msgs s @ [?m]) ! i))"
    proof (cases "i < length (ts_msgs s)")
      case True
      then have "uidOf (ts_msgs s ! i) \<noteq> unat (ts_nextUID s)" using new by (metis image_eqI list.set_map nth_mem)
      then show ?thesis using True byUID_nth [OF inboxOK_distinct [OF assms(1)] True] by (simp add: nth_append)
    next
      case False
      then have "i = length (ts_msgs s)" using i by simp
      then show ?thesis by (simp add: uidOf_def)
    qed
  qed
  then show ?thesis using assms(2,3) by (simp add: Deliver_def contentOf_def)
qed

lemma sim_Store:
  assumes "inboxOK s" "mb_msgs b = byUID (ts_msgs s)"
  shows "mb_msgs (mailboxStep (OpStore ns opn fs) b) = byUID (StoreMsgs ns opn fs (ts_msgs s))"
proof -
  let ?ms = "ts_msgs s" and ?f = "mb_msgs (mailboxStep (OpStore ns opn fs) b)"
  show ?thesis
  proof (rule byUID_eqI)
    show "distinct (map uidOf (StoreMsgs ns opn fs ?ms))" using inboxOK_distinct [OF assms(1)] by simp
    show "?f u = None" if "u \<notin> set (map uidOf (StoreMsgs ns opn fs ?ms))" for u
    proof -
      have "u \<notin> dom (byUID ?ms)" using that by (simp only: StoreMsgs_uids dom_byUID) simp
      then show ?thesis using assms(2) by (simp add: domIff)
    qed
    fix i assume i: "i < length (StoreMsgs ns opn fs ?ms)"
    have "uidOf (StoreMsgs ns opn fs ?ms ! i) = uidOf (?ms ! i)" using i by (simp add: StoreMsgs_nth uidOf_def)
    then show "?f (uidOf (StoreMsgs ns opn fs ?ms ! i)) = Some (contentOf (StoreMsgs ns opn fs ?ms ! i))"
      using i assms byUID_nth [OF inboxOK_distinct [OF assms(1)], of i] contains_selectedBy [OF assms(1), of i]
      by (simp add: StoreMsgs_nth applyFlags_flagged)
  qed
qed

lemma byUID_filter:
  assumes "distinct (map uidOf ms)"
  shows "byUID (filter P ms) = (\<lambda>u. case byUID ms u of None \<Rightarrow> None
      | Some c \<Rightarrow> if \<exists>m \<in> set ms. uidOf m = u \<and> P m then Some c else None)"
  using assms
proof (induction ms)
  case (Cons m ms)
  then have "uidOf m \<notin> dom (byUID ms)" by (simp add: dom_byUID)
  then have "byUID ms (uidOf m) = None" by (simp add: domIff)
  then show ?case using Cons by (auto simp: byUID_def fun_eq_iff image_iff split: option.split)
qed (simp add: byUID_def fun_eq_iff)

lemma sim_Expunge:
  assumes "inboxOK s" "mb_msgs b = byUID (ts_msgs s)"
  shows "mb_msgs (mailboxStep (OpExpunge us) b) = byUID (ts_msgs (Expunge us s))"
proof
  fix u
  let ?ms = "ts_msgs s"
  note d = inboxOK_distinct [OF assms(1)]
  show "mb_msgs (mailboxStep (OpExpunge us) b) u = byUID (ts_msgs (Expunge us s)) u"
  proof (cases "u \<in> set (map uidOf ?ms)")
    case False
    then have "byUID ?ms u = None" by (metis dom_byUID domIff)
    then show ?thesis using assms(2) by (simp add: Expunge_filter byUID_filter [OF d])
  next
    case True
    then obtain i where i: "i < length ?ms" "u = uidOf (?ms ! i)" by (auto simp: in_set_conv_nth)
    have only: "m = ?ms ! i" if "m \<in> set ?ms" "uidOf m = u" for m
      using that i d by (auto simp: distinct_map inj_on_def)
    have "(\<exists>m \<in> set ?ms. uidOf m = u \<and> P m) \<longleftrightarrow> P (?ms ! i)" for P using only i nth_mem by blast
    then show ?thesis using assms(2) byUID_nth [OF d i(1)] i(2)
      by (simp add: Expunge_filter survives_def byUID_filter [OF d] contentOf_def uidOf_def split: option.split)
  qed
qed

lemma sim_mailbox:
  assumes "representsMailbox s b" and "uidsLeft opn b"
  shows "representsMailbox (serverStep opn s) (mailboxStep opn b)"
proof -
  have ok: "inboxOK s" and eq: "mb_msgs b = byUID (ts_msgs s)" "mb_next b = unat (ts_nextUID s)"
    using assms(1) by (simp_all add: representsMailbox_def)
  show ?thesis
  proof (cases opn)
    case (OpAppend raw)
    then show ?thesis using assms(2) eq inboxOK_Deliver [OF ok] sim_Deliver [OF ok eq, of raw]
      by (simp add: representsMailbox_def Deliver_def nextUID_Suc)
  next
    case (OpExpunge us)
    then show ?thesis using eq inboxOK_Expunge [OF ok] sim_Expunge [OF ok eq(1), of us]
      by (simp add: representsMailbox_def) (simp add: Expunge_filter)
  next
    case (OpStore ns op' fs)
    then show ?thesis using eq inboxOK_Store [OF ok] sim_Store [OF ok eq(1), of ns op' fs]
      by (simp add: representsMailbox_def) (simp add: Store_def)
  next
    case (OpCopy ns)
    then show ?thesis using assms(2) eq inboxOK_Copy [OF ok]
      by (simp add: representsMailbox_def) (simp add: Copy_def nextUID_Suc)
  qed
qed

interpretation inbox: simulation representsMailbox serverStep mailboxStep uidsLeft
  by unfold_locales (rule sim_mailbox)


text \<open>
  C23. The test server is an IMAP mailbox: for any sequence of deliveries, STOREs, EXPUNGEs and COPYs, as long as UIDs last, its inbox holds exactly the messages, bodies
  and flags of a mailbox in which UIDs are given out in ascending order, a sequence number is the rank of a UID, STORE changes the flags of the
  selected messages and no others, and EXPUNGE removes the deleted ones, of its set if it has one.
\<close>

theorem inbox_refines_mailbox:
  assumes "allowedRun uidsLeft mailboxStep ops \<lparr>mb_msgs = Map.empty, mb_next = 1\<rparr>"
  shows "byUID (Messages (fold serverStep ops newServer)) = mb_msgs (fold mailboxStep ops \<lparr>mb_msgs = Map.empty, mb_next = 1\<rparr>)
    \<and> sorted_wrt (<) (map uidOf (Messages (fold serverStep ops newServer)))"
proof -
  have "representsMailbox newServer \<lparr>mb_msgs = Map.empty, mb_next = 1\<rparr>"
    by (simp add: representsMailbox_def inboxOK_def newServer_def byUID_def)
  from inbox.runs [OF this assms] show ?thesis by (simp add: representsMailbox_def inboxOK_def Messages_def)
qed

lemma inbox_refines_mailbox_witness:
  "byUID (Messages (fold serverStep [OpAppend ''a'', OpAppend ''b'', OpStore (UIDSet [2]) StoreFlagsAdd [FlagDeleted], OpExpunge None] newServer)) 1
     = Some \<lparr>ct_raw = ''a'', ct_seen = False, ct_deleted = False\<rparr>
   \<and> byUID (Messages (fold serverStep [OpAppend ''a'', OpAppend ''b'', OpStore (UIDSet [2]) StoreFlagsAdd [FlagDeleted], OpExpunge None] newServer)) 2
     = None"
proof -
  have "allowedRun uidsLeft mailboxStep [OpAppend ''a'', OpAppend ''b'', OpStore (UIDSet [2]) StoreFlagsAdd [FlagDeleted], OpExpunge None]
      \<lparr>mb_msgs = Map.empty, mb_next = 1\<rparr>" by simp
  from inbox_refines_mailbox [OF this] show ?thesis by (simp add: selectedBy_def flagged_def)
qed

section \<open>The client's actions on this server\<close>

text \<open>
  The server as the argument of the client code. Every handler answers for the one inbox, whatever mailbox was selected. MOVE is
  not a handler: go-imap composes it, so it stays an argument.
\<close>

definition flagOf :: "string \<Rightarrow> imap_flag list" where
  "flagOf f = (if f = ''Seen'' then [FlagSeen] else if f = ''Deleted'' then [FlagDeleted] else if f = ''Flagged'' then [FlagFlagged] else [])"

definition asServer ::
  "session \<Rightarrow> AccountConfig \<Rightarrow> (string \<Rightarrow> uint32 list \<Rightarrow> string \<Rightarrow> testserver \<Rightarrow> testserver \<times> uint32 list result) \<Rightarrow> testserver server" where
  "asServer se a mv =
     \<lparr>sv_connect = (\<lambda>s. (s, Login (acc_User a) (acc_Pass a) se)),
      sv_select = (\<lambda>_ s. (s, Inr ())),
      sv_move = mv,
      sv_search = (\<lambda>_ u s. (s, Inr (SearchUID \<lparr>cr_NotFlag = [], cr_UID = [[u]]\<rparr> (ts_msgs s)))),
      sv_store = (\<lambda>_ us f s. (Store (UIDSet us) StoreFlagsAdd (flagOf f) s, Inr ())),
      sv_expunge = (\<lambda>_ us s. (Expunge (Some us) s, Inr ())),
      sv_list = (\<lambda>_ s. (s, Inr List)),
      sv_create = (\<lambda>_ s. (s, Inr ()))\<rparr>"

lemma StoreMsgs_UIDSet:
  "StoreMsgs (UIDSet us) opn fs ms = map (\<lambda>m. if ms_UID m \<in> set us then applyFlags opn fs m else m) ms"
  by (rule nth_equalityI) (simp_all add: StoreMsgs_nth contains_def)

lemma delete_messages:
  "ts_msgs (Expunge (Some us) (Store (UIDSet us) StoreFlagsAdd [FlagDeleted] s)) = filter (\<lambda>m. ms_UID m \<notin> set us) (ts_msgs s)"
proof -
  have "filter (survives (Some us)) (map (\<lambda>m. if ms_UID m \<in> set us then applyFlags StoreFlagsAdd [FlagDeleted] m else m) ms)
      = filter (\<lambda>m. ms_UID m \<notin> set us) ms" for ms
    by (induction ms) (simp_all add: survives_def applyFlags_def applyFlag_def)
  then show ?thesis by (simp add: Expunge_filter Store_def StoreMsgs_UIDSet)
qed

text \<open>
  Deleting is exact, end to end from the client code to the server: \<^verbatim>\<open>BulkDeleteMessages\<close> with the right credentials succeeds at once and takes exactly the messages with the
  given UIDs out of the inbox. Every other message stays as it was, in particular one that some other client has marked as deleted; afterwards
  \<^verbatim>\<open>MessageExists\<close> says no for each deleted UID.
\<close>

theorem delete_exact:
  assumes "Login (acc_User a) (acc_Pass a) se = Inr ()" and "u \<in> set uids"
  shows "BulkDeleteMessages (asServer se a mv) cancelled mbox uids s = (s\<lparr>ts_msgs := filter (\<lambda>m. ms_UID m \<notin> set uids) (ts_msgs s)\<rparr>, Inr ())
    \<and> snd (MessageExists (asServer se a mv) mbox u (fst (BulkDeleteMessages (asServer se a mv) cancelled mbox uids s))) = Inr False"
proof -
  have "Expunge (Some uids) (Store (UIDSet uids) StoreFlagsAdd [FlagDeleted] s) = s\<lparr>ts_msgs := filter (\<lambda>m. ms_UID m \<notin> set uids) (ts_msgs s)\<rparr>"
    using delete_messages [of uids s] by (simp add: Expunge_filter Store_def)
  then have d: "BulkDeleteMessages (asServer se a mv) cancelled mbox uids s = (s\<lparr>ts_msgs := filter (\<lambda>m. ms_UID m \<notin> set uids) (ts_msgs s)\<rparr>, Inr ())"
    using assms by (auto simp: BulkDeleteMessages_def expungeUIDs_def withRetry_def withSelectedMailbox_def asServer_def flagOf_def numeral_2_eq_2)
  have "filter (\<lambda>m. ms_UID m \<notin> set uids \<and> ms_UID m = u) (ts_msgs s) = []" using assms(2) by (auto simp: filter_empty_conv)
  then show ?thesis using d assms(1)
    by (simp add: MessageExists_def withSelectedMailbox_def asServer_def SearchUID_def wantUnseen_def conj_commute)
qed

lemma delete_exact_witness:
  "Messages (fst (BulkDeleteMessages (asServer (NewSession ''u'' ''p'') demoAccount (\<lambda>_ _ _ s. (s, Inr []))) (\<lambda>_. False) ''INBOX'' [1]
     (Store (UIDSet [2]) StoreFlagsAdd [FlagDeleted] (Deliver ''y'' (Deliver ''x'' newServer)))))
   = [\<lparr>ms_Raw = ''y'', ms_UID = 2, ms_Seen = False, ms_Deleted = True\<rparr>]"
proof -
  have "Login (acc_User demoAccount) (acc_Pass demoAccount) (NewSession ''u'' ''p'') = Inr ()" "(1::uint32) \<in> set [1]"
    by (simp_all add: Login_def NewSession_def demoAccount_def)
  from delete_exact [OF this] show ?thesis
    by (simp add: Messages_def Store_def StoreMsgs_UIDSet Deliver_def newServer_def applyFlags_def applyFlag_def)
qed


section \<open>The recovery scan on this server\<close>

definition asFetched :: "fetch_item \<Rightarrow> fetched" where
  "asFetched i = \<lparr>fm_SeqNum = fi_SeqNum i, fm_UID = (case fi_UID i of Some u \<Rightarrow> u | None \<Rightarrow> 0),
     fm_Raw = (case fi_Bodies i of [] \<Rightarrow> [] | b # _ \<Rightarrow> b)\<rparr>"

text \<open>The commands of a scan, in one session: UNSEEN search, UIDs, bodies.\<close>

definition recoveryNet :: "session \<Rightarrow> AccountConfig \<Rightarrow> testserver \<Rightarrow> scan_net" where
  "recoveryNet se a s =
     \<lparr>sc_connect = (case Login (acc_User a) (acc_Pass a) se of Inl e \<Rightarrow> Inl (''login: '' @ e) | Inr _ \<Rightarrow> Inr ()),
      sc_search = Inr (SearchSeq \<lparr>cr_NotFlag = [FlagSeen], cr_UID = []\<rparr> (ts_msgs s)),
      sc_uids = (\<lambda>qs. Inr (map asFetched (Fetch (SeqSet qs) True 0 (ts_msgs s)))),
      sc_bodies = (\<lambda>qs. Inr (map asFetched (Fetch (SeqSet qs) True 1 (ts_msgs s))))\<rparr>"

text \<open>A scan and the STORE that follows it.\<close>

definition recoverOn :: "session \<Rightarrow> AccountConfig \<Rightarrow> db \<Rightarrow> testserver \<Rightarrow> scan_report \<times> testserver" where
  "recoverOn se a d s =
     (let r = Recovery_scan (recoveryNet se a s) a d in
      (r, if sp_markSeen r = [] then s else Store (UIDSet (sp_markSeen r)) StoreFlagsAdd [FlagSeen] s))"

definition missed :: "AccountConfig \<Rightarrow> db \<Rightarrow> testserver \<Rightarrow> Message list" where
  "missed a d s = filter (\<lambda>m. \<not> ms_Seen m \<and> \<not> recorded d a (ms_UID m) \<and> ms_Raw m \<noteq> []) (ts_msgs s)"

lemma select_by_key:
  assumes "distinct (map fst xs)"
  shows "filter (\<lambda>x. fst x \<in> set (map fst (filter P xs))) xs = filter P xs"
  using assms by (auto simp: distinct_map inj_on_def intro!: filter_cong)

lemma distinct_numbered:
  assumes "length ms < 2 ^ 32"
  shows "distinct (map fst (numbered ms))"
proof -
  have "inj_on (\<lambda>i. of_nat (Suc i) :: uint32) {..<length ms}"
  proof (rule inj_onI)
    fix i j assume "i \<in> {..<length ms}" "j \<in> {..<length ms}" and eq: "(of_nat (Suc i) :: uint32) = of_nat (Suc j)"
    then have le: "Suc i < 2 ^ 32" "Suc j < 2 ^ 32" using assms by auto
    then have "unat (of_nat (Suc k) :: uint32) = Suc k" if "k \<in> {i, j}" for k
      using that by (auto simp del: of_nat_Suc simp: unat_of_nat take_bit_nat_eq_self)
    then show "i = j" using eq by (metis insertCI nat.inject)
  qed
  then show ?thesis by (simp add: numbered_def distinct_map lessThan_atLeast0)
qed

lemma Fetch_selected:
  assumes "length ms < 2 ^ 32"
  shows "Fetch (SeqSet (map fst (filter P (numbered ms)))) wantUID n ms = map (fetchItem wantUID n) (filter P (numbered ms))"
  using select_by_key [OF distinct_numbered [OF assms], of P]
  by (simp add: Fetch_def contains_def case_prod_beta')

lemma filter_numbered: "map snd (filter (\<lambda>x. P (snd x)) (numbered ms)) = filter P ms"
  using filter_map [of P snd "numbered ms"] by (simp add: o_def)

lemma missed_numbered: "missed a d s =
    map snd (filter (\<lambda>x. \<not> ms_Seen (snd x) \<and> \<not> recorded d a (ms_UID (snd x)) \<and> ms_Raw (snd x) \<noteq> []) (numbered (ts_msgs s)))"
  using filter_numbered [of "\<lambda>m. \<not> ms_Seen m \<and> \<not> recorded d a (ms_UID m) \<and> ms_Raw m \<noteq> []" "ts_msgs s"]
  by (simp add: missed_def)

lemma recovery_dispatches:
  assumes "Login (acc_User a) (acc_Pass a) se = Inr ()" and "inboxOK s"
  shows "sp_dispatched (Recovery_scan (recoveryNet se a s) a d) = map (\<lambda>m. (ms_UID m, ms_Raw m)) (missed a d s)
    \<and> sp_markSeen (Recovery_scan (recoveryNet se a s) a d) = map ms_UID (missed a d s)"
proof -
  let ?ms = "ts_msgs s" and ?P = "\<lambda>x. \<not> ms_Seen (snd x)" and ?Q = "\<lambda>x. \<not> ms_Seen (snd x) \<and> \<not> recorded d a (ms_UID (snd x))"
  let ?net = "recoveryNet se a s"
  note len = inboxOK_length [OF assms(2)]
  have unseen: "SearchSeq \<lparr>cr_NotFlag = [FlagSeen], cr_UID = []\<rparr> ?ms = map fst (filter ?P (numbered ?ms))"
    by (simp add: SearchSeq_def wantUnseen_def case_prod_beta')
  have uids: "sc_uids ?net (map fst (filter ?P (numbered ?ms))) = Inr (map (\<lambda>x. asFetched (fetchItem True 0 x)) (filter ?P (numbered ?ms)))"
    by (simp add: recoveryNet_def Fetch_selected [OF len])
  have unknown: "map fm_SeqNum (filter (\<lambda>m. \<not> recorded d a (fm_UID m)) (map (\<lambda>x. asFetched (fetchItem True 0 x)) (filter ?P (numbered ?ms))))
      = map fst (filter ?Q (numbered ?ms))"
    by (simp add: filter_map o_def asFetched_def fetchItem_def conj_commute)
  have bodies: "sc_bodies ?net (map fst (filter ?Q (numbered ?ms))) = Inr (map (\<lambda>x. asFetched (fetchItem True 1 x)) (filter ?Q (numbered ?ms)))"
    by (simp add: recoveryNet_def Fetch_selected [OF len])
  have disp: "dispatchable (map (\<lambda>x. asFetched (fetchItem True 1 x)) (filter ?Q (numbered ?ms)))
      = map (\<lambda>m. (ms_UID m, ms_Raw m)) (missed a d s)"
    by (simp add: missed_numbered dispatchable_def filter_map o_def asFetched_def fetchItem_def)
  have none: "missed a d s = []" if "filter ?Q (numbered ?ms) = []"
    using that by (auto simp: missed_numbered filter_empty_conv)
  have conn: "sc_connect ?net = Inr ()" "sc_search ?net = Inr (map fst (filter ?P (numbered ?ms)))"
    using assms(1) by (simp_all add: recoveryNet_def unseen)
  show ?thesis
  proof (cases "filter ?Q (numbered ?ms) = []")
    case True
    then show ?thesis using none [OF True] conn uids unknown by (simp add: Recovery_scan_def nothing_def)
  next
    case False
    then have "filter ?P (numbered ?ms) \<noteq> []" by (auto simp: filter_empty_conv)
    then show ?thesis using False conn uids unknown bodies disp by (simp add: Recovery_scan_def Let_def o_def)
  qed
qed

text \<open>
  C22. The recovery scan settles the inbox of this server: it hands the program exactly the messages that are unseen, have no row in the database and are not empty, each once
  and in the order of their UIDs; and after its STORE a second scan hands over nothing, even when no row was written in between.
\<close>

theorem recovery_settles:
  assumes "Login (acc_User a) (acc_Pass a) se = Inr ()" and "inboxOK s"
  shows "sp_dispatched (fst (recoverOn se a d s)) = map (\<lambda>m. (ms_UID m, ms_Raw m)) (missed a d s)
    \<and> sp_dispatched (fst (recoverOn se a d (snd (recoverOn se a d s)))) = []"
proof -
  let ?s' = "snd (recoverOn se a d s)"
  have marks: "sp_markSeen (Recovery_scan (recoveryNet se a s) a d) = map ms_UID (missed a d s)"
    using recovery_dispatches [OF assms] by blast
  have "inboxOK ?s'" using assms(2) by (simp add: recoverOn_def Let_def inboxOK_Store)
  moreover have "missed a d ?s' = []"
  proof (cases "missed a d s = []")
    case True
    then show ?thesis using marks by (simp add: recoverOn_def)
  next
    case False
    have "missed a d (Store (UIDSet (map ms_UID (missed a d s))) StoreFlagsAdd [FlagSeen] s) = []"
      by (auto simp: filter_empty_conv Store_def StoreMsgs_UIDSet missed_def applyFlags_def applyFlag_def)
    then show ?thesis using False marks by (simp add: recoverOn_def)
  qed
  ultimately have "sp_dispatched (Recovery_scan (recoveryNet se a ?s') a d) = []"
    using recovery_dispatches [OF assms(1)] by simp
  then show ?thesis using recovery_dispatches [OF assms] by (simp add: recoverOn_def Let_def)
qed

lemma recovery_settles_witness:
  "sp_dispatched (fst (recoverOn (NewSession ''u'' ''p'') demoAccount emptyDB (Deliver ''y'' (Deliver ''x'' newServer)))) = [(1, ''x''), (2, ''y'')]"
proof -
  have "inboxOK newServer" by (simp add: inboxOK_def newServer_def)
  then have "inboxOK (Deliver ''y'' (Deliver ''x'' newServer))"
    using inboxOK_Deliver by (simp add: newServer_def Deliver_def inboxOK_def uidOf_def)
  moreover have "Login (acc_User demoAccount) (acc_Pass demoAccount) (NewSession ''u'' ''p'') = Inr ()"
    by (simp add: Login_def NewSession_def demoAccount_def)
  ultimately show ?thesis using recovery_settles [of demoAccount "NewSession ''u'' ''p''" "Deliver ''y'' (Deliver ''x'' newServer)" emptyDB]
    by (simp add: missed_def recorded_def emptyDB_def Deliver_def newServer_def)
qed

section \<open>What the lock does not cover\<close>

text \<open>\<^verbatim>\<open>Append\<close> alone answers with the UID of its message; with a delivery between its two critical sections, with another one.\<close>

lemma append_own_uid: "snd (Append (Inr raw) s) = Inr (Some (ts_nextUID s))"
  by (simp add: Append_def lastUID_def Deliver_def)

lemma append_race: "lastUID (Deliver other (Deliver raw s)) = Some (ts_nextUID s + 1)"
  by (simp add: lastUID_def Deliver_def)

text \<open>The advertised next UID is the number of messages plus one: right until the first expunge or copy.\<close>

lemma uidnext_wrong:
  "sd_UIDNext (snd (Select mbox (Expunge (Some [1]) (Store (UIDSet [1]) StoreFlagsAdd [FlagDeleted] (Deliver x newServer))) se)) = 1
   \<and> ts_nextUID (Expunge (Some [1]) (Store (UIDSet [1]) StoreFlagsAdd [FlagDeleted] (Deliver x newServer))) = 2"
  by (simp add: Select_def numMessages_def Expunge_filter survives_def Store_def StoreMsgs_UIDSet Deliver_def newServer_def applyFlags_def applyFlag_def)

lemma copy_stores_nothing: "Messages (fst (Copy ns s)) = Messages s"
  by (simp add: Copy_def Messages_def)

text \<open>\<^verbatim>\<open>Idle\<close>: the loop reads the current channel, waits for it to be closed, reads the number of messages and writes it; deliveries interleave.\<close>

datatype idle_pc = IdleRead | IdleWait nat | IdleCount | IdleWrite uint32 | IdleStopped

record idling =
  id_pc :: idle_pc
  id_srv :: testserver
  id_told :: "uint32 option"

inductive idle_step :: "idling \<Rightarrow> idling \<Rightarrow> bool" where
  read: "id_pc s = IdleRead \<Longrightarrow> idle_step s (s\<lparr>id_pc := IdleWait (ts_notify (id_srv s))\<rparr>)"
| wake: "id_pc s = IdleWait g \<Longrightarrow> g < ts_notify (id_srv s) \<Longrightarrow> idle_step s (s\<lparr>id_pc := IdleCount\<rparr>)"
| stop: "id_pc s = IdleWait g \<Longrightarrow> idle_step s (s\<lparr>id_pc := IdleStopped\<rparr>)"
| count: "id_pc s = IdleCount \<Longrightarrow> idle_step s (s\<lparr>id_pc := IdleWrite (numMessages (id_srv s))\<rparr>)"
| tell: "id_pc s = IdleWrite n \<Longrightarrow> idle_step s (s\<lparr>id_pc := IdleRead, id_told := Some n\<rparr>)"
| tell_failed: "id_pc s = IdleWrite n \<Longrightarrow> idle_step s (s\<lparr>id_pc := IdleStopped\<rparr>)"
| deliver: "idle_step s (s\<lparr>id_srv := Deliver raw (id_srv s)\<rparr>)"

definition idleStart :: "idling \<Rightarrow> bool" where
  "idleStart s \<longleftrightarrow> id_pc s = IdleRead \<and> id_srv s = newServer \<and> id_told s = None"

text \<open>A delivery wakes whoever waits on the channel it closes: as long as the session waits, the channel it holds is not newer than the
  server's, and after a delivery it is older.\<close>

definition idleOK :: "idling \<Rightarrow> bool" where
  "idleOK s \<longleftrightarrow> (case id_pc s of IdleWait g \<Rightarrow> g \<le> ts_notify (id_srv s) | _ \<Rightarrow> True)"

lemma idleOK_start: "idleStart s \<Longrightarrow> idleOK s"
  by (simp add: idleStart_def idleOK_def)

lemma idleOK_step: "idleOK s \<Longrightarrow> idle_step s s' \<Longrightarrow> idleOK s'"
  by (erule idle_step.cases) (auto simp: idleOK_def Deliver_def split: idle_pc.splits)

interpretation idle: inductive_invariant idleStart idle_step "\<lambda>_. True" idleOK
  by unfold_locales (auto intro: idleOK_start idleOK_step)

lemma idle_wakes:
  assumes "reachable idleStart idle_step s" and "id_pc s = IdleWait g"
  shows "idle_step (s\<lparr>id_srv := Deliver raw (id_srv s)\<rparr>) (s\<lparr>id_srv := Deliver raw (id_srv s), id_pc := IdleCount\<rparr>)"
  using idle_step.wake [of "s\<lparr>id_srv := Deliver raw (id_srv s)\<rparr>" g] idle.holds [OF assms(1)] assms(2)
  by (simp add: idleOK_def Deliver_def)

text \<open>But a delivery between the count and the next read is not announced: the session sleeps on the new channel, having told the client of one message of two.\<close>

lemma idle_misses:
  "\<exists>s. reachable idleStart idle_step s \<and> id_pc s = IdleWait (ts_notify (id_srv s)) \<and> id_told s = Some 1 \<and> numMessages (id_srv s) = 2"
proof -
  have go: "reachable idleStart idle_step s'" if "reachable idleStart idle_step s" "idle_step s s'" for s s'
    using that by (rule reachable.step)
  define d where "d = Deliver ''x'' newServer"
  have n: "ts_notify newServer = 0" "ts_notify d = 1" "numMessages d = 1" "ts_notify (Deliver ''y'' d) = 2" "numMessages (Deliver ''y'' d) = 2"
    by (simp_all add: d_def newServer_def Deliver_def numMessages_def)
  have "reachable idleStart idle_step \<lparr>id_pc = IdleRead, id_srv = newServer, id_told = None\<rparr>"
    by (rule reachable.start) (simp add: idleStart_def)
  from go [OF this idle_step.read] n have "reachable idleStart idle_step \<lparr>id_pc = IdleWait 0, id_srv = newServer, id_told = None\<rparr>" by simp
  from go [OF this idle_step.deliver [where raw = "''x''"]]
  have "reachable idleStart idle_step \<lparr>id_pc = IdleWait 0, id_srv = d, id_told = None\<rparr>" by (simp add: d_def)
  from go [OF this idle_step.wake] n have "reachable idleStart idle_step \<lparr>id_pc = IdleCount, id_srv = d, id_told = None\<rparr>" by simp
  from go [OF this idle_step.count] n have "reachable idleStart idle_step \<lparr>id_pc = IdleWrite 1, id_srv = d, id_told = None\<rparr>" by simp
  from go [OF this idle_step.deliver [where raw = "''y''"]]
  have "reachable idleStart idle_step \<lparr>id_pc = IdleWrite 1, id_srv = Deliver ''y'' d, id_told = None\<rparr>" by simp
  from go [OF this idle_step.tell] have "reachable idleStart idle_step \<lparr>id_pc = IdleRead, id_srv = Deliver ''y'' d, id_told = Some 1\<rparr>" by simp
  from go [OF this idle_step.read] n
  have "reachable idleStart idle_step \<lparr>id_pc = IdleWait 2, id_srv = Deliver ''y'' d, id_told = Some 1\<rparr>" by simp
  then show ?thesis using n by fastforce
qed

end
