(* ===== verification/Bench.thy ===== *)
theory Bench
  imports Routes ServiceScanners
begin

unbundle bit_operations_syntax

text \<open>
  The benchmark (\<^verbatim>\<open>app/cmd/bench/main.go\<close>): it generates messages from a seed, posts each of them to two running instances and compares verdicts and latencies. Generator, report and percentiles
  are modelled as they are written; the HTTP client is an argument. Percentile positions use exact arithmetic.
\<close>

section \<open>Random numbers\<close>

type_synonym prng = "64 word"

text \<open>\<open>rand\<close> is what the system's generator gives when the seed is zero.\<close>

definition newPRNG :: "64 word option \<Rightarrow> 64 word \<Rightarrow> prng" where
  "newPRNG rand seed =
     (let seed' = (if seed = 0 then (case rand of None \<Rightarrow> 0xdeadbeefcafe1234 | Some b \<Rightarrow> b) else seed)
      in if seed' = 0 then 1 else seed')"

definition xorLeft :: "nat \<Rightarrow> 64 word \<Rightarrow> 64 word" where
  "xorLeft k x = x XOR push_bit k x"

definition xorRight :: "nat \<Rightarrow> 64 word \<Rightarrow> 64 word" where
  "xorRight k x = x XOR drop_bit k x"

definition prng_next :: "prng \<Rightarrow> prng" where
  "prng_next s = xorLeft 17 (xorRight 7 (xorLeft 13 s))"

text \<open>The value drawn and the new state.\<close>

definition Intn :: "nat \<Rightarrow> prng \<Rightarrow> nat \<times> prng" where
  "Intn n p = (unat (prng_next p) mod n, prng_next p)"

definition pick :: "'a list \<Rightarrow> prng \<Rightarrow> 'a \<times> prng" where
  "pick xs p = (xs ! fst (Intn (length xs) p), snd (Intn (length xs) p))"

section \<open>Messages\<close>

definition crlf :: string where "crlf = [CHR 0x0D, CHR 0x0A]"
definition nl :: string where "nl = [CHR 0x0A]"

definition buildEML :: "string \<Rightarrow> string \<Rightarrow> string \<Rightarrow> string \<Rightarrow> string \<Rightarrow> string \<Rightarrow> string \<Rightarrow> string list \<Rightarrow> string" where
  "buildEML from to subject spf dkim dmarc body urls =
     ''From: '' @ from @ crlf @ ''To: '' @ to @ crlf @ ''Subject: '' @ subject @ crlf
     @ ''Authentication-Results: mx.bench.test; spf='' @ spf @ '' smtp.mailfrom='' @ from @ ''; dkim='' @ dkim @ ''; dmarc='' @ dmarc @ crlf
     @ ''MIME-Version: 1.0'' @ crlf @ ''Content-Type: text/plain; charset=utf-8'' @ crlf @ crlf @ body
     @ (if urls \<noteq> [] then crlf @ crlf @ concat (map (\<lambda>u. u @ crlf) urls) else [])"

definition firstNames :: "string list" where
  "firstNames = [''Michael'', ''Sarah'', ''James'', ''Emily'', ''Robert'', ''Jennifer'', ''David'', ''Lisa'']"

definition lastNames :: "string list" where
  "lastNames = [''Chen'', ''Williams'', ''Johnson'', ''Smith'', ''Brown'', ''Jones'', ''Garcia'', ''Miller'']"

definition companyNames :: "string list" where
  "companyNames = [''Acme Corp'', ''GlobalTech Inc'', ''Meridian Holdings'', ''Apex Solutions'', ''Sterling Group'']"

definition execTitles :: "string list" where
  "execTitles = [''CEO'', ''CFO'', ''CTO'', ''VP Finance'', ''Managing Director'']"

definition becUrgency :: "string list" where
  "becUrgency = [''This must be completed before close of business today.'', ''I am in back-to-back meetings and cannot take calls.'',
     ''Do not discuss this with anyone else.'', (''This is time-sensitive '' @ [CHR 0xE2] @ [CHR 0x80] @ [CHR 0x94] @ '' the window closes at 3pm.'')]"

definition becPurposes :: "string list" where
  "becPurposes = [''a confidential acquisition'', ''a legal settlement'', ''a vendor advance payment'', ''an escrow requirement'']"

definition phishUrgency :: "string list" where
  "phishUrgency = [''Your account has been limited due to suspicious activity. Verify within 24 hours or be permanently suspended.'',
     ''We detected an unauthorised sign-in. Confirm your identity immediately to secure your account.'',
     ''Your payment information is out of date. Update billing details within 48 hours.'',
     ''Unusual activity detected. Click below to verify your identity and restore full access.'']"

definition dgaTLDs :: "string list" where
  "dgaTLDs = [''.top'', ''.xyz'', ''.ru'', ''.tk'', ''.pw'', ''.cc'', ''.biz'', ''.info'', ''.site'', ''.online'']"

definition dgaBeacons :: "string list" where
  "dgaBeacons = [''/verify/account'', ''/secure/login'', ''/gate.php'', ''/beacon'', ''/cmd'']"

definition cleanSubjects :: "string list" where
  "cleanSubjects = [''Weekly Tech Digest'', ''Your Order Has Shipped'', ''Meeting Reminder'', ''Monthly Newsletter'', ''Team Update'']"

definition cleanSenders :: "string list" where
  "cleanSenders = [''digest@techcrunch-news.example.com'', ''noreply@amazon.com'', ''calendar@google.com'', ''newsletter@github.com'']"

definition cleanBodies :: "string list" where
  "cleanBodies = [''This week in tech: new AI releases, cloud updates, and open-source highlights.'',
     ''Your order has been shipped and is on its way. Track it with the link below.'', ''Reminder: your weekly team standup is tomorrow at 10am.'',
     ''Here are the top articles from our community this month.'']"

definition phishBrands :: "(string \<times> string) list" where
  "phishBrands = [(''PayPal'', ''paypa1-secure.com''), (''Microsoft'', ''microsoft-account-alert.com''), (''Amazon'',
     ''amaz0n-verify.net''), (''Apple'', ''apple-id-verify.com''), (''Netflix'', ''netflix-billing-update.com''), (''DHL'',
     ''dhl-delivery-notification.com'')]"

definition dgaChars :: string where
  "dgaChars = ''abcdefghijklmnopqrstuvwxyz0123456789''"


record benchEmail =
  bm_name :: string
  bm_category :: string
  bm_eml :: string

fun drawChars :: "nat \<Rightarrow> prng \<Rightarrow> string \<times> prng" where
  "drawChars 0 p = ([], p)"
| "drawChars (Suc n) p = (let (c, p1) = pick dgaChars p; (cs, p2) = drawChars n p1 in (c # cs, p2))"

definition dgaDomain :: "prng \<Rightarrow> string \<times> prng" where
  "dgaDomain p = (let (k, p1) = Intn 5 p; (b, p2) = drawChars (8 + k) p1; (tld, p3) = pick dgaTLDs p2 in (b @ tld, p3))"

definition fullName :: "prng \<Rightarrow> string \<times> prng" where
  "fullName p = (let (a, p1) = pick firstNames p; (b, p2) = pick lastNames p1 in (a @ '' '' @ b, p2))"

definition dash :: string where "dash = [CHR 0xE2, CHR 0x80, CHR 0x94]"

definition genBEC :: "nat \<Rightarrow> prng \<Rightarrow> benchEmail \<times> prng" where
  "genBEC n p =
     (let (exec, p1) = fullName p; (title, p2) = pick execTitles p1; (company, p3) = pick companyNames p2; (k, p4) = Intn 490 p3;
          amount = ''$'' @ natStr (10 + k) @ '',000''; (purpose, p5) = pick becPurposes p4; (urgency, p6) = pick becUrgency p5;
          (recipient, p7) = pick firstNames p6;
          fromDomain = toLower (filter (\<lambda>c. c \<noteq> CHR '' '') company) @ ''.com'';
          body = recipient @ '','' @ nl @ nl @ ''I need you to process an urgent wire transfer of '' @ amount @ '' for '' @ purpose @ ''.'' @ nl @ urgency @ nl
            @ ''Bank details will follow. Please confirm receipt immediately.'' @ nl @ nl @ exec @ '' '' @ dash @ '' '' @ title @ '', '' @ company
      in (\<lparr>bm_name = ''bec-'' @ natStr n, bm_category = ''BEC'',
           bm_eml = buildEML (exec @ '' <'' @ toLower (map (\<lambda>c. if c = CHR '' '' then CHR ''.'' else c) exec) @ ''@'' @ fromDomain @ ''>'')
             ''accounts@mailhook.test'' ''Urgent: Wire Transfer Request'' ''softfail'' ''fail'' ''fail'' body []\<rparr>, p7))"

text \<open>\<^verbatim>\<open>%016x\<close>.\<close>

definition hex16 :: "64 word \<Rightarrow> string" where
  "hex16 x = map (\<lambda>i. hexDigit (unat x div 16 ^ i mod 16)) (rev [0..<16])"

definition genPhish :: "nat \<Rightarrow> prng \<Rightarrow> benchEmail \<times> prng" where
  "genPhish n p =
     (let (brand, p1) = pick phishBrands p; (urgency, p2) = pick phishUrgency p1; p3 = prng_next p2;
          url = ''https://'' @ snd brand @ ''/verify?token='' @ hex16 p3;
          body = fst brand @ '' Security Notice:'' @ nl @ nl @ urgency @ nl
      in (\<lparr>bm_name = ''phish-'' @ natStr n, bm_category = ''PHISH'',
           bm_eml = buildEML (''security@'' @ snd brand) ''customer@mailhook.test'' (''Action Required: '' @ fst brand @ '' Account'')
             ''fail'' ''fail'' ''fail'' body [url]\<rparr>, p3))"

definition genDGA :: "nat \<Rightarrow> prng \<Rightarrow> benchEmail \<times> prng" where
  "genDGA n p =
     (let (d1, p1) = dgaDomain p; (d2, p2) = dgaDomain p1; (beacon, p3) = pick dgaBeacons p2;
          body = ''Please verify your account using the secure link below.'' @ nl; (spf, p4) = pick [''pass'', ''pass'', ''softfail''] p3
      in (\<lparr>bm_name = ''dga-'' @ natStr n, bm_category = ''DGA'',
           bm_eml = buildEML ''updates@retail-news.com'' ''user@mailhook.test'' ''Account Verification Required'' spf spf spf body
             [''https://'' @ d1 @ beacon, ''https://'' @ d2 @ beacon]\<rparr>, p4))"

definition genClean :: "nat \<Rightarrow> prng \<Rightarrow> benchEmail \<times> prng" where
  "genClean n p =
     (let (b, p1) = pick cleanBodies p; body = b @ nl @ nl @ ''Visit us at https://github.com/ or https://google.com/ for more.'';
          (sender, p2) = pick cleanSenders p1; (subject, p3) = pick cleanSubjects p2
      in (\<lparr>bm_name = ''clean-'' @ natStr n, bm_category = ''CLEAN'',
           bm_eml = buildEML sender ''user@mailhook.test'' subject ''pass'' ''pass'' ''pass'' body []\<rparr>, p3))"

definition genFP :: "nat \<Rightarrow> prng \<Rightarrow> benchEmail \<times> prng" where
  "genFP n p =
     (\<lparr>bm_name = ''fp-'' @ natStr n, bm_category = ''CLEAN'',
       bm_eml = buildEML ''noreply@accounts.google.com'' ''user@mailhook.test'' ''Action Required: Verify Your Email'' ''pass'' ''pass'' ''pass''
         (''Your password reset link will expire in 10 minutes. Click here to reset your password.'' @ nl)
         [''https://accounts.google.com/reset?token=abc123'']\<rparr>, p)"

text \<open>The five kinds, by the position of a message, and the generator of each; every kind has its own counter.\<close>

datatype kind = KClean | KBEC | KPhish | KDGA | KFP

definition kindOf :: "nat \<Rightarrow> kind" where
  "kindOf i = (if i mod 20 < 5 then KClean else if i mod 20 < 10 then KBEC else if i mod 20 < 14 then KPhish else if i mod 20 < 17 then KDGA else KFP)"

fun generate :: "kind \<Rightarrow> nat \<Rightarrow> prng \<Rightarrow> benchEmail \<times> prng" where
  "generate KClean = genClean"
| "generate KBEC = genBEC"
| "generate KPhish = genPhish"
| "generate KDGA = genDGA"
| "generate KFP = genFP"

fun genLoop :: "nat list \<Rightarrow> (kind \<Rightarrow> nat) \<Rightarrow> prng \<Rightarrow> benchEmail list" where
  "genLoop [] used p = []"
| "genLoop (i # is) used p =
     (let k = kindOf i; c = Suc (used k); (em, p') = generate k c p in em # genLoop is (used(k := c)) p')"

definition generateEmails :: "64 word option \<Rightarrow> nat \<Rightarrow> 64 word \<Rightarrow> benchEmail list" where
  "generateEmails rand n seed = genLoop [0..<n] (\<lambda>_. 0) (newPRNG rand seed)"

section \<open>Scanning\<close>

record scanReply =
  sy_Verdict :: string
  sy_Decision :: string

text \<open>The request of the client, which has a timeout but no cookie jar.\<close>

record scan_request =
  sq_Method :: string
  sq_URL :: string
  sq_ContentType :: string
  sq_Body :: string
  sq_Cookie :: "string \<rightharpoonup> string"

definition scanRequest :: "string \<Rightarrow> string \<Rightarrow> scan_request" where
  "scanRequest baseURL eml =
     \<lparr>sq_Method = ''POST'', sq_URL = baseURL @ ''/api/scan'', sq_ContentType = ''message/rfc822'', sq_Body = eml, sq_Cookie = Map.empty\<rparr>"

text \<open>\<open>post\<close> answers a request: no connection, or a status with the decoded body, if it decodes; and the time it took.\<close>

definition doScan :: "(scan_request \<Rightarrow> scanReply http \<times> int) \<Rightarrow> string \<Rightarrow> string \<Rightarrow> scanReply result \<times> int" where
  "doScan post baseURL eml =
     (case post (scanRequest baseURL eml) of
        (HttpErr e, wallTime) \<Rightarrow> (Inl e, wallTime)
      | (HttpResp status body, wallTime) \<Rightarrow>
          if status \<noteq> 200 then (Inl (''HTTP '' @ intStr status), wallTime)
          else (case body of None \<Rightarrow> (Inl ''invalid JSON'', wallTime) | Some r \<Rightarrow> (Inr r, wallTime)))"

text \<open>The answers to the requests until the deadline; the body is not looked at.\<close>

fun waitHealthy :: "string \<Rightarrow> 'a http list \<Rightarrow> unit result" where
  "waitHealthy baseURL [] = Inl (''timed out waiting for '' @ baseURL @ '' to become healthy'')"
| "waitHealthy baseURL (HttpErr _ # rs) = waitHealthy baseURL rs"
| "waitHealthy baseURL (HttpResp status _ # rs) = (if status = 200 then Inr () else waitHealthy baseURL rs)"

record runRow =
  rr_email :: benchEmail
  rr_std :: string
  rr_ai :: string
  rr_stdMs :: int
  rr_aiMs :: int
  rr_err :: string

definition verdictOf :: "scanReply result \<Rightarrow> string" where
  "verdictOf r = (case r of Inl _ \<Rightarrow> ''error/ERROR'' | Inr s \<Rightarrow> sy_Decision s @ ''/'' @ sy_Verdict s)"

definition errOf :: "string \<Rightarrow> scanReply result \<Rightarrow> string" where
  "errOf which r = (case r of Inl e \<Rightarrow> which @ '': '' @ e | Inr _ \<Rightarrow> [])"

text \<open>One scenario: what the standard and the AI instance answered, and how long it took.\<close>

definition runRowOf :: "benchEmail \<Rightarrow> scanReply result \<times> int \<Rightarrow> scanReply result \<times> int \<Rightarrow> runRow" where
  "runRowOf em std ai =
     (let s = fst std; a = fst ai; e1 = errOf ''std'' s; e2 = errOf ''ai'' a
      in \<lparr>rr_email = em, rr_std = verdictOf s, rr_ai = verdictOf a,
          rr_stdMs = (case s of Inl _ \<Rightarrow> 0 | Inr _ \<Rightarrow> snd std), rr_aiMs = (case a of Inl _ \<Rightarrow> 0 | Inr _ \<Rightarrow> snd ai),
          rr_err = (if e2 = [] then e1 else (if e1 \<noteq> [] then e1 @ ''; '' else []) @ e2)\<rparr>)"

section \<open>The report\<close>

definition blocked :: "string \<Rightarrow> bool" where
  "blocked v \<longleftrightarrow> hasPrefix v ''quarantine'' \<or> hasPrefix v ''delete''"

definition passed :: "string \<Rightarrow> bool" where
  "passed v \<longleftrightarrow> hasPrefix v ''pass'' \<or> hasPrefix v ''flag''"

text \<open>The index, truncated; the product in floating point has the same integral part for every length up to two million.\<close>

definition pctIndex :: "nat \<Rightarrow> nat \<Rightarrow> nat" where
  "pctIndex len pct = (len - 1) * pct div 100"

definition p50p95p99 :: "int list \<Rightarrow> int \<times> int \<times> int" where
  "p50p95p99 ms =
     (if ms = [] then (0, 0, 0)
      else (let s = sort ms in (s ! pctIndex (length s) 50, s ! pctIndex (length s) 95, s ! pctIndex (length s) 99)))"

record summary =
  su_aiOnly :: nat
  su_aiBlocked :: nat
  su_stdBlocked :: nat
  su_stdMs :: "int list"
  su_aiMs :: "int list"

definition addRow :: "runRow \<Rightarrow> summary \<Rightarrow> summary" where
  "addRow r s =
     (let s1 = (if blocked (rr_std r) then s\<lparr>su_stdBlocked := Suc (su_stdBlocked s)\<rparr> else s);
          s2 = (if blocked (rr_ai r)
                then (let b = s1\<lparr>su_aiBlocked := Suc (su_aiBlocked s1)\<rparr> in if passed (rr_std r) then b\<lparr>su_aiOnly := Suc (su_aiOnly b)\<rparr> else b)
                else s1);
          s3 = (if rr_stdMs r > 0 then s2\<lparr>su_stdMs := su_stdMs s2 @ [rr_stdMs r]\<rparr> else s2)
      in if rr_aiMs r > 0 then s3\<lparr>su_aiMs := su_aiMs s3 @ [rr_aiMs r]\<rparr> else s3)"

definition tally :: "runRow list \<Rightarrow> summary" where
  "tally rows = fold addRow rows \<lparr>su_aiOnly = 0, su_aiBlocked = 0, su_stdBlocked = 0, su_stdMs = [], su_aiMs = []\<rparr>"

datatype delta = NoDelta | AICatches | Changed | ERR

definition deltaOf :: "runRow \<Rightarrow> delta" where
  "deltaOf r =
     (if rr_err r \<noteq> [] then ERR
      else if rr_std r = rr_ai r then NoDelta
      else if blocked (rr_ai r) \<and> passed (rr_std r) then AICatches else Changed)"

datatype colour = Red | Yellow | Cyan | Green

definition coloredV :: "string \<Rightarrow> colour" where
  "coloredV v = (if hasPrefix v ''delete'' then Red else if hasPrefix v ''quarantine'' then Yellow else if hasPrefix v ''flag'' then Cyan else Green)"

text \<open>The table: its lines, the counts, the latencies, the overhead if it is not negative, and the threats that the standard build misses.\<close>

record table_line =
  tl_name :: string
  tl_category :: string
  tl_std :: "colour \<times> string"
  tl_ai :: "colour \<times> string"
  tl_stdMs :: int
  tl_aiMs :: int
  tl_delta :: delta

record report =
  rp_lines :: "table_line list"
  rp_counts :: summary
  rp_std :: "int \<times> int \<times> int"
  rp_ai :: "int \<times> int \<times> int"
  rp_overhead :: "int option"
  rp_missed :: "string list"

definition lineOf :: "runRow \<Rightarrow> table_line" where
  "lineOf r = \<lparr>tl_name = bm_name (rr_email r), tl_category = bm_category (rr_email r), tl_std = (coloredV (rr_std r), rr_std r), tl_ai = (coloredV (rr_ai r), rr_ai r),
     tl_stdMs = rr_stdMs r, tl_aiMs = rr_aiMs r, tl_delta = deltaOf r\<rparr>"

definition emitTable :: "runRow list \<Rightarrow> report" where
  "emitTable rows =
     (let c = tally rows; std = p50p95p99 (su_stdMs c); ai = p50p95p99 (su_aiMs c); overhead = fst ai - fst std
      in \<lparr>rp_lines = map lineOf rows, rp_counts = c, rp_std = std, rp_ai = ai, rp_overhead = (if overhead \<ge> 0 then Some overhead else None),
          rp_missed = (if su_aiOnly c > 0 then map (bm_name \<circ> rr_email) (filter (\<lambda>r. blocked (rr_ai r) \<and> passed (rr_std r)) rows) else [])\<rparr>)"

record jsonOut =
  jo_Scenario :: string
  jo_Category :: string
  jo_Standard :: string
  jo_AI :: string
  jo_StdMs :: int
  jo_AIMs :: int
  jo_AIOnly :: bool
  jo_Changed :: bool

definition emitJSON :: "runRow list \<Rightarrow> jsonOut list" where
  "emitJSON rows =
     map (\<lambda>r. \<lparr>jo_Scenario = bm_name (rr_email r), jo_Category = bm_category (rr_email r), jo_Standard = rr_std r, jo_AI = rr_ai r,
       jo_StdMs = rr_stdMs r, jo_AIMs = rr_aiMs r, jo_AIOnly = (blocked (rr_ai r) \<and> passed (rr_std r)), jo_Changed = (rr_std r \<noteq> rr_ai r)\<rparr>) rows"

definition validateBenchURL :: "string \<Rightarrow> unit result" where
  "validateBenchURL raw =
     (case urlParse raw of
        None \<Rightarrow> Inl ''parse error''
      | Some u \<Rightarrow>
          if Scheme u \<noteq> ''http'' \<and> Scheme u \<noteq> ''https'' then Inl ''scheme must be http or https''
          else if Host u = [] then Inl ''host must not be empty'' else Inr ())"

section \<open>A run\<close>

record flags =
  fl_std :: string
  fl_ai :: string
  fl_n :: nat
  fl_seed :: "64 word"
  fl_format :: string
  fl_noWait :: bool

text \<open>What the run meets: the answers to the health requests, the answer of a base URL to a posted message with the time it took, and the random seed.\<close>

record bench_env =
  be_health :: "string \<Rightarrow> unit http list"
  be_scan :: "scan_request \<Rightarrow> scanReply http \<times> int"
  be_rand :: "64 word option"

datatype bench_end = Exit1 string | JSONOut "jsonOut list" | TableOut report

definition benchRows :: "bench_env \<Rightarrow> flags \<Rightarrow> runRow list" where
  "benchRows E f =
     map (\<lambda>em. runRowOf em (doScan (be_scan E) (fl_std f) (bm_eml em)) (doScan (be_scan E) (fl_ai f) (bm_eml em))) (generateEmails (be_rand E) (fl_n f) (fl_seed f))"

definition waitFor :: "bench_env \<Rightarrow> flags \<Rightarrow> unit result" where
  "waitFor E f =
     (if fl_noWait f then Inr ()
      else (case waitHealthy (fl_std f) (be_health E (fl_std f)) of Inl e \<Rightarrow> Inl e | Inr _ \<Rightarrow> waitHealthy (fl_ai f) (be_health E (fl_ai f))))"

definition benchMain :: "bench_env \<Rightarrow> flags \<Rightarrow> bench_end" where
  "benchMain E f =
     (case validateBenchURL (fl_std f) of Inl e \<Rightarrow> Exit1 (''invalid -std URL: '' @ e)
      | Inr _ \<Rightarrow>
     (case validateBenchURL (fl_ai f) of Inl e \<Rightarrow> Exit1 (''invalid -ai URL: '' @ e)
      | Inr _ \<Rightarrow>
     (case waitFor E f of Inl e \<Rightarrow> Exit1 (''error: '' @ e)
      | Inr _ \<Rightarrow> if fl_format f = ''json'' then JSONOut (emitJSON (benchRows E f)) else TableOut (emitTable (benchRows E f)))))"


section \<open>The generator\<close>

lemma push_bit_fixed:
  assumes "0 < k" and "(z :: 64 word) = push_bit k z"
  shows "z = 0"
proof (rule bit_eqI)
  fix n
  have "\<not> bit z n"
  proof (induction n rule: less_induct)
    case (less n)
    have "bit z n \<longleftrightarrow> bit (push_bit k z) n" using assms(2) by simp
    then show ?case using less.IH [of "n - k"] assms(1) by (auto simp: bit_push_bit_iff)
  qed
  then show "bit z n \<longleftrightarrow> bit (0 :: 64 word) n" by simp
qed

lemma drop_bit_fixed:
  assumes "0 < k" and "(z :: 64 word) = drop_bit k z"
  shows "z = 0"
proof (rule bit_eqI)
  fix n
  have "\<not> bit z n"
  proof (induction "64 - n" arbitrary: n rule: less_induct)
    case less
    show ?case
    proof (cases "n < 64")
      case True
      have "bit z n \<longleftrightarrow> bit (drop_bit k z) n" using assms(2) by simp
      then show ?thesis using less [of "n + k"] assms(1) True by (simp add: bit_drop_bit_eq add.commute)
    next
      case False
      then show ?thesis using bit_imp_le_length [of z n] by auto
    qed
  qed
  then show "bit z n \<longleftrightarrow> bit (0 :: 64 word) n" by simp
qed

lemma xor_eq_zero: "(x :: 64 word) XOR y = 0 \<longleftrightarrow> x = y"
proof
  assume "x XOR y = 0"
  moreover have "(x XOR y) XOR y = x" by (simp add: xor.assoc)
  ultimately show "x = y" by simp
qed simp

lemma xorLeft_inj: "0 < k \<Longrightarrow> xorLeft k x = xorLeft k y \<Longrightarrow> x = y"
proof -
  assume k: "0 < k" and e: "xorLeft k x = xorLeft k y"
  have "(x XOR y) XOR push_bit k (x XOR y) = xorLeft k x XOR xorLeft k y" by (simp add: xorLeft_def push_bit_xor ac_simps)
  then have "(x XOR y) XOR push_bit k (x XOR y) = 0" using e by simp
  then have "x XOR y = 0" using push_bit_fixed [OF k] xor_eq_zero by blast
  then show ?thesis by (simp add: xor_eq_zero)
qed

lemma xorRight_inj: "0 < k \<Longrightarrow> xorRight k x = xorRight k y \<Longrightarrow> x = y"
proof -
  assume k: "0 < k" and e: "xorRight k x = xorRight k y"
  have "(x XOR y) XOR drop_bit k (x XOR y) = xorRight k x XOR xorRight k y" by (simp add: xorRight_def drop_bit_xor ac_simps)
  then have "(x XOR y) XOR drop_bit k (x XOR y) = 0" using e by simp
  then have "x XOR y = 0" using drop_bit_fixed [OF k] xor_eq_zero by blast
  then show ?thesis by (simp add: xor_eq_zero)
qed

lemma prng_next_inj: "inj prng_next"
  by (rule injI) (auto simp: prng_next_def dest!: xorLeft_inj [rotated] xorRight_inj [rotated])

lemma prng_next_zero: "prng_next p = 0 \<longleftrightarrow> p = 0"
proof -
  have "prng_next 0 = 0" by (simp add: prng_next_def xorLeft_def xorRight_def)
  then show ?thesis using injD [OF prng_next_inj, of p 0] by auto
qed

lemma newPRNG_nonzero: "newPRNG rand seed \<noteq> 0"
  by (simp add: newPRNG_def Let_def)

text \<open>
  The generator does not get stuck: every step permutes the 64-bit states, no state that is drawn from a seed is zero (the fixed point of a xorshift), and the sequence comes back to its seed, so no state is
  entered for good.
\<close>

theorem prng_cycles:
  "bij prng_next \<and> (prng_next ^^ n) (newPRNG rand seed) \<noteq> 0 \<and> (\<exists>k > 0. (prng_next ^^ k) (newPRNG rand seed) = newPRNG rand seed)"
proof -
  have "(prng_next ^^ n) p \<noteq> 0" if "p \<noteq> 0" for p using that by (induction n) (simp_all add: prng_next_zero)
  moreover have "bij prng_next" using prng_next_inj finite_UNIV_inj_surj [of prng_next] by (simp add: bij_def)
  moreover have "\<exists>k > 0. (prng_next ^^ k) p = p" for p
    by (rule funpow_inj_finite [OF prng_next_inj, of p]) (auto intro: finite)
  ultimately show ?thesis using newPRNG_nonzero by blast
qed

lemma Intn_bound: "0 < n \<Longrightarrow> fst (Intn n p) < n"
  by (simp add: Intn_def)

lemma pick_mem: "xs \<noteq> [] \<Longrightarrow> fst (pick xs p) \<in> set xs"
  by (simp add: pick_def Intn_bound)


section \<open>The scenarios\<close>

fun kindName :: "kind \<Rightarrow> string" where
  "kindName KClean = ''clean-''"
| "kindName KBEC = ''bec-''"
| "kindName KPhish = ''phish-''"
| "kindName KDGA = ''dga-''"
| "kindName KFP = ''fp-''"

fun kindCategory :: "kind \<Rightarrow> string" where
  "kindCategory KBEC = ''BEC''"
| "kindCategory KPhish = ''PHISH''"
| "kindCategory KDGA = ''DGA''"
| "kindCategory _ = ''CLEAN''"

lemma generate_label:
  "bm_name (fst (generate k c p)) = kindName k @ natStr c" "bm_category (fst (generate k c p)) = kindCategory k"
  by (cases k; simp add: genClean_def genBEC_def genPhish_def genDGA_def genFP_def Let_def split: prod.split)+

lemma genLoop_length [simp]: "length (genLoop is used p) = length is"
  by (induction "is" arbitrary: used p) (simp_all add: Let_def split: prod.split)

text \<open>The number of a message among those of its kind.\<close>

lemma genLoop_nth:
  "j < length is \<Longrightarrow> bm_name (genLoop is used p ! j)
     = kindName (kindOf (is ! j)) @ natStr (Suc (used (kindOf (is ! j)) + length (filter (\<lambda>i. kindOf i = kindOf (is ! j)) (take j is))))
   \<and> bm_category (genLoop is used p ! j) = kindCategory (kindOf (is ! j))"
proof (induction "is" arbitrary: used p j)
  case (Cons i "is")
  obtain em p' where g: "generate (kindOf i) (Suc (used (kindOf i))) p = (em, p')" by fastforce
  have "bm_name em = kindName (kindOf i) @ natStr (Suc (used (kindOf i)))" "bm_category em = kindCategory (kindOf i)"
    using generate_label [of "kindOf i" "Suc (used (kindOf i))" p] g by simp_all
  then show ?case using Cons g by (cases j) (simp_all add: Let_def)
qed simp

lemma kindName_differ: "k \<noteq> k' \<Longrightarrow> kindName k @ s \<noteq> kindName k' @ t"
  by (cases k; cases k') auto

lemma earlier_fewer:
  assumes "i < j" and "j \<le> length xs" and "P (xs ! i)"
  shows "length (filter P (take i xs)) < length (filter P (take j xs))"
proof -
  have "take j xs = take i xs @ xs ! i # drop (Suc i) (take j xs)"
    using assms(1,2) id_take_nth_drop [of i "take j xs"] by (simp add: min_def)
  then have "length (filter P (take j xs)) = length (filter P (take i xs @ xs ! i # drop (Suc i) (take j xs)))" by simp
  then show ?thesis using assms(3) by simp
qed

text \<open>
  The scenarios of a run: as many as asked for, with the kinds in fixed shares of every twenty, under pairwise different names, and always the same for the same seed other than zero, whatever the system's generator
  gives.
\<close>

theorem scenarios_sound:
  "length (generateEmails rand n seed) = n
   \<and> map bm_category (generateEmails rand n seed) = map (\<lambda>i. kindCategory (kindOf i)) [0..<n]
   \<and> distinct (map bm_name (generateEmails rand n seed))
   \<and> (seed = 0 \<or> generateEmails rand n seed = generateEmails rand' n seed)"
proof -
  let ?es = "generateEmails rand n seed"
  let ?c = "\<lambda>j. length (filter (\<lambda>i. kindOf i = kindOf j) (take j [0..<n]))"
  have len: "length ?es = n" by (simp add: generateEmails_def)
  have at: "bm_name (?es ! j) = kindName (kindOf j) @ natStr (Suc (?c j))" "bm_category (?es ! j) = kindCategory (kindOf j)" if "j < n" for j
    using genLoop_nth [of j "[0..<n]" "\<lambda>_. 0" "newPRNG rand seed"] that by (simp_all add: generateEmails_def)
  have "bm_name (?es ! i) \<noteq> bm_name (?es ! j)" if "i < j" "j < n" for i j
  proof (cases "kindOf i = kindOf j")
    case True
    then have "?c i < ?c j" using earlier_fewer [of i j "[0..<n]" "\<lambda>x. kindOf x = kindOf j"] that by simp
    then show ?thesis using at(1) [of i] at(1) [of j] that True natStr_inj by fastforce
  next
    case False
    then show ?thesis using at(1) [of i] at(1) [of j] that kindName_differ by simp
  qed
  then have "distinct (map bm_name ?es)" unfolding distinct_conv_nth using len by (metis length_map linorder_neqE_nat nth_map)
  moreover have "map bm_category ?es = map (\<lambda>i. kindCategory (kindOf i)) [0..<n]"
    by (rule nth_equalityI) (simp_all add: len at)
  moreover have "seed = 0 \<or> newPRNG rand seed = newPRNG rand' seed" by (simp add: newPRNG_def)
  ultimately show ?thesis using len by (auto simp: generateEmails_def)
qed

section \<open>The figures\<close>

lemma pctIndex_less: "0 < n \<Longrightarrow> pct \<le> 100 \<Longrightarrow> pctIndex n pct < n"
proof -
  assume "0 < n" "pct \<le> 100"
  then have "(n - 1) * pct div 100 \<le> (n - 1) * 100 div 100" by (intro div_le_mono mult_le_mono2)
  then show ?thesis using \<open>0 < n\<close> by (simp add: pctIndex_def)
qed

lemma pctIndex_mono: "p \<le> q \<Longrightarrow> pctIndex n p \<le> pctIndex n q"
  by (simp add: pctIndex_def div_le_mono)

lemma sorted_below:
  assumes "sorted (s :: int list)" and "i < length s"
  shows "Suc i \<le> length (filter (\<lambda>x. x \<le> s ! i) s)"
proof -
  have "filter (\<lambda>x. x \<le> s ! i) (take (Suc i) s) = take (Suc i) s"
    using assms by (auto simp: filter_id_conv in_set_conv_nth intro!: sorted_nth_mono)
  moreover have "length (filter (\<lambda>x. x \<le> s ! i) s) = length (filter (\<lambda>x. x \<le> s ! i) (take (Suc i) s)) + length (filter (\<lambda>x. x \<le> s ! i) (drop (Suc i) s))"
    by (metis append_take_drop_id filter_append length_append)
  ultimately show ?thesis using assms(2) by simp
qed

lemma sorted_above:
  assumes "sorted (s :: int list)" and "i < length s"
  shows "length s - i \<le> length (filter (\<lambda>x. s ! i \<le> x) s)"
proof -
  have "filter (\<lambda>x. s ! i \<le> x) (drop i s) = drop i s"
    using assms by (auto simp: filter_id_conv in_set_conv_nth intro!: sorted_nth_mono)
  moreover have "length (filter (\<lambda>x. s ! i \<le> x) s) = length (filter (\<lambda>x. s ! i \<le> x) (take i s)) + length (filter (\<lambda>x. s ! i \<le> x) (drop i s))"
    by (metis append_take_drop_id filter_append length_append)
  ultimately show ?thesis by simp
qed

lemma filter_sort_length: "length (filter P (sort (ms :: int list))) = length (filter P ms)"
  by (metis filter_sort length_sort)

text \<open>
  The latencies of the report: the three figures are measured values in ascending order, and the first is a median: at least half of the measured values are not above it and at least half are not below it.
\<close>

theorem percentiles_sound:
  assumes "ms \<noteq> []" and "p50p95p99 ms = (a, b, c)"
  shows "{a, b, c} \<subseteq> set ms \<and> a \<le> b \<and> b \<le> c
    \<and> length ms \<le> 2 * length (filter (\<lambda>x. x \<le> a) ms) \<and> length ms \<le> 2 * length (filter (\<lambda>x. a \<le> x) ms)"
proof -
  let ?s = "sort ms" and ?i = "pctIndex (length ms)"
  have n: "0 < length ms" using assms(1) by simp
  have v: "a = ?s ! ?i 50" "b = ?s ! ?i 95" "c = ?s ! ?i 99" using assms by (simp_all add: p50p95p99_def Let_def)
  have lt: "?i 50 < length ms" "?i 95 < length ms" "?i 99 < length ms" using n by (simp_all add: pctIndex_less)
  have "a \<le> b" "b \<le> c" using v lt by (auto intro!: sorted_nth_mono pctIndex_mono)
  moreover have "{a, b, c} \<subseteq> set ?s" using v lt nth_mem [of _ ?s] by (simp del: set_sort)
  moreover have "Suc (?i 50) \<le> length (filter (\<lambda>x. x \<le> a) ms)" "length ms - ?i 50 \<le> length (filter (\<lambda>x. a \<le> x) ms)"
    using sorted_below [of ?s "?i 50"] sorted_above [of ?s "?i 50"] lt(1) v(1) by (simp_all add: filter_sort_length)
  moreover have "?i 50 = (length ms - 1) div 2" by (simp add: pctIndex_def)
  ultimately show ?thesis by auto
qed

lemma percentiles_sound_witness: "3 \<le> (fst (p50p95p99 [9, 1, 3 :: int]))"
proof -
  have "p50p95p99 [9, 1, 3 :: int] = (3, 3, 3)" by (simp add: p50p95p99_def pctIndex_def Let_def)
  from percentiles_sound [OF _ this] show ?thesis by (simp add: p50p95p99_def pctIndex_def Let_def)
qed


lemma addRow_counts:
  "su_aiOnly (addRow r s) = su_aiOnly s + (if blocked (rr_ai r) \<and> passed (rr_std r) then 1 else 0)"
  "su_aiBlocked (addRow r s) = su_aiBlocked s + (if blocked (rr_ai r) then 1 else 0)"
  "su_stdBlocked (addRow r s) = su_stdBlocked s + (if blocked (rr_std r) then 1 else 0)"
  "su_stdMs (addRow r s) = su_stdMs s @ (if rr_stdMs r > 0 then [rr_stdMs r] else [])"
  "su_aiMs (addRow r s) = su_aiMs s @ (if rr_aiMs r > 0 then [rr_aiMs r] else [])"
  by (simp_all add: addRow_def Let_def)

lemma fold_addRow:
  "su_aiOnly (fold addRow rows s) = su_aiOnly s + length (filter (\<lambda>r. blocked (rr_ai r) \<and> passed (rr_std r)) rows)
   \<and> su_aiBlocked (fold addRow rows s) = su_aiBlocked s + length (filter (\<lambda>r. blocked (rr_ai r)) rows)
   \<and> su_stdBlocked (fold addRow rows s) = su_stdBlocked s + length (filter (\<lambda>r. blocked (rr_std r)) rows)
   \<and> su_stdMs (fold addRow rows s) = su_stdMs s @ filter (\<lambda>t. t > 0) (map rr_stdMs rows)
   \<and> su_aiMs (fold addRow rows s) = su_aiMs s @ filter (\<lambda>t. t > 0) (map rr_aiMs rows)"
  by (induction rows arbitrary: s) (simp_all add: addRow_counts)

text \<open>
  The table and the JSON output agree: the same number of improvements, each named once and in order in the list of the threats that the standard build misses.
\<close>

lemma reports_agree:
  "su_aiOnly (rp_counts (emitTable rows)) = length (filter jo_AIOnly (emitJSON rows)) \<and> rp_missed (emitTable rows) = map jo_Scenario (filter jo_AIOnly (emitJSON rows))
   \<and> su_aiOnly (rp_counts (emitTable rows)) \<le> su_aiBlocked (rp_counts (emitTable rows))"
proof -
  let ?imp = "filter (\<lambda>r. blocked (rr_ai r) \<and> passed (rr_std r)) rows"
  have j: "filter jo_AIOnly (emitJSON rows) = map (\<lambda>r. hd (emitJSON [r])) ?imp" by (induction rows) (simp_all add: emitJSON_def)
  moreover have "length ?imp \<le> length (filter (\<lambda>r. blocked (rr_ai r)) rows)" by (induction rows) simp_all
  moreover have "map jo_Scenario (map (\<lambda>r. hd (emitJSON [r])) ?imp) = map (bm_name \<circ> rr_email) ?imp" by (simp add: emitJSON_def comp_def)
  ultimately show ?thesis using fold_addRow [of rows] by (auto simp add: emitTable_def tally_def Let_def)
qed

text \<open>Blocked and passed exclude each other, so an improvement is a change of the verdict.\<close>

lemma blocked_not_passed: "blocked v \<Longrightarrow> \<not> passed v"
  by (cases v) (auto simp: blocked_def passed_def hasPrefix_def)

lemma improvement_is_change: "j \<in> set (emitJSON rows) \<Longrightarrow> jo_AIOnly j \<Longrightarrow> jo_Changed j"
  using blocked_not_passed by (auto simp: emitJSON_def)

text \<open>Scans that took less than a millisecond are not among the measured ones.\<close>

lemma fast_scans_dropped: "su_stdMs (rp_counts (emitTable rows)) = filter (\<lambda>t. t > 0) (map rr_stdMs rows)"
  using fold_addRow [of rows] by (simp add: emitTable_def tally_def Let_def)

section \<open>Against the program\<close>

text \<open>The status that the client sees.\<close>

definition statusOf :: "outcome \<Rightarrow> int" where
  "statusOf out =
     (case out of
        Refused resp \<Rightarrow> (case rs_reply resp of RedirectTo _ \<Rightarrow> 303 | JSONReply st _ \<Rightarrow> st | LoginPage _ \<Rightarrow> 200)
      | Answered NotFound \<Rightarrow> 404
      | Answered MethodNotAllowed \<Rightarrow> 405
      | Answered _ \<Rightarrow> 301
      | Runs _ \<Rightarrow> 200)"

lemma route_scan: "findHandler ''POST'' ''/api/scan'' = Found (''POST'', ''/api/scan'', Login, ''PostScan'')"
  by code_simp

lemma route_health: "findHandler ''GET'' ''/health'' = Found (''GET'', ''/health'', Login, ''GetHealth'')"
  by code_simp

lemma route_login: "findHandler ''GET'' ''/login'' = Found (''GET'', ''/login'', Open, ''GetLogin'')"
  by code_simp

text \<open>The request as the program receives it from the address, and what a running instance answers.\<close>

definition arrives :: "string \<Rightarrow> scan_request \<Rightarrow> Request" where
  "arrives addr q =
     \<lparr>rq_Path = (case urlParse (sq_URL q) of None \<Rightarrow> [] | Some u \<Rightarrow> Path u), rq_RemoteAddr = addr,
      rq_Header = (\<lambda>h. if h = ''Content-Type'' then sq_ContentType q else []), rq_Cookie = sq_Cookie q, rq_Form = (\<lambda>_. []), rq_Query = (\<lambda>_. [])\<rparr>"

definition instanceScan :: "hmac \<Rightarrow> Middleware \<Rightarrow> go_time \<Rightarrow> Store \<Rightarrow> string \<Rightarrow> scan_request \<Rightarrow> scanReply option \<Rightarrow> scanReply http" where
  "instanceScan mac m now st addr q body = HttpResp (statusOf (snd (serve mac m now (sq_Method q) (arrives addr q) st))) body"

text \<open>A base URL of scheme, host and port, so that the path of the request is the one that \<^verbatim>\<open>doScan\<close> appends.\<close>

definition isOrigin :: "string \<Rightarrow> bool" where
  "isOrigin base \<longleftrightarrow> map_option Path (urlParse (base @ ''/api/scan'')) = Some ''/api/scan''"

lemma scan_refused:
  assumes "isOrigin base"
  shows "instanceScan mac m now st addr (scanRequest base eml) body = HttpResp 401 body"
proof -
  obtain u where u: "urlParse (base @ ''/api/scan'') = Some u" "Path u = ''/api/scan''" using assms by (auto simp: isOrigin_def)
  then have "rq_Path (arrives addr (scanRequest base eml)) = ''/api/scan''" "rq_Cookie (arrives addr (scanRequest base eml)) = Map.empty"
    by (simp_all add: arrives_def scanRequest_def)
  then show ?thesis
    by (simp add: instanceScan_def scanRequest_def serve_def route_scan Require_def unauthorized_def statusOf_def hasPrefix_def)
qed

text \<open>A scenario whose two requests were refused: nothing is counted, and the line has errors and no times.\<close>

lemma refused_row:
  "addRow (runRowOf em (Inl e1, t1) (Inl e2, t2)) s = s"
  "rr_std (runRowOf em (Inl e1, t1) (Inl e2, t2)) = ''error/ERROR''" "rr_ai (runRowOf em (Inl e1, t1) (Inl e2, t2)) = ''error/ERROR''"
  "rr_stdMs (runRowOf em (Inl e1, t1) (Inl e2, t2)) = 0" "rr_aiMs (runRowOf em (Inl e1, t1) (Inl e2, t2)) = 0"
  by (simp_all add: runRowOf_def verdictOf_def addRow_def blocked_def hasPrefix_def Let_def)

lemma refused_tally: "tally (map (\<lambda>em. runRowOf em (Inl (e1 em), t1 em) (Inl (e2 em), t2 em)) ems) = tally []"
proof -
  have "fold addRow (map (\<lambda>em. runRowOf em (Inl (e1 em), t1 em) (Inl (e2 em), t2 em)) ems) s = s" for s
    by (induction ems) (simp_all add: refused_row)
  then show ?thesis by (simp add: tally_def)
qed

text \<open>Instances of the program behind the base URLs: at every request each has some state, the client some address, and it answers as its routes do.\<close>

definition againstProgram :: "hmac \<Rightarrow> Middleware \<Rightarrow> (scan_request \<Rightarrow> go_time \<times> Store \<times> string \<times> scanReply option \<times> int) \<Rightarrow> bench_env \<Rightarrow> bench_env" where
  "againstProgram mac m state E =
     E\<lparr>be_scan := \<lambda>q. (case state q of (now, st, addr, body, t) \<Rightarrow> (instanceScan mac m now st addr q body, t))\<rparr>"

text \<open>
  C40. The benchmark cannot measure the program: its client sends no session cookie, the program answers every such request to \<^verbatim>\<open>/api/scan\<close> with status 401, whatever the addresses it allows, and so a run against
  instances of the program ends early, or prints a table without a detection and a latency, or a list in which both verdicts of every scenario are errors and both times are zero.
\<close>

theorem bench_never_scans:
  assumes "isOrigin (fl_std f)" and "isOrigin (fl_ai f)"
  shows "case benchMain (againstProgram mac m state E) f of
      Exit1 _ \<Rightarrow> True
    | TableOut rep \<Rightarrow> su_aiBlocked (rp_counts rep) = 0 \<and> su_stdBlocked (rp_counts rep) = 0 \<and> rp_std rep = (0, 0, 0) \<and> rp_ai rep = (0, 0, 0) \<and> rp_missed rep = []
    | JSONOut out \<Rightarrow> map jo_Standard out = replicate (fl_n f) ''error/ERROR'' \<and> map jo_AI out = replicate (fl_n f) ''error/ERROR''
        \<and> map jo_StdMs out = replicate (fl_n f) 0 \<and> map jo_AIMs out = replicate (fl_n f) 0"
proof -
  let ?E = "againstProgram mac m state E"
  define wall where "wall = (\<lambda>base eml. snd (snd (snd (snd (state (scanRequest base eml))))))"
  have refused: "doScan (be_scan ?E) base eml = (Inl (''HTTP '' @ intStr 401), wall base eml)" if "isOrigin base" for base eml
    using scan_refused [OF that] by (simp add: doScan_def againstProgram_def wall_def split: prod.split)
  note both = refused [OF assms(1)] refused [OF assms(2)]
  have t: "tally (benchRows ?E f) = tally []" unfolding benchRows_def both by (rule refused_tally)
  have len: "length (generateEmails rand n seed) = n" for rand n seed by (simp add: generateEmails_def)
  have j: "map jo_Standard (emitJSON (benchRows ?E f)) = replicate (fl_n f) ''error/ERROR''" "map jo_AI (emitJSON (benchRows ?E f)) = replicate (fl_n f) ''error/ERROR''"
    "map jo_StdMs (emitJSON (benchRows ?E f)) = replicate (fl_n f) 0" "map jo_AIMs (emitJSON (benchRows ?E f)) = replicate (fl_n f) 0"
    unfolding benchRows_def both by (auto simp: emitJSON_def refused_row len intro!: replicate_eqI)
  have "tally [] = \<lparr>su_aiOnly = 0, su_aiBlocked = 0, su_stdBlocked = 0, su_stdMs = [], su_aiMs = []\<rparr>" by (simp add: tally_def)
  with t j show ?thesis by (simp add: benchMain_def emitTable_def p50p95p99_def Let_def split: sum.split)
qed

text \<open>And its wait for a healthy program ends at once: \<^verbatim>\<open>/health\<close> without a session redirects to the login page, the client follows, and a page with status 200 counts as healthy.\<close>

lemma health_wait_meaningless:
  assumes "rq_Path r = ''/health''" and "rq_Cookie r sessionCookieName = None"
  shows "snd (serve mac m now ''GET'' r st) = Refused \<lparr>rs_reply = RedirectTo ''/login'', rs_cookies = []\<rparr>
    \<and> statusOf (snd (serve mac m now ''GET'' (r\<lparr>rq_Path := ''/login''\<rparr>) st)) = 200
    \<and> waitHealthy base (HttpResp (statusOf (snd (serve mac m now ''GET'' (r\<lparr>rq_Path := ''/login''\<rparr>) st))) body # rs) = Inr ()"
  using assms by (simp add: serve_def route_health route_login Require_def unauthorized_def hasPrefix_def statusOf_def)

definition demoBench :: bench_env where
  "demoBench = againstProgram (\<lambda>_ _. []) demoMW (\<lambda>_. (0, NewStore (hours 24), ''127.0.0.1:40000'', None, 7))
     \<lparr>be_health = \<lambda>_. [HttpResp 200 None], be_scan = \<lambda>_. (HttpErr ''refused'', 0), be_rand = None\<rparr>"

definition demoFlags :: flags where
  "demoFlags = \<lparr>fl_std = ''http://localhost:8080'', fl_ai = ''http://localhost:8081'', fl_n = 2, fl_seed = 1, fl_format = ''json'', fl_noWait = False\<rparr>"

lemma bench_never_scans_witness:
  "\<exists>out. benchMain demoBench demoFlags = JSONOut out \<and> map jo_Standard out = [''error/ERROR'', ''error/ERROR''] \<and> map jo_StdMs out = [0, 0]"
proof -
  have urls: "validateBenchURL ''http://localhost:8080'' = Inr ()" "validateBenchURL ''http://localhost:8081'' = Inr ()" by code_simp+
  have "waitFor demoBench demoFlags = Inr ()" by (simp add: waitFor_def demoBench_def demoFlags_def againstProgram_def)
  then obtain out where out: "benchMain demoBench demoFlags = JSONOut out" using urls by (simp add: benchMain_def demoFlags_def)
  have "isOrigin (fl_std demoFlags)" "isOrigin (fl_ai demoFlags)" by code_simp+
  from bench_never_scans [OF this, of "\<lambda>_ _. []" demoMW "\<lambda>_. (0, NewStore (hours 24), ''127.0.0.1:40000'', None, 7)"
      "\<lparr>be_health = \<lambda>_. [HttpResp 200 None], be_scan = \<lambda>_. (HttpErr ''refused'', 0), be_rand = None\<rparr>"] out
  show ?thesis unfolding demoBench_def [symmetric] by (simp add: demoFlags_def numeral_2_eq_2)
qed

end
