(* ===== verification/Connect.thy ===== *)
theory Connect
  imports Settings UrlScanners
begin

text \<open>
  The connections to the mail servers: \<^verbatim>\<open>dial\<close> of \<^verbatim>\<open>app/imap/listener.go\<close>, \<^verbatim>\<open>freshClient\<close> of \<^verbatim>\<open>actions.go\<close>, \<^verbatim>\<open>Test\<close> of \<^verbatim>\<open>manager.go\<close> and the first part of the scans of \<^verbatim>\<open>recovery.go\<close> and
  \<^verbatim>\<open>backfill.go\<close>. The network is an argument; the locale \<open>mail_dialer\<close> is what they have in common: the password of an account goes to a verified server only. The guarded client
  of \<^verbatim>\<open>app/scanners/nrdcheck.go\<close> is here too.
\<close>

section \<open>TLS\<close>

record tls_config =
  tc_ServerName :: string
  tc_MinVersion :: nat
  tc_InsecureSkipVerify :: bool

definition VersionTLS12 :: nat where "VersionTLS12 = 0x0303"

text \<open>What answers at an address: the highest protocol version it speaks, the names for which its certificate verifies, and how it answers a login.\<close>

record peer =
  pe_version :: nat
  pe_trusted :: "string \<Rightarrow> bool"
  pe_login :: "string \<Rightarrow> string \<Rightarrow> unit result"

type_synonym net = "string \<Rightarrow> peer result"

definition tlsDial :: "net \<Rightarrow> string \<Rightarrow> tls_config \<Rightarrow> peer result" where
  "tlsDial N addr cfg =
     (case N addr of
        Inl e \<Rightarrow> Inl e
      | Inr p \<Rightarrow>
          if pe_version p < tc_MinVersion cfg then Inl ''tls: protocol version not supported''
          else if \<not> tc_InsecureSkipVerify cfg \<and> \<not> pe_trusted p (tc_ServerName cfg) then Inl ''tls: failed to verify certificate''
          else Inr p)"

text \<open>What the program does on the wire once the handshake is over.\<close>

datatype wire = Credentials string string string | Logout | Closed

section \<open>The five connections\<close>

definition addrOf :: "AccountConfig \<Rightarrow> string" where
  "addrOf a = acc_Host a @ '':'' @ intStr (acc_Port a)"

definition tlsOf :: "AccountConfig \<Rightarrow> tls_config" where
  "tlsOf a = \<lparr>tc_ServerName = acc_Host a, tc_MinVersion = VersionTLS12, tc_InsecureSkipVerify = acc_TLSSkipVerify a\<rparr>"

definition sendLogin :: "AccountConfig \<Rightarrow> wire" where
  "sendLogin a = Credentials (addrOf a) (acc_User a) (acc_Pass a)"

definition dial :: "net \<Rightarrow> AccountConfig \<Rightarrow> wire list \<times> peer result" where
  "dial N a =
     (case tlsDial N (addrOf a) (tlsOf a) of
        Inl e \<Rightarrow> ([], Inl (''dial '' @ addrOf a @ '': '' @ e))
      | Inr p \<Rightarrow>
          (case pe_login p (acc_User a) (acc_Pass a) of
             Inl e \<Rightarrow> ([sendLogin a, Closed], Inl (''login: '' @ e))
           | Inr _ \<Rightarrow> ([sendLogin a], Inr p)))"

text \<open>\<open>ctxErr\<close>: the caller's context is over before the connection stands.\<close>

definition freshClient :: "error option \<Rightarrow> net \<Rightarrow> AccountConfig \<Rightarrow> wire list \<times> peer result" where
  "freshClient ctxErr N a =
     (case (case ctxErr of Some e \<Rightarrow> Inl e | None \<Rightarrow> tlsDial N (addrOf a) (tlsOf a)) of
        Inl e \<Rightarrow> ([], Inl (''dial '' @ addrOf a @ '': '' @ e))
      | Inr p \<Rightarrow>
          (case pe_login p (acc_User a) (acc_Pass a) of
             Inl e \<Rightarrow> ([sendLogin a, Closed], Inl (''login '' @ acc_User a @ '': '' @ e))
           | Inr _ \<Rightarrow> ([sendLogin a], Inr p)))"

text \<open>The context is a parameter of the source and not used.\<close>

definition Test :: "net \<Rightarrow> AccountConfig \<Rightarrow> wire list \<times> unit result" where
  "Test N a =
     (case tlsDial N (addrOf a) (tlsOf a) of
        Inl e \<Rightarrow> ([], Inl (''connect: '' @ e))
      | Inr p \<Rightarrow>
          (case pe_login p (acc_User a) (acc_Pass a) of
             Inl e \<Rightarrow> ([sendLogin a, Closed], Inl (''login: '' @ e))
           | Inr _ \<Rightarrow> ([sendLogin a, Closed], Inr ())))"

text \<open>Recovery and backfill continue with the connection and log out when they return.\<close>

definition scanConnect :: "net \<Rightarrow> AccountConfig \<Rightarrow> wire list \<times> peer result" where
  "scanConnect N a =
     (case tlsDial N (addrOf a) (tlsOf a) of
        Inl e \<Rightarrow> ([], Inl (''dial: '' @ e))
      | Inr p \<Rightarrow>
          (case pe_login p (acc_User a) (acc_Pass a) of
             Inl e \<Rightarrow> ([sendLogin a, Logout], Inl (''login: '' @ e))
           | Inr _ \<Rightarrow> ([sendLogin a], Inr p)))"

text \<open>Without a window there is no backfill and no connection.\<close>

definition backfillConnect :: "net \<Rightarrow> AccountConfig \<Rightarrow> wire list \<times> peer result" where
  "backfillConnect N a = (if acc_BackfillDays a = 0 then ([], Inl []) else scanConnect N a)"

section \<open>What they have in common\<close>

locale mail_dialer =
  fixes connect :: "net \<Rightarrow> AccountConfig \<Rightarrow> wire list \<times> 'c result"
  assumes no_handshake: "tlsDial N (addrOf a) (tlsOf a) = Inl e \<Longrightarrow> fst (connect N a) = [] \<and> (\<exists>e'. snd (connect N a) = Inl e')"
    and own_login: "Credentials addr u p \<in> set (fst (connect N a)) \<Longrightarrow> Credentials addr u p = sendLogin a"
    and connected: "snd (connect N a) = Inr c \<Longrightarrow> \<exists>q. tlsDial N (addrOf a) (tlsOf a) = Inr q \<and> pe_login q (acc_User a) (acc_Pass a) = Inr ()"
begin

lemma silent:
  assumes "N (addrOf a) = Inr q" and "pe_version q < VersionTLS12 \<or> \<not> acc_TLSSkipVerify a \<and> \<not> pe_trusted q (acc_Host a)"
  shows "fst (connect N a) = [] \<and> (\<exists>e. snd (connect N a) = Inl e)"
proof -
  have "\<exists>e. tlsDial N (addrOf a) (tlsOf a) = Inl e" using assms by (auto simp add: tlsDial_def tlsOf_def)
  then show ?thesis using no_handshake by blast
qed

lemma discloses:
  assumes "Credentials addr u p \<in> set (fst (connect N a))"
  shows "addr = addrOf a \<and> (\<exists>q. N addr = Inr q \<and> VersionTLS12 \<le> pe_version q \<and> (acc_TLSSkipVerify a \<or> pe_trusted q (acc_Host a)))"
proof -
  have addr: "addr = addrOf a" using own_login [OF assms] by (simp add: sendLogin_def)
  obtain q where "N (addrOf a) = Inr q"
    using assms no_handshake [of N a] by (cases "N (addrOf a)") (auto simp: tlsDial_def)
  moreover have "fst (connect N a) \<noteq> []" using assms by auto
  ultimately show ?thesis using silent [of N a q] addr by (metis not_less)
qed

end

lemmas dialers = dial_def freshClient_def Test_def scanConnect_def backfillConnect_def

interpretation md_listener: mail_dialer dial
  by unfold_locales (auto simp: dialers sendLogin_def split: sum.splits if_splits)

interpretation md_actions: mail_dialer "freshClient ctxErr" for ctxErr
  by unfold_locales (auto simp: dialers sendLogin_def split: sum.splits if_splits option.splits)

interpretation md_test: mail_dialer Test
  by unfold_locales (auto simp: dialers sendLogin_def split: sum.splits if_splits)

interpretation md_recovery: mail_dialer scanConnect
  by unfold_locales (auto simp: dialers sendLogin_def split: sum.splits if_splits)

interpretation md_backfill: mail_dialer backfillConnect
  by unfold_locales (auto simp: dialers sendLogin_def split: sum.splits if_splits)

text \<open>A server that may see the credentials meant for a host: at least TLS 1.2 and, unless the check is switched off, a certificate for that host.\<close>

definition verified :: "net \<Rightarrow> string \<Rightarrow> string \<Rightarrow> bool \<Rightarrow> bool" where
  "verified N addr host skip \<longleftrightarrow> (\<exists>q. N addr = Inr q \<and> VersionTLS12 \<le> pe_version q \<and> (skip \<or> pe_trusted q host))"

text \<open>Where the password of a connection test comes from: the request, or the stored account that the request names.\<close>

lemma testConfig_password:
  assumes "testConfig req w = Some b"
  shows "acc_Pass b = ac_Pass req \<or> ac_Pass req = [] \<and> (\<exists>stored \<in> set (sw_accounts w). ac_Name stored = ac_Name req \<and> acc_Pass b = ac_Pass stored)"
  using assms by (auto simp: testConfig_def Let_def dest: find_Some_in split: if_splits option.splits)

text \<open>
  C25. Where passwords go. The four connections that the program makes by itself for an account (listener, actions, recovery, backfill) send its user name and password to the account's own address only, to a server that speaks at
  least TLS 1.2 and, unless the account has opted out of the check, has a certificate that verifies for the account's host name; a server for which this fails sees nothing of them. The connection test of the dashboard is the
  exception: it sends the user name of the request, with the password of the request or, when that is blank, the stored password of the account the request names, to the address in the request, which
  need not be the account's, checked against the host of the request unless the request says to skip the check.
\<close>

theorem passwords_to_verified_servers:
  assumes "via \<in> {\<lambda>N a. fst (dial N a), \<lambda>N a. fst (freshClient ctxErr N a), \<lambda>N a. fst (scanConnect N a), \<lambda>N a. fst (backfillConnect N a)}"
  shows "(\<forall>addr u p. Credentials addr u p \<in> set (via N a) \<longrightarrow>
      addr = addrOf a \<and> u = acc_User a \<and> p = acc_Pass a \<and> verified N addr (acc_Host a) (acc_TLSSkipVerify a))
    \<and> (\<not> verified N (addrOf a) (acc_Host a) (acc_TLSSkipVerify a) \<longrightarrow> via N a = [])
    \<and> (\<forall>b addr u p. testConfig req w = Some b \<longrightarrow> Credentials addr u p \<in> set (fst (Test N b)) \<longrightarrow>
         addr = ac_Host req @ '':'' @ intStr (if ac_Port req = 0 then 993 else ac_Port req) \<and> u = ac_User req
         \<and> (p = ac_Pass req \<or> ac_Pass req = [] \<and> (\<exists>stored \<in> set (sw_accounts w). ac_Name stored = ac_Name req \<and> p = ac_Pass stored))
         \<and> verified N addr (ac_Host req) (ac_TLSSkipVerify req))"
proof (intro conjI allI impI)
  fix addr u p
  assume "Credentials addr u p \<in> set (via N a)"
  then have "Credentials addr u p = sendLogin a \<and> verified N addr (acc_Host a) (acc_TLSSkipVerify a)"
    using assms md_listener.own_login [of addr u p N a] md_listener.discloses [of addr u p N a] md_actions.own_login [of addr u p ctxErr N a]
      md_actions.discloses [of addr u p ctxErr N a] md_recovery.own_login [of addr u p N a] md_recovery.discloses [of addr u p N a]
      md_backfill.own_login [of addr u p N a] md_backfill.discloses [of addr u p N a]
    unfolding verified_def by blast
  then show "addr = addrOf a" "u = acc_User a" "p = acc_Pass a" "verified N addr (acc_Host a) (acc_TLSSkipVerify a)"
    by (auto simp: sendLogin_def)
next
  assume un: "\<not> verified N (addrOf a) (acc_Host a) (acc_TLSSkipVerify a)"
  have "\<exists>e. tlsDial N (addrOf a) (tlsOf a) = Inl e"
    using un by (cases "N (addrOf a)") (auto simp: verified_def tlsDial_def tlsOf_def not_le)
  then obtain e where "tlsDial N (addrOf a) (tlsOf a) = Inl e" by blast
  then show "via N a = []"
    using assms md_listener.no_handshake [of N a e] md_actions.no_handshake [of N a e ctxErr] md_recovery.no_handshake [of N a e]
      md_backfill.no_handshake [of N a e] by blast
next
  fix b addr u p
  assume b: "testConfig req w = Some b" and c: "Credentials addr u p \<in> set (fst (Test N b))"
  have fields: "acc_Host b = ac_Host req" "acc_Port b = (if ac_Port req = 0 then 993 else ac_Port req)" "acc_User b = ac_User req"
    "acc_TLSSkipVerify b = ac_TLSSkipVerify req"
    using b by (auto simp: testConfig_def Let_def split: if_splits)
  from md_test.own_login [OF c] have own: "addr = addrOf b" "u = acc_User b" "p = acc_Pass b" by (simp_all add: sendLogin_def)
  show "addr = ac_Host req @ '':'' @ intStr (if ac_Port req = 0 then 993 else ac_Port req)" "u = ac_User req"
    using own fields by (simp_all add: addrOf_def)
  show "p = ac_Pass req \<or> ac_Pass req = [] \<and> (\<exists>stored \<in> set (sw_accounts w). ac_Name stored = ac_Name req \<and> p = ac_Pass stored)"
    using testConfig_password [OF b] own(3) by simp
  show "verified N addr (ac_Host req) (ac_TLSSkipVerify req)"
    using md_test.discloses [OF c] fields by (auto simp: verified_def)
qed

text \<open>
  What the exception means: a request with the name of a stored account, a blank password, a host of the requester's choice and the check of its certificate switched off makes the program send
  the stored password there.
\<close>

lemma test_account_discloses:
  assumes "find (\<lambda>b. ac_Name b = ac_Name req) (sw_accounts w) = Some stored" and "ac_Pass stored \<noteq> []"
    and "ac_Name req \<noteq> []" "ac_Host req \<noteq> []" "ac_User req \<noteq> []" "ac_Pass req = []" "ac_TLSSkipVerify req" "ac_Port req \<noteq> 0"
    and "N (ac_Host req @ '':'' @ intStr (ac_Port req)) = Inr q" and "VersionTLS12 \<le> pe_version q"
  shows "\<exists>b. testConfig req w = Some b \<and> Credentials (ac_Host req @ '':'' @ intStr (ac_Port req)) (ac_User req) (ac_Pass stored) \<in> set (fst (Test N b))
    \<and> TestAccount (\<lambda>a. snd (Test N a)) req w = (case pe_login q (ac_User req) (ac_Pass stored) of Inl _ \<Rightarrow> 502 | Inr _ \<Rightarrow> 200)"
  using assms by (auto simp: TestAccount_def testConfig_def Test_def tlsDial_def tlsOf_def addrOf_def sendLogin_def Let_def split: sum.split)

section \<open>The client of the domain check\<close>

definition nrdDialTarget :: "dns \<Rightarrow> string \<Rightarrow> string result" where
  "nrdDialTarget LookupHost host =
     (case LookupHost host of
        Inl e \<Rightarrow> Inl (''ssrf: cannot resolve '' @ host)
      | Inr ips \<Rightarrow>
          if ips = [] then Inl (''ssrf: cannot resolve '' @ host)
          else (let ip = ParseIP (hd ips) in if ip = None \<or> \<not> IsPublicIP ip then Inl (''ssrf: non-public address '' @ hd ips) else Inr (hd ips)))"

text \<open>It dials what the client of the redirect check dials, so it too reaches public addresses only.\<close>

lemma nrd_same_guard: "nrdDialTarget = dialTarget"
  by (rule ext)+ (auto simp: nrdDialTarget_def dialTarget_def Let_def split: sum.split list.split option.split)

lemma nrd_dials_public: "nrdDialTarget LookupHost host = Inr address \<Longrightarrow> IsPublicIP (ParseIP address)"
  by (auto simp: nrdDialTarget_def Let_def split: sum.splits if_splits)

section \<open>Witness\<close>

definition demoAccountConfig :: AccountConfig where
  "demoAccountConfig = \<lparr>acc_Name = ''main'', acc_Host = ''mail.example.com'', acc_Port = 993, acc_User = ''u'', acc_Pass = ''secret'', acc_Mailbox = ''INBOX'', acc_Quarantine = ''Quarantine'',
     acc_TLSSkipVerify = False, acc_BackfillDays = 0\<rparr>"

definition demoPeer :: peer where
  "demoPeer = \<lparr>pe_version = 0x0304, pe_trusted = (\<lambda>n. n = ''mail.example.com''), pe_login = (\<lambda>_ _. Inr ())\<rparr>"

lemma passwords_to_verified_servers_witness:
  "sendLogin demoAccountConfig \<in> set (fst (dial (\<lambda>_. Inr demoPeer) demoAccountConfig))
   \<and> verified (\<lambda>_. Inr demoPeer) (addrOf demoAccountConfig) ''mail.example.com'' False
   \<and> fst (dial (\<lambda>_. Inr (demoPeer\<lparr>pe_version := 0x0302\<rparr>)) demoAccountConfig) = []"
proof -
  have member: "(\<lambda>N a. fst (dial N a)) \<in> {\<lambda>N a. fst (dial N a), \<lambda>N a. fst (freshClient None N a), \<lambda>N a. fst (scanConnect N a), \<lambda>N a. fst (backfillConnect N a)}"
    by simp
  have sent: "sendLogin demoAccountConfig \<in> set (fst (dial (\<lambda>_. Inr demoPeer) demoAccountConfig))"
    by (simp add: dial_def tlsDial_def tlsOf_def demoAccountConfig_def demoPeer_def VersionTLS12_def)
  have old: "\<not> verified (\<lambda>_. Inr (demoPeer\<lparr>pe_version := 0x0302\<rparr>)) (addrOf demoAccountConfig) (acc_Host demoAccountConfig) (acc_TLSSkipVerify demoAccountConfig)"
    by (simp add: verified_def VersionTLS12_def)
  have opts: "acc_Host demoAccountConfig = ''mail.example.com''" "\<not> acc_TLSSkipVerify demoAccountConfig" by (simp_all add: demoAccountConfig_def)
  note sent_to = passwords_to_verified_servers [OF member, where req = undefined and w = undefined and a = demoAccountConfig]
  have "verified (\<lambda>_. Inr demoPeer) (addrOf demoAccountConfig) (acc_Host demoAccountConfig) (acc_TLSSkipVerify demoAccountConfig)"
    using conjunct1 [OF sent_to [of "\<lambda>_. Inr demoPeer"], rule_format] sent unfolding sendLogin_def by blast
  then have "verified (\<lambda>_. Inr demoPeer) (addrOf demoAccountConfig) ''mail.example.com'' False" using opts by simp
  moreover have "fst (dial (\<lambda>_. Inr (demoPeer\<lparr>pe_version := 0x0302\<rparr>)) demoAccountConfig) = []"
    using conjunct1 [OF conjunct2 [OF sent_to [of "\<lambda>_. Inr (demoPeer\<lparr>pe_version := 0x0302\<rparr>)"]]] old by blast
  ultimately show ?thesis using sent by blast
qed

end
