(* ===== verification/Pages.thy ===== *)
theory Pages
  imports Settings Listings YaraRules Routes Refinement
begin

text \<open>
  What the dashboard shows: rendering (\<^verbatim>\<open>app/web/server.go\<close>), the settings page and the small handlers of \<^verbatim>\<open>app/web/handlers/settings.go\<close>, the pages of the lists (\<^verbatim>\<open>allowlists.go\<close>), the decoding
  of requests, and the registry of live accounts (\<^verbatim>\<open>registry.go\<close>). Templates are an argument. The main result is that no page depends on a stored secret.
\<close>

section \<open>Rendering\<close>

datatype page_value =
    VStr string
  | VNum float64
  | VBool bool
  | VScanners "(string \<times> bool) list"
  | VWhitelist "Whitelist list"
  | VBlocklist "Blocklist list"

type_synonym page_data = "string \<rightharpoonup> page_value"

text \<open>Data that is not a map is passed on as it is.\<close>

datatype render_data = DataMap page_data | DataOther

text \<open>Executing a template writes some output and may then fail.\<close>

type_synonym templates = "string \<Rightarrow> render_data \<Rightarrow> string \<times> error option"

definition InitTemplates :: "templates result \<Rightarrow> templates option \<Rightarrow> templates option \<times> error option" where
  "InitTemplates parsed old = (case parsed of Inl e \<Rightarrow> (old, Some e) | Inr t \<Rightarrow> (Some t, None))"

definition generateNonce :: "string result \<Rightarrow> string result" where
  "generateNonce rand = (case rand of Inl e \<Rightarrow> Inl e | Inr b \<Rightarrow> Inr (EncodeToString (take 16 b)))"

definition NonceFromContext :: "string option \<Rightarrow> string" where
  "NonceFromContext ctx = (case ctx of Some v \<Rightarrow> v | None \<Rightarrow> [])"

record rendered =
  rn_status :: int
  rn_body :: string

text \<open>Output goes to the client as it comes: once there is some, the status is 200 and the error text is appended to the page.\<close>

definition Render :: "templates \<Rightarrow> string option \<Rightarrow> string \<Rightarrow> render_data \<Rightarrow> rendered" where
  "Render T ctx name data =
     (let d = (case data of DataMap m \<Rightarrow> DataMap (m(''Nonce'' \<mapsto> VStr (NonceFromContext ctx))) | DataOther \<Rightarrow> DataOther)
      in case T name d of
           (out, None) \<Rightarrow> \<lparr>rn_status = 200, rn_body = out\<rparr>
         | (out, Some e) \<Rightarrow> \<lparr>rn_status = (if out = [] then 500 else 200), rn_body = out @ ''template error: '' @ e @ [CHR 0x0A]\<rparr>)"

lemma late_template_error_is_ok:
  assumes "T name (DataMap (m(''Nonce'' \<mapsto> VStr (NonceFromContext ctx)))) = (out, Some e)" and "out \<noteq> []"
  shows "rn_status (Render T ctx name (DataMap m)) = 200"
  using assms by (simp add: Render_def)

text \<open>Inline scripts run: the page is given the nonce that the policy of the same response names.\<close>

lemma page_nonce_matches:
  assumes "withMiddleware (generateNonce rand) (\<lambda>n. Returns (rn_status (Render T (Some n) name data))) = (hs, Returns st)" and "hs \<noteq> []"
  shows "\<exists>n. hs = securityHeaders n \<and> NonceFromContext (Some n) = n \<and> st = rn_status (Render T (Some n) name data)"
  using assms by (auto simp: withMiddleware_def NonceFromContext_def split: sum.splits)

section \<open>Decoding requests\<close>

definition jsonBodyMaxBytes :: nat where "jsonBodyMaxBytes = 65536"

text \<open>The decoder reads one value from the first 64 KiB; what follows the value is not looked at.\<close>

definition decodeJSON :: "(string \<Rightarrow> 'a result) \<Rightarrow> string \<Rightarrow> int + 'a" where
  "decodeJSON decode body = (case decode (take jsonBodyMaxBytes body) of Inl _ \<Rightarrow> Inl 400 | Inr v \<Rightarrow> Inr v)"

lemma decode_limited: "decodeJSON decode body = decodeJSON decode (take jsonBodyMaxBytes body @ extra)" if "jsonBodyMaxBytes \<le> length body"
  using that by (simp add: decodeJSON_def)

definition actorFromRequest :: "Session option \<Rightarrow> string" where
  "actorFromRequest sess = (case sess of Some s \<Rightarrow> ''user:'' @ se_Username s | None \<Rightarrow> ''user:unknown'')"

section \<open>Pages and small handlers\<close>

definition GetSettings :: "templates \<Rightarrow> string option \<Rightarrow> hmac \<Rightarrow> Middleware \<Rightarrow> bytes \<Rightarrow> Request \<Rightarrow> string \<Rightarrow> settings \<Rightarrow> rendered \<times> Cookie list" where
  "GetSettings T ctx mac m rnd r dataDir w =
     (let (token, cookies) = csrfFromRequest mac m rnd r; c = sw_cfg w
      in (Render T ctx ''settings.html'' (DataMap
           [''CSRFToken'' \<mapsto> VStr token, ''SpamScore'' \<mapsto> VNum (rc_SpamScore c), ''RejectScore'' \<mapsto> VNum (rc_RejectScore c),
            ''NtfyURL'' \<mapsto> VStr (rc_NtfyURL c), ''NtfyTopic'' \<mapsto> VStr (rc_NtfyTopic c),
            ''VTConfigured'' \<mapsto> VBool (rc_VTAPIKey c \<noteq> []), ''IPRepConfigured'' \<mapsto> VBool (rc_AbuseIPDBKey c \<noteq> []),
            ''PhishTankConfigured'' \<mapsto> VBool (rc_PhishTankKey c \<noteq> []),
            ''RspamdURL'' \<mapsto> VStr (rc_RspamdURL c), ''ClamAVAddr'' \<mapsto> VStr (rc_ClamAVAddr c), ''YARARulesDir'' \<mapsto> VStr (rc_YARARulesDir c),
            ''DataDir'' \<mapsto> VStr dataDir, ''Nav'' \<mapsto> VStr ''settings'', ''Scanners'' \<mapsto> VScanners (sw_scanners w)]), cookies))"

text \<open>The order of the rows is by \<^verbatim>\<open>added_at\<close>, which \<open>newest\<close> stands for.\<close>

definition ListWhitelist :: "(Whitelist list \<Rightarrow> Whitelist list) \<Rightarrow> db \<Rightarrow> Whitelist list" where
  "ListWhitelist newest d = newest (whitelist d)"

definition ListBlocklist :: "(Blocklist list \<Rightarrow> Blocklist list) \<Rightarrow> db \<Rightarrow> Blocklist list" where
  "ListBlocklist newest d = newest (blocklist d)"

definition GetAllowlists :: "templates \<Rightarrow> string option \<Rightarrow> hmac \<Rightarrow> Middleware \<Rightarrow> bytes \<Rightarrow> Request \<Rightarrow> (Whitelist list \<Rightarrow> Whitelist list)
    \<Rightarrow> (Blocklist list \<Rightarrow> Blocklist list) \<Rightarrow> db \<Rightarrow> rendered \<times> Cookie list" where
  "GetAllowlists T ctx mac m rnd r newestW newestB d =
     (let (token, cookies) = csrfFromRequest mac m rnd r
      in (Render T ctx ''allowlists.html'' (DataMap
           [''CSRFToken'' \<mapsto> VStr token, ''Whitelist'' \<mapsto> VWhitelist (newestW (whitelist d)), ''Blocklist'' \<mapsto> VBlocklist (newestB (blocklist d)), ''Nav'' \<mapsto> VStr ''allowlists'']),
          cookies))"

definition ListCustomFeed :: "(CustomFeedRow list \<Rightarrow> CustomFeedRow list) \<Rightarrow> settings \<Rightarrow> CustomFeedRow list" where
  "ListCustomFeed newest w = newest (sw_custom w)"

text \<open>The answer is sent at once; the refresh runs on its own, cut off from the request, with a limit of five minutes.\<close>

definition FeedsRefresh :: "('f \<Rightarrow> 'f) \<Rightarrow> 'f \<Rightarrow> 'f \<times> int" where
  "FeedsRefresh refresh f = (refresh f, 202)"

definition YARAReload :: "rule_files \<Rightarrow> yara \<Rightarrow> yara \<times> handle option \<times> int" where
  "YARAReload E y = (case ReloadRules E y of (y', old, Some _) \<Rightarrow> (y', old, 500) | (y', old, None) \<Rightarrow> (y', old, 200))"

text \<open>A reload that answers an error has kept the rules in force; one that answers success has loaded what the directory holds now.\<close>

lemma reload_keeps_rules: "YARAReload E y = (y', old, 500) \<Longrightarrow> y' = y \<and> old = None"
  by (auto simp: YARAReload_def ReloadRules_def loadRules_def Let_def split: prod.splits option.splits if_splits sum.splits)

section \<open>The registry of live accounts\<close>

record ('a, 'p) AccountRegistry =
  ar_actions :: "string \<rightharpoonup> 'a"
  ar_processors :: "string \<rightharpoonup> 'p"

definition NewAccountRegistry :: "('a, 'p) AccountRegistry" where
  "NewAccountRegistry = \<lparr>ar_actions = Map.empty, ar_processors = Map.empty\<rparr>"

definition registry_Add :: "string \<Rightarrow> 'a \<Rightarrow> 'p \<Rightarrow> ('a, 'p) AccountRegistry \<Rightarrow> ('a, 'p) AccountRegistry" where
  "registry_Add name act proc r = r\<lparr>ar_actions := (ar_actions r)(name \<mapsto> act), ar_processors := (ar_processors r)(name \<mapsto> proc)\<rparr>"

definition registry_Remove :: "string \<Rightarrow> ('a, 'p) AccountRegistry \<Rightarrow> ('a, 'p) AccountRegistry" where
  "registry_Remove name r = r\<lparr>ar_actions := (ar_actions r)(name := None), ar_processors := (ar_processors r)(name := None)\<rparr>"

definition GetActions :: "string \<Rightarrow> ('a, 'p) AccountRegistry \<Rightarrow> 'a option" where
  "GetActions name r = ar_actions r name"

definition GetProcessor :: "string \<Rightarrow> ('a, 'p) AccountRegistry \<Rightarrow> 'p option" where
  "GetProcessor name r = ar_processors r name"

text \<open>Its specification is one map from names to both.\<close>

datatype ('a, 'p) registry_op = RegAdd string 'a 'p | RegRemove string

fun registryStep :: "('a, 'p) registry_op \<Rightarrow> ('a, 'p) AccountRegistry \<Rightarrow> ('a, 'p) AccountRegistry" where
  "registryStep (RegAdd n a p) r = registry_Add n a p r"
| "registryStep (RegRemove n) r = registry_Remove n r"

fun accountsStep :: "('a, 'p) registry_op \<Rightarrow> (string \<rightharpoonup> 'a \<times> 'p) \<Rightarrow> (string \<rightharpoonup> 'a \<times> 'p)" where
  "accountsStep (RegAdd n a p) f = f(n \<mapsto> (a, p))"
| "accountsStep (RegRemove n) f = f(n := None)"

definition registryShows :: "('a, 'p) AccountRegistry \<Rightarrow> (string \<rightharpoonup> 'a \<times> 'p) \<Rightarrow> bool" where
  "registryShows r f \<longleftrightarrow> (\<forall>n. GetActions n r = map_option fst (f n) \<and> GetProcessor n r = map_option snd (f n))"

interpretation account_registry: simulation registryShows registryStep accountsStep "\<lambda>_ _. True"
proof
  show "registryShows c a \<Longrightarrow> registryShows (registryStep opn c) (accountsStep opn a)" for c a opn
    by (cases opn) (simp_all add: registryShows_def GetActions_def GetProcessor_def registry_Add_def registry_Remove_def)
qed

lemma allowed_always: "allowedRun (\<lambda>_ _. True) step ops a"
  by (induction ops arbitrary: a) simp_all

lemma registry_is_one_map: "registryShows (fold registryStep ops NewAccountRegistry) (fold accountsStep ops Map.empty)"
  by (rule account_registry.runs) (simp_all add: registryShows_def GetActions_def GetProcessor_def NewAccountRegistry_def allowed_always)

section \<open>No page depends on a secret\<close>

text \<open>
  Two states of the program look alike when they differ in secrets only: the values of keys that are set, the token of the notifications, the hash of the password and the passwords of the accounts. The
  address of the notifications is not among them: it is stored encrypted like a secret, but the page shows it. Two requests are alike when they differ in such values only. The answer to a change of the
  password tells whether the old password is the right one, so two runs are alike when those changes are accepted in both or in neither.
\<close>

definition mark :: "string \<Rightarrow> string" where
  "mark key = (if key = [] then [] else ''set'')"

definition maskRuntime :: "Runtime \<Rightarrow> Runtime" where
  "maskRuntime c = c\<lparr>rc_VTAPIKey := mark (rc_VTAPIKey c), rc_AbuseIPDBKey := mark (rc_AbuseIPDBKey c), rc_PhishTankKey := mark (rc_PhishTankKey c), rc_NtfyToken := [], rc_AdminPasswordBcrypt := []\<rparr>"

definition maskAccount :: "Account \<Rightarrow> Account" where
  "maskAccount a = a\<lparr>ac_Pass := []\<rparr>"

record visible =
  vi_cfg :: Runtime
  vi_scanners :: "(string \<times> bool) list"
  vi_accounts :: "Account list"
  vi_running :: "string \<rightharpoonup> nat"
  vi_starts :: nat
  vi_custom :: "CustomFeedRow list"
  vi_writes :: nat

definition visibleOf :: "settings \<Rightarrow> visible" where
  "visibleOf w = \<lparr>vi_cfg = maskRuntime (sw_cfg w), vi_scanners = sw_scanners w, vi_accounts = map maskAccount (sw_accounts w), vi_running = mg_cancels (sw_mgr w),
     vi_starts = length (mg_started (sw_mgr w)), vi_custom = sw_custom w, vi_writes = sw_writes w\<rparr>"

datatype page_op = Setting setting_op | Accounts account_op

fun pageStep :: "settings_env \<times> page_op \<Rightarrow> settings \<Rightarrow> settings" where
  "pageStep (E, Setting s) w = settingStep (E, s) w"
| "pageStep (E, Accounts a) w = accountStep (E, a) w"

fun alike :: "page_op \<Rightarrow> page_op \<Rightarrow> bool" where
  "alike (Setting (SetKeys v a p)) (Setting (SetKeys v' a' p')) \<longleftrightarrow> mark v = mark v' \<and> mark a = mark a' \<and> mark p = mark p'"
| "alike (Setting (SetNotifications u t k)) (Setting (SetNotifications u' t' k')) \<longleftrightarrow> u = u' \<and> t = t'"
| "alike (Setting (SetPassword c n k)) (Setting (SetPassword c' n' k')) \<longleftrightarrow> True"
| "alike (Accounts (AccCreate r)) (Accounts (AccCreate r')) \<longleftrightarrow> maskAccount r = maskAccount r' \<and> mark (ac_Pass r) = mark (ac_Pass r')"
| "alike (Accounts (AccUpdate p u)) (Accounts (AccUpdate p' u')) \<longleftrightarrow> p = p' \<and> u\<lparr>au_Pass := []\<rparr> = u'\<lparr>au_Pass := []\<rparr>"
| "alike o1 o2 \<longleftrightarrow> o1 = o2"

text \<open>The environments may differ in keys and random bytes too.\<close>

fun accepted :: "settings_env \<times> page_op \<Rightarrow> settings \<Rightarrow> bool" where
  "accepted (E, Setting (SetPassword c n k)) w \<longleftrightarrow> snd (ChangePassword E c n k w) = 204"
| "accepted _ w \<longleftrightarrow> True"

fun alikeRuns :: "(settings_env \<times> page_op) list \<Rightarrow> (settings_env \<times> page_op) list \<Rightarrow> settings \<Rightarrow> settings \<Rightarrow> bool" where
  "alikeRuns [] [] w w' \<longleftrightarrow> True"
| "alikeRuns ((E, o1) # rs) ((E', o2) # rs') w w' \<longleftrightarrow>
     sv_faults E = sv_faults E' \<and> sv_inert E = sv_inert E' \<and> alike o1 o2 \<and> accepted (E, o1) w = accepted (E', o2) w'
     \<and> alikeRuns rs rs' (pageStep (E, o1) w) (pageStep (E', o2) w')"
| "alikeRuns _ _ w w' \<longleftrightarrow> False"

lemma mark_empty [simp]: "mark k = [] \<longleftrightarrow> k = []"
  by (simp add: mark_def)

lemma mark_set: "mark k = mark k' \<longleftrightarrow> (k = [] \<longleftrightarrow> k' = [])"
  by (simp add: mark_def)

lemma maskRuntime_eq:
  "maskRuntime c = maskRuntime c' \<longleftrightarrow> rc_SpamScore c = rc_SpamScore c' \<and> rc_RejectScore c = rc_RejectScore c' \<and> rc_NtfyURL c = rc_NtfyURL c' \<and> rc_NtfyTopic c = rc_NtfyTopic c'
     \<and> mark (rc_VTAPIKey c) = mark (rc_VTAPIKey c') \<and> mark (rc_AbuseIPDBKey c) = mark (rc_AbuseIPDBKey c') \<and> mark (rc_PhishTankKey c) = mark (rc_PhishTankKey c')
     \<and> rc_RspamdURL c = rc_RspamdURL c' \<and> rc_ClamAVAddr c = rc_ClamAVAddr c' \<and> rc_YARARulesDir c = rc_YARARulesDir c'"
  by (cases c; cases c') (auto simp: maskRuntime_def)

lemma maskAccount_eq:
  "maskAccount a = maskAccount a' \<longleftrightarrow> ac_Name a = ac_Name a' \<and> ac_Host a = ac_Host a' \<and> ac_Port a = ac_Port a' \<and> ac_User a = ac_User a' \<and> ac_Mailbox a = ac_Mailbox a'
     \<and> ac_Quarantine a = ac_Quarantine a' \<and> ac_TLSSkipVerify a = ac_TLSSkipVerify a' \<and> ac_BackfillDays a = ac_BackfillDays a'"
  by (cases a; cases a') (auto simp: maskAccount_def)

lemma visible_eq:
  "visibleOf w = visibleOf w' \<longleftrightarrow> maskRuntime (sw_cfg w) = maskRuntime (sw_cfg w') \<and> sw_scanners w = sw_scanners w' \<and> map maskAccount (sw_accounts w) = map maskAccount (sw_accounts w')
     \<and> mg_cancels (sw_mgr w) = mg_cancels (sw_mgr w') \<and> length (mg_started (sw_mgr w)) = length (mg_started (sw_mgr w')) \<and> sw_custom w = sw_custom w' \<and> sw_writes w = sw_writes w'"
  by (simp add: visibleOf_def)

lemmas masks = visible_eq maskRuntime_eq

lemma saveRows_alike:
  assumes "visibleOf w = visibleOf w'" and "sv_faults E = sv_faults E'"
  shows "visibleOf (fst (saveRows E kvs w)) = visibleOf (fst (saveRows E' kvs' w')) \<and> snd (saveRows E kvs w) = snd (saveRows E' kvs' w')"
  using assms by (auto simp: saveRows_def masks Let_def split: option.split)

lemma thresholds_alike: "visibleOf w = visibleOf w' \<Longrightarrow> sv_faults E = sv_faults E' \<Longrightarrow>
    visibleOf (fst (UpdateThresholds E s r w)) = visibleOf (fst (UpdateThresholds E' s r w'))"
  by (auto simp: UpdateThresholds_def saveRows_def masks Let_def split: option.split)

lemma keys_alike: "visibleOf w = visibleOf w' \<Longrightarrow> sv_faults E = sv_faults E' \<Longrightarrow> mark v = mark v' \<Longrightarrow> mark a = mark a' \<Longrightarrow> mark p = mark p' \<Longrightarrow>
    visibleOf (fst (UpdateAPIKeys E v a p w)) = visibleOf (fst (UpdateAPIKeys E' v' a' p' w'))"
  by (auto simp: UpdateAPIKeys_def saveRows_def masks Let_def split: option.split)

lemma notifications_alike: "visibleOf w = visibleOf w' \<Longrightarrow> sv_faults E = sv_faults E' \<Longrightarrow>
    visibleOf (fst (UpdateNotifications E u t k w)) = visibleOf (fst (UpdateNotifications E' u t k' w'))"
  by (auto simp: UpdateNotifications_def saveRows_def masks Let_def split: option.split)

lemma endpoints_alike: "visibleOf w = visibleOf w' \<Longrightarrow> sv_faults E = sv_faults E' \<Longrightarrow>
    visibleOf (fst (UpdateEndpoints E r c y w)) = visibleOf (fst (UpdateEndpoints E' r c y w'))"
  by (cases "sv_faults E' (sw_writes w')"; cases "r = []"; cases "c = []"; cases "y = []"; simp add: UpdateEndpoints_def saveRows_def masks Let_def)

lemma hook_alike: "visibleOf w = visibleOf w' \<Longrightarrow> sv_faults E = sv_faults E' \<Longrightarrow> visibleOf (fst (UpdateWebhook E u v w)) = visibleOf (fst (UpdateWebhook E' u v w'))"
  by (auto simp: UpdateWebhook_def saveRows_def masks Let_def split: option.split)

lemma password_alike: "visibleOf w = visibleOf w' \<Longrightarrow> (snd (ChangePassword E c n k w) = 204) = (snd (ChangePassword E' c' n' k' w') = 204) \<Longrightarrow>
    visibleOf (fst (ChangePassword E c n k w)) = visibleOf (fst (ChangePassword E' c' n' k' w'))"
proof -
  assume vis: "visibleOf w = visibleOf w'" and ans: "(snd (ChangePassword E c n k w) = 204) = (snd (ChangePassword E' c' n' k' w') = 204)"
  have refused: "fst (ChangePassword E c n k w) = w" if "snd (ChangePassword E c n k w) \<noteq> 204" for E c n k w
    using that by (auto simp: ChangePassword_def Let_def split: sum.splits if_splits)
  have taken: "visibleOf (fst (ChangePassword E c n k w)) = (visibleOf w)\<lparr>vi_writes := Suc (sw_writes w)\<rparr>" if "snd (ChangePassword E c n k w) = 204" for E c n k w
    using that by (auto simp: ChangePassword_def saveRows_def visibleOf_def maskRuntime_def Let_def split: sum.splits if_splits option.splits)
  show ?thesis
  proof (cases "snd (ChangePassword E c n k w) = 204")
    case True
    then show ?thesis using ans vis taken by (simp add: visible_eq) (simp add: visibleOf_def)
  next
    case False
    then show ?thesis using ans vis refused by simp
  qed
qed

lemma scanners_alike:
  assumes "visibleOf w = visibleOf w'" and "sv_faults E = sv_faults E'" and "sv_inert E = sv_inert E'"
  shows "visibleOf (fst (UpdateScanners E req w)) = visibleOf (fst (UpdateScanners E' req w'))"
proof -
  let ?step = "\<lambda>E (name, _ :: bool) w. case req name of None \<Rightarrow> w
    | Some enabled \<Rightarrow> fst (saveRows E [(''scanner_'' @ name @ ''_enabled'', if enabled then ''true'' else ''false'')]
        (w\<lparr>sw_scanners := setScanner E name enabled (sw_scanners w)\<rparr>))"
  have same: "setScanner E = setScanner E'" using assms(3) by (simp add: setScanner_def fun_eq_iff)
  have "visibleOf v = visibleOf v' \<Longrightarrow> visibleOf (fold (?step E) xs v) = visibleOf (fold (?step E') xs v')" for xs v v'
  proof (induction xs arbitrary: v v')
    case (Cons x xs)
    have "visibleOf (?step E x v) = visibleOf (?step E' x v')"
      using Cons.prems assms(2) by (auto simp: saveRows_def same masks Let_def split: option.split prod.split)
    from Cons.IH [OF this] show ?case by simp
  qed simp
  from this [OF assms(1)] assms(1) show ?thesis by (simp add: UpdateScanners_def visible_eq)
qed

text \<open>Accounts: the handlers look at names, at whether a password is given, and at the listeners' names and number.\<close>

lemma mask_names: "map maskAccount as = map maskAccount bs \<Longrightarrow> map ac_Name as = map ac_Name bs"
  by (induction as bs rule: list_induct2') (auto simp: maskAccount_eq)

lemma mask_find:
  "map maskAccount as = map maskAccount bs \<Longrightarrow> map_option maskAccount (find (\<lambda>a. ac_Name a = n) as) = map_option maskAccount (find (\<lambda>a. ac_Name a = n) bs)"
  by (induction as bs rule: list_induct2') (auto simp: maskAccount_eq)

lemma mask_filter: "map maskAccount as = map maskAccount bs \<Longrightarrow> map maskAccount (filter (\<lambda>a. ac_Name a \<noteq> n) as) = map maskAccount (filter (\<lambda>a. ac_Name a \<noteq> n) bs)"
  by (induction as bs rule: list_induct2') (auto simp: maskAccount_eq)

lemma mask_replace:
  "map maskAccount as = map maskAccount bs \<Longrightarrow> maskAccount x = maskAccount y \<Longrightarrow>
   map maskAccount (map (\<lambda>b. if ac_Name b = ac_Name x then x else b) as) = map maskAccount (map (\<lambda>b. if ac_Name b = ac_Name y then y else b) bs)"
  by (induction as bs rule: list_induct2') (auto simp: maskAccount_eq)

lemma mask_update:
  assumes "maskAccount a = maskAccount b" and "u\<lparr>au_Pass := []\<rparr> = v\<lparr>au_Pass := []\<rparr>"
  shows "maskAccount (applyUpdate u a) = maskAccount (applyUpdate v b)"
  using assms by (cases u; cases v) (auto simp: maskAccount_eq applyUpdate_def split: option.split)

definition managersAlike :: "manager \<Rightarrow> manager \<Rightarrow> bool" where
  "managersAlike m m' \<longleftrightarrow> mg_cancels m = mg_cancels m' \<and> length (mg_started m) = length (mg_started m')"

lemma Start_alike: "managersAlike m m' \<Longrightarrow> acc_Name a = acc_Name b \<Longrightarrow> managersAlike (fst (Start a m)) (fst (Start b m'))"
  by (simp add: managersAlike_def Start_def Let_def)

lemma Stop_alike: "managersAlike m m' \<Longrightarrow> managersAlike (Stop n m) (Stop n m')"
  by (simp add: managersAlike_def Stop_def split: option.split)

lemma Restart_alike: "managersAlike m m' \<Longrightarrow> acc_Name a = acc_Name b \<Longrightarrow> managersAlike (fst (Restart a m)) (fst (Restart b m'))"
  by (simp add: Restart_def Start_alike Stop_alike)

lemma visible_managers: "visibleOf v = visibleOf v' \<Longrightarrow> managersAlike (sw_mgr v) (sw_mgr v')"
  by (simp add: visible_eq managersAlike_def)

lemma with_listeners:
  "visibleOf v = visibleOf v' \<Longrightarrow> managersAlike m m' \<Longrightarrow> visibleOf (v\<lparr>sw_registry := r, sw_mgr := m\<rparr>) = visibleOf (v'\<lparr>sw_registry := r', sw_mgr := m'\<rparr>)"
  by (simp add: visible_eq managersAlike_def)

lemma writeAccounts_alike:
  assumes "visibleOf w = visibleOf w'" "sv_faults E = sv_faults E'"
    and "rel_sum (\<lambda>_ _. True) (\<lambda>as bs. map maskAccount as = map maskAccount bs) (f (sw_accounts w)) (g (sw_accounts w'))"
  obtains v v' ok where "writeAccounts E f w = (v, ok)" "writeAccounts E' g w' = (v', ok)" "visibleOf v = visibleOf v'"
proof -
  have "visibleOf (fst (writeAccounts E f w)) = visibleOf (fst (writeAccounts E' g w')) \<and> snd (writeAccounts E f w) = snd (writeAccounts E' g w')"
    using assms by (cases "sv_faults E' (sw_writes w')"; cases "f (sw_accounts w)"; cases "g (sw_accounts w')") (simp_all add: writeAccounts_def visible_eq Let_def)
  moreover obtain v ok v' ok' where wr: "writeAccounts E f w = (v, ok)" "writeAccounts E' g w' = (v', ok')" by fastforce
  ultimately have "ok' = ok" "visibleOf v = visibleOf v'" by simp_all
  with wr that show ?thesis by blast
qed

lemma create_alike:
  assumes vis: "visibleOf w = visibleOf w'" "sv_faults E = sv_faults E'" and req: "maskAccount r = maskAccount r'" "mark (ac_Pass r) = mark (ac_Pass r')"
  shows "visibleOf (fst (CreateAccount E r w)) = visibleOf (fst (CreateAccount E' r' w'))"
proof -
  define full where "full = (\<lambda>q :: Account. q\<lparr>ac_Port := (if ac_Port q = 0 then 993 else ac_Port q), ac_Mailbox := (if ac_Mailbox q = [] then ''INBOX'' else ac_Mailbox q),
     ac_Quarantine := (if ac_Quarantine q = [] then ''Quarantine'' else ac_Quarantine q), ac_BackfillDays := 0\<rparr>)"
  define add where "add = (\<lambda>x as. if ac_Name x \<in> ac_Name ` set as then Inl ''UNIQUE constraint failed'' else (Inr (as @ [x]) :: Account list result))"
  have masked: "maskAccount (full r) = maskAccount (full r')" using req by (simp add: full_def maskAccount_eq)
  then have name: "ac_Name (full r) = ac_Name (full r')" by (simp add: maskAccount_eq)
  have acc: "map maskAccount (sw_accounts w) = map maskAccount (sw_accounts w')" using vis(1) by (simp add: visible_eq)
  have "ac_Name ` set (sw_accounts w) = ac_Name ` set (sw_accounts w')" using mask_names [OF acc] by (metis list.set_map)
  then have "rel_sum (\<lambda>_ _. True) (\<lambda>as bs. map maskAccount as = map maskAccount bs) (add (full r) (sw_accounts w)) (add (full r') (sw_accounts w'))"
    using acc masked name by (simp add: add_def)
  with vis obtain v v' ok where wr: "writeAccounts E (add (full r)) w = (v, ok)" "writeAccounts E' (add (full r')) w' = (v', ok)" "visibleOf v = visibleOf v'"
    by (rule writeAccounts_alike)
  have guards: "ac_Name r = ac_Name r'" "ac_Host r = ac_Host r'" "ac_User r = ac_User r'" "ac_Pass r = [] \<longleftrightarrow> ac_Pass r' = []" using req by (simp_all add: maskAccount_eq mark_set)
  have unfolded: "CreateAccount F q x =
      (if ac_Name q = [] \<or> ac_Host q = [] \<or> ac_User q = [] \<or> ac_Pass q = [] then (x, 400)
       else if list_ex (\<lambda>c. c \<in> set [CHR '' '', CHR ''/'', CHR 0x5C]) (ac_Name q) then (x, 400)
       else (case writeAccounts F (add (full q)) x of (x1, False) \<Rightarrow> (x1, 409)
         | (x1, True) \<Rightarrow> (x1\<lparr>sw_registry := (sw_registry x1)(ac_Name (full q) \<mapsto> configOf (full q)), sw_mgr := fst (Start (configOf (full q)) (sw_mgr x1))\<rparr>, 201)))" for F q x
    by (simp add: CreateAccount_def full_def add_def Let_def)
  have "visibleOf (v\<lparr>sw_registry := a, sw_mgr := fst (Start (configOf (full r)) (sw_mgr v))\<rparr>)
      = visibleOf (v'\<lparr>sw_registry := b, sw_mgr := fst (Start (configOf (full r')) (sw_mgr v'))\<rparr>)" for a b
    using wr(3) name by (intro with_listeners Start_alike visible_managers) (simp_all add: configOf_def)
  then show ?thesis unfolding unfolded using vis(1) wr guards by (cases ok) simp_all
qed

lemma update_alike:
  assumes vis: "visibleOf w = visibleOf w'" "sv_faults E = sv_faults E'" and req: "u\<lparr>au_Pass := []\<rparr> = v\<lparr>au_Pass := []\<rparr>"
  shows "visibleOf (fst (UpdateAccount E path u w)) = visibleOf (fst (UpdateAccount E' path v w'))"
proof -
  let ?find = "\<lambda>w. find (\<lambda>a. ac_Name a = accountPath path) (sw_accounts w)"
  have acc: "map maskAccount (sw_accounts w) = map maskAccount (sw_accounts w')" using vis(1) by (simp add: visible_eq)
  from mask_find [OF acc, of "accountPath path"] consider "?find w = None" "?find w' = None" | a b where "?find w = Some a" "?find w' = Some b" "maskAccount a = maskAccount b"
    by (cases "?find w"; cases "?find w'") auto
  then show ?thesis
  proof cases
    case 1
    with vis(1) show ?thesis by (simp add: UpdateAccount_def Let_def)
  next
    case 2
    note masked = mask_update [OF 2(3) req]
    then have name: "ac_Name (applyUpdate u a) = ac_Name (applyUpdate v b)" by (simp add: maskAccount_eq)
    let ?put = "\<lambda>x as. Inr (map (\<lambda>b. if ac_Name b = ac_Name x then x else b) as) :: Account list result"
    have "rel_sum (\<lambda>_ _. True) (\<lambda>as bs. map maskAccount as = map maskAccount bs) (?put (applyUpdate u a) (sw_accounts w)) (?put (applyUpdate v b) (sw_accounts w'))"
      using mask_replace [OF acc masked] by simp
    with vis obtain x x' ok where wr: "writeAccounts E (?put (applyUpdate u a)) w = (x, ok)" "writeAccounts E' (?put (applyUpdate v b)) w' = (x', ok)" "visibleOf x = visibleOf x'"
      by (rule writeAccounts_alike)
    have "visibleOf (x\<lparr>sw_registry := p, sw_mgr := fst (Restart (configOf (applyUpdate u a)) (sw_mgr x))\<rparr>)
        = visibleOf (x'\<lparr>sw_registry := q, sw_mgr := fst (Restart (configOf (applyUpdate v b)) (sw_mgr x'))\<rparr>)" for p q
      using wr(3) name by (intro with_listeners Restart_alike visible_managers) (simp_all add: configOf_def)
    then show ?thesis using 2(1,2) vis(1) wr by (cases ok) (simp_all add: UpdateAccount_def Let_def)
  qed
qed

lemma delete_alike:
  assumes vis: "visibleOf w = visibleOf w'" "sv_faults E = sv_faults E'"
  shows "visibleOf (fst (DeleteAccount E path w)) = visibleOf (fst (DeleteAccount E' path w'))"
proof -
  let ?del = "\<lambda>as. Inr (filter (\<lambda>a. ac_Name a \<noteq> accountPath path) as) :: Account list result"
  have "rel_sum (\<lambda>_ _. True) (\<lambda>as bs. map maskAccount as = map maskAccount bs) (?del (sw_accounts w)) (?del (sw_accounts w'))"
    using mask_filter [of "sw_accounts w" "sw_accounts w'"] vis(1) unfolding visible_eq by simp
  with vis obtain x x' ok where wr: "writeAccounts E ?del w = (x, ok)" "writeAccounts E' ?del w' = (x', ok)" "visibleOf x = visibleOf x'" by (rule writeAccounts_alike)
  have "visibleOf (x\<lparr>sw_mgr := Stop n (sw_mgr x), sw_registry := p\<rparr>) = visibleOf (x'\<lparr>sw_mgr := Stop n (sw_mgr x'), sw_registry := q\<rparr>)" for p q n
    using with_listeners [where r = p and r' = q, OF wr(3) Stop_alike [where n = n, OF visible_managers [OF wr(3)]]] unfolding visible_eq by simp
  then show ?thesis using vis(1) wr by (cases ok) (simp_all add: DeleteAccount_def Let_def)
qed

lemma alike_step:
  assumes "visibleOf w = visibleOf w'" "sv_faults E = sv_faults E'" "sv_inert E = sv_inert E'" "alike o1 o2" "accepted (E, o1) w = accepted (E', o2) w'"
  shows "visibleOf (pageStep (E, o1) w) = visibleOf (pageStep (E', o2) w')"
  using assms(4,5)
  by (cases "(o1, o2)" rule: alike.cases)
    (auto intro: thresholds_alike keys_alike notifications_alike endpoints_alike hook_alike scanners_alike password_alike create_alike update_alike delete_alike simp: assms(1-3))

lemma alike_runs: "visibleOf w = visibleOf w' \<Longrightarrow> alikeRuns rs rs' w w' \<Longrightarrow> visibleOf (fold pageStep rs w) = visibleOf (fold pageStep rs' w')"
  by (induction rs rs' w w' rule: alikeRuns.induct) (simp_all add: alike_step)

text \<open>The pages are functions of what is visible.\<close>

lemma settings_page_visible: "visibleOf w = visibleOf w' \<Longrightarrow> GetSettings T ctx mac m rnd r dataDir w = GetSettings T ctx mac m rnd r dataDir w'"
  by (simp add: GetSettings_def masks mark_set Let_def)

lemma accounts_visible:
  assumes "visibleOf w = visibleOf w'"
  shows "GetAccounts readable w = GetAccounts readable w'"
proof -
  have masked: "map (responseFor m) as = map (responseFor m) (map maskAccount as)" for m as by (simp add: responseFor_def maskAccount_def)
  have "responseFor (sw_mgr w) a = responseFor (sw_mgr w') a" for a using assms by (simp add: visible_eq responseFor_def IsRunning_def)
  then have same: "responseFor (sw_mgr w) = responseFor (sw_mgr w')" by (rule ext)
  have acc: "map maskAccount (sw_accounts w) = map maskAccount (sw_accounts w')" using assms by (simp add: visible_eq)
  show ?thesis unfolding GetAccounts_def masked [of _ "sw_accounts w"] masked [of _ "sw_accounts w'"] same acc ..
qed

text \<open>
  C17. No page shows a secret: whatever the settings, password and account requests, and however the stored API keys, the notification token, the password hash, the passwords of accounts, the encryption keys and the random bytes of
  two instances differ, as long as the requests and the states differ in such values only and the same password changes are accepted, the settings page (from any template), the list of the accounts and the list of the
  custom entries are the same in both. The notification address is shown, although it is stored encrypted.
\<close>

theorem secrets_never_shown:
  assumes "visibleOf w = visibleOf w'" and "alikeRuns rs rs' w w'"
  shows "GetSettings T ctx mac m rnd r dataDir (fold pageStep rs w) = GetSettings T ctx mac m rnd r dataDir (fold pageStep rs' w')
    \<and> GetAccounts readable (fold pageStep rs w) = GetAccounts readable (fold pageStep rs' w')
    \<and> ListCustomFeed newest (fold pageStep rs w) = ListCustomFeed newest (fold pageStep rs' w')"
proof -
  have "visibleOf (fold pageStep rs w) = visibleOf (fold pageStep rs' w')" by (rule alike_runs [OF assms])
  then show ?thesis by (auto intro: settings_page_visible accounts_visible simp: ListCustomFeed_def visible_eq)
qed

text \<open>The address that the database keeps encrypted is handed to the page as it is.\<close>

lemma notification_address_shown:
  assumes "T = (\<lambda>name d. (case d of DataMap f \<Rightarrow> (case f ''NtfyURL'' of Some (VStr u) \<Rightarrow> u | _ \<Rightarrow> []) | DataOther \<Rightarrow> [], None))"
  shows "rn_body (fst (GetSettings T ctx mac m rnd r dataDir w)) = rc_NtfyURL (sw_cfg w)"
  by (simp add: assms GetSettings_def Render_def Let_def split: prod.split)

definition demoTemplates :: templates where
  "demoTemplates name d = (case d of DataMap f \<Rightarrow> (if f ''VTConfigured'' = Some (VBool True) then ''configured'' else ''not configured'', None) | DataOther \<Rightarrow> ([], None))"

lemma secrets_never_shown_witness:
  "rn_body (fst (GetSettings demoTemplates None (\<lambda>_ _. []) demoMW [] demoRequest ''/data'' (fst (UpdateAPIKeys demoEnv ''key-1'' [] [] emptySettings)))) = ''configured''
   \<and> GetSettings demoTemplates None (\<lambda>_ _. []) demoMW [] demoRequest ''/data'' (fst (UpdateAPIKeys demoEnv ''key-1'' [] [] emptySettings))
     = GetSettings demoTemplates None (\<lambda>_ _. []) demoMW [] demoRequest ''/data'' (fst (UpdateAPIKeys demoEnv ''another key'' [] [] emptySettings))"
proof -
  have "rc_VTAPIKey (sw_cfg (fst (UpdateAPIKeys demoEnv ''key-1'' [] [] emptySettings))) = ''key-1''"
    by (simp add: UpdateAPIKeys_def saveRows_def demoEnv_def Let_def)
  then have "rn_body (fst (GetSettings demoTemplates None (\<lambda>_ _. []) demoMW [] demoRequest ''/data'' (fst (UpdateAPIKeys demoEnv ''key-1'' [] [] emptySettings)))) = ''configured''"
    by (simp add: GetSettings_def Render_def demoTemplates_def Let_def split: prod.split)
  moreover have "alikeRuns [(demoEnv, Setting (SetKeys ''key-1'' [] [])), (demoEnv, Setting (SetPassword ''no'' [] []))]
      [(demoEnv, Setting (SetKeys ''another key'' [] [])), (demoEnv, Setting (SetPassword ''wrong'' ''x'' ''y''))] emptySettings emptySettings"
    by (simp add: mark_def) (simp add: ChangePassword_def UpdateAPIKeys_def saveRows_def demoEnv_def emptySettings_def demoCfg_def Let_def)
  note secrets_never_shown [OF refl this, of demoTemplates None "\<lambda>_ _. []" demoMW "[]" demoRequest "''/data''" True id]
  moreover have "fst (ChangePassword demoEnv ''no'' [] [] (fst (UpdateAPIKeys demoEnv ''key-1'' [] [] emptySettings))) = fst (UpdateAPIKeys demoEnv ''key-1'' [] [] emptySettings)"
    "fst (ChangePassword demoEnv ''wrong'' ''x'' ''y'' (fst (UpdateAPIKeys demoEnv ''another key'' [] [] emptySettings))) = fst (UpdateAPIKeys demoEnv ''another key'' [] [] emptySettings)"
    by (simp_all add: ChangePassword_def UpdateAPIKeys_def saveRows_def demoEnv_def emptySettings_def demoCfg_def Let_def)
  ultimately show ?thesis by simp
qed

end
