(* ===== verification/Spec2Isabelle.thy ===== *)
theory Spec2Isabelle
  imports EndToEnd Retro Listener Allowlists WebActions CachedScanners Routes Settings Maintenance Onnx HashImport Hub Listings Health YaraRules HiddenText
    Migrations FeedSources ConfigLoad Lifecycle Shutdown Loops LiveScanners HtmlPreview TestServer Bench Connect Pages
begin

text \<open>
  Verification of mailhook, a mail gateway that watches IMAP mailboxes, runs every message through a set of
  scanners and quarantines, deletes or flags what they find, with a web dashboard to review the outcome.

  \<^bold>\<open>The program.\<close> A listener per account (\<^verbatim>\<open>app/imap/listener.go\<close>) hands every unseen message to the pipeline
  (\<^verbatim>\<open>app/pipeline/pipeline.go\<close>). The pipeline parses it (\<^verbatim>\<open>email.go\<close>, with the decoders of \<^verbatim>\<open>safelinks.go\<close>), consults the block and
  allow lists, stores the raw message (\<^verbatim>\<open>app/storage/eml.go\<close>), runs the scanners (\<^verbatim>\<open>app/scanners\<close>) in parallel, combines their results
  (\<^verbatim>\<open>verdict.go\<close>), stores a row (\<^verbatim>\<open>app/db\<close>) and then acts on the server (\<^verbatim>\<open>app/imap/actions.go\<close>); when that fails, the row is reverted. The
  scanners look links and hashes up in the threat feeds (\<^verbatim>\<open>app/feeds\<close>) or ask services. A retrospective scanner (\<^verbatim>\<open>retro.go\<close>) repeats the look-up
  for messages that were clean. The dashboard (\<^verbatim>\<open>app/auth\<close>, \<^verbatim>\<open>app/web/handlers\<close>) logs users in, edits the lists and acts on rows.

  \<^bold>\<open>The theories and the code they model.\<close>
  \<^item> \<open>Prelude\<close>, \<open>NetIP\<close>, \<open>NetURL\<close>: the parts of Go's standard library that the sources call, as executable functions on byte
    strings; shared lemmas and the collection \<open>frame\<close>.
  \<^item> \<open>Models\<close>, \<open>Database\<close>, \<open>Invariants\<close>: \<^verbatim>\<open>db/models.go\<close> as records and JSON codecs; the tables with the unique index, the statements and
    transactions with faults; the locale \<open>table_invariant\<close> with its four interpretations.
  \<^item> \<open>Util\<close>, \<open>SafeLinks\<close>, \<open>Email\<close>: \<^verbatim>\<open>util/*.go\<close>, \<^verbatim>\<open>safelinks.go\<close> and the MIME walk of \<^verbatim>\<open>email.go\<close>; third-party parsers are fields of
    \<open>mail_lib\<close>.
  \<^item> \<open>Verdict\<close>, \<open>ScanRecord\<close>, \<open>Storage\<close>: \<^verbatim>\<open>verdict.go\<close> (\<open>Decide\<close>), the pure helpers of \<^verbatim>\<open>pipeline.go\<close>, and \<^verbatim>\<open>storage/eml.go\<close> over a file map.
  \<^item> \<open>Pipeline\<close>, \<open>PipelineCorrect\<close>, \<open>PipelineRuns\<close>: \<^verbatim>\<open>pipeline.go\<close> with the whole of \<open>process\<close> over a record of the world; what every run
    does; what complete runs do when the server cooperates.
  \<^item> \<open>Feeds\<close>, \<open>UrlScanners\<close>, \<open>ServiceScanners\<close>, \<open>CachedScanners\<close>: \<^verbatim>\<open>feeds/*.go\<close> and nine scanners. The locale \<open>scanner\<close> is the contract of a
    scanner, \<open>feed_lookup\<close> that of the feeds towards their clients and \<open>cached_lookup\<close> that of the tables of service answers.
  \<^item> \<open>EndToEnd\<close>: feed, scanner, verdict, pipeline and server composed.
  \<^item> \<open>Retro\<close>: \<^verbatim>\<open>retro.go\<close>. \<open>Listener\<close>: \<^verbatim>\<open>listener.go\<close> as a step relation. \<open>Mailbox\<close>: \<^verbatim>\<open>imap/actions.go\<close>, \<^verbatim>\<open>recovery.go\<close>, \<^verbatim>\<open>backfill.go\<close>,
    \<^verbatim>\<open>manager.go\<close>. \<open>Config\<close>, \<open>ConfigLoad\<close>: \<^verbatim>\<open>config.go\<close>. \<open>Migrations\<close>: \<^verbatim>\<open>db/migrations.go\<close>. \<open>FeedSources\<close>: the PhishTank download and the complete refresh.
  \<^item> \<open>Refinement\<close>: the locales \<open>simulation\<close> and \<open>inductive_invariant\<close>. \<open>Sessions\<close>, \<open>RateLimit\<close>, \<open>Middleware\<close>: \<^verbatim>\<open>auth/*.go\<close> and the login handler.
    \<open>Allowlists\<close>, \<open>WebActions\<close>: the handlers of the lists and of the actions on rows.
  \<^item> \<open>Routes\<close>: the route table of \<^verbatim>\<open>main.go\<close> with its guards, and the middleware of \<^verbatim>\<open>web/server.go\<close>. \<open>Settings\<close>, \<open>Encrypted\<close>, \<open>Notify\<close>: \<^verbatim>\<open>settings.go\<close> with
    what the start of the program reads back, \<^verbatim>\<open>db/encrypted.go\<close> and \<^verbatim>\<open>notify/ntfy.go\<close>.
  \<^item> \<open>Maintenance\<close>: the daily maintenance and the gauges of \<^verbatim>\<open>main.go\<close>. \<open>HashImport\<close>: \<^verbatim>\<open>feeds/malwarebazaar.go\<close>. \<open>Hub\<close>: the live events of \<^verbatim>\<open>web/server.go\<close> and
    \<^verbatim>\<open>sse.go\<close> as a step relation. \<open>Listings\<close>, \<open>Health\<close>: \<^verbatim>\<open>dashboard.go\<close>, \<^verbatim>\<open>emails.go\<close> and \<^verbatim>\<open>health.go\<close>.
  \<^item> \<open>Onnx\<close>, \<open>YaraRules\<close>, \<open>HiddenText\<close>: three more scanners, \<^verbatim>\<open>onnx_ai.go\<close>, \<^verbatim>\<open>yara.go\<close> with the life of its rule sets, and \<^verbatim>\<open>hiddentextdetect.go\<close> with its
    regular expressions. \<open>LiveScanners\<close>: the twelve scanner objects with their constructors and run-time setters under the locales \<open>reporting\<close> and \<open>switchable\<close>, the stub of
    the classifier in the default build (\<^verbatim>\<open>onnx_stub.go\<close>), and the switches of the dashboard.
  \<^item> \<open>Lifecycle\<close>, \<open>Shutdown\<close>, \<open>Loops\<close>: \<^verbatim>\<open>main.go\<close> from the first line to the last: the stages of the start with their exits, \<^verbatim>\<open>db.Open\<close>, the goroutines, contexts and wait groups of the running
    program and its end as a step relation, and the background loops.
  \<^item> \<open>Connect\<close>: the five ways to connect to a mail server, under the locale \<open>mail_dialer\<close>. \<open>Pages\<close>: rendering, the settings page, the pages of the lists, request decoding and \<^verbatim>\<open>registry.go\<close>.
    \<open>HtmlPreview\<close>: \<^verbatim>\<open>util/sanitise.go\<close> and \<^verbatim>\<open>hash.go\<close>.
  \<^item> \<open>TestServer\<close>: the IMAP server of the tests (\<^verbatim>\<open>imap/testserver\<close>), composed with the delete action and the recovery scan. \<open>Bench\<close>: the benchmark (\<^verbatim>\<open>cmd/bench\<close>), composed with the routes.

  State is passed explicitly. The environment is an argument: what the n-th IMAP call or transaction answers, in which order results arrive,
  the clock. A login is two steps, with other requests between the limiter's check and the answer. Errors are the left values of a sum; a call that may panic or not return has the type \<open>go\<close> of \<open>Email\<close>.

  \<^bold>\<open>What is shown.\<close> Every run of the pipeline returns unless it waits for a slot that is never freed, parsing or a scanner hangs, or the mail server never answers a call; it keeps the tables and the audit trail
  consistent, acts only on what it has recorded, and reverts the row when the server refuses. What cannot be parsed and what is
  block-listed is quarantined the first time it is seen; only authenticated mail bypasses the scan. The verdict does not depend on the order of the results and grows with
  the evidence while the critical scanners work. A message with a link from the feeds, or infected, leaves the inbox. A
  retrospective sweep equals one pass over the candidates, removes every listed message when the environment cooperates
  and touches nothing else. The listener never loses an unseen message and processes it once per
  connection; a quarantined message has left its mailbox; the recovery scan dispatches exactly what was missed. Sessions refine a
  specification over the history of operations; protected pages need a login, guesses are bounded by the requests in flight, tokens and client
  addresses cannot be forged. The store keeps to its directory and gives back what was written. Outgoing requests reach
  only public addresses and only the intended resources. Every route but the public ones is behind a login, also over restarts, and every one that changes state behind a token but for login, logout and scan.
  Settings survive a restart when their requests are durable, listeners always match the stored accounts, secrets read back as they were written, notifications do not leak what is masked. The daily maintenance keeps
  the evidence that is not due; an imported hash is found by the scanner; clients of the live events receive them in order. The pages of a listing show every row once, the export can be read back and
  its texts start no formula, the health report is at most ten seconds old. The remaining scanners flag exactly what their models, rules and patterns say, and rule sets outlive the scans
  of messages with at most one attachment. Migrations survive crashes. Listeners start only when everything before them is in order; an orderly end has run the saving of the sessions, ended the tasks
  and leaves no tracked goroutine with a closed database, and it can always be reached. A scanner that is switched off is silent and the others are not touched. The program itself sends passwords of accounts to verified servers only (the connection
  test of the dashboard is the exception), and no page depends on a stored key, token or password. The test server refines a mailbox keyed by UID, and a recovery scan on it settles the inbox. Where the code departs from its intent, a lemma shows the case.

  \<^bold>\<open>Bounds and fuel.\<close> The loop over redirects has the source's bound \<^verbatim>\<open>maxHops\<close> as its fuel, IMAP retries the four delays of the source; all
  other loops terminate by a measure. A stream of MIME parts may be infinite, and then parsing hangs, as the source does. Times are integers in
  nanoseconds, scores exact rationals (of the environment also infinities and NaN), UIDs 32-bit words; counters whose overflow is out of reach are natural numbers.

  \<^bold>\<open>Not modelled.\<close> A transaction fails as a whole, not in a statement whose error the source ignores. Libraries are arguments: the ONNX runtime, the YARA compiler and matcher, the HTML and MIME parsers and the sanitiser, AES-GCM, bcrypt, HMAC, SHA-256, gzip and CSV reading, HTTP, TLS
  and DNS, the HTML templates. Not modelled at all: the files under \<^verbatim>\<open>static\<close> and \<^verbatim>\<open>templates\<close>, which are data; the registration of counters and histograms in \<^verbatim>\<open>metrics.go\<close>; the generation of
  the self-signed certificate of the test server; struct definitions of handlers and interfaces, which only carry the arguments of the definitions. In the modelled parts: log lines, the wording of quoted
  values in error texts, response headers that carry no decision, the widths of the columns of the benchmark's table, data races on fields that are read without their lock, and case folding beyond ASCII.
\<close>

end
